(* ===== verification/Prelude.thy ===== *)
theory Prelude
  imports Main "HOL-Library.Word"
begin

unbundle bit_operations_syntax

text \<open>
  Shared vocabulary of the development: the machine integers of the C sources
  (\<^typ>\<open>64 word\<close> for \<open>uint64_t\<close> and \<open>size_t\<close>, \<^typ>\<open>32 word\<close> for \<open>uint32_t\<close> and
  \<open>unsigned\<close>), the \<open>errno\<close> values the code sets or inspects, result types for
  fallible calls, and the lemmas on words and lists that the components use.
  The collection \<open>word_nat\<close> moves guarded word arithmetic to the naturals.
\<close>

named_theorems word_nat \<open>guarded word arithmetic read on the naturals\<close>

type_synonym u8 = "8 word"
type_synonym u32 = "32 word"
type_synonym u64 = "64 word"
type_synonym path = string

datatype errno =
    EPERM | ENOENT | EINTR | EIO | E2BIG | EBUSY | EEXIST | ENODEV | EINVAL | ENOTBLK
  | EAGAIN | ENOSPC | ENAMETOOLONG | ENOSYS | EOVERFLOW | ESTALE | ETIMEDOUT | ECHILD
  | Errno_other nat

type_synonym 'a result = "errno + 'a"

abbreviation UINT64_MAX :: u64 where
  "UINT64_MAX \<equiv> - 1"

subsection \<open>Word arithmetic on the naturals\<close>

lemma unat_max64 [simp]: "unat UINT64_MAX = 2 ^ 64 - 1"
  using unat_minus_one [of "0 :: u64"] by (simp add: unsigned_minus_1_eq_mask mask_eq_exp_minus_1)

lemma unat_lt64 [simp]: "unat (x :: u64) < 2 ^ 64"
  using unsigned_less [of x] by simp

lemma unat_lt64_num [simp]: "unat (x :: u64) < 18446744073709551616"
  using unat_lt64 [of x] by simp

lemma unat_le_max64: "unat (x :: u64) \<le> 2 ^ 64 - 1"
  using unat_lt64 [of x] by linarith

lemma unat_add_64 [word_nat]:
  "unat (a :: u64) + unat b < 2 ^ 64 \<Longrightarrow> unat (a + b) = unat a + unat b"
  by (simp add: unat_word_ariths)

lemma unat_sub_64 [word_nat]:
  "b \<le> a \<Longrightarrow> unat ((a :: u64) - b) = unat a - unat b"
  by (rule unat_sub)

lemma unat_mult_64 [word_nat]:
  "unat (a :: u64) * unat b < 2 ^ 64 \<Longrightarrow> unat (a * b) = unat a * unat b"
  by (simp add: unat_word_ariths)

lemmas word_order_nat [word_nat] = word_le_nat_alt word_less_nat_alt

lemma word_gt_max_minus [word_nat]:
  "((a :: u64) > UINT64_MAX - b) \<longleftrightarrow> \<not> (unat a + unat b < 2 ^ 64)"
proof -
  have "unat (UINT64_MAX - b) = 2 ^ 64 - 1 - unat b"
    using unat_le_max64 [of b] by (simp add: unat_sub word_le_nat_alt)
  then show ?thesis
    using unat_le_max64 [of b] unat_lt64 [of a] by (simp add: word_less_nat_alt) linarith
qed

lemma unat_ucast_u32: "unat (ucast (b :: u32) :: u64) = unat b"
proof -
  have "unat b < 2 ^ 32" using unsigned_less [of b] by simp
  then have "unat b < 2 ^ 64" by (rule less_le_trans) simp
  then show ?thesis by (simp add: unsigned_ucast_eq take_bit_nat_eq_self)
qed

subsection \<open>Alignment\<close>

definition align_up :: "nat \<Rightarrow> nat \<Rightarrow> nat" where
  "align_up n a = n + (if n mod a = 0 then 0 else a - n mod a)"

lemma align_step: "0 < (a :: nat) \<Longrightarrow> n + (a - n mod a) = (n div a + 1) * a"
proof -
  assume a: "0 < a"
  have "n + (a - n mod a) = (n div a) * a + a"
    using mod_less_divisor [OF a, of n] div_mult_mod_eq [of n a] by linarith
  then show ?thesis by simp
qed

lemma align_up_dvd: "0 < a \<Longrightarrow> a dvd align_up n a"
proof (cases "n mod a = 0")
  case False
  assume "0 < a"
  then have "align_up n a = (n div a + 1) * a"
    using False align_step [of a n] unfolding align_up_def by (simp only: if_False)
  then show ?thesis by (simp only: dvd_triv_right)
qed (auto simp: align_up_def dvd_eq_mod_eq_0)

lemma align_up_ge: "n \<le> align_up n a"
  by (simp add: align_up_def)

lemma align_up_least:
  assumes "0 < a" "n \<le> m" "a dvd m"
  shows "align_up n a \<le> m"
proof (cases "n mod a = 0")
  case False
  from assms(3) obtain k where k: "m = k * a" by (metis dvd_div_mult_self)
  have "n div a < k"
  proof (rule ccontr)
    assume "\<not> n div a < k"
    then have "k * a \<le> (n div a) * a" by simp
    with assms(2) k have "n \<le> (n div a) * a" by linarith
    with False show False using div_mult_mod_eq [of n a] by linarith
  qed
  then have "(n div a + 1) * a \<le> k * a" by (intro mult_le_mono1) simp
  moreover have "n + (a - n mod a) = (n div a + 1) * a"
    by (rule align_step [OF assms(1)])
  ultimately show ?thesis using False k by (simp add: align_up_def)
qed (use assms in \<open>auto simp: align_up_def\<close>)

subsection \<open>Successive array stores\<close>

fun store_from :: "nat \<Rightarrow> 'a list \<Rightarrow> 'a list \<Rightarrow> 'a list" where
  "store_from i [] buf = buf"
| "store_from i (x # xs) buf = store_from (Suc i) xs (buf[i := x])"

lemma length_store_from [simp]: "length (store_from i xs buf) = length buf"
  by (induction xs arbitrary: i buf) auto

lemma store_from_eq:
  "i + length xs \<le> length buf \<Longrightarrow>
   store_from i xs buf = take i buf @ xs @ drop (i + length xs) buf"
proof (induction xs arbitrary: i buf)
  case (Cons x xs)
  then have "store_from i (x # xs) buf
      = take (Suc i) (buf[i := x]) @ xs @ drop (Suc i + length xs) (buf[i := x])"
    by simp
  also have "take (Suc i) (buf[i := x]) = take i buf @ [x]"
    using Cons.prems by (simp add: take_Suc_conv_app_nth take_update_cancel)
  finally show ?case using Cons.prems by simp
qed simp

lemma store_from_0_full: "length xs = length buf \<Longrightarrow> store_from 0 xs buf = xs"
  by (simp add: store_from_eq)

end
