(* ===== verification/Layout.thy ===== *)
theory Layout
  imports Prelude
begin

text \<open>
  The filesystem-neutral placement policy of \<open>src/core/ld_generic_layout.c\<close>: the
  records exchanged with a filesystem module (\<open>native/filesystem_defrag_abi.h\<close>),
  the growth reserve, the two-pass contiguous planner \<open>ld_generic_layout_plan\<close>, and
  the range-aware planner \<open>ld_generic_layout_plan_file_extents\<close> with its helpers.
  All unit counts are 64-bit words and every sum wraps as it does in C; the lemmas
  relate the guarded word computation to a specification on the naturals.
  An output array is a list together with the fact that the pass may be given no
  output (\<open>NULL\<close>); a store at an index is a list update, so a failing pass that had
  written would be visible.
\<close>

subsection \<open>Exchange records and status codes\<close>

record LayoutObject =
  object_id :: u64
  allocated_units :: u64
  alignment_units :: u64
  flags :: u32

record LayoutPlacement =
  pl_object_id :: u64
  pl_first_unit :: u64
  pl_allocated_units :: u64
  pl_gap_after_units :: u64

record FreeExtent =
  fe_first_unit :: u64
  fe_allocated_units :: u64

record PlannedExtent =
  pe_first_unit :: u64
  pe_allocated_units :: u64
  pe_gap_after_units :: u64

datatype layout_status =
    LD_LAYOUT_OK | LD_LAYOUT_INVALID | LD_LAYOUT_NO_SPACE | LD_LAYOUT_UNSUPPORTED
  | LD_LAYOUT_OUTPUT_TOO_SMALL

subsection \<open>Growth reserve\<close>

text \<open>\<open>None\<close> is the code's \<open>LD_LAYOUT_INVALID\<close> return, with \<open>*reserve\<close> not written.\<close>

definition reserve_units :: "u64 \<Rightarrow> u32 \<Rightarrow> u64 option" where
  "reserve_units units percent =
     (let p = ucast percent :: u64;
          whole = units div 100;
          remainder = units mod 100
      in if whole > UINT64_MAX div p then None
         else let first = whole * p;
                  last = (remainder * p + 99) div 100
              in if first > UINT64_MAX - last then None
                 else Some (first + last))"

subsection \<open>Contiguous placement\<close>

fun layout_pass_from ::
  "LayoutObject list \<Rightarrow> nat \<Rightarrow> u64 \<Rightarrow> u64 \<Rightarrow> u64 \<Rightarrow> u32 \<Rightarrow>
   LayoutPlacement list option \<Rightarrow> layout_status \<times> LayoutPlacement list option" where
  "layout_pass_from [] index cursor previous_id limit_unit growth_percent out = (LD_LAYOUT_OK, out)"
| "layout_pass_from (object # objects) index cursor previous_id limit_unit growth_percent out =
     (if object_id object = 0 \<or> object_id object \<le> previous_id \<or>
         allocated_units object = 0 \<or> alignment_units object = 0
      then (LD_LAYOUT_INVALID, out)
      else if flags object \<noteq> 0 then (LD_LAYOUT_UNSUPPORTED, out)
      else
        let remainder = cursor mod alignment_units object;
            pad = (if remainder \<noteq> 0 then alignment_units object - remainder else 0)
        in if cursor > limit_unit \<or> pad > limit_unit - cursor then (LD_LAYOUT_NO_SPACE, out)
        else let cursor = cursor + pad in
          if allocated_units object > limit_unit - cursor then (LD_LAYOUT_NO_SPACE, out)
          else case (if growth_percent \<noteq> 0 then reserve_units (allocated_units object) growth_percent
                     else Some 0) of
            None \<Rightarrow> (LD_LAYOUT_INVALID, out)
          | Some reserve \<Rightarrow>
              let out = map_option (\<lambda>buf. buf[index :=
                          \<lparr>pl_object_id = object_id object, pl_first_unit = cursor,
                           pl_allocated_units = allocated_units object,
                           pl_gap_after_units = reserve\<rparr>]) out;
                  cursor = cursor + allocated_units object
              in if reserve > limit_unit - cursor then (LD_LAYOUT_NO_SPACE, out)
                 else layout_pass_from objects (Suc index) (cursor + reserve) (object_id object)
                        limit_unit growth_percent out)"

definition layout_pass ::
  "LayoutObject list \<Rightarrow> u64 \<Rightarrow> u64 \<Rightarrow> u32 \<Rightarrow> LayoutPlacement list option \<Rightarrow>
   layout_status \<times> LayoutPlacement list option" where
  "layout_pass objects first_unit limit_unit growth_percent out =
     layout_pass_from objects 0 first_unit 0 limit_unit growth_percent out"

text \<open>
  A \<open>NULL\<close> array is \<open>None\<close>; the passes read the first \<open>count\<close> objects of the array.
\<close>

definition ld_generic_layout_plan ::
  "LayoutObject list option \<Rightarrow> nat \<Rightarrow> u64 \<Rightarrow> u64 \<Rightarrow> u32 \<Rightarrow> LayoutPlacement list option \<Rightarrow>
   layout_status \<times> LayoutPlacement list option" where
  "ld_generic_layout_plan objects count first_unit limit_unit growth_percent placements =
     (if (count \<noteq> 0 \<and> (objects = None \<or> placements = None)) \<or> first_unit > limit_unit \<or>
         (growth_percent \<noteq> 0 \<and> growth_percent \<noteq> 10)
      then (LD_LAYOUT_INVALID, placements)
      else let objs = take count (case objects of None \<Rightarrow> [] | Some os \<Rightarrow> os);
               valid = fst (layout_pass objs first_unit limit_unit growth_percent None)
      in if valid \<noteq> LD_LAYOUT_OK then (valid, placements)
         else layout_pass objs first_unit limit_unit growth_percent placements)"

subsection \<open>Placement of one file around certified free ranges\<close>

fun check_free_ranges_from :: "FreeExtent list \<Rightarrow> nat \<Rightarrow> u64 \<Rightarrow> layout_status" where
  "check_free_ranges_from [] i previous_end = LD_LAYOUT_OK"
| "check_free_ranges_from (extent # ranges) i previous_end =
     (let first = fe_first_unit extent; len = fe_allocated_units extent in
      if len = 0 \<or> first > UINT64_MAX - len \<or> (i \<noteq> 0 \<and> first < previous_end)
      then LD_LAYOUT_INVALID
      else check_free_ranges_from ranges (Suc i) (first + len))"

definition check_free_ranges :: "FreeExtent list \<Rightarrow> layout_status" where
  "check_free_ranges ranges = check_free_ranges_from ranges 0 0"

definition usable_range :: "FreeExtent \<Rightarrow> u64 \<Rightarrow> u64 \<times> u64" where
  "usable_range extent alignment =
     (let modulo = fe_first_unit extent mod alignment;
          padding = (if modulo \<noteq> 0 then alignment - modulo else 0)
      in if padding > fe_allocated_units extent then (fe_first_unit extent, 0)
         else (fe_first_unit extent + padding, fe_allocated_units extent - padding))"

text \<open>The first loop: the earliest range that holds the whole file and its gap.\<close>

fun single_extent_fit :: "LayoutObject \<Rightarrow> FreeExtent list \<Rightarrow> u64 \<Rightarrow> u64 option" where
  "single_extent_fit object [] gap = None"
| "single_extent_fit object (extent # ranges) gap =
     (let (first, capacity) = usable_range extent (alignment_units object) in
      if allocated_units object \<le> capacity \<and> gap \<le> capacity - allocated_units object
      then Some first
      else single_extent_fit object ranges gap)"

text \<open>The fallback loop; \<open>count\<close> is the number of extents written so far.\<close>

fun split_extents ::
  "u64 \<Rightarrow> FreeExtent list \<Rightarrow> u64 \<Rightarrow> u64 \<Rightarrow> nat \<Rightarrow> PlannedExtent list option \<Rightarrow>
   layout_status \<times> PlannedExtent list option \<times> nat" where
  "split_extents alignment [] gap remaining count output = (LD_LAYOUT_NO_SPACE, output, count)"
| "split_extents alignment (extent # ranges) gap remaining count output =
     (if remaining = 0 then (LD_LAYOUT_NO_SPACE, output, count)
      else let (first, capacity) = usable_range extent alignment in
        if capacity = 0 then split_extents alignment ranges gap remaining count output
        else
          let finish = (remaining \<le> capacity \<and> gap \<le> capacity - remaining);
              take = (if capacity < remaining then capacity else remaining);
              borrow = (\<not> finish \<and> take = remaining)
          in if borrow \<and> take = 1 then split_extents alignment ranges gap remaining count output
          else
            let take = (if borrow then take - 1 else take) in
            if take = 0 then split_extents alignment ranges gap remaining count output
            else if count = 2 ^ 64 - 1 then (LD_LAYOUT_INVALID, output, count)
            else
              let output = map_option (\<lambda>buf. buf[count :=
                             \<lparr>pe_first_unit = first, pe_allocated_units = take,
                              pe_gap_after_units = (if finish then gap else 0)\<rparr>]) output
              in if finish then (LD_LAYOUT_OK, output, Suc count)
                 else split_extents alignment ranges gap (remaining - take) (Suc count) output)"

definition plan_file_extent_pass ::
  "LayoutObject \<Rightarrow> FreeExtent list \<Rightarrow> u64 \<Rightarrow> PlannedExtent list option \<Rightarrow>
   layout_status \<times> PlannedExtent list option \<times> nat" where
  "plan_file_extent_pass object free_extents gap output =
     (case single_extent_fit object free_extents gap of
        Some first \<Rightarrow>
          (LD_LAYOUT_OK,
           map_option (\<lambda>buf. buf[0 := \<lparr>pe_first_unit = first,
                                   pe_allocated_units = allocated_units object,
                                   pe_gap_after_units = gap\<rparr>]) output, 1)
      | None \<Rightarrow> split_extents (alignment_units object) free_extents gap
                  (allocated_units object) 0 output)"

text \<open>
  The result is the status, the output array and the value of \<open>*written\<close> (\<open>None\<close>
  when it is not stored). The output capacity is the length of the array; a \<open>NULL\<close>
  array has capacity \<open>0\<close>.
\<close>

definition ld_generic_layout_plan_file_extents ::
  "LayoutObject option \<Rightarrow> FreeExtent list option \<Rightarrow> nat \<Rightarrow> u32 \<Rightarrow>
   PlannedExtent list option \<Rightarrow> nat \<Rightarrow> bool \<Rightarrow>
   layout_status \<times> PlannedExtent list option \<times> nat option" where
  "ld_generic_layout_plan_file_extents object free_extents free_count growth_percent
      output output_capacity written_given =
     (case object of None \<Rightarrow> (LD_LAYOUT_INVALID, output, None) | Some object \<Rightarrow>
      if \<not> written_given \<or> (free_count \<noteq> 0 \<and> free_extents = None) \<or>
         (growth_percent \<noteq> 0 \<and> growth_percent \<noteq> 10) \<or>
         (output_capacity \<noteq> 0 \<and> output = None) \<or>
         object_id object = 0 \<or> allocated_units object = 0 \<or> alignment_units object = 0
      then (LD_LAYOUT_INVALID, output, None)
      else if flags object \<noteq> 0 then (LD_LAYOUT_UNSUPPORTED, output, None)
      else
        let ranges = take free_count (case free_extents of None \<Rightarrow> [] | Some rs \<Rightarrow> rs) in
        if check_free_ranges ranges \<noteq> LD_LAYOUT_OK then (LD_LAYOUT_INVALID, output, None)
        else case (if growth_percent \<noteq> 0 then reserve_units (allocated_units object) growth_percent
                   else Some 0) of
          None \<Rightarrow> (LD_LAYOUT_INVALID, output, None)
        | Some gap \<Rightarrow>
            let (first, _, required) = plan_file_extent_pass object ranges gap None in
            if first \<noteq> LD_LAYOUT_OK then (first, output, None)
            else if required > output_capacity then (LD_LAYOUT_OUTPUT_TOO_SMALL, output, None)
            else
              let (second, output, actual) = plan_file_extent_pass object ranges gap output in
              if second \<noteq> LD_LAYOUT_OK \<or> actual \<noteq> required then (LD_LAYOUT_INVALID, output, None)
              else (LD_LAYOUT_OK, output, Some required))"

subsection \<open>The growth reserve is a rounded-up ten percent\<close>

definition growth_gap :: "u32 \<Rightarrow> nat \<Rightarrow> nat" where
  "growth_gap percent units = (if percent = 0 then 0 else (units * 10 + 99) div 100)"

lemma div_ceil_split: "(10 * (u div 100) + (10 * (u mod 100) + 99) div 100 :: nat) = (u * 10 + 99) div 100"
proof -
  have "u * 10 + 99 = (10 * (u mod 100) + 99) + 100 * (10 * (u div 100))"
    using div_mult_mod_eq [of u 100] by linarith
  then show ?thesis by simp
qed

lemma reserve_units_ten:
  "\<exists>r. reserve_units u 10 = Some r \<and> unat r = (unat u * 10 + 99) div 100"
proof -
  let ?whole = "u div 100" and ?rem = "u mod 100"
  let ?last = "(?rem * 10 + 99) div 100"
  have w: "unat ?whole = unat u div 100" and r: "unat ?rem = unat u mod 100"
    by (simp_all add: unat_div unat_mod)
  have ule: "unat u div 100 \<le> 184467440737095516"
    by (rule order_trans [OF div_le_mono [OF unat_le_max64]]) simp
  have g1: "\<not> ?whole > UINT64_MAX div 10"
    using ule by (simp add: word_less_nat_alt w unat_div)
  have fst: "unat (?whole * 10) = 10 * (unat u div 100)"
    using ule by (subst unat_mult_64) (simp_all add: w)
  have m: "unat (?rem * 10) = 10 * (unat u mod 100)"
    by (subst unat_mult_64) (simp_all add: r)
  have "unat (?rem * 10 + 99) = 10 * (unat u mod 100) + 99"
    by (subst unat_add_64) (simp_all add: m)
  then have lst: "unat ?last = (10 * (unat u mod 100) + 99) div 100"
    by (simp add: unat_div)
  have sum: "unat (?whole * 10) + unat ?last < 2 ^ 64"
    using ule by (simp add: fst lst)
  have "reserve_units u 10 = Some (?whole * 10 + ?last)"
    using g1 sum by (simp add: reserve_units_def Let_def word_gt_max_minus)
  moreover have "unat (?whole * 10 + ?last) = (unat u * 10 + 99) div 100"
    by (simp only: unat_add_64 [OF sum] fst lst div_ceil_split)
  ultimately show ?thesis by blast
qed

subsection \<open>Specification of the contiguous planner on the naturals\<close>

fun valid_objects :: "u64 \<Rightarrow> LayoutObject list \<Rightarrow> bool" where
  "valid_objects previous_id [] = True"
| "valid_objects previous_id (x # xs) =
     (object_id x \<noteq> 0 \<and> previous_id < object_id x \<and> allocated_units x \<noteq> 0 \<and>
      alignment_units x \<noteq> 0 \<and> flags x = 0 \<and> valid_objects (object_id x) xs)"

definition object_start :: "nat \<Rightarrow> LayoutObject \<Rightarrow> nat" where
  "object_start cursor x = align_up cursor (unat (alignment_units x))"

definition object_end :: "u32 \<Rightarrow> nat \<Rightarrow> LayoutObject \<Rightarrow> nat" where
  "object_end growth cursor x =
     object_start cursor x + unat (allocated_units x) + growth_gap growth (unat (allocated_units x))"

fun layout_end :: "u32 \<Rightarrow> nat \<Rightarrow> LayoutObject list \<Rightarrow> nat" where
  "layout_end growth cursor [] = cursor"
| "layout_end growth cursor (x # xs) = layout_end growth (object_end growth cursor x) xs"

fun layout_places :: "u32 \<Rightarrow> nat \<Rightarrow> LayoutObject list \<Rightarrow> LayoutPlacement list" where
  "layout_places growth cursor [] = []"
| "layout_places growth cursor (x # xs) =
     \<lparr>pl_object_id = object_id x,
      pl_first_unit = of_nat (object_start cursor x),
      pl_allocated_units = allocated_units x,
      pl_gap_after_units = of_nat (growth_gap growth (unat (allocated_units x)))\<rparr>
     # layout_places growth (object_end growth cursor x) xs"

lemma object_start_ge: "cursor \<le> object_start cursor x"
  by (simp add: object_start_def align_up_ge)

lemma object_end_ge: "cursor \<le> object_end growth cursor x"
  using object_start_ge [of cursor x] by (simp add: object_end_def)

lemma layout_end_ge: "cursor \<le> layout_end growth cursor xs"
  by (induction xs arbitrary: cursor) (auto intro: order_trans [OF object_end_ge])

lemma length_layout_places [simp]: "length (layout_places growth cursor xs) = length xs"
  by (induction xs arbitrary: cursor) auto

subsection \<open>One step of the word computation\<close>

lemma of_nat_unat_eq: "unat (w :: u64) = n \<Longrightarrow> w = of_nat n"
  by auto

definition pad_units :: "u64 \<Rightarrow> u64 \<Rightarrow> u64" where
  "pad_units cursor alignment =
     (if cursor mod alignment \<noteq> 0 then alignment - cursor mod alignment else 0)"

lemma pad_units_nat:
  assumes "alignment \<noteq> 0"
  shows "unat cursor + unat (pad_units cursor alignment) = align_up (unat cursor) (unat alignment)"
proof -
  have "0 < unat alignment" using assms by (simp add: unat_gt_0)
  then have "unat cursor mod unat alignment < unat alignment" by simp
  then have "cursor mod alignment \<le> alignment"
    by (simp add: word_le_nat_alt unat_mod)
  then show ?thesis
    by (auto simp: pad_units_def align_up_def unat_sub unat_mod unat_eq_0 [symmetric])
qed

lemma room_test:
  assumes "(c :: u64) \<le> l"
  shows "(n > l - c) \<longleftrightarrow> \<not> (unat c + unat n \<le> unat l)"
  using assms by (auto simp: word_less_nat_alt unat_sub word_le_nat_alt)

lemma room_add:
  assumes "unat (c :: u64) + unat n \<le> unat l"
  shows "unat (c + n) = unat c + unat n" and "c + n \<le> l"
proof -
  have "unat c + unat n < 2 ^ 64"
    using assms unat_lt64 [of l] by linarith
  then show "unat (c + n) = unat c + unat n" by (rule unat_add_64)
  with assms show "c + n \<le> l" by (simp add: word_le_nat_alt)
qed

lemma reserve_step:
  assumes "growth = 0 \<or> growth = 10"
  shows "\<exists>r. (if growth \<noteq> 0 then reserve_units u growth else Some 0) = Some r \<and>
             unat r = growth_gap growth (unat u)"
  using assms reserve_units_ten [of u] by (auto simp: growth_gap_def)

definition place_at :: "u32 \<Rightarrow> nat \<Rightarrow> LayoutObject \<Rightarrow> LayoutPlacement" where
  "place_at growth cursor x =
     \<lparr>pl_object_id = object_id x,
      pl_first_unit = of_nat (object_start cursor x),
      pl_allocated_units = allocated_units x,
      pl_gap_after_units = of_nat (growth_gap growth (unat (allocated_units x)))\<rparr>"

lemma layout_places_Cons:
  "layout_places growth cursor (x # xs)
     = place_at growth cursor x # layout_places growth (object_end growth cursor x) xs"
  by (simp add: place_at_def)

lemma layout_pass_step_fits:
  assumes head: "object_id x \<noteq> 0" "previous_id < object_id x" "allocated_units x \<noteq> 0"
      "alignment_units x \<noteq> 0" "flags x = 0"
    and growth: "growth = 0 \<or> growth = 10" and cl: "cursor \<le> limit"
    and fits: "object_end growth (unat cursor) x \<le> unat limit"
  shows "layout_pass_from (x # xs) i cursor previous_id limit growth out
       = layout_pass_from xs (Suc i) (of_nat (object_end growth (unat cursor) x)) (object_id x)
           limit growth (map_option (\<lambda>b. b[i := place_at growth (unat cursor) x]) out)"
    and "of_nat (object_end growth (unat cursor) x) \<le> limit"
    and "unat (of_nat (object_end growth (unat cursor) x) :: u64) = object_end growth (unat cursor) x"
proof -
  let ?pad = "pad_units cursor (alignment_units x)"
  let ?c1 = "cursor + ?pad" and ?n = "allocated_units x"
  have guard: "\<not> object_id x \<le> previous_id" using head(2) by simp
  obtain r where r: "(if growth \<noteq> 0 then reserve_units ?n growth else Some 0) = Some r"
      and ur: "unat r = growth_gap growth (unat ?n)"
    using reserve_step [OF growth] by blast
  have start: "unat cursor + unat ?pad = object_start (unat cursor) x"
    using head(4) by (simp add: pad_units_nat object_start_def)
  have e: "object_end growth (unat cursor) x = unat cursor + unat ?pad + unat ?n + unat r"
    by (simp add: object_end_def ur start)
  have s1: "unat cursor + unat ?pad \<le> unat limit" using fits e by linarith
  note c1 = room_add [OF s1]
  have s2: "unat ?c1 + unat ?n \<le> unat limit" using fits e by (simp add: c1)
  note c2 = room_add [OF s2]
  have s3: "unat (?c1 + ?n) + unat r \<le> unat limit" using fits e by (simp add: c1 c2)
  note c3 = room_add [OF s3]
  have end_eq: "?c1 + ?n + r = of_nat (object_end growth (unat cursor) x)"
    by (rule of_nat_unat_eq) (simp add: c1 c2 c3 e)
  have start_eq: "?c1 = of_nat (object_start (unat cursor) x)"
    by (rule of_nat_unat_eq) (simp add: c1 start)
  have r_eq: "r = of_nat (growth_gap growth (unat ?n))"
    by (rule of_nat_unat_eq) (rule ur)
  show "unat (of_nat (object_end growth (unat cursor) x) :: u64) = object_end growth (unat cursor) x"
    by (simp add: end_eq [symmetric] c1 c2 c3 e)
  then show "of_nat (object_end growth (unat cursor) x) \<le> limit"
    using fits by (simp add: word_le_nat_alt)
  show "layout_pass_from (x # xs) i cursor previous_id limit growth out
       = layout_pass_from xs (Suc i) (of_nat (object_end growth (unat cursor) x)) (object_id x)
           limit growth (map_option (\<lambda>b. b[i := place_at growth (unat cursor) x]) out)"
    using head cl r s1 s2 s3 guard leD [OF cl]
    by (simp add: Let_def place_at_def pad_units_def [symmetric] room_test c1(2) c2(2)
          end_eq [symmetric] start_eq [symmetric] r_eq [symmetric])
qed

lemma layout_pass_step_overflow:
  assumes head: "object_id x \<noteq> 0" "previous_id < object_id x" "allocated_units x \<noteq> 0"
      "alignment_units x \<noteq> 0" "flags x = 0"
    and growth: "growth = 0 \<or> growth = 10" and cl: "cursor \<le> limit"
    and over: "\<not> object_end growth (unat cursor) x \<le> unat limit"
  shows "fst (layout_pass_from (x # xs) i cursor previous_id limit growth out) = LD_LAYOUT_NO_SPACE"
proof -
  let ?pad = "pad_units cursor (alignment_units x)"
  let ?n = "allocated_units x"
  have guard: "\<not> object_id x \<le> previous_id" "\<not> limit < cursor" using head(2) cl by simp_all
  obtain r where r: "(if growth \<noteq> 0 then reserve_units ?n growth else Some 0) = Some r"
      and ur: "unat r = growth_gap growth (unat ?n)"
    using reserve_step [OF growth] by blast
  have e: "object_end growth (unat cursor) x = unat cursor + unat ?pad + unat ?n + unat r"
    using head(4) by (simp add: object_end_def ur pad_units_nat object_start_def)
  show ?thesis
  proof (cases "unat cursor + unat ?pad \<le> unat limit")
    case s1: True
    note c1 = room_add [OF s1]
    show ?thesis
    proof (cases "unat (cursor + ?pad) + unat ?n \<le> unat limit")
      case s2: True
      note c2 = room_add [OF s2]
      have s3: "\<not> unat (cursor + ?pad + ?n) + unat r \<le> unat limit"
        using over e by (simp add: c1 c2)
      show ?thesis
        using head cl r s1 s2 s3 guard
        by (simp add: Let_def pad_units_def [symmetric] room_test c1(2) c2(2))
    next
      case False
      then show ?thesis
        using head cl s1 guard by (simp add: Let_def pad_units_def [symmetric] room_test c1(2))
    qed
  next
    case False
    then show ?thesis
      using head cl guard by (simp add: Let_def pad_units_def [symmetric] room_test)
  qed
qed

subsection \<open>The pass computes the specified layout\<close>

lemma layout_pass_result:
  assumes "growth = 0 \<or> growth = 10" and "cursor \<le> limit" and "valid_objects previous_id xs"
    and "layout_end growth (unat cursor) xs \<le> unat limit"
  shows "layout_pass_from xs i cursor previous_id limit growth out
       = (LD_LAYOUT_OK, map_option (store_from i (layout_places growth (unat cursor) xs)) out)"
  using assms(2-4)
proof (induction xs arbitrary: i cursor previous_id out)
  case Nil
  then show ?case by (simp add: option.map_ident)
next
  case (Cons x xs)
  from Cons.prems have head: "object_id x \<noteq> 0" "previous_id < object_id x"
      "allocated_units x \<noteq> 0" "alignment_units x \<noteq> 0" "flags x = 0"
    and rest: "valid_objects (object_id x) xs" by auto
  have fits: "object_end growth (unat cursor) x \<le> unat limit"
    using Cons.prems(3) by (auto intro: order_trans [OF layout_end_ge])
  note step = layout_pass_step_fits [OF head assms(1) Cons.prems(1) fits]
  have "layout_end growth (unat (of_nat (object_end growth (unat cursor) x) :: u64)) xs \<le> unat limit"
    using Cons.prems(3) by (simp only: step(3) layout_end.simps)
  note rec = Cons.IH [OF step(2) rest this, unfolded step(3)]
  show ?case
    by (simp only: step(1) rec layout_places_Cons option.map_comp comp_def store_from.simps)
qed

lemma layout_pass_no_space:
  assumes "growth = 0 \<or> growth = 10" and "cursor \<le> limit" and "valid_objects previous_id xs"
    and "\<not> layout_end growth (unat cursor) xs \<le> unat limit"
  shows "fst (layout_pass_from xs i cursor previous_id limit growth out) = LD_LAYOUT_NO_SPACE"
  using assms(2-4)
proof (induction xs arbitrary: i cursor previous_id out)
  case Nil
  then show ?case by (simp add: word_le_nat_alt)
next
  case (Cons x xs)
  from Cons.prems have head: "object_id x \<noteq> 0" "previous_id < object_id x"
      "allocated_units x \<noteq> 0" "alignment_units x \<noteq> 0" "flags x = 0"
    and rest: "valid_objects (object_id x) xs" by auto
  show ?case
  proof (cases "object_end growth (unat cursor) x \<le> unat limit")
    case True
    note step = layout_pass_step_fits [OF head assms(1) Cons.prems(1) True]
    have "\<not> layout_end growth (unat (of_nat (object_end growth (unat cursor) x) :: u64)) xs \<le> unat limit"
      using Cons.prems(3) by (simp only: step(3) layout_end.simps) simp
    from Cons.IH [OF step(2) rest this] show ?thesis by (simp only: step(1))
  next
    case False
    then show ?thesis by (rule layout_pass_step_overflow [OF head assms(1) Cons.prems(1)])
  qed
qed

lemma layout_pass_ok_valid:
  assumes "growth = 0 \<or> growth = 10" and "cursor \<le> limit"
    and "fst (layout_pass_from xs i cursor previous_id limit growth out) = LD_LAYOUT_OK"
  shows "valid_objects previous_id xs"
  using assms(2,3)
proof (induction xs arbitrary: i cursor previous_id out)
  case (Cons x xs)
  have "object_id x \<noteq> 0 \<and> previous_id < object_id x \<and> allocated_units x \<noteq> 0 \<and>
      alignment_units x \<noteq> 0 \<and> flags x = 0"
    using Cons.prems(2) by (auto split: if_splits)
  then have head: "object_id x \<noteq> 0" "previous_id < object_id x"
      "allocated_units x \<noteq> 0" "alignment_units x \<noteq> 0" "flags x = 0" by simp_all
  have "object_end growth (unat cursor) x \<le> unat limit"
    using layout_pass_step_overflow [OF head assms(1) Cons.prems(1)] Cons.prems(2) by fastforce
  note step = layout_pass_step_fits [OF head assms(1) Cons.prems(1) this]
  from Cons.prems(2) [unfolded step(1)] have "valid_objects (object_id x) xs"
    by (rule Cons.IH [OF step(2)])
  with head show ?case by simp
qed simp

text \<open>The output argument never changes the verdict of a pass.\<close>

lemma layout_pass_ok_iff:
  assumes "growth = 0 \<or> growth = 10" and "cursor \<le> limit"
  shows "fst (layout_pass_from xs i cursor previous_id limit growth out) = LD_LAYOUT_OK \<longleftrightarrow>
         valid_objects previous_id xs \<and> layout_end growth (unat cursor) xs \<le> unat limit"
  using layout_pass_result [OF assms, of previous_id xs i out]
    layout_pass_no_space [OF assms, of previous_id xs i out]
    layout_pass_ok_valid [OF assms, of xs i previous_id out]
  by fastforce

subsection \<open>What a specified layout guarantees\<close>

definition place_end :: "LayoutPlacement \<Rightarrow> nat" where
  "place_end p = unat (pl_first_unit p) + unat (pl_allocated_units p) + unat (pl_gap_after_units p)"

definition placed_in :: "u32 \<Rightarrow> nat \<Rightarrow> nat \<Rightarrow> LayoutObject \<Rightarrow> LayoutPlacement \<Rightarrow> bool" where
  "placed_in growth lo hi x p \<longleftrightarrow>
     pl_object_id p = object_id x \<and> pl_allocated_units p = allocated_units x \<and>
     unat (pl_gap_after_units p) = growth_gap growth (unat (allocated_units x)) \<and>
     unat (alignment_units x) dvd unat (pl_first_unit p) \<and>
     lo \<le> unat (pl_first_unit p) \<and> place_end p \<le> hi"

lemma place_at_placed:
  assumes "alignment_units x \<noteq> 0" and "object_end growth cursor x \<le> hi" and "hi < 2 ^ 64"
  shows "placed_in growth cursor hi x (place_at growth cursor x)"
    and "place_end (place_at growth cursor x) = object_end growth cursor x"
proof -
  have a: "0 < unat (alignment_units x)" using assms(1) by (simp add: unat_gt_0)
  have "object_start cursor x < 2 ^ 64" "growth_gap growth (unat (allocated_units x)) < 2 ^ 64"
    using assms(2,3) by (simp_all add: object_end_def)
  then have u: "unat (of_nat (object_start cursor x) :: u64) = object_start cursor x"
      "unat (of_nat (growth_gap growth (unat (allocated_units x))) :: u64)
         = growth_gap growth (unat (allocated_units x))"
    by (simp_all add: unat_of_nat)
  then show e: "place_end (place_at growth cursor x) = object_end growth cursor x"
    by (simp add: place_end_def place_at_def object_end_def)
  have "unat (alignment_units x) dvd object_start cursor x"
    by (simp add: object_start_def align_up_dvd a)
  then show "placed_in growth cursor hi x (place_at growth cursor x)"
    unfolding placed_in_def e
    using assms(2) object_start_ge [of cursor x] by (simp add: place_at_def u)
qed

lemma placed_in_mono: "placed_in growth lo hi x p \<Longrightarrow> lo' \<le> lo \<Longrightarrow> placed_in growth lo' hi x p"
  by (auto simp: placed_in_def)

lemma layout_places_sound:
  assumes "valid_objects previous_id xs" and "layout_end growth cursor xs \<le> hi" and "hi < 2 ^ 64"
  shows "list_all2 (placed_in growth cursor hi) xs (layout_places growth cursor xs) \<and>
         sorted_wrt (\<lambda>p q. place_end p \<le> unat (pl_first_unit q)) (layout_places growth cursor xs)"
  using assms(1,2)
proof (induction xs arbitrary: previous_id cursor)
  case (Cons x xs)
  let ?e = "object_end growth cursor x"
  have al: "alignment_units x \<noteq> 0" and fits: "?e \<le> hi"
    using Cons.prems by (auto intro: order_trans [OF layout_end_ge])
  note here = place_at_placed [OF al fits assms(3)]
  from Cons.IH [of "object_id x" ?e] Cons.prems
  have rec: "list_all2 (placed_in growth ?e hi) xs (layout_places growth ?e xs)"
    and ord: "sorted_wrt (\<lambda>p q. place_end p \<le> unat (pl_first_unit q)) (layout_places growth ?e xs)"
    by simp_all
  have "\<forall>q \<in> set (layout_places growth ?e xs). ?e \<le> unat (pl_first_unit q)"
    using rec by (auto simp: placed_in_def list_all2_conv_all_nth in_set_conv_nth)
  moreover have "list_all2 (placed_in growth cursor hi) xs (layout_places growth ?e xs)"
    by (rule list_all2_mono [OF rec]) (auto elim: placed_in_mono simp: object_end_ge)
  ultimately show ?case
    using here ord by (simp add: layout_places_Cons del: layout_places.simps)
qed simp

text \<open>Any ordered, aligned placement with the same gaps needs at least as many units.\<close>

fun feasible :: "u32 \<Rightarrow> nat \<Rightarrow> nat \<Rightarrow> LayoutObject list \<Rightarrow> nat list \<Rightarrow> bool" where
  "feasible growth cursor limit [] [] = (cursor \<le> limit)"
| "feasible growth cursor limit (x # xs) (s # ss) =
     (cursor \<le> s \<and> unat (alignment_units x) dvd s \<and>
      feasible growth (s + unat (allocated_units x) + growth_gap growth (unat (allocated_units x)))
        limit xs ss)"
| "feasible growth cursor limit _ _ = False"

lemma feasible_layout_end:
  "valid_objects previous_id xs \<Longrightarrow> feasible growth cursor limit xs ss \<Longrightarrow> c0 \<le> cursor \<Longrightarrow>
   layout_end growth c0 xs \<le> limit"
proof (induction growth cursor limit xs ss arbitrary: previous_id c0 rule: feasible.induct)
  case (2 growth cursor limit x xs s ss)
  have "object_start c0 x \<le> s"
    using 2 by (auto simp: object_start_def unat_gt_0 intro: align_up_least)
  then show ?case
    using 2 by (auto simp: object_end_def intro: "2.IH")
qed auto

lemma layout_end_feasible:
  "valid_objects previous_id xs \<Longrightarrow> layout_end growth cursor xs \<le> limit \<Longrightarrow>
   \<exists>ss. feasible growth cursor limit xs ss"
proof (induction xs arbitrary: previous_id cursor)
  case Nil
  then show ?case by (auto intro: exI [of _ "[]"])
next
  case (Cons x xs)
  then obtain ss where "feasible growth (object_end growth cursor x) limit xs ss" by fastforce
  with Cons.prems have "feasible growth cursor limit (x # xs) (object_start cursor x # ss)"
    by (simp add: object_end_def object_start_def align_up_ge align_up_dvd unat_gt_0)
  then show ?case by blast
qed

subsection \<open>Properties of the contiguous planner\<close>

lemma plan_unfold:
  assumes "growth = 0 \<or> growth = 10" and "first \<le> limit"
  shows "ld_generic_layout_plan (Some objects) (length objects) first limit growth (Some buf) =
    (if fst (layout_pass_from objects 0 first 0 limit growth None) = LD_LAYOUT_OK
     then layout_pass_from objects 0 first 0 limit growth (Some buf)
     else (fst (layout_pass_from objects 0 first 0 limit growth None), Some buf))"
  using assms by (auto simp: ld_generic_layout_plan_def layout_pass_def Let_def)

lemma plan_ok_args:
  assumes "fst (ld_generic_layout_plan objects n first limit growth out) = LD_LAYOUT_OK"
  shows "growth = 0 \<or> growth = 10" and "first \<le> limit"
  using assms by (auto simp: ld_generic_layout_plan_def split: if_splits)

text \<open>
  Property C1. For objects with strictly increasing non-zero identifiers, non-zero sizes and
  alignments and no flags, \<open>ld_generic_layout_plan\<close> decides exactly whether the
  layout computed over unbounded naturals fits below the limit: it then stores that
  layout, and otherwise reports \<open>LD_LAYOUT_NO_SPACE\<close> and leaves the array alone. In
  particular no 64-bit sum of the planner wraps.
\<close>
theorem layout_plan_refines:
  assumes "growth = 0 \<or> growth = 10" and "first \<le> limit" and "valid_objects 0 objects"
    and "length buf = length objects"
  shows "ld_generic_layout_plan (Some objects) (length objects) first limit growth (Some buf) =
    (if layout_end growth (unat first) objects \<le> unat limit
     then (LD_LAYOUT_OK, Some (layout_places growth (unat first) objects))
     else (LD_LAYOUT_NO_SPACE, Some buf))"
  using assms layout_pass_result [OF assms(1-3)] layout_pass_no_space [OF assms(1-3)]
  by (simp add: plan_unfold store_from_0_full)

definition demo_objects :: "LayoutObject list" where
  "demo_objects =
     [\<lparr>object_id = 1, allocated_units = 100, alignment_units = 1, flags = 0\<rparr>,
      \<lparr>object_id = 2, allocated_units = 19, alignment_units = 8, flags = 0\<rparr>]"

definition blank_placement :: LayoutPlacement where
  "blank_placement = \<lparr>pl_object_id = 0, pl_first_unit = 0, pl_allocated_units = 0,
                      pl_gap_after_units = 0\<rparr>"

lemma demo_layout:
  "valid_objects 0 demo_objects" "length demo_objects = 2"
  "layout_end 10 7 demo_objects = 141"
  "layout_places 10 7 demo_objects =
     [\<lparr>pl_object_id = 1, pl_first_unit = 7, pl_allocated_units = 100, pl_gap_after_units = 10\<rparr>,
      \<lparr>pl_object_id = 2, pl_first_unit = 120, pl_allocated_units = 19, pl_gap_after_units = 2\<rparr>]"
  by (simp_all add: demo_objects_def object_end_def object_start_def align_up_def growth_gap_def)

lemma demo_plan:
  "ld_generic_layout_plan (Some demo_objects) (length demo_objects) 7 141 10
     (Some [blank_placement, blank_placement]) = (LD_LAYOUT_OK, Some
       [\<lparr>pl_object_id = 1, pl_first_unit = 7, pl_allocated_units = 100, pl_gap_after_units = 10\<rparr>,
        \<lparr>pl_object_id = 2, pl_first_unit = 120, pl_allocated_units = 19, pl_gap_after_units = 2\<rparr>])"
  "ld_generic_layout_plan (Some demo_objects) (length demo_objects) 7 140 10
     (Some [blank_placement, blank_placement]) =
     (LD_LAYOUT_NO_SPACE, Some [blank_placement, blank_placement])"
  using layout_pass_result [of 10 7 141 0 demo_objects 0]
    layout_pass_no_space [of 10 7 140 0 demo_objects 0 None]
  by (subst plan_unfold; simp add: demo_layout)+

theorem layout_plan_refines_witness:
  "ld_generic_layout_plan (Some demo_objects) 2 7 141 10 (Some [blank_placement, blank_placement]) =
     (LD_LAYOUT_OK, Some
       [\<lparr>pl_object_id = 1, pl_first_unit = 7, pl_allocated_units = 100, pl_gap_after_units = 10\<rparr>,
        \<lparr>pl_object_id = 2, pl_first_unit = 120, pl_allocated_units = 19, pl_gap_after_units = 2\<rparr>]) \<and>
   ld_generic_layout_plan (Some demo_objects) 2 7 140 10 (Some [blank_placement, blank_placement]) =
     (LD_LAYOUT_NO_SPACE, Some [blank_placement, blank_placement])"
  using layout_plan_refines [of 10 7 141 demo_objects "[blank_placement, blank_placement]"]
    layout_plan_refines [of 10 7 140 demo_objects "[blank_placement, blank_placement]"]
  by (simp add: demo_layout)

text \<open>
  Property C2. Whenever the planner succeeds, whatever the objects were: every placement carries its
  object's identifier and size, starts at a multiple of the object's alignment, lies with
  its reserve inside \<open>[first, limit)\<close>, the reserve is ten percent rounded up for
  Growth and zero for plain Defrag, and no placement with its reserve reaches into a
  later one.
\<close>
theorem layout_plan_sound:
  assumes "ld_generic_layout_plan (Some objects) (length objects) first limit growth (Some buf)
             = (LD_LAYOUT_OK, Some places)"
    and "length buf = length objects"
  shows "list_all2 (placed_in growth (unat first) (unat limit)) objects places \<and>
         sorted_wrt (\<lambda>p q. place_end p \<le> unat (pl_first_unit q)) places"
proof -
  have args: "growth = 0 \<or> growth = 10" "first \<le> limit"
    using plan_ok_args [of "Some objects" "length objects" first limit growth "Some buf"] assms(1)
    by simp_all
  have ok: "fst (layout_pass_from objects 0 first 0 limit growth None) = LD_LAYOUT_OK"
    using assms(1) by (auto simp: plan_unfold [OF args] split: if_splits)
  then have v: "valid_objects 0 objects" "layout_end growth (unat first) objects \<le> unat limit"
    by (simp_all add: layout_pass_ok_iff [OF args])
  have "places = layout_places growth (unat first) objects"
    using assms ok layout_pass_result [OF args v, of 0 "Some buf"]
    by (simp add: plan_unfold [OF args] store_from_0_full)
  then show ?thesis using layout_places_sound [OF v unat_lt64] by simp
qed

theorem layout_plan_sound_witness:
  "list_all2 (placed_in 10 7 141) demo_objects
     [\<lparr>pl_object_id = 1, pl_first_unit = 7, pl_allocated_units = 100, pl_gap_after_units = 10\<rparr>,
      \<lparr>pl_object_id = 2, pl_first_unit = 120, pl_allocated_units = 19, pl_gap_after_units = 2\<rparr>]"
  using layout_plan_sound [OF demo_plan(1)] by (simp add: demo_layout)



text \<open>
  Property C4. A planner call that does not succeed leaves every output element unchanged, whatever
  the arguments are, null arrays included.
\<close>
theorem layout_plan_failure_atomic:
  assumes "ld_generic_layout_plan objects n first limit growth out = (status, out')"
    and "status \<noteq> LD_LAYOUT_OK"
  shows "out' = out"
proof (cases "(growth = 0 \<or> growth = 10) \<and> first \<le> limit")
  case True
  then have "fst (layout_pass_from xs 0 first 0 limit growth out)
           = LD_LAYOUT_OK \<longleftrightarrow> fst (layout_pass_from xs 0 first 0 limit growth None) = LD_LAYOUT_OK" for xs
    by (simp add: layout_pass_ok_iff)
  with assms show ?thesis
    by (auto simp: ld_generic_layout_plan_def layout_pass_def Let_def split: if_splits)
       (metis fst_conv)+
next
  case False
  with assms show ?thesis by (auto simp: ld_generic_layout_plan_def not_le)
qed

theorem layout_plan_failure_atomic_witness:
  "snd (ld_generic_layout_plan (Some demo_objects) (length demo_objects) 7 140 10
          (Some [blank_placement, blank_placement])) = Some [blank_placement, blank_placement]"
  using layout_plan_failure_atomic [OF demo_plan(2)] by (simp add: demo_plan)

subsection \<open>Free ranges and their usable part\<close>

definition fe_end :: "FreeExtent \<Rightarrow> nat" where
  "fe_end r = unat (fe_first_unit r) + unat (fe_allocated_units r)"

definition usable_first :: "nat \<Rightarrow> FreeExtent \<Rightarrow> nat" where
  "usable_first alignment r = align_up (unat (fe_first_unit r)) alignment"

definition usable_capacity :: "nat \<Rightarrow> FreeExtent \<Rightarrow> nat" where
  "usable_capacity alignment r = fe_end r - usable_first alignment r"

fun certified :: "FreeExtent list \<Rightarrow> bool" where
  "certified [] = True"
| "certified (r # rs) =
     (0 < unat (fe_allocated_units r) \<and> fe_end r < 2 ^ 64 \<and>
      (case rs of [] \<Rightarrow> True | r' # _ \<Rightarrow> fe_end r \<le> unat (fe_first_unit r')) \<and> certified rs)"

lemma check_free_ranges_from_iff:
  "check_free_ranges_from rs i e = LD_LAYOUT_OK \<longleftrightarrow>
     certified rs \<and> (i = 0 \<or> (case rs of [] \<Rightarrow> True | r # _ \<Rightarrow> unat e \<le> unat (fe_first_unit r)))"
proof (induction rs arbitrary: i e)
  case (Cons r rs)
  let ?f = "fe_first_unit r" and ?n = "fe_allocated_units r"
  have guard: "check_free_ranges_from (r # rs) i e = LD_LAYOUT_OK \<longleftrightarrow>
      ?n \<noteq> 0 \<and> \<not> ?f > UINT64_MAX - ?n \<and> (i = 0 \<or> e \<le> ?f) \<and>
      check_free_ranges_from rs (Suc i) (?f + ?n) = LD_LAYOUT_OK"
    by (auto simp: Let_def not_less)
  have fits: "\<not> ?f > UINT64_MAX - ?n \<longleftrightarrow> fe_end r < 2 ^ 64"
    by (simp only: word_gt_max_minus fe_end_def not_not)
  have "unat (?f + ?n) = fe_end r" if "fe_end r < 2 ^ 64"
    using that by (simp add: fe_end_def unat_add_64)
  then show ?case
    by (cases "fe_end r < 2 ^ 64")
       (simp_all only: guard fits Cons.IH, auto simp: unat_gt_0 word_le_nat_alt)
qed simp

lemma check_free_ranges_iff: "check_free_ranges rs = LD_LAYOUT_OK \<longleftrightarrow> certified rs"
  by (simp add: check_free_ranges_def check_free_ranges_from_iff)

lemma usable_range_nat:
  assumes "alignment \<noteq> 0" and "fe_end r < 2 ^ 64" and "usable_range r alignment = (first, capacity)"
  shows "unat capacity = usable_capacity (unat alignment) r"
    and "capacity \<noteq> 0 \<Longrightarrow> unat first = usable_first (unat alignment) r"
proof -
  let ?pad = "pad_units (fe_first_unit r) alignment"
  have p: "unat (fe_first_unit r) + unat ?pad = usable_first (unat alignment) r"
    using pad_units_nat [OF assms(1)] by (simp add: usable_first_def)
  have u: "usable_range r alignment =
      (if ?pad > fe_allocated_units r then (fe_first_unit r, 0)
       else (fe_first_unit r + ?pad, fe_allocated_units r - ?pad))"
    by (simp add: usable_range_def pad_units_def Let_def)
  show "unat capacity = usable_capacity (unat alignment) r"
    using assms(3) p by (auto simp: u usable_capacity_def fe_end_def word_less_nat_alt
        not_less unat_sub word_le_nat_alt split: if_splits)
  show "unat first = usable_first (unat alignment) r" if "capacity \<noteq> 0"
  proof (cases "?pad > fe_allocated_units r")
    case True
    with assms(3) that show ?thesis by (simp add: u)
  next
    case False
    then have "unat (fe_first_unit r) + unat ?pad < 2 ^ 64"
      using assms(2) by (simp add: fe_end_def word_less_nat_alt not_less)
    with assms(3) False p show ?thesis by (auto simp: u unat_add_64)
  qed
qed

subsection \<open>Specification of the range-aware planner\<close>

type_synonym extent_plan = "(nat \<times> nat \<times> nat) list" \<comment> \<open>first unit, units, gap after\<close>

text \<open>
  A plan for one file visits the free ranges in ascending order, takes one aligned run
  from some of them, and ends with a run followed by the whole gap inside one range.
\<close>

inductive ascending_plan :: "nat \<Rightarrow> nat \<Rightarrow> FreeExtent list \<Rightarrow> nat \<Rightarrow> extent_plan \<Rightarrow> bool"
  for alignment gap where
  finish: "\<lbrakk>0 < need; alignment dvd f; unat (fe_first_unit r) \<le> f; f + need + gap \<le> fe_end r\<rbrakk> \<Longrightarrow>
     ascending_plan alignment gap (r # rs) need [(f, need, gap)]"
| extend: "\<lbrakk>0 < t; t < need; alignment dvd f; unat (fe_first_unit r) \<le> f; f + t \<le> fe_end r;
      ascending_plan alignment gap rs (need - t) es\<rbrakk> \<Longrightarrow>
     ascending_plan alignment gap (r # rs) need ((f, t, 0) # es)"
| skip: "ascending_plan alignment gap rs need es \<Longrightarrow> ascending_plan alignment gap (r # rs) need es"

inductive_cases ascending_plan_NilE: "ascending_plan alignment gap [] need es"
inductive_cases ascending_plan_ConsE: "ascending_plan alignment gap (r # rs) need es"

fun greedy_split :: "nat \<Rightarrow> nat \<Rightarrow> FreeExtent list \<Rightarrow> nat \<Rightarrow> extent_plan option" where
  "greedy_split alignment gap [] need = None"
| "greedy_split alignment gap (r # rs) need =
     (if need + gap \<le> usable_capacity alignment r then Some [(usable_first alignment r, need, gap)]
      else let t = min (usable_capacity alignment r) (need - 1) in
        if t = 0 then greedy_split alignment gap rs need
        else map_option (Cons (usable_first alignment r, t, 0)) (greedy_split alignment gap rs (need - t)))"

lemma usable_capacity_room: "0 < n \<Longrightarrow> n \<le> usable_capacity alignment r \<longleftrightarrow> usable_first alignment r + n \<le> fe_end r"
  by (auto simp: usable_capacity_def)

lemma greedy_split_sound:
  "0 < alignment \<Longrightarrow> 0 < need \<Longrightarrow> greedy_split alignment gap rs need = Some es \<Longrightarrow>
   ascending_plan alignment gap rs need es"
proof (induction alignment gap rs need arbitrary: es rule: greedy_split.induct)
  case (2 alignment gap r rs need)
  let ?c = "usable_capacity alignment r" and ?f = "usable_first alignment r"
  have f: "alignment dvd ?f" "unat (fe_first_unit r) \<le> ?f"
    using 2 by (simp_all add: usable_first_def align_up_dvd align_up_ge)
  let ?t = "min ?c (need - 1)"
  consider "need + gap \<le> ?c" | "\<not> need + gap \<le> ?c" "?t = 0" | "\<not> need + gap \<le> ?c" "?t \<noteq> 0"
    by blast
  then show ?case
  proof cases
    case 1
    with 2 f show ?thesis
      using usable_capacity_room [of "need + gap"] by (auto intro!: ascending_plan.finish)
  next
    case c: 2
    with 2 show ?thesis by (auto intro: ascending_plan.skip)
  next
    case c: 3
    have "map_option (Cons (?f, ?t, 0)) (greedy_split alignment gap rs (need - ?t)) = Some es"
      using "2.prems"(3) c by (simp only: greedy_split.simps Let_def if_False)
    then obtain es' where es: "es = (?f, ?t, 0) # es'"
        "greedy_split alignment gap rs (need - ?t) = Some es'"
      by blast
    have "?t < need" using "2.prems"(2) by (intro le_less_trans [OF min.cobounded2]) simp
    moreover have "0 < ?t" using c(2) by (simp only: neq0_conv)
    ultimately have t: "0 < ?t" "?t < need" by blast+
    have "?f + ?t \<le> fe_end r"
      using usable_capacity_room [OF t(1), of alignment r] min.cobounded1 [of ?c "need - 1"] by blast
    moreover have "ascending_plan alignment gap rs (need - ?t) es'"
      using "2.IH"(2) [OF c(1) refl c(2) "2.prems"(1) _ es(2)] t(2) by simp
    ultimately show ?thesis using f t es by (auto intro: ascending_plan.extend)
  qed
qed simp

lemma greedy_split_complete:
  "ascending_plan alignment gap rs need es \<Longrightarrow> 0 < alignment \<Longrightarrow> 0 < need' \<Longrightarrow> need' \<le> need \<Longrightarrow>
   greedy_split alignment gap rs need' \<noteq> None"
proof (induction arbitrary: need' rule: ascending_plan.induct)
  case (finish need f r rs)
  then have "usable_first alignment r \<le> f"
    by (simp add: usable_first_def align_up_least)
  with finish have "need' + gap \<le> usable_capacity alignment r"
    using usable_capacity_room [of "need' + gap"] by simp
  then show ?case by simp
next
  case (extend t need f r rs es)
  then have "usable_first alignment r \<le> f"
    by (simp add: usable_first_def align_up_least)
  with extend have "t \<le> usable_capacity alignment r"
    using usable_capacity_room [of t] by simp
  with extend show ?case by (auto simp: Let_def)
next
  case (skip rs need es r)
  then show ?case by (auto simp: Let_def)
qed

lemma ascending_plan_units:
  "ascending_plan alignment gap rs need es \<Longrightarrow>
   es \<noteq> [] \<and> (\<Sum>(f, n, g)\<leftarrow>es. n) = need \<and> (\<forall>(f, n, g) \<in> set (butlast es). g = 0) \<and>
   snd (snd (last es)) = gap"
  by (induction rule: ascending_plan.induct) auto

lemma ascending_plan_member:
  "ascending_plan alignment gap rs need es \<Longrightarrow> (f, n, g) \<in> set es \<Longrightarrow>
   0 < n \<and> alignment dvd f \<and> (\<exists>r \<in> set rs. unat (fe_first_unit r) \<le> f \<and> f + n + g \<le> fe_end r)"
  by (induction rule: ascending_plan.induct) auto

subsection \<open>The word loops compute the specification\<close>

definition planned :: "nat \<times> nat \<times> nat \<Rightarrow> PlannedExtent" where
  "planned = (\<lambda>(f, n, g). \<lparr>pe_first_unit = of_nat f, pe_allocated_units = of_nat n,
                           pe_gap_after_units = of_nat g\<rparr>)"

definition planned_nat :: "PlannedExtent \<Rightarrow> nat \<times> nat \<times> nat" where
  "planned_nat e = (unat (pe_first_unit e), unat (pe_allocated_units e), unat (pe_gap_after_units e))"

lemma fit_test: "((n :: u64) \<le> c \<and> g \<le> c - n) \<longleftrightarrow> unat n + unat g \<le> unat c"
  by (auto simp: word_le_nat_alt unat_sub)

lemma single_extent_fit_spec:
  assumes "alignment_units x \<noteq> 0" and "allocated_units x \<noteq> 0" and "certified rs"
  shows "single_extent_fit x rs gap =
     map_option (\<lambda>r. of_nat (usable_first (unat (alignment_units x)) r))
       (find (\<lambda>r. unat (allocated_units x) + unat gap \<le> usable_capacity (unat (alignment_units x)) r) rs)"
  using assms(3)
proof (induction rs)
  case (Cons r rs)
  obtain f c where u: "usable_range r (alignment_units x) = (f, c)" by fastforce
  have e: "fe_end r < 2 ^ 64" using Cons.prems by simp
  note n = usable_range_nat [OF assms(1) e u]
  have "f = of_nat (usable_first (unat (alignment_units x)) r)"
    if "unat (allocated_units x) + unat gap \<le> unat c"
  proof -
    have "0 < unat (allocated_units x)" using assms(2) by (simp add: unat_gt_0)
    with that have "c \<noteq> 0" by auto
    then show ?thesis using n(2) by (intro of_nat_unat_eq) simp
  qed
  with Cons show ?case by (auto simp: u fit_test n(1))
qed simp

lemma split_extents_step:
  assumes "remaining \<noteq> 0" and "usable_range r alignment = (first, capacity)" and "count < 2 ^ 64 - 1"
  shows "split_extents alignment (r # rs) gap remaining count out =
    (if unat remaining + unat gap \<le> unat capacity
     then (LD_LAYOUT_OK, map_option (\<lambda>b. b[count := \<lparr>pe_first_unit = first,
             pe_allocated_units = remaining, pe_gap_after_units = gap\<rparr>]) out, Suc count)
     else let t = (if capacity < remaining then capacity else remaining - 1) in
       if t = 0 then split_extents alignment rs gap remaining count out
       else split_extents alignment rs gap (remaining - t) (Suc count)
              (map_option (\<lambda>b. b[count := \<lparr>pe_first_unit = first, pe_allocated_units = t,
                 pe_gap_after_units = 0\<rparr>]) out))"
proof (cases "unat remaining + unat gap \<le> unat capacity")
  case True
  then have fin: "remaining \<le> capacity \<and> gap \<le> capacity - remaining" by (simp only: fit_test)
  then have "capacity \<noteq> 0" "\<not> capacity < remaining" using assms(1) by (auto simp: not_less)
  with True fin show ?thesis using assms by (simp add: Let_def)
next
  case False
  then have fin: "\<not> (remaining \<le> capacity \<and> gap \<le> capacity - remaining)" by (simp only: fit_test) simp
  show ?thesis
  proof (cases "capacity < remaining")
    case True
    then show ?thesis using assms fin False by (auto simp: Let_def)
  next
    case c: False
    have "remaining - 1 = 0 \<longleftrightarrow> remaining = 1" by (metis diff_self eq_iff_diff_eq_0)
    moreover have "capacity \<noteq> 0" using c assms(1) by (auto simp: not_less)
    ultimately show ?thesis using c assms fin False by (auto simp: Let_def)
  qed
qed

lemma split_take_nat:
  assumes "remaining \<noteq> 0"
  shows "unat (if capacity < remaining then capacity else remaining - 1 :: u64)
       = min (unat capacity) (unat remaining - 1)"
proof -
  have "1 \<le> remaining" using assms by (simp add: word_le_nat_alt unat_gt_0 Suc_le_eq)
  then show ?thesis by (auto simp: word_less_nat_alt unat_sub)
qed

lemma split_extents_spec:
  assumes "alignment \<noteq> 0" and "certified rs" and "remaining \<noteq> 0" and "count + length rs < 2 ^ 64"
  shows "case greedy_split (unat alignment) (unat gap) rs (unat remaining) of
      None \<Rightarrow> fst (split_extents alignment rs gap remaining count out) = LD_LAYOUT_NO_SPACE
    | Some es \<Rightarrow> split_extents alignment rs gap remaining count out
        = (LD_LAYOUT_OK, map_option (store_from count (map planned es)) out, count + length es)"
  using assms(2-4)
proof (induction rs arbitrary: remaining count out)
  case (Cons r rs)
  obtain f c where u: "usable_range r alignment = (f, c)" by fastforce
  have e: "fe_end r < 2 ^ 64" and cert: "certified rs" and cnt: "count < 2 ^ 64 - 1"
    using Cons.prems by (auto split: list.splits)
  note n = usable_range_nat [OF assms(1) e u]
  note step = split_extents_step [OF Cons.prems(2) u cnt, of rs gap out]
  let ?t = "if c < remaining then c else remaining - 1"
  have t: "unat ?t = min (usable_capacity (unat alignment) r) (unat remaining - 1)"
    using split_take_nat [OF Cons.prems(2), of c] by (simp only: n(1))
  have first: "f = of_nat (usable_first (unat alignment) r)" if "c \<noteq> 0"
    using n(2) [OF that] by (rule of_nat_unat_eq)
  have pos: "0 < unat remaining" using Cons.prems(2) by (simp add: unat_gt_0)
  consider (fin) "unat remaining + unat gap \<le> unat c"
    | (none) "\<not> unat remaining + unat gap \<le> unat c" "?t = 0"
    | (part) "\<not> unat remaining + unat gap \<le> unat c" "?t \<noteq> 0" by blast
  then show ?case
  proof cases
    case fin
    then have "c \<noteq> 0" using pos by auto
    with fin show ?thesis unfolding step
      by (cases out) (simp_all add: n(1) [symmetric] first planned_def)
  next
    case none
    then have "min (usable_capacity (unat alignment) r) (unat remaining - 1) = 0"
      using t by simp
    with none show ?thesis
      using Cons.IH [OF cert Cons.prems(2), of count out] Cons.prems(3)
      by (simp only: step greedy_split.simps n(1) [symmetric] Let_def if_False if_True) simp
  next
    case part
    have t0: "unat ?t \<noteq> 0" using part(2) by (simp only: unat_eq_0 not_False_eq_True)
    have lt: "unat ?t < unat remaining"
      using pos unfolding t by (intro le_less_trans [OF min.cobounded2]) simp
    then have le: "?t \<le> remaining" by (simp only: word_le_nat_alt)
    have rem: "unat (remaining - ?t) = unat remaining - unat ?t" by (rule unat_sub [OF le])
    then have r0: "remaining - ?t \<noteq> 0" using lt by (metis unat_0 zero_less_diff less_irrefl)
    have c0: "c \<noteq> 0"
    proof
      assume "c = 0"
      then have "unat ?t = 0" using t n(1) by simp
      with t0 show False by blast
    qed
    let ?p = "planned (usable_first (unat alignment) r, unat ?t, 0)"
    have p: "\<lparr>pe_first_unit = f, pe_allocated_units = ?t, pe_gap_after_units = 0\<rparr> = ?p"
      by (simp only: planned_def prod.case first [OF c0] of_nat_0) simp
    have cnt': "Suc count + length rs < 2 ^ 64" using Cons.prems(3) by simp
    note IH = Cons.IH [OF cert r0 cnt', of "map_option (\<lambda>b. b[count := ?p]) out", unfolded rem]
    have exec: "split_extents alignment (r # rs) gap remaining count out
        = split_extents alignment rs gap (remaining - ?t) (Suc count) (map_option (\<lambda>b. b[count := ?p]) out)"
      using part by (simp only: step Let_def if_False p)
    have gs: "greedy_split (unat alignment) (unat gap) (r # rs) (unat remaining)
        = map_option (Cons (usable_first (unat alignment) r, unat ?t, 0))
            (greedy_split (unat alignment) (unat gap) rs (unat remaining - unat ?t))"
      using part(1) t0 by (simp only: greedy_split.simps n(1) [symmetric] t [symmetric, unfolded n(1) [symmetric]] Let_def if_False)
    show ?thesis
      using IH unfolding exec gs
      by (cases "greedy_split (unat alignment) (unat gap) rs (unat remaining - unat ?t)")
         (cases out, simp_all)+
  qed
qed simp

text \<open>One pass as a function of the plan it finds.\<close>

definition file_plan :: "LayoutObject \<Rightarrow> FreeExtent list \<Rightarrow> nat \<Rightarrow> extent_plan option" where
  "file_plan x rs gap =
     (let a = unat (alignment_units x); n = unat (allocated_units x) in
      case find (\<lambda>r. n + gap \<le> usable_capacity a r) rs of
        Some r \<Rightarrow> Some [(usable_first a r, n, gap)]
      | None \<Rightarrow> greedy_split a gap rs n)"

lemma plan_pass_spec:
  assumes "alignment_units x \<noteq> 0" and "allocated_units x \<noteq> 0" and "certified rs"
    and "length rs < 2 ^ 64"
  shows "case file_plan x rs (unat gap) of
      None \<Rightarrow> fst (plan_file_extent_pass x rs gap out) = LD_LAYOUT_NO_SPACE
    | Some es \<Rightarrow> plan_file_extent_pass x rs gap out
        = (LD_LAYOUT_OK, map_option (store_from 0 (map planned es)) out, length es)"
proof (cases "find (\<lambda>r. unat (allocated_units x) + unat gap \<le> usable_capacity (unat (alignment_units x)) r) rs")
  case None
  then show ?thesis
    using split_extents_spec [OF assms(1,3,2), of 0 gap out] assms(4)
    by (simp add: file_plan_def plan_file_extent_pass_def single_extent_fit_spec [OF assms(1-3)]
          split: option.splits)
next
  case (Some r)
  then show ?thesis
    by (cases out) (simp_all add: file_plan_def plan_file_extent_pass_def
          single_extent_fit_spec [OF assms(1-3)] planned_def Let_def)
qed

lemma find_plan:
  "find (\<lambda>r. need + gap \<le> usable_capacity alignment r) rs = Some r \<Longrightarrow> 0 < alignment \<Longrightarrow> 0 < need \<Longrightarrow>
   ascending_plan alignment gap rs need [(usable_first alignment r, need, gap)]"
proof (induction rs)
  case (Cons q qs)
  show ?case
  proof (cases "need + gap \<le> usable_capacity alignment q")
    case True
    with Cons.prems have "r = q" by simp
    moreover have "usable_first alignment q + (need + gap) \<le> fe_end q"
      using usable_capacity_room [of "need + gap" alignment q] True Cons.prems(3) by simp
    ultimately show ?thesis using Cons.prems
      by (auto intro!: ascending_plan.finish simp: usable_first_def align_up_ge align_up_dvd)
  next
    case False
    with Cons show ?thesis by (auto intro: ascending_plan.skip)
  qed
qed simp

lemma file_plan_sound:
  assumes "alignment_units x \<noteq> 0" and "allocated_units x \<noteq> 0" and "file_plan x rs gap = Some es"
  shows "ascending_plan (unat (alignment_units x)) gap rs (unat (allocated_units x)) es"
  using assms find_plan greedy_split_sound
  by (auto simp: file_plan_def Let_def unat_gt_0 split: option.splits)

lemma file_plan_complete:
  assumes "alignment_units x \<noteq> 0" and "allocated_units x \<noteq> 0"
    and "ascending_plan (unat (alignment_units x)) gap rs (unat (allocated_units x)) es"
  shows "file_plan x rs gap \<noteq> None"
  using greedy_split_complete [OF assms(3)] assms(1,2)
  by (auto simp: file_plan_def Let_def unat_gt_0 split: option.splits)

subsection \<open>Properties of the range-aware planner\<close>

definition plannable :: "LayoutObject \<Rightarrow> FreeExtent list \<Rightarrow> u32 \<Rightarrow> bool" where
  "plannable x rs growth \<longleftrightarrow>
     object_id x \<noteq> 0 \<and> allocated_units x \<noteq> 0 \<and> alignment_units x \<noteq> 0 \<and> flags x = 0 \<and>
     (growth = 0 \<or> growth = 10) \<and> certified rs"

abbreviation plan_file where
  "plan_file x rs growth buf \<equiv>
     ld_generic_layout_plan_file_extents (Some x) (Some rs) (length rs) growth
       (Some buf) (length buf) True"

lemma plan_file_ok_plannable:
  assumes "fst (plan_file x rs growth buf) = LD_LAYOUT_OK"
  shows "plannable x rs growth"
  using assms
  by (auto simp: ld_generic_layout_plan_file_extents_def plannable_def Let_def
        check_free_ranges_iff [symmetric] split: if_splits option.splits prod.splits)

lemma plan_file_result:
  assumes "plannable x rs growth" and "length rs < 2 ^ 64"
  shows "plan_file x rs growth buf =
    (case file_plan x rs (growth_gap growth (unat (allocated_units x))) of
       None \<Rightarrow> (LD_LAYOUT_NO_SPACE, Some buf, None)
     | Some es \<Rightarrow> if length es > length buf then (LD_LAYOUT_OUTPUT_TOO_SMALL, Some buf, None)
                 else (LD_LAYOUT_OK, Some (map planned es @ drop (length es) buf), Some (length es)))"
proof -
  have p: "object_id x \<noteq> 0" "allocated_units x \<noteq> 0" "alignment_units x \<noteq> 0" "flags x = 0"
      "growth = 0 \<or> growth = 10" "certified rs"
    using assms(1) by (simp_all add: plannable_def)
  obtain g where g: "(if growth \<noteq> 0 then reserve_units (allocated_units x) growth else Some 0) = Some g"
      and ug: "unat g = growth_gap growth (unat (allocated_units x))"
    using reserve_step [OF p(5)] by blast
  note pass = plan_pass_spec [OF p(3,2,6) assms(2), of g, unfolded ug]
  have unfold: "plan_file x rs growth buf =
      (let (first, _, required) = plan_file_extent_pass x rs g None in
       if first \<noteq> LD_LAYOUT_OK then (first, Some buf, None)
       else if required > length buf then (LD_LAYOUT_OUTPUT_TOO_SMALL, Some buf, None)
       else let (second, output, actual) = plan_file_extent_pass x rs g (Some buf) in
         if second \<noteq> LD_LAYOUT_OK \<or> actual \<noteq> required then (LD_LAYOUT_INVALID, output, None)
         else (LD_LAYOUT_OK, output, Some required))"
    using p g by (auto simp: ld_generic_layout_plan_file_extents_def check_free_ranges_iff Let_def)
  show ?thesis
  proof (cases "file_plan x rs (growth_gap growth (unat (allocated_units x)))")
    case None
    then show ?thesis using pass [of None] unfolding unfold
      by (auto simp: Let_def split: prod.splits)
  next
    case (Some es)
    then show ?thesis using pass [of None] pass [of "Some buf"] unfolding unfold
      by (auto simp: Let_def store_from_eq)
  qed
qed

lemma ascending_plan_bounds:
  "ascending_plan alignment gap rs need es \<Longrightarrow> certified rs \<Longrightarrow> (f, n, g) \<in> set es \<Longrightarrow>
   f + n + g < 2 ^ 64"
proof -
  assume a: "ascending_plan alignment gap rs need es" "certified rs" "(f, n, g) \<in> set es"
  have "r \<in> set rs \<Longrightarrow> fe_end r < 2 ^ 64" for r
    using a(2) by (induction rs rule: certified.induct) auto
  with ascending_plan_member [OF a(1,3)] show ?thesis by force
qed

lemma planned_nat_planned:
  "f < 2 ^ 64 \<Longrightarrow> n < 2 ^ 64 \<Longrightarrow> g < 2 ^ 64 \<Longrightarrow> planned_nat (planned (f, n, g)) = (f, n, g)"
  by (simp add: planned_nat_def planned_def unat_of_nat)

lemma map_planned_nat:
  assumes "ascending_plan alignment gap rs need es" and "certified rs"
  shows "map planned_nat (map planned es) = es"
  unfolding map_map
proof (rule map_idI)
  fix e assume e: "e \<in> set es"
  obtain f n g where t: "e = (f, n, g)" using prod_cases3 by blast
  have "f + n + g < 2 ^ 64"
    using ascending_plan_bounds [OF assms e [unfolded t]] .
  then show "(planned_nat \<circ> planned) e = e"
    using planned_nat_planned [of f n g] by (simp add: t)
qed

text \<open>
  Property C5. When \<open>ld_generic_layout_plan_file_extents\<close> succeeds, the extents it wrote cover
  the file exactly, each extent is aligned and lies, with its gap, inside one certified
  free range, only the last extent carries a gap, and that gap is the full growth
  reserve.
\<close>
theorem plan_file_extents_sound:
  assumes "plan_file x rs growth buf = (LD_LAYOUT_OK, Some out, Some written)"
    and "length rs < 2 ^ 64"
  shows "let es = map planned_nat (take written out); gap = growth_gap growth (unat (allocated_units x)) in
     ascending_plan (unat (alignment_units x)) gap rs (unat (allocated_units x)) es \<and>
     0 < written \<and> written \<le> length buf \<and>
     (\<Sum>(f, n, g)\<leftarrow>es. n) = unat (allocated_units x) \<and>
     (\<forall>(f, n, g) \<in> set (butlast es). g = 0) \<and> snd (snd (last es)) = gap \<and>
     (\<forall>(f, n, g) \<in> set es. unat (alignment_units x) dvd f \<and>
        (\<exists>r \<in> set rs. unat (fe_first_unit r) \<le> f \<and> f + n + g \<le> fe_end r))"
proof -
  have p: "plannable x rs growth" using plan_file_ok_plannable [of x rs growth buf] assms(1) by simp
  then have nz: "alignment_units x \<noteq> 0" "allocated_units x \<noteq> 0" "certified rs"
    by (simp_all add: plannable_def)
  let ?gap = "growth_gap growth (unat (allocated_units x))"
  note result = assms(1) [unfolded plan_file_result [OF p assms(2), of buf]]
  then obtain es where es: "file_plan x rs ?gap = Some es"
    by (cases "file_plan x rs ?gap") simp_all
  from result have le: "length es \<le> length buf"
    and out: "out = map planned es @ drop (length es) buf" and w: "written = length es"
    by (auto simp: es split: if_splits)
  note plan = file_plan_sound [OF nz(1,2) es]
  have "map planned_nat (take written out) = es"
    using map_planned_nat [OF plan nz(3)] by (simp add: out w)
  then show ?thesis
    using plan ascending_plan_units [OF plan] ascending_plan_member [OF plan] le
    by (auto simp: Let_def w)
qed

definition demo_file :: LayoutObject where
  "demo_file = \<lparr>object_id = 9, allocated_units = 14, alignment_units = 1, flags = 0\<rparr>"

definition demo_ranges :: "FreeExtent list" where
  "demo_ranges = [\<lparr>fe_first_unit = 10, fe_allocated_units = 14\<rparr>,
                  \<lparr>fe_first_unit = 100, fe_allocated_units = 5\<rparr>]"

definition blank_extent :: PlannedExtent where
  "blank_extent = \<lparr>pe_first_unit = 0, pe_allocated_units = 0, pe_gap_after_units = 0\<rparr>"

lemma demo_file_plan:
  "plannable demo_file demo_ranges 10"
  "length demo_ranges = 2"
  "file_plan demo_file demo_ranges (growth_gap 10 (unat (allocated_units demo_file)))
     = Some [(10, 13, 0), (100, 1, 2)]"
  by (simp_all add: plannable_def demo_file_def demo_ranges_def fe_end_def file_plan_def Let_def
        usable_capacity_def usable_first_def align_up_def growth_gap_def)

lemma demo_plan_file:
  "plan_file demo_file demo_ranges 10 [blank_extent, blank_extent] =
     (LD_LAYOUT_OK,
      Some [\<lparr>pe_first_unit = 10, pe_allocated_units = 13, pe_gap_after_units = 0\<rparr>,
            \<lparr>pe_first_unit = 100, pe_allocated_units = 1, pe_gap_after_units = 2\<rparr>], Some 2)"
  "plan_file demo_file demo_ranges 10 [blank_extent] =
     (LD_LAYOUT_OUTPUT_TOO_SMALL, Some [blank_extent], None)"
  by (subst plan_file_result; simp add: demo_file_plan planned_def)+

theorem plan_file_extents_sound_witness:
  "ascending_plan 1 2 demo_ranges 14 [(10, 13, 0), (100, 1, 2)]"
  using plan_file_extents_sound [OF demo_plan_file(1)]
  by (simp add: demo_file_plan Let_def planned_nat_def demo_file_def growth_gap_def)

text \<open>
  For a plannable file the planner answers \<open>LD_LAYOUT_NO_SPACE\<close> exactly when no
  ascending plan over the certified ranges exists: the greedy split, including the unit it
  holds back for the extent that carries the reserve, misses no solution.
\<close>
theorem plan_file_extents_complete:
  assumes "plannable x rs growth" and "length rs < 2 ^ 64"
  shows "fst (plan_file x rs growth buf) = LD_LAYOUT_NO_SPACE \<longleftrightarrow>
    (\<nexists>es. ascending_plan (unat (alignment_units x))
            (growth_gap growth (unat (allocated_units x))) rs (unat (allocated_units x)) es)"
proof -
  have nz: "alignment_units x \<noteq> 0" "allocated_units x \<noteq> 0"
    using assms(1) by (simp_all add: plannable_def)
  let ?plan = "file_plan x rs (growth_gap growth (unat (allocated_units x)))"
  have "fst (plan_file x rs growth buf) = LD_LAYOUT_NO_SPACE \<longleftrightarrow> ?plan = None"
    by (simp add: plan_file_result [OF assms] split: option.splits)
  then show ?thesis
    using file_plan_complete [OF nz, of _ rs] file_plan_sound [OF nz, of rs]
    by (cases ?plan) blast+
qed

theorem plan_file_extents_complete_witness:
  "\<exists>es. ascending_plan 1 2 demo_ranges 14 es"
  using plan_file_extents_complete [OF demo_file_plan(1), of "[blank_extent, blank_extent]",
      unfolded demo_plan_file(1)]
  by (simp add: demo_file_plan(2)) (simp add: demo_file_def growth_gap_def)

text \<open>
  A full single-extent fit always wins over a split: if some certified range can hold the
  aligned file and its reserve, the planner writes exactly one extent, at the aligned
  start of the earliest such range.
\<close>
theorem plan_file_extents_prefers_contiguous:
  assumes "plannable x (rs @ r # rs') growth" and "length (rs @ r # rs') < 2 ^ 64" and "buf \<noteq> []"
    and "\<forall>q \<in> set rs. \<not> unat (allocated_units x) + growth_gap growth (unat (allocated_units x))
                    \<le> usable_capacity (unat (alignment_units x)) q"
    and "unat (allocated_units x) + growth_gap growth (unat (allocated_units x))
           \<le> usable_capacity (unat (alignment_units x)) r"
  shows "plan_file x (rs @ r # rs') growth buf =
    (LD_LAYOUT_OK,
     Some (planned (usable_first (unat (alignment_units x)) r, unat (allocated_units x),
                    growth_gap growth (unat (allocated_units x))) # tl buf), Some 1)"
proof -
  have "find (\<lambda>q. unat (allocated_units x) + growth_gap growth (unat (allocated_units x))
          \<le> usable_capacity (unat (alignment_units x)) q) (rs @ r # rs') = Some r"
    using assms(4,5) by (induction rs) auto
  then show ?thesis
    unfolding plan_file_result [OF assms(1,2)]
    using assms(3) by (cases buf) (simp_all add: file_plan_def Let_def)
qed

theorem plan_file_extents_prefers_contiguous_witness:
  "plan_file demo_file
      [\<lparr>fe_first_unit = 10, fe_allocated_units = 14\<rparr>, \<lparr>fe_first_unit = 100, fe_allocated_units = 16\<rparr>]
      10 [blank_extent]
   = (LD_LAYOUT_OK,
      Some [\<lparr>pe_first_unit = 100, pe_allocated_units = 14, pe_gap_after_units = 2\<rparr>], Some 1)"
  using plan_file_extents_prefers_contiguous
    [of demo_file "[\<lparr>fe_first_unit = 10, fe_allocated_units = 14\<rparr>]"
      "\<lparr>fe_first_unit = 100, fe_allocated_units = 16\<rparr>" "[]" 10 "[blank_extent]"]
  by (simp add: plannable_def demo_file_def fe_end_def usable_capacity_def usable_first_def
        align_up_def growth_gap_def planned_def)

text \<open>
  A call that does not succeed modifies neither the output extents nor \<open>*written\<close>,
  also when the array is too small or the ranges are malformed.
\<close>
theorem plan_file_extents_failure_atomic:
  assumes "plan_file x rs growth buf = (status, out, written)" and "status \<noteq> LD_LAYOUT_OK"
    and "length rs < 2 ^ 64"
  shows "out = Some buf \<and> written = None"
proof (cases "plannable x rs growth")
  case True
  then show ?thesis
    using assms(1,2) by (auto simp: plan_file_result [OF True assms(3)] split: option.splits if_splits)
next
  case False
  have "reserve_units (allocated_units x) growth \<noteq> None" if "growth = 10"
    using reserve_units_ten [of "allocated_units x"] that by auto
  with False assms(1,2) show ?thesis
    by (auto simp: ld_generic_layout_plan_file_extents_def plannable_def check_free_ranges_iff
          Let_def split: if_splits option.splits)
qed

theorem plan_file_extents_failure_atomic_witness:
  "snd (plan_file demo_file demo_ranges 10 [blank_extent]) = (Some [blank_extent], None)"
  using plan_file_extents_failure_atomic [OF demo_plan_file(2)]
  unfolding demo_plan_file(2) by (simp add: demo_file_plan)

end
