(* ===== verification/Runtime.thy ===== *)
theory Runtime
  imports Prelude
begin

text \<open>
  The process runtime of \<open>src/core/ld_runtime.c\<close>, the cooperative Stop flag of
  \<open>src/core/ld_stop.c\<close> and the result line of \<open>src/core/ld_protocol.c\<close>.
  Text written to a stream is a string; a function that does not return leaves the
  process with the text it wrote to the error stream and exit status \<open>EXIT_FAILURE\<close>.
  \<open>strerror\<close>, the allocator and Common's JSON escaping are parameters.
\<close>

subsection \<open>Fatal exits and allocation\<close>

datatype 'a proc = Exit_failure string | Return 'a

definition ld_runtime_set_program_name :: "string option \<Rightarrow> string \<Rightarrow> string" where
  "ld_runtime_set_program_name name g_program_name =
     (case name of Some n \<Rightarrow> if n \<noteq> '''' then n else g_program_name | None \<Rightarrow> g_program_name)"

definition ld_die_errno :: "string \<Rightarrow> (errno \<Rightarrow> string) \<Rightarrow> string \<Rightarrow> errno \<Rightarrow> 'a proc" where
  "ld_die_errno prog strerror what e =
     Exit_failure (prog @ '': '' @ what @ '': '' @ strerror e @ ''\<newline>'')"

definition ld_die :: "string \<Rightarrow> string \<Rightarrow> 'a proc" where
  "ld_die prog message = Exit_failure (prog @ '': '' @ message @ ''\<newline>'')"

definition ld_warn_errno :: "string \<Rightarrow> (errno \<Rightarrow> string) \<Rightarrow> string \<Rightarrow> errno \<Rightarrow> string" where
  "ld_warn_errno prog strerror what e =
     prog @ '': warning: '' @ what @ '': '' @ strerror e @ ''\<newline>''"

text \<open>An allocator maps a byte count to the block it returns, or to an error.\<close>

type_synonym allocator = "u64 \<Rightarrow> u8 list result"

definition ld_xmalloc :: "string \<Rightarrow> (errno \<Rightarrow> string) \<Rightarrow> allocator \<Rightarrow> u64 \<Rightarrow> u8 list proc" where
  "ld_xmalloc prog strerror malloc bytes =
     (case malloc (if bytes = 0 then 1 else bytes) of
        Inl e \<Rightarrow> ld_die_errno prog strerror ''malloc'' e
      | Inr p \<Rightarrow> Return p)"

definition ld_xcalloc ::
  "string \<Rightarrow> (errno \<Rightarrow> string) \<Rightarrow> (u64 \<Rightarrow> u64 \<Rightarrow> u8 list result) \<Rightarrow> u64 \<Rightarrow> u64 \<Rightarrow> u8 list proc" where
  "ld_xcalloc prog strerror calloc count bytes =
     (case calloc (if count = 0 then 1 else count) (if bytes = 0 then 1 else bytes) of
        Inl e \<Rightarrow> ld_die_errno prog strerror ''calloc'' e
      | Inr p \<Rightarrow> Return p)"

definition ld_xstrdup ::
  "string \<Rightarrow> (errno \<Rightarrow> string) \<Rightarrow> (string \<Rightarrow> string result) \<Rightarrow> string \<Rightarrow> string proc" where
  "ld_xstrdup prog strerror strdup text =
     (case strdup text of Inl e \<Rightarrow> ld_die_errno prog strerror ''strdup'' e | Inr c \<Rightarrow> Return c)"

text \<open>
  \<open>ld_xstrndup\<close> copies exactly \<open>length\<close> bytes and terminates them; the resulting C
  string ends at the first zero byte. The text is the memory the caller passes.
\<close>

definition c_string :: "char list \<Rightarrow> string" where
  "c_string bytes = takeWhile (\<lambda>c. c \<noteq> CHR 0x00) bytes"

definition ld_xstrndup ::
  "string \<Rightarrow> (errno \<Rightarrow> string) \<Rightarrow> (u64 \<Rightarrow> u64 \<Rightarrow> u64 option) \<Rightarrow> allocator \<Rightarrow>
   char list \<Rightarrow> u64 \<Rightarrow> string proc" where
  "ld_xstrndup prog strerror size_add_checked malloc text len =
     (case size_add_checked len 1 of
        None \<Rightarrow> ld_die_errno prog strerror ''strndup size'' EOVERFLOW
      | Some allocation \<Rightarrow>
          (case ld_xmalloc prog strerror malloc allocation of
             Exit_failure t \<Rightarrow> Exit_failure t
           | Return _ \<Rightarrow> Return (c_string (take (unat len) text @ [CHR 0x00]))))"

subsection \<open>Cooperative Stop\<close>

datatype stop_signal = SIGINT | SIGTERM

record stop_state =
  g_stop_requested :: bool
  int_handled :: bool
  term_handled :: bool
  terminated :: bool \<comment> \<open>default action of an unhandled signal\<close>
  stop_output :: string

definition stop_initial :: stop_state where
  "stop_initial = \<lparr>g_stop_requested = False, int_handled = False, term_handled = False,
                   terminated = False, stop_output = ''''\<rparr>"

definition request_stop :: "stop_state \<Rightarrow> stop_state" where
  "request_stop s = s\<lparr>g_stop_requested := True\<rparr>"

definition deliver :: "stop_signal \<Rightarrow> stop_state \<Rightarrow> stop_state" where
  "deliver sig s =
     (if terminated s then s
      else if (case sig of SIGINT \<Rightarrow> int_handled s | SIGTERM \<Rightarrow> term_handled s) then request_stop s
      else s\<lparr>terminated := True\<rparr>)"

definition ld_stop_install_int :: "stop_state \<Rightarrow> stop_state" where
  "ld_stop_install_int s = s\<lparr>int_handled := True\<rparr>"

definition ld_stop_install_term :: "stop_state \<Rightarrow> stop_state" where
  "ld_stop_install_term s = s\<lparr>term_handled := True\<rparr>"

text \<open>
  \<open>ld_stop_install_handlers\<close> runs the two installations in this order; \<open>sigaction\<close> gives
  the outcome of each system call, and a failure ends the process.
\<close>

definition ld_stop_install_handlers ::
  "string \<Rightarrow> (errno \<Rightarrow> string) \<Rightarrow> (stop_signal \<Rightarrow> errno option) \<Rightarrow> stop_state \<Rightarrow> stop_state proc" where
  "ld_stop_install_handlers prog strerror sigaction s =
     (case sigaction SIGINT of
        Some e \<Rightarrow> ld_die_errno prog strerror ''install SIGINT handler'' e
      | None \<Rightarrow>
          (case sigaction SIGTERM of
             Some e \<Rightarrow> ld_die_errno prog strerror ''install SIGTERM handler'' e
           | None \<Rightarrow> Return (ld_stop_install_term (ld_stop_install_int s))))"

definition LD_STOP_READY_MARKER :: string where
  "LD_STOP_READY_MARKER = ''@@STOP_READY''"

definition ld_stop_report_ready :: "stop_state \<Rightarrow> stop_state" where
  "ld_stop_report_ready s = s\<lparr>stop_output := stop_output s @ LD_STOP_READY_MARKER @ ''\<newline>''\<rparr>"

definition ld_stop_requested :: "stop_state \<Rightarrow> bool" where
  "ld_stop_requested s = g_stop_requested s"

definition ld_stop_clear :: "stop_state \<Rightarrow> stop_state" where
  "ld_stop_clear s = s\<lparr>g_stop_requested := False\<rparr>"

subsection \<open>Result events\<close>

text \<open>
  Common's \<open>infiltratr_escape_json\<close> is called twice: for the size it requires, then to fill a
  block of that size. \<open>None\<close> is its failure.
\<close>

definition escape_json_text ::
  "(string \<Rightarrow> u64 option) \<Rightarrow> (string \<Rightarrow> u64 \<Rightarrow> string option) \<Rightarrow> string \<Rightarrow> string option" where
  "escape_json_text escape_size escape_fill text =
     (case escape_size text of
        None \<Rightarrow> None
      | Some required \<Rightarrow> if required = 0 then None else escape_fill text required)"

definition result_line :: "string \<Rightarrow> string \<Rightarrow> string \<Rightarrow> string" where
  "result_line operation status message =
     ''@@RESULT {\"operation\":\"'' @ operation @ ''\",\"status\":\"'' @ status @
     ''\",\"message\":\"'' @ message @ ''\"}\<newline>''"

text \<open>
  The stream is the text written so far, or \<open>None\<close> for a null pointer; \<open>write_ok\<close> and
  \<open>flush_ok\<close> are the outcomes of \<open>fprintf\<close> and \<open>fflush\<close>. The result is the return
  value and the text now on the stream.
\<close>

definition ld_emit_result_event ::
  "(string \<Rightarrow> u64 option) \<Rightarrow> (string \<Rightarrow> u64 \<Rightarrow> string option) \<Rightarrow> bool \<Rightarrow> bool \<Rightarrow>
   string option \<Rightarrow> string option \<Rightarrow> string option \<Rightarrow> string option \<Rightarrow> int \<times> string option" where
  "ld_emit_result_event escape_size escape_fill write_ok flush_ok stream operation status message =
     (case (stream, operation, status) of
        (Some written, Some operation, Some status) \<Rightarrow>
          (let esc = escape_json_text escape_size escape_fill;
               message = (case message of None \<Rightarrow> '''' | Some m \<Rightarrow> m)
           in case (esc operation, esc status, esc message) of
                (Some eo, Some es, Some em) \<Rightarrow>
                  (if write_ok
                   then (if flush_ok then 0 else -1, Some (written @ result_line eo es em))
                   else (-1, stream))
              | _ \<Rightarrow> (-1, stream))
      | _ \<Rightarrow> (-1, stream))"

subsection \<open>Start-up of a mutating operation\<close>

text \<open>
  The steps that \<open>ifs_filesystem_module_run\<close> performs before it dispatches a mutation,
  and the signals that may arrive between them.
\<close>

datatype stop_event = Clear | Install_int | Install_term | Report_ready | Signal stop_signal

fun stop_step :: "stop_event \<Rightarrow> stop_state \<Rightarrow> stop_state" where
  "stop_step Clear s = (if terminated s then s else ld_stop_clear s)"
| "stop_step Install_int s = (if terminated s then s else ld_stop_install_int s)"
| "stop_step Install_term s = (if terminated s then s else ld_stop_install_term s)"
| "stop_step Report_ready s = (if terminated s then s else ld_stop_report_ready s)"
| "stop_step (Signal sig) s = deliver sig s"

fun stop_run :: "stop_event list \<Rightarrow> stop_state \<Rightarrow> stop_state" where
  "stop_run [] s = s"
| "stop_run (x # xs) s = stop_run xs (stop_step x s)"

definition own_steps :: "stop_event list \<Rightarrow> stop_event list" where
  "own_steps tr = filter (\<lambda>x. case x of Signal _ \<Rightarrow> False | _ \<Rightarrow> True) tr"

definition startup :: "stop_event list" where
  "startup = [Clear, Install_int, Install_term, Report_ready]"

lemmas stop_defs = deliver_def request_stop_def ld_stop_clear_def ld_stop_install_int_def
  ld_stop_install_term_def ld_stop_report_ready_def ld_stop_requested_def

lemma stop_run_append [simp]: "stop_run (xs @ ys) s = stop_run ys (stop_run xs s)"
  by (induction xs arbitrary: s) auto

lemma stop_step_terminated [simp]: "terminated s \<Longrightarrow> stop_step x s = s"
  by (cases x) (auto simp: deliver_def)

lemma stop_run_terminated [simp]: "terminated s \<Longrightarrow> stop_run xs s = s"
  by (induction xs) auto

lemma stop_step_keeps_handlers:
  "int_handled s \<Longrightarrow> int_handled (stop_step x s)" "term_handled s \<Longrightarrow> term_handled (stop_step x s)"
  by (cases x; auto simp: stop_defs split: stop_signal.splits)+

lemma stop_run_keeps_handlers:
  "int_handled s \<Longrightarrow> int_handled (stop_run xs s)" "term_handled s \<Longrightarrow> term_handled (stop_run xs s)"
  by (induction xs arbitrary: s) (auto simp: stop_step_keeps_handlers)

lemma installed_after:
  assumes "\<not> terminated (stop_run tr s)"
  shows "Install_int \<in> set tr \<Longrightarrow> int_handled (stop_run tr s)"
    and "Install_term \<in> set tr \<Longrightarrow> term_handled (stop_run tr s)"
proof -
  have alive: "\<not> terminated (stop_run xs s)" if "tr = xs @ ys" for xs ys
    using assms that by (cases "terminated (stop_run xs s)") auto
  show "int_handled (stop_run tr s)" if "Install_int \<in> set tr"
  proof -
    obtain xs ys where "tr = xs @ Install_int # ys" using split_list [OF \<open>Install_int \<in> set tr\<close>] by blast
    with alive [of xs "Install_int # ys"] show ?thesis
      by (auto intro!: stop_run_keeps_handlers simp: ld_stop_install_int_def)
  qed
  show "term_handled (stop_run tr s)" if "Install_term \<in> set tr"
  proof -
    obtain xs ys where "tr = xs @ Install_term # ys" using split_list [OF \<open>Install_term \<in> set tr\<close>] by blast
    with alive [of xs "Install_term # ys"] show ?thesis
      by (auto intro!: stop_run_keeps_handlers simp: ld_stop_install_term_def)
  qed
qed

lemma signals_when_handled:
  assumes "int_handled s" "term_handled s" "\<not> terminated s"
  shows "\<not> terminated (stop_run (map Signal sigs) s) \<and>
         (g_stop_requested s \<or> sigs \<noteq> [] \<longrightarrow> g_stop_requested (stop_run (map Signal sigs) s))"
  using assms
proof (induction sigs arbitrary: s)
  case (Cons sig sigs)
  then have "int_handled (deliver sig s)" "term_handled (deliver sig s)" "\<not> terminated (deliver sig s)"
      "g_stop_requested (deliver sig s)"
    by (auto simp: deliver_def request_stop_def split: stop_signal.splits)
  with Cons.IH show ?case by simp
qed simp



subsection \<open>Framing of result events\<close>

lemma result_line_newlines:
  assumes "CHR 0x0A \<notin> set eo" "CHR 0x0A \<notin> set es" "CHR 0x0A \<notin> set em"
  shows "\<exists>body. result_line eo es em = body @ [CHR 0x0A] \<and> CHR 0x0A \<notin> set body"
  using assms
  by (intro exI [of _ "butlast (result_line eo es em)"]) (simp add: result_line_def butlast_append)

text \<open>
  \<open>ld_emit_result_event\<close> returns success only after appending exactly one complete
  protocol line, whatever the operation, status and message texts are, provided Common's
  JSON escaping never emits a raw line feed; when the write fails the stream is unchanged.
\<close>
theorem result_event_single_line:
  assumes escape: "\<forall>t n s. escape_fill t n = Some s \<longrightarrow> CHR 0x0A \<notin> set s"
    and "ld_emit_result_event escape_size escape_fill w f (Some written) op st msg = (r, out)"
  shows "(r = 0 \<longrightarrow> (\<exists>body. out = Some (written @ body @ [CHR 0x0A]) \<and> CHR 0x0A \<notin> set body)) \<and>
         (\<not> w \<longrightarrow> r = -1 \<and> out = Some written)"
proof -
  have esc: "CHR 0x0A \<notin> set s" if "escape_json_text escape_size escape_fill t = Some s" for t s
    using that escape by (auto simp: escape_json_text_def split: option.splits if_splits)
  have line: "\<exists>body. Some (written @ result_line eo es em) = Some (written @ body @ [CHR 0x0A]) \<and>
      CHR 0x0A \<notin> set body"
    if "escape_json_text escape_size escape_fill to = Some eo"
      "escape_json_text escape_size escape_fill ts = Some es"
      "escape_json_text escape_size escape_fill tm = Some em" for to ts tm eo es em
    using result_line_newlines [OF esc [OF that(1)] esc [OF that(2)] esc [OF that(3)]] by auto
  show ?thesis
    using assms(2) line
    by (auto simp: ld_emit_result_event_def Let_def split: option.splits if_splits)
qed

definition plain_size :: "string \<Rightarrow> u64 option" where
  "plain_size t = Some (of_nat (length t + 1))"

definition plain_escape :: "string \<Rightarrow> u64 \<Rightarrow> string option" where
  "plain_escape t n = (if CHR 0x0A \<in> set t then None else Some t)"

theorem result_event_single_line_witness:
  "ld_emit_result_event plain_size plain_escape True True (Some '''')
     (Some ''defrag'') (Some ''ok'') None
   = (0, Some (result_line ''defrag'' ''ok'' '''')) \<and>
   (\<exists>body. result_line ''defrag'' ''ok'' '''' = body @ [CHR 0x0A] \<and> CHR 0x0A \<notin> set body)"
proof -
  have e: "ld_emit_result_event plain_size plain_escape True True (Some '''')
     (Some ''defrag'') (Some ''ok'') None = (0, Some (result_line ''defrag'' ''ok'' ''''))"
    by (simp add: ld_emit_result_event_def escape_json_text_def plain_size_def plain_escape_def)
  have "\<forall>t n s. plain_escape t n = Some s \<longrightarrow> CHR 0x0A \<notin> set s"
    by (simp add: plain_escape_def)
  from result_event_single_line [OF this e] e show ?thesis by auto
qed

end
