(* ===== verification/Ld_Io.thy ===== *)
theory Ld_Io
  imports Runtime
begin

text \<open>
  The I/O adapters of \<open>src/core/ld_io.c\<close>: the exact positioned transfers over Common's
  primitives (parameters), the packed allocation bitmap, the \<open>fsync\<close> retry loop, and the
  resource selection helpers. A descriptor is an integer, \<open>size_t\<close> and \<open>uint64_t\<close> are
  64-bit words, and \<open>ssize_t\<close> results are integers. Reading a bitmap byte outside the
  allocated block is undefined behaviour in C; here it is the value \<^term>\<open>None\<close>.
\<close>

subsection \<open>Exact transfers\<close>

definition SSIZE_MAX :: u64 where
  "SSIZE_MAX = 2 ^ 63 - 1"

type_synonym pread_fun = "int \<Rightarrow> u64 \<Rightarrow> u64 \<Rightarrow> u8 list result"
type_synonym 's pwrite_fun = "int \<Rightarrow> u8 list \<Rightarrow> u64 \<Rightarrow> 's \<Rightarrow> errno option \<times> 's"

definition ld_pread_full :: "pread_fun \<Rightarrow> int \<Rightarrow> u64 \<Rightarrow> u64 \<Rightarrow> (int \<times> u8 list) result" where
  "ld_pread_full pread fd len offset =
     (if len > SSIZE_MAX then Inl EOVERFLOW
      else case pread fd len offset of Inl e \<Rightarrow> Inl e | Inr data \<Rightarrow> Inr (sint len, data))"

definition ld_pwrite_full ::
  "'s pwrite_fun \<Rightarrow> int \<Rightarrow> u8 list \<Rightarrow> u64 \<Rightarrow> u64 \<Rightarrow> 's \<Rightarrow> int result \<times> 's" where
  "ld_pwrite_full pwrite fd buffer len offset s =
     (if len > SSIZE_MAX then (Inl EOVERFLOW, s)
      else case pwrite fd (take (unat len) buffer) offset s of
        (Some e, s') \<Rightarrow> (Inl e, s')
      | (None, s') \<Rightarrow> (Inr (sint len), s'))"

definition ld_pread_exact ::
  "string \<Rightarrow> (errno \<Rightarrow> string) \<Rightarrow> pread_fun \<Rightarrow> int \<Rightarrow> u64 \<Rightarrow> u64 \<Rightarrow> string \<Rightarrow> u8 list proc" where
  "ld_pread_exact prog strerror pread fd len offset what =
     (case ld_pread_full pread fd len offset of
        Inl e \<Rightarrow> ld_die_errno prog strerror what e
      | Inr (count, data) \<Rightarrow>
          if count < 0 then ld_die_errno prog strerror what EIO
          else if (of_int count :: u64) \<noteq> len then ld_die_errno prog strerror what EIO
          else Return data)"

definition ld_pwrite_exact ::
  "string \<Rightarrow> (errno \<Rightarrow> string) \<Rightarrow> 's pwrite_fun \<Rightarrow> int \<Rightarrow> u8 list \<Rightarrow> u64 \<Rightarrow> u64 \<Rightarrow> string \<Rightarrow>
   's \<Rightarrow> unit proc \<times> 's" where
  "ld_pwrite_exact prog strerror pwrite fd buffer len offset what s =
     (case ld_pwrite_full pwrite fd buffer len offset s of
        (Inl e, s') \<Rightarrow> (ld_die_errno prog strerror what e, s')
      | (Inr count, s') \<Rightarrow>
          if count < 0 \<or> (of_int count :: u64) \<noteq> len then (ld_die_errno prog strerror what EIO, s')
          else (Return (), s'))"

subsection \<open>Packed boolean maps\<close>

text \<open>The flag says whether \<open>bytes\<close> is a non-null pointer.\<close>

definition ld_bitmap_size :: "u64 \<Rightarrow> bool \<Rightarrow> u64 result" where
  "ld_bitmap_size bits bytes_given =
     (if \<not> bytes_given \<or> bits > UINT64_MAX - 7 then Inl EOVERFLOW
      else let packed = (bits + 7) div 8 in
        if packed > UINT64_MAX then Inl EOVERFLOW else Inr packed)"

definition ld_bitmap_calloc :: "(u64 \<Rightarrow> bool) \<Rightarrow> u64 \<Rightarrow> u8 list option" where
  "ld_bitmap_calloc calloc_ok bits =
     (case ld_bitmap_size bits True of
        Inl _ \<Rightarrow> None
      | Inr bytes \<Rightarrow>
          let n = (if bytes = 0 then 1 else bytes) in
          if calloc_ok n then Some (replicate (unat n) 0) else None)"

definition bit_mask :: "u64 \<Rightarrow> u8" where
  "bit_mask b = ucast (push_bit (unat (b AND 7)) (1 :: u32))"

definition ld_bitmap_get :: "u8 list option \<Rightarrow> u64 \<Rightarrow> bool option" where
  "ld_bitmap_get bitmap b =
     (case bitmap of
        None \<Rightarrow> Some False
      | Some bm \<Rightarrow>
          let i = unat (drop_bit 3 b) in
          if i < length bm then Some (bm ! i AND bit_mask b \<noteq> 0) else None)"

definition ld_bitmap_set :: "u8 list \<Rightarrow> u64 \<Rightarrow> bool \<Rightarrow> u8 list option" where
  "ld_bitmap_set bm b value =
     (let i = unat (drop_bit 3 b); mask = bit_mask b in
      if i < length bm
      then Some (bm[i := if value then bm ! i OR mask else bm ! i AND NOT mask])
      else None)"

subsection \<open>Durability barrier\<close>

text \<open>
  The argument lists the outcomes of the successive \<open>fsync\<close> calls (\<^term>\<open>None\<close> is
  success). The result is the return value with the outcomes not consumed, or
  \<^term>\<open>None\<close> while the loop has not ended.
\<close>

fun ld_sync_fd :: "errno option list \<Rightarrow> (unit result \<times> errno option list) option" where
  "ld_sync_fd [] = None"
| "ld_sync_fd (None # rest) = Some (Inr (), rest)"
| "ld_sync_fd (Some e # rest) = (if e = EINTR then ld_sync_fd rest else Some (Inl e, rest))"

subsection \<open>Resource selection\<close>

text \<open>
  The first argument is \<^term>\<open>None\<close> when \<open>/proc/meminfo\<close> cannot be opened, and otherwise
  the triples of the successive complete \<open>fscanf\<close> conversions.
\<close>

fun meminfo_available :: "(string \<times> u64 \<times> string) list \<Rightarrow> u64 option" where
  "meminfo_available [] = None"
| "meminfo_available ((key, val, unit) # rest) =
     (if key = ''MemAvailable:'' then Some (val * 1024) else meminfo_available rest)"

definition ld_available_memory_bytes ::
  "(string \<times> u64 \<times> string) list option \<Rightarrow> int \<Rightarrow> int \<Rightarrow> u64" where
  "ld_available_memory_bytes meminfo pages page_size =
     (case (case meminfo of None \<Rightarrow> None | Some ts \<Rightarrow> meminfo_available ts) of
        Some v \<Rightarrow> v
      | None \<Rightarrow>
          if pages > 0 \<and> page_size > 0 then of_int pages * of_int page_size
          else 512 * 1024 * 1024)"

definition ld_default_ram_limit :: "u64 \<Rightarrow> u64" where
  "ld_default_ram_limit available =
     (let minimum = 64 * 1024 * 1024;
          reserve = 8 * 1024 * 1024 * 1024;
          maximum = 16 * 1024 * 1024 * 1024;
          selected = (if available > reserve + minimum then available - reserve else available div 4);
          selected = (if selected < minimum then minimum else selected);
          selected = (if selected > maximum then maximum else selected)
      in if selected > UINT64_MAX then UINT64_MAX else selected)"

definition ld_online_cpu_count :: "int \<Rightarrow> u64" where
  "ld_online_cpu_count count = (if count > 0 then of_int count else 1)"

definition ld_default_worker_count :: "int \<Rightarrow> bool \<Rightarrow> bool \<Rightarrow> u64" where
  "ld_default_worker_count cpu_sysconf rotational serial_flash =
     (let cpus = ld_online_cpu_count cpu_sysconf;
          cpu_budget = (if cpus > 1 then cpus - 1 else 1)
      in if rotational then 1
         else if serial_flash then (if cpu_budget > 2 then 2 else cpu_budget)
         else cpu_budget)"

subsection \<open>The bitmap reads single bits\<close>

lemma unat_and_7: "unat (b AND 7 :: u64) = unat b mod 8"
proof -
  have "b AND 7 = take_bit 3 b" by (simp add: take_bit_eq_mask mask_eq_exp_minus_1)
  then show ?thesis by (simp add: take_bit_eq_mod unat_mod)
qed

lemma unat_drop_3: "unat (drop_bit 3 b :: u64) = unat b div 8"
  by (simp add: drop_bit_eq_div unat_div)

lemma bit_bit_mask: "bit (bit_mask b) k \<longleftrightarrow> k = unat b mod 8"
proof -
  have "unat b mod 8 < 8" by simp
  then show ?thesis
    unfolding bit_mask_def unat_and_7 bit_unsigned_iff
    by (auto simp: bit_simps exp_eq_zero_iff)
qed

lemma and_bit_mask: "(w AND bit_mask b \<noteq> 0) \<longleftrightarrow> bit w (unat b mod 8)"
proof -
  have "(w AND bit_mask b \<noteq> 0) \<longleftrightarrow> (\<exists>k. bit (w AND bit_mask b) k)"
    by (metis bit_0_eq bit_eq_iff bot_apply bot_bool_def)
  then show ?thesis by (simp add: bit_and_iff bit_bit_mask)
qed

lemma bitmap_get_bit:
  "ld_bitmap_get (Some bm) b =
     (if unat b div 8 < length bm then Some (bit (bm ! (unat b div 8)) (unat b mod 8)) else None)"
  by (simp add: ld_bitmap_get_def unat_drop_3 and_bit_mask Let_def)

lemma bitmap_set_bit:
  "ld_bitmap_set bm b v = Some bm' \<Longrightarrow>
     unat b div 8 < length bm \<and> length bm' = length bm \<and>
     (\<forall>j k. j < length bm \<longrightarrow> k < 8 \<longrightarrow>
        bit (bm' ! j) k = (if j = unat b div 8 \<and> k = unat b mod 8 then v else bit (bm ! j) k))"
  by (auto simp: ld_bitmap_set_def unat_drop_3 Let_def nth_list_update bit_or_iff bit_and_iff
        bit_not_iff bit_bit_mask exp_eq_zero_iff split: if_splits)

lemma div_mod_8_inject: "(m :: nat) div 8 = n div 8 \<Longrightarrow> m mod 8 = n mod 8 \<Longrightarrow> m = n"
  by (metis div_mult_mod_eq)

subsection \<open>The interface of an allocation map\<close>

fun set_all :: "('m \<Rightarrow> u64 \<Rightarrow> bool \<Rightarrow> 'm option) \<Rightarrow> 'm \<Rightarrow> (u64 \<times> bool) list \<Rightarrow> 'm option" where
  "set_all put m [] = Some m"
| "set_all put m ((b, v) # ws) =
     (case put m b v of None \<Rightarrow> None | Some m' \<Rightarrow> set_all put m' ws)"

locale allocation_map =
  fixes fresh :: "u64 \<Rightarrow> 'm option"
    and get :: "'m \<Rightarrow> u64 \<Rightarrow> bool option"
    and put :: "'m \<Rightarrow> u64 \<Rightarrow> bool \<Rightarrow> 'm option"
    and covers :: "'m \<Rightarrow> u64 \<Rightarrow> bool"
  assumes fresh_covers: "fresh n = Some m \<Longrightarrow> covers m n"
    and fresh_clear: "fresh n = Some m \<Longrightarrow> b < n \<Longrightarrow> get m b = Some False"
    and get_total: "covers m n \<Longrightarrow> b < n \<Longrightarrow> get m b \<noteq> None"
    and set_total: "covers m n \<Longrightarrow> b < n \<Longrightarrow> put m b v \<noteq> None"
    and set_covers: "covers m n \<Longrightarrow> put m b v = Some m' \<Longrightarrow> covers m' n"
    and get_set: "covers m n \<Longrightarrow> b < n \<Longrightarrow> c < n \<Longrightarrow> put m b v = Some m' \<Longrightarrow>
      get m' c = (if c = b then Some v else get m c)"
begin

lemma set_all_defined:
  "covers m n \<Longrightarrow> \<forall>(b, v) \<in> set ws. b < n \<Longrightarrow> \<exists>m'. set_all put m ws = Some m' \<and> covers m' n"
proof (induction ws arbitrary: m)
  case (Cons w ws)
  obtain b v where w: "w = (b, v)" by fastforce
  obtain m1 where m1: "put m b v = Some m1"
    using set_total [OF Cons.prems(1), of b v] Cons.prems(2) w by auto
  with Cons.IH [OF set_covers [OF Cons.prems(1) m1]] Cons.prems(2) w show ?case by auto
qed simp

lemma set_all_get:
  "covers m n \<Longrightarrow> \<forall>(b, v) \<in> set ws. b < n \<Longrightarrow> c < n \<Longrightarrow> set_all put m ws = Some m' \<Longrightarrow>
   get m' c = (case map_of (rev ws) c of Some v \<Rightarrow> Some v | None \<Rightarrow> get m c)"
proof (induction ws arbitrary: m)
  case (Cons w ws)
  obtain b v where w: "w = (b, v)" by fastforce
  obtain m1 where m1: "put m b v = Some m1"
    using Cons.prems(4) w by (auto split: option.splits)
  have "get m' c = (case map_of (rev ws) c of Some v \<Rightarrow> Some v | None \<Rightarrow> get m1 c)"
    using Cons.IH [OF set_covers [OF Cons.prems(1) m1]] Cons.prems w m1 by auto
  moreover have "get m1 c = (if c = b then Some v else get m c)"
    using get_set [OF Cons.prems(1) _ Cons.prems(3) m1] Cons.prems(2) w by auto
  ultimately show ?case
    by (auto simp: w map_add_def split: option.splits)
qed simp

end

definition bitmap_covers :: "u8 list \<Rightarrow> u64 \<Rightarrow> bool" where
  "bitmap_covers bm n \<longleftrightarrow> unat n \<le> 8 * length bm"

lemma bitmap_index: "bitmap_covers bm n \<Longrightarrow> b < n \<Longrightarrow> unat b div 8 < length bm"
  by (simp add: bitmap_covers_def word_less_nat_alt less_mult_imp_div_less mult.commute)

lemma bitmap_size_nat:
  assumes "ld_bitmap_size bits True = Inr bytes"
  shows "unat bytes = (unat bits + 7) div 8"
proof -
  have "\<not> bits > UINT64_MAX - 7" and b: "bytes = (bits + 7) div 8"
    using assms by (auto simp: ld_bitmap_size_def Let_def split: if_splits)
  then have "unat bits + unat (7 :: u64) < 2 ^ 64" by (simp only: word_gt_max_minus not_not)
  from unat_add_64 [OF this] b show ?thesis by (simp add: unat_div)
qed

lemma bitmap_calloc_block:
  "ld_bitmap_calloc ok n = Some bm \<Longrightarrow> bitmap_covers bm n \<and> (\<forall>i < length bm. bm ! i = 0)"
  by (auto simp: ld_bitmap_calloc_def bitmap_covers_def Let_def
        split: sum.splits if_splits dest!: bitmap_size_nat)

interpretation bm: allocation_map "ld_bitmap_calloc ok" "\<lambda>m. ld_bitmap_get (Some m)"
    ld_bitmap_set bitmap_covers
  for ok
proof unfold_locales
  fix n b c :: u64 and m m' :: "u8 list" and v :: bool
  show "ld_bitmap_calloc ok n = Some m \<Longrightarrow> bitmap_covers m n"
    using bitmap_calloc_block by blast
  show "ld_bitmap_calloc ok n = Some m \<Longrightarrow> b < n \<Longrightarrow> ld_bitmap_get (Some m) b = Some False"
    using bitmap_calloc_block [of ok n m] bitmap_index [of m n b] by (auto simp: bitmap_get_bit)
  show "bitmap_covers m n \<Longrightarrow> b < n \<Longrightarrow> ld_bitmap_get (Some m) b \<noteq> None"
    using bitmap_index by (auto simp: bitmap_get_bit)
  show "bitmap_covers m n \<Longrightarrow> b < n \<Longrightarrow> ld_bitmap_set m b v \<noteq> None"
    using bitmap_index by (auto simp: ld_bitmap_set_def unat_drop_3 Let_def)
  show "bitmap_covers m n \<Longrightarrow> ld_bitmap_set m b v = Some m' \<Longrightarrow> bitmap_covers m' n"
    by (auto simp: bitmap_covers_def dest!: bitmap_set_bit)
  show "ld_bitmap_get (Some m') c = (if c = b then Some v else ld_bitmap_get (Some m) c)"
    if "bitmap_covers m n" "b < n" "c < n" "ld_bitmap_set m b v = Some m'"
  proof -
    have "c = b" if "unat c div 8 = unat b div 8" "unat c mod 8 = unat b mod 8"
      using div_mod_8_inject [OF that] by (rule word_unat_eq_iff [THEN iffD2])
    then show ?thesis
      using bitmap_set_bit [OF that(4)] bitmap_index [OF that(1,3)] by (auto simp: bitmap_get_bit)
  qed
qed

subsection \<open>Properties\<close>

text \<open>
  A freshly allocated bitmap of \<open>n\<close> bits accepts any sequence of stores below \<open>n\<close>
  without leaving its block, and afterwards every bit below \<open>n\<close> reads as its last store,
  or as clear when it was never stored.
\<close>
theorem bitmap_reads_last_store:
  assumes "ld_bitmap_calloc ok n = Some bm" and "\<forall>(b, v) \<in> set ws. b < n"
  shows "\<exists>bm'. set_all ld_bitmap_set bm ws = Some bm' \<and>
     (\<forall>c < n. ld_bitmap_get (Some bm') c = Some (case map_of (rev ws) c of Some v \<Rightarrow> v | None \<Rightarrow> False))"
proof -
  have cov: "bitmap_covers bm n" by (rule bm.fresh_covers [OF assms(1)])
  obtain bm' where bm': "set_all ld_bitmap_set bm ws = Some bm'"
    using bm.set_all_defined [OF cov assms(2)] by blast
  have "ld_bitmap_get (Some bm') c = Some (case map_of (rev ws) c of Some v \<Rightarrow> v | None \<Rightarrow> False)"
    if "c < n" for c
    using bm.set_all_get [OF cov assms(2) that bm'] bm.fresh_clear [OF assms(1) that]
    by (simp split: option.splits)
  with bm' show ?thesis by blast
qed

theorem bitmap_reads_last_store_witness:
  "\<exists>bm'. set_all ld_bitmap_set [0, 0] [(9, True), (3, True), (3, False)] = Some bm' \<and>
     (\<forall>c < 10. ld_bitmap_get (Some bm') c =
        Some (case map_of (rev [(9, True), (3, True), (3, False)]) c of Some v \<Rightarrow> v | None \<Rightarrow> False))"
proof -
  have two: "replicate 2 (0 :: u8) = [0, 0]" by (simp add: numeral_2_eq_2)
  have "ld_bitmap_calloc (\<lambda>_. True) 10 = Some [0, 0]"
    by (simp add: ld_bitmap_calloc_def ld_bitmap_size_def Let_def two)
  from bitmap_reads_last_store [OF this, of "[(9, True), (3, True), (3, False)]"] show ?thesis by simp
qed

text \<open>
  The retry loop around \<open>fsync\<close> returns exactly the first outcome that is not an
  interruption, after consuming the interruptions before it, and it returns as soon as
  there is one.
\<close>
theorem sync_fd_first_definite:
  assumes "x \<noteq> Some EINTR"
  shows "ld_sync_fd (replicate n (Some EINTR) @ x # rest) =
           Some (case x of None \<Rightarrow> Inr () | Some e \<Rightarrow> Inl e, rest) \<and>
         ld_sync_fd (replicate n (Some EINTR)) = None"
proof (induction n)
  case 0
  with assms show ?case by (cases x) simp_all
qed simp

theorem sync_fd_first_definite_witness:
  "ld_sync_fd [Some EINTR, Some EINTR, Some EIO, None] = Some (Inl EIO, [None])"
  using sync_fd_first_definite [of "Some EIO" 2 "[None]"] by (simp add: numeral_2_eq_2)

lemma ram_selected:
  fixes available :: u64
  assumes "available > 8657043456"
  shows "unat (available - 8589934592) = unat available - 8589934592"
    and "\<not> available - 8589934592 < 67108864"
proof -
  have "8589934592 \<le> available" using assms by (simp add: word_le_nat_alt word_less_nat_alt)
  then show "unat (available - 8589934592) = unat available - 8589934592" by (simp add: unat_sub)
  with assms show "\<not> available - 8589934592 < 67108864" by (simp add: word_less_nat_alt)
qed

text \<open>
  The automatic RAM budget is never below 64 MiB and never above 16 GiB; with more than
  8 GiB + 64 MiB available it leaves at least 8 GiB to the system, and with less it takes at
  most a quarter, except for the 64 MiB floor.
\<close>
theorem ram_limit_bounds:
  "let l = unat (ld_default_ram_limit a) in
     64 * 2 ^ 20 \<le> l \<and> l \<le> 16 * 2 ^ 30 \<and>
     (if unat a > 8 * 2 ^ 30 + 64 * 2 ^ 20 then l + 8 * 2 ^ 30 \<le> unat a
      else l \<le> max (64 * 2 ^ 20) (unat a div 4))"
proof (cases "a > (8657043456 :: u64)")
  case True
  then have n: "unat a > 8657043456" by (simp add: word_less_nat_alt)
  show ?thesis
    using True n ram_selected [OF True]
    by (auto simp: ld_default_ram_limit_def Let_def word_less_nat_alt)
next
  case False
  then have n: "\<not> unat a > 8657043456" by (simp add: word_less_nat_alt)
  with False show ?thesis
    by (auto simp: ld_default_ram_limit_def Let_def word_less_nat_alt unat_div max_def)
qed

text \<open>
  Observation: the budget is not monotone in the available memory. One byte beyond the
  8 GiB + 64 MiB threshold lowers it from more than 2 GiB to 64 MiB.
\<close>
lemma ram_limit_not_monotone:
  "ld_default_ram_limit 8657043456 = 2164260864 \<and> ld_default_ram_limit 8657043457 = 67108865"
  by (simp add: ld_default_ram_limit_def Let_def)

text \<open>
  The worker count is at least one and, when the system reports at least one processor,
  at most the larger of one and one less than the processors; rotational media get one worker and serial
  flash at most two.
\<close>
theorem worker_count_bounds:
  assumes "count < 2 ^ 63"
  shows "let w = uint (ld_default_worker_count count rotational serial_flash) in
     1 \<le> w \<and> w \<le> max 1 (count - 1) \<and> (rotational \<longrightarrow> w = 1) \<and> (serial_flash \<longrightarrow> w \<le> 2)"
proof (cases "count > 1")
  case True
  have u: "uint (of_int count :: u64) = count"
    using True assms by (simp add: uint_word_of_int_eq take_bit_int_eq_self)
  have "(1 :: u64) < of_int count" using True u by (simp add: word_less_def)
  moreover have "uint (of_int count - 1 :: u64) = count - 1"
    using True u by (subst uint_minus_simple_alt [THEN iffD1]) (simp_all add: word_le_def)
  ultimately show ?thesis
    using True by (auto simp: ld_default_worker_count_def ld_online_cpu_count_def Let_def word_less_def)
next
  case False
  then have "count = 1 \<or> count \<le> 0" by linarith
  then show ?thesis
    by (auto simp: ld_default_worker_count_def ld_online_cpu_count_def Let_def)
qed

theorem worker_count_bounds_witness:
  "uint (ld_default_worker_count 8 False True) \<le> 2 \<and> uint (ld_default_worker_count 8 False False) \<le> 7"
  using worker_count_bounds [of 8 False True] worker_count_bounds [of 8 False False]
  by (simp add: Let_def)

end
