(* ===== verification/Posix.thy ===== *)
theory Posix
  imports Prelude
begin

text \<open>
  What the sources use of the C library and of POSIX: file status records and the mode
  tests of \<open>sys/stat.h\<close>, device numbers (the pair that \<open>major\<close> and \<open>minor\<close> read),
  decimal conversion of unsigned integers, and the string functions \<open>strrchr\<close>,
  \<open>strchr\<close>, \<open>strtok_r\<close>, \<open>strcmp\<close> and bounded \<open>snprintf\<close>. A C string is the list of
  its characters before the terminating zero.
\<close>

subsection \<open>File status\<close>

type_synonym dev = "u32 \<times> u32" \<comment> \<open>major and minor number\<close>

definition major :: "dev \<Rightarrow> u32" where "major d = fst d"

definition minor :: "dev \<Rightarrow> u32" where "minor d = snd d"

record file_stat =
  st_mode :: u32
  st_uid :: u32
  st_dev :: dev
  st_ino :: u64
  st_rdev :: dev
  st_size :: int

definition S_IFMT :: u32 where "S_IFMT = 0xF000"

definition S_ISDIR :: "u32 \<Rightarrow> bool" where "S_ISDIR m \<longleftrightarrow> m AND S_IFMT = 0x4000"

definition S_ISREG :: "u32 \<Rightarrow> bool" where "S_ISREG m \<longleftrightarrow> m AND S_IFMT = 0x8000"

definition S_ISBLK :: "u32 \<Rightarrow> bool" where "S_ISBLK m \<longleftrightarrow> m AND S_IFMT = 0x6000"

lemma mode_kinds_disjoint:
  "S_ISREG m \<Longrightarrow> \<not> S_ISBLK m" "S_ISDIR m \<Longrightarrow> \<not> S_ISREG m" "S_ISBLK m \<Longrightarrow> \<not> S_ISREG m"
  by (simp_all add: S_ISREG_def S_ISBLK_def S_ISDIR_def)

subsection \<open>Strings\<close>

definition PATH_MAX :: nat where "PATH_MAX = 4096"

definition strrchr :: "char \<Rightarrow> string \<Rightarrow> nat option" where
  "strrchr c s = (if c \<in> set s then Some (length s - 1 - length (takeWhile (\<lambda>x. x \<noteq> c) (rev s))) else None)"

lemma strrchr_split:
  assumes "strrchr c s = Some i"
  shows "i < length s" and "s ! i = c" and "c \<notin> set (drop (Suc i) s)"
proof -
  obtain ys zs where s: "s = ys @ c # zs" "c \<notin> set zs"
    using assms split_list_last [of c s] by (auto simp: strrchr_def split: if_splits)
  have "takeWhile (\<lambda>x. x \<noteq> c) (rev zs @ c # rev ys) = rev zs"
    using s(2) by (subst takeWhile_append2) auto
  with assms s have "i = length ys" by (auto simp: strrchr_def)
  with s show "i < length s" and "s ! i = c" and "c \<notin> set (drop (Suc i) s)" by auto
qed

fun split_char :: "char \<Rightarrow> string \<Rightarrow> string list" where
  "split_char c [] = [[]]"
| "split_char c (x # xs) =
     (if x = c then [] # split_char c xs
      else case split_char c xs of [] \<Rightarrow> [[x]] | w # ws \<Rightarrow> (x # w) # ws)"

lemma split_char_not_Nil [simp]: "split_char c s \<noteq> []"
  by (induction s) (auto split: list.splits)

lemma split_char_no_sep: "w \<in> set (split_char c s) \<Longrightarrow> c \<notin> set w"
  by (induction s arbitrary: w) (auto split: list.splits if_splits)

lemma split_char_plain: "c \<notin> set w \<Longrightarrow> split_char c w = [w]"
  by (induction w) auto

lemma split_char_append: "c \<notin> set w \<Longrightarrow> split_char c (w @ c # s) = w # split_char c s"
  by (induction w) auto

text \<open>\<open>strtok_r\<close> with one separator yields the non-empty fields.\<close>

definition strtok :: "char \<Rightarrow> string \<Rightarrow> string list" where
  "strtok c s = filter (\<lambda>w. w \<noteq> []) (split_char c s)"

text \<open>
  \<open>snprintf\<close> into a buffer of \<open>capacity\<close> bytes as the sources guard it: the text when it
  fits with its terminator.
\<close>

definition fits :: "nat \<Rightarrow> string \<Rightarrow> bool" where
  "fits capacity s \<longleftrightarrow> length s < capacity"

definition bounded :: "nat \<Rightarrow> string \<Rightarrow> string" where
  "bounded capacity s = take (capacity - 1) s"

definition starts_with :: "string \<Rightarrow> string \<Rightarrow> bool" where
  "starts_with s prefix \<longleftrightarrow> take (length prefix) s = prefix"

lemma starts_with_append [simp]: "starts_with (p @ s) p"
  by (simp add: starts_with_def)

lemma starts_withD: "starts_with s p \<Longrightarrow> \<exists>t. s = p @ t"
  by (metis append_take_drop_id starts_with_def)

fun str_contains :: "string \<Rightarrow> string \<Rightarrow> bool" where
  "str_contains [] needle = (needle = [])"
| "str_contains (x # xs) needle = (starts_with (x # xs) needle \<or> str_contains xs needle)"

subsection \<open>Decimal conversion\<close>

definition digit_char :: "nat \<Rightarrow> char" where
  "digit_char d = char_of (48 + d)"

fun show_nat :: "nat \<Rightarrow> string" where
  "show_nat n = (if n < 10 then [digit_char n] else show_nat (n div 10) @ [digit_char (n mod 10)])"

declare show_nat.simps [simp del]

lemma digit_char_table:
  "digit_char 0 = CHR ''0''" "digit_char (Suc 0) = CHR ''1''" "digit_char 2 = CHR ''2''" "digit_char 3 = CHR ''3''"
  "digit_char 4 = CHR ''4''" "digit_char 5 = CHR ''5''" "digit_char 6 = CHR ''6''" "digit_char 7 = CHR ''7''"
  "digit_char 8 = CHR ''8''" "digit_char 9 = CHR ''9''"
  by (simp_all add: digit_char_def char_of_def bit_nat_def)

lemmas show_nat_eval = show_nat.simps digit_char_table

abbreviation show_u32 :: "u32 \<Rightarrow> string" where "show_u32 w \<equiv> show_nat (unat w)"

abbreviation show_u64 :: "u64 \<Rightarrow> string" where "show_u64 w \<equiv> show_nat (unat w)"

definition is_digit :: "char \<Rightarrow> bool" where
  "is_digit c \<longleftrightarrow> 48 \<le> (of_char c :: nat) \<and> (of_char c :: nat) \<le> 57"

lemma of_char_digit: "d < 10 \<Longrightarrow> (of_char (digit_char d) :: nat) = 48 + d"
  by (simp add: digit_char_def)

lemma digit_char_inject: "a < 10 \<Longrightarrow> b < 10 \<Longrightarrow> digit_char a = digit_char b \<longleftrightarrow> a = b"
  by (metis add_left_cancel of_char_digit)

lemma is_digit_digit_char [simp]: "d < 10 \<Longrightarrow> is_digit (digit_char d)"
  by (simp add: is_digit_def of_char_digit)

lemma show_nat_digits: "\<forall>c \<in> set (show_nat n). is_digit c"
proof (induction n rule: show_nat.induct)
  case (1 n)
  then show ?case by (subst show_nat.simps) auto
qed

lemma show_nat_nonempty [simp]: "show_nat n \<noteq> []"
  by (subst show_nat.simps) simp

text \<open>Reading the digits back.\<close>

definition nat_of_digits :: "string \<Rightarrow> nat" where
  "nat_of_digits s = foldl (\<lambda>a c. 10 * a + ((of_char c :: nat) - 48)) 0 s"

lemma nat_of_show_nat [simp]: "nat_of_digits (show_nat n) = n"
proof (induction n rule: show_nat.induct)
  case (1 n)
  show ?case
  proof (cases "n < 10")
    case True
    then show ?thesis by (subst show_nat.simps) (simp add: nat_of_digits_def of_char_digit)
  next
    case False
    then have "nat_of_digits (show_nat n) = 10 * nat_of_digits (show_nat (n div 10)) + n mod 10"
      by (subst show_nat.simps) (simp add: nat_of_digits_def of_char_digit)
    with 1 False show ?thesis by simp
  qed
qed

lemma show_nat_inject [simp]: "show_nat m = show_nat n \<longleftrightarrow> m = n"
  by (metis nat_of_show_nat)

lemma show_nat_no_colon: "CHR '':'' \<notin> set (show_nat n)"
  using show_nat_digits [of n] by (auto simp: is_digit_def)

subsection \<open>Streams and \<open>sscanf\<close>\<close>

definition is_space :: "char \<Rightarrow> bool" where
  "is_space c \<longleftrightarrow> c = CHR '' '' \<or> c = CHR 0x09 \<or> c = CHR 0x0A \<or> c = CHR 0x0B \<or> c = CHR 0x0C \<or> c = CHR 0x0D"

text \<open>A directive \<open>%Ns\<close>: the token and the rest of the input; an unbounded \<open>%s\<close> has the input's length.\<close>

definition scan_s :: "nat \<Rightarrow> string \<Rightarrow> (string \<times> string) option" where
  "scan_s n s =
     (let t = dropWhile is_space s; w = take n (takeWhile (\<lambda>c. \<not> is_space c) t)
      in if w = [] then None else Some (w, drop (length w) t))"

text \<open>One \<open>fgets\<close> with room for \<open>n\<close> characters, and the successive results on a stream.\<close>

fun fgets_line :: "nat \<Rightarrow> string \<Rightarrow> string \<times> string" where
  "fgets_line n [] = ([], [])"
| "fgets_line n (c # s) =
     (if n = 0 then ([], c # s)
      else if c = CHR 0x0A then ([c], s)
      else case fgets_line (n - 1) s of (l, r) \<Rightarrow> (c # l, r))"

lemma fgets_line_length: "length (snd (fgets_line n s)) \<le> length s"
  by (induction n s rule: fgets_line.induct) (auto split: prod.splits)

function fgets_list :: "nat \<Rightarrow> string \<Rightarrow> string list" where
  "fgets_list n [] = []"
| "fgets_list n (c # s) = (case fgets_line (Suc n) (c # s) of (l, r) \<Rightarrow> l # fgets_list n r)"
  by pat_completeness auto
termination
proof (relation "measure (\<lambda>(n, s). length s)")
  fix n c s l r
  assume "(l, r) = fgets_line (Suc n) (c # s)"
  then have "length r \<le> length s"
    using fgets_line_length [of n s] by (auto split: if_splits prod.splits)
  then show "((n, r), (n, c # s)) \<in> measure (\<lambda>(n, s). length s)" by simp
qed simp

text \<open>The successive \<open>getline\<close> results keep their line feed.\<close>

fun getline_list :: "string \<Rightarrow> string list" where
  "getline_list [] = []"
| "getline_list (c # s) =
     (if c = CHR 0x0A then [c] # getline_list s
      else case getline_list s of [] \<Rightarrow> [[c]] | l # ls \<Rightarrow> (c # l) # ls)"

lemma concat_getline_list [simp]: "concat (getline_list s) = s"
  by (induction s rule: getline_list.induct) (auto split: list.splits)

lemma concat_fgets_list [simp]: "concat (fgets_list n s) = s"
proof -
  have line: "fst (fgets_line m t) @ snd (fgets_line m t) = t" for m t
    by (induction m t rule: fgets_line.induct) (auto split: prod.splits)
  show ?thesis
  proof (induction n s rule: fgets_list.induct)
    case (2 n c s)
    show ?case
      using 2 [OF prod.collapse] line [of "Suc n" "c # s"] by (auto split: prod.splits if_splits)
  qed simp
qed

text \<open>The part of a text that a C string function sees: up to the first character 0.\<close>

definition c_str :: "string \<Rightarrow> string" where
  "c_str s = takeWhile (\<lambda>c. c \<noteq> CHR 0x00) s"

text \<open>The text after the first occurrence of \<open>needle\<close> (\<open>strstr\<close>), and around the first \<open>c\<close> (\<open>strchr\<close>).\<close>

fun after_sub :: "string \<Rightarrow> string \<Rightarrow> string option" where
  "after_sub needle [] = (if needle = [] then Some [] else None)"
| "after_sub needle (c # s) =
     (if starts_with (c # s) needle then Some (drop (length needle) (c # s)) else after_sub needle s)"

definition cut_at :: "char \<Rightarrow> string \<Rightarrow> (string \<times> string) option" where
  "cut_at c s =
     (if c \<in> set s then Some (takeWhile (\<lambda>x. x \<noteq> c) s, drop (Suc (length (takeWhile (\<lambda>x. x \<noteq> c) s))) s)
      else None)"

text \<open>\<open>strcmp\<close> compares unsigned bytes.\<close>

fun str_less :: "string \<Rightarrow> string \<Rightarrow> bool" where
  "str_less [] [] = False"
| "str_less [] (b # t) = True"
| "str_less (a # s) [] = False"
| "str_less (a # s) (b # t) = ((of_char a :: nat) < of_char b \<or> a = b \<and> str_less s t)"

text \<open>
  The number that the C library's \<open>makedev\<close> packs into a \<open>dev_t\<close>: the high twenty bits of the
  major number, the high 24 of the minor, the low twelve of the major and the low eight
  of the minor.
\<close>

definition dev_value :: "dev \<Rightarrow> u64" where
  "dev_value d =
     (let ma = ucast (major d) :: u64; mi = ucast (minor d) :: u64
      in push_bit 44 (drop_bit 12 ma) OR push_bit 8 (take_bit 12 ma) OR
         push_bit 20 (drop_bit 8 mi) OR take_bit 8 mi)"

lemma dev_value_bits:
  "n < 12 \<Longrightarrow> bit (dev_value d) (n + 8) \<longleftrightarrow> bit (major d) n"
  "12 \<le> n \<Longrightarrow> n < 32 \<Longrightarrow> bit (dev_value d) (n + 32) \<longleftrightarrow> bit (major d) n"
  "n < 8 \<Longrightarrow> bit (dev_value d) n \<longleftrightarrow> bit (minor d) n"
  "8 \<le> n \<Longrightarrow> n < 32 \<Longrightarrow> bit (dev_value d) (n + 12) \<longleftrightarrow> bit (minor d) n"
  by (auto simp: dev_value_def Let_def bit_simps dest: bit_imp_le_length)

lemma dev_value_inject [simp]: "dev_value d = dev_value d' \<longleftrightarrow> d = d'"
proof
  assume eq: "dev_value d = dev_value d'"
  have "bit (major d) n = bit (major d') n" if "n < 32" for n
    using dev_value_bits(1,2) [of n d] dev_value_bits(1,2) [of n d'] that eq by (cases "n < 12") auto
  moreover have "bit (minor d) n = bit (minor d') n" if "n < 32" for n
    using dev_value_bits(3,4) [of n d] dev_value_bits(3,4) [of n d'] that eq by (cases "n < 8") auto
  ultimately have "major d = major d'" "minor d = minor d'" by (auto intro!: bit_word_eqI)
  then show "d = d'" by (simp add: major_def minor_def prod_eq_iff)
qed simp

end
