(* ===== verification/Paths.thy ===== *)
theory Paths
  imports Runtime Posix "HOL-Library.Multiset"
begin

text \<open>
  Path services of \<open>src/core/ld_path.c\<close>: the lexical binding of recovery files to their
  base, the parent directory, the walk that opens or creates a trusted directory tree and
  the staging capacity check. The kernel is a set of arbitrary answer functions: what a
  system call returns may depend on the whole history of calls and on nothing the program
  controls. A descriptor is the open file description it refers to. Common's checked
  arithmetic and \<open>infiltratr_path_concat\<close> are parameters.
\<close>

subsection \<open>Lexical paths\<close>

type_synonym checked_op = "u64 \<Rightarrow> u64 \<Rightarrow> u64 option"

abbreviation strlen :: "string \<Rightarrow> u64" where
  "strlen s \<equiv> word_of_nat (length s)"

definition ld_path_append_suffix ::
  "string \<Rightarrow> (errno \<Rightarrow> string) \<Rightarrow> checked_op \<Rightarrow> allocator \<Rightarrow> (u64 \<Rightarrow> string \<Rightarrow> string \<Rightarrow> string option) \<Rightarrow>
   string \<Rightarrow> string \<Rightarrow> string proc" where
  "ld_path_append_suffix prog strerror size_add_checked malloc path_concat base suffix =
     (case size_add_checked (strlen base) (strlen suffix) of
        None \<Rightarrow> ld_die prog ''path suffix length overflow''
      | Some combined_length \<Rightarrow>
          (case size_add_checked combined_length 1 of
             None \<Rightarrow> ld_die prog ''path suffix length overflow''
           | Some allocation_size \<Rightarrow>
               (case ld_xmalloc prog strerror malloc allocation_size of
                  Exit_failure t \<Rightarrow> Exit_failure t
                | Return _ \<Rightarrow>
                    (case path_concat allocation_size base suffix of
                       None \<Rightarrow> ld_die prog ''cannot append path suffix''
                     | Some result \<Rightarrow> Return result))))"

definition ld_path_is_derived_from ::
  "checked_op \<Rightarrow> string option \<Rightarrow> string option \<Rightarrow> string option \<Rightarrow> bool" where
  "ld_path_is_derived_from size_add_checked candidate base suffix =
     (case (candidate, base, suffix) of
        (Some candidate, Some base, Some suffix) \<Rightarrow>
          (case size_add_checked (strlen base) (strlen suffix) of
             None \<Rightarrow> False
           | Some expected_length \<Rightarrow>
               strlen candidate = expected_length \<and>
               take (length base) candidate = base \<and>
               take (length suffix) (drop (length base) candidate) = suffix)
      | _ \<Rightarrow> False)"

definition ld_path_parent_directory ::
  "string \<Rightarrow> (errno \<Rightarrow> string) \<Rightarrow> (string \<Rightarrow> string result) \<Rightarrow> string \<Rightarrow> string proc" where
  "ld_path_parent_directory prog strerror strdup path =
     (case ld_xstrdup prog strerror strdup path of
        Exit_failure t \<Rightarrow> Exit_failure t
      | Return copy \<Rightarrow>
          (case strrchr (CHR ''/'') copy of
             None \<Rightarrow> ld_xstrdup prog strerror strdup ''.''
           | Some slash \<Rightarrow> Return (take (if slash = 0 then 1 else slash) copy)))"

subsection \<open>Trusted directory trees\<close>

datatype dir_event =
    Open_root "nat result"
  | Openat2 nat string "nat result"
  | Openat nat string "nat result"
  | Mkdirat nat string "unit result"
  | Fstat nat "file_stat result"
  | Close nat

record dir_kernel =
  ans_open_root :: "dir_event list \<Rightarrow> nat result"
  ans_openat2 :: "dir_event list \<Rightarrow> nat \<Rightarrow> string \<Rightarrow> nat result"
  ans_openat :: "dir_event list \<Rightarrow> nat \<Rightarrow> string \<Rightarrow> nat result"
  ans_mkdirat :: "dir_event list \<Rightarrow> nat \<Rightarrow> string \<Rightarrow> unit result"
  ans_fstat :: "dir_event list \<Rightarrow> nat \<Rightarrow> file_stat result"

text \<open>The history \<open>h\<close> lists the calls made so far with their answers, newest first.\<close>

definition open_child_directory ::
  "dir_kernel \<Rightarrow> nat \<Rightarrow> string \<Rightarrow> dir_event list \<Rightarrow> nat result \<times> dir_event list" where
  "open_child_directory K parent component h =
     (let opened = ans_openat2 K h parent component;
          h = Openat2 parent component opened # h
      in case opened of
           Inr fd \<Rightarrow> (Inr fd, h)
         | Inl e \<Rightarrow>
             if e \<noteq> ENOSYS \<and> e \<noteq> EINVAL \<and> e \<noteq> E2BIG then (Inl e, h)
             else let r = ans_openat K h parent component
                  in (r, Openat parent component r # h))"

definition S_IWGRP :: u32 where "S_IWGRP = 0x10"

definition S_IWOTH :: u32 where "S_IWOTH = 0x2"

definition S_ISVTX :: u32 where "S_ISVTX = 0x200"

definition trusted_directory :: "file_stat \<Rightarrow> u32 \<Rightarrow> bool" where
  "trusted_directory status effective_uid =
     (if \<not> S_ISDIR (st_mode status) then False
      else let shared_write = st_mode status AND (S_IWGRP OR S_IWOTH)
        in if effective_uid = 0
           then st_uid status = 0 \<and> (shared_write = 0 \<or> st_mode status AND S_ISVTX \<noteq> 0)
           else if st_uid status = effective_uid then shared_write = 0
           else if st_uid status = 0
           then (if shared_write = 0 then True else st_mode status AND S_ISVTX \<noteq> 0)
           else False)"

text \<open>
  One loop iteration for a component that is neither empty nor \<open>.\<close>: open the child,
  create it when it is absent and open it again, inspect it through the descriptor, and
  close the parent. The result is the descriptor held afterwards and the failure, if any.
\<close>

definition enter_component ::
  "dir_kernel \<Rightarrow> u32 \<Rightarrow> nat \<Rightarrow> string \<Rightarrow> dir_event list \<Rightarrow> (nat \<times> errno option) \<times> dir_event list" where
  "enter_component K effective_uid directory component h =
     (if component = ''..'' then ((directory, Some EINVAL), h)
      else let (nxt, h) = open_child_directory K directory component h;
               (nxt, h) =
                 (if nxt = Inl ENOENT
                  then let m = ans_mkdirat K h directory component;
                           h = Mkdirat directory component m # h
                       in case m of
                            Inl e \<Rightarrow> if e \<noteq> EEXIST then (Inl e, h)
                                     else open_child_directory K directory component h
                          | Inr _ \<Rightarrow> open_child_directory K directory component h
                  else (nxt, h))
        in case nxt of
             Inl e \<Rightarrow> ((directory, Some e), h)
           | Inr fd \<Rightarrow>
               let st = ans_fstat K h fd; h = Fstat fd st # h
               in case st of
                    Inl e \<Rightarrow> ((directory, Some e), Close fd # h)
                  | Inr status \<Rightarrow>
                      if \<not> trusted_directory status effective_uid
                      then ((directory, Some EPERM), Close fd # h)
                      else ((fd, None), Close directory # h))"

fun walk_components ::
  "dir_kernel \<Rightarrow> u32 \<Rightarrow> nat \<Rightarrow> string list \<Rightarrow> dir_event list \<Rightarrow> (nat \<times> errno option) \<times> dir_event list" where
  "walk_components K effective_uid directory [] h = ((directory, None), h)"
| "walk_components K effective_uid directory (component # rest) h =
     (if component = ''.'' \<or> component = [] then walk_components K effective_uid directory rest h
      else case enter_component K effective_uid directory component h of
             ((held, Some e), h) \<Rightarrow> ((held, Some e), h)
           | ((held, None), h) \<Rightarrow> walk_components K effective_uid held rest h)"

definition ld_path_ensure_trusted_directory_tree ::
  "string \<Rightarrow> (errno \<Rightarrow> string) \<Rightarrow> (string \<Rightarrow> string result) \<Rightarrow> dir_kernel \<Rightarrow> u32 \<Rightarrow> string option \<Rightarrow>
   unit result proc \<times> dir_event list" where
  "ld_path_ensure_trusted_directory_tree prog strerror strdup K effective_uid path =
     (case path of
        None \<Rightarrow> (Return (Inl EINVAL), [])
      | Some path \<Rightarrow>
          if \<not> starts_with path ''/'' then (Return (Inl EINVAL), [])
          else let root = ans_open_root K []; h = [Open_root root]
            in case root of
                 Inl e \<Rightarrow> (Return (Inl e), h)
               | Inr directory \<Rightarrow>
                   (case ld_xstrdup prog strerror strdup path of
                      Exit_failure t \<Rightarrow> (Exit_failure t, h)
                    | Return copy \<Rightarrow>
                        (case walk_components K effective_uid directory (strtok (CHR ''/'') copy) h of
                           ((held, failure), h) \<Rightarrow>
                             (Return (case failure of Some e \<Rightarrow> Inl e | None \<Rightarrow> Inr ()), Close held # h))))"

subsection \<open>Staging capacity\<close>

record statvfs_info =
  f_frsize :: u64
  f_bsize :: u64
  f_bavail :: u64

text \<open>
  The two output pointers are given by their present contents; the result is the return
  value and the contents afterwards. \<open>statvfs\<close> maps a path to the kernel's answer.
\<close>

definition ld_path_require_staging_capacity ::
  "string \<Rightarrow> (errno \<Rightarrow> string) \<Rightarrow> (string \<Rightarrow> string result) \<Rightarrow> (string \<Rightarrow> statvfs_info result) \<Rightarrow> checked_op \<Rightarrow>
   string option \<Rightarrow> u64 \<Rightarrow> u64 option \<Rightarrow> u64 option \<Rightarrow> (unit result \<times> u64 option \<times> u64 option) proc" where
  "ld_path_require_staging_capacity prog strerror strdup statvfs u64_multiply_checked path payload_bytes
      available_bytes required_bytes =
     (case path of
        None \<Rightarrow> Return (Inl EINVAL, available_bytes, required_bytes)
      | Some path \<Rightarrow>
          if payload_bytes = 0 \<or> available_bytes = None \<or> required_bytes = None
          then Return (Inl EINVAL, available_bytes, required_bytes)
          else case ld_path_parent_directory prog strerror strdup path of
                 Exit_failure t \<Rightarrow> Exit_failure t
               | Return parent \<Rightarrow> Return
                   (case statvfs parent of
                      Inl e \<Rightarrow> (Inl e, available_bytes, required_bytes)
                    | Inr info \<Rightarrow>
                        let unit = (if f_frsize info \<noteq> 0 then f_frsize info else f_bsize info)
                        in case u64_multiply_checked (f_bavail info) unit of
                             None \<Rightarrow> (Inl EOVERFLOW, available_bytes, required_bytes)
                           | Some available \<Rightarrow>
                               let reserve = payload_bytes div 20
                               in if payload_bytes > UINT64_MAX - reserve
                                  then (Inl EOVERFLOW, available_bytes, required_bytes)
                                  else let required = payload_bytes + reserve
                                    in (if available < required then Inl ENOSPC else Inr (),
                                        Some available, Some required)))"

subsection \<open>Lexical properties\<close>

text \<open>Common's checked addition returns the sum when it fits in \<open>size_t\<close>, and nothing otherwise.\<close>

definition size_add_spec :: "checked_op \<Rightarrow> bool" where
  "size_add_spec add \<longleftrightarrow>
     (\<forall>a b. add a b = (if unat a + unat b < 2 ^ 64 then Some (a + b) else None))"

definition exact_add :: checked_op where
  "exact_add a b = (if unat a + unat b < 2 ^ 64 then Some (a + b) else None)"

lemma exact_add_spec [simp]: "size_add_spec exact_add"
  by (simp add: size_add_spec_def exact_add_def)

lemma strlen_eq_iff:
  "length s < 2 ^ 64 \<Longrightarrow> length t < 2 ^ 64 \<Longrightarrow> strlen s = strlen t \<longleftrightarrow> length s = length t"
  by (simp add: word_unat_eq_iff unsigned_of_nat take_bit_nat_eq_self)

lemma unat_strlen: "length s < 2 ^ 64 \<Longrightarrow> unat (strlen s) = length s"
  by (simp add: unsigned_of_nat take_bit_nat_eq_self)

lemma same_as_append:
  "length c = length b + length s \<Longrightarrow>
   (take (length b) c = b \<and> take (length s) (drop (length b) c) = s) \<longleftrightarrow> c = b @ s"
proof (rule iffI)
  assume "length c = length b + length s" "take (length b) c = b \<and> take (length s) (drop (length b) c) = s"
  then have "take (length b) c = b" "drop (length b) c = s" by simp_all
  then show "c = b @ s" by (metis append_take_drop_id)
qed simp

lemma is_derived_from_iff:
  assumes "size_add_spec add" and "length base + length suffix < 2 ^ 64" and "length candidate < 2 ^ 64"
  shows "ld_path_is_derived_from add (Some candidate) (Some base) (Some suffix) \<longleftrightarrow>
           candidate = base @ suffix"
proof -
  have "add (strlen base) (strlen suffix) = Some (strlen (base @ suffix))"
    using assms(1,2) by (simp add: size_add_spec_def unat_strlen)
  moreover have "strlen candidate = strlen (base @ suffix) \<longleftrightarrow>
      length candidate = length base + length suffix"
    using assms(2,3) by (subst strlen_eq_iff) simp_all
  ultimately have "ld_path_is_derived_from add (Some candidate) (Some base) (Some suffix) \<longleftrightarrow>
      length candidate = length base + length suffix \<and> take (length base) candidate = base \<and>
      take (length suffix) (drop (length base) candidate) = suffix"
    by (simp only: ld_path_is_derived_from_def prod.case option.case)
  then show ?thesis using same_as_append [of candidate base suffix] by (metis length_append)
qed

text \<open>
  The recovery binding is exact: a candidate is derived from a base and a suffix exactly
  when it is their concatenation, and the path that \<open>ld_path_append_suffix\<close> builds
  always passes the check. Common's \<open>infiltratr_size_add_checked\<close> is assumed to detect
  overflow and \<open>infiltratr_path_concat\<close> to concatenate when the buffer is large enough.
\<close>
theorem derived_path_exact:
  assumes "size_add_spec add"
    and "\<forall>cap b s. path_concat cap b s = (if length b + length s < unat cap then Some (b @ s) else None)"
    and "\<forall>n. malloc n = Inr (block n)"
    and "length base + length suffix + 1 < 2 ^ 64" and "length candidate < 2 ^ 64"
  shows "(ld_path_is_derived_from add (Some candidate) (Some base) (Some suffix) \<longleftrightarrow>
            candidate = base @ suffix) \<and>
         ld_path_append_suffix prog strerror add malloc path_concat base suffix = Return (base @ suffix)"
proof
  show "ld_path_is_derived_from add (Some candidate) (Some base) (Some suffix) \<longleftrightarrow> candidate = base @ suffix"
    using assms by (intro is_derived_from_iff) auto
  have "length base < 2 ^ 64" "length suffix < 2 ^ 64" using assms(4) by auto
  then have "add (strlen base) (strlen suffix) = Some (strlen (base @ suffix))"
    using assms(1,4) by (simp add: size_add_spec_def unat_strlen)
  moreover have u: "unat (strlen (base @ suffix)) = length base + length suffix"
    using assms(4) by (subst unat_strlen) auto
  then have "add (strlen (base @ suffix)) 1 = Some (strlen (base @ suffix) + 1)"
    and "unat (strlen (base @ suffix) + 1) = length base + length suffix + 1"
    using assms(1,4) by (auto simp: size_add_spec_def unat_word_ariths)
  ultimately show "ld_path_append_suffix prog strerror add malloc path_concat base suffix = Return (base @ suffix)"
    using assms(2,3) by (simp add: ld_path_append_suffix_def ld_xmalloc_def)
qed

theorem derived_path_exact_witness:
  "ld_path_append_suffix ''defrag'' (\<lambda>_. '''') exact_add (\<lambda>n. Inr [])
     (\<lambda>cap b s. if length b + length s < unat cap then Some (b @ s) else None) ''/a/journal'' ''.stage''
     = Return ''/a/journal.stage'' \<and>
   \<not> ld_path_is_derived_from exact_add (Some ''/b/journal.stage'') (Some ''/a/journal'') (Some ''.stage'')"
  using derived_path_exact [of exact_add
      "\<lambda>cap b s. if length b + length s < unat cap then Some (b @ s) else None" "\<lambda>n. Inr []" "\<lambda>n. []"
      "''/a/journal''" "''.stage''" "''/b/journal.stage''" "''defrag''" "\<lambda>_. ''''"]
  by simp

subsection \<open>Properties of the directory walk\<close>

definition vetted :: "u32 \<Rightarrow> dir_event list \<Rightarrow> nat \<Rightarrow> bool" where
  "vetted euid h fd \<longleftrightarrow> Open_root (Inr fd) \<in> set h \<or>
     (\<exists>status. Fstat fd (Inr status) \<in> set h \<and> trusted_directory status euid)"

definition plain_name :: "string \<Rightarrow> bool" where
  "plain_name c \<longleftrightarrow> c \<noteq> [] \<and> c \<noteq> ''.'' \<and> c \<noteq> ''..'' \<and> CHR ''/'' \<notin> set c"

fun cautious :: "u32 \<Rightarrow> dir_event list \<Rightarrow> bool" where
  "cautious euid [] = True"
| "cautious euid (e # h) = (cautious euid h \<and>
     (case e of Openat2 p c _ \<Rightarrow> vetted euid h p \<and> plain_name c
      | Openat p c _ \<Rightarrow> vetted euid h p \<and> plain_name c
      | Mkdirat p c _ \<Rightarrow> vetted euid h p \<and> plain_name c
      | _ \<Rightarrow> True))"

definition opens :: "dir_event list \<Rightarrow> nat multiset" where
  "opens h = mset (List.map_filter (\<lambda>e. case e of Open_root (Inr n) \<Rightarrow> Some n
     | Openat2 _ _ (Inr n) \<Rightarrow> Some n | Openat _ _ (Inr n) \<Rightarrow> Some n | _ \<Rightarrow> None) h)"

definition closes :: "dir_event list \<Rightarrow> nat multiset" where
  "closes h = mset (List.map_filter (\<lambda>e. case e of Close n \<Rightarrow> Some n | _ \<Rightarrow> None) h)"

fun descends :: "u32 \<Rightarrow> dir_event list \<Rightarrow> nat \<Rightarrow> string list \<Rightarrow> nat \<Rightarrow> bool" where
  "descends euid h d [] d' = (d = d')"
| "descends euid h d (c # cs) d' = (\<exists>n status.
     (Openat2 d c (Inr n) \<in> set h \<or> Openat d c (Inr n) \<in> set h) \<and>
     Fstat n (Inr status) \<in> set h \<and> trusted_directory status euid \<and> descends euid h n cs d')"

lemma opens_simps [simp]:
  "opens [] = {#}" "opens (Open_root (Inr n) # h) = add_mset n (opens h)"
  "opens (Openat2 p c (Inr n) # h) = add_mset n (opens h)"
  "opens (Openat p c (Inr n) # h) = add_mset n (opens h)"
  "opens (Open_root (Inl e) # h) = opens h" "opens (Openat2 p c (Inl e) # h) = opens h"
  "opens (Openat p c (Inl e) # h) = opens h" "opens (Mkdirat p c m # h) = opens h"
  "opens (Fstat n s # h) = opens h" "opens (Close n # h) = opens h"
  by (simp_all add: opens_def List.map_filter_simps)

lemma closes_simps [simp]:
  "closes [] = {#}" "closes (Close n # h) = add_mset n (closes h)"
  "closes (Open_root r # h) = closes h" "closes (Openat2 p c r # h) = closes h"
  "closes (Openat p c r # h) = closes h" "closes (Mkdirat p c m # h) = closes h"
  "closes (Fstat n s # h) = closes h"
  by (simp_all add: closes_def List.map_filter_simps)

lemma vetted_mono: "vetted euid h d \<Longrightarrow> set h \<subseteq> set h' \<Longrightarrow> vetted euid h' d"
  by (auto simp: vetted_def)

lemma descends_mono: "descends euid h d cs d' \<Longrightarrow> set h \<subseteq> set h' \<Longrightarrow> descends euid h' d cs d'"
  by (induction cs arbitrary: d) (simp, fastforce)

lemma open_child_step:
  assumes "open_child_directory K d c h = (r, h')" and "cautious euid h" and "vetted euid h d" and "plain_name c"
  shows "cautious euid h'" and "set h \<subseteq> set h'" and "closes h' = closes h"
    and "opens h' = (case r of Inr n \<Rightarrow> add_mset n (opens h) | Inl _ \<Rightarrow> opens h)"
    and "r = Inr n \<Longrightarrow> Openat2 d c (Inr n) \<in> set h' \<or> Openat d c (Inr n) \<in> set h'"
proof -
  have v: "vetted euid (Openat2 d c x # h) d" for x using assms(3) by (rule vetted_mono) auto
  show "cautious euid h'" "set h \<subseteq> set h'" "closes h' = closes h"
    using assms v by (auto simp: open_child_directory_def Let_def split: sum.splits if_splits)
  show "opens h' = (case r of Inr n \<Rightarrow> add_mset n (opens h) | Inl _ \<Rightarrow> opens h)"
    using assms(1) by (auto simp: open_child_directory_def Let_def split: sum.splits if_splits)
  show "r = Inr n \<Longrightarrow> Openat2 d c (Inr n) \<in> set h' \<or> Openat d c (Inr n) \<in> set h'"
    using assms(1) by (auto simp: open_child_directory_def Let_def split: sum.splits if_splits)
qed

text \<open>
  The loop invariant: the calls so far were cautious, the held directory is vetted and is
  the only descriptor that is open.
\<close>

definition walk_inv :: "u32 \<Rightarrow> nat \<Rightarrow> dir_event list \<Rightarrow> bool" where
  "walk_inv euid d h \<longleftrightarrow> cautious euid h \<and> vetted euid h d \<and> opens h = add_mset d (closes h)"

lemma vetted_Cons: "vetted euid h d \<Longrightarrow> vetted euid (e # h) d"
  by (erule vetted_mono) auto

lemma open_or_create_step:
  assumes "(if r = Inl ENOENT
            then let m = ans_mkdirat K h d c; h = Mkdirat d c m # h
                 in case m of
                      Inl e \<Rightarrow> if e \<noteq> EEXIST then (Inl e, h) else open_child_directory K d c h
                    | Inr _ \<Rightarrow> open_child_directory K d c h
            else (r, h)) = (r', h')"
    and "cautious euid h" and "vetted euid h d" and "plain_name c"
    and "r = Inr n' \<Longrightarrow> Openat2 d c (Inr n') \<in> set h \<or> Openat d c (Inr n') \<in> set h"
    and "opens h = (case r of Inr n \<Rightarrow> add_mset n base | Inl _ \<Rightarrow> base)"
  shows "cautious euid h'" and "set h \<subseteq> set h'" and "closes h' = closes h"
    and "opens h' = (case r' of Inr n \<Rightarrow> add_mset n base | Inl _ \<Rightarrow> base)"
    and "r' = Inr n' \<Longrightarrow> Openat2 d c (Inr n') \<in> set h' \<or> Openat d c (Inr n') \<in> set h'"
proof -
  let ?m = "ans_mkdirat K h d c"
  let ?h = "Mkdirat d c ?m # h"
  consider (kept) "r \<noteq> Inl ENOENT" "r' = r" "h' = h"
    | (refused) e where "r = Inl ENOENT" "r' = Inl e" "h' = ?h"
    | (again) "r = Inl ENOENT" "open_child_directory K d c ?h = (r', h')"
    using assms(1) by (auto simp: Let_def split: if_splits sum.splits)
  then have "cautious euid h' \<and> set h \<subseteq> set h' \<and> closes h' = closes h \<and>
    opens h' = (case r' of Inr n \<Rightarrow> add_mset n base | Inl _ \<Rightarrow> base) \<and>
    (r' = Inr n' \<longrightarrow> Openat2 d c (Inr n') \<in> set h' \<or> Openat d c (Inr n') \<in> set h')"
  proof cases
    case again
    have "cautious euid ?h" "vetted euid ?h d"
      using assms(2-4) by (auto intro: vetted_Cons)
    from open_child_step [OF again(2) this assms(4)] show ?thesis
      using again(1) assms(6) by (auto split: sum.splits)
  qed (use assms(2-6) in auto)
  then show "cautious euid h'" and "set h \<subseteq> set h'" and "closes h' = closes h"
    and "opens h' = (case r' of Inr n \<Rightarrow> add_mset n base | Inl _ \<Rightarrow> base)"
    and "r' = Inr n' \<Longrightarrow> Openat2 d c (Inr n') \<in> set h' \<or> Openat d c (Inr n') \<in> set h'" by blast+
qed

lemma enter_component_step:
  assumes "enter_component K euid d c h = ((d', failure), h')" and "walk_inv euid d h"
    and "c \<noteq> []" and "c \<noteq> ''.''" and "CHR ''/'' \<notin> set c"
  shows "walk_inv euid d' h' \<and> set h \<subseteq> set h' \<and> (failure = None \<longrightarrow> c \<noteq> ''..'' \<and> descends euid h' d [c] d')"
proof (cases "c = ''..''")
  case True
  with assms show ?thesis by (auto simp: enter_component_def)
next
  case False
  with assms(3-5) have c: "plain_name c" by (simp add: plain_name_def)
  obtain r1 h1 where o1: "open_child_directory K d c h = (r1, h1)" by fastforce
  obtain r2 h2 where o2: "(if r1 = Inl ENOENT
            then let m = ans_mkdirat K h1 d c; h = Mkdirat d c m # h1
                 in case m of
                      Inl e \<Rightarrow> if e \<noteq> EEXIST then (Inl e, h) else open_child_directory K d c h
                    | Inr _ \<Rightarrow> open_child_directory K d c h
            else (r1, h1)) = (r2, h2)" by fastforce
  have inv: "cautious euid h" "vetted euid h d" "opens h = add_mset d (closes h)"
    using assms(2) by (auto simp: walk_inv_def)
  note s1 = open_child_step [OF o1 inv(1,2) c]
  have v1: "vetted euid h1 d" using inv(2) s1(2) by (rule vetted_mono)
  note s2 = open_or_create_step [OF o2 s1(1) v1 c s1(5) s1(4)]
  have sub: "set h \<subseteq> set h2" using s1(2) s2(2) by blast
  then have v2: "vetted euid h2 d" using inv(2) by (rule vetted_mono [rotated])
  have cl: "closes h2 = closes h" using s1(3) s2(3) by simp
  show ?thesis
  proof (cases r2)
    case (Inl e)
    then have "((d', failure), h') = ((d, Some e), h2)"
      using assms(1) False o1 o2 by (simp add: enter_component_def Let_def)
    then show ?thesis using Inl s2 v2 sub cl inv(3) by (simp add: walk_inv_def)
  next
    case (Inr n)
    let ?st = "ans_fstat K h2 n"
    have step: "((d', failure), h') =
       (case ?st of Inl e \<Rightarrow> ((d, Some e), Close n # Fstat n ?st # h2)
        | Inr status \<Rightarrow> if \<not> trusted_directory status euid
            then ((d, Some EPERM), Close n # Fstat n ?st # h2)
            else ((n, None), Close d # Fstat n ?st # h2))"
      using assms(1) False o1 o2 Inr by (simp add: enter_component_def Let_def split: sum.splits)
    have o: "opens h2 = add_mset n (add_mset d (closes h2))" using Inr s2(4) inv(3) cl by simp
    have found: "Openat2 d c (Inr n) \<in> set h2 \<or> Openat d c (Inr n) \<in> set h2" using s2(5) Inr by simp
    show ?thesis
    proof (cases "\<exists>status. ?st = Inr status \<and> trusted_directory status euid")
      case True
      then have "((d', failure), h') = ((n, None), Close d # Fstat n ?st # h2)" using step by auto
      with True o s2(1) sub found False show ?thesis by (auto simp: walk_inv_def vetted_def; blast)
    next
      case no: False
      then have "d' = d" "failure \<noteq> None" "h' = Close n # Fstat n ?st # h2"
        using step by (auto split: sum.splits if_splits)
      with o s2(1) sub v2 show ?thesis by (auto simp: walk_inv_def intro!: vetted_Cons)
    qed
  qed
qed

lemma descends_append: "descends euid h d cs m \<Longrightarrow> descends euid h m cs' d' \<Longrightarrow> descends euid h d (cs @ cs') d'"
  by (induction cs arbitrary: d) auto

lemma walk_components_step:
  assumes "walk_components K euid d cs h = ((d', failure), h')" and "walk_inv euid d h"
    and "\<forall>c \<in> set cs. CHR ''/'' \<notin> set c"
  shows "walk_inv euid d' h' \<and> set h \<subseteq> set h' \<and>
    (failure = None \<longrightarrow> ''..'' \<notin> set cs \<and> descends euid h' d (filter (\<lambda>c. c \<noteq> ''.'' \<and> c \<noteq> []) cs) d')"
  using assms
proof (induction cs arbitrary: d h)
  case (Cons c cs)
  show ?case
  proof (cases "c = ''.'' \<or> c = []")
    case True
    with Cons show ?thesis by auto
  next
    case False
    obtain m f h1 where e: "enter_component K euid d c h = ((m, f), h1)" by (metis surj_pair)
    have s: "walk_inv euid m h1" "set h \<subseteq> set h1"
      "f = None \<Longrightarrow> c \<noteq> ''..'' \<and> descends euid h1 d [c] m"
      using enter_component_step [OF e Cons.prems(2)] False Cons.prems(3) by auto
    show ?thesis
    proof (cases f)
      case None
      then have "walk_components K euid m cs h1 = ((d', failure), h')"
        using Cons.prems(1) False e by simp
      with Cons.IH [OF this s(1)] Cons.prems(3) s None False show ?thesis
        using descends_mono [of euid h1 d "[c]" m h'] descends_append [of euid h' d "[c]" m] by auto
    next
      case (Some x)
      with Cons.prems(1) False e s show ?thesis by auto
    qed
  qed
qed simp

lemma tree_result_cases:
  assumes "ld_path_ensure_trusted_directory_tree prog strerror strdup K euid path = (Return r, h)"
  obtains e where "r = Inl e" "h = []"
  | e where "r = Inl e" "h = [Open_root (Inl e)]"
  | p copy root d failure h1 where "path = Some p" "starts_with p ''/''" "strdup p = Inr copy"
      "walk_components K euid root (strtok (CHR ''/'') copy) [Open_root (Inr root)] = ((d, failure), h1)"
      "r = (case failure of Some e \<Rightarrow> Inl e | None \<Rightarrow> Inr ())" "h = Close d # h1"
  using assms
  by (auto simp: ld_path_ensure_trusted_directory_tree_def ld_xstrdup_def ld_die_errno_def Let_def
      split: option.splits if_splits sum.splits prod.splits)

lemma strtok_no_sep: "w \<in> set (strtok c s) \<Longrightarrow> c \<notin> set w"
  by (auto simp: strtok_def dest: split_char_no_sep)

lemma strtok_nonempty: "w \<in> set (strtok c s) \<Longrightarrow> w \<noteq> []"
  by (simp add: strtok_def)

lemma tree_walk:
  assumes "walk_components K euid root (strtok (CHR ''/'') copy) [Open_root (Inr root)] = ((d, failure), h1)"
  shows "walk_inv euid d h1 \<and> Open_root (Inr root) \<in> set h1 \<and>
    (failure = None \<longrightarrow> ''..'' \<notin> set (strtok (CHR ''/'') copy) \<and>
       descends euid h1 root (filter (\<lambda>c. c \<noteq> ''.'') (strtok (CHR ''/'') copy)) d)"
proof -
  have "walk_inv euid root [Open_root (Inr root)]" by (simp add: walk_inv_def vetted_def)
  moreover have "filter (\<lambda>c. c \<noteq> ''.'' \<and> c \<noteq> []) (strtok (CHR ''/'') copy)
      = filter (\<lambda>c. c \<noteq> ''.'') (strtok (CHR ''/'') copy)"
    by (rule filter_cong) (auto dest: strtok_nonempty)
  ultimately show ?thesis
    using walk_components_step [OF assms] strtok_no_sep [of _ "CHR ''/''" copy] by auto
qed

text \<open>
  Property C7. Whatever the kernel answers and however other processes change the tree between the
  calls: the directory walk opens and creates entries only beneath the root directory or
  beneath a directory whose status it had read through the descriptor and found trusted,
  always by a plain name; every descriptor it obtained is closed exactly once; and it
  succeeds only if the path has no \<open>..\<close> component and each component in turn was opened
  beneath its predecessor and found trusted.
\<close>
theorem trusted_tree_safe:
  assumes "ld_path_ensure_trusted_directory_tree prog strerror strdup K euid (Some path) = (Return r, h)"
    and "strdup path = Inr path"
  shows "cautious euid h \<and> closes h = opens h \<and>
    (r = Inr () \<longrightarrow> starts_with path ''/'' \<and> ''..'' \<notin> set (strtok (CHR ''/'') path) \<and>
       (\<exists>root d. Open_root (Inr root) \<in> set h \<and>
          descends euid h root (filter (\<lambda>c. c \<noteq> ''.'') (strtok (CHR ''/'') path)) d))"
  using assms(1)
proof (cases rule: tree_result_cases)
  case (3 p copy root d failure h1)
  with assms(2) have copy: "copy = path" "p = path" by auto
  note w = tree_walk [OF 3(4), unfolded copy]
  have "descends euid h root cs d" if "descends euid h1 root cs d" for cs
    using that by (rule descends_mono) (use 3 in auto)
  with w 3 copy show ?thesis by (auto simp: walk_inv_def split: option.splits)
qed auto

definition demo_dir :: file_stat where
  "demo_dir = \<lparr>st_mode = 0x41ED, st_uid = 0, st_dev = (8, 1), st_ino = 7, st_rdev = (0, 0), st_size = 4096\<rparr>"

definition demo_kernel :: dir_kernel where
  "demo_kernel = \<lparr>ans_open_root = \<lambda>h. Inr 3, ans_openat2 = \<lambda>h d c. Inl ENOSYS,
     ans_openat = \<lambda>h d c. if length h = 2 then Inr 4 else if length h = 6 then Inl ENOENT else Inr 5,
     ans_mkdirat = \<lambda>h d c. Inr (), ans_fstat = \<lambda>h fd. Inr demo_dir\<rparr>"

theorem trusted_tree_safe_witness:
  "ld_path_ensure_trusted_directory_tree ''d'' (\<lambda>_. '''') Inr demo_kernel 0 (Some ''/var/./x'') =
     (Return (Inr ()), [Close 5, Close 4, Fstat 5 (Inr demo_dir), Openat 4 ''x'' (Inr 5), Openat2 4 ''x'' (Inl ENOSYS),
       Mkdirat 4 ''x'' (Inr ()), Openat 4 ''x'' (Inl ENOENT), Openat2 4 ''x'' (Inl ENOSYS), Close 3,
       Fstat 4 (Inr demo_dir), Openat 3 ''var'' (Inr 4), Openat2 3 ''var'' (Inl ENOSYS), Open_root (Inr 3)]) \<and>
   cautious 0 (snd (ld_path_ensure_trusted_directory_tree ''d'' (\<lambda>_. '''') Inr demo_kernel 0 (Some ''/var/./x'')))"
proof -
  have t: "trusted_directory demo_dir 0"
    by (simp add: trusted_directory_def demo_dir_def S_ISDIR_def S_IFMT_def S_IWGRP_def S_IWOTH_def)
  have run: "ld_path_ensure_trusted_directory_tree ''d'' (\<lambda>_. '''') Inr demo_kernel 0 (Some ''/var/./x'') =
     (Return (Inr ()), [Close 5, Close 4, Fstat 5 (Inr demo_dir), Openat 4 ''x'' (Inr 5), Openat2 4 ''x'' (Inl ENOSYS),
       Mkdirat 4 ''x'' (Inr ()), Openat 4 ''x'' (Inl ENOENT), Openat2 4 ''x'' (Inl ENOSYS), Close 3,
       Fstat 4 (Inr demo_dir), Openat 3 ''var'' (Inr 4), Openat2 3 ''var'' (Inl ENOSYS), Open_root (Inr 3)])"
    by (simp add: ld_path_ensure_trusted_directory_tree_def starts_with_def ld_xstrdup_def strtok_def
        enter_component_def open_child_directory_def demo_kernel_def t Let_def)
  from trusted_tree_safe [OF run] run show ?thesis by simp
qed

subsection \<open>Properties of the capacity check\<close>

definition mult_spec :: "checked_op \<Rightarrow> bool" where
  "mult_spec mul \<longleftrightarrow>
     (\<forall>a b. mul a b = (if unat a * unat b < 2 ^ 64 then Some (a * b) else None))"

definition exact_mult :: checked_op where
  "exact_mult a b = (if unat a * unat b < 2 ^ 64 then Some (a * b) else None)"

lemma exact_mult_spec [simp]: "mult_spec exact_mult"
  by (simp add: mult_spec_def exact_mult_def)

definition staging_unit :: "statvfs_info \<Rightarrow> u64" where
  "staging_unit info = (if f_frsize info \<noteq> 0 then f_frsize info else f_bsize info)"

lemma unat_div_20: "unat ((p :: u64) div 20) = unat p div 20"
  by (simp add: unat_div)

text \<open>
  The staging check succeeds exactly when the free bytes of the file system that holds
  the path's parent cover the payload and five percent of it, computed without wrap-around; then and when it
  reports \<open>ENOSPC\<close> it returns both byte counts, and it reports \<open>ENOSPC\<close> only when the
  space is really too small. Common's checked multiplication is assumed to detect
  overflow.
\<close>
theorem staging_capacity_exact:
  assumes "mult_spec mul" and "ld_path_parent_directory prog strerror strdup path = Return parent"
    and "statvfs parent = Inr info" and "payload \<noteq> 0"
    and "ld_path_require_staging_capacity prog strerror strdup statvfs mul (Some path) payload (Some a0) (Some r0)
           = Return (r, available, required)"
  shows "let free = unat (f_bavail info) * unat (staging_unit info);
             need = unat payload + unat payload div 20
         in (r = Inr () \<longleftrightarrow> free < 2 ^ 64 \<and> need < 2 ^ 64 \<and> need \<le> free) \<and>
            (r = Inl ENOSPC \<longleftrightarrow> free < 2 ^ 64 \<and> need < 2 ^ 64 \<and> free < need) \<and>
            (r = Inr () \<or> r = Inl ENOSPC \<longrightarrow>
               map_option unat available = Some free \<and> map_option unat required = Some need)"
proof -
  let ?free = "unat (f_bavail info) * unat (staging_unit info)"
  let ?need = "unat payload + unat payload div 20"
  have run: "(r, available, required) =
     (if ?free < 2 ^ 64
      then if ?need < 2 ^ 64
           then (if f_bavail info * staging_unit info < payload + payload div 20 then Inl ENOSPC else Inr (),
                 Some (f_bavail info * staging_unit info), Some (payload + payload div 20))
           else (Inl EOVERFLOW, Some a0, Some r0)
      else (Inl EOVERFLOW, Some a0, Some r0))"
  proof -
    have "payload > UINT64_MAX - payload div 20 \<longleftrightarrow> \<not> ?need < 2 ^ 64"
      by (simp only: word_gt_max_minus unat_div_20)
    with assms(5) show ?thesis
      by (simp add: ld_path_require_staging_capacity_def assms(2-4) Let_def mult_spec_def
            assms(1)[unfolded mult_spec_def, rule_format] flip: staging_unit_def split: if_splits)
  qed
  have u: "?need < 2 ^ 64 \<Longrightarrow> unat (payload + payload div 20) = ?need"
    using unat_add_64 [of payload "payload div 20"] by (simp only: unat_div_20)
  have v: "?free < 2 ^ 64 \<Longrightarrow> unat (f_bavail info * staging_unit info) = ?free"
    by (rule unat_mult_64)
  show ?thesis
    using run u v by (auto simp: Let_def word_less_nat_alt split: if_splits)
qed

theorem staging_capacity_exact_witness:
  "ld_path_require_staging_capacity ''d'' (\<lambda>_. '''') Inr
      (\<lambda>p. if p = ''/s'' then Inr \<lparr>f_frsize = 0, f_bsize = 7, f_bavail = 30\<rparr> else Inl ENOENT) exact_mult
      (Some ''/s/j'') 200 (Some 1) (Some 2) = Return (Inr (), Some 210, Some 210) \<and>
   (let free = 30 * 7; need = 200 + 200 div 20 in free < (2 :: nat) ^ 64 \<and> need \<le> free)"
proof -
  let ?sv = "\<lambda>p. if p = ''/s'' then Inr \<lparr>f_frsize = 0, f_bsize = 7, f_bavail = 30\<rparr> else Inl ENOENT"
  have parent: "ld_path_parent_directory ''d'' (\<lambda>_. '''') Inr ''/s/j'' = Return ''/s''"
    by (simp add: ld_path_parent_directory_def ld_xstrdup_def strrchr_def)
  have run: "ld_path_require_staging_capacity ''d'' (\<lambda>_. '''') Inr ?sv exact_mult
      (Some ''/s/j'') 200 (Some 1) (Some 2) = Return (Inr (), Some 210, Some 210)"
    by (simp add: ld_path_require_staging_capacity_def parent exact_mult_def Let_def)
  from staging_capacity_exact [OF exact_mult_spec parent _ _ run] run show ?thesis
    by (simp add: staging_unit_def Let_def)
qed

end
