(* ===== verification/Topology.thy ===== *)
theory Topology
  imports Runtime Posix
begin

text \<open>
  The block-device topology walk of \<open>src/core/ld_device.c\<close>: parsing device numbers, reading
  sysfs relations and collecting every device that overlaps a target. A \<open>host_view\<close> is what
  the operating system shows during one scan (file status, directory listings, procfs and
  udev texts); a \<open>common\<close> record holds the functions of Infiltratr Common that the file
  calls, which are not part of these sources. Text files hold no zero bytes. An external
  read that fails without setting \<open>errno\<close> reports \<open>Errno_other 0\<close>.
\<close>

subsection \<open>The environment\<close>

record common =
  program_name :: string
  strerror :: "errno \<Rightarrow> string"
  parse_u64_token :: "string \<Rightarrow> u64 \<Rightarrow> (u64 \<times> string) option" \<comment> \<open>value and the text after it\<close>
  string_starts_with :: "string \<Rightarrow> string \<Rightarrow> bool"
  trim_line_end :: "string \<Rightarrow> string"
  copy_string :: "nat \<Rightarrow> string \<Rightarrow> string" \<comment> \<open>contents of a buffer of that many bytes\<close>
  path_basename :: "string \<Rightarrow> string option"

record host_view =
  stat_path :: "path \<Rightarrow> file_stat result"
  realpath :: "path \<Rightarrow> string result"
  realpath_copy :: "path \<Rightarrow> nat \<Rightarrow> string result"
  read_text_file :: "path \<Rightarrow> nat \<Rightarrow> string result"
  read_u64_file :: "path \<Rightarrow> u64 option"
  list_directory :: "path \<Rightarrow> (string list \<times> errno option) result" \<comment> \<open>names, then a read error\<close>
  file_text :: "path \<Rightarrow> (string \<times> errno option) result" \<comment> \<open>bytes of a stream, then a read error\<close>

definition die_errno :: "common \<Rightarrow> string \<Rightarrow> errno \<Rightarrow> 'a proc" where
  "die_errno C what e = ld_die_errno (program_name C) (strerror C) what e"

definition errno_or :: "errno \<Rightarrow> errno \<Rightarrow> errno" where
  "errno_or e fallback = (if e = Errno_other 0 then fallback else e)"

subsection \<open>Related devices\<close>

record LdRelatedDevice =
  rd_value :: dev
  exact_mapping :: bool
  relations_scanned :: bool
  children_scanned :: bool

definition LD_MAX_RELATED_DEVICES :: nat where "LD_MAX_RELATED_DEVICES = 1024"

fun mark_related :: "dev \<Rightarrow> bool \<Rightarrow> LdRelatedDevice list \<Rightarrow> LdRelatedDevice list option" where
  "mark_related v exact [] = None"
| "mark_related v exact (d # ds) =
     (if rd_value d \<noteq> v then map_option ((#) d) (mark_related v exact ds)
      else Some ((if exact then d\<lparr>exact_mapping := True\<rparr> else d) # ds))"

definition ld_add_related_device ::
  "LdRelatedDevice list \<Rightarrow> dev \<Rightarrow> bool \<Rightarrow> LdRelatedDevice list result" where
  "ld_add_related_device devices v exact =
     (case mark_related v exact devices of
        Some devices' \<Rightarrow> Inr devices'
      | None \<Rightarrow>
          if length devices \<ge> LD_MAX_RELATED_DEVICES then Inl EOVERFLOW
          else Inr (devices @ [\<lparr>rd_value = v, exact_mapping = exact,
                                relations_scanned = False, children_scanned = False\<rparr>]))"

definition UINT_MAX :: u64 where "UINT_MAX = 0xFFFFFFFF"

definition ld_parse_device_number :: "common \<Rightarrow> string \<Rightarrow> dev option" where
  "ld_parse_device_number C text =
     (case parse_u64_token C text 10 of
        Some (found_major, CHR '':'' # cursor) \<Rightarrow>
          if found_major > UINT_MAX then None
          else (case parse_u64_token C cursor 10 of
                  Some (found_minor, []) \<Rightarrow>
                    if found_minor > UINT_MAX then None
                    else Some (ucast found_major, ucast found_minor)
                | _ \<Rightarrow> None)
      | _ \<Rightarrow> None)"

definition ld_read_sysfs_device :: "common \<Rightarrow> host_view \<Rightarrow> path \<Rightarrow> dev result" where
  "ld_read_sysfs_device C V path =
     (case read_text_file V path 64 of
        Inl e \<Rightarrow> Inl e
      | Inr text \<Rightarrow> (case ld_parse_device_number C text of None \<Rightarrow> Inl EIO | Some d \<Rightarrow> Inr d))"

definition sysfs_link :: "dev \<Rightarrow> path" where
  "sysfs_link d = ''/sys/dev/block/'' @ show_u32 (major d) @ '':'' @ show_u32 (minor d)"

definition ld_resolve_sysfs_device :: "host_view \<Rightarrow> dev \<Rightarrow> nat \<Rightarrow> path result" where
  "ld_resolve_sysfs_device V d capacity =
     (if \<not> fits PATH_MAX (sysfs_link d) then Inl ENAMETOOLONG
      else realpath_copy V (sysfs_link d) capacity)"

definition ld_sysfs_is_partition :: "host_view \<Rightarrow> path \<Rightarrow> bool result" where
  "ld_sysfs_is_partition V sysfs_path =
     (let path = sysfs_path @ ''/partition''
      in if \<not> fits PATH_MAX path then Inl ENAMETOOLONG
         else case stat_path V path of
                Inr _ \<Rightarrow> Inr True
              | Inl e \<Rightarrow> if e = ENOENT then Inr False else Inl e)"

fun collect_entries ::
  "common \<Rightarrow> host_view \<Rightarrow> path \<Rightarrow> bool \<Rightarrow> bool \<Rightarrow> string list \<Rightarrow> LdRelatedDevice list \<Rightarrow>
   LdRelatedDevice list result" where
  "collect_entries C V path exact require [] devices = Inr devices"
| "collect_entries C V path exact require (name # names) devices =
     (if name = ''.'' \<or> name = ''..'' then collect_entries C V path exact require names devices
      else let device_path = path @ ''/'' @ name @ ''/dev''
        in if \<not> fits PATH_MAX device_path then Inl ENAMETOOLONG
           else case ld_read_sysfs_device C V device_path of
                  Inl e \<Rightarrow> if require then Inl (errno_or e EIO)
                           else collect_entries C V path exact require names devices
                | Inr related \<Rightarrow>
                    (case ld_add_related_device devices related exact of
                       Inl e \<Rightarrow> Inl (errno_or e EOVERFLOW)
                     | Inr devices \<Rightarrow> collect_entries C V path exact require names devices))"

definition ld_collect_sysfs_directory ::
  "common \<Rightarrow> host_view \<Rightarrow> path \<Rightarrow> LdRelatedDevice list \<Rightarrow> bool \<Rightarrow> bool \<Rightarrow> LdRelatedDevice list result" where
  "ld_collect_sysfs_directory C V path devices exact require =
     (case list_directory V path of
        Inl e \<Rightarrow> Inl e
      | Inr (names, read_error) \<Rightarrow>
          (case collect_entries C V path exact require names devices of
             Inl e \<Rightarrow> Inl e
           | Inr devices \<Rightarrow> (case read_error of Some e \<Rightarrow> Inl e | None \<Rightarrow> Inr devices)))"

definition parent_dev_path :: "path \<Rightarrow> path result" where
  "parent_dev_path sysfs_path =
     (if \<not> fits PATH_MAX sysfs_path then Inl ENAMETOOLONG
      else case strrchr (CHR ''/'') sysfs_path of
             None \<Rightarrow> Inl EIO
           | Some separator \<Rightarrow>
               if separator + 5 > PATH_MAX then Inl ENAMETOOLONG
               else Inr (take separator sysfs_path @ ''/dev''))"

definition ld_add_partition_parent_device ::
  "common \<Rightarrow> host_view \<Rightarrow> path \<Rightarrow> bool \<Rightarrow> LdRelatedDevice list \<Rightarrow> LdRelatedDevice list result" where
  "ld_add_partition_parent_device C V sysfs_path is_partition devices =
     (if \<not> is_partition then Inr devices
      else case parent_dev_path sysfs_path of
             Inl e \<Rightarrow> Inl e
           | Inr parent_path \<Rightarrow>
               (case ld_read_sysfs_device C V parent_path of
                  Inl e \<Rightarrow> Inl e
                | Inr parent \<Rightarrow> ld_add_related_device devices parent False))"

fun collect_relations ::
  "common \<Rightarrow> host_view \<Rightarrow> path \<Rightarrow> string list \<Rightarrow> LdRelatedDevice list \<Rightarrow> LdRelatedDevice list result" where
  "collect_relations C V sysfs_path [] devices = Inr devices"
| "collect_relations C V sysfs_path (name # names) devices =
     (let relation_path = sysfs_path @ ''/'' @ name
      in if \<not> fits PATH_MAX relation_path then Inl ENAMETOOLONG
         else case ld_collect_sysfs_directory C V relation_path devices True True of
                Inl e \<Rightarrow> Inl e
              | Inr devices \<Rightarrow> collect_relations C V sysfs_path names devices)"

text \<open>The two blocks of the loop body, for the device at \<open>index\<close>.\<close>

definition scan_relations ::
  "common \<Rightarrow> host_view \<Rightarrow> path \<Rightarrow> bool \<Rightarrow> nat \<Rightarrow> LdRelatedDevice list \<Rightarrow> LdRelatedDevice list result" where
  "scan_relations C V sysfs_path is_partition index devices =
     (if relations_scanned (devices ! index) then Inr devices
      else let devices = devices[index := (devices ! index)\<lparr>relations_scanned := True\<rparr>]
        in case ld_add_partition_parent_device C V sysfs_path is_partition devices of
             Inl e \<Rightarrow> Inl e
           | Inr devices \<Rightarrow>
               collect_relations C V sysfs_path (if is_partition then [''holders''] else [''holders'', ''slaves''])
                 devices)"

definition scan_children ::
  "common \<Rightarrow> host_view \<Rightarrow> path \<Rightarrow> bool \<Rightarrow> nat \<Rightarrow> LdRelatedDevice list \<Rightarrow> LdRelatedDevice list result" where
  "scan_children C V sysfs_path is_partition index devices =
     (if exact_mapping (devices ! index) \<and> \<not> is_partition \<and> \<not> children_scanned (devices ! index)
      then ld_collect_sysfs_directory C V sysfs_path
             (devices[index := (devices ! index)\<lparr>children_scanned := True\<rparr>]) True False
      else Inr devices)"

definition scan_device ::
  "common \<Rightarrow> host_view \<Rightarrow> nat \<Rightarrow> LdRelatedDevice list \<Rightarrow> LdRelatedDevice list result" where
  "scan_device C V index devices =
     (case ld_resolve_sysfs_device V (rd_value (devices ! index)) PATH_MAX of
        Inl e \<Rightarrow> Inl e
      | Inr sysfs_path \<Rightarrow>
          (case ld_sysfs_is_partition V sysfs_path of
             Inl e \<Rightarrow> Inl e
           | Inr is_partition \<Rightarrow>
               (case scan_relations C V sysfs_path is_partition index devices of
                  Inl e \<Rightarrow> Inl e
                | Inr devices \<Rightarrow> scan_children C V sysfs_path is_partition index devices)))"

subsection \<open>What one scan adds\<close>

definition related_values :: "LdRelatedDevice list \<Rightarrow> dev set" where
  "related_values ds = rd_value ` set ds"

text \<open>
  \<open>grows ds ds' S\<close>: the scan appended unscanned entries for the new devices of \<open>S\<close>,
  kept every value and scan flag, at most raised \<open>exact_mapping\<close>, introduced no duplicate
  and respected the capacity.
\<close>

definition grows :: "LdRelatedDevice list \<Rightarrow> LdRelatedDevice list \<Rightarrow> dev set \<Rightarrow> bool" where
  "grows ds ds' S \<longleftrightarrow> length ds \<le> length ds' \<and> length ds' \<le> max LD_MAX_RELATED_DEVICES (length ds) \<and>
     (\<forall>i < length ds. rd_value (ds' ! i) = rd_value (ds ! i) \<and>
        relations_scanned (ds' ! i) = relations_scanned (ds ! i) \<and>
        children_scanned (ds' ! i) = children_scanned (ds ! i) \<and>
        (exact_mapping (ds ! i) \<longrightarrow> exact_mapping (ds' ! i))) \<and>
     (\<forall>i. length ds \<le> i \<and> i < length ds' \<longrightarrow> \<not> relations_scanned (ds' ! i) \<and> \<not> children_scanned (ds' ! i)) \<and>
     related_values ds' = related_values ds \<union> S \<and>
     (distinct (map rd_value ds) \<longrightarrow> distinct (map rd_value ds'))"

lemma grows_refl [simp]: "grows ds ds {}"
  by (auto simp: grows_def)

lemma growsD:
  assumes "grows ds ds' S"
  shows "length ds \<le> length ds'" and "length ds' \<le> max LD_MAX_RELATED_DEVICES (length ds)"
    and "i < length ds \<Longrightarrow> rd_value (ds' ! i) = rd_value (ds ! i)"
    and "i < length ds \<Longrightarrow> relations_scanned (ds' ! i) = relations_scanned (ds ! i)"
    and "i < length ds \<Longrightarrow> children_scanned (ds' ! i) = children_scanned (ds ! i)"
    and "i < length ds \<Longrightarrow> exact_mapping (ds ! i) \<Longrightarrow> exact_mapping (ds' ! i)"
    and "length ds \<le> i \<Longrightarrow> i < length ds' \<Longrightarrow> \<not> relations_scanned (ds' ! i)"
    and "length ds \<le> i \<Longrightarrow> i < length ds' \<Longrightarrow> \<not> children_scanned (ds' ! i)"
    and "related_values ds' = related_values ds \<union> S"
    and "distinct (map rd_value ds) \<Longrightarrow> distinct (map rd_value ds')"
  using assms by (simp_all add: grows_def)

lemma grows_trans:
  assumes "grows ds ds1 S" and "grows ds1 ds2 T"
  shows "grows ds ds2 (S \<union> T)"
proof -
  note a = growsD [OF assms(1)] and b = growsD [OF assms(2)]
  have "\<not> relations_scanned (ds2 ! i) \<and> \<not> children_scanned (ds2 ! i)"
    if "length ds \<le> i" "i < length ds2" for i
    using that a(7,8) [of i] b(4,5,7,8) [of i] by (cases "i < length ds1") auto
  then show ?thesis
    using a b by (auto simp: grows_def)
qed

lemma mark_related_None: "mark_related v x ds = None \<longleftrightarrow> v \<notin> related_values ds"
  by (induction ds) (auto simp: related_values_def)

lemma mark_related_Some:
  assumes "mark_related v x ds = Some ds'"
  shows "\<exists>i < length ds. rd_value (ds ! i) = v \<and>
           ds' = ds[i := (if x then (ds ! i)\<lparr>exact_mapping := True\<rparr> else ds ! i)]"
  using assms
proof (induction ds arbitrary: ds')
  case (Cons d ds)
  show ?case
  proof (cases "rd_value d = v")
    case True
    with Cons.prems show ?thesis by (intro exI [of _ 0]) auto
  next
    case False
    with Cons.prems obtain ds1 where "mark_related v x ds = Some ds1" "ds' = d # ds1" by auto
    moreover from Cons.IH [OF this(1)] obtain i where "i < length ds" "rd_value (ds ! i) = v"
      "ds1 = ds[i := (if x then (ds ! i)\<lparr>exact_mapping := True\<rparr> else ds ! i)]" by blast
    ultimately show ?thesis by (intro exI [of _ "Suc i"]) simp
  qed
qed simp

lemma values_nth_cong:
  assumes "length ds' = length ds" and "\<forall>i < length ds. rd_value (ds' ! i) = rd_value (ds ! i)"
  shows "map rd_value ds' = map rd_value ds" and "related_values ds' = related_values ds"
proof -
  show "map rd_value ds' = map rd_value ds" using assms by (intro nth_equalityI) auto
  then show "related_values ds' = related_values ds" by (metis list.set_map related_values_def)
qed

lemma add_related_grows:
  assumes "ld_add_related_device ds v x = Inr ds'"
  shows "grows ds ds' {v}"
proof (cases "mark_related v x ds")
  case None
  with assms have "ds' = ds @ [\<lparr>rd_value = v, exact_mapping = x, relations_scanned = False, children_scanned = False\<rparr>]"
    and "length ds < LD_MAX_RELATED_DEVICES" and "v \<notin> related_values ds"
    by (auto simp: ld_add_related_device_def mark_related_None split: if_splits)
  then show ?thesis by (auto simp: grows_def nth_append related_values_def)
next
  case (Some ds1)
  with assms have eq: "ds' = ds1" by (simp add: ld_add_related_device_def)
  obtain i where i: "i < length ds" "rd_value (ds ! i) = v"
    "ds1 = ds[i := (if x then (ds ! i)\<lparr>exact_mapping := True\<rparr> else ds ! i)]"
    using mark_related_Some [OF Some] by blast
  have l: "length ds' = length ds" using i eq by simp
  have n: "\<forall>j < length ds. rd_value (ds' ! j) = rd_value (ds ! j)"
    using i eq by (auto simp: nth_list_update)
  have "v \<in> related_values ds" using i by (auto simp: related_values_def)
  with values_nth_cong [OF l n] i eq n show ?thesis
    by (auto simp: grows_def nth_list_update)
qed

definition dir_devices :: "common \<Rightarrow> host_view \<Rightarrow> path \<Rightarrow> string list \<Rightarrow> dev set" where
  "dir_devices C V path names = {r. \<exists>name \<in> set names. name \<noteq> ''.'' \<and> name \<noteq> ''..'' \<and>
     ld_read_sysfs_device C V (path @ ''/'' @ name @ ''/dev'') = Inr r}"

lemma dir_devices_simps [simp]:
  "dir_devices C V path [] = {}"
  "dir_devices C V path (name # names) =
     (if name = ''.'' \<or> name = ''..'' then {}
      else case ld_read_sysfs_device C V (path @ ''/'' @ name @ ''/dev'') of Inl _ \<Rightarrow> {} | Inr r \<Rightarrow> {r})
     \<union> dir_devices C V path names"
  by (auto simp: dir_devices_def split: sum.splits)

lemma collect_entries_grows:
  "collect_entries C V path x require names ds = Inr ds' \<Longrightarrow> grows ds ds' (dir_devices C V path names)"
proof (induction names arbitrary: ds)
  case (Cons name names)
  show ?case
  proof (cases "name = ''.'' \<or> name = ''..''")
    case True
    with Cons show ?thesis by auto
  next
    case False
    show ?thesis
    proof (cases "ld_read_sysfs_device C V (path @ ''/'' @ name @ ''/dev'')")
      case (Inl e)
      with Cons False show ?thesis by (auto simp: Let_def split: if_splits)
    next
      case (Inr r)
      with Cons.prems False obtain ds1 where
        "ld_add_related_device ds r x = Inr ds1" "collect_entries C V path x require names ds1 = Inr ds'"
        by (auto simp: Let_def split: if_splits sum.splits)
      then have "grows ds ds' ({r} \<union> dir_devices C V path names)"
        using add_related_grows Cons.IH grows_trans by blast
      with Inr False show ?thesis by simp
    qed
  qed
qed simp

text \<open>The devices a sysfs relation directory names.\<close>

definition listed_devices :: "common \<Rightarrow> host_view \<Rightarrow> path \<Rightarrow> dev set" where
  "listed_devices C V path = (case list_directory V path of Inl _ \<Rightarrow> {} | Inr (names, _) \<Rightarrow> dir_devices C V path names)"

lemma collect_directory_grows:
  "ld_collect_sysfs_directory C V path ds x require = Inr ds' \<Longrightarrow> grows ds ds' (listed_devices C V path)"
  by (auto simp: ld_collect_sysfs_directory_def listed_devices_def
      split: sum.splits option.splits dest: collect_entries_grows)

lemma collect_relations_grows:
  "collect_relations C V p names ds = Inr ds' \<Longrightarrow>
   grows ds ds' (\<Union>name \<in> set names. listed_devices C V (p @ ''/'' @ name))"
proof (induction names arbitrary: ds)
  case (Cons name names)
  then obtain ds1 where "ld_collect_sysfs_directory C V (p @ ''/'' @ name) ds True True = Inr ds1"
    "collect_relations C V p names ds1 = Inr ds'"
    by (auto simp: Let_def split: if_splits sum.splits)
  then show ?case using Cons.IH collect_directory_grows grows_trans by fastforce
qed simp

definition parent_devices :: "common \<Rightarrow> host_view \<Rightarrow> path \<Rightarrow> bool \<Rightarrow> dev set" where
  "parent_devices C V p is_partition =
     (if is_partition then {r. \<exists>q. parent_dev_path p = Inr q \<and> ld_read_sysfs_device C V q = Inr r} else {})"

lemma add_parent_grows:
  "ld_add_partition_parent_device C V p part ds = Inr ds' \<Longrightarrow> grows ds ds' (parent_devices C V p part)"
  by (auto simp: ld_add_partition_parent_device_def parent_devices_def
      split: if_splits sum.splits dest: add_related_grows)

text \<open>A visit of the entry at \<open>i\<close> may set its scan flags and grows the rest.\<close>

definition visits :: "nat \<Rightarrow> LdRelatedDevice list \<Rightarrow> LdRelatedDevice list \<Rightarrow> dev set \<Rightarrow> bool" where
  "visits i ds ds' S \<longleftrightarrow> length ds \<le> length ds' \<and> length ds' \<le> max LD_MAX_RELATED_DEVICES (length ds) \<and>
     (\<forall>j < length ds. rd_value (ds' ! j) = rd_value (ds ! j) \<and>
        (j \<noteq> i \<longrightarrow> relations_scanned (ds' ! j) = relations_scanned (ds ! j) \<and>
                   children_scanned (ds' ! j) = children_scanned (ds ! j)) \<and>
        (exact_mapping (ds ! j) \<longrightarrow> exact_mapping (ds' ! j))) \<and>
     (\<forall>j. length ds \<le> j \<and> j < length ds' \<longrightarrow> \<not> relations_scanned (ds' ! j) \<and> \<not> children_scanned (ds' ! j)) \<and>
     related_values ds' = related_values ds \<union> S \<and>
     (distinct (map rd_value ds) \<longrightarrow> distinct (map rd_value ds'))"

lemma visitsD:
  assumes "visits i ds ds' S"
  shows "length ds \<le> length ds'" and "length ds' \<le> max LD_MAX_RELATED_DEVICES (length ds)"
    and "j < length ds \<Longrightarrow> rd_value (ds' ! j) = rd_value (ds ! j)"
    and "j < length ds \<Longrightarrow> j \<noteq> i \<Longrightarrow> relations_scanned (ds' ! j) = relations_scanned (ds ! j)"
    and "j < length ds \<Longrightarrow> j \<noteq> i \<Longrightarrow> children_scanned (ds' ! j) = children_scanned (ds ! j)"
    and "j < length ds \<Longrightarrow> exact_mapping (ds ! j) \<Longrightarrow> exact_mapping (ds' ! j)"
    and "length ds \<le> j \<Longrightarrow> j < length ds' \<Longrightarrow> \<not> relations_scanned (ds' ! j)"
    and "length ds \<le> j \<Longrightarrow> j < length ds' \<Longrightarrow> \<not> children_scanned (ds' ! j)"
    and "related_values ds' = related_values ds \<union> S"
    and "distinct (map rd_value ds) \<Longrightarrow> distinct (map rd_value ds')"
  using assms by (simp_all add: visits_def)

lemma visits_refl [simp]: "visits i ds ds {}"
  by (auto simp: visits_def)

lemma visits_trans:
  assumes "visits i ds ds1 S" and "visits i ds1 ds2 T" and "i < length ds"
  shows "visits i ds ds2 (S \<union> T)"
proof -
  note a = visitsD [OF assms(1)] and b = visitsD [OF assms(2)]
  have "\<not> relations_scanned (ds2 ! j) \<and> \<not> children_scanned (ds2 ! j)"
    if "length ds \<le> j" "j < length ds2" for j
    using that assms(3) a(7,8) [of j] b(4,5,7,8) [of j] by (cases "j < length ds1") auto
  then show ?thesis
    using a b by (auto simp: visits_def)
qed

lemma flag_grows_visits:
  assumes "grows (ds[i := d]) ds' S" and "i < length ds" and "rd_value d = rd_value (ds ! i)"
    and "exact_mapping d = exact_mapping (ds ! i)"
  shows "visits i ds ds' S"
proof -
  have n: "\<forall>j < length ds. rd_value (ds[i := d] ! j) = rd_value (ds ! j)"
    using assms(2,3) by (auto simp: nth_list_update)
  have e: "map rd_value (ds[i := d]) = map rd_value ds" "related_values (ds[i := d]) = related_values ds"
    using values_nth_cong [of "ds[i := d]" ds] n by auto
  note g = growsD [OF assms(1)]
  have s: "j < length ds \<Longrightarrow> exact_mapping (ds ! j) \<Longrightarrow> exact_mapping (ds[i := d] ! j)" for j
    using assms(2,4) by (cases "j = i") auto
  have l: "length (ds[i := d]) = length ds" by simp
  have "length ds \<le> length ds' \<and> length ds' \<le> max LD_MAX_RELATED_DEVICES (length ds)"
    using g(1,2) unfolding l by (rule conjI)
  moreover have "\<forall>j < length ds. rd_value (ds' ! j) = rd_value (ds ! j) \<and>
        (j \<noteq> i \<longrightarrow> relations_scanned (ds' ! j) = relations_scanned (ds ! j) \<and>
                   children_scanned (ds' ! j) = children_scanned (ds ! j)) \<and>
        (exact_mapping (ds ! j) \<longrightarrow> exact_mapping (ds' ! j))"
    using g(3-6) n s l by simp
  moreover have "\<forall>j. length ds \<le> j \<and> j < length ds' \<longrightarrow> \<not> relations_scanned (ds' ! j) \<and> \<not> children_scanned (ds' ! j)"
    using g(7,8) l by simp
  ultimately show ?thesis
    using g(9,10) e by (simp add: visits_def)
qed

definition relation_names :: "bool \<Rightarrow> string list" where
  "relation_names is_partition = (if is_partition then [''holders''] else [''holders'', ''slaves''])"

definition relation_devices :: "common \<Rightarrow> host_view \<Rightarrow> path \<Rightarrow> bool \<Rightarrow> dev set" where
  "relation_devices C V p part = parent_devices C V p part \<union>
     (\<Union>name \<in> set (relation_names part). listed_devices C V (p @ ''/'' @ name))"

lemma scan_relations_grows:
  assumes "scan_relations C V p part i ds = Inr ds'" and "\<not> relations_scanned (ds ! i)"
  shows "grows (ds[i := (ds ! i)\<lparr>relations_scanned := True\<rparr>]) ds' (relation_devices C V p part)"
proof -
  obtain ds1 where "ld_add_partition_parent_device C V p part (ds[i := (ds ! i)\<lparr>relations_scanned := True\<rparr>]) = Inr ds1"
    "collect_relations C V p (relation_names part) ds1 = Inr ds'"
    using assms by (auto simp: scan_relations_def Let_def relation_names_def split: sum.splits)
  then show ?thesis
    using add_parent_grows collect_relations_grows grows_trans unfolding relation_devices_def by blast
qed

lemma scan_relations_visits:
  assumes "scan_relations C V p part i ds = Inr ds'" and "i < length ds"
  shows "visits i ds ds' (if relations_scanned (ds ! i) then {} else relation_devices C V p part)"
proof (cases "relations_scanned (ds ! i)")
  case True
  with assms show ?thesis by (simp add: scan_relations_def)
next
  case False
  from scan_relations_grows [OF assms(1) False] have "visits i ds ds' (relation_devices C V p part)"
    by (rule flag_grows_visits) (use assms(2) in simp_all)
  with False show ?thesis by simp
qed

lemma scan_relations_children:
  assumes "scan_relations C V p part i ds = Inr ds'" and "i < length ds" and "\<not> children_scanned (ds ! i)"
  shows "\<not> children_scanned (ds' ! i)"
proof (cases "relations_scanned (ds ! i)")
  case True
  with assms show ?thesis by (simp add: scan_relations_def)
next
  case False
  from growsD(5) [OF scan_relations_grows [OF assms(1) False], of i] assms(2,3) show ?thesis by simp
qed

definition scans_children :: "bool \<Rightarrow> LdRelatedDevice \<Rightarrow> bool" where
  "scans_children part d \<longleftrightarrow> exact_mapping d \<and> \<not> part \<and> \<not> children_scanned d"

lemma scan_children_visits:
  assumes "scan_children C V p part i ds = Inr ds'" and "i < length ds"
  shows "visits i ds ds' (if scans_children part (ds ! i) then listed_devices C V p else {})"
proof (cases "scans_children part (ds ! i)")
  case True
  then have "grows (ds[i := (ds ! i)\<lparr>children_scanned := True\<rparr>]) ds' (listed_devices C V p)"
    using assms(1) by (auto simp: scan_children_def scans_children_def dest: collect_directory_grows)
  then have "visits i ds ds' (listed_devices C V p)"
    by (rule flag_grows_visits) (use assms(2) in simp_all)
  with True show ?thesis by simp
qed (use assms in \<open>auto simp: scan_children_def scans_children_def\<close>)

lemma scan_device_visits:
  assumes "scan_device C V i ds = Inr ds'" and "i < length ds"
    and "\<not> relations_scanned (ds ! i)" and "\<not> children_scanned (ds ! i)"
  obtains p part S where "ld_resolve_sysfs_device V (rd_value (ds ! i)) PATH_MAX = Inr p"
    and "ld_sysfs_is_partition V p = Inr part"
    and "visits i ds ds' (relation_devices C V p part \<union> S)"
    and "S = {} \<or> S = listed_devices C V p"
    and "exact_mapping (ds ! i) \<Longrightarrow> \<not> part \<Longrightarrow> S = listed_devices C V p"
    and "S \<noteq> {} \<Longrightarrow> \<not> part"
proof -
  obtain p part ds1 where a: "ld_resolve_sysfs_device V (rd_value (ds ! i)) PATH_MAX = Inr p"
    "ld_sysfs_is_partition V p = Inr part" "scan_relations C V p part i ds = Inr ds1"
    "scan_children C V p part i ds1 = Inr ds'"
    using assms(1) by (auto simp: scan_device_def split: sum.splits)
  have v1: "visits i ds ds1 (relation_devices C V p part)"
    using scan_relations_visits [OF a(3) assms(2)] assms(3) by simp
  have i1: "i < length ds1" using visitsD(1) [OF v1] assms(2) by simp
  let ?S = "if scans_children part (ds1 ! i) then listed_devices C V p else {}"
  have v: "visits i ds ds' (relation_devices C V p part \<union> ?S)"
    using visits_trans [OF v1 scan_children_visits [OF a(4) i1] assms(2)] .
  show thesis
  proof (rule that [OF a(1,2) v])
    assume "exact_mapping (ds ! i)" "\<not> part"
    moreover have "\<not> children_scanned (ds1 ! i)"
      using a(3) assms(2,4) by (rule scan_relations_children)
    ultimately show "?S = listed_devices C V p"
      using visitsD(6) [OF v1 assms(2)] by (simp add: scans_children_def)
  qed (auto simp: scans_children_def)
qed

subsection \<open>The worklist\<close>

lemma scan_device_length:
  assumes "scan_device C V i ds = Inr ds'" and "i < length ds"
  shows "length ds' \<le> max LD_MAX_RELATED_DEVICES (length ds)"
proof -
  obtain p part ds1 where a: "scan_relations C V p part i ds = Inr ds1" "scan_children C V p part i ds1 = Inr ds'"
    using assms(1) by (auto simp: scan_device_def split: sum.splits)
  note v1 = scan_relations_visits [OF a(1) assms(2)]
  have i1: "i < length ds1" using visitsD(1) [OF v1] assms(2) by simp
  show ?thesis using visitsD(2) [OF v1] visitsD(2) [OF scan_children_visits [OF a(2) i1]] by simp
qed

text \<open>
  The loop over the growing array. It ends because the array never exceeds
  \<open>LD_MAX_RELATED_DEVICES\<close> entries while the index advances.
\<close>

function collect_from ::
  "common \<Rightarrow> host_view \<Rightarrow> nat \<Rightarrow> LdRelatedDevice list \<Rightarrow> LdRelatedDevice list result" where
  "collect_from C V index devices =
     (if index < length devices
      then case scan_device C V index devices of
             Inl e \<Rightarrow> Inl e
           | Inr devices' \<Rightarrow> collect_from C V (Suc index) devices'
      else Inr devices)"
  by pat_completeness auto
termination
proof (relation "measure (\<lambda>(C, V, index, devices). max LD_MAX_RELATED_DEVICES (length devices) - index)")
  fix C V index devices devices'
  assume "index < length devices" "scan_device C V index devices = Inr devices'"
  then show "((C, V, Suc index, devices'), (C, V, index, devices))
      \<in> measure (\<lambda>(C, V, index, devices). max LD_MAX_RELATED_DEVICES (length devices) - index)"
    using scan_device_length [of C V index devices devices'] by simp
qed simp

declare collect_from.simps [simp del]

definition ld_collect_related_devices :: "common \<Rightarrow> host_view \<Rightarrow> dev \<Rightarrow> LdRelatedDevice list result" where
  "ld_collect_related_devices C V target =
     (case ld_add_related_device [] target True of
        Inl e \<Rightarrow> Inl e
      | Inr devices \<Rightarrow> collect_from C V 0 devices)"

definition ld_related_contains :: "LdRelatedDevice list \<Rightarrow> dev \<Rightarrow> bool" where
  "ld_related_contains devices v = (\<exists>d \<in> set devices. rd_value d = v)"

lemma ld_related_contains_values [simp]: "ld_related_contains ds v \<longleftrightarrow> v \<in> related_values ds"
  by (auto simp: ld_related_contains_def related_values_def)

subsection \<open>The overlap relation\<close>

text \<open>
  The specification: the devices whose storage overlaps the target, as the kernel's sysfs
  relations describe it. The flag says that the device maps the selected range itself; the
  disk that contains a selected partition overlaps it without mapping it, so its other
  partitions are not included.
\<close>

inductive covers :: "common \<Rightarrow> host_view \<Rightarrow> dev \<Rightarrow> dev \<Rightarrow> bool \<Rightarrow> bool" for C V t where
  target: "covers C V t t True"
| parent: "covers C V t d x \<Longrightarrow> ld_resolve_sysfs_device V d PATH_MAX = Inr p \<Longrightarrow>
     ld_sysfs_is_partition V p = Inr part \<Longrightarrow> r \<in> parent_devices C V p part \<Longrightarrow> covers C V t r False"
| relation: "covers C V t d x \<Longrightarrow> ld_resolve_sysfs_device V d PATH_MAX = Inr p \<Longrightarrow>
     ld_sysfs_is_partition V p = Inr part \<Longrightarrow> name \<in> set (relation_names part) \<Longrightarrow>
     r \<in> listed_devices C V (p @ ''/'' @ name) \<Longrightarrow> covers C V t r True"
| child: "covers C V t d True \<Longrightarrow> ld_resolve_sysfs_device V d PATH_MAX = Inr p \<Longrightarrow>
     ld_sysfs_is_partition V p = Inr False \<Longrightarrow> r \<in> listed_devices C V p \<Longrightarrow> covers C V t r True"

definition justified :: "common \<Rightarrow> host_view \<Rightarrow> dev \<Rightarrow> LdRelatedDevice list \<Rightarrow> bool" where
  "justified C V t ds \<longleftrightarrow> (\<forall>d \<in> set ds. (\<exists>x. covers C V t (rd_value d) x) \<and>
     (exact_mapping d \<longrightarrow> covers C V t (rd_value d) True))"

lemma add_related_justified:
  assumes "ld_add_related_device ds v x = Inr ds'" and "justified C V t ds" and "covers C V t v x"
  shows "justified C V t ds'"
proof (cases "mark_related v x ds")
  case None
  with assms show ?thesis
    by (auto simp: ld_add_related_device_def justified_def split: if_splits; blast)
next
  case (Some ds1)
  with assms(1) have eq: "ds' = ds1" by (simp add: ld_add_related_device_def)
  obtain i where i: "i < length ds" "rd_value (ds ! i) = v"
    "ds1 = ds[i := (if x then (ds ! i)\<lparr>exact_mapping := True\<rparr> else ds ! i)]"
    using mark_related_Some [OF Some] by blast
  have "ds ! i \<in> set ds" using i by simp
  with assms(2,3) i eq show ?thesis
    by (auto simp: justified_def dest!: subsetD [OF set_update_subset_insert] split: if_splits)
qed

lemma collect_entries_justified:
  "collect_entries C V path True require names ds = Inr ds' \<Longrightarrow> justified C V t ds \<Longrightarrow>
   \<forall>r \<in> dir_devices C V path names. covers C V t r True \<Longrightarrow> justified C V t ds'"
proof (induction names arbitrary: ds)
  case (Cons name names)
  then show ?case
    by (auto simp: Let_def split: if_splits sum.splits intro: add_related_justified)
qed simp

lemma collect_directory_justified:
  "ld_collect_sysfs_directory C V path ds True require = Inr ds' \<Longrightarrow> justified C V t ds \<Longrightarrow>
   \<forall>r \<in> listed_devices C V path. covers C V t r True \<Longrightarrow> justified C V t ds'"
  by (auto simp: ld_collect_sysfs_directory_def listed_devices_def
      split: sum.splits option.splits dest: collect_entries_justified)

lemma collect_relations_justified:
  "collect_relations C V p names ds = Inr ds' \<Longrightarrow> justified C V t ds \<Longrightarrow>
   \<forall>name \<in> set names. \<forall>r \<in> listed_devices C V (p @ ''/'' @ name). covers C V t r True \<Longrightarrow> justified C V t ds'"
proof (induction names arbitrary: ds)
  case (Cons name names)
  then show ?case
    by (auto simp: Let_def split: if_splits sum.splits dest: collect_directory_justified)
qed simp

lemma add_parent_justified:
  "ld_add_partition_parent_device C V p part ds = Inr ds' \<Longrightarrow> justified C V t ds \<Longrightarrow>
   \<forall>r \<in> parent_devices C V p part. covers C V t r False \<Longrightarrow> justified C V t ds'"
  by (auto simp: ld_add_partition_parent_device_def parent_devices_def
      split: if_splits sum.splits intro: add_related_justified)

lemma justified_flag:
  assumes "justified C V t ds" and "rd_value d = rd_value (ds ! i)" and "exact_mapping d = exact_mapping (ds ! i)"
    and "i < length ds"
  shows "justified C V t (ds[i := d])"
proof -
  have "ds ! i \<in> set ds" using assms(4) by simp
  with assms show ?thesis
    by (auto simp: justified_def dest!: subsetD [OF set_update_subset_insert])
qed

lemma scan_device_justified:
  assumes "scan_device C V i ds = Inr ds'" and "i < length ds" and "justified C V t ds"
  shows "justified C V t ds'"
proof -
  let ?d = "rd_value (ds ! i)"
  obtain p part ds1 where a: "ld_resolve_sysfs_device V ?d PATH_MAX = Inr p"
    "ld_sysfs_is_partition V p = Inr part" "scan_relations C V p part i ds = Inr ds1"
    "scan_children C V p part i ds1 = Inr ds'"
    using assms(1) by (auto simp: scan_device_def split: sum.splits)
  note v = scan_relations_visits [OF a(3) assms(2)]
  have i1: "i < length ds1" using visitsD(1) [OF v] assms(2) by simp
  have d1: "rd_value (ds1 ! i) = ?d" using visitsD(3) [OF v assms(2)] .
  obtain x where x: "covers C V t ?d x" using assms(2,3) by (fastforce simp: justified_def)
  have 1: "justified C V t ds1"
  proof (cases "relations_scanned (ds ! i)")
    case False
    let ?ds = "ds[i := (ds ! i)\<lparr>relations_scanned := True\<rparr>]"
    obtain ds0 where b: "ld_add_partition_parent_device C V p part ?ds = Inr ds0"
      "collect_relations C V p (relation_names part) ds0 = Inr ds1"
      using a(3) False by (auto simp: scan_relations_def Let_def relation_names_def split: sum.splits)
    have "justified C V t ?ds" using assms(3) by (rule justified_flag) (use assms(2) in simp_all)
    then have "justified C V t ds0"
      using add_parent_justified [OF b(1)] covers.parent [OF x a(1,2)] by blast
    then show ?thesis
      using collect_relations_justified [OF b(2)] covers.relation [OF x a(1,2)] by blast
  qed (use a(3) assms(3) in \<open>simp add: scan_relations_def\<close>)
  have 2: "exact_mapping (ds1 ! i) \<Longrightarrow> covers C V t ?d True"
    using 1 i1 d1 by (metis justified_def nth_mem)
  show ?thesis
  proof (cases "scans_children part (ds1 ! i)")
    case True
    then have "covers C V t r True" if "r \<in> listed_devices C V p" for r
      using covers.child [OF 2 a(1)] a(2) that by (simp add: scans_children_def)
    moreover have "justified C V t (ds1[i := (ds1 ! i)\<lparr>children_scanned := True\<rparr>])"
      using 1 by (rule justified_flag) (use i1 in simp_all)
    ultimately show ?thesis
      using a(4) True by (auto simp: scan_children_def scans_children_def elim!: collect_directory_justified)
  next
    case False
    then show ?thesis using a(4) 1 by (auto simp: scan_children_def scans_children_def)
  qed
qed

subsection \<open>Closure of the collected set\<close>

definition closed_under ::
  "common \<Rightarrow> host_view \<Rightarrow> dev set \<Rightarrow> dev \<Rightarrow> bool" where
  "closed_under C V R d \<longleftrightarrow> (\<exists>p part. ld_resolve_sysfs_device V d PATH_MAX = Inr p \<and>
     ld_sysfs_is_partition V p = Inr part \<and> relation_devices C V p part \<subseteq> R)"

definition children_in :: "common \<Rightarrow> host_view \<Rightarrow> dev set \<Rightarrow> dev \<Rightarrow> bool" where
  "children_in C V R d \<longleftrightarrow> (\<forall>p. ld_resolve_sysfs_device V d PATH_MAX = Inr p \<and>
     ld_sysfs_is_partition V p = Inr False \<longrightarrow> listed_devices C V p \<subseteq> R)"

text \<open>The worklist invariant before the iteration \<open>index\<close>.\<close>

definition worklist_inv :: "common \<Rightarrow> host_view \<Rightarrow> dev \<Rightarrow> nat \<Rightarrow> LdRelatedDevice list \<Rightarrow> bool" where
  "worklist_inv C V t index ds \<longleftrightarrow>
     ds \<noteq> [] \<and> rd_value (ds ! 0) = t \<and> exact_mapping (ds ! 0) \<and>
     length ds \<le> LD_MAX_RELATED_DEVICES \<and> distinct (map rd_value ds) \<and> justified C V t ds \<and>
     (\<forall>j. index \<le> j \<and> j < length ds \<longrightarrow> \<not> relations_scanned (ds ! j) \<and> \<not> children_scanned (ds ! j)) \<and>
     (\<forall>j < min index (length ds). closed_under C V (related_values ds) (rd_value (ds ! j))) \<and>
     (0 < index \<longrightarrow> children_in C V (related_values ds) t)"

lemma closed_under_mono: "closed_under C V R d \<Longrightarrow> R \<subseteq> R' \<Longrightarrow> closed_under C V R' d"
  by (fastforce simp: closed_under_def)

lemma children_in_mono: "children_in C V R d \<Longrightarrow> R \<subseteq> R' \<Longrightarrow> children_in C V R' d"
  by (fastforce simp: children_in_def)

lemma worklist_step:
  assumes "worklist_inv C V t i ds" and "i < length ds" and "scan_device C V i ds = Inr ds'"
  shows "worklist_inv C V t (Suc i) ds'"
proof -
  have inv: "ds \<noteq> []" "rd_value (ds ! 0) = t" "exact_mapping (ds ! 0)" "length ds \<le> LD_MAX_RELATED_DEVICES"
    "distinct (map rd_value ds)" "justified C V t ds"
    "\<And>j. i \<le> j \<Longrightarrow> j < length ds \<Longrightarrow> \<not> relations_scanned (ds ! j) \<and> \<not> children_scanned (ds ! j)"
    "\<And>j. j < i \<Longrightarrow> closed_under C V (related_values ds) (rd_value (ds ! j))"
    "0 < i \<Longrightarrow> children_in C V (related_values ds) t"
    using assms(1,2) by (auto simp: worklist_inv_def)
  obtain p part S where s: "ld_resolve_sysfs_device V (rd_value (ds ! i)) PATH_MAX = Inr p"
    "ld_sysfs_is_partition V p = Inr part" "visits i ds ds' (relation_devices C V p part \<union> S)"
    "exact_mapping (ds ! i) \<Longrightarrow> \<not> part \<Longrightarrow> S = listed_devices C V p"
    using scan_device_visits [OF assms(3,2)] inv(7) [of i] assms(2) by (metis order_refl)
  note v = visitsD [OF s(3)]
  have sub: "related_values ds \<subseteq> related_values ds'" using v(9) by blast
  have 0: "0 < length ds" using inv(1) by simp
  have closed: "closed_under C V (related_values ds') (rd_value (ds' ! j))" if "j < Suc i" for j
  proof (cases "j = i")
    case True
    then show ?thesis using s(1,2) v(3) [OF assms(2)] v(9) by (auto simp: closed_under_def)
  next
    case False
    with that have "j < i" by simp
    with inv(8) [OF this] v(3) [of j] assms(2) sub show ?thesis
      by (auto elim: closed_under_mono)
  qed
  have kids: "children_in C V (related_values ds') t"
  proof (cases "i = 0")
    case True
    with s inv(2,3) v(9) show ?thesis by (auto simp: children_in_def)
  qed (use inv(9) sub in \<open>auto elim: children_in_mono\<close>)
  have fresh: "\<not> relations_scanned (ds' ! j) \<and> \<not> children_scanned (ds' ! j)" if "Suc i \<le> j" "j < length ds'" for j
    using that inv(7) [of j] v(4,5,7,8) [of j] by (cases "j < length ds") auto
  show ?thesis
    using inv(1-6) v(1,2,3,6,10) 0 closed kids fresh scan_device_justified [OF assms(3,2)]
    by (auto simp: worklist_inv_def)
qed

lemma collect_from_inv:
  "worklist_inv C V t i ds \<Longrightarrow> collect_from C V i ds = Inr ds' \<Longrightarrow>
   \<exists>n. worklist_inv C V t n ds' \<and> length ds' \<le> n \<and> i \<le> n"
proof (induction C V i ds rule: collect_from.induct)
  case (1 C V i ds)
  show ?case
  proof (cases "i < length ds")
    case True
    with 1(3) obtain ds1 where s: "scan_device C V i ds = Inr ds1" "collect_from C V (Suc i) ds1 = Inr ds'"
      by (subst (asm) collect_from.simps) (auto split: sum.splits)
    with 1(1) [OF True s(1) worklist_step [OF 1(2) True s(1)] s(2)] show ?thesis by auto
  next
    case False
    then have "ds' = ds" using 1(3) by (subst (asm) collect_from.simps) simp
    with False 1(2) show ?thesis by (auto intro!: exI [of _ i])
  qed
qed

lemma collected:
  assumes "ld_collect_related_devices C V t = Inr ds"
  shows "t \<in> related_values ds" and "length ds \<le> LD_MAX_RELATED_DEVICES" and "distinct (map rd_value ds)"
    and "justified C V t ds" and "\<forall>d \<in> related_values ds. closed_under C V (related_values ds) d"
    and "children_in C V (related_values ds) t"
proof -
  let ?d = "\<lparr>rd_value = t, exact_mapping = True, relations_scanned = False, children_scanned = False\<rparr>"
  have run: "collect_from C V 0 [?d] = Inr ds"
    using assms by (simp add: ld_collect_related_devices_def ld_add_related_device_def LD_MAX_RELATED_DEVICES_def)
  have "worklist_inv C V t 0 [?d]"
    by (auto simp: worklist_inv_def LD_MAX_RELATED_DEVICES_def justified_def intro: covers.target)
  from collect_from_inv [OF this run] obtain n where n: "worklist_inv C V t n ds" "length ds \<le> n" by blast
  then show "t \<in> related_values ds" "length ds \<le> LD_MAX_RELATED_DEVICES" "distinct (map rd_value ds)"
    "justified C V t ds"
    by (auto simp: worklist_inv_def related_values_def image_iff intro!: bexI [of _ "ds ! 0"])
  from n show "\<forall>d \<in> related_values ds. closed_under C V (related_values ds) d"
    by (auto simp: worklist_inv_def related_values_def in_set_conv_nth)
  have "0 < n" using n by (cases ds) (auto simp: worklist_inv_def)
  with n show "children_in C V (related_values ds) t" by (auto simp: worklist_inv_def)
qed


subsection \<open>A concrete host\<close>

text \<open>A decimal token reader and string functions that satisfy what the sources expect of Common.\<close>

definition decimal_token :: "string \<Rightarrow> u64 \<Rightarrow> (u64 \<times> string) option" where
  "decimal_token s base =
     (let ds = takeWhile is_digit s
      in if ds = [] \<or> nat_of_digits ds \<ge> 2 ^ 64 then None else Some (word_of_nat (nat_of_digits ds), drop (length ds) s))"

definition demo_common :: common where
  "demo_common = \<lparr>program_name = ''defrag'', strerror = \<lambda>e. ''error'', parse_u64_token = decimal_token,
     string_starts_with = starts_with, trim_line_end = \<lambda>s. takeWhile (\<lambda>c. c \<noteq> CHR 0x0A) s,
     copy_string = bounded, path_basename = \<lambda>p. Some (last (split_char (CHR ''/'') p))\<rparr>"

definition demo_node :: file_stat where
  "demo_node = \<lparr>st_mode = 0x61B0, st_uid = 0, st_dev = (0, 6), st_ino = 9, st_rdev = (8, 1), st_size = 0\<rparr>"

text \<open>Disk \<open>8:0\<close> with partition \<open>8:1\<close>, which a mapping \<open>253:0\<close> holds.\<close>

definition demo_view :: host_view where
  "demo_view = \<lparr>
     stat_path = \<lambda>p. if p = ''/S/a/a1/partition'' \<or> p = ''/dev/a1'' then Inr demo_node else Inl ENOENT,
     realpath = Inr,
     realpath_copy = \<lambda>p n. if p = ''/sys/dev/block/8:0'' then Inr ''/S/a'' else
        if p = ''/sys/dev/block/8:1'' then Inr ''/S/a/a1'' else
        if p = ''/sys/dev/block/253:0'' then Inr ''/S/m'' else Inl ENOENT,
     read_text_file = \<lambda>p n. if p = ''/S/a/dev'' \<or> p = ''/S/m/slaves/x/dev'' then Inr ''8:0'' else
        if p = ''/S/a/a1/dev'' then Inr ''8:1'' else
        if p = ''/S/a/a1/holders/m/dev'' then Inr ''253:0'' else Inl ENOENT,
     read_u64_file = \<lambda>p. None,
     list_directory = \<lambda>p. if p = ''/S/a/a1/holders'' then Inr ([''.'', ''m''], None) else
        if p = ''/S/a'' then Inr ([''a1''], None) else Inr ([], None),
     file_text = \<lambda>p. Inl ENOENT\<rparr>"

lemma demo_links:
  "sysfs_link (8, 1) = ''/sys/dev/block/8:1''" "sysfs_link (8, 0) = ''/sys/dev/block/8:0''"
  "sysfs_link (253, 0) = ''/sys/dev/block/253:0''"
  by (simp_all add: sysfs_link_def major_def minor_def show_nat_eval)

lemma demo_numbers:
  "ld_parse_device_number demo_common ''253:0'' = Some (253, 0)"
  "ld_parse_device_number demo_common ''8:0'' = Some (8, 0)"
  "ld_parse_device_number demo_common ''8:1'' = Some (8, 1)"
  by (simp_all add: ld_parse_device_number_def demo_common_def decimal_token_def is_digit_def nat_of_digits_def
      UINT_MAX_def of_char_def)

lemmas topology_eval =
  ld_collect_related_devices_def ld_add_related_device_def LD_MAX_RELATED_DEVICES_def collect_from.simps
  scan_device_def ld_resolve_sysfs_device_def fits_def PATH_MAX_def demo_links ld_sysfs_is_partition_def
  scan_relations_def scan_children_def ld_collect_sysfs_directory_def ld_add_partition_parent_device_def
  parent_dev_path_def ld_read_sysfs_device_def demo_numbers strrchr_def

lemma demo_collect:
  "ld_collect_related_devices demo_common demo_view (8, 1) = Inr
     [\<lparr>rd_value = (8, 1), exact_mapping = True, relations_scanned = True, children_scanned = False\<rparr>,
      \<lparr>rd_value = (8, 0), exact_mapping = False, relations_scanned = True, children_scanned = False\<rparr>,
      \<lparr>rd_value = (253, 0), exact_mapping = True, relations_scanned = True, children_scanned = True\<rparr>]"
  by (simp add: topology_eval demo_view_def)


end
