(* ===== verification/Mounts.thy ===== *)
theory Mounts
  imports Topology
begin

text \<open>
  The in-use checks of \<open>src/core/ld_device.c\<close>: whether a block device, anything that overlaps
  it, or a regular image file is mounted, serves as swap or backs a loop device. A check
  that cannot decide ends the process through \<open>ld_die_errno\<close>.
\<close>

subsection \<open>Mount table fields\<close>

definition ld_mount_target_is_user_media :: "common \<Rightarrow> string \<Rightarrow> bool" where
  "ld_mount_target_is_user_media C target \<longleftrightarrow>
     target = ''/mnt'' \<or> string_starts_with C target ''/mnt/'' \<or>
     string_starts_with C target ''/media/'' \<or> string_starts_with C target ''/run/media/''"

definition octal_digit :: "char \<Rightarrow> bool" where
  "octal_digit c \<longleftrightarrow> 48 \<le> (of_char c :: nat) \<and> (of_char c :: nat) \<le> 55"

definition octal_value :: "char \<Rightarrow> nat" where
  "octal_value c = of_char c - 48"

fun decode_octal :: "string \<Rightarrow> string" where
  "decode_octal (x # a # b # c # s) =
     (if x = CHR 0x5C \<and> octal_digit a \<and> octal_digit b \<and> octal_digit c
      then char_of (octal_value a * 64 + octal_value b * 8 + octal_value c) # decode_octal s
      else x # decode_octal (a # b # c # s))"
| "decode_octal (c # s) = c # decode_octal s"
| "decode_octal [] = []"

text \<open>Decoding happens in place; a decoded zero byte ends the C string.\<close>

definition ld_decode_mount_field :: "string \<Rightarrow> string" where
  "ld_decode_mount_field s = c_string (decode_octal s)"

definition mountinfo_path :: path where "mountinfo_path = ''/proc/self/mountinfo''"

definition swaps_path :: path where "swaps_path = ''/proc/swaps''"

text \<open>The third space-separated field of a mountinfo line, read as a device number.\<close>

definition mountinfo_device :: "common \<Rightarrow> string \<Rightarrow> dev option" where
  "mountinfo_device C line =
     (let fields = strtok (CHR '' '') line
      in if length fields < 3 then None else ld_parse_device_number C (fields ! 2))"

subsection \<open>Active swap\<close>

definition swap_device :: "file_stat \<Rightarrow> dev" where
  "swap_device st = (if S_ISBLK (st_mode st) then st_rdev st else st_dev st)"

fun swap_scan :: "host_view \<Rightarrow> (string \<Rightarrow> string) \<Rightarrow> (file_stat \<Rightarrow> bool) \<Rightarrow> string list \<Rightarrow> bool result" where
  "swap_scan V decode hit [] = Inr False"
| "swap_scan V decode hit (line # lines) =
     (case scan_s 4095 line of
        None \<Rightarrow> swap_scan V decode hit lines
      | Some (source, _) \<Rightarrow>
          (case stat_path V (decode source) of
             Inl e \<Rightarrow> Inl e
           | Inr st \<Rightarrow> if hit st then Inr True else swap_scan V decode hit lines))"

text \<open>\<open>fgets\<close> into \<open>char swap_line[PATH_MAX + 256]\<close> stores at most 4351 characters.\<close>

definition swap_lines :: "string \<Rightarrow> string list" where
  "swap_lines text = fgets_list 4350 text"

text \<open>The \<open>/proc/swaps\<close> scan of the two callers that end the process on a failure.\<close>

definition active_swap :: "common \<Rightarrow> host_view \<Rightarrow> (file_stat \<Rightarrow> bool) \<Rightarrow> bool proc" where
  "active_swap C V hit =
     (case file_text V swaps_path of
        Inl e \<Rightarrow> die_errno C ''open /proc/swaps'' e
      | Inr (text, read_error) \<Rightarrow>
          (case swap_lines text of
             [] \<Rightarrow> die_errno C ''read /proc/swaps''
                    (case read_error of Some e \<Rightarrow> errno_or e EIO | None \<Rightarrow> EIO)
           | header # lines \<Rightarrow>
               (case swap_scan V ld_decode_mount_field hit lines of
                  Inl e \<Rightarrow> die_errno C ''stat active swap'' e
                | Inr True \<Rightarrow> Return True
                | Inr False \<Rightarrow>
                    (case read_error of
                       Some e \<Rightarrow> die_errno C ''read /proc/swaps'' (errno_or e EIO)
                     | None \<Rightarrow> Return False))))"

subsection \<open>Block devices\<close>

definition ld_device_number_is_mounted :: "common \<Rightarrow> host_view \<Rightarrow> dev \<Rightarrow> bool proc" where
  "ld_device_number_is_mounted C V device_number =
     (case ld_collect_related_devices C V device_number of
        Inl e \<Rightarrow> die_errno C ''validate block-device topology'' e
      | Inr related \<Rightarrow>
          (case file_text V mountinfo_path of
             Inl e \<Rightarrow> die_errno C ''open /proc/self/mountinfo'' e
           | Inr (text, _) \<Rightarrow>
               if list_ex (\<lambda>line. case mountinfo_device C line of
                             Some found \<Rightarrow> ld_related_contains related found | None \<Rightarrow> False)
                    (getline_list text)
               then Return True
               else active_swap C V (\<lambda>st. ld_related_contains related (swap_device st))))"

definition mountinfo_entry :: "string \<Rightarrow> (string \<times> string) option" where
  "mountinfo_entry line =
     (case scan_s (length line) line of
        Some (_, s1) \<Rightarrow>
          (case scan_s (length s1) s1 of
             Some (_, s2) \<Rightarrow>
               (case scan_s 63 s2 of
                  Some (device_text, s3) \<Rightarrow>
                    (case scan_s (length s3) s3 of
                       Some (_, s4) \<Rightarrow>
                         (case scan_s 4095 s4 of
                            Some (mountpoint, _) \<Rightarrow> Some (device_text, mountpoint)
                          | None \<Rightarrow> None)
                     | None \<Rightarrow> None)
                | None \<Rightarrow> None)
           | None \<Rightarrow> None)
      | None \<Rightarrow> None)"

definition system_mount :: "common \<Rightarrow> LdRelatedDevice list \<Rightarrow> string \<Rightarrow> bool" where
  "system_mount C related line =
     (case mountinfo_entry line of
        Some (device_text, mountpoint) \<Rightarrow>
          (case ld_parse_device_number C device_text of
             Some mounted_device \<Rightarrow>
               ld_related_contains related mounted_device \<and> \<not> ld_mount_target_is_user_media C mountpoint
           | None \<Rightarrow> False)
      | None \<Rightarrow> False)"

text \<open>
  \<open>ld_block_device_has_system_use\<close> sets \<open>*in_use\<close> before it inspects anything; the result
  pairs the return value with the final \<open>*in_use\<close>. The flag says whether the pointer is
  non-null.
\<close>

definition ld_block_device_has_system_use ::
  "common \<Rightarrow> host_view \<Rightarrow> path option \<Rightarrow> bool option \<Rightarrow> unit result \<times> bool option" where
  "ld_block_device_has_system_use C V path in_use =
     (case (path, in_use) of
        (Some path, Some _) \<Rightarrow>
          (case stat_path V path of
             Inl e \<Rightarrow> (Inl e, Some True)
           | Inr target \<Rightarrow>
               if \<not> S_ISBLK (st_mode target) then (Inl ENOTBLK, Some True)
               else case ld_collect_related_devices C V (st_rdev target) of
                 Inl e \<Rightarrow> (Inl (errno_or e EIO), Some True)
               | Inr related \<Rightarrow>
                   (case file_text V mountinfo_path of
                      Inl e \<Rightarrow> (Inl e, Some True)
                    | Inr (mounts, mount_error) \<Rightarrow>
                        if list_ex (system_mount C related) (getline_list mounts) then (Inr (), Some True)
                        else case mount_error of
                          Some e \<Rightarrow> (Inl (errno_or e EIO), Some True)
                        | None \<Rightarrow>
                            (case file_text V swaps_path of
                               Inl e \<Rightarrow> (Inl e, Some True)
                             | Inr (swaps, swap_error) \<Rightarrow>
                                 (case swap_lines swaps of
                                    [] \<Rightarrow> (Inl EIO, Some True)
                                  | header # lines \<Rightarrow>
                                      (case swap_scan V (\<lambda>s. s)
                                              (\<lambda>st. ld_related_contains related (swap_device st)) lines of
                                         Inl e \<Rightarrow> (Inl e, Some True)
                                       | Inr True \<Rightarrow> (Inr (), Some True)
                                       | Inr False \<Rightarrow>
                                           (case swap_error of
                                              Some e \<Rightarrow> (Inl (errno_or e EIO), Some True)
                                            | None \<Rightarrow> (Inr (), Some False)))))))
      | _ \<Rightarrow> (Inl EINVAL, in_use))"

subsection \<open>Regular image files\<close>

definition ld_same_regular_object :: "file_stat \<Rightarrow> file_stat \<Rightarrow> bool" where
  "ld_same_regular_object left right \<longleftrightarrow>
     S_ISREG (st_mode left) \<and> S_ISREG (st_mode right) \<and>
     st_dev left = st_dev right \<and> st_ino left = st_ino right"

definition mount_source :: "string \<Rightarrow> string option" where
  "mount_source line =
     (case after_sub '' - '' line of
        None \<Rightarrow> None
      | Some cursor \<Rightarrow>
          (case cut_at (CHR '' '') cursor of
             None \<Rightarrow> None
           | Some (_, cursor) \<Rightarrow>
               (case cut_at (CHR '' '') cursor of
                  None \<Rightarrow> None
                | Some (source, _) \<Rightarrow> Some (ld_decode_mount_field source))))"

definition stat_same :: "host_view \<Rightarrow> path \<Rightarrow> file_stat \<Rightarrow> bool" where
  "stat_same V path target =
     (case stat_path V path of Inl _ \<Rightarrow> False | Inr st \<Rightarrow> ld_same_regular_object st target)"

definition ld_mount_source_matches_regular_identity :: "common \<Rightarrow> host_view \<Rightarrow> file_stat \<Rightarrow> bool proc" where
  "ld_mount_source_matches_regular_identity C V target =
     (case file_text V mountinfo_path of
        Inl e \<Rightarrow> die_errno C ''open /proc/self/mountinfo'' e
      | Inr (text, _) \<Rightarrow>
          Return (list_ex (\<lambda>line. case mount_source line of
                             None \<Rightarrow> False | Some source \<Rightarrow> stat_same V source target)
                    (getline_list text)))"

definition ld_loop_backing_file_matches_identity :: "host_view \<Rightarrow> path \<Rightarrow> file_stat \<Rightarrow> bool" where
  "ld_loop_backing_file_matches_identity V sysfs_path target =
     (let backing_path = sysfs_path @ ''/loop/backing_file''
      in if \<not> fits PATH_MAX backing_path then False
         else case read_text_file V backing_path PATH_MAX of
                Inl _ \<Rightarrow> False
              | Inr raw \<Rightarrow>
                  let raw = rev (dropWhile (\<lambda>c. c = CHR 0x0A \<or> c = CHR 0x0D) (rev raw))
                  in if raw = [] then False
                     else let candidate = (if hd raw = CHR ''/'' then raw else CHR ''/'' # raw)
                       in if \<not> fits PATH_MAX candidate then False else stat_same V candidate target)"

fun loop_scan :: "common \<Rightarrow> host_view \<Rightarrow> file_stat \<Rightarrow> bool \<Rightarrow> string list \<Rightarrow> bool proc" where
  "loop_scan C V target require_mounted [] = Return False"
| "loop_scan C V target require_mounted (name # names) =
     (if starts_with name ''.'' then loop_scan C V target require_mounted names
      else case ld_parse_device_number C name of
        None \<Rightarrow> loop_scan C V target require_mounted names
      | Some device \<Rightarrow>
          (case ld_resolve_sysfs_device V device PATH_MAX of
             Inl _ \<Rightarrow> loop_scan C V target require_mounted names
           | Inr sysfs_path \<Rightarrow>
               if \<not> ld_loop_backing_file_matches_identity V sysfs_path target
               then loop_scan C V target require_mounted names
               else if \<not> require_mounted then Return True
               else case ld_device_number_is_mounted C V device of
                 Exit_failure t \<Rightarrow> Exit_failure t
               | Return True \<Rightarrow> Return True
               | Return False \<Rightarrow> loop_scan C V target require_mounted names))"

definition ld_regular_file_has_loop_mapping :: "common \<Rightarrow> host_view \<Rightarrow> file_stat \<Rightarrow> bool \<Rightarrow> bool proc" where
  "ld_regular_file_has_loop_mapping C V target require_mounted =
     (case list_directory V ''/sys/dev/block'' of
        Inl _ \<Rightarrow> Return False
      | Inr (names, _) \<Rightarrow> loop_scan C V target require_mounted names)"

definition ld_regular_file_is_active_swap :: "common \<Rightarrow> host_view \<Rightarrow> file_stat \<Rightarrow> bool proc" where
  "ld_regular_file_is_active_swap C V target = active_swap C V (\<lambda>st. ld_same_regular_object st target)"

text \<open>The C operator \<open>||\<close> over calls that may end the process.\<close>

definition proc_or :: "bool proc \<Rightarrow> bool proc \<Rightarrow> bool proc" where
  "proc_or a b = (case a of Exit_failure t \<Rightarrow> Exit_failure t | Return True \<Rightarrow> Return True | Return False \<Rightarrow> b)"

definition ld_regular_file_is_mounted_identity :: "common \<Rightarrow> host_view \<Rightarrow> file_stat \<Rightarrow> bool proc" where
  "ld_regular_file_is_mounted_identity C V target =
     proc_or (ld_mount_source_matches_regular_identity C V target)
       (proc_or (ld_regular_file_has_loop_mapping C V target True)
          (ld_regular_file_is_active_swap C V target))"

definition ld_regular_file_write_conflict_identity :: "common \<Rightarrow> host_view \<Rightarrow> file_stat \<Rightarrow> bool proc" where
  "ld_regular_file_write_conflict_identity C V target =
     proc_or (ld_mount_source_matches_regular_identity C V target)
       (proc_or (ld_regular_file_has_loop_mapping C V target False)
          (ld_regular_file_is_active_swap C V target))"

definition ld_path_is_mounted :: "common \<Rightarrow> host_view \<Rightarrow> path option \<Rightarrow> bool proc" where
  "ld_path_is_mounted C V path =
     (case path of
        None \<Rightarrow> die_errno C ''stat device'' EINVAL
      | Some path \<Rightarrow>
          (case realpath V path of
             Inl e \<Rightarrow> die_errno C ''realpath target'' e
           | Inr resolved \<Rightarrow>
               (case stat_path V resolved of
                  Inl e \<Rightarrow> die_errno C ''stat device'' e
                | Inr status \<Rightarrow>
                    if S_ISBLK (st_mode status) then ld_device_number_is_mounted C V (st_rdev status)
                    else if S_ISREG (st_mode status) then ld_regular_file_is_mounted_identity C V status
                    else Return False)))"

subsection \<open>Mount table escapes\<close>

text \<open>
  The kernel writes a blank, tab, line feed or backslash of a path as a backslash and three
  octal digits.
\<close>

definition octal_char :: "nat \<Rightarrow> char" where
  "octal_char n = char_of (48 + n)"

fun kernel_mangle :: "string \<Rightarrow> string" where
  "kernel_mangle [] = []"
| "kernel_mangle (c # s) =
     (if c \<in> {CHR '' '', CHR 0x09, CHR 0x0A, CHR 0x5C}
      then [CHR 0x5C, octal_char (of_char c div 64), octal_char (of_char c div 8 mod 8), octal_char (of_char c mod 8)]
           @ kernel_mangle s
      else c # kernel_mangle s)"

lemma of_octal_char: "n < 8 \<Longrightarrow> (of_char (octal_char n) :: nat) = 48 + n"
  by (simp add: octal_char_def)

lemma octal_char_simps [simp]:
  "n < 8 \<Longrightarrow> octal_digit (octal_char n)" "n < 8 \<Longrightarrow> octal_value (octal_char n) = n"
  by (simp_all add: octal_digit_def octal_value_def of_octal_char)

lemma decode_octal_plain: "x \<noteq> CHR 0x5C \<Longrightarrow> decode_octal (x # s) = x # decode_octal s"
  by (cases "x # s" rule: decode_octal.cases) auto

lemma decode_octal_escape:
  "octal_digit a \<Longrightarrow> octal_digit b \<Longrightarrow> octal_digit c \<Longrightarrow>
   decode_octal (CHR 0x5C # a # b # c # s) = char_of (octal_value a * 64 + octal_value b * 8 + octal_value c) # decode_octal s"
  by simp

lemma octal_digits_of_char:
  "(of_char c :: nat) div 64 * 64 + of_char c div 8 mod 8 * 8 + of_char c mod 8 = of_char c"
proof -
  have "(n :: nat) div 64 * 64 + n div 8 mod 8 * 8 + n mod 8 = n" for n
  proof -
    have "n div 64 = n div 8 div 8" by (simp add: div_mult2_eq [symmetric])
    then have "n div 64 * 64 + n div 8 mod 8 * 8 = (n div 8 div 8 * 8 + n div 8 mod 8) * 8"
      by (simp only: add_mult_distrib mult.assoc)
    then show ?thesis by (simp only: div_mult_mod_eq)
  qed
  then show ?thesis .
qed

lemma octal_high: "(of_char c :: nat) div 64 < 8"
proof -
  have "(of_char c :: nat) < 256" by (cases c) (simp add: of_char_def)
  then have "(of_char c :: nat) < 8 * 64" by linarith
  then show ?thesis by (rule less_mult_imp_div_less)
qed

lemma decode_mangle: "decode_octal (kernel_mangle s) = s"
proof (induction s)
  case (Cons c s)
  show ?case
  proof (cases "c \<in> {CHR '' '', CHR 0x09, CHR 0x0A, CHR 0x5C}")
    case True
    have "decode_octal (kernel_mangle (c # s)) =
        char_of (octal_value (octal_char (of_char c div 64)) * 64 + octal_value (octal_char (of_char c div 8 mod 8)) * 8
          + octal_value (octal_char (of_char c mod 8))) # decode_octal (kernel_mangle s)"
      unfolding kernel_mangle.simps if_P [OF True] append_Cons append_Nil
      by (rule decode_octal_escape) (simp_all add: octal_high)
    also have "octal_value (octal_char (of_char c div 64)) * 64 + octal_value (octal_char (of_char c div 8 mod 8)) * 8
          + octal_value (octal_char (of_char c mod 8)) = of_char c"
      using octal_digits_of_char [of c] by (simp add: octal_high)
    finally show ?thesis using Cons by simp
  next
    case False
    with Cons show ?thesis by (auto simp: decode_octal_plain)
  qed
qed simp

text \<open>
  The mount table decoder inverts the kernel's escaping of paths: every path without a
  zero byte is recovered exactly, blanks, tabs, line feeds and backslashes included.
\<close>
theorem decode_mount_field_roundtrip:
  assumes "CHR 0x00 \<notin> set s"
  shows "ld_decode_mount_field (kernel_mangle s) = s"
  using assms by (simp add: ld_decode_mount_field_def decode_mangle c_string_def takeWhile_eq_all_conv)
     (metis (full_types))

theorem decode_mount_field_roundtrip_witness:
  "kernel_mangle ''/a b'' = ''/a'' @ [CHR 0x5C] @ ''040b'' \<and>
   ld_decode_mount_field (''/a'' @ [CHR 0x5C] @ ''040b'') = ''/a b''"
  using decode_mount_field_roundtrip [of "''/a b''"] by (simp add: octal_char_def of_char_def char_of_def bit_nat_def)

subsection \<open>What the verdicts mean\<close>

definition mounted_device :: "common \<Rightarrow> host_view \<Rightarrow> dev \<Rightarrow> bool" where
  "mounted_device C V d \<longleftrightarrow> (\<exists>text e. file_text V mountinfo_path = Inr (text, e) \<and>
     (\<exists>line \<in> set (getline_list text). mountinfo_device C line = Some d))"

definition swap_source :: "host_view \<Rightarrow> string \<Rightarrow> bool" where
  "swap_source V source \<longleftrightarrow> (\<exists>text e rest. file_text V swaps_path = Inr (text, e) \<and>
     (\<exists>line \<in> set (tl (swap_lines text)). scan_s 4095 line = Some (source, rest)))"

definition swap_on :: "host_view \<Rightarrow> (string \<Rightarrow> string) \<Rightarrow> (file_stat \<Rightarrow> bool) \<Rightarrow> bool" where
  "swap_on V decode hit \<longleftrightarrow> (\<exists>source st. swap_source V source \<and> stat_path V (decode source) = Inr st \<and> hit st)"

lemma swap_scan_Inr:
  assumes "swap_scan V decode hit lines = Inr b"
  shows "b \<longleftrightarrow> (\<exists>line \<in> set lines. \<exists>source rest st. scan_s 4095 line = Some (source, rest) \<and>
           stat_path V (decode source) = Inr st \<and> hit st)"
  using assms by (induction lines) (auto split: option.splits sum.splits if_splits prod.splits)

lemma active_swap_Return:
  assumes "active_swap C V hit = Return b"
  shows "b \<longleftrightarrow> swap_on V ld_decode_mount_field hit"
proof -
  obtain content e header lines where f: "file_text V swaps_path = Inr (content, e)"
    "swap_lines content = header # lines" "swap_scan V ld_decode_mount_field hit lines = Inr b"
    using assms by (auto simp: active_swap_def die_errno_def ld_die_errno_def
        split: sum.splits prod.splits list.splits bool.splits option.splits)
  then show ?thesis
    using swap_scan_Inr [OF f(3)] by (fastforce simp: swap_on_def swap_source_def)
qed

lemma mounted_Return:
  assumes "ld_device_number_is_mounted C V d = Return b"
  shows "\<exists>ds. ld_collect_related_devices C V d = Inr ds \<and> d \<in> related_values ds \<and>
     (\<forall>r \<in> related_values ds. closed_under C V (related_values ds) r) \<and>
     (b \<longleftrightarrow> (\<exists>r \<in> related_values ds. mounted_device C V r \<or>
                swap_on V ld_decode_mount_field (\<lambda>st. swap_device st = r)))"
proof -
  obtain ds content e where t: "ld_collect_related_devices C V d = Inr ds"
    "file_text V mountinfo_path = Inr (content, e)"
    using assms by (auto simp: ld_device_number_is_mounted_def die_errno_def ld_die_errno_def split: sum.splits)
  let ?hit = "\<lambda>line. case mountinfo_device C line of Some found \<Rightarrow> ld_related_contains ds found | None \<Rightarrow> False"
  have m: "list_ex ?hit (getline_list content) \<longleftrightarrow> (\<exists>r \<in> related_values ds. mounted_device C V r)"
    using t(2) by (auto simp: list_ex_iff mounted_device_def split: option.splits) fastforce+
  have s: "swap_on V ld_decode_mount_field (\<lambda>st. ld_related_contains ds (swap_device st)) \<longleftrightarrow>
      (\<exists>r \<in> related_values ds. swap_on V ld_decode_mount_field (\<lambda>st. swap_device st = r))"
    by (auto simp: swap_on_def)
  have "b \<longleftrightarrow> (\<exists>r \<in> related_values ds. mounted_device C V r) \<or>
      swap_on V ld_decode_mount_field (\<lambda>st. ld_related_contains ds (swap_device st))"
    using assms t m by (auto simp: ld_device_number_is_mounted_def split: if_splits dest: active_swap_Return)
  then show ?thesis using t(1) s collected [OF t(1)] by blast
qed


text \<open>The partition of the demonstration host is mounted, and later only swaps are active.\<close>

definition demo_host :: "string \<Rightarrow> string \<Rightarrow> host_view" where
  "demo_host mounts swaps = demo_view\<lparr>file_text := \<lambda>p. if p = mountinfo_path then Inr (mounts, None)
     else if p = swaps_path then Inr (swaps, None) else Inl ENOENT\<rparr>"

lemma demo_host_collect:
  "ld_collect_related_devices demo_common (demo_host mounts swaps) (8, 1) = Inr
     [\<lparr>rd_value = (8, 1), exact_mapping = True, relations_scanned = True, children_scanned = False\<rparr>,
      \<lparr>rd_value = (8, 0), exact_mapping = False, relations_scanned = True, children_scanned = False\<rparr>,
      \<lparr>rd_value = (253, 0), exact_mapping = True, relations_scanned = True, children_scanned = True\<rparr>]"
  by (simp add: topology_eval demo_host_def demo_view_def)

lemma demo_mounted:
  "ld_device_number_is_mounted demo_common (demo_host ''3 1 253:0 / /home rw'' '''') (8, 1) = Return True"
  by (simp add: ld_device_number_is_mounted_def demo_host_collect mountinfo_device_def strtok_def
      demo_numbers ld_related_contains_def) (simp add: demo_host_def mountinfo_device_def strtok_def demo_numbers related_values_def)


text \<open>
  The system-use test of a destructive target is fail-closed: the caller's flag is left
  clear only on success, and then no device overlapping the target is mounted outside the
  removable-media roots and none is named as swap by a path the kernel wrote without
  escapes. On every error the flag is set.
\<close>
theorem system_use_fail_closed:
  assumes "ld_block_device_has_system_use C V (Some path) (Some flag) = (r, in_use)"
  shows "(in_use = Some True \<or> in_use = Some False) \<and>
    (in_use = Some False \<longrightarrow> r = Inr () \<and>
      (\<exists>st ds mounts. stat_path V path = Inr st \<and> S_ISBLK (st_mode st) \<and>
         ld_collect_related_devices C V (st_rdev st) = Inr ds \<and>
         file_text V mountinfo_path = Inr (mounts, None) \<and>
         (\<forall>line \<in> set (getline_list mounts). \<not> system_mount C ds line) \<and>
         \<not> swap_on V (\<lambda>s. s) (\<lambda>st. swap_device st \<in> related_values ds)))"
proof (cases "in_use = Some False")
  case True
  then obtain st ds mounts swaps header lines where f: "stat_path V path = Inr st" "S_ISBLK (st_mode st)"
    "ld_collect_related_devices C V (st_rdev st) = Inr ds"
    "file_text V mountinfo_path = Inr (mounts, None)" "\<not> list_ex (system_mount C ds) (getline_list mounts)"
    "file_text V swaps_path = Inr (swaps, None)" "swap_lines swaps = header # lines"
    "swap_scan V (\<lambda>s. s) (\<lambda>st. ld_related_contains ds (swap_device st)) lines = Inr False" "r = Inr ()"
    using assms by (auto simp: ld_block_device_has_system_use_def
        split: sum.splits prod.splits list.splits bool.splits option.splits if_splits)
  have "\<not> swap_on V (\<lambda>s. s) (\<lambda>st. swap_device st \<in> related_values ds)"
    using swap_scan_Inr [OF f(8)] f(6,7) by (fastforce simp: swap_on_def swap_source_def)
  with f True show ?thesis by (auto simp: list_ex_iff)
next
  case False
  with assms show ?thesis
    by (auto simp: ld_block_device_has_system_use_def
        split: sum.splits prod.splits list.splits bool.splits option.splits if_splits)
qed

lemma demo_system_use:
  "ld_block_device_has_system_use demo_common
     (demo_host ''3 1 253:0 / /mnt/u rw'' ''F'') (Some ''/dev/a1'') (Some b) = (Inr (), Some False)"
proof -
  let ?V = "demo_host ''3 1 253:0 / /mnt/u rw'' ''F''"
  have "stat_path ?V ''/dev/a1'' = Inr demo_node" by (simp add: demo_host_def demo_view_def)
  moreover have "file_text ?V mountinfo_path = Inr (''3 1 253:0 / /mnt/u rw'', None)"
    "file_text ?V swaps_path = Inr (''F'', None)"
    by (simp_all add: demo_host_def mountinfo_path_def swaps_path_def)
  moreover have "mountinfo_entry ''3 1 253:0 / /mnt/u rw'' = Some (''253:0'', ''/mnt/u'')"
    by (simp add: mountinfo_entry_def scan_s_def is_space_def)
  moreover have "ld_mount_target_is_user_media demo_common ''/mnt/u''"
    by (simp add: ld_mount_target_is_user_media_def demo_common_def starts_with_def)
  moreover have "st_rdev demo_node = (8, 1)" "S_ISBLK (st_mode demo_node)"
    by (simp_all add: demo_node_def S_ISBLK_def S_IFMT_def)
  ultimately show ?thesis
    by (simp add: ld_block_device_has_system_use_def demo_host_collect system_mount_def demo_numbers swap_lines_def)
qed

theorem system_use_fail_closed_witness:
  "\<exists>ds. ld_collect_related_devices demo_common (demo_host ''3 1 253:0 / /mnt/u rw'' ''F'') (8, 1)
          = Inr ds \<and>
        \<not> swap_on (demo_host ''3 1 253:0 / /mnt/u rw'' ''F'') (\<lambda>s. s) (\<lambda>st. swap_device st \<in> related_values ds)"
  using system_use_fail_closed [OF demo_system_use [of True]]
  by (auto simp: demo_host_def demo_view_def demo_node_def)

subsection \<open>Image files\<close>

definition loop_backed :: "common \<Rightarrow> host_view \<Rightarrow> file_stat \<Rightarrow> bool" where
  "loop_backed C V st \<longleftrightarrow> (\<exists>names e name d p. list_directory V ''/sys/dev/block'' = Inr (names, e) \<and>
     name \<in> set names \<and> \<not> starts_with name ''.'' \<and> ld_parse_device_number C name = Some d \<and>
     ld_resolve_sysfs_device V d PATH_MAX = Inr p \<and> ld_loop_backing_file_matches_identity V p st)"

definition mount_sourced :: "host_view \<Rightarrow> file_stat \<Rightarrow> bool" where
  "mount_sourced V st \<longleftrightarrow> (\<exists>content e line source. file_text V mountinfo_path = Inr (content, e) \<and>
     line \<in> set (getline_list content) \<and> mount_source line = Some source \<and> stat_same V source st)"

lemma loop_scan_any:
  "loop_scan C V st False names = Return
     (\<exists>name \<in> set names. \<not> starts_with name ''.'' \<and> (\<exists>d p. ld_parse_device_number C name = Some d \<and>
        ld_resolve_sysfs_device V d PATH_MAX = Inr p \<and> ld_loop_backing_file_matches_identity V p st))"
  by (induction names) (auto split: option.splits sum.splits)

lemma has_loop_mapping_any: "ld_regular_file_has_loop_mapping C V st False = Return (loop_backed C V st)"
  by (auto simp: ld_regular_file_has_loop_mapping_def loop_backed_def loop_scan_any split: sum.splits)

lemma mount_source_verdict:
  "ld_mount_source_matches_regular_identity C V st = Return b \<Longrightarrow> b \<longleftrightarrow> mount_sourced V st"
  by (auto simp: ld_mount_source_matches_regular_identity_def mount_sourced_def list_ex_iff die_errno_def ld_die_errno_def
      split: sum.splits option.splits)

lemma proc_or_Return:
  "proc_or a b = Return x \<longleftrightarrow> (x \<and> a = Return True) \<or> (a = Return False \<and> b = Return x)"
  by (auto simp: proc_or_def split: proc.splits bool.splits)

lemma write_conflict_Return:
  assumes "ld_regular_file_write_conflict_identity C V st = Return b"
  shows "b \<longleftrightarrow> mount_sourced V st \<or> loop_backed C V st \<or>
           swap_on V ld_decode_mount_field (\<lambda>s. ld_same_regular_object s st)"
  using assms mount_source_verdict [of C V st]
  by (auto simp: ld_regular_file_write_conflict_identity_def proc_or_Return has_loop_mapping_any
      ld_regular_file_is_active_swap_def dest: active_swap_Return)

text \<open>
  Property C10. The write-conflict test of an image file answers true exactly when some mount table
  source, some loop device's backing file that can be inspected, or some active swap file
  is the same object (device and inode) as the image; it is never weaker than the mounted
  test that read-only callers use.
\<close>
theorem image_write_conflict_exact:
  assumes "ld_regular_file_write_conflict_identity C V st = Return b"
  shows "(b \<longleftrightarrow> mount_sourced V st \<or> loop_backed C V st \<or>
            swap_on V ld_decode_mount_field (\<lambda>s. ld_same_regular_object s st)) \<and>
         (\<not> b \<longrightarrow> ld_regular_file_is_mounted_identity C V st = Return False)"
proof (intro conjI impI)
  show "b \<longleftrightarrow> mount_sourced V st \<or> loop_backed C V st \<or>
            swap_on V ld_decode_mount_field (\<lambda>s. ld_same_regular_object s st)"
    using assms by (rule write_conflict_Return)
  assume "\<not> b"
  have "loop_scan C V st False names = Return False \<Longrightarrow> loop_scan C V st True names = Return False" for names
    by (induction names) (auto split: option.splits sum.splits if_splits)
  then have "ld_regular_file_has_loop_mapping C V st False = Return False \<Longrightarrow>
      ld_regular_file_has_loop_mapping C V st True = Return False"
    by (auto simp: ld_regular_file_has_loop_mapping_def split: sum.splits)
  with assms \<open>\<not> b\<close> show "ld_regular_file_is_mounted_identity C V st = Return False"
    by (auto simp: ld_regular_file_write_conflict_identity_def ld_regular_file_is_mounted_identity_def proc_or_Return)
qed

definition demo_image :: file_stat where
  "demo_image = \<lparr>st_mode = 0x81A4, st_uid = 0, st_dev = (8, 2), st_ino = 77, st_rdev = (0, 0), st_size = 1000\<rparr>"

definition image_host :: host_view where
  "image_host = (demo_host '''' ''F'')
     \<lparr>list_directory := \<lambda>p. if p = ''/sys/dev/block'' then Inr ([''.'', ''253:0''], None) else Inr ([], None),
      read_text_file := \<lambda>p n. if p = ''/S/m/loop/backing_file'' then Inr (''/img'' @ [CHR 0x0A]) else Inl ENOENT,
      stat_path := \<lambda>p. if p = ''/img'' then Inr demo_image else Inl ENOENT\<rparr>"

lemma demo_loop_backed: "loop_backed demo_common image_host demo_image"
  unfolding loop_backed_def
  by (intro exI [of _ "[''.'', ''253:0'']"] exI [of _ None] exI [of _ "''253:0''"] exI [of _ "(253, 0)"] exI [of _ "''/S/m''"])
     (simp add: image_host_def demo_host_def demo_view_def demo_numbers starts_with_def ld_resolve_sysfs_device_def
        demo_links fits_def PATH_MAX_def ld_loop_backing_file_matches_identity_def stat_same_def
        ld_same_regular_object_def demo_image_def S_ISREG_def S_IFMT_def)

lemma demo_write_conflict: "ld_regular_file_write_conflict_identity demo_common image_host demo_image = Return True"
proof -
  have "ld_mount_source_matches_regular_identity demo_common image_host demo_image = Return False"
    by (simp add: ld_mount_source_matches_regular_identity_def image_host_def demo_host_def)
  then show ?thesis
    by (simp add: ld_regular_file_write_conflict_identity_def proc_or_def has_loop_mapping_any demo_loop_backed)
qed

theorem image_write_conflict_exact_witness:
  "mount_sourced image_host demo_image \<or> loop_backed demo_common image_host demo_image \<or>
   swap_on image_host ld_decode_mount_field (\<lambda>s. ld_same_regular_object s demo_image)"
  using image_write_conflict_exact [OF demo_write_conflict] by simp

subsection \<open>Limits of the checks\<close>

text \<open>
  Two inputs are not treated fail-closed. A read error in the middle of the mount table
  counts as its end, so the verdict is the one for the part that was read; and when the
  directory of block devices cannot be listed, an image file counts as not loop-mapped.
\<close>

definition broken_host :: host_view where
  "broken_host = demo_view\<lparr>file_text := \<lambda>p. if p = mountinfo_path then Inr ([], Some EIO) else Inr (''F'', None)\<rparr>"

lemma mountinfo_read_error_not_mounted:
  "ld_device_number_is_mounted demo_common broken_host (8, 1) = Return False"
proof -
  have "ld_collect_related_devices demo_common broken_host (8, 1) = ld_collect_related_devices demo_common demo_view (8, 1)"
    by (simp add: topology_eval broken_host_def demo_view_def)
  moreover have "file_text broken_host mountinfo_path = Inr ([], Some EIO)" "file_text broken_host swaps_path = Inr (''F'', None)"
    by (simp_all add: broken_host_def mountinfo_path_def swaps_path_def)
  ultimately show ?thesis
    by (simp add: ld_device_number_is_mounted_def demo_collect active_swap_def swap_lines_def)
qed

lemma loop_listing_error_ignored:
  "list_directory V ''/sys/dev/block'' = Inl e \<Longrightarrow> ld_regular_file_has_loop_mapping C V st m = Return False"
  by (simp add: ld_regular_file_has_loop_mapping_def)

end
