(* ===== verification/Device.thy ===== *)
theory Device
  imports Mounts Ld_Io
begin

text \<open>
  Device metadata, opening and identity of \<open>src/core/ld_device.c\<close>. Opening a target crosses
  several moments in time, so \<open>ld_device_try_open\<close> takes one host view for the check
  before the open, one for the check after it, and separate answers of the descriptor calls:
  nothing forces them to agree. The descriptors it opens and closes are recorded.
\<close>

subsection \<open>Data\<close>

record LdDevice =
  dv_fd :: int
  dv_path :: "string option"
  dv_writable :: bool
  dv_is_block :: bool
  dv_size_bytes :: u64
  dv_device_number :: dev
  dv_host_device :: dev
  dv_inode :: u64

record LdBlockDeviceInfo =
  bi_size_bytes :: u64
  bi_whole_disk :: bool
  bi_removable :: bool
  bi_read_only :: bool
  bi_model :: string
  bi_serial :: string
  bi_wwn :: string
  bi_transport :: string

definition blank_info :: LdBlockDeviceInfo where
  "blank_info = \<lparr>bi_size_bytes = 0, bi_whole_disk = False, bi_removable = False, bi_read_only = False,
     bi_model = [], bi_serial = [], bi_wwn = [], bi_transport = []\<rparr>"

record fd_view =
  fstat_fd :: "int \<Rightarrow> file_stat result"
  blkgetsize64 :: "int \<Rightarrow> u64 result"

subsection \<open>Sysfs attributes\<close>

definition ld_fd_size_bytes :: "fd_view \<Rightarrow> int \<Rightarrow> u64 result" where
  "ld_fd_size_bytes F fd =
     (if fd < 0 then Inl EINVAL
      else case fstat_fd F fd of
        Inl e \<Rightarrow> Inl e
      | Inr status \<Rightarrow>
          if S_ISREG (st_mode status)
          then if st_size status < 0 then Inl EOVERFLOW else Inr (word_of_int (st_size status))
          else if \<not> S_ISBLK (st_mode status) then Inl EINVAL
          else blkgetsize64 F fd)"

text \<open>A failing read leaves the output buffer as it was.\<close>

definition ld_sysfs_text :: "host_view \<Rightarrow> path \<Rightarrow> string \<Rightarrow> nat \<Rightarrow> string option" where
  "ld_sysfs_text V sysfs suffix output_size =
     (let path = sysfs @ ''/'' @ suffix
      in if \<not> fits PATH_MAX path then None
         else case read_text_file V path output_size of Inl _ \<Rightarrow> None | Inr t \<Rightarrow> Some t)"

definition ld_sysfs_size_bytes :: "host_view \<Rightarrow> path \<Rightarrow> u64 option" where
  "ld_sysfs_size_bytes V sysfs =
     (let path = sysfs @ ''/size''
      in if \<not> fits PATH_MAX path then None
         else case read_u64_file V path of
                None \<Rightarrow> None
              | Some sectors \<Rightarrow> if sectors > UINT64_MAX div 512 then None else Some (sectors * 512))"

definition udev_line :: "common \<Rightarrow> LdBlockDeviceInfo \<Rightarrow> string \<Rightarrow> LdBlockDeviceInfo" where
  "udev_line C info raw =
     (let line = trim_line_end C raw;
          value =
            (if string_starts_with C line ''E:ID_SERIAL_SHORT='' then Some (drop 18 line)
             else if bi_serial info = [] \<and> string_starts_with C line ''E:ID_SERIAL='' then Some (drop 12 line)
             else if string_starts_with C line ''E:ID_WWN='' then Some (drop 9 line)
             else if string_starts_with C line ''E:ID_BUS='' then Some (drop 9 line)
             else None)
      in case value of
           None \<Rightarrow> info
         | Some v \<Rightarrow>
             if string_starts_with C line ''E:ID_WWN=''
             then (if bi_wwn info = [] then info\<lparr>bi_wwn := copy_string C 128 v\<rparr> else info)
             else if string_starts_with C line ''E:ID_BUS=''
             then (if bi_transport info = [] then info\<lparr>bi_transport := copy_string C 32 v\<rparr> else info)
             else if bi_serial info = [] then info\<lparr>bi_serial := copy_string C 128 v\<rparr>
             else info)"

definition ld_read_udev_properties :: "common \<Rightarrow> host_view \<Rightarrow> dev \<Rightarrow> LdBlockDeviceInfo \<Rightarrow> LdBlockDeviceInfo" where
  "ld_read_udev_properties C V device info =
     (let path = ''/run/udev/data/b'' @ show_u32 (major device) @ '':'' @ show_u32 (minor device)
      in if \<not> fits PATH_MAX path then info
         else case file_text V path of
                Inl _ \<Rightarrow> info
              | Inr (content, _) \<Rightarrow> foldl (udev_line C) info (getline_list content))"

definition or_empty :: "string option \<Rightarrow> string" where
  "or_empty t = (case t of None \<Rightarrow> [] | Some s \<Rightarrow> s)"

text \<open>The first readable of two attributes.\<close>

definition text_or :: "host_view \<Rightarrow> path \<Rightarrow> string \<Rightarrow> string \<Rightarrow> nat \<Rightarrow> string" where
  "text_or V sysfs a b n =
     (case ld_sysfs_text V sysfs a n of Some t \<Rightarrow> t | None \<Rightarrow> or_empty (ld_sysfs_text V sysfs b n))"

definition base_starts :: "common \<Rightarrow> path \<Rightarrow> string \<Rightarrow> bool" where
  "base_starts C path prefix =
     (case path_basename C path of None \<Rightarrow> False | Some base \<Rightarrow> string_starts_with C base prefix)"

definition block_flag :: "host_view \<Rightarrow> path \<Rightarrow> string \<Rightarrow> bool result" where
  "block_flag V sysfs name =
     (let numeric_path = sysfs @ ''/'' @ name
      in if \<not> fits PATH_MAX numeric_path then Inl EIO
         else case read_u64_file V numeric_path of
                None \<Rightarrow> Inl EIO
              | Some v \<Rightarrow> if v > 1 then Inl EIO else Inr (v \<noteq> 0))"

text \<open>The capacity, from sysfs or else from the device; \<open>open_ro\<close> answers the read-only open.\<close>

definition block_capacity ::
  "host_view \<Rightarrow> fd_view \<Rightarrow> (path \<Rightarrow> int result) \<Rightarrow> path \<Rightarrow> path \<Rightarrow> u64 result" where
  "block_capacity V F open_ro sysfs path =
     (case ld_sysfs_size_bytes V sysfs of
        Some n \<Rightarrow> Inr n
      | None \<Rightarrow> (case open_ro path of Inl e \<Rightarrow> Inl e | Inr fd \<Rightarrow> ld_fd_size_bytes F fd))"

definition sysfs_transport :: "common \<Rightarrow> path \<Rightarrow> path \<Rightarrow> string" where
  "sysfs_transport C path sysfs =
     (if str_contains sysfs ''/usb'' then ''usb''
      else if base_starts C path ''nvme'' then ''nvme''
      else if base_starts C path ''mmcblk'' then ''mmc''
      else if str_contains sysfs ''/ata'' then ''sata''
      else if str_contains sysfs ''/virtio'' then ''virtio''
      else if str_contains sysfs ''/scsi'' then ''scsi''
      else [])"

definition mmc_wwn :: "common \<Rightarrow> host_view \<Rightarrow> path \<Rightarrow> path \<Rightarrow> LdBlockDeviceInfo \<Rightarrow> LdBlockDeviceInfo" where
  "mmc_wwn C V path sysfs info =
     (if bi_serial info = [] \<and> bi_wwn info = [] \<and> base_starts C path ''mmcblk''
      then case ld_sysfs_text V sysfs ''device/cid'' 96 of
             Some cid \<Rightarrow> if cid \<noteq> [] then info\<lparr>bi_wwn := bounded 128 (''mmc-cid:'' @ cid)\<rparr> else info
           | None \<Rightarrow> info
      else info)"

text \<open>
  \<open>access (\<dots>, F_OK)\<close> reports the same outcome as \<open>stat\<close>. The result is the filled
  structure; on failure the caller's structure is not read.
\<close>

definition ld_block_device_info ::
  "common \<Rightarrow> host_view \<Rightarrow> fd_view \<Rightarrow> (path \<Rightarrow> int result) \<Rightarrow> path option \<Rightarrow> LdBlockDeviceInfo result" where
  "ld_block_device_info C V F open_ro path =
     (case path of None \<Rightarrow> Inl EINVAL | Some path \<Rightarrow>
      case stat_path V path of Inl e \<Rightarrow> Inl e | Inr st \<Rightarrow>
      if \<not> S_ISBLK (st_mode st) then Inl ENOTBLK
      else case ld_resolve_sysfs_device V (st_rdev st) PATH_MAX of Inl _ \<Rightarrow> Inl ENODEV | Inr sysfs \<Rightarrow>
      if \<not> fits PATH_MAX (sysfs @ ''/partition'') then Inl ENAMETOOLONG
      else case (case stat_path V (sysfs @ ''/partition'') of
                   Inr _ \<Rightarrow> Inr False | Inl e \<Rightarrow> if e = ENOENT then Inr True else Inl e) of
        Inl e \<Rightarrow> Inl e
      | Inr whole_disk \<Rightarrow>
      case block_capacity V F open_ro sysfs path of Inl e \<Rightarrow> Inl e | Inr size_bytes \<Rightarrow>
      case block_flag V sysfs ''removable'' of Inl e \<Rightarrow> Inl e | Inr removable \<Rightarrow>
      case block_flag V sysfs ''ro'' of Inl e \<Rightarrow> Inl e | Inr read_only \<Rightarrow>
      let info = blank_info\<lparr>bi_size_bytes := size_bytes, bi_whole_disk := whole_disk, bi_removable := removable,
            bi_read_only := read_only, bi_model := text_or V sysfs ''device/model'' ''device/name'' 128,
            bi_serial := or_empty (ld_sysfs_text V sysfs ''device/serial'' 128),
            bi_wwn := text_or V sysfs ''device/wwid'' ''wwid'' 128\<rparr>;
          info = mmc_wwn C V path sysfs info;
          info = ld_read_udev_properties C V (st_rdev st) info
      in Inr (if bi_transport info = [] then info\<lparr>bi_transport := copy_string C 32 (sysfs_transport C path sysfs)\<rparr>
              else info))"

subsection \<open>Opening a target\<close>

record open_flags =
  fl_rdwr :: bool
  fl_excl :: bool
  fl_nofollow :: bool
  fl_cloexec :: bool

datatype fd_event = Fd_open path open_flags int | Fd_close int

text \<open>The moments of one open: the preflight, the open itself, \<open>fstat\<close>, the second check and the size query.\<close>

record open_run =
  before_open :: host_view
  open_answer :: "path \<Rightarrow> open_flags \<Rightarrow> int result"
  at_fstat :: fd_view
  after_open :: host_view
  at_size :: fd_view

text \<open>Both in-use checks run only for a writable open; \<open>block\<close> is the kind seen before the open.\<close>

definition in_use_check :: "common \<Rightarrow> host_view \<Rightarrow> bool \<Rightarrow> bool \<Rightarrow> file_stat \<Rightarrow> bool proc" where
  "in_use_check C V writable block st =
     (if \<not> writable then Return False
      else if block then ld_device_number_is_mounted C V (st_rdev st)
      else ld_regular_file_write_conflict_identity C V st)"

definition same_object :: "bool \<Rightarrow> file_stat \<Rightarrow> file_stat \<Rightarrow> bool" where
  "same_object block expected opened \<longleftrightarrow>
     st_mode expected AND S_IFMT = st_mode opened AND S_IFMT \<and> st_dev expected = st_dev opened \<and>
     st_ino expected = st_ino opened \<and> (\<not> block \<or> st_rdev expected = st_rdev opened)"

definition open_mode :: "bool \<Rightarrow> bool \<Rightarrow> open_flags" where
  "open_mode writable block =
     \<lparr>fl_rdwr = writable, fl_excl = (block \<and> writable), fl_nofollow = True, fl_cloexec = True\<rparr>"

text \<open>From the opened descriptor on: identity, second check, size.\<close>

definition finish_open ::
  "common \<Rightarrow> open_run \<Rightarrow> bool \<Rightarrow> bool \<Rightarrow> path \<Rightarrow> file_stat \<Rightarrow> int \<Rightarrow> (LdDevice result \<times> fd_event list) proc" where
  "finish_open C R writable block resolved expected fd =
     (let opening = [Fd_open resolved (open_mode writable block) fd]
      in case fstat_fd (at_fstat R) fd of
           Inl e \<Rightarrow> Return (Inl e, opening @ [Fd_close fd])
         | Inr opened \<Rightarrow>
             if \<not> same_object block expected opened then Return (Inl ESTALE, opening @ [Fd_close fd])
             else case in_use_check C (after_open R) writable block opened of
               Exit_failure t \<Rightarrow> Exit_failure t
             | Return True \<Rightarrow> Return (Inl EBUSY, opening @ [Fd_close fd])
             | Return False \<Rightarrow>
                 (case ld_fd_size_bytes (at_size R) fd of
                    Inl e \<Rightarrow> Return (Inl e, opening @ [Fd_close fd])
                  | Inr n \<Rightarrow> Return (Inr \<lparr>dv_fd = fd, dv_path = Some resolved, dv_writable = writable,
                        dv_is_block = block, dv_size_bytes = n,
                        dv_device_number = (if block then st_rdev opened else (0, 0)),
                        dv_host_device = st_dev opened, dv_inode = st_ino opened\<rparr>, opening)))"

definition ld_device_try_open ::
  "common \<Rightarrow> open_run \<Rightarrow> path option \<Rightarrow> bool \<Rightarrow> (LdDevice result \<times> fd_event list) proc" where
  "ld_device_try_open C R path writable =
     (case path of None \<Rightarrow> Return (Inl EINVAL, []) | Some path \<Rightarrow>
      case realpath (before_open R) path of Inl e \<Rightarrow> Return (Inl e, []) | Inr resolved \<Rightarrow>
      case stat_path (before_open R) resolved of Inl e \<Rightarrow> Return (Inl e, []) | Inr expected \<Rightarrow>
      let block = S_ISBLK (st_mode expected); regular = S_ISREG (st_mode expected)
      in if \<not> block \<and> \<not> regular then Return (Inl EINVAL, [])
         else case in_use_check C (before_open R) writable block expected of
           Exit_failure t \<Rightarrow> Exit_failure t
         | Return True \<Rightarrow> Return (Inl EBUSY, [])
         | Return False \<Rightarrow>
             (case open_answer R resolved (open_mode writable block) of
                Inl e \<Rightarrow> Return (Inl e, [])
              | Inr fd \<Rightarrow> finish_open C R writable block resolved expected fd))"

text \<open>\<open>close_answer\<close> is the outcome of \<open>close\<close>; the warning goes to the error stream.\<close>

definition closed_device :: LdDevice where
  "closed_device = \<lparr>dv_fd = -1, dv_path = None, dv_writable = False, dv_is_block = False, dv_size_bytes = 0,
     dv_device_number = (0, 0), dv_host_device = (0, 0), dv_inode = 0\<rparr>"

definition ld_device_close ::
  "common \<Rightarrow> (int \<Rightarrow> errno option) \<Rightarrow> LdDevice \<Rightarrow> LdDevice \<times> fd_event list \<times> string" where
  "ld_device_close C close_answer device =
     (closed_device,
      if dv_fd device \<ge> 0 then [Fd_close (dv_fd device)] else [],
      if dv_fd device \<ge> 0
      then case close_answer (dv_fd device) of
             Some e \<Rightarrow> ld_warn_errno (program_name C) (strerror C) ''close target'' e
           | None \<Rightarrow> []
      else [])"

definition ld_device_open ::
  "common \<Rightarrow> open_run \<Rightarrow> path option \<Rightarrow> bool \<Rightarrow> (LdDevice \<times> fd_event list) proc" where
  "ld_device_open C R path writable =
     (case ld_device_try_open C R path writable of
        Exit_failure t \<Rightarrow> Exit_failure t
      | Return (Inl e, _) \<Rightarrow> die_errno C ''open target'' e
      | Return (Inr d, evs) \<Rightarrow> Return (d, evs))"

subsection \<open>Identity\<close>

definition is_hex :: "char \<Rightarrow> bool" where
  "is_hex c \<longleftrightarrow> (let n = (of_char c :: nat) in (48 \<le> n \<and> n \<le> 57) \<or> (97 \<le> n \<and> n \<le> 102) \<or> (65 \<le> n \<and> n \<le> 70))"

text \<open>The card node of an MMC device: the parent directory for a partition.\<close>

definition mmc_card :: "host_view \<Rightarrow> path \<Rightarrow> path option" where
  "mmc_card V sysfs =
     (if \<not> fits PATH_MAX sysfs then None
      else case ld_sysfs_is_partition V sysfs of
        Inl _ \<Rightarrow> None
      | Inr False \<Rightarrow> Some sysfs
      | Inr True \<Rightarrow>
          (case strrchr (CHR ''/'') sysfs of
             None \<Rightarrow> None
           | Some slash \<Rightarrow> if slash = 0 then None else Some (take slash sysfs)))"

definition ld_mmc_cid_from_sysfs :: "common \<Rightarrow> host_view \<Rightarrow> path \<Rightarrow> nat \<Rightarrow> string option" where
  "ld_mmc_cid_from_sysfs C V sysfs capacity =
     (if capacity < 33 then None
      else case mmc_card V sysfs of
        None \<Rightarrow> None
      | Some node \<Rightarrow>
          (case strrchr (CHR ''/'') node of
             None \<Rightarrow> None
           | Some leaf \<Rightarrow>
               if \<not> string_starts_with C (drop (Suc leaf) node) ''mmcblk'' then None
               else case ld_sysfs_text V node ''device/cid'' capacity of
                 None \<Rightarrow> None
               | Some raw \<Rightarrow>
                   let cid = takeWhile (\<lambda>c. c \<noteq> CHR 0x0D \<and> c \<noteq> CHR 0x0A) raw
                   in if length cid = 32 \<and> list_all is_hex cid then Some cid else None))"

text \<open>A missing partition start counts as zero.\<close>

definition start_sectors :: "host_view \<Rightarrow> path \<Rightarrow> u64" where
  "start_sectors V sysfs =
     (if fits PATH_MAX (sysfs @ ''/start'')
      then case read_u64_file V (sysfs @ ''/start'') of Some n \<Rightarrow> n | None \<Rightarrow> 0
      else 0)"

definition ld_mmc_identity_from_sysfs :: "common \<Rightarrow> host_view \<Rightarrow> path \<Rightarrow> nat \<Rightarrow> string option" where
  "ld_mmc_identity_from_sysfs C V sysfs capacity =
     (case ld_mmc_cid_from_sysfs C V sysfs 96 of
        None \<Rightarrow> None
      | Some cid \<Rightarrow>
          (case ld_sysfs_size_bytes V sysfs of
             None \<Rightarrow> None
           | Some size_bytes \<Rightarrow>
               if \<not> fits PATH_MAX (sysfs @ ''/start'') then None
               else let text = ''block-hw:mmc-cid:'' @ cid @ ''||'' @ show_u64 (start_sectors V sysfs) @ ''|'' @ show_u64 size_bytes
                 in if fits capacity text then Some text else None))"

definition ld_stable_block_hardware_identity :: "common \<Rightarrow> host_view \<Rightarrow> dev \<Rightarrow> nat \<Rightarrow> string option" where
  "ld_stable_block_hardware_identity C V device_number buffer_size =
     (if buffer_size = 0 then None
      else case ld_resolve_sysfs_device V device_number PATH_MAX of
        Inl _ \<Rightarrow> None
      | Inr sysfs \<Rightarrow>
          let info = blank_info\<lparr>bi_serial := or_empty (ld_sysfs_text V sysfs ''device/serial'' 128),
                bi_wwn := text_or V sysfs ''device/wwid'' ''wwid'' 128\<rparr>;
              info = ld_read_udev_properties C V device_number info
          in if bi_serial info = [] \<and> bi_wwn info = [] then ld_mmc_identity_from_sysfs C V sysfs buffer_size
             else case ld_sysfs_size_bytes V sysfs of
               None \<Rightarrow> None
             | Some size_bytes \<Rightarrow>
                 let text = ''block-hw:'' @ bi_wwn info @ ''|'' @ bi_serial info @ ''|'' @
                            show_u64 (start_sectors V sysfs) @ ''|'' @ show_u64 size_bytes
                 in if fits buffer_size text then Some text else None)"

definition alias_roots :: "string list" where
  "alias_roots = [''/dev/disk/by-partuuid'', ''/dev/disk/by-uuid'', ''/dev/disk/by-id'', ''/dev/mapper'']"

definition alias_candidate :: "host_view \<Rightarrow> dev \<Rightarrow> string \<Rightarrow> string \<Rightarrow> string option" where
  "alias_candidate V device_number root name =
     (if starts_with name ''.'' then None
      else if root = ''/dev/mapper'' \<and> name = ''control'' then None
      else let candidate = root @ ''/'' @ name
        in if \<not> fits PATH_MAX candidate then None
           else case stat_path V candidate of
                  Inl _ \<Rightarrow> None
                | Inr status \<Rightarrow>
                    if \<not> S_ISBLK (st_mode status) \<or> st_rdev status \<noteq> device_number then None else Some candidate)"

fun best_alias :: "common \<Rightarrow> host_view \<Rightarrow> dev \<Rightarrow> string \<Rightarrow> string list \<Rightarrow> string \<Rightarrow> string" where
  "best_alias C V device_number root [] best = best"
| "best_alias C V device_number root (name # names) best =
     (case alias_candidate V device_number root name of
        None \<Rightarrow> best_alias C V device_number root names best
      | Some candidate \<Rightarrow>
          best_alias C V device_number root names
            (if best = [] \<or> str_less candidate best then copy_string C PATH_MAX candidate else best))"

fun alias_in_roots :: "common \<Rightarrow> host_view \<Rightarrow> dev \<Rightarrow> string list \<Rightarrow> string" where
  "alias_in_roots C V device_number [] = []"
| "alias_in_roots C V device_number (root # roots) =
     (case list_directory V root of
        Inl _ \<Rightarrow> alias_in_roots C V device_number roots
      | Inr (names, _) \<Rightarrow>
          let best = best_alias C V device_number root names []
          in if best \<noteq> [] then best else alias_in_roots C V device_number roots)"

definition ld_stable_block_alias :: "common \<Rightarrow> host_view \<Rightarrow> dev \<Rightarrow> nat \<Rightarrow> string option" where
  "ld_stable_block_alias C V device_number buffer_size =
     (if buffer_size = 0 then None
      else let best = alias_in_roots C V device_number alias_roots
        in if best = [] then None
           else if length best + 1 > buffer_size then None
           else Some (copy_string C buffer_size best))"

definition legacy_identity :: "dev \<Rightarrow> string" where
  "legacy_identity d = ''block:'' @ show_u32 (major d) @ '':'' @ show_u32 (minor d)"

definition ld_legacy_block_identity_matches :: "common \<Rightarrow> dev \<Rightarrow> string \<Rightarrow> bool" where
  "ld_legacy_block_identity_matches C device_number expected \<longleftrightarrow>
     string_starts_with C expected ''block:'' \<and> fits 64 (legacy_identity device_number) \<and>
     legacy_identity device_number = expected"

definition identity_text :: "common \<Rightarrow> host_view \<Rightarrow> LdDevice \<Rightarrow> string" where
  "identity_text C V device =
     (if dv_is_block device
      then case ld_stable_block_hardware_identity C V (dv_device_number device) PATH_MAX of
             Some hardware \<Rightarrow> hardware
           | None \<Rightarrow>
               (case ld_stable_block_alias C V (dv_device_number device) PATH_MAX of
                  Some alias \<Rightarrow> ''block-id:'' @ alias
                | None \<Rightarrow> legacy_identity (dv_device_number device))
      else ''file:'' @ show_u64 (dev_value (dv_host_device device)) @ '':'' @ show_u64 (dv_inode device))"

definition ld_device_format_identity :: "common \<Rightarrow> host_view \<Rightarrow> LdDevice option \<Rightarrow> nat \<Rightarrow> string result" where
  "ld_device_format_identity C V device buffer_size =
     (case device of
        None \<Rightarrow> Inl EINVAL
      | Some device \<Rightarrow>
          if dv_fd device < 0 \<or> buffer_size = 0 then Inl EINVAL
          else if \<not> fits buffer_size (identity_text C V device) then Inl ENAMETOOLONG
          else Inr (identity_text C V device))"

definition ld_fd_format_identity :: "common \<Rightarrow> host_view \<Rightarrow> fd_view \<Rightarrow> int \<Rightarrow> nat \<Rightarrow> string result" where
  "ld_fd_format_identity C V F fd buffer_size =
     (if fd < 0 \<or> buffer_size = 0 then Inl EINVAL
      else case fstat_fd F fd of
        Inl e \<Rightarrow> Inl e
      | Inr status \<Rightarrow>
          let block = S_ISBLK (st_mode status)
          in if \<not> block \<and> \<not> S_ISREG (st_mode status) then Inl EINVAL
             else ld_device_format_identity C V (Some \<lparr>dv_fd = fd, dv_path = None, dv_writable = False,
                    dv_is_block = block, dv_size_bytes = 0,
                    dv_device_number = (if block then st_rdev status else (0, 0)),
                    dv_host_device = st_dev status, dv_inode = st_ino status\<rparr>) buffer_size)"

definition IDENTITY_BYTES :: nat where "IDENTITY_BYTES = PATH_MAX + 32"

text \<open>The fast revalidation of a captured MMC card identity.\<close>

definition mmc_revalidates :: "common \<Rightarrow> host_view \<Rightarrow> fd_view \<Rightarrow> LdDevice \<Rightarrow> string \<Rightarrow> bool" where
  "mmc_revalidates C V F device expected =
     (case fstat_fd F (dv_fd device) of
        Inl _ \<Rightarrow> False
      | Inr opened \<Rightarrow>
          S_ISBLK (st_mode opened) \<and> st_rdev opened = dv_device_number device \<and>
          ld_fd_size_bytes F (dv_fd device) = Inr (dv_size_bytes device) \<and>
          (case ld_resolve_sysfs_device V (dv_device_number device) PATH_MAX of
             Inl _ \<Rightarrow> False
           | Inr sysfs \<Rightarrow> ld_mmc_identity_from_sysfs C V sysfs 256 = Some expected))"

definition ld_device_matches_identity ::
  "common \<Rightarrow> host_view \<Rightarrow> fd_view \<Rightarrow> LdDevice option \<Rightarrow> string option \<Rightarrow> u64 \<Rightarrow> bool" where
  "ld_device_matches_identity C V F device expected_identity expected_size =
     (case (device, expected_identity) of
        (Some device, Some expected) \<Rightarrow>
          if dv_fd device < 0 then False
          else if expected_size \<noteq> 0 \<and> dv_size_bytes device \<noteq> expected_size then False
          else if dv_is_block device \<and> ld_legacy_block_identity_matches C (dv_device_number device) expected then True
          else if dv_is_block device \<and> string_starts_with C expected ''block-hw:mmc-cid:''
          then mmc_revalidates C V F device expected
          else ld_device_format_identity C V (Some device) IDENTITY_BYTES = Inr expected
      | _ \<Rightarrow> False)"

definition ld_fd_matches_identity ::
  "common \<Rightarrow> host_view \<Rightarrow> fd_view \<Rightarrow> int \<Rightarrow> string option \<Rightarrow> u64 \<Rightarrow> bool" where
  "ld_fd_matches_identity C V F fd expected_identity expected_size =
     (case expected_identity of
        None \<Rightarrow> False
      | Some expected \<Rightarrow>
          if fd < 0 then False
          else case ld_fd_size_bytes F fd of
            Inl _ \<Rightarrow> False
          | Inr n \<Rightarrow>
              if expected_size \<noteq> 0 \<and> n \<noteq> expected_size then False
              else case fstat_fd F fd of
                Inl _ \<Rightarrow> False
              | Inr status \<Rightarrow>
                  if S_ISBLK (st_mode status) \<and> ld_legacy_block_identity_matches C (st_rdev status) expected then True
                  else ld_fd_format_identity C V F fd IDENTITY_BYTES = Inr expected)"

definition ld_device_open_verified_fd ::
  "common \<Rightarrow> open_run \<Rightarrow> host_view \<Rightarrow> fd_view \<Rightarrow> path option \<Rightarrow> bool \<Rightarrow> string option \<Rightarrow> u64 \<Rightarrow>
   (int result \<times> fd_event list) proc" where
  "ld_device_open_verified_fd C R V F path writable expected_identity expected_size =
     (case ld_device_try_open C R path writable of
        Exit_failure t \<Rightarrow> Exit_failure t
      | Return (Inl e, evs) \<Rightarrow> Return (Inl e, evs)
      | Return (Inr device, evs) \<Rightarrow>
          if expected_identity \<noteq> None \<and>
             \<not> ld_device_matches_identity C V F (Some device) expected_identity expected_size
          then Return (Inl ESTALE, evs @ [Fd_close (dv_fd device)])
          else Return (Inr (dv_fd device), evs))"

text \<open>\<open>strdup\<close> may fail; the result is the canonical path, the identity and the size.\<close>

definition ld_device_capture_binding ::
  "common \<Rightarrow> (string \<Rightarrow> string result) \<Rightarrow> open_run \<Rightarrow> host_view \<Rightarrow> path option \<Rightarrow>
   ((string \<times> string \<times> u64) result \<times> fd_event list) proc" where
  "ld_device_capture_binding C strdup R V path =
     (case ld_device_try_open C R path False of
        Exit_failure t \<Rightarrow> Exit_failure t
      | Return (Inl e, evs) \<Rightarrow> Return (Inl e, evs)
      | Return (Inr device, evs) \<Rightarrow>
          let evs = evs @ [Fd_close (dv_fd device)]
          in if dv_size_bytes device = 0 then Return (Inl EINVAL, evs)
             else case ld_device_format_identity C V (Some device) IDENTITY_BYTES of
               Inl e \<Rightarrow> Return (Inl e, evs)
             | Inr text \<Rightarrow>
                 (case strdup text of
                    Inl e \<Rightarrow> Return (Inl e, evs)
                  | Inr copied \<Rightarrow>
                      (case (if dv_is_block device then ld_stable_block_alias C V (dv_device_number device) PATH_MAX
                             else None) of
                         Some stable_path \<Rightarrow>
                           (case strdup stable_path of
                              Inl e \<Rightarrow> Return (Inl e, evs)
                            | Inr p \<Rightarrow> Return (Inr (p, copied, dv_size_bytes device), evs))
                       | None \<Rightarrow> Return (Inr (or_empty (dv_path device), copied, dv_size_bytes device), evs))))"

subsection \<open>Performance hints\<close>

definition ld_device_is_rotational :: "host_view \<Rightarrow> LdDevice \<Rightarrow> bool" where
  "ld_device_is_rotational V device =
     (if \<not> dv_is_block device then False
      else case read_u64_file V (bounded 128 (sysfs_link (dv_device_number device) @ ''/queue/rotational'')) of
             None \<Rightarrow> False
           | Some v \<Rightarrow> v \<noteq> 0)"

definition ld_device_is_serial_flash :: "common \<Rightarrow> LdDevice \<Rightarrow> bool" where
  "ld_device_is_serial_flash C device = base_starts C (or_empty (dv_path device)) ''mmcblk''"

subsection \<open>Properties of opening\<close>

definition unused :: "common \<Rightarrow> host_view \<Rightarrow> bool \<Rightarrow> file_stat \<Rightarrow> bool" where
  "unused C V block st \<longleftrightarrow>
     (if block
      then \<exists>ds. ld_collect_related_devices C V (st_rdev st) = Inr ds \<and>
             (\<forall>r \<in> related_values ds. \<not> mounted_device C V r \<and>
                \<not> swap_on V ld_decode_mount_field (\<lambda>s. swap_device s = r))
      else \<not> mount_sourced V st \<and> \<not> loop_backed C V st \<and>
           \<not> swap_on V ld_decode_mount_field (\<lambda>s. ld_same_regular_object s st))"

lemma in_use_check_unused: "in_use_check C V True block st = Return False \<Longrightarrow> unused C V block st"
  by (auto simp: in_use_check_def unused_def dest: mounted_Return write_conflict_Return split: if_splits)

lemma finish_open_cases:
  assumes "finish_open C R writable block resolved expected fd = Return (r, evs)"
  obtains e where "r = Inl e"
      "evs = [Fd_open resolved (open_mode writable block) fd, Fd_close fd]"
  | opened n where "fstat_fd (at_fstat R) fd = Inr opened" "same_object block expected opened"
      "in_use_check C (after_open R) writable block opened = Return False"
      "ld_fd_size_bytes (at_size R) fd = Inr n"
      "r = Inr \<lparr>dv_fd = fd, dv_path = Some resolved, dv_writable = writable, dv_is_block = block, dv_size_bytes = n,
             dv_device_number = (if block then st_rdev opened else (0, 0)),
             dv_host_device = st_dev opened, dv_inode = st_ino opened\<rparr>"
      "evs = [Fd_open resolved (open_mode writable block) fd]"
  using assms by (auto simp: finish_open_def Let_def split: sum.splits if_splits proc.splits bool.splits)

lemma try_open_cases:
  assumes "ld_device_try_open C R path writable = Return (r, evs)"
  obtains e where "r = Inl e" "evs = []"
  | p resolved expected fd where "path = Some p" "realpath (before_open R) p = Inr resolved"
      "stat_path (before_open R) resolved = Inr expected"
      "S_ISBLK (st_mode expected) \<or> S_ISREG (st_mode expected)"
      "in_use_check C (before_open R) writable (S_ISBLK (st_mode expected)) expected = Return False"
      "open_answer R resolved (open_mode writable (S_ISBLK (st_mode expected))) = Inr fd"
      "finish_open C R writable (S_ISBLK (st_mode expected)) resolved expected fd = Return (r, evs)"
  using assms
  by (auto simp: ld_device_try_open_def Let_def split: option.splits sum.splits if_splits proc.splits bool.splits)

lemma try_open_Inl:
  assumes "ld_device_try_open C R path writable = Return (Inl e, evs)"
  shows "evs = [] \<or> (\<exists>p flags fd. evs = [Fd_open p flags fd, Fd_close fd])"
  using assms by (cases rule: try_open_cases) (auto elim: finish_open_cases)

lemma try_open_Inr:
  assumes "ld_device_try_open C R path writable = Return (Inr d, evs)"
  obtains p resolved expected opened where "path = Some p" "realpath (before_open R) p = Inr resolved"
    "stat_path (before_open R) resolved = Inr expected"
    "fstat_fd (at_fstat R) (dv_fd d) = Inr opened" "dv_is_block d = S_ISBLK (st_mode expected)"
    "dv_is_block d \<or> S_ISREG (st_mode expected)"
    "same_object (dv_is_block d) expected opened"
    "in_use_check C (before_open R) writable (dv_is_block d) expected = Return False"
    "in_use_check C (after_open R) writable (dv_is_block d) opened = Return False"
    "ld_fd_size_bytes (at_size R) (dv_fd d) = Inr (dv_size_bytes d)"
    "dv_device_number d = (if dv_is_block d then st_rdev opened else (0, 0))"
    "dv_host_device d = st_dev opened" "dv_inode d = st_ino opened" "dv_path d = Some resolved"
    "dv_writable d = writable" "evs = [Fd_open resolved (open_mode writable (dv_is_block d)) (dv_fd d)]"
  using assms
proof (cases rule: try_open_cases)
  case (2 p resolved expected fd)
  from 2(7) show thesis
  proof (cases rule: finish_open_cases)
    case (2 opened n)
    then show thesis using \<open>path = Some p\<close> \<open>realpath (before_open R) p = Inr resolved\<close>
        \<open>stat_path (before_open R) resolved = Inr expected\<close>
        \<open>S_ISBLK (st_mode expected) \<or> S_ISREG (st_mode expected)\<close>
        \<open>in_use_check C (before_open R) writable (S_ISBLK (st_mode expected)) expected = Return False\<close>
      by (intro that) auto
  qed simp
qed simp

text \<open>
  Property C11. However the host changes between its steps, a successful writable open guarantees: the
  object was not in use before the open, the descriptor refers to exactly the object that
  was inspected (same kind, device, inode and, for block devices, device number), it was
  opened without following a final link and exclusively for block devices, and the opened
  object was not in use afterwards either: no device overlapping it was mounted or used as
  swap, or no mount source, inspectable loop device or swap was the image.
\<close>
theorem writable_open_safe:
  assumes "ld_device_try_open C R (Some path) True = Return (Inr d, evs)"
  shows "\<exists>resolved expected opened.
    realpath (before_open R) path = Inr resolved \<and> stat_path (before_open R) resolved = Inr expected \<and>
    fstat_fd (at_fstat R) (dv_fd d) = Inr opened \<and>
    st_mode expected AND S_IFMT = st_mode opened AND S_IFMT \<and> st_dev expected = st_dev opened \<and>
    st_ino expected = st_ino opened \<and> (dv_is_block d \<longrightarrow> st_rdev expected = st_rdev opened) \<and>
    unused C (before_open R) (dv_is_block d) expected \<and> unused C (after_open R) (dv_is_block d) opened \<and>
    evs = [Fd_open resolved \<lparr>fl_rdwr = True, fl_excl = dv_is_block d, fl_nofollow = True, fl_cloexec = True\<rparr> (dv_fd d)] \<and>
    dv_host_device d = st_dev opened \<and> dv_inode d = st_ino opened \<and>
    (dv_is_block d \<longrightarrow> dv_device_number d = st_rdev opened)"
  using assms
proof (cases rule: try_open_Inr)
  case (1 p resolved expected opened)
  then show ?thesis
    by (intro exI [of _ resolved] exI [of _ expected] exI [of _ opened])
       (auto simp: open_mode_def same_object_def intro: in_use_check_unused)
qed

definition idle_host :: host_view where
  "idle_host = (demo_host '''' ''F'')
     \<lparr>stat_path := \<lambda>p. if p = ''/img'' then Inr demo_image else Inl ENOENT, list_directory := \<lambda>p. Inr ([], None)\<rparr>"

definition demo_fds :: fd_view where
  "demo_fds = \<lparr>fstat_fd = \<lambda>fd. Inr demo_image, blkgetsize64 = \<lambda>fd. Inl EIO\<rparr>"

definition demo_run :: open_run where
  "demo_run = \<lparr>before_open = idle_host, open_answer = \<lambda>p fl. Inr 5, at_fstat = demo_fds, after_open = idle_host,
     at_size = demo_fds\<rparr>"

definition demo_device :: "bool \<Rightarrow> LdDevice" where
  "demo_device w = \<lparr>dv_fd = 5, dv_path = Some ''/img'', dv_writable = w, dv_is_block = False, dv_size_bytes = 1000,
     dv_device_number = (0, 0), dv_host_device = (8, 2), dv_inode = 77\<rparr>"

lemma idle_no_conflict: "ld_regular_file_write_conflict_identity demo_common idle_host demo_image = Return False"
proof -
  have "file_text idle_host mountinfo_path = Inr ([], None)" "file_text idle_host swaps_path = Inr (''F'', None)"
    "list_directory idle_host p = Inr ([], None)" for p
    by (simp_all add: idle_host_def demo_host_def mountinfo_path_def swaps_path_def)
  then show ?thesis
    by (simp add: ld_regular_file_write_conflict_identity_def proc_or_def ld_mount_source_matches_regular_identity_def
        ld_regular_file_has_loop_mapping_def ld_regular_file_is_active_swap_def active_swap_def swap_lines_def)
qed

lemma demo_open:
  "ld_device_try_open demo_common demo_run (Some ''/img'') w =
     Return (Inr (demo_device w), [Fd_open ''/img'' (open_mode w False) 5])"
proof -
  have "realpath idle_host ''/img'' = Inr ''/img''" "stat_path idle_host ''/img'' = Inr demo_image"
    by (simp_all add: idle_host_def demo_host_def demo_view_def)
  moreover have "S_ISREG (st_mode demo_image)" "\<not> S_ISBLK (st_mode demo_image)"
    by (simp_all add: demo_image_def S_ISREG_def S_ISBLK_def S_IFMT_def)
  ultimately show ?thesis
    by (simp add: ld_device_try_open_def demo_run_def in_use_check_def idle_no_conflict finish_open_def demo_fds_def
        same_object_def ld_fd_size_bytes_def demo_device_def)
       (simp add: demo_image_def)
qed

theorem writable_open_safe_witness:
  "ld_device_try_open demo_common demo_run (Some ''/img'') True =
     Return (Inr (demo_device True), [Fd_open ''/img'' (open_mode True False) 5]) \<and>
   unused demo_common idle_host False demo_image"
  using writable_open_safe [OF demo_open [of True]] demo_open [of True]
  by (auto simp: demo_run_def demo_fds_def demo_device_def)

text \<open>
  An open bound to a recorded identity returns a descriptor only when the opened target
  matches that identity and, when one is recorded, the capacity; it then leaves exactly that descriptor
  open. On every failure it leaves none open.
\<close>
theorem open_verified_binding:
  assumes "ld_device_open_verified_fd C R V F path writable (Some expected) bytes = Return (r, evs)"
  shows "(\<forall>fd. r = Inr fd \<longrightarrow>
      (\<exists>d p. ld_device_try_open C R path writable = Return (Inr d, evs) \<and> dv_fd d = fd \<and>
             ld_device_matches_identity C V F (Some d) (Some expected) bytes \<and>
             (bytes \<noteq> 0 \<longrightarrow> dv_size_bytes d = bytes) \<and>
             evs = [Fd_open p (open_mode writable (dv_is_block d)) fd])) \<and>
    (\<forall>e. r = Inl e \<longrightarrow> evs = [] \<or> (\<exists>p flags fd. evs = [Fd_open p flags fd, Fd_close fd]))"
proof -
  obtain r0 evs0 where t: "ld_device_try_open C R path writable = Return (r0, evs0)"
    using assms by (cases "ld_device_try_open C R path writable") (auto simp: ld_device_open_verified_fd_def)
  show ?thesis
  proof (cases r0)
    case (Inl e)
    with t assms try_open_Inl [of C R path writable e evs0] show ?thesis
      by (auto simp: ld_device_open_verified_fd_def)
  next
    case (Inr d)
    from t [unfolded Inr] obtain p where p: "evs0 = [Fd_open p (open_mode writable (dv_is_block d)) (dv_fd d)]"
      by (cases rule: try_open_Inr) blast
    with t assms Inr show ?thesis
      by (auto simp: ld_device_open_verified_fd_def ld_device_matches_identity_def split: if_splits)
  qed
qed

subsection \<open>Properties of identities\<close>

lemma append_sep_inject:
  assumes "x \<notin> set a" and "x \<notin> set b" and "a @ x # s = b @ x # t"
  shows "a = b \<and> s = t"
  using assms by (induction a arbitrary: b) (auto simp: Cons_eq_append_conv)

lemma file_identity_inject:
  "\<not> dv_is_block d \<Longrightarrow> \<not> dv_is_block d' \<Longrightarrow>
   identity_text C V d = identity_text C' V' d' \<longleftrightarrow>
   dv_host_device d = dv_host_device d' \<and> dv_inode d = dv_inode d'"
  using append_sep_inject [of "CHR '':''" "show_u64 (dev_value (dv_host_device d))"
      "show_u64 (dev_value (dv_host_device d'))" "show_u64 (dv_inode d)" "show_u64 (dv_inode d')"]
  by (auto simp: identity_text_def show_nat_no_colon word_unat_eq_iff [symmetric])

lemma length_show_u64: "length (show_u64 w) \<le> 20"
proof -
  have "n < 10 ^ k \<Longrightarrow> 0 < k \<Longrightarrow> length (show_nat n) \<le> k" for n k
  proof (induction n arbitrary: k rule: show_nat.induct)
    case (1 n)
    show ?case
    proof (cases "n < 10")
      case True
      then show ?thesis using 1(3) by (subst show_nat.simps) simp
    next
      case False
      have "k \<noteq> 1" using 1(2) False by auto
      with 1(3) obtain m where m: "k = Suc m" "0 < m" by (cases k) auto
      with 1(2) have "n div 10 < 10 ^ m" by (simp add: less_mult_imp_div_less mult.commute)
      with 1(1) [OF False this m(2)] False m show ?thesis by (subst show_nat.simps) simp
    qed
  qed
  moreover have "unat w < 10 ^ 20" using unat_lt64_num [of w] by (simp del: unat_lt64_num)
  ultimately show ?thesis by simp
qed

lemma file_identity_fits: "\<not> dv_is_block d \<Longrightarrow> fits IDENTITY_BYTES (identity_text C V d)"
  using length_show_u64 [of "dev_value (dv_host_device d)"] length_show_u64 [of "dv_inode d"]
  by (simp add: identity_text_def fits_def IDENTITY_BYTES_def PATH_MAX_def)

text \<open>
  The identity recorded for an image file matches an open image exactly when both are the
  same inode of the same file system, and the capacity agrees when one is recorded.
\<close>
theorem file_identity_exact:
  assumes "\<not> dv_is_block d" and "\<not> dv_is_block d'" and "0 \<le> dv_fd d" and "0 \<le> dv_fd d'"
    and "ld_device_format_identity C V (Some d) IDENTITY_BYTES = Inr identity"
  shows "ld_device_matches_identity C V' F (Some d') (Some identity) bytes \<longleftrightarrow>
    dv_host_device d' = dv_host_device d \<and> dv_inode d' = dv_inode d \<and> (bytes = 0 \<or> dv_size_bytes d' = bytes)"
proof -
  have "identity = identity_text C V d"
    using assms by (auto simp: ld_device_format_identity_def split: if_splits)
  then have "ld_device_format_identity C V' (Some d') IDENTITY_BYTES = Inr identity \<longleftrightarrow>
      dv_host_device d' = dv_host_device d \<and> dv_inode d' = dv_inode d"
    using assms(1-4) file_identity_fits [of d' C V'] file_identity_inject [of d' d C V' C V]
    by (auto simp: ld_device_format_identity_def IDENTITY_BYTES_def)
  with assms(2,4) show ?thesis by (auto simp: ld_device_matches_identity_def)
qed

lemma demo_identity:
  "ld_device_format_identity demo_common idle_host (Some (demo_device w)) IDENTITY_BYTES = Inr ''file:2050:77''"
  by (simp add: ld_device_format_identity_def demo_device_def identity_text_def IDENTITY_BYTES_def PATH_MAX_def
      fits_def dev_value_def major_def minor_def show_nat_eval)

theorem file_identity_exact_witness:
  "ld_device_matches_identity demo_common idle_host demo_fds (Some (demo_device True)) (Some ''file:2050:77'') 1000"
  using file_identity_exact [OF _ _ _ _ demo_identity [of True], where d' = "demo_device True" and V' = idle_host
      and F = demo_fds and bytes = 1000]
  by (simp add: demo_device_def)

theorem open_verified_binding_witness:
  "ld_device_open_verified_fd demo_common demo_run idle_host demo_fds (Some ''/img'') False (Some ''file:2050:77'') 1000
     = Return (Inr 5, [Fd_open ''/img'' (open_mode False False) 5]) \<and>
   ld_device_matches_identity demo_common idle_host demo_fds (Some (demo_device False)) (Some ''file:2050:77'') 1000"
proof -
  have m: "ld_device_matches_identity demo_common idle_host demo_fds (Some (demo_device False)) (Some ''file:2050:77'') 1000"
    using demo_identity [of False] by (simp add: ld_device_matches_identity_def demo_device_def)
  have run: "ld_device_open_verified_fd demo_common demo_run idle_host demo_fds (Some ''/img'') False (Some ''file:2050:77'') 1000
     = Return (Inr 5, [Fd_open ''/img'' (open_mode False False) 5])"
    by (simp add: ld_device_open_verified_fd_def demo_open m) (simp add: demo_device_def)
  from open_verified_binding [OF run] run show ?thesis by (auto simp: demo_open)
qed

subsection \<open>Cards\<close>

text \<open>What a view says about the card behind a device: its CID, the partition start and its bytes.\<close>

definition card_reading :: "common \<Rightarrow> host_view \<Rightarrow> LdDevice \<Rightarrow> (string \<times> u64 \<times> u64) option" where
  "card_reading C V d =
     (case ld_resolve_sysfs_device V (dv_device_number d) PATH_MAX of
        Inl _ \<Rightarrow> None
      | Inr sysfs \<Rightarrow>
          (case (ld_mmc_cid_from_sysfs C V sysfs 96, ld_sysfs_size_bytes V sysfs) of
             (Some cid, Some n) \<Rightarrow> Some (cid, start_sectors V sysfs, n)
           | _ \<Rightarrow> None))"

definition card_identity :: "string \<times> u64 \<times> u64 \<Rightarrow> string" where
  "card_identity r = (case r of (cid, start, n) \<Rightarrow>
     ''block-hw:mmc-cid:'' @ cid @ ''||'' @ show_u64 start @ ''|'' @ show_u64 n)"

lemma cid_shape: "ld_mmc_cid_from_sysfs C V sysfs n = Some cid \<Longrightarrow> length cid = 32 \<and> list_all is_hex cid"
  by (auto simp: ld_mmc_cid_from_sysfs_def Let_def split: if_splits option.splits)

lemma card_reading_shape: "card_reading C V d = Some (cid, r) \<Longrightarrow> length cid = 32 \<and> list_all is_hex cid"
  by (auto simp: card_reading_def split: sum.splits option.splits dest: cid_shape)

lemma show_nat_no_bar: "CHR ''|'' \<notin> set (show_nat n)"
  using show_nat_digits [of n] by (auto simp: is_digit_def)

lemma card_identity_inject:
  assumes "length cid = 32" and "length cid' = 32" and "card_identity (cid, s, n) = card_identity (cid', s', n')"
  shows "(cid, s, n) = (cid', s', n')"
proof -
  have eq: "cid = cid'" "show_u64 s @ CHR ''|'' # show_u64 n = show_u64 s' @ CHR ''|'' # show_u64 n'"
    using assms by (simp_all add: card_identity_def)
  with append_sep_inject [OF show_nat_no_bar show_nat_no_bar eq(2)] show ?thesis
    by (simp add: word_unat_eq_iff [symmetric])
qed

lemma starts_with_disjoint:
  assumes "starts_with s ''block-hw:mmc-cid:''"
  shows "\<not> starts_with s ''block:''"
proof -
  obtain t where "s = ''block-hw:mmc-cid:'' @ t" using starts_withD [OF assms] by blast
  then show ?thesis by (simp add: starts_with_def)
qed

lemma mmc_match_reading:
  assumes "string_starts_with C = starts_with" and "dv_is_block d" and "starts_with expected ''block-hw:mmc-cid:''"
    and "ld_device_matches_identity C V F (Some d) (Some expected) bytes"
  obtains r opened where "card_reading C V d = Some r" "expected = card_identity r"
    "fstat_fd F (dv_fd d) = Inr opened" "S_ISBLK (st_mode opened)" "st_rdev opened = dv_device_number d"
    "blkgetsize64 F (dv_fd d) = Inr (dv_size_bytes d)"
proof -
  have "mmc_revalidates C V F d expected"
    using assms starts_with_disjoint [OF assms(3)]
    by (auto simp: ld_device_matches_identity_def ld_legacy_block_identity_matches_def split: if_splits)
  then show thesis
    using that
    by (auto simp: mmc_revalidates_def ld_mmc_identity_from_sysfs_def card_reading_def card_identity_def
        ld_fd_size_bytes_def Let_def mode_kinds_disjoint split: sum.splits option.splits if_splits)
qed

text \<open>
  A recorded memory-card identity is revalidated fail-closed: it matches only while the
  open descriptor is the same block device with the recorded capacity and sysfs reports a
  full 128-bit card identifier, never through a weaker alias or a device number; and two
  matches of one recorded identity, at any two times and for any two descriptors, saw the
  same card identifier, partition start and size. Common's prefix test is assumed exact.
\<close>
theorem mmc_binding_fail_closed:
  assumes "string_starts_with C = starts_with" and "starts_with expected ''block-hw:mmc-cid:''"
    and "dv_is_block d" and "ld_device_matches_identity C V F (Some d) (Some expected) bytes"
    and "dv_is_block d'" and "ld_device_matches_identity C V' F' (Some d') (Some expected) bytes'"
  shows "(\<exists>opened. fstat_fd F (dv_fd d) = Inr opened \<and> S_ISBLK (st_mode opened) \<and>
            st_rdev opened = dv_device_number d \<and> blkgetsize64 F (dv_fd d) = Inr (dv_size_bytes d)) \<and>
         (\<exists>cid start n. card_reading C V d = Some (cid, start, n) \<and> card_reading C V' d' = Some (cid, start, n) \<and>
            length cid = 32 \<and> list_all is_hex cid \<and> expected = card_identity (cid, start, n))"
proof -
  obtain r opened where 1: "card_reading C V d = Some r" "expected = card_identity r"
    "fstat_fd F (dv_fd d) = Inr opened" "S_ISBLK (st_mode opened)" "st_rdev opened = dv_device_number d"
    "blkgetsize64 F (dv_fd d) = Inr (dv_size_bytes d)"
    using mmc_match_reading [OF assms(1,3,2,4)] by blast
  obtain r' where 2: "card_reading C V' d' = Some r'" "expected = card_identity r'"
    using mmc_match_reading [OF assms(1,5,2,6)] by blast
  obtain cid s n cid' s' n' where r: "r = (cid, s, n)" "r' = (cid', s', n')" by (metis surj_pair)
  have l: "length cid = 32 \<and> list_all is_hex cid" "length cid' = 32"
    using card_reading_shape 1(1) 2(1) r by blast+
  have "(cid, s, n) = (cid', s', n')"
    using card_identity_inject [of cid cid' s n s' n'] l 1(2) 2(2) r by simp
  with 1 2 r l show ?thesis by auto
qed

definition card_host :: host_view where
  "card_host = demo_view\<lparr>
     realpath_copy := \<lambda>p n. Inr ''/S/mmcblk0/mmcblk0p1'',
     stat_path := \<lambda>p. if p = ''/S/mmcblk0/mmcblk0p1/partition'' then Inr demo_node else Inl ENOENT,
     read_text_file := \<lambda>p n. if p = ''/S/mmcblk0/device/cid'' then Inr (replicate 32 (CHR ''a'') @ [CHR 0x0A]) else Inl ENOENT,
     read_u64_file := \<lambda>p. if p = ''/S/mmcblk0/mmcblk0p1/size'' then Some 8 else
       if p = ''/S/mmcblk0/mmcblk0p1/start'' then Some 2048 else None\<rparr>"

definition card_device :: LdDevice where
  "card_device = \<lparr>dv_fd = 5, dv_path = None, dv_writable = True, dv_is_block = True, dv_size_bytes = 4096,
     dv_device_number = (8, 1), dv_host_device = (0, 6), dv_inode = 9\<rparr>"

definition card_fds :: fd_view where
  "card_fds = \<lparr>fstat_fd = \<lambda>fd. Inr demo_node, blkgetsize64 = \<lambda>fd. Inr 4096\<rparr>"

lemma card_reading_demo: "card_reading demo_common card_host card_device = Some (replicate 32 (CHR ''a''), 2048, 4096)"
proof -
  have "takeWhile (\<lambda>c. c \<noteq> CHR 0x0D \<and> c \<noteq> CHR 0x0A) (replicate 32 (CHR ''a'') @ [CHR 0x0A]) = replicate 32 (CHR ''a'')"
    by (subst takeWhile_append2) auto
  moreover have "is_hex (CHR ''a'')" by (simp add: is_hex_def of_char_def)
  ultimately show ?thesis
    by (simp add: card_reading_def ld_resolve_sysfs_device_def fits_def PATH_MAX_def demo_links card_device_def card_host_def
        demo_view_def ld_mmc_cid_from_sysfs_def mmc_card_def ld_sysfs_is_partition_def strrchr_def demo_common_def
        starts_with_def ld_sysfs_text_def ld_sysfs_size_bytes_def start_sectors_def list_all_iff word_less_nat_alt
        unat_div Let_def)
qed

lemma card_match:
  "ld_device_matches_identity demo_common card_host card_fds (Some card_device)
     (Some (card_identity (replicate 32 (CHR ''a''), 2048, 4096))) 4096"
proof -
  let ?id = "card_identity (replicate 32 (CHR ''a''), 2048, 4096)"
  have start: "starts_with ?id ''block-hw:mmc-cid:''" by (simp add: card_identity_def starts_with_def)
  have "length ?id < 256"
    using length_show_u64 [of 2048] length_show_u64 [of 4096] by (simp add: card_identity_def)
  moreover obtain sysfs where s: "ld_resolve_sysfs_device card_host (8, 1) PATH_MAX = Inr sysfs"
    "sysfs = ''/S/mmcblk0/mmcblk0p1''"
    by (simp add: ld_resolve_sysfs_device_def demo_links fits_def PATH_MAX_def card_host_def)
  moreover from s card_reading_demo have "ld_mmc_cid_from_sysfs demo_common card_host sysfs 96 = Some (replicate 32 (CHR ''a''))"
    "ld_sysfs_size_bytes card_host sysfs = Some 4096" "start_sectors card_host sysfs = 2048"
    by (auto simp: card_reading_def card_device_def split: option.splits)
  ultimately have "ld_mmc_identity_from_sysfs demo_common card_host sysfs 256 = Some ?id"
    by (simp add: ld_mmc_identity_from_sysfs_def card_identity_def fits_def PATH_MAX_def)
  with s start show ?thesis
    by (simp add: ld_device_matches_identity_def mmc_revalidates_def card_device_def card_fds_def demo_node_def
        demo_common_def S_ISBLK_def S_ISREG_def S_IFMT_def ld_fd_size_bytes_def)
qed

theorem mmc_binding_fail_closed_witness:
  "\<exists>cid start n. card_reading demo_common card_host card_device = Some (cid, start, n) \<and> length cid = 32"
  using mmc_binding_fail_closed [of demo_common "card_identity (replicate 32 (CHR ''a''), 2048, 4096)" card_device
      card_host card_fds 4096 card_device card_host card_fds 4096] card_match
  by (auto simp: card_device_def demo_common_def card_identity_def starts_with_def)

end
