(* ===== verification/Module_Host.thy ===== *)
theory Module_Host
  imports Device Paths Layout
begin

text \<open>
  The child-process module host of \<open>native/filesystem_module_host.c\<close> in its production build:
  the target callbacks a filesystem module receives, the private files, discovery and
  loading of trusted modules, and the dispatch of one command. A module is code that is not
  part of these sources: what it exports is a parameter, and so is the structure it passes
  back to a callback, which it may have changed.
\<close>

subsection \<open>Targets\<close>

definition TARGET_IDENTITY_REFRESH_WRITES :: u32 where "TARGET_IDENTITY_REFRESH_WRITES = 128"

definition IFS_DEFRAG_PATH_BYTES :: nat where "IFS_DEFRAG_PATH_BYTES = 4096"

definition IFS_DEFRAG_ID_BYTES :: nat where "IFS_DEFRAG_ID_BYTES = 512"

record Target =
  tg_device :: LdDevice
  tg_stage :: bool
  tg_writes :: u32 \<comment> \<open>\<open>writes_since_identity_refresh\<close>\<close>
  tg_bound_identity :: string

record IfsDefragTarget =
  dt_bytes :: u64
  dt_path :: string
  dt_identity :: string

text \<open>
  What the host sees during one callback: the device topology and the open descriptors. The
  handle inside \<open>IfsDefragTarget\<close> is passed separately, as the host's own structure it
  points to.
\<close>

record host_moment =
  hm_view :: host_view
  hm_fds :: fd_view

datatype io_event =
    Refreshed int \<comment> \<open>the full identity was compared and matched\<close>
  | Wrote int u64 u64 \<comment> \<open>descriptor, offset, bytes of a completed write\<close>
  | Synced int

definition wrap_target :: "common \<Rightarrow> host_moment \<Rightarrow> Target \<Rightarrow> (Target \<times> IfsDefragTarget) option" where
  "wrap_target C M t =
     (let path = or_empty (dv_path (tg_device t))
      in if \<not> fits IFS_DEFRAG_PATH_BYTES path then None
         else case ld_device_format_identity C (hm_view M) (Some (tg_device t)) IFS_DEFRAG_ID_BYTES of
                Inl _ \<Rightarrow> None
              | Inr identity \<Rightarrow>
                  Some (t\<lparr>tg_bound_identity := identity\<rparr>,
                        \<lparr>dt_bytes = dv_size_bytes (tg_device t), dt_path = path, dt_identity = identity\<rparr>))"

definition target_fd_matches_binding :: "host_moment \<Rightarrow> Target option \<Rightarrow> IfsDefragTarget \<Rightarrow> bool" where
  "target_fd_matches_binding M t out =
     (case t of
        None \<Rightarrow> False
      | Some t \<Rightarrow>
          let d = tg_device t
          in if dv_fd d < 0 \<or> dt_bytes out \<noteq> dv_size_bytes d \<or> dt_identity out \<noteq> tg_bound_identity t then False
             else case fstat_fd (hm_fds M) (dv_fd d) of
                    Inl _ \<Rightarrow> False
                  | Inr opened \<Rightarrow>
                      st_mode opened AND S_IFMT = (if dv_is_block d then 0x6000 else 0x8000) \<and>
                      st_dev opened = dv_host_device d \<and> st_ino opened = dv_inode d \<and>
                      (\<not> dv_is_block d \<or> st_rdev opened = dv_device_number d))"

text \<open>
  \<open>lock_answer\<close> is the outcome of \<open>flock\<close> for the descriptor and the exclusive flag. The
  result is the new handle and structure, with the descriptors opened and closed.
\<close>

definition target_open ::
  "common \<Rightarrow> open_run \<Rightarrow> host_moment \<Rightarrow> (int \<Rightarrow> bool \<Rightarrow> errno option) \<Rightarrow> bool \<Rightarrow> path option \<Rightarrow> bool \<Rightarrow>
   string option \<Rightarrow> u64 \<Rightarrow> ((Target \<times> IfsDefragTarget) result \<times> fd_event list) proc" where
  "target_open C R M lock_answer calloc_ok path write identity bytes =
     (if \<not> calloc_ok then Return (Inl (Errno_other 12), [])
      else case ld_device_try_open C R path write of
        Exit_failure t \<Rightarrow> Exit_failure t
      | Return (Inl e, evs) \<Rightarrow> Return (Inl e, evs)
      | Return (Inr d, evs) \<Rightarrow>
          let closed = evs @ [Fd_close (dv_fd d)]
          in if (identity \<noteq> None \<and> \<not> ld_device_matches_identity C (hm_view M) (hm_fds M) (Some d) identity bytes) \<or>
                (bytes \<noteq> 0 \<and> bytes \<noteq> dv_size_bytes d)
             then Return (Inl ESTALE, closed)
             else case lock_answer (dv_fd d) write of
               Some e \<Rightarrow> Return (Inl e, closed)
             | None \<Rightarrow>
                 (case wrap_target C M \<lparr>tg_device = d, tg_stage = False, tg_writes = 0, tg_bound_identity = []\<rparr> of
                    None \<Rightarrow> Return (Inl EINVAL, closed)
                  | Some w \<Rightarrow> Return (Inr w, evs)))"

definition target_close ::
  "common \<Rightarrow> (int \<Rightarrow> errno option) \<Rightarrow> Target option \<Rightarrow> IfsDefragTarget \<times> fd_event list \<times> string" where
  "target_close C close_answer t =
     (let blank = \<lparr>dt_bytes = 0, dt_path = [], dt_identity = []\<rparr>
      in case t of
           None \<Rightarrow> (blank, [], [])
         | Some t \<Rightarrow> (blank, snd (ld_device_close C close_answer (tg_device t))))"

definition target_read ::
  "pread_fun \<Rightarrow> Target option \<Rightarrow> IfsDefragTarget \<Rightarrow> u64 \<Rightarrow> u32 \<Rightarrow> u8 list option" where
  "target_read pread t out at bytes =
     (case t of
        None \<Rightarrow> None
      | Some t \<Rightarrow>
          if at > dt_bytes out \<or> ucast bytes > dt_bytes out - at then None
          else case ld_pread_full pread (dv_fd (tg_device t)) (ucast bytes) at of
                 Inl _ \<Rightarrow> None
               | Inr (got, data) \<Rightarrow> if got = int (unat bytes) then Some data else None)"

text \<open>\<open>'s\<close> is the storage behind the descriptors; the result is the success flag, the handle, storage and events.\<close>

definition target_write ::
  "common \<Rightarrow> host_moment \<Rightarrow> 's pwrite_fun \<Rightarrow> Target option \<Rightarrow> IfsDefragTarget \<Rightarrow> u64 \<Rightarrow> u8 list \<Rightarrow> u32 \<Rightarrow> 's \<Rightarrow>
   bool \<times> Target option \<times> 's \<times> io_event list" where
  "target_write C M pwrite t out at data bytes s =
     (case t of
        None \<Rightarrow> (False, None, s, [])
      | Some t \<Rightarrow>
          if \<not> dv_writable (tg_device t) \<or> \<not> target_fd_matches_binding M (Some t) out \<or>
             at > dt_bytes out \<or> ucast bytes > dt_bytes out - at
          then (False, Some t, s, [])
          else let refresh = tg_writes t \<ge> TARGET_IDENTITY_REFRESH_WRITES;
                   fd = dv_fd (tg_device t)
            in if refresh \<and> \<not> ld_device_matches_identity C (hm_view M) (hm_fds M) (Some (tg_device t))
                               (Some (tg_bound_identity t)) (dv_size_bytes (tg_device t))
               then (False, Some t, s, [])
               else let t = (if refresh then t\<lparr>tg_writes := 0\<rparr> else t);
                        evs = (if refresh then [Refreshed fd] else [])
                 in case ld_pwrite_full pwrite fd data (ucast bytes) at s of
                      (r, s') \<Rightarrow>
                        if r = Inr (int (unat bytes))
                        then (True, Some (t\<lparr>tg_writes := tg_writes t + 1\<rparr>), s', evs @ [Wrote fd at (ucast bytes)])
                        else (False, Some t, s', evs))"

text \<open>\<open>sync_ok\<close> is the outcome of \<open>ld_sync_fd\<close> on the descriptor.\<close>

definition target_sync ::
  "common \<Rightarrow> host_moment \<Rightarrow> (int \<Rightarrow> bool) \<Rightarrow> Target option \<Rightarrow> IfsDefragTarget \<Rightarrow> bool \<times> Target option \<times> io_event list" where
  "target_sync C M sync_ok t out =
     (case t of
        None \<Rightarrow> (False, None, [])
      | Some t \<Rightarrow>
          let fd = dv_fd (tg_device t)
          in if \<not> target_fd_matches_binding M (Some t) out \<or>
                \<not> ld_device_matches_identity C (hm_view M) (hm_fds M) (Some (tg_device t))
                     (Some (tg_bound_identity t)) (dv_size_bytes (tg_device t))
             then (False, Some t, [])
             else if \<not> sync_ok fd then (False, Some t, [Refreshed fd])
             else (True, Some (t\<lparr>tg_writes := 0\<rparr>), [Refreshed fd, Synced fd]))"

subsection \<open>Staging and private files\<close>

text \<open>\<open>parents\<close>: the trusted directory walk on the parent of a path.\<close>

definition parents ::
  "common \<Rightarrow> (string \<Rightarrow> string result) \<Rightarrow> dir_kernel \<Rightarrow> u32 \<Rightarrow> path \<Rightarrow> bool proc \<times> dir_event list" where
  "parents C strdup K euid path =
     (case ld_path_parent_directory (program_name C) (strerror C) strdup path of
        Exit_failure t \<Rightarrow> (Exit_failure t, [])
      | Return parent \<Rightarrow>
          (case ld_path_ensure_trusted_directory_tree (program_name C) (strerror C) strdup K euid (Some parent) of
             (Exit_failure t, h) \<Rightarrow> (Exit_failure t, h)
           | (Return r, h) \<Rightarrow> (Return (r = Inr ()), h)))"

definition owner :: u32 where "owner = 0"

text \<open>An opened object is known by its \<open>fstat\<close> result, \<open>None\<close> when that fails.\<close>

definition trusted :: "file_stat option \<Rightarrow> bool \<Rightarrow> bool" where
  "trusted status directory =
     (case status of
        None \<Rightarrow> False
      | Some st \<Rightarrow> (if directory then S_ISDIR (st_mode st) else S_ISREG (st_mode st)) \<and>
                   st_uid st = owner \<and> st_mode st AND 0x12 = 0)"

definition INT64_MAX :: u64 where "INT64_MAX = 0x7FFFFFFFFFFFFFFF"

text \<open>
  The steps of \<open>stage_create\<close>. \<open>create_ok\<close> and \<open>extend_ok\<close> are the outcomes of the exclusive
  creation and of \<open>ftruncate\<close> with \<open>fsync\<close>; \<open>reopen\<close> is the result of the writable target
  open on the new file.
\<close>

datatype stage_event = Stage_checked path u64 | Stage_created path | Stage_unlinked path | Stage_opened path

definition stage_create ::
  "bool proc \<Rightarrow> (path \<Rightarrow> u64 \<Rightarrow> unit result proc) \<Rightarrow> bool \<Rightarrow> bool \<Rightarrow>
   ((Target \<times> IfsDefragTarget) result \<times> fd_event list) proc \<Rightarrow>
   path \<Rightarrow> u64 \<Rightarrow> ((Target \<times> IfsDefragTarget) option \<times> stage_event list) proc" where
  "stage_create parents_ok capacity create_ok extend_ok reopen path bytes =
     (if bytes > INT64_MAX then Return (None, [])
      else case parents_ok of
        Exit_failure t \<Rightarrow> Exit_failure t
      | Return False \<Rightarrow> Return (None, [])
      | Return True \<Rightarrow>
          (case capacity path bytes of
             Exit_failure t \<Rightarrow> Exit_failure t
           | Return (Inl _) \<Rightarrow> Return (None, [])
           | Return (Inr _) \<Rightarrow>
               if \<not> create_ok then Return (None, [Stage_checked path bytes])
               else if \<not> extend_ok
               then Return (None, [Stage_checked path bytes, Stage_created path, Stage_unlinked path])
               else case reopen of
                 Exit_failure t \<Rightarrow> Exit_failure t
               | Return (Inl _, _) \<Rightarrow> Return (None, [Stage_checked path bytes, Stage_created path, Stage_unlinked path])
               | Return (Inr (t, out), _) \<Rightarrow>
                   Return (Some (t\<lparr>tg_stage := True\<rparr>, out),
                           [Stage_checked path bytes, Stage_created path, Stage_opened path])))"

text \<open>\<open>lstat_answer\<close>: \<open>Inr\<close> when the path exists. The codes are 1, 0 and -1.\<close>

definition file_exists :: "unit result \<Rightarrow> int" where
  "file_exists lstat_answer = (case lstat_answer of Inr _ \<Rightarrow> 1 | Inl e \<Rightarrow> if e = ENOENT then 0 else -1)"

text \<open>
  \<open>opened\<close> is the file opened without following links: its status as the trust test and as
  the second \<open>fstat\<close> see it. The result is the bytes read.
\<close>

definition file_read ::
  "bool proc \<Rightarrow> (file_stat option \<times> file_stat option) option \<Rightarrow> pread_fun \<Rightarrow> int \<Rightarrow> u32 \<Rightarrow> u8 list option proc" where
  "file_read parents_ok opened pread fd cap =
     (case parents_ok of
        Exit_failure t \<Rightarrow> Exit_failure t
      | Return False \<Rightarrow> Return None
      | Return True \<Rightarrow> Return
          (case opened of
             None \<Rightarrow> None
           | Some (checked, again) \<Rightarrow>
               if \<not> trusted checked False then None
               else case again of
                 None \<Rightarrow> None
               | Some st \<Rightarrow>
                   if st_size st < 0 \<or> (word_of_int (st_size st) :: u64) > ucast cap then None
                   else case ld_pread_full pread fd (word_of_int (st_size st)) 0 of
                          Inl _ \<Rightarrow> None
                        | Inr (got, data) \<Rightarrow> if got = st_size st then Some data else None))"

text \<open>\<open>atomic_write\<close> is Common's atomic file replacement, \<open>True\<close> on success.\<close>

definition file_atomic :: "bool proc \<Rightarrow> (path \<Rightarrow> u8 list \<Rightarrow> bool) \<Rightarrow> path \<Rightarrow> u8 list \<Rightarrow> bool proc" where
  "file_atomic parents_ok atomic_write path data =
     (case parents_ok of
        Exit_failure t \<Rightarrow> Exit_failure t
      | Return False \<Rightarrow> Return False
      | Return True \<Rightarrow> Return (atomic_write path data))"

definition file_remove :: "(path \<Rightarrow> bool) \<Rightarrow> path \<Rightarrow> bool" where
  "file_remove unlink_durable path = unlink_durable path"

text \<open>\<open>content\<close> is what \<open>read\<close> delivers of the opened journal, at most 63 bytes.\<close>

definition ifs_filesystem_journal_matches :: "string option \<Rightarrow> string option \<Rightarrow> (path \<Rightarrow> string option) \<Rightarrow> bool" where
  "ifs_filesystem_journal_matches path format content =
     (case (path, format) of
        (Some path, Some format) \<Rightarrow>
          (case content path of
             None \<Rightarrow> False
           | Some text \<Rightarrow>
               let first = take 63 text; expected = ''IFS-DEFRAG-JOURNAL:1:'' @ format @ [CHR 0x0A]
               in length first \<ge> length expected \<and> length expected < 64 \<and> take (length expected) first = expected)
      | _ \<Rightarrow> False)"

subsection \<open>Modules\<close>

definition IFS_DEFRAG_ABI_V2 :: u32 where "IFS_DEFRAG_ABI_V2 = 2"

definition IFS_DEFRAG_ANALYSE :: u64 where "IFS_DEFRAG_ANALYSE = 1"
definition IFS_DEFRAG_RELAYOUT :: u64 where "IFS_DEFRAG_RELAYOUT = 2"
definition IFS_DEFRAG_GROWTH :: u64 where "IFS_DEFRAG_GROWTH = 4"
definition IFS_DEFRAG_RECOVER :: u64 where "IFS_DEFRAG_RECOVER = 8"

definition all_capabilities :: u64 where
  "all_capabilities = IFS_DEFRAG_ANALYSE OR IFS_DEFRAG_RELAYOUT OR IFS_DEFRAG_GROWTH OR IFS_DEFRAG_RECOVER"

text \<open>\<open>sizeof (IfsDefragModuleV2)\<close> with 64-bit pointers.\<close>

definition MODULE_V2_BYTES :: u32 where "MODULE_V2_BYTES = 32"

record module_api =
  ma_abi_version :: u32
  ma_structure_bytes :: u32
  ma_format_id :: "string option"
  ma_capabilities :: u64
  ma_run :: "(string list \<Rightarrow> int) option"

text \<open>
  A loaded image: the table its defrag entry point returns (\<open>None\<close> when the symbol is
  missing or returns null) and the symbols of other interfaces.
\<close>

record 'sym module_image =
  mi_defrag_v2 :: "module_api option"
  mi_symbol :: "string \<Rightarrow> 'sym option"

record 'sym module_store =
  ms_system :: "file_stat option option" \<comment> \<open>\<open>None\<close>: \<open>/System\<close> could not be opened\<close>
  ms_filesystems :: "file_stat option option"
  ms_entries :: "string list option" \<comment> \<open>\<open>None\<close>: \<open>fdopendir\<close> failed\<close>
  ms_open :: "string \<Rightarrow> file_stat option option"
  ms_dlopen :: "string \<Rightarrow> 'sym module_image option"

definition opened_trusted :: "file_stat option option \<Rightarrow> bool \<Rightarrow> bool" where
  "opened_trusted opened directory = (case opened of None \<Rightarrow> False | Some st \<Rightarrow> trusted st directory)"

definition ifs_open_module_directory :: "'sym module_store \<Rightarrow> bool" where
  "ifs_open_module_directory S \<longleftrightarrow> opened_trusted (ms_system S) True \<and> opened_trusted (ms_filesystems S) True"

definition char_in :: "nat \<Rightarrow> nat \<Rightarrow> char \<Rightarrow> bool" where
  "char_in lo hi c \<longleftrightarrow> lo \<le> (of_char c :: nat) \<and> (of_char c :: nat) \<le> hi"

definition filename_char :: "char \<Rightarrow> bool" where
  "filename_char c \<longleftrightarrow> char_in 97 122 c \<or> char_in 65 90 c \<or> char_in 48 57 c \<or>
     c = CHR ''_'' \<or> c = CHR ''-'' \<or> c = CHR ''.''"

definition ifs_safe_module_filename :: "string \<Rightarrow> bool" where
  "ifs_safe_module_filename name \<longleftrightarrow>
     4 \<le> length name \<and> length name \<le> 59 \<and> drop (length name - 3) name = ''.so'' \<and> list_all filename_char name"

definition format_char :: "char \<Rightarrow> bool" where
  "format_char c \<longleftrightarrow> char_in 97 122 c \<or> char_in 48 57 c \<or> c = CHR ''_''"

definition valid_format :: "string \<Rightarrow> bool" where
  "valid_format format \<longleftrightarrow> 0 < length format \<and> length format \<le> 15 \<and> list_all format_char format"

definition provider_table :: "module_api \<Rightarrow> bool" where
  "provider_table api \<longleftrightarrow> ma_abi_version api = IFS_DEFRAG_ABI_V2 \<and> ma_structure_bytes api \<ge> MODULE_V2_BYTES \<and>
     ma_format_id api \<noteq> None \<and> ma_run api \<noteq> None \<and> ma_capabilities api AND all_capabilities \<noteq> 0"

definition ifs_probe_module_v2 :: "'sym module_store \<Rightarrow> string \<Rightarrow> (string \<times> u64) option" where
  "ifs_probe_module_v2 S name =
     (if \<not> ifs_safe_module_filename name then None
      else if \<not> opened_trusted (ms_open S name) False then None
      else case ms_dlopen S name of
        None \<Rightarrow> None
      | Some img \<Rightarrow>
          (case mi_defrag_v2 img of
             None \<Rightarrow> None
           | Some api \<Rightarrow>
               (case ma_format_id api of
                  None \<Rightarrow> None
                | Some format \<Rightarrow>
                    if provider_table api \<and> valid_format format then Some (format, ma_capabilities api) else None)))"

definition module_json :: "string \<Rightarrow> string \<Rightarrow> u64 \<Rightarrow> string" where
  "module_json format name capabilities =
     ''{\"format_id\":\"'' @ format @ ''\",\"filename\":\"'' @ name @ ''\",\"capabilities\":'' @ show_u64 capabilities @ ''}''"

fun list_entries :: "'sym module_store \<Rightarrow> string list \<Rightarrow> bool \<Rightarrow> string" where
  "list_entries S [] first = []"
| "list_entries S (name # names) first =
     (case ifs_probe_module_v2 S name of
        None \<Rightarrow> list_entries S names first
      | Some (format, capabilities) \<Rightarrow>
          (if first then [] else '','') @ module_json format name capabilities @ list_entries S names False)"

text \<open>The exit code and the text written to standard output.\<close>

definition ifs_filesystem_module_list_v2 :: "'sym module_store \<Rightarrow> bool \<Rightarrow> int \<times> string" where
  "ifs_filesystem_module_list_v2 S stdout_error =
     (if \<not> ifs_open_module_directory S then (0, ''{\"schema\":1,\"modules\":[]}\<newline>'')
      else case ms_entries S of
        None \<Rightarrow> (1, [])
      | Some names \<Rightarrow>
          (if stdout_error then 1 else 0,
           ''{\"schema\":1,\"modules\":['' @ list_entries S names True @ '']}\<newline>''))"

text \<open>The loop of the resolver: the name selected so far and the number of matches.\<close>

fun find_loop :: "'sym module_store \<Rightarrow> string \<Rightarrow> string list \<Rightarrow> string \<Rightarrow> nat \<Rightarrow> string \<times> nat" where
  "find_loop S format [] selected matches = (selected, matches)"
| "find_loop S format (name # names) selected matches =
     (case ifs_probe_module_v2 S name of
        None \<Rightarrow> find_loop S format names selected matches
      | Some (discovered, _) \<Rightarrow>
          if discovered \<noteq> format then find_loop S format names selected matches
          else if Suc matches \<noteq> 1 then (selected, Suc matches)
          else if length name = 0 \<or> length name \<ge> 64 then (selected, 2)
          else find_loop S format names name (Suc matches))"

definition ifs_filesystem_module_find_v2 ::
  "'sym module_store \<Rightarrow> string option \<Rightarrow> bool \<Rightarrow> nat \<Rightarrow> string option" where
  "ifs_filesystem_module_find_v2 S format filename_given capacity =
     (case format of
        None \<Rightarrow> None
      | Some format \<Rightarrow>
          if \<not> filename_given \<or> capacity = 0 \<or> \<not> valid_format format then None
          else if \<not> ifs_open_module_directory S then None
          else case ms_entries S of
            None \<Rightarrow> None
          | Some names \<Rightarrow>
              (case find_loop S format names [] 0 of
                 (selected, matches) \<Rightarrow>
                   if matches \<noteq> 1 \<or> length selected = 0 \<or> length selected + 1 > capacity then None
                   else Some selected))"

subsection \<open>Dispatch\<close>

datatype 'sym call_outcome =
    Bad_arguments
  | Module_missing
  | Load_failed
  | Lacks_interface
  | No_symbol
  | Called 'sym

text \<open>
  What \<open>ifs_filesystem_module_call\<close> decides before it hands the interface symbol to its
  caller's callback; every outcome but the last returns 1.
\<close>

definition ifs_filesystem_module_call ::
  "'sym module_store \<Rightarrow> string option \<Rightarrow> string option \<Rightarrow> string option \<Rightarrow> bool \<Rightarrow> 'sym call_outcome" where
  "ifs_filesystem_module_call S format filename interface call_given =
     (case (format, filename, interface) of
        (Some format, Some filename, Some interface) \<Rightarrow>
          if filename = [] \<or> \<not> call_given \<or> CHR ''/'' \<in> set filename \<or> length format > 15 then Bad_arguments
          else if \<not> opened_trusted (ms_system S) True then Module_missing
          else if \<not> opened_trusted (ms_filesystems S) True then Module_missing
          else if \<not> opened_trusted (ms_open S filename) False then Module_missing
          else (case ms_dlopen S filename of
            None \<Rightarrow> Load_failed
          | Some img \<Rightarrow>
              if interface = ''infiltrator_filesystem_defrag_v2'' \<and>
                 (case mi_defrag_v2 img of
                    None \<Rightarrow> True
                  | Some api \<Rightarrow> \<not> provider_table api \<or> ma_format_id api \<noteq> Some format)
              then Lacks_interface
              else (case mi_symbol img interface of None \<Rightarrow> No_symbol | Some symbol \<Rightarrow> Called symbol))
      | _ \<Rightarrow> Bad_arguments)"

definition required_capabilities :: "string \<Rightarrow> u64" where
  "required_capabilities operation =
     (if operation = ''defrag'' then IFS_DEFRAG_ANALYSE OR IFS_DEFRAG_RELAYOUT OR IFS_DEFRAG_RECOVER
      else if operation = ''growth-defrag'' then IFS_DEFRAG_ANALYSE OR IFS_DEFRAG_GROWTH OR IFS_DEFRAG_RECOVER
      else if operation = ''recover'' then IFS_DEFRAG_RECOVER
      else if operation = ''analyse'' \<or> operation = ''analyse-json'' \<or> operation = ''map'' then IFS_DEFRAG_ANALYSE
      else 0)"

text \<open>
  The result code and, when the module ran, the arguments it received. The entry point is
  called a second time here; a null \<open>run\<close> pointer would be undefined behaviour and is
  \<open>None\<close>.
\<close>

definition run_command :: "module_api option \<Rightarrow> string list \<Rightarrow> (int \<times> string list option) option" where
  "run_command api argv =
     (case api of
        None \<Rightarrow> Some (1, None)
      | Some api \<Rightarrow>
          if length argv < 2 then Some (1, None)
          else let required = required_capabilities (argv ! 1)
            in if required \<noteq> 0 \<and> ma_capabilities api AND required \<noteq> required then Some (1, None)
               else case ma_run api of
                      Some run \<Rightarrow> Some (run argv, Some argv)
                    | None \<Rightarrow> None)"

definition is_mutation :: "string list \<Rightarrow> bool" where
  "is_mutation argv \<longleftrightarrow> length argv \<ge> 2 \<and> argv ! 1 \<in> {''defrag'', ''growth-defrag'', ''recover''}"

text \<open>The symbol of the defrag interface is its entry point, here the table it returns.\<close>

definition ifs_filesystem_module_run ::
  "common \<Rightarrow> (stop_signal \<Rightarrow> errno option) \<Rightarrow> module_api option module_store \<Rightarrow> string option \<Rightarrow> string option \<Rightarrow>
   string list \<Rightarrow> stop_state \<Rightarrow> ((int \<times> string list option) option \<times> stop_state) proc" where
  "ifs_filesystem_module_run C sigaction S format filename argv st =
     (case (if is_mutation argv
            then (case ld_stop_install_handlers (program_name C) (strerror C) sigaction (ld_stop_clear st) of
                    Exit_failure t \<Rightarrow> Exit_failure t
                  | Return st \<Rightarrow> Return (ld_stop_report_ready st))
            else Return st) of
        Exit_failure t \<Rightarrow> Exit_failure t
      | Return st \<Rightarrow> Return
          (case ifs_filesystem_module_call S format filename (Some ''infiltrator_filesystem_defrag_v2'') True of
             Called entry \<Rightarrow> (run_command entry argv, st)
           | _ \<Rightarrow> (Some (1, None), st)))"

subsection \<open>Bounded time between identity checks\<close>

text \<open>
  The number of completed writes since the last identity check, folded over a sequence of
  events; \<open>None\<close> when a write follows \<open>limit\<close> writes that no check interrupted.
\<close>

fun tally :: "nat \<Rightarrow> nat \<Rightarrow> io_event list \<Rightarrow> nat option" where
  "tally limit n [] = Some n"
| "tally limit n (Refreshed fd # es) = tally limit 0 es"
| "tally limit n (Wrote fd at bytes # es) = (if n < limit then tally limit (Suc n) es else None)"
| "tally limit n (Synced fd # es) = tally limit n es"

fun is_write :: "io_event \<Rightarrow> bool" where
  "is_write (Wrote fd at bytes) = True"
| "is_write _ = False"

fun is_refresh :: "io_event \<Rightarrow> bool" where
  "is_refresh (Refreshed fd) = True"
| "is_refresh _ = False"

lemma tally_append:
  "tally limit n (es @ fs) = (case tally limit n es of None \<Rightarrow> None | Some m \<Rightarrow> tally limit m fs)"
  by (induction limit n es rule: tally.induct) auto

lemma tally_mono: "tally limit n es = Some k \<Longrightarrow> m \<le> n \<Longrightarrow> \<exists>j \<le> k. tally limit m es = Some j"
proof (induction limit n es arbitrary: m rule: tally.induct)
  case (3 limit n fd at bytes es)
  then show ?case by (auto split: if_splits)
qed auto

lemma tally_window:
  assumes "tally limit n es = Some m" and "n \<le> limit" and "list_all (\<lambda>e. \<not> is_refresh e) es"
  shows "n + length (filter is_write es) \<le> limit"
  using assms by (induction limit n es rule: tally.induct) (auto split: if_splits)

lemma tally_le: "tally limit n es = Some m \<Longrightarrow> n \<le> limit \<Longrightarrow> m \<le> limit"
  by (induction limit n es rule: tally.induct) (auto split: if_splits)

text \<open>A sequence of operations and all events they cause.\<close>

fun run_ops :: "('op \<Rightarrow> 't \<Rightarrow> 't \<times> io_event list) \<Rightarrow> 'op list \<Rightarrow> 't \<Rightarrow> 't \<times> io_event list" where
  "run_ops step [] t = (t, [])"
| "run_ops step (p # ps) t =
     (case step p t of (t', es) \<Rightarrow> case run_ops step ps t' of (t'', fs) \<Rightarrow> (t'', es @ fs))"

text \<open>
  The contract of a target: an operation accounts for its events in a counter that never
  exceeds the limit. Whoever keeps it spaces its identity checks over any sequence of
  operations.
\<close>

locale spaced_checks =
  fixes step :: "'op \<Rightarrow> 't \<Rightarrow> 't \<times> io_event list"
    and counter :: "'t \<Rightarrow> nat"
    and limit :: nat
  assumes step_tally: "step p t = (t', es) \<Longrightarrow> counter t \<le> limit \<Longrightarrow>
    counter t' \<le> limit \<and> (\<exists>m \<le> counter t'. tally limit (counter t) es = Some m)"
begin

lemma run_tally:
  "run_ops step ps t = (t', es) \<Longrightarrow> counter t \<le> limit \<Longrightarrow>
   counter t' \<le> limit \<and> (\<exists>m \<le> counter t'. tally limit (counter t) es = Some m)"
proof (induction ps arbitrary: t t' es)
  case (Cons p ps)
  obtain t1 es1 where s: "step p t = (t1, es1)" by fastforce
  obtain t2 es2 where r: "run_ops step ps t1 = (t2, es2)" by fastforce
  from step_tally [OF s Cons.prems(2)] obtain m where m: "counter t1 \<le> limit" "m \<le> counter t1"
    "tally limit (counter t) es1 = Some m" by blast
  from Cons.IH [OF r m(1)] obtain k where k: "counter t2 \<le> limit" "k \<le> counter t2"
    "tally limit (counter t1) es2 = Some k" by blast
  obtain j where "j \<le> k" "tally limit m es2 = Some j" using tally_mono [OF k(3) m(2)] by blast
  with Cons.prems(1) s r m k show ?case by (auto simp: tally_append intro!: exI [of _ j])
qed auto

lemma run_window:
  assumes "run_ops step ps t = (t', xs @ ys @ zs)" and "counter t \<le> limit" and "list_all (\<lambda>e. \<not> is_refresh e) ys"
  shows "length (filter is_write ys) \<le> limit"
proof -
  from run_tally [OF assms(1,2)] obtain m n where "tally limit (counter t) xs = Some m" "tally limit m ys = Some n"
    by (auto simp: tally_append split: option.splits)
  with tally_window [of limit m ys n] tally_le [of limit "counter t" xs m] assms(2,3) show ?thesis by simp
qed

end

text \<open>Any callback of a module on one target, with the host moment, the storage driver and the arguments it uses.\<close>

datatype 's host_op =
    Op_write host_moment "'s pwrite_fun" IfsDefragTarget u64 "u8 list" u32
  | Op_sync host_moment "int \<Rightarrow> bool" IfsDefragTarget

fun host_step :: "common \<Rightarrow> 's host_op \<Rightarrow> Target \<times> 's \<Rightarrow> (Target \<times> 's) \<times> io_event list" where
  "host_step C (Op_write M pwrite out at data bytes) (t, s) =
     (case target_write C M pwrite (Some t) out at data bytes s of
        (_, Some t', s', es) \<Rightarrow> ((t', s'), es) | (_, None, s', es) \<Rightarrow> ((t, s'), es))"
| "host_step C (Op_sync M sync_ok out) (t, s) =
     (case target_sync C M sync_ok (Some t) out of
        (_, Some t', es) \<Rightarrow> ((t', s), es) | (_, None, es) \<Rightarrow> ((t, s), es))"

definition write_counter :: "Target \<times> 's \<Rightarrow> nat" where
  "write_counter ts = unat (tg_writes (fst ts))"

lemma target_write_tally:
  assumes "target_write C M pwrite (Some t) out at data bytes s = (ok, t1, s', es)" and "unat (tg_writes t) \<le> 128"
  obtains t' where "t1 = Some t'" "unat (tg_writes t') \<le> 128"
    "tally 128 (unat (tg_writes t)) es = Some (unat (tg_writes t'))"
proof -
  have inc: "unat (tg_writes t + 1) = Suc (unat (tg_writes t))" if "\<not> 128 \<le> tg_writes t"
    using that assms(2) by (simp add: word_le_nat_alt unat_word_ariths)
  show thesis
    using assms that inc
    by (auto simp: target_write_def Let_def TARGET_IDENTITY_REFRESH_WRITES_def word_le_nat_alt
        split: if_splits prod.splits)
qed

lemma target_sync_tally:
  assumes "target_sync C M sync_ok (Some t) out = (ok, t1, es)" and "unat (tg_writes t) \<le> 128"
  obtains t' m where "t1 = Some t'" "unat (tg_writes t') \<le> 128" "m \<le> unat (tg_writes t')"
    "tally 128 (unat (tg_writes t)) es = Some m"
  using assms that by (auto simp: target_sync_def Let_def split: if_splits)

interpretation host: spaced_checks "host_step C" write_counter 128 for C
proof
  fix p :: "'b host_op" and ts ts' :: "Target \<times> 'b" and es
  assume st: "host_step C p ts = (ts', es)" and le: "write_counter ts \<le> 128"
  obtain t s where ts: "ts = (t, s)" by fastforce
  show "write_counter ts' \<le> 128 \<and> (\<exists>m \<le> write_counter ts'. tally 128 (write_counter ts) es = Some m)"
  proof (cases p)
    case (Op_write M pwrite out at data bytes)
    obtain ok t1 s1 fs where w: "target_write C M pwrite (Some t) out at data bytes s = (ok, t1, s1, fs)"
      by (metis surj_pair)
    from target_write_tally [OF w] le ts obtain t' where "t1 = Some t'" "unat (tg_writes t') \<le> 128"
      "tally 128 (unat (tg_writes t)) fs = Some (unat (tg_writes t'))" by (auto simp: write_counter_def)
    with st ts w Op_write show ?thesis by (auto simp: write_counter_def)
  next
    case (Op_sync M sync_ok out)
    obtain ok t1 fs where w: "target_sync C M sync_ok (Some t) out = (ok, t1, fs)" by (metis surj_pair)
    from target_sync_tally [OF w] le ts obtain t' m where "t1 = Some t'" "unat (tg_writes t') \<le> 128"
      "m \<le> unat (tg_writes t')" "tally 128 (unat (tg_writes t)) fs = Some m" by (auto simp: write_counter_def)
    with st ts w Op_sync show ?thesis by (auto simp: write_counter_def)
  qed
qed

text \<open>
  Property C12. Over any sequence of write and sync callbacks, with any arguments, any host behaviour and
  whatever the module put into the structure it passes back, a freshly opened target
  completes at most 128 writes between two full comparisons of the hardware identity.
\<close>
theorem identity_rechecked_in_time:
  assumes "tg_writes t = 0"
    and "run_ops (host_step C) ops (t, s) = (ts', xs @ ys @ zs)"
    and "list_all (\<lambda>e. \<not> is_refresh e) ys"
  shows "length (filter is_write ys) \<le> 128"
  using host.run_window [OF assms(2) _ assms(3)] assms(1) by (simp add: write_counter_def)

definition demo_target :: Target where
  "demo_target = \<lparr>tg_device = demo_device True, tg_stage = False, tg_writes = 0, tg_bound_identity = ''file:2050:77''\<rparr>"

definition demo_out :: IfsDefragTarget where
  "demo_out = \<lparr>dt_bytes = 1000, dt_path = ''/img'', dt_identity = ''file:2050:77''\<rparr>"

definition demo_moment :: host_moment where
  "demo_moment = \<lparr>hm_view = idle_host, hm_fds = demo_fds\<rparr>"

definition list_pwrite :: "u8 list pwrite_fun" where
  "list_pwrite fd data at s = (None, take (unat at) s @ data @ drop (unat at + length data) s)"

lemma demo_binding: "target_fd_matches_binding demo_moment (Some demo_target) demo_out"
  by (simp add: target_fd_matches_binding_def demo_target_def demo_out_def demo_moment_def demo_device_def demo_fds_def
      demo_image_def S_IFMT_def)

lemma demo_write:
  "target_write demo_common demo_moment list_pwrite (Some demo_target) demo_out 1 [7] 1 [0, 0, 0] =
     (True, Some (demo_target\<lparr>tg_writes := 1\<rparr>), [0, 7, 0], [Wrote 5 1 1])"
  using demo_binding
  by (simp add: target_write_def Let_def)
     (simp add: demo_target_def demo_out_def demo_device_def ld_pwrite_full_def SSIZE_MAX_def list_pwrite_def
        TARGET_IDENTITY_REFRESH_WRITES_def)

theorem identity_rechecked_in_time_witness:
  "run_ops (host_step demo_common) [Op_write demo_moment list_pwrite demo_out 1 [7] 1] (demo_target, [0, 0, 0]) =
     ((demo_target\<lparr>tg_writes := 1\<rparr>, [0, 7, 0]), [Wrote 5 1 1]) \<and>
   length (filter is_write [Wrote 5 1 1]) \<le> 128"
proof -
  have run: "run_ops (host_step demo_common) [Op_write demo_moment list_pwrite demo_out 1 [7] 1] (demo_target, [0, 0, 0]) =
     ((demo_target\<lparr>tg_writes := 1\<rparr>, [0, 7, 0]), [] @ [Wrote 5 1 1] @ [])"
    by (simp add: demo_write)
  show ?thesis
    using identity_rechecked_in_time [OF _ run] run by (simp add: demo_target_def)
qed

subsection \<open>Containment of writes\<close>

lemma guarded_range:
  "\<not> at > (n :: u64) \<Longrightarrow> \<not> ucast (bytes :: u32) > n - at \<Longrightarrow> unat at + unat bytes \<le> unat n"
proof -
  assume "\<not> at > n" "\<not> ucast bytes > n - at"
  then have "unat at \<le> unat n" "unat (ucast bytes :: u64) \<le> unat n - unat at"
    by (simp_all add: not_less word_le_nat_alt unat_sub)
  moreover have "unat (ucast bytes :: u64) = unat bytes" by (rule unat_ucast_u32)
  ultimately show ?thesis by linarith
qed

lemma binding_facts:
  assumes "target_fd_matches_binding M (Some t) out"
  shows "dt_bytes out = dv_size_bytes (tg_device t)" and "dt_identity out = tg_bound_identity t"
    and "\<exists>opened. fstat_fd (hm_fds M) (dv_fd (tg_device t)) = Inr opened \<and>
       st_dev opened = dv_host_device (tg_device t) \<and> st_ino opened = dv_inode (tg_device t) \<and>
       (dv_is_block (tg_device t) \<longrightarrow> st_rdev opened = dv_device_number (tg_device t))"
  using assms by (auto simp: target_fd_matches_binding_def Let_def split: if_splits sum.splits)



subsection \<open>Resolving a module\<close>

definition provides :: "'sym module_store \<Rightarrow> string \<Rightarrow> string \<Rightarrow> bool" where
  "provides S format name \<longleftrightarrow> (\<exists>caps. ifs_probe_module_v2 S name = Some (format, caps))"

lemma probe_Some:
  assumes "ifs_probe_module_v2 S name = Some (format, caps)"
  shows "ifs_safe_module_filename name" and "valid_format format" and "opened_trusted (ms_open S name) False"
    and "\<exists>img api. ms_dlopen S name = Some img \<and> mi_defrag_v2 img = Some api \<and> provider_table api \<and>
           ma_format_id api = Some format \<and> ma_capabilities api = caps"
  using assms by (auto simp: ifs_probe_module_v2_def split: if_splits option.splits)

lemma find_loop_done:
  "find_loop S format names sel 1 = (x, m) \<Longrightarrow>
   (m = 1 \<longrightarrow> x = sel \<and> filter (provides S format) names = []) \<and>
   (m \<noteq> 1 \<longrightarrow> filter (provides S format) names \<noteq> [])"
  by (induction names) (auto simp: provides_def split: option.splits if_splits)

lemma find_loop_start:
  "find_loop S format names [] 0 = (x, m) \<Longrightarrow>
   (m = 1 \<longrightarrow> filter (provides S format) names = [x] \<and> x \<noteq> []) \<and>
   (filter (provides S format) names = [n] \<longrightarrow> m = 1 \<and> x = n)"
proof (induction names)
  case (Cons name names)
  show ?case
  proof (cases "provides S format name")
    case True
    then obtain caps where p: "ifs_probe_module_v2 S name = Some (format, caps)" by (auto simp: provides_def)
    from probe_Some(1) [OF p] have len: "0 < length name" "length name < 64"
      by (auto simp: ifs_safe_module_filename_def)
    with Cons.prems p have "find_loop S format names name 1 = (x, m)" by simp
    from find_loop_done [OF this] True len show ?thesis by auto
  next
    case False
    then have "find_loop S format names [] 0 = (x, m)"
      using Cons.prems by (auto simp: provides_def split: option.splits if_splits)
    from Cons.IH [OF this] False show ?thesis by simp
  qed
qed simp

text \<open>
  Resolving a format succeeds exactly when the trusted module directory holds one and only
  one entry that provides it; duplicates, untrusted directories and too small buffers fail.
  The entry returned has a plain file name and was a root-owned regular file, not writable
  by others, whose table names the format and carries a usable interface.
\<close>
theorem module_find_unique:
  assumes "0 < capacity"
  shows "(ifs_filesystem_module_find_v2 S (Some format) True capacity = Some name \<longleftrightarrow>
      valid_format format \<and> ifs_open_module_directory S \<and>
      (\<exists>names. ms_entries S = Some names \<and> filter (provides S format) names = [name]) \<and> length name < capacity) \<and>
    (provides S format name \<longrightarrow>
      ifs_safe_module_filename name \<and> opened_trusted (ms_open S name) False \<and>
      (\<exists>img api. ms_dlopen S name = Some img \<and> mi_defrag_v2 img = Some api \<and> provider_table api \<and>
         ma_format_id api = Some format))"
proof (intro conjI impI)
  have ne: "name \<noteq> []" if "filter (provides S format) names = [name]" for names
  proof -
    have "name \<in> set (filter (provides S format) names)" using that by simp
    then have "provides S format name" by simp
    then show ?thesis by (auto simp: provides_def ifs_safe_module_filename_def dest: probe_Some(1))
  qed
  show "ifs_filesystem_module_find_v2 S (Some format) True capacity = Some name \<longleftrightarrow>
      valid_format format \<and> ifs_open_module_directory S \<and>
      (\<exists>names. ms_entries S = Some names \<and> filter (provides S format) names = [name]) \<and> length name < capacity"
  proof (cases "ms_entries S")
    case (Some names)
    obtain x m where l: "find_loop S format names [] 0 = (x, m)" by fastforce
    from find_loop_start [OF l, of name] ne [of names] Some l assms show ?thesis
      by (auto simp: ifs_filesystem_module_find_v2_def)
  qed (simp add: ifs_filesystem_module_find_v2_def)
qed (auto simp: provides_def dest: probe_Some)

definition demo_api :: module_api where
  "demo_api = \<lparr>ma_abi_version = 2, ma_structure_bytes = 32, ma_format_id = Some ''fat32'', ma_capabilities = 11,
     ma_run = Some (\<lambda>argv. 0)\<rparr>"

definition root_file :: "u32 \<Rightarrow> file_stat" where
  "root_file mode = \<lparr>st_mode = mode, st_uid = 0, st_dev = (8, 1), st_ino = 3, st_rdev = (0, 0), st_size = 9\<rparr>"

definition demo_store :: "module_api option module_store" where
  "demo_store = \<lparr>ms_system = Some (Some (root_file 0x41ED)), ms_filesystems = Some (Some (root_file 0x41ED)),
     ms_entries = Some [''.'', ''fat.so''],
     ms_open = \<lambda>n. Some (Some (root_file 0x81A4)),
     ms_dlopen = \<lambda>n. Some \<lparr>mi_defrag_v2 = Some demo_api, mi_symbol = \<lambda>i. Some (Some demo_api)\<rparr>\<rparr>"

lemma demo_trusted:
  "trusted (Some (root_file 0x41ED)) True" "trusted (Some (root_file 0x81A4)) False"
  by (simp_all add: trusted_def root_file_def owner_def S_ISDIR_def S_ISREG_def S_IFMT_def)

lemma demo_table: "provider_table demo_api"
  by (simp add: provider_table_def demo_api_def IFS_DEFRAG_ABI_V2_def MODULE_V2_BYTES_def all_capabilities_def
      IFS_DEFRAG_ANALYSE_def IFS_DEFRAG_RELAYOUT_def IFS_DEFRAG_GROWTH_def IFS_DEFRAG_RECOVER_def)

lemma demo_probe:
  "ifs_probe_module_v2 demo_store ''fat.so'' = Some (''fat32'', 11)" "ifs_probe_module_v2 demo_store ''.'' = None"
proof -
  have "ifs_safe_module_filename ''fat.so''" "\<not> ifs_safe_module_filename ''.''" "valid_format ''fat32''"
    by (simp_all add: ifs_safe_module_filename_def valid_format_def filename_char_def format_char_def char_in_def of_char_def)
  moreover have "ma_format_id demo_api = Some ''fat32''" "ma_capabilities demo_api = 11" by (simp_all add: demo_api_def)
  ultimately show "ifs_probe_module_v2 demo_store ''fat.so'' = Some (''fat32'', 11)"
    "ifs_probe_module_v2 demo_store ''.'' = None"
    by (simp_all add: ifs_probe_module_v2_def opened_trusted_def demo_trusted demo_table demo_store_def)
qed

theorem module_find_unique_witness:
  "ifs_filesystem_module_find_v2 demo_store (Some ''fat32'') True 64 = Some ''fat.so''"
proof -
  have "ms_entries demo_store = Some [''.'', ''fat.so'']" "ifs_open_module_directory demo_store"
    by (simp_all add: demo_store_def ifs_open_module_directory_def opened_trusted_def demo_trusted)
  moreover have "filter (provides demo_store ''fat32'') [''.'', ''fat.so''] = [''fat.so'']"
    by (simp add: provides_def demo_probe)
  moreover have "valid_format ''fat32''"
    by (simp add: valid_format_def format_char_def char_in_def of_char_def)
  ultimately show ?thesis
    using module_find_unique [of 64 demo_store "''fat32''" "''fat.so''"] by simp
qed

subsection \<open>The module list\<close>

definition json_plain :: "string \<Rightarrow> bool" where
  "json_plain s \<longleftrightarrow> list_all (\<lambda>c. c \<noteq> CHR 0x22 \<and> c \<noteq> CHR 0x5C \<and> 32 \<le> (of_char c :: nat) \<and> (of_char c :: nat) < 127) s"

fun comma_join :: "string list \<Rightarrow> string" where
  "comma_join [] = []"
| "comma_join [x] = x"
| "comma_join (x # y # zs) = x @ '','' @ comma_join (y # zs)"

definition providers :: "'sym module_store \<Rightarrow> string list \<Rightarrow> (string \<times> string \<times> u64) list" where
  "providers S names = List.map_filter (\<lambda>n. map_option (\<lambda>(f, c). (f, n, c)) (ifs_probe_module_v2 S n)) names"

lemma providers_simps [simp]:
  "providers S [] = []"
  "providers S (n # ns) = (case ifs_probe_module_v2 S n of None \<Rightarrow> providers S ns | Some (f, c) \<Rightarrow> (f, n, c) # providers S ns)"
  by (auto simp: providers_def List.map_filter_simps split: option.splits)

lemma comma_join_Cons: "comma_join (x # xs) = x @ concat (map (\<lambda>y. '','' @ y) xs)"
  by (induction xs arbitrary: x) auto

lemma list_entries_join:
  "list_entries S names first =
     (if first then comma_join (map (\<lambda>(f, n, c). module_json f n c) (providers S names))
      else concat (map (\<lambda>(f, n, c). '','' @ module_json f n c) (providers S names)))"
  by (induction names arbitrary: first) (auto simp: comma_join_Cons o_def case_prod_unfold split: option.splits)

lemma plain_chars:
  "filename_char c \<or> format_char c \<Longrightarrow> c \<noteq> CHR 0x22 \<and> c \<noteq> CHR 0x5C \<and> 32 \<le> (of_char c :: nat) \<and> (of_char c :: nat) < 127"
  by (auto simp: filename_char_def format_char_def char_in_def)

lemma probe_plain:
  assumes "ifs_probe_module_v2 S n = Some (f, c)"
  shows "json_plain f \<and> json_plain n"
proof -
  have "list_all format_char f" "list_all filename_char n"
    using probe_Some(1,2) [OF assms] by (auto simp: valid_format_def ifs_safe_module_filename_def)
  then show ?thesis unfolding json_plain_def list_all_iff using plain_chars by blast
qed

lemma providers_probe: "(f, n, c) \<in> set (providers S names) \<Longrightarrow> ifs_probe_module_v2 S n = Some (f, c)"
  by (induction names) (auto split: option.splits)

lemma providers_plain: "(f, n, c) \<in> set (providers S names) \<Longrightarrow> json_plain f \<and> json_plain n"
  using providers_probe probe_plain by metis

text \<open>
  The module listing is one JSON line that names exactly the entries that pass the probe, in
  directory order and separated by commas; no name or format printed between its quotes can
  contain a quote, a backslash or a control character, so the text needs no escaping
  whatever files lie in the directory. An untrusted directory yields the empty list.
\<close>
theorem module_list_wellformed:
  "ifs_filesystem_module_list_v2 S err =
     (if \<not> ifs_open_module_directory S then (0, ''{\"schema\":1,\"modules\":[]}\<newline>'')
      else case ms_entries S of None \<Rightarrow> (1, [])
        | Some names \<Rightarrow> (if err then 1 else 0, ''{\"schema\":1,\"modules\":['' @
            comma_join (map (\<lambda>(f, n, c). module_json f n c) (providers S names)) @ '']}\<newline>'')) \<and>
   (\<forall>names f n c. (f, n, c) \<in> set (providers S names) \<longrightarrow> json_plain f \<and> json_plain n)"
proof -
  have "list_entries S names True = comma_join (map (\<lambda>(f, n, c). module_json f n c) (providers S names))" for names
    using list_entries_join [of S names True] by (simp only: if_True)
  then show ?thesis
    using providers_plain unfolding ifs_filesystem_module_list_v2_def by (simp split: option.splits) blast
qed

theorem module_list_wellformed_witness:
  "json_plain ''fat32'' \<and> json_plain ''fat.so''"
proof -
  have "(''fat32'', ''fat.so'', 11) \<in> set (providers demo_store [''fat.so''])" by (simp add: demo_probe)
  with module_list_wellformed [of demo_store False] show ?thesis by blast
qed

subsection \<open>Dispatch of mutations\<close>

lemma run_command_ran:
  assumes "run_command api argv = Some (r, Some args)"
  shows "\<exists>a. api = Some a \<and> args = argv \<and> 2 \<le> length argv \<and>
     ma_capabilities a AND required_capabilities (argv ! 1) = required_capabilities (argv ! 1)"
  using assms by (auto simp: run_command_def Let_def split: option.splits if_splits)

lemma call_trusted:
  assumes "ifs_filesystem_module_call S (Some format) (Some filename) (Some ''infiltrator_filesystem_defrag_v2'') True = Called entry"
  shows "opened_trusted (ms_system S) True \<and> opened_trusted (ms_filesystems S) True \<and>
    opened_trusted (ms_open S filename) False \<and> CHR ''/'' \<notin> set filename \<and>
    (\<exists>img api. ms_dlopen S filename = Some img \<and> mi_defrag_v2 img = Some api \<and> provider_table api \<and>
       ma_format_id api = Some format \<and> mi_symbol img ''infiltrator_filesystem_defrag_v2'' = Some entry)"
  using assms by (auto simp: ifs_filesystem_module_call_def split: if_splits option.splits)

lemma caps_include:
  assumes "x AND m = m" and "m AND b = b" and "b \<noteq> (0 :: u64)"
  shows "x AND b \<noteq> 0"
proof -
  have "x AND b = (x AND m) AND b" using assms(2) by (simp add: and.assoc)
  also have "\<dots> = b" using assms(1,2) by simp
  finally show ?thesis using assms(3) by simp
qed

lemmas capability_bits =
  IFS_DEFRAG_ANALYSE_def IFS_DEFRAG_RELAYOUT_def IFS_DEFRAG_GROWTH_def IFS_DEFRAG_RECOVER_def

text \<open>
  Property C14. A module's code runs for a mutating command only after the host cleared the stop flag,
  installed both signal handlers and announced readiness; only when the directories and the
  module file were trusted and its table is a valid provider of the requested format; and
  only when the table it then runs offers analysis, recovery and the requested layout mode
  (recovery alone for \<open>recover\<close>).
\<close>
theorem mutation_gate:
  assumes "ifs_filesystem_module_run C sigaction S (Some format) (Some filename) argv st = Return (Some (r, Some args), st')"
    and "is_mutation argv"
  shows "args = argv \<and> int_handled st' \<and> term_handled st' \<and> \<not> g_stop_requested st' \<and>
    stop_output st' = stop_output st @ LD_STOP_READY_MARKER @ ''\<newline>'' \<and>
    opened_trusted (ms_system S) True \<and> opened_trusted (ms_filesystems S) True \<and>
    opened_trusted (ms_open S filename) False \<and> CHR ''/'' \<notin> set filename \<and>
    (\<exists>img api entry. ms_dlopen S filename = Some img \<and> mi_defrag_v2 img = Some api \<and> provider_table api \<and>
       ma_format_id api = Some format \<and>
       mi_symbol img ''infiltrator_filesystem_defrag_v2'' = Some (Some entry) \<and>
       ma_capabilities entry AND IFS_DEFRAG_RECOVER \<noteq> 0 \<and>
       (argv ! 1 = ''defrag'' \<longrightarrow> ma_capabilities entry AND IFS_DEFRAG_RELAYOUT \<noteq> 0 \<and> ma_capabilities entry AND IFS_DEFRAG_ANALYSE \<noteq> 0) \<and>
       (argv ! 1 = ''growth-defrag'' \<longrightarrow> ma_capabilities entry AND IFS_DEFRAG_GROWTH \<noteq> 0 \<and> ma_capabilities entry AND IFS_DEFRAG_ANALYSE \<noteq> 0))"
proof -
  obtain st1 where i: "ld_stop_install_handlers (program_name C) (strerror C) sigaction (ld_stop_clear st) = Return st1"
    "st' = ld_stop_report_ready st1"
    using assms by (auto simp: ifs_filesystem_module_run_def split: proc.splits call_outcome.splits)
  then have handlers: "int_handled st' \<and> term_handled st' \<and> \<not> g_stop_requested st' \<and>
      stop_output st' = stop_output st @ LD_STOP_READY_MARKER @ ''\<newline>''"
    by (auto simp: ld_stop_install_handlers_def ld_die_errno_def ld_stop_install_int_def ld_stop_install_term_def
        ld_stop_clear_def ld_stop_report_ready_def split: option.splits)
  obtain entry where e: "ifs_filesystem_module_call S (Some format) (Some filename)
      (Some ''infiltrator_filesystem_defrag_v2'') True = Called entry" "run_command entry argv = Some (r, Some args)"
    using assms(1) by (auto simp: ifs_filesystem_module_run_def split: proc.splits call_outcome.splits)
  from run_command_ran [OF e(2)] obtain a where a: "entry = Some a" "args = argv"
    "ma_capabilities a AND required_capabilities (argv ! 1) = required_capabilities (argv ! 1)" by blast
  have caps: "ma_capabilities a AND IFS_DEFRAG_RECOVER \<noteq> 0"
    "argv ! 1 = ''defrag'' \<Longrightarrow> ma_capabilities a AND IFS_DEFRAG_RELAYOUT \<noteq> 0 \<and> ma_capabilities a AND IFS_DEFRAG_ANALYSE \<noteq> 0"
    "argv ! 1 = ''growth-defrag'' \<Longrightarrow> ma_capabilities a AND IFS_DEFRAG_GROWTH \<noteq> 0 \<and> ma_capabilities a AND IFS_DEFRAG_ANALYSE \<noteq> 0"
    using assms(2) caps_include [OF a(3), of IFS_DEFRAG_RECOVER] caps_include [OF a(3), of IFS_DEFRAG_RELAYOUT]
      caps_include [OF a(3), of IFS_DEFRAG_GROWTH] caps_include [OF a(3), of IFS_DEFRAG_ANALYSE]
    by (auto simp: is_mutation_def required_capabilities_def capability_bits)
  show ?thesis using handlers caps a(1,2) call_trusted [OF e(1)] by auto
qed

theorem mutation_gate_witness:
  "ifs_filesystem_module_run demo_common (\<lambda>_. None) demo_store (Some ''fat32'') (Some ''fat.so'') [''x'', ''defrag''] stop_initial =
     Return (Some (0, Some [''x'', ''defrag'']), ld_stop_report_ready (ld_stop_install_term (ld_stop_install_int stop_initial))) \<and>
   int_handled (ld_stop_report_ready (ld_stop_install_term (ld_stop_install_int stop_initial)))"
proof -
  have "ifs_filesystem_module_call demo_store (Some ''fat32'') (Some ''fat.so'') (Some ''infiltrator_filesystem_defrag_v2'') True
      = Called (Some demo_api)"
    by (simp add: ifs_filesystem_module_call_def demo_store_def opened_trusted_def demo_trusted demo_table)
       (simp add: demo_api_def)
  moreover have "run_command (Some demo_api) [''x'', ''defrag''] = Some (0, Some [''x'', ''defrag''])"
    by (simp add: run_command_def required_capabilities_def capability_bits demo_api_def)
  moreover have "ld_stop_clear stop_initial = stop_initial"
    by (simp add: ld_stop_clear_def stop_initial_def)
  ultimately have run: "ifs_filesystem_module_run demo_common (\<lambda>_. None) demo_store (Some ''fat32'') (Some ''fat.so'')
      [''x'', ''defrag''] stop_initial =
     Return (Some (0, Some [''x'', ''defrag'']), ld_stop_report_ready (ld_stop_install_term (ld_stop_install_int stop_initial)))"
    by (simp add: ifs_filesystem_module_run_def is_mutation_def ld_stop_install_handlers_def)
  from mutation_gate [OF run] run show ?thesis by (simp add: is_mutation_def)
qed

end
