(* ===== verification/Loaders.thy ===== *)
theory Loaders
  imports Module_Host
begin

text \<open>
  The worker programs of \<open>native/*_module_loader.c\<close>. Each asks the module host for the versioned
  table of its file system, checks the table and hands the command line to the module; the
  UFS, EXT, Amiga and FAT workers first decide which module owns the target. A table is what
  an external module exports. The result is the exit code and the file of the module whose
  \<open>run\<close> (or other entry) was executed; texts printed for the user are left out.
\<close>

subsection \<open>Module tables\<close>

record driver_table =
  tb_abi_version :: u32
  tb_structure_bytes :: u32
  tb_format_id :: "string option"
  tb_capabilities :: u64
  tb_run :: "(string list \<Rightarrow> int) option"
  tb_fixture :: bool \<comment> \<open>the fixture entry is present\<close>
  tb_metadata :: "(string list \<Rightarrow> int) option"
  tb_probe :: "(string \<Rightarrow> int) option"
  tb_format_test_media :: "(string list \<Rightarrow> int) option"
  tb_volume_check :: "(string \<Rightarrow> int) option"
  tb_verify_payload :: bool

type_synonym driver_store = "driver_table option module_store"

type_synonym dispatch = "int \<times> string option"

definition table_header :: "u32 \<Rightarrow> u32 \<Rightarrow> string \<Rightarrow> driver_table \<Rightarrow> bool" where
  "table_header abi bytes format api \<longleftrightarrow>
     tb_abi_version api = abi \<and> tb_structure_bytes api \<ge> bytes \<and> tb_format_id api = Some format"

definition CAP_RUN :: u64 where "CAP_RUN = 1"
definition CAP_FIXTURE :: u64 where "CAP_FIXTURE = 2"

text \<open>The callback of a loader on the symbol that the module host resolved.\<close>

definition invoke_run :: "(driver_table \<Rightarrow> bool) \<Rightarrow> string \<Rightarrow> string list \<Rightarrow> driver_table option \<Rightarrow> dispatch" where
  "invoke_run valid file argv api =
     (case api of
        None \<Rightarrow> (1, None)
      | Some api \<Rightarrow>
          if \<not> valid api then (1, None)
          else case tb_run api of None \<Rightarrow> (1, None) | Some run \<Rightarrow> (run argv, Some file))"

definition call_module ::
  "driver_store \<Rightarrow> string \<Rightarrow> string \<Rightarrow> string \<Rightarrow> (driver_table option \<Rightarrow> dispatch) \<Rightarrow> dispatch" where
  "call_module S format file interface callback =
     (case ifs_filesystem_module_call S (Some format) (Some file) (Some interface) True of
        Called api \<Rightarrow> callback api
      | _ \<Rightarrow> (1, None))"

subsection \<open>Single-format workers\<close>

definition run_capable :: "u32 \<Rightarrow> string \<Rightarrow> driver_table \<Rightarrow> bool" where
  "run_capable bytes format api \<longleftrightarrow> table_header 1 bytes format api \<and> tb_capabilities api AND CAP_RUN \<noteq> 0"

definition run_and_fixture :: "u32 \<Rightarrow> string \<Rightarrow> driver_table \<Rightarrow> bool" where
  "run_and_fixture bytes format api \<longleftrightarrow> table_header 1 bytes format api \<and>
     tb_capabilities api AND (CAP_RUN OR CAP_FIXTURE) = CAP_RUN OR CAP_FIXTURE \<and> tb_fixture api"

definition ntfs_main :: "driver_store \<Rightarrow> string list \<Rightarrow> dispatch" where
  "ntfs_main S argv = call_module S ''ntfs'' ''NTFS.so'' ''infiltrator_filesystem_ntfs_v1''
     (invoke_run (run_capable 40 ''ntfs'') ''NTFS.so'' argv)"

definition xfs_main :: "driver_store \<Rightarrow> string list \<Rightarrow> dispatch" where
  "xfs_main S argv = call_module S ''xfs'' ''XFS.so'' ''infiltrator_filesystem_xfs_v1''
     (invoke_run (run_capable 40 ''xfs'') ''XFS.so'' argv)"

definition btrfs_main :: "driver_store \<Rightarrow> string list \<Rightarrow> dispatch" where
  "btrfs_main S argv = call_module S ''btrfs'' ''BTRFS.so'' ''infiltrator_filesystem_btrfs_v1''
     (invoke_run (run_capable 40 ''btrfs'') ''BTRFS.so'' argv)"

definition hfs_main :: "driver_store \<Rightarrow> string list \<Rightarrow> dispatch" where
  "hfs_main S argv = call_module S ''hfs'' ''HFS.so'' ''infiltrator_filesystem_hfs_v1''
     (invoke_run (run_capable 40 ''hfs'') ''HFS.so'' argv)"

definition hfsplus_main :: "driver_store \<Rightarrow> string list \<Rightarrow> dispatch" where
  "hfsplus_main S argv = call_module S ''hfsplus'' ''HFSPLUS.so'' ''infiltrator_filesystem_hfsplus_v1''
     (invoke_run (run_capable 40 ''hfsplus'') ''HFSPLUS.so'' argv)"

definition minix_main :: "driver_store \<Rightarrow> string list \<Rightarrow> dispatch" where
  "minix_main S argv = call_module S ''minix'' ''MINIX.so'' ''infiltrator_filesystem_minix_defrag_v1''
     (invoke_run (run_capable 40 ''minix'') ''MINIX.so'' argv)"

definition zfs_main :: "driver_store \<Rightarrow> string list \<Rightarrow> dispatch" where
  "zfs_main S argv = call_module S ''zfs'' ''ZFS.so'' ''infiltrator_filesystem_zfs_v1''
     (invoke_run (run_capable 40 ''zfs'') ''ZFS.so'' argv)"

definition swap_main :: "driver_store \<Rightarrow> string list \<Rightarrow> dispatch" where
  "swap_main S argv = call_module S ''swap'' ''SWAP.so'' ''infiltrator_filesystem_swap_v1''
     (invoke_run (run_capable 48 ''swap'') ''SWAP.so'' argv)"

definition exfat_main :: "driver_store \<Rightarrow> string list \<Rightarrow> dispatch" where
  "exfat_main S argv = call_module S ''exfat'' ''exFAT.so'' ''infiltrator_filesystem_exfat_defrag_v1''
     (invoke_run (\<lambda>api. table_header 1 32 ''exfat'' api \<and> tb_capabilities api AND CAP_RUN = CAP_RUN) ''exFAT.so'' argv)"

definition apfs_main :: "driver_store \<Rightarrow> string list \<Rightarrow> dispatch" where
  "apfs_main S argv = call_module S ''apfs'' ''APFS.so'' ''infiltrator_filesystem_apfs_v1''
     (invoke_run (run_and_fixture 40 ''apfs'') ''APFS.so'' argv)"

definition pfs3_main :: "driver_store \<Rightarrow> string list \<Rightarrow> dispatch" where
  "pfs3_main S argv = call_module S ''pfs3'' ''PFS3.so'' ''infiltrator_filesystem_pfs3_v1''
     (invoke_run (run_and_fixture 40 ''pfs3'') ''PFS3.so'' argv)"

definition sfs_main :: "driver_store \<Rightarrow> string list \<Rightarrow> dispatch" where
  "sfs_main S argv = call_module S ''sfs'' ''SFS.so'' ''infiltrator_filesystem_sfs_v1''
     (invoke_run (run_and_fixture 40 ''sfs'') ''SFS.so'' argv)"

subsection \<open>UFS\<close>

definition IFS_UFS_CAP_TEST_MEDIA :: u64 where "IFS_UFS_CAP_TEST_MEDIA = 2"

definition probe_volume :: "string \<Rightarrow> string option \<Rightarrow> driver_table option \<Rightarrow> dispatch" where
  "probe_volume format target api =
     (case (target, api) of
        (Some target, Some api) \<Rightarrow>
          if \<not> table_header 1 24 format api then (1, None)
          else (case tb_probe api of
                  None \<Rightarrow> (1, None)
                | Some accepts \<Rightarrow> (if accepts target = 0 then 0 else 1, None))
      | _ \<Rightarrow> (1, None))"

definition use_driver :: "driver_store \<Rightarrow> string \<Rightarrow> string \<Rightarrow> string list \<Rightarrow> dispatch" where
  "use_driver S format file argv = call_module S format file ''infiltrator_filesystem_ufs_v1''
     (invoke_run (run_capable 40 format) file argv)"

definition detect_driver :: "driver_store \<Rightarrow> string \<Rightarrow> string \<Rightarrow> string option \<Rightarrow> dispatch" where
  "detect_driver S format file target = call_module S format file ''infiltrator_filesystem_ufs_probe_v1''
     (probe_volume format target)"

definition ufs_main :: "driver_store \<Rightarrow> string list \<Rightarrow> dispatch" where
  "ufs_main S argv =
     (let target = (if length argv \<ge> 3 then Some (argv ! 2) else None)
      in if length argv = 2 \<and> argv ! 1 = ''--version'' then use_driver S ''ufs2'' ''UFS2.so'' argv
         else if target = None then (2, None)
         else if fst (detect_driver S ''ufs2'' ''UFS2.so'' target) = 0 then use_driver S ''ufs2'' ''UFS2.so'' argv
         else if fst (detect_driver S ''ufs1'' ''UFS1.so'' target) = 0 then use_driver S ''ufs1'' ''UFS1.so'' argv
         else (1, None))"

text \<open>The formatter host of the test media: format, or check a manufactured volume.\<close>

definition run_format :: "string list \<Rightarrow> driver_table option \<Rightarrow> dispatch" where
  "run_format argv api =
     (case api of
        None \<Rightarrow> (1, None)
      | Some api \<Rightarrow>
          if \<not> table_header 1 40 ''ufs2'' api \<or> tb_capabilities api AND IFS_UFS_CAP_TEST_MEDIA = 0 then (1, None)
          else (case tb_format_test_media api of
                  None \<Rightarrow> (1, None)
                | Some format \<Rightarrow> (format argv, Some ''UFS2.so'')))"

definition run_volume_check :: "string list \<Rightarrow> driver_table option \<Rightarrow> dispatch" where
  "run_volume_check argv api =
     (case api of
        None \<Rightarrow> (1, None)
      | Some api \<Rightarrow>
          if \<not> table_header 1 24 ''ufs2'' api \<or> length argv \<noteq> 3 then (1, None)
          else (case tb_volume_check api of
                  None \<Rightarrow> (1, None)
                | Some check \<Rightarrow> (if check (argv ! 2) = 0 then 0 else 1, None)))"

definition ufs_test_media_main :: "driver_store \<Rightarrow> string list \<Rightarrow> dispatch" where
  "ufs_test_media_main S argv =
     (if length argv > 1 \<and> argv ! 1 = ''--check-ufs2-le''
      then call_module S ''ufs2'' ''UFS2.so'' ''infiltrator_filesystem_ufs_volume_check_v1'' (run_volume_check argv)
      else call_module S ''ufs2'' ''UFS2.so'' ''infiltrator_filesystem_ufs_v1'' (run_format argv))"

subsection \<open>EXT\<close>

definition EXT_NOT_THIS_FORMAT :: int where "EXT_NOT_THIS_FORMAT = 253"

definition ext_capabilities :: u64 where "ext_capabilities = 15"

text \<open>The flag is \<open>matched\<close>; \<open>metadata_mode\<close> is the build variant that calls \<open>metadata\<close>.\<close>

definition ext_invoke ::
  "bool \<Rightarrow> string \<Rightarrow> string \<Rightarrow> string option \<Rightarrow> string list \<Rightarrow> driver_table option \<Rightarrow> dispatch \<times> bool" where
  "ext_invoke metadata_mode format file target argv api =
     (case api of
        None \<Rightarrow> ((1, None), False)
      | Some api \<Rightarrow>
          if \<not> table_header 1 56 format api \<or> tb_capabilities api AND ext_capabilities \<noteq> ext_capabilities \<or> \<not> tb_fixture api
          then ((1, None), False)
          else case (tb_probe api, tb_run api, tb_metadata api) of
            (Some probe, Some run, Some metadata) \<Rightarrow>
              if (case target of Some p \<Rightarrow> probe p \<noteq> 0 | None \<Rightarrow> False) then ((EXT_NOT_THIS_FORMAT, None), False)
              else (((if metadata_mode then metadata else run) argv, Some file), True)
          | _ \<Rightarrow> ((1, None), False))"

definition ext_call ::
  "bool \<Rightarrow> driver_store \<Rightarrow> string \<Rightarrow> string \<Rightarrow> string option \<Rightarrow> string list \<Rightarrow> dispatch \<times> bool" where
  "ext_call metadata_mode S format file target argv =
     (case ifs_filesystem_module_call S (Some format) (Some file) (Some ''infiltrator_filesystem_ext_v1'') True of
        Called api \<Rightarrow> ext_invoke metadata_mode format file target argv api
      | _ \<Rightarrow> ((1, None), False))"

definition ext_formats :: "(string \<times> string) list" where
  "ext_formats = [(''ext2'', ''EXT2.so''), (''ext3'', ''EXT3.so''), (''ext4'', ''EXT4.so'')]"

fun ext_try :: "bool \<Rightarrow> driver_store \<Rightarrow> (string \<times> string) list \<Rightarrow> string \<Rightarrow> string list \<Rightarrow> dispatch" where
  "ext_try metadata_mode S [] target argv = (1, None)"
| "ext_try metadata_mode S ((key, file) # formats) target argv =
     (case ext_call metadata_mode S key file (Some target) argv of
        (result, matched) \<Rightarrow> if matched then result else ext_try metadata_mode S formats target argv)"

definition ext_main :: "bool \<Rightarrow> driver_store \<Rightarrow> string list \<Rightarrow> dispatch" where
  "ext_main metadata_mode S argv =
     (if length argv < 3 then fst (ext_call metadata_mode S ''ext4'' ''EXT4.so'' None argv)
      else ext_try metadata_mode S ext_formats (argv ! 2) argv)"

subsection \<open>Amiga\<close>

definition run_ffs :: "string list \<Rightarrow> driver_table option \<Rightarrow> dispatch" where
  "run_ffs argv =
     invoke_run (\<lambda>api. table_header 1 32 ''ffs'' api \<and> tb_capabilities api AND CAP_RUN = CAP_RUN) ''FFS.so'' argv"

text \<open>The value after the last \<open>--journal\<close>; the arguments are those from index 3 on.\<close>

fun journal_option :: "string list \<Rightarrow> string option \<Rightarrow> string option" where
  "journal_option (a # b # rest) found = journal_option (b # rest) (if a = ''--journal'' then Some b else found)"
| "journal_option _ found = found"

definition dos_prefix :: "u8 list \<Rightarrow> bool" where
  "dos_prefix signature \<longleftrightarrow> signature ! 0 = 0x44 \<and> signature ! 1 = 0x4F \<and> signature ! 2 = 0x53"

text \<open>
  \<open>read_signature\<close> gives the four bytes read from the target without following a link, or
  \<open>None\<close>; \<open>run_ofs\<close> is \<open>ifs_filesystem_module_run\<close> for \<open>OFS.so\<close>.
\<close>

definition affs_main ::
  "(path \<Rightarrow> string option) \<Rightarrow> (path \<Rightarrow> u8 list option) \<Rightarrow> (string list \<Rightarrow> dispatch) \<Rightarrow> driver_store \<Rightarrow> string list \<Rightarrow> dispatch" where
  "affs_main journal_content read_signature run_ofs S argv =
     (if length argv = 2 \<and> argv ! 1 = ''--version'' then (0, None)
      else if length argv < 3 then (2, None)
      else let recover = (argv ! 1 = ''recover''); journal = journal_option (drop 3 argv) None
        in if recover \<and> ifs_filesystem_journal_matches journal (Some ''ofs'') journal_content then run_ofs argv
           else let signature = (case read_signature (argv ! 2) of Some s \<Rightarrow> s | None \<Rightarrow> [0, 0, 0, 0])
             in if dos_prefix signature \<and> signature ! 3 \<le> 6 \<and> signature ! 3 AND 1 = 0 then run_ofs argv
                else if \<not> recover \<and> \<not> (dos_prefix signature \<and> (signature ! 3 = 1 \<or> signature ! 3 = 3 \<or> signature ! 3 = 5))
                then (1, None)
                else call_module S ''ffs'' ''FFS.so'' ''infiltrator_filesystem_ffs_defrag_v1'' (run_ffs argv))"

definition ofs_main :: "(string list \<Rightarrow> dispatch) \<Rightarrow> string list \<Rightarrow> dispatch" where
  "ofs_main run_ofs argv =
     (if length argv = 2 \<and> argv ! 1 = ''--version'' then (0, None)
      else if length argv < 3 then (2, None)
      else run_ofs argv)"

subsection \<open>FAT\<close>

record fat_table =
  ft_abi_version :: u32
  ft_structure_bytes :: u32
  ft_bits :: u32
  ft_probe :: "(string \<Rightarrow> int) option"
  ft_run :: "(string list \<Rightarrow> int) option"

text \<open>
  Loading a FAT module: \<open>None\<close> when \<open>dlopen\<close> fails, \<open>Some None\<close> when the symbol is missing,
  otherwise what the entry point returns.
\<close>

record fat_store =
  fs_parent :: "file_stat option option"
  fs_directory :: "file_stat option option"
  fs_open :: "string \<Rightarrow> file_stat option result"
  fs_load :: "string \<Rightarrow> fat_table option option option"

definition fat_candidates :: "(string \<times> u32) list" where
  "fat_candidates = [(''FAT12.so'', 12), (''FAT16.so'', 16), (''FAT32.so'', 32)]"

definition fat_table_valid :: "u32 \<Rightarrow> fat_table \<Rightarrow> bool" where
  "fat_table_valid width api \<longleftrightarrow> ft_abi_version api = 1 \<and> ft_structure_bytes api \<ge> 32 \<and> ft_bits api = width \<and>
     ft_probe api \<noteq> None \<and> ft_run api \<noteq> None"

fun fat_try :: "fat_store \<Rightarrow> (string \<times> u32) list \<Rightarrow> string list \<Rightarrow> dispatch" where
  "fat_try S [] argv = (1, None)"
| "fat_try S ((name, width) # rest) argv =
     (case fs_open S name of
        Inl e \<Rightarrow> if e = ENOENT then fat_try S rest argv else (1, None)
      | Inr st \<Rightarrow>
          if \<not> trusted st False then (1, None)
          else (case fs_load S name of
                  None \<Rightarrow> (1, None)
                | Some None \<Rightarrow> fat_try S rest argv
                | Some (Some None) \<Rightarrow> (1, None)
                | Some (Some (Some api)) \<Rightarrow>
                    if \<not> fat_table_valid width api then (1, None)
                    else (case (ft_probe api, ft_run api) of
                            (Some probe, Some run) \<Rightarrow>
                              let matched = probe (argv ! 2)
                              in if matched < 0 then (1, None)
                                 else if matched = 1 then (let r = run argv in (if r < 0 then 1 else r, Some name))
                                 else fat_try S rest argv
                          | _ \<Rightarrow> (1, None))))"

definition fat_main :: "fat_store \<Rightarrow> string list \<Rightarrow> dispatch" where
  "fat_main S argv =
     (if length argv = 2 \<and> argv ! 1 = ''--version'' then (0, None)
      else if length argv < 3 then (1, None)
      else if \<not> opened_trusted (fs_parent S) True then (1, None)
      else if \<not> opened_trusted (fs_directory S) True then (1, None)
      else fat_try S fat_candidates argv)"

subsection \<open>Properties\<close>

definition installed :: "driver_store \<Rightarrow> string \<Rightarrow> string \<Rightarrow> driver_table \<Rightarrow> bool" where
  "installed S file interface api \<longleftrightarrow>
     opened_trusted (ms_system S) True \<and> opened_trusted (ms_filesystems S) True \<and> opened_trusted (ms_open S file) False \<and>
     (\<exists>img. ms_dlopen S file = Some img \<and> mi_symbol img interface = Some (Some api))"

lemma module_call_installed:
  assumes "ifs_filesystem_module_call S (Some format) (Some file) (Some interface) True = Called (Some api)"
  shows "installed S file interface api"
  using assms by (auto simp: ifs_filesystem_module_call_def installed_def split: if_splits option.splits)

lemma call_module_cases:
  assumes "call_module S format file interface callback = (r, x)"
  obtains "r = 1" "x = None"
  | "callback None = (r, x)"
  | api where "installed S file interface api" "callback (Some api) = (r, x)"
proof (cases "ifs_filesystem_module_call S (Some format) (Some file) (Some interface) True")
  case (Called api)
  with assms have "callback api = (r, x)" by (simp add: call_module_def)
  with Called that show thesis by (cases api) (auto dest: module_call_installed)
qed (use assms that in \<open>auto simp: call_module_def\<close>)

lemma invoke_run_Some:
  "invoke_run valid file argv api = (r, Some f) \<Longrightarrow>
   \<exists>a run. api = Some a \<and> valid a \<and> tb_run a = Some run \<and> r = run argv \<and> f = file"
  by (auto simp: invoke_run_def split: option.splits if_splits)

lemma call_run:
  assumes "call_module S format file interface (invoke_run valid file argv) = (r, Some f)"
  shows "\<exists>api run. installed S file interface api \<and> valid api \<and> tb_run api = Some run \<and> r = run argv \<and> f = file"
  using assms by (rule call_module_cases) (auto dest!: invoke_run_Some)

text \<open>The workers with one module each: format, file, interface and program.\<close>

definition single_workers :: "(string \<times> string \<times> string \<times> (driver_store \<Rightarrow> string list \<Rightarrow> dispatch)) list" where
  "single_workers =
     [(''ntfs'', ''NTFS.so'', ''infiltrator_filesystem_ntfs_v1'', ntfs_main),
      (''xfs'', ''XFS.so'', ''infiltrator_filesystem_xfs_v1'', xfs_main),
      (''btrfs'', ''BTRFS.so'', ''infiltrator_filesystem_btrfs_v1'', btrfs_main),
      (''hfs'', ''HFS.so'', ''infiltrator_filesystem_hfs_v1'', hfs_main),
      (''hfsplus'', ''HFSPLUS.so'', ''infiltrator_filesystem_hfsplus_v1'', hfsplus_main),
      (''minix'', ''MINIX.so'', ''infiltrator_filesystem_minix_defrag_v1'', minix_main),
      (''zfs'', ''ZFS.so'', ''infiltrator_filesystem_zfs_v1'', zfs_main),
      (''swap'', ''SWAP.so'', ''infiltrator_filesystem_swap_v1'', swap_main),
      (''exfat'', ''exFAT.so'', ''infiltrator_filesystem_exfat_defrag_v1'', exfat_main),
      (''apfs'', ''APFS.so'', ''infiltrator_filesystem_apfs_v1'', apfs_main),
      (''pfs3'', ''PFS3.so'', ''infiltrator_filesystem_pfs3_v1'', pfs3_main),
      (''sfs'', ''SFS.so'', ''infiltrator_filesystem_sfs_v1'', sfs_main)]"

lemma run_bit:
  assumes "x AND (CAP_RUN OR CAP_FIXTURE) = CAP_RUN OR CAP_FIXTURE"
  shows "x AND CAP_RUN \<noteq> 0"
proof (rule caps_include [OF assms])
  show "(CAP_RUN OR CAP_FIXTURE) AND CAP_RUN = CAP_RUN" by (auto intro!: bit_eqI simp: bit_simps)
qed (simp add: CAP_RUN_def)

lemma CAP_RUN_nonzero [simp]: "CAP_RUN \<noteq> 0"
  by (simp add: CAP_RUN_def)

definition binds :: "string \<Rightarrow> (driver_table \<Rightarrow> bool) \<Rightarrow> bool" where
  "binds format valid \<longleftrightarrow> (\<forall>api. valid api \<longrightarrow>
     tb_abi_version api = 1 \<and> tb_format_id api = Some format \<and> tb_capabilities api AND CAP_RUN \<noteq> 0)"

lemma binds_tables:
  "binds format (run_capable bytes format)"
  "binds format (run_and_fixture bytes format)"
  "binds format (\<lambda>api. table_header 1 bytes format api \<and> tb_capabilities api AND CAP_RUN = CAP_RUN)"
  by (auto simp: binds_def run_capable_def run_and_fixture_def table_header_def dest: run_bit)

definition worker_bound :: "driver_store \<Rightarrow> string \<Rightarrow> string \<Rightarrow> string \<Rightarrow> string list \<Rightarrow> dispatch \<Rightarrow> bool" where
  "worker_bound S format file interface argv d \<longleftrightarrow> d = (1, None) \<or>
    (\<exists>api run. installed S file interface api \<and> tb_abi_version api = 1 \<and> tb_format_id api = Some format \<and>
       tb_capabilities api AND CAP_RUN \<noteq> 0 \<and> tb_run api = Some run \<and> d = (run argv, Some file))"

lemma bound_worker:
  assumes "binds format valid"
  shows "worker_bound S format file interface argv (call_module S format file interface (invoke_run valid file argv))"
proof -
  obtain r x where p: "call_module S format file interface (invoke_run valid file argv) = (r, x)" by fastforce
  then show ?thesis
    by (rule call_module_cases)
       (use p assms in \<open>auto simp: worker_bound_def invoke_run_def binds_def split: option.splits if_splits\<close>)
qed

text \<open>
  Property C15. A worker program for a single file system executes module code only from a trusted
  directory and file, through the versioned table of its own interface, and only when that
  table has version 1, names the worker's format and grants the run capability; the exit
  code is then the module's, and 1 otherwise.
\<close>
theorem single_worker_binds_format:
  assumes "(format, file, interface, program) \<in> set single_workers"
  shows "program S argv = (1, None) \<or>
    (\<exists>api run. installed S file interface api \<and> tb_abi_version api = 1 \<and> tb_format_id api = Some format \<and>
       tb_capabilities api AND CAP_RUN \<noteq> 0 \<and> tb_run api = Some run \<and> program S argv = (run argv, Some file))"
proof -
  have "worker_bound S format file interface argv (program S argv)"
    using assms
    by (auto simp: single_workers_def ntfs_main_def xfs_main_def btrfs_main_def hfs_main_def hfsplus_main_def minix_main_def
        zfs_main_def swap_main_def exfat_main_def apfs_main_def pfs3_main_def sfs_main_def intro!: bound_worker binds_tables)
  then show ?thesis by (simp add: worker_bound_def)
qed

definition demo_ntfs :: driver_table where
  "demo_ntfs = \<lparr>tb_abi_version = 1, tb_structure_bytes = 40, tb_format_id = Some ''ntfs'', tb_capabilities = 1,
     tb_run = Some (\<lambda>argv. 7), tb_fixture = True, tb_metadata = None, tb_probe = Some (\<lambda>p. 0),
     tb_format_test_media = None, tb_volume_check = None, tb_verify_payload = False\<rparr>"

definition driver_store_of :: "driver_table \<Rightarrow> driver_store" where
  "driver_store_of api = \<lparr>ms_system = Some (Some (root_file 0x41ED)), ms_filesystems = Some (Some (root_file 0x41ED)),
     ms_entries = None, ms_open = \<lambda>n. Some (Some (root_file 0x81A4)),
     ms_dlopen = \<lambda>n. Some \<lparr>mi_defrag_v2 = None, mi_symbol = \<lambda>i. Some (Some api)\<rparr>\<rparr>"

theorem single_worker_binds_format_witness:
  "ntfs_main (driver_store_of demo_ntfs) [''w'', ''analyse'', ''/dev/x''] = (7, Some ''NTFS.so'') \<and>
   installed (driver_store_of demo_ntfs) ''NTFS.so'' ''infiltrator_filesystem_ntfs_v1'' demo_ntfs"
proof -
  have run: "ntfs_main (driver_store_of demo_ntfs) [''w'', ''analyse'', ''/dev/x''] = (7, Some ''NTFS.so'')"
    by (simp add: ntfs_main_def call_module_def ifs_filesystem_module_call_def driver_store_of_def opened_trusted_def
        demo_trusted invoke_run_def run_capable_def table_header_def demo_ntfs_def CAP_RUN_def)
  have "(''ntfs'', ''NTFS.so'', ''infiltrator_filesystem_ntfs_v1'', ntfs_main) \<in> set single_workers"
    by (simp add: single_workers_def)
  from single_worker_binds_format [OF this, of "driver_store_of demo_ntfs" "[''w'', ''analyse'', ''/dev/x'']"] run
  show ?thesis by (auto simp: installed_def driver_store_of_def)
qed

lemma detect_accepts:
  assumes "fst (detect_driver S format file (Some target)) = 0"
  shows "\<exists>api probe. installed S file ''infiltrator_filesystem_ufs_probe_v1'' api \<and> tb_format_id api = Some format \<and>
    tb_probe api = Some probe \<and> probe target = 0"
proof -
  obtain r x where p: "detect_driver S format file (Some target) = (r, x)" by fastforce
  with assms have "r = 0" by simp
  from p [unfolded detect_driver_def] show ?thesis
    by (rule call_module_cases)
       (use \<open>r = 0\<close> in \<open>auto simp: probe_volume_def table_header_def split: option.splits if_splits\<close>)
qed

lemma ext_try_Some:
  "ext_try m S formats target argv = (r, Some f) \<Longrightarrow>
   \<exists>pre key post api probe. formats = pre @ (key, f) # post \<and>
     installed S f ''infiltrator_filesystem_ext_v1'' api \<and> tb_format_id api = Some key \<and>
     tb_probe api = Some probe \<and> probe target = 0 \<and>
     (\<forall>(k, g) \<in> set pre. snd (ext_call m S k g (Some target) argv) = False)"
proof (induction formats)
  case (Cons x formats)
  obtain key so where x: "x = (key, so)" by fastforce
  obtain d matched where c: "ext_call m S key so (Some target) argv = (d, matched)" by fastforce
  show ?case
  proof (cases matched)
    case True
    with Cons.prems x c have d: "d = (r, Some f)" by simp
    from c True obtain api where "ifs_filesystem_module_call S (Some key) (Some so)
        (Some ''infiltrator_filesystem_ext_v1'') True = Called (Some api)"
      "ext_invoke m key so (Some target) argv (Some api) = (d, True)"
      by (auto simp: ext_call_def ext_invoke_def split: call_outcome.splits option.splits)
    with d x module_call_installed show ?thesis
      by (intro exI [of _ "[]"] exI [of _ key] exI [of _ formats] exI [of _ api])
         (auto simp: ext_invoke_def table_header_def split: if_splits option.splits)
  next
    case False
    with Cons.prems x c have "ext_try m S formats target argv = (r, Some f)" by simp
    from Cons.IH [OF this] obtain pre key' post api probe where h: "formats = pre @ (key', f) # post"
      "installed S f ''infiltrator_filesystem_ext_v1'' api" "tb_format_id api = Some key'"
      "tb_probe api = Some probe" "probe target = 0"
      "\<forall>(k, g) \<in> set pre. snd (ext_call m S k g (Some target) argv) = False" by blast
    with x c False show ?thesis
      by (intro exI [of _ "x # pre"] exI [of _ key'] exI [of _ post] exI [of _ api] exI [of _ probe]) auto
  qed
qed simp

text \<open>
  The UFS and EXT workers hand a target to a module only after that module's own read-only
  probe, reached through a trusted table naming its format, accepted the target; UFS1 is
  used only when UFS2 did not accept it, and an EXT module only when every earlier one did
  not match. Without an accepting module nothing is executed.
\<close>
theorem owner_probed_first:
  assumes "3 \<le> length argv"
  shows "(ufs_main S argv = (r, Some file) \<longrightarrow>
      (\<exists>format api probe. (format, file) \<in> {(''ufs2'', ''UFS2.so''), (''ufs1'', ''UFS1.so'')} \<and>
         installed S file ''infiltrator_filesystem_ufs_probe_v1'' api \<and> tb_format_id api = Some format \<and>
         tb_probe api = Some probe \<and> probe (argv ! 2) = 0 \<and>
         (file = ''UFS1.so'' \<longrightarrow> fst (detect_driver S ''ufs2'' ''UFS2.so'' (Some (argv ! 2))) \<noteq> 0))) \<and>
    (ext_main m S argv = (r, Some file) \<longrightarrow>
      (\<exists>pre key post api probe. ext_formats = pre @ (key, file) # post \<and>
         installed S file ''infiltrator_filesystem_ext_v1'' api \<and> tb_format_id api = Some key \<and>
         tb_probe api = Some probe \<and> probe (argv ! 2) = 0 \<and>
         (\<forall>(k, g) \<in> set pre. snd (ext_call m S k g (Some (argv ! 2)) argv) = False)))"
proof (intro conjI impI)
  assume u: "ufs_main S argv = (r, Some file)"
  let ?t = "Some (argv ! 2)"
  consider (two) "fst (detect_driver S ''ufs2'' ''UFS2.so'' ?t) = 0" "use_driver S ''ufs2'' ''UFS2.so'' argv = (r, Some file)"
    | (one) "fst (detect_driver S ''ufs2'' ''UFS2.so'' ?t) \<noteq> 0" "fst (detect_driver S ''ufs1'' ''UFS1.so'' ?t) = 0"
        "use_driver S ''ufs1'' ''UFS1.so'' argv = (r, Some file)"
    using u assms by (auto simp: ufs_main_def Let_def split: if_splits)
  then show "\<exists>format api probe. (format, file) \<in> {(''ufs2'', ''UFS2.so''), (''ufs1'', ''UFS1.so'')} \<and>
         installed S file ''infiltrator_filesystem_ufs_probe_v1'' api \<and> tb_format_id api = Some format \<and>
         tb_probe api = Some probe \<and> probe (argv ! 2) = 0 \<and>
         (file = ''UFS1.so'' \<longrightarrow> fst (detect_driver S ''ufs2'' ''UFS2.so'' ?t) \<noteq> 0)"
  proof cases
    case two
    then have "file = ''UFS2.so''" by (auto simp: use_driver_def dest: call_run)
    with detect_accepts [OF two(1)] show ?thesis by auto
  next
    case one
    then have "file = ''UFS1.so''" by (auto simp: use_driver_def dest: call_run)
    with detect_accepts [OF one(2)] one(1) show ?thesis by auto
  qed
next
  assume "ext_main m S argv = (r, Some file)"
  with assms have "ext_try m S ext_formats (argv ! 2) argv = (r, Some file)" by (simp add: ext_main_def)
  then show "\<exists>pre key post api probe. ext_formats = pre @ (key, file) # post \<and>
         installed S file ''infiltrator_filesystem_ext_v1'' api \<and> tb_format_id api = Some key \<and>
         tb_probe api = Some probe \<and> probe (argv ! 2) = 0 \<and>
         (\<forall>(k, g) \<in> set pre. snd (ext_call m S k g (Some (argv ! 2)) argv) = False)"
    by (rule ext_try_Some)
qed

definition demo_ufs :: driver_table where
  "demo_ufs = demo_ntfs\<lparr>tb_format_id := Some ''ufs1''\<rparr>"

lemma demo_ufs_run:
  "ufs_main (driver_store_of demo_ufs) [''w'', ''defrag'', ''/dev/x''] = (7, Some ''UFS1.so'')"
  by (simp add: ufs_main_def detect_driver_def use_driver_def call_module_def ifs_filesystem_module_call_def
      driver_store_of_def opened_trusted_def demo_trusted probe_volume_def table_header_def demo_ufs_def demo_ntfs_def
      invoke_run_def run_capable_def CAP_RUN_def)

theorem owner_probed_first_witness:
  "fst (detect_driver (driver_store_of demo_ufs) ''ufs2'' ''UFS2.so'' (Some ''/dev/x'')) \<noteq> 0"
  using owner_probed_first [of "[''w'', ''defrag'', ''/dev/x'']" "driver_store_of demo_ufs" 7 "''UFS1.so''" False] demo_ufs_run
  by auto

definition fat_absent :: "fat_store \<Rightarrow> string list \<Rightarrow> string \<times> u32 \<Rightarrow> bool" where
  "fat_absent S argv c = (case c of (name, width) \<Rightarrow> fs_open S name = Inl ENOENT \<or>
     (\<exists>st. fs_open S name = Inr st \<and> trusted st False \<and>
        (fs_load S name = Some None \<or>
         (\<exists>api probe. fs_load S name = Some (Some (Some api)) \<and> fat_table_valid width api \<and>
            ft_probe api = Some probe \<and> 0 \<le> probe (argv ! 2) \<and> probe (argv ! 2) \<noteq> 1))))"

lemma fat_try_Some:
  "fat_try S cs argv = (r, Some f) \<Longrightarrow>
   \<exists>pre width post st api probe run. cs = pre @ (f, width) # post \<and> (\<forall>c \<in> set pre. fat_absent S argv c) \<and>
     fs_open S f = Inr st \<and> trusted st False \<and> fs_load S f = Some (Some (Some api)) \<and> fat_table_valid width api \<and>
     ft_probe api = Some probe \<and> probe (argv ! 2) = 1 \<and> ft_run api = Some run \<and> r = (if run argv < 0 then 1 else run argv)"
proof (induction cs)
  case (Cons c cs)
  obtain name width where c: "c = (name, width)" by fastforce
  show ?case
  proof (cases "fat_absent S argv c")
    case True
    with Cons.prems c have "fat_try S cs argv = (r, Some f)"
      by (auto simp: fat_absent_def fat_table_valid_def split: option.splits if_splits)
    from Cons.IH [OF this] True show ?thesis by (metis append_Cons set_ConsD)
  next
    case False
    with Cons.prems c show ?thesis
      by (intro exI [of _ "[]"])
         (auto simp: fat_absent_def Let_def split: sum.splits option.splits if_splits)
  qed
qed simp

text \<open>
  The FAT worker executes the first of FAT12, FAT16 and FAT32 whose module recognises the
  target, and only through a trusted file whose table has the right version and width; each
  earlier width was absent, too old to have the interface, or a valid module that did not
  recognise the target. A present but untrusted or invalid module stops the search. A
  negative result of the module becomes exit code 1.
\<close>
theorem fat_first_match:
  assumes "fat_main S argv = (r, Some file)"
  shows "opened_trusted (fs_parent S) True \<and> opened_trusted (fs_directory S) True \<and>
    (\<exists>pre width post st api probe run. fat_candidates = pre @ (file, width) # post \<and>
       (\<forall>c \<in> set pre. fat_absent S argv c) \<and>
       fs_open S file = Inr st \<and> trusted st False \<and> fs_load S file = Some (Some (Some api)) \<and>
       fat_table_valid width api \<and> ft_probe api = Some probe \<and> probe (argv ! 2) = 1 \<and>
       ft_run api = Some run \<and> r = (if run argv < 0 then 1 else run argv))"
proof -
  have t: "opened_trusted (fs_parent S) True" "opened_trusted (fs_directory S) True"
    "fat_try S fat_candidates argv = (r, Some file)"
    using assms by (auto simp: fat_main_def split: if_splits)
  from fat_try_Some [OF t(3)] t(1,2) show ?thesis by blast
qed

definition demo_fat :: fat_store where
  "demo_fat = \<lparr>fs_parent = Some (Some (root_file 0x41ED)), fs_directory = Some (Some (root_file 0x41ED)),
     fs_open = \<lambda>n. if n = ''FAT12.so'' then Inl ENOENT else Inr (Some (root_file 0x81A4)),
     fs_load = \<lambda>n. Some (Some (Some \<lparr>ft_abi_version = 1, ft_structure_bytes = 32,
       ft_bits = (if n = ''FAT16.so'' then 16 else 32),
       ft_probe = Some (\<lambda>p. if n = ''FAT16.so'' then 0 else 1), ft_run = Some (\<lambda>a. -5)\<rparr>))\<rparr>"

lemma demo_fat_run: "fat_main demo_fat [''w'', ''defrag'', ''/dev/x''] = (1, Some ''FAT32.so'')"
  by (simp add: fat_main_def demo_fat_def opened_trusted_def demo_trusted fat_candidates_def fat_table_valid_def)

theorem fat_first_match_witness:
  "\<exists>pre width post. fat_candidates = pre @ (''FAT32.so'', width) # post \<and>
     (\<forall>c \<in> set pre. fat_absent demo_fat [''w'', ''defrag'', ''/dev/x''] c)"
  using fat_first_match [OF demo_fat_run] by blast

end
