(* ===== verification/Corpus.thy ===== *)
theory Corpus
  imports Device
begin

text \<open>
  The qualification corpus of \<open>test_media/test_media_core.c\<close>: the table of file-system slots,
  capacities, the fragment profile, the \<open>sfdisk\<close> script and program resolution.
  \<open>access\<close> and Common's number parser are parameters. The module preflight of that file is in
  theory \<open>Fixtures\<close>.
\<close>

subsection \<open>Slots\<close>

datatype LdtmCreator =
    LDTM_CREATOR_FAT12 | LDTM_CREATOR_FAT16 | LDTM_CREATOR_FAT32 | LDTM_CREATOR_EXFAT | LDTM_CREATOR_NTFS
  | LDTM_CREATOR_EXT2 | LDTM_CREATOR_EXT3 | LDTM_CREATOR_EXT4 | LDTM_CREATOR_XFS | LDTM_CREATOR_BTRFS
  | LDTM_CREATOR_AFFS | LDTM_CREATOR_PFS3 | LDTM_CREATOR_HFS | LDTM_CREATOR_HFSPLUS | LDTM_CREATOR_MINIX
  | LDTM_CREATOR_UFS | LDTM_CREATOR_ZFS | LDTM_CREATOR_APFS | LDTM_CREATOR_MANUAL | LDTM_CREATOR_SWAP

text \<open>The explanatory \<open>note\<close> of a slot, shown only for a manual creator, is left out.\<close>

record LdtmFilesystemSpec =
  sp_key :: string
  sp_label :: string
  sp_size_mib :: u32
  sp_payload_mib :: u32
  sp_creator :: LdtmCreator

definition slot :: "string \<Rightarrow> string \<Rightarrow> u32 \<Rightarrow> u32 \<Rightarrow> LdtmCreator \<Rightarrow> LdtmFilesystemSpec" where
  "slot key label size_mib payload_mib creator =
     \<lparr>sp_key = key, sp_label = label, sp_size_mib = size_mib, sp_payload_mib = payload_mib, sp_creator = creator\<rparr>"

definition LDTM_MIB :: u64 where "LDTM_MIB = 1048576"
definition LDTM_GIB :: u64 where "LDTM_GIB = 1073741824"
definition LDTM_SPEC_COUNT :: nat where "LDTM_SPEC_COUNT = 21"
definition LDTM_TARGET_FILE_COUNT :: nat where "LDTM_TARGET_FILE_COUNT = 8"

definition LDTM_SPECS :: "LdtmFilesystemSpec list" where
  "LDTM_SPECS =
     [slot ''fat12'' ''LD_FAT12'' 255 200 LDTM_CREATOR_FAT12,
      slot ''fat16'' ''LD_FAT16'' 2048 200 LDTM_CREATOR_FAT16,
      slot ''fat32'' ''LD_FAT32'' 2048 200 LDTM_CREATOR_FAT32,
      slot ''exfat'' ''LD_EXFAT'' 2048 200 LDTM_CREATOR_EXFAT,
      slot ''ntfs'' ''LD_NTFS'' 2048 200 LDTM_CREATOR_NTFS,
      slot ''ext2'' ''LD_EXT2'' 2048 200 LDTM_CREATOR_EXT2,
      slot ''ext3'' ''LD_EXT3'' 2048 200 LDTM_CREATOR_EXT3,
      slot ''ext4'' ''LD_EXT4'' 2048 200 LDTM_CREATOR_EXT4,
      slot ''xfs'' ''LD_XFS'' 2048 200 LDTM_CREATOR_XFS,
      slot ''btrfs'' ''LD_BTRFS'' 2048 200 LDTM_CREATOR_BTRFS,
      slot ''ofs'' ''LD_OFS'' 2048 200 LDTM_CREATOR_AFFS,
      slot ''ffs'' ''LD_FFS'' 2048 200 LDTM_CREATOR_AFFS,
      slot ''sfs'' ''LD_SFS'' 2048 200 LDTM_CREATOR_AFFS,
      slot ''pfs3'' ''LD_PFS3'' 2048 200 LDTM_CREATOR_PFS3,
      slot ''hfs'' ''LD_HFS'' 2048 200 LDTM_CREATOR_HFS,
      slot ''hfsplus'' ''LD_HFSPLUS'' 2048 200 LDTM_CREATOR_HFSPLUS,
      slot ''minix'' ''LD_MINIX'' 2048 200 LDTM_CREATOR_MINIX,
      slot ''ufs'' ''LD_UFS'' 2048 200 LDTM_CREATOR_UFS,
      slot ''zfs'' ''LD_ZFS'' 2048 200 LDTM_CREATOR_ZFS,
      slot ''apfs'' ''LD_APFS'' 2048 200 LDTM_CREATOR_APFS,
      slot ''swap'' ''LD_SWAP'' 2048 0 LDTM_CREATOR_SWAP]"

definition ldtm_specs :: "LdtmFilesystemSpec list" where "ldtm_specs = LDTM_SPECS"

definition ldtm_spec_count :: nat where "ldtm_spec_count = LDTM_SPEC_COUNT"

definition ldtm_find_spec :: "string option \<Rightarrow> LdtmFilesystemSpec option" where
  "ldtm_find_spec key = (case key of None \<Rightarrow> None | Some key \<Rightarrow> List.find (\<lambda>spec. sp_key spec = key) LDTM_SPECS)"

definition ldtm_allocated_capacity_bytes :: u64 where
  "ldtm_allocated_capacity_bytes = foldl (\<lambda>total spec. total + ucast (sp_size_mib spec) * LDTM_MIB) 0 LDTM_SPECS"

definition ldtm_required_capacity_bytes :: u64 where
  "ldtm_required_capacity_bytes = ldtm_allocated_capacity_bytes + LDTM_GIB"

subsection \<open>Fragment profiles\<close>

record LdtmFragmentProfile =
  fp_files :: u32
  fp_chunks :: u32
  fp_chunk_kib :: u32
  fp_directory_initial :: u32
  fp_directory_second :: u32
  fp_file_chunks :: "u32 list"

definition ldtm_fragment_profile :: "LdtmFilesystemSpec option \<Rightarrow> LdtmFragmentProfile" where
  "ldtm_fragment_profile spec =
     (let profile = \<lparr>fp_files = of_nat LDTM_TARGET_FILE_COUNT, fp_chunks = 30, fp_chunk_kib = 2048,
            fp_directory_initial = 0, fp_directory_second = 0, fp_file_chunks = [2, 3, 5, 8, 13, 17, 22, 30]\<rparr>
      in case spec of
           None \<Rightarrow> profile
         | Some spec \<Rightarrow>
             if sp_key spec = ''ofs'' \<or> sp_key spec = ''ffs''
             then profile\<lparr>fp_directory_initial := 4096, fp_directory_second := 4096\<rparr>
             else profile)"

definition ldtm_profile_file_chunks :: "LdtmFragmentProfile option \<Rightarrow> nat \<Rightarrow> u32" where
  "ldtm_profile_file_chunks profile file_index =
     (case profile of
        None \<Rightarrow> 0
      | Some profile \<Rightarrow>
          if file_index \<ge> unat (fp_files profile) \<or> file_index \<ge> LDTM_TARGET_FILE_COUNT then 0
          else if fp_file_chunks profile ! file_index \<noteq> 0 then fp_file_chunks profile ! file_index
          else fp_chunks profile)"

definition ldtm_profile_file_bytes :: "LdtmFragmentProfile \<Rightarrow> nat \<Rightarrow> u64" where
  "ldtm_profile_file_bytes profile file_index =
     ucast (ldtm_profile_file_chunks (Some profile) file_index) * ucast (fp_chunk_kib profile) * 1024"

definition ldtm_profile_payload_bytes :: "LdtmFragmentProfile option \<Rightarrow> u64" where
  "ldtm_profile_payload_bytes profile =
     (case profile of
        None \<Rightarrow> 0
      | Some profile \<Rightarrow>
          foldl (\<lambda>total file. total + ldtm_profile_file_bytes profile file) 0 [0..<unat (fp_files profile)])"

definition ldtm_target_payload_bytes :: "LdtmFilesystemSpec option \<Rightarrow> u64" where
  "ldtm_target_payload_bytes spec =
     (case spec of
        None \<Rightarrow> 0
      | Some s \<Rightarrow>
          if sp_payload_mib s = 0 then 0 else ldtm_profile_payload_bytes (Some (ldtm_fragment_profile spec)))"

subsection \<open>The partition script\<close>

text \<open>\<open>appendf\<close> on the text written so far; \<open>None\<close> when it does not fit.\<close>

definition appendf :: "nat \<Rightarrow> string \<Rightarrow> string \<Rightarrow> string option" where
  "appendf capacity used text =
     (if length used \<ge> capacity then None
      else if length text \<ge> capacity - length used then None
      else Some (used @ text))"

definition script_line :: "LdtmFilesystemSpec \<Rightarrow> string" where
  "script_line spec =
     ''size='' @ show_u32 (sp_size_mib spec) @ ''MiB, type='' @
     (if sp_creator spec = LDTM_CREATOR_SWAP then ''swap'' else ''linux'') @
     '', name=\"'' @ sp_label spec @ ''\"\<newline>''"

fun append_lines :: "nat \<Rightarrow> LdtmFilesystemSpec list \<Rightarrow> string \<Rightarrow> string option" where
  "append_lines capacity [] used = Some used"
| "append_lines capacity (spec # specs) used =
     (case appendf capacity used (script_line spec) of
        None \<Rightarrow> None
      | Some used \<Rightarrow> append_lines capacity specs used)"

definition ldtm_build_sfdisk_script :: "nat \<Rightarrow> string option" where
  "ldtm_build_sfdisk_script capacity =
     (if capacity = 0 then None
      else case appendf capacity [] ''label: gpt\<newline>\<newline>'' of
             None \<Rightarrow> None
           | Some used \<Rightarrow> append_lines capacity LDTM_SPECS used)"

definition ldtm_transport_is_field_media :: "int \<Rightarrow> string option \<Rightarrow> bool" where
  "ldtm_transport_is_field_media removable transport = True"

definition ldtm_canonicalize_device :: "host_view \<Rightarrow> path \<Rightarrow> nat \<Rightarrow> string option" where
  "ldtm_canonicalize_device V input output_capacity =
     (case realpath_copy V input output_capacity of Inl _ \<Rightarrow> None | Inr p \<Rightarrow> Some p)"

definition ldtm_decode_hex_byte :: "(string \<Rightarrow> u64 \<Rightarrow> u64 option) \<Rightarrow> char \<Rightarrow> char \<Rightarrow> u8 option" where
  "ldtm_decode_hex_byte parse_u64 high low =
     (case parse_u64 (c_string [high, low]) 16 of
        None \<Rightarrow> None
      | Some parsed \<Rightarrow> if parsed > 255 then None else Some (ucast parsed))"

subsection \<open>Programs\<close>

definition ldtm_creator_program :: "LdtmFilesystemSpec option \<Rightarrow> string option" where
  "ldtm_creator_program spec =
     (case spec of
        None \<Rightarrow> None
      | Some spec \<Rightarrow>
          if sp_creator spec = LDTM_CREATOR_UFS then Some ''makefs''
          else if sp_creator spec = LDTM_CREATOR_AFFS \<and> sp_key spec = ''ofs''
          then Some ''/System/Commands/Defragmenter/test-media-mkfs-ofs''
          else if sp_creator spec = LDTM_CREATOR_AFFS \<and> sp_key spec = ''ffs''
          then Some ''/System/Commands/Defragmenter/test-media-mkfs-ffs''
          else None)"

definition ldtm_creator_display_name :: "LdtmFilesystemSpec option \<Rightarrow> string" where
  "ldtm_creator_display_name spec =
     (case spec of
        None \<Rightarrow> ''Unavailable''
      | Some spec \<Rightarrow> if sp_creator spec = LDTM_CREATOR_MANUAL then ''Manual'' else ''Filesystem driver'')"

text \<open>\<open>executable\<close> answers \<open>access (\<dots>, X_OK)\<close>.\<close>

definition copy_resolved_program :: "host_view \<Rightarrow> (path \<Rightarrow> bool) \<Rightarrow> string \<Rightarrow> nat \<Rightarrow> string option" where
  "copy_resolved_program V executable program output_capacity =
     (case realpath V program of
        Inl _ \<Rightarrow> None
      | Inr resolved \<Rightarrow>
          if \<not> executable resolved then None
          else if length resolved + 1 > output_capacity then None
          else Some resolved)"

definition program_directories :: "string list" where
  "program_directories = [''/usr/sbin'', ''/usr/bin'', ''/sbin'', ''/bin'', ''/usr/local/sbin'', ''/usr/local/bin'']"

fun search_program :: "host_view \<Rightarrow> (path \<Rightarrow> bool) \<Rightarrow> string \<Rightarrow> nat \<Rightarrow> string list \<Rightarrow> string option" where
  "search_program V executable program output_capacity [] = None"
| "search_program V executable program output_capacity (directory # directories) =
     (let candidate = directory @ ''/'' @ program
      in if \<not> fits PATH_MAX candidate \<or> \<not> executable candidate
         then search_program V executable program output_capacity directories
         else case copy_resolved_program V executable candidate output_capacity of
                Some resolved \<Rightarrow> Some resolved
              | None \<Rightarrow> search_program V executable program output_capacity directories)"

definition ldtm_resolve_program :: "host_view \<Rightarrow> (path \<Rightarrow> bool) \<Rightarrow> string option \<Rightarrow> nat \<Rightarrow> string option" where
  "ldtm_resolve_program V executable program output_capacity =
     (case program of
        None \<Rightarrow> None
      | Some program \<Rightarrow>
          if program = [] \<or> output_capacity = 0 then None
          else if program = ''makefs''
          then copy_resolved_program V executable ''/System/Commands/Defragmenter/test-media-mkfs-ufs'' output_capacity
          else if CHR ''/'' \<in> set program
          then (if \<not> starts_with program ''/'' then None
                else copy_resolved_program V executable program output_capacity)
          else search_program V executable program output_capacity program_directories)"

definition ldtm_program_available :: "host_view \<Rightarrow> (path \<Rightarrow> bool) \<Rightarrow> string option \<Rightarrow> bool" where
  "ldtm_program_available V executable program \<longleftrightarrow> ldtm_resolve_program V executable program PATH_MAX \<noteq> None"

subsection \<open>Lemmas\<close>

lemma find_Some_distinct:
  assumes "distinct (map f xs)"
  shows "List.find (\<lambda>x. f x = k) xs = Some x \<longleftrightarrow> x \<in> set xs \<and> f x = k"
  using assms by (induction xs) (auto simp: rev_image_eqI)

lemma spec_table:
  "length LDTM_SPECS = LDTM_SPEC_COUNT" "distinct (map sp_key LDTM_SPECS)" "distinct (map sp_label LDTM_SPECS)"
  by (simp_all add: LDTM_SPECS_def LDTM_SPEC_COUNT_def slot_def)

lemma appendf_Some:
  "appendf capacity used text = (if length used + length text < capacity then Some (used @ text) else None)"
  by (auto simp: appendf_def)

lemma append_lines_exact:
  assumes "length used < capacity"
  shows "append_lines capacity specs used =
    (let whole = used @ concat (map script_line specs) in if length whole < capacity then Some whole else None)"
  using assms
proof (induction specs arbitrary: used)
  case (Cons spec specs)
  show ?case
    by (cases "length used + length (script_line spec) < capacity")
       (simp_all add: appendf_Some Cons.IH Let_def)
qed simp

definition script_text :: string where
  "script_text = ''label: gpt\<newline>\<newline>'' @ concat (map script_line LDTM_SPECS)"

text \<open>
  The partition script is either complete or refused: for every buffer size,
  \<open>ldtm_build_sfdisk_script\<close> yields the GPT label and one line per slot, in table order, exactly
  when text and terminator fit the buffer; a shorter buffer never yields a truncated script that
  would leave slots out.
\<close>
theorem sfdisk_script_complete:
  "ldtm_build_sfdisk_script capacity = (if length script_text < capacity then Some script_text else None)"
proof -
  have "length ''label: gpt\<newline>\<newline>'' \<le> length script_text"
    by (simp add: script_text_def)
  then show ?thesis
    by (auto simp: ldtm_build_sfdisk_script_def appendf_Some append_lines_exact Let_def script_text_def)
qed

lemma profile_bytes:
  "ldtm_profile_payload_bytes (Some (ldtm_fragment_profile spec)) = 200 * LDTM_MIB"
  by (cases spec)
     (simp_all add: ldtm_profile_payload_bytes_def ldtm_fragment_profile_def ldtm_profile_file_bytes_def
       ldtm_profile_file_chunks_def LDTM_TARGET_FILE_COUNT_def LDTM_MIB_def upt_rec Let_def)

text \<open>
  The slot table and the corpus agree: looking a key up finds exactly the slot with
  that key; every slot's payload is what its table entry promises, the standard 200 MiB or
  nothing for swap, and smaller than the slot; and the capacity demanded of a disk is the sum of
  the slots and one GiB, computed without wrap-around.
\<close>
theorem corpus_table_sound:
  assumes "ldtm_find_spec (Some key) = Some spec"
  shows "sp_key spec = key \<and> spec \<in> set ldtm_specs \<and> (\<forall>other \<in> set ldtm_specs. sp_key other = key \<longrightarrow> other = spec) \<and>
    ldtm_target_payload_bytes (Some spec) = ucast (sp_payload_mib spec) * LDTM_MIB \<and>
    unat (ldtm_target_payload_bytes (Some spec)) < unat (sp_size_mib spec) * 2 ^ 20 \<and>
    unat ldtm_required_capacity_bytes = (\<Sum>s\<leftarrow>ldtm_specs. unat (sp_size_mib s) * 2 ^ 20) + 2 ^ 30"
proof -
  have found: "spec \<in> set LDTM_SPECS \<and> sp_key spec = key"
    using assms by (simp add: ldtm_find_spec_def find_Some_distinct [OF spec_table(2)])
  then have unique: "\<forall>other \<in> set LDTM_SPECS. sp_key other = key \<longrightarrow> other = spec"
    using spec_table(2) by (auto simp: distinct_map inj_on_def)
  have payload: "\<forall>s \<in> set LDTM_SPECS. ldtm_target_payload_bytes (Some s) = ucast (sp_payload_mib s) * LDTM_MIB"
    by (simp add: ldtm_target_payload_bytes_def profile_bytes LDTM_SPECS_def slot_def LDTM_MIB_def)
  moreover have "\<forall>s \<in> set LDTM_SPECS. unat (ucast (sp_payload_mib s) * LDTM_MIB) < unat (sp_size_mib s) * 2 ^ 20"
    by (simp add: LDTM_SPECS_def slot_def LDTM_MIB_def)
  moreover have "unat ldtm_required_capacity_bytes = (\<Sum>s\<leftarrow>LDTM_SPECS. unat (sp_size_mib s) * 2 ^ 20) + 2 ^ 30"
    by (simp add: ldtm_required_capacity_bytes_def ldtm_allocated_capacity_bytes_def LDTM_SPECS_def slot_def
        LDTM_MIB_def LDTM_GIB_def)
  ultimately show ?thesis
    using found unique by (simp add: ldtm_specs_def)
qed

theorem corpus_table_sound_witness:
  "sp_size_mib (slot ''fat12'' ''LD_FAT12'' 255 200 LDTM_CREATOR_FAT12) = 255 \<and>
   unat (ldtm_target_payload_bytes (Some (slot ''fat12'' ''LD_FAT12'' 255 200 LDTM_CREATOR_FAT12))) < 255 * 2 ^ 20"
proof -
  have "ldtm_find_spec (Some ''fat12'') = Some (slot ''fat12'' ''LD_FAT12'' 255 200 LDTM_CREATOR_FAT12)"
    by (simp add: ldtm_find_spec_def LDTM_SPECS_def slot_def)
  from corpus_table_sound [OF this] show ?thesis
    by (simp add: slot_def LDTM_MIB_def)
qed

end
