(* ===== verification/Raw.thy ===== *)
theory Raw
  imports Corpus
begin

text \<open>
  The deterministic corpus of \<open>test_media/test_media_raw.c\<close>: file sizes and names, the
  interleaved placement plan, the byte oracle, the payload writer, the byte-for-byte checker and
  CRC-32C. File numbers and buffer lengths are naturals (an \<open>unsigned\<close> below 16, a \<open>size_t\<close>
  that counts an existing buffer); offsets, unit counts and capacities are 64-bit words.
  Common's \<open>infiltratr_pread_full\<close> and \<open>infiltratr_pwrite_full\<close> are parameters.
\<close>

subsection \<open>Files\<close>

definition LDTM_RAW_FILES :: nat where "LDTM_RAW_FILES = 16"

definition edges :: "u32 list" where
  "edges = [0, 1, 511, 512, 513, 4095, 4096, 4097]"

definition ldtm_raw_file_bytes :: "LdtmFilesystemSpec option \<Rightarrow> nat \<Rightarrow> u64" where
  "ldtm_raw_file_bytes spec n =
     (if n < LDTM_TARGET_FILE_COUNT then ldtm_profile_file_bytes (ldtm_fragment_profile spec) n
      else if n < LDTM_RAW_FILES then ucast (edges ! (n - LDTM_TARGET_FILE_COUNT)) else 0)"

definition zero_padded :: "nat \<Rightarrow> nat \<Rightarrow> string" where
  "zero_padded width n = replicate (width - length (show_nat n)) CHR ''0'' @ show_nat n"

definition ldtm_raw_name :: "nat \<Rightarrow> string" where
  "ldtm_raw_name n = ''F'' @ zero_padded 6 n @ ''.BIN''"

definition ldtm_raw_name_index :: "string \<Rightarrow> nat option" where
  "ldtm_raw_name_index name = List.find (\<lambda>n. name = ldtm_raw_name n) [0..<LDTM_RAW_FILES]"

text \<open>\<open>F\<close> is the view of the descriptors when the size is taken.\<close>

definition ldtm_raw_open ::
  "common \<Rightarrow> open_run \<Rightarrow> host_view \<Rightarrow> fd_view \<Rightarrow> path option \<Rightarrow> bool \<Rightarrow> ((int \<times> u64) option \<times> fd_event list) proc" where
  "ldtm_raw_open C R V F path write =
     (case ld_device_open_verified_fd C R V F path write None 0 of
        Exit_failure t \<Rightarrow> Exit_failure t
      | Return (Inl _, evs) \<Rightarrow> Return (None, evs)
      | Return (Inr fd, evs) \<Rightarrow>
          (case ld_fd_size_bytes F fd of
             Inl _ \<Rightarrow> Return (None, evs @ [Fd_close fd])
           | Inr capacity \<Rightarrow>
               if capacity = 0 then Return (None, evs @ [Fd_close fd]) else Return (Some (fd, capacity), evs)))"

definition ldtm_raw_read :: "pread_fun \<Rightarrow> int \<Rightarrow> u64 \<Rightarrow> nat \<Rightarrow> u8 list option" where
  "ldtm_raw_read pread fd offset bytes =
     (case pread fd (of_nat bytes) offset of Inl _ \<Rightarrow> None | Inr data \<Rightarrow> Some data)"

definition ldtm_raw_write :: "'s pwrite_fun \<Rightarrow> int \<Rightarrow> u64 \<Rightarrow> u8 list \<Rightarrow> 's \<Rightarrow> bool \<times> 's" where
  "ldtm_raw_write pwrite fd offset data s =
     (case pwrite fd data offset s of (e, s') \<Rightarrow> (e = None, s'))"

subsection \<open>Placement\<close>

record LdtmRawFile =
  rf_bytes :: u64
  rf_start :: "u64 list"
  rf_count :: "u64 list"

record LdtmRawPlan =
  rp_capacity :: u64
  rp_unit :: u32
  rp_files :: "LdtmRawFile list"
  rp_end :: u64

definition raw_units :: "u64 \<Rightarrow> u32 \<Rightarrow> u64" where
  "raw_units bytes unit = (bytes + ucast unit - 1) div ucast unit"

definition raw_half :: "u64 \<Rightarrow> nat \<Rightarrow> u64" where
  "raw_half units phase =
     (let first_half = (if units > 1 then units div 2 else units)
      in if phase = 0 then first_half else units - first_half)"

text \<open>One round of the inner loop; \<open>None\<close> is the early return \<open>-1\<close>.\<close>

definition plan_slot ::
  "LdtmFilesystemSpec option \<Rightarrow> u64 \<Rightarrow> u32 \<Rightarrow> nat \<times> nat \<Rightarrow> LdtmRawFile list \<times> u64 \<Rightarrow> (LdtmRawFile list \<times> u64) option" where
  "plan_slot spec capacity unit = (\<lambda>(phase, n) (files, cursor).
     let bytes = ldtm_raw_file_bytes spec n;
         count = raw_half (raw_units bytes unit) phase;
         item = files ! n;
         item = item\<lparr>rf_bytes := bytes,
                  rf_start := (rf_start item)[phase := if count \<noteq> 0 then cursor else 0],
                  rf_count := (rf_count item)[phase := count]\<rparr>;
         files = files[n := item]
     in if count = 0 then Some (files, cursor)
        else if cursor \<ge> capacity div ucast unit \<or> count > capacity div ucast unit - cursor then None
        else Some (files, cursor + (count + 2)))"

fun plan_slots ::
  "LdtmFilesystemSpec option \<Rightarrow> u64 \<Rightarrow> u32 \<Rightarrow> (nat \<times> nat) list \<Rightarrow> LdtmRawFile list \<times> u64 \<Rightarrow> (LdtmRawFile list \<times> u64) option" where
  "plan_slots spec capacity unit [] st = Some st"
| "plan_slots spec capacity unit (round # slots) st =
     (case plan_slot spec capacity unit round st of
        None \<Rightarrow> None
      | Some st \<Rightarrow> plan_slots spec capacity unit slots st)"

definition raw_slots :: "(nat \<times> nat) list" where
  "raw_slots = [(phase, n). phase \<leftarrow> [0..<2], n \<leftarrow> [0..<LDTM_RAW_FILES]]"

definition blank_raw_file :: LdtmRawFile where
  "blank_raw_file = \<lparr>rf_bytes = 0, rf_start = [0, 0], rf_count = [0, 0]\<rparr>"

definition ldtm_raw_plan :: "LdtmFilesystemSpec option \<Rightarrow> u64 \<Rightarrow> u32 \<Rightarrow> u64 \<Rightarrow> LdtmRawPlan option" where
  "ldtm_raw_plan spec capacity unit first =
     (if spec = None \<or> unit = 0 \<or> capacity div ucast unit \<le> first then None
      else case plan_slots spec capacity unit raw_slots (replicate LDTM_RAW_FILES blank_raw_file, first) of
             None \<Rightarrow> None
           | Some (files, cursor) \<Rightarrow>
               Some \<lparr>rp_capacity = capacity, rp_unit = unit, rp_files = files, rp_end = cursor\<rparr>)"

subsection \<open>The byte oracle\<close>

definition payload_step :: "u64 \<Rightarrow> u64" where
  "payload_step state =
     (let state = state XOR drop_bit 12 state;
          state = state XOR push_bit 25 state;
          state = state XOR drop_bit 27 state
      in state * 0x2545f4914f6cdd1d)"

definition payload_seed :: "nat \<Rightarrow> u64 \<Rightarrow> u64" where
  "payload_seed n logical =
     0x243f6a8885a308d3 XOR push_bit 40 (of_nat n) XOR ((logical div 4096) * 0x9e3779b97f4a7c15)"

function page_loop :: "nat \<Rightarrow> nat \<Rightarrow> nat \<Rightarrow> u64 \<Rightarrow> u8 list" where
  "page_loop within stop index state =
     (if index \<ge> stop then []
      else let state = payload_step state
        in if index \<ge> within then ucast (drop_bit 56 state) # page_loop within stop (Suc index) state
           else page_loop within stop (Suc index) state)"
  by pat_completeness auto
termination by (relation "measure (\<lambda>(within, stop, index, state). stop - index)") auto

function ldtm_raw_payload :: "nat \<Rightarrow> nat \<Rightarrow> u64 \<Rightarrow> u8 list" where
  "ldtm_raw_payload bytes n logical =
     (if bytes = 0 then []
      else let within = unat (logical mod 4096); amount = min (4096 - within) bytes
        in page_loop within (within + amount) 0 (payload_seed n logical) @
           ldtm_raw_payload (bytes - amount) n (logical + of_nat amount))"
  by pat_completeness auto

lemma page_offset: "unat (logical mod 4096 :: u64) < 4096"
  by (simp add: unat_mod)

termination ldtm_raw_payload
  by (relation "measure (\<lambda>(bytes, n, logical). bytes)") (use page_offset in \<open>auto simp: min_def not_le\<close>)

declare page_loop.simps [simp del] ldtm_raw_payload.simps [simp del]

subsection \<open>Writing the payload\<close>

definition BUFFER_BYTES :: u64 where "BUFFER_BYTES = 65536"

definition buffer_take :: "u64 \<Rightarrow> u64" where
  "buffer_take remaining = (if remaining < BUFFER_BYTES then remaining else BUFFER_BYTES)"

lemma buffer_take_bounds:
  "unat (buffer_take remaining) \<le> unat remaining" "remaining \<noteq> 0 \<Longrightarrow> 0 < unat (buffer_take remaining)"
  by (auto simp: buffer_take_def BUFFER_BYTES_def word_less_nat_alt unat_gt_0)

lemma unat_minus_take: "unat (remaining - buffer_take remaining) = unat remaining - unat (buffer_take remaining)"
  by (simp add: unat_sub buffer_take_bounds word_le_nat_alt)

lemma take_progress: "remaining \<noteq> 0 \<Longrightarrow> unat (remaining - buffer_take remaining) < unat remaining"
  using buffer_take_bounds [of remaining] by (simp add: unat_minus_take)

text \<open>One extent; the result is the outcome, the next logical offset and the storage.\<close>

function write_part ::
  "'s pwrite_fun \<Rightarrow> int \<Rightarrow> nat \<Rightarrow> u64 \<Rightarrow> u64 \<Rightarrow> u64 \<Rightarrow> u64 \<Rightarrow> 's \<Rightarrow> bool \<times> u64 \<times> 's" where
  "write_part pwrite fd n bytes logical physical remaining s =
     (if remaining = 0 then (True, logical, s)
      else let amount = buffer_take remaining;
               available = (if logical < bytes then bytes - logical else 0);
               used = (if available < amount then unat available else unat amount);
               buffer = ldtm_raw_payload used n logical @ replicate (unat amount - used) 0
        in case ldtm_raw_write pwrite fd physical buffer s of
             (False, s) \<Rightarrow> (False, logical, s)
           | (True, s) \<Rightarrow> write_part pwrite fd n bytes (logical + amount) (physical + amount) (remaining - amount) s)"
  by pat_completeness auto
termination
  by (relation "measure (\<lambda>(pwrite, fd, n, bytes, logical, physical, remaining, s). unat remaining)")
     (auto simp: take_progress)

declare write_part.simps [simp del]

fun write_parts ::
  "'s pwrite_fun \<Rightarrow> int \<Rightarrow> u32 \<Rightarrow> nat \<Rightarrow> LdtmRawFile \<Rightarrow> nat list \<Rightarrow> u64 \<Rightarrow> 's \<Rightarrow> bool \<times> 's" where
  "write_parts pwrite fd unit n item [] logical s = (True, s)"
| "write_parts pwrite fd unit n item (part # parts) logical s =
     (case write_part pwrite fd n (rf_bytes item) logical (rf_start item ! part * ucast unit)
             (rf_count item ! part * ucast unit) s of
        (False, _, s) \<Rightarrow> (False, s)
      | (True, logical, s) \<Rightarrow> write_parts pwrite fd unit n item parts logical s)"

fun write_files :: "'s pwrite_fun \<Rightarrow> int \<Rightarrow> LdtmRawPlan \<Rightarrow> nat list \<Rightarrow> 's \<Rightarrow> bool \<times> 's" where
  "write_files pwrite fd plan [] s = (True, s)"
| "write_files pwrite fd plan (n # ns) s =
     (case write_parts pwrite fd (rp_unit plan) n (rp_files plan ! n) [0, 1] 0 s of
        (False, s) \<Rightarrow> (False, s)
      | (True, s) \<Rightarrow> write_files pwrite fd plan ns s)"

definition ldtm_raw_write_payload ::
  "'s pwrite_fun \<Rightarrow> (int \<Rightarrow> 's \<Rightarrow> bool \<times> 's) \<Rightarrow> int \<Rightarrow> LdtmRawPlan \<Rightarrow> 's \<Rightarrow> bool \<times> 's" where
  "ldtm_raw_write_payload pwrite fsync fd plan s =
     (case write_files pwrite fd plan [0..<LDTM_RAW_FILES] s of
        (False, s) \<Rightarrow> (False, s)
      | (True, s) \<Rightarrow> fsync fd s)"

subsection \<open>Checking the payload\<close>

record LdtmRawCheck =
  ck_spec :: "LdtmFilesystemSpec option"
  ck_seen :: u32
  ck_done :: "u64 list"

definition ldtm_raw_check_init :: "LdtmFilesystemSpec option \<Rightarrow> LdtmRawCheck" where
  "ldtm_raw_check_init spec = \<lparr>ck_spec = spec, ck_seen = 0, ck_done = replicate LDTM_RAW_FILES 0\<rparr>"

definition ldtm_raw_check_file :: "LdtmRawCheck \<Rightarrow> nat \<Rightarrow> u64 \<Rightarrow> bool \<times> LdtmRawCheck" where
  "ldtm_raw_check_file check n bytes =
     (if n \<ge> LDTM_RAW_FILES \<or> bytes \<noteq> ldtm_raw_file_bytes (ck_spec check) n \<or>
         ck_seen check AND push_bit n 1 \<noteq> 0
      then (False, check)
      else (True, check\<lparr>ck_seen := ck_seen check OR push_bit n 1\<rparr>))"

function check_loop :: "pread_fun \<Rightarrow> int \<Rightarrow> nat \<Rightarrow> u64 \<Rightarrow> u64 \<Rightarrow> u64 \<Rightarrow> LdtmRawCheck \<Rightarrow> bool \<times> LdtmRawCheck" where
  "check_loop pread fd n physical logical bytes check =
     (if bytes = 0 then (True, check)
      else let amount = buffer_take bytes
        in case ldtm_raw_read pread fd physical (unat amount) of
             None \<Rightarrow> (False, check)
           | Some actual \<Rightarrow>
               if actual \<noteq> ldtm_raw_payload (unat amount) n logical then (False, check)
               else check_loop pread fd n (physical + amount) (logical + amount) (bytes - amount)
                      (check\<lparr>ck_done := (ck_done check)[n := ck_done check ! n + amount]\<rparr>))"
  by pat_completeness auto
termination
  by (relation "measure (\<lambda>(pread, fd, n, physical, logical, bytes, check). unat bytes)")
     (auto simp: take_progress)

declare check_loop.simps [simp del]

definition ldtm_raw_check_data ::
  "pread_fun \<Rightarrow> LdtmRawCheck \<Rightarrow> int \<Rightarrow> nat \<Rightarrow> u64 \<Rightarrow> u64 \<Rightarrow> u64 \<Rightarrow> bool \<times> LdtmRawCheck" where
  "ldtm_raw_check_data pread check fd n physical logical bytes =
     (if n \<ge> LDTM_RAW_FILES \<or> logical \<noteq> ck_done check ! n \<or>
         logical > ldtm_raw_file_bytes (ck_spec check) n \<or>
         bytes > ldtm_raw_file_bytes (ck_spec check) n - logical
      then (False, check)
      else check_loop pread fd n physical logical bytes check)"

definition ldtm_raw_check_finish :: "LdtmRawCheck \<Rightarrow> bool" where
  "ldtm_raw_check_finish check \<longleftrightarrow>
     ck_seen check = push_bit LDTM_RAW_FILES 1 - 1 \<and>
     list_all (\<lambda>n. ck_done check ! n = ldtm_raw_file_bytes (ck_spec check) n) [0..<LDTM_RAW_FILES]"

subsection \<open>CRC-32C\<close>

definition crc_bit :: "u32 \<Rightarrow> u32" where
  "crc_bit crc = drop_bit 1 crc XOR (if crc AND 1 \<noteq> 0 then 0x82f63b78 else 0)"

definition ldtm_raw_crc32c :: "u8 list \<Rightarrow> u32" where
  "ldtm_raw_crc32c data = NOT (foldl (\<lambda>crc b. (crc_bit ^^ 8) (crc XOR ucast b)) (- 1) data)"

subsection \<open>The oracle byte by byte\<close>

text \<open>The reference: one byte, computed from its own page alone.\<close>

definition payload_byte :: "nat \<Rightarrow> u64 \<Rightarrow> u8" where
  "payload_byte n logical =
     ucast (drop_bit 56 ((payload_step ^^ Suc (unat (logical mod 4096))) (payload_seed n logical)))"

lemma page_loop_bytes:
  "page_loop within stop index state =
     map (\<lambda>i. ucast (drop_bit 56 ((payload_step ^^ (Suc i - index)) state))) [max within index..<stop]"
proof (induction within stop index state rule: page_loop.induct)
  case (1 within stop index state)
  have power: "(payload_step ^^ (Suc i - Suc index)) (payload_step state) = (payload_step ^^ (Suc i - index)) state"
    if "index \<le> i" for i
    using that by (simp add: Suc_diff_le funpow_swap1)
  show ?case
  proof (cases "index < stop")
    case True
    have starts: "max within (Suc index) = (if index \<ge> within then Suc index else max within index)"
      by auto
    show ?thesis
      using "1.IH" power True
      by (subst page_loop.simps)
         (auto simp: Let_def not_le starts max_absorb2 upt_conv_Cons simp del: upt_Suc intro!: map_cong)
  qed (simp add: page_loop.simps)
qed

lemma same_page:
  assumes "i < 4096 - unat (logical mod 4096 :: u64)"
  shows "(logical + of_nat i) mod 4096 = logical mod 4096 + of_nat i" "(logical + of_nat i) div 4096 = logical div 4096"
    "unat (logical mod 4096 + of_nat i) = unat (logical mod 4096) + i"
proof -
  define q r where "q = unat logical div 4096" and "r = unat logical mod 4096"
  have r: "r + i < 4096" and l: "unat logical = 4096 * q + r"
    using assms by (simp_all add: q_def r_def unat_mod)
  have "unat logical < 4503599627370496 * 4096"
    using unat_lt64 [of logical] by simp
  then have "q < 4503599627370496"
    unfolding q_def by (rule less_mult_imp_div_less)
  then have "4096 * q + r + i < 18446744073709551616"
    using r by linarith
  moreover have "i < 18446744073709551616"
    using r by linarith
  ultimately have sum: "unat (logical + of_nat i) = 4096 * q + r + i"
    by (simp add: unat_word_ariths unat_of_nat l)
  show "(logical + of_nat i) div 4096 = logical div 4096"
    using r l by (intro word_unat_eq_iff [THEN iffD2]) (simp add: unat_div sum)
  show third: "unat (logical mod 4096 + of_nat i) = unat (logical mod 4096) + i"
    using r by (simp add: unat_word_ariths unat_of_nat unat_mod flip: r_def)
  show "(logical + of_nat i) mod 4096 = logical mod 4096 + of_nat i"
    using r l by (intro word_unat_eq_iff [THEN iffD2]) (simp add: third unat_mod sum add.assoc)
qed

lemma payload_byte_page:
  assumes "i < 4096 - unat (logical mod 4096)"
  shows "payload_byte n (logical + of_nat i) =
    ucast (drop_bit 56 ((payload_step ^^ Suc (unat (logical mod 4096) + i)) (payload_seed n logical)))"
  using same_page [OF assms] by (simp add: payload_byte_def payload_seed_def)

lemma raw_payload_bytes:
  "ldtm_raw_payload bytes n logical = map (\<lambda>i. payload_byte n (logical + of_nat i)) [0..<bytes]"
proof (induction bytes n logical rule: ldtm_raw_payload.induct)
  case (1 bytes n logical)
  show ?case
  proof (cases "bytes = 0")
    case False
    define w where "w = unat (logical mod 4096)"
    define a where "a = min (4096 - w) bytes"
    have page: "page_loop w (w + a) 0 (payload_seed n logical) = map (\<lambda>i. payload_byte n (logical + of_nat i)) [0..<a]"
    proof (rule nth_equalityI)
      fix i assume "i < length (page_loop w (w + a) 0 (payload_seed n logical))"
      then have "i < a" "i < 4096 - w"
        by (simp_all add: page_loop_bytes a_def)
      then show "page_loop w (w + a) 0 (payload_seed n logical) ! i =
          map (\<lambda>i. payload_byte n (logical + of_nat i)) [0..<a] ! i"
        using payload_byte_page [of i logical n] by (simp add: page_loop_bytes w_def)
    qed (simp add: page_loop_bytes)
    have rest: "ldtm_raw_payload (bytes - a) n (logical + of_nat a) =
        map (\<lambda>i. payload_byte n (logical + of_nat a + of_nat i)) [0..<bytes - a]"
      using "1.IH" False by (simp add: a_def w_def)
    have "[0..<bytes] = [0..<a] @ map (\<lambda>i. i + a) [0..<bytes - a]"
      using upt_add_eq_append [of 0 a "bytes - a"] by (simp add: map_add_upt a_def)
    then show ?thesis
      using False page rest
      by (simp add: ldtm_raw_payload.simps [of bytes] Let_def flip: w_def a_def) (simp add: add_ac)
  qed (simp add: ldtm_raw_payload.simps)
qed

lemma length_raw_payload [simp]: "length (ldtm_raw_payload bytes n logical) = bytes"
  by (simp add: raw_payload_bytes)

text \<open>
  The corpus oracle does not depend on how a range is cut: every buffer that
  \<open>ldtm_raw_payload\<close> fills, whatever its length and starting offset, holds at each position the
  reference byte of that file and logical offset, which is computed from its own 4 KiB page
  alone. A verifier may therefore read a file in any pieces and any order.
\<close>
theorem raw_payload_pagewise:
  "ldtm_raw_payload bytes n logical = map (\<lambda>i. payload_byte n (logical + of_nat i)) [0..<bytes]"
  by (rule raw_payload_bytes)

subsection \<open>The plan places disjoint extents\<close>

lemma file_bytes_bound: "unat (ldtm_raw_file_bytes spec n) \<le> 62914560"
proof -
  have "list_all (\<lambda>n. unat (ldtm_raw_file_bytes spec n) \<le> 62914560) [0..<16]"
    by (cases spec)
       (simp_all add: ldtm_raw_file_bytes_def ldtm_profile_file_bytes_def ldtm_profile_file_chunks_def
         ldtm_fragment_profile_def LDTM_TARGET_FILE_COUNT_def LDTM_RAW_FILES_def edges_def upt_rec Let_def)
  then have "unat (ldtm_raw_file_bytes spec n) \<le> 62914560" if "n < 16"
    using that by (simp add: list_all_iff)
  then show ?thesis
    by (cases "n < 16") (simp_all add: ldtm_raw_file_bytes_def LDTM_TARGET_FILE_COUNT_def LDTM_RAW_FILES_def)
qed

definition unit_count :: "u64 \<Rightarrow> u32 \<Rightarrow> nat" where
  "unit_count bytes unit = (unat bytes + unat unit - 1) div unat unit"

lemma raw_units_nat:
  assumes "unit \<noteq> 0" "unat bytes \<le> 62914560"
  shows "unat (raw_units bytes unit) = unit_count bytes unit"
proof -
  have unit: "0 < unat unit" "unat unit < 4294967296"
    using assms(1) unsigned_less [of unit] by (simp_all add: unat_gt_0)
  have "unat (bytes + ucast unit - 1) = unat bytes + unat unit - 1"
    using unit assms(2) by (simp add: unat_word_ariths unat_sub_if_size unat_ucast_u32 word_le_nat_alt)
  then show ?thesis
    by (simp add: raw_units_def unit_count_def unat_div unat_ucast_u32)
qed

lemma raw_half_sum: "unat (raw_half units 0) + unat (raw_half units (Suc 0)) = unat units"
  by (auto simp: raw_half_def Let_def unat_sub_if_size unat_div word_le_nat_alt)

definition slot_start :: "LdtmRawFile list \<Rightarrow> nat \<times> nat \<Rightarrow> nat" where
  "slot_start files = (\<lambda>(phase, n). unat (rf_start (files ! n) ! phase))"

definition slot_count :: "LdtmRawFile list \<Rightarrow> nat \<times> nat \<Rightarrow> nat" where
  "slot_count files = (\<lambda>(phase, n). unat (rf_count (files ! n) ! phase))"

definition extents_of :: "LdtmRawFile list \<Rightarrow> (nat \<times> nat) list \<Rightarrow> (nat \<times> nat) list" where
  "extents_of files slots = map (\<lambda>s. (slot_start files s, slot_count files s)) (filter (\<lambda>s. slot_count files s \<noteq> 0) slots)"

text \<open>Extents in order, inside the bounds, each two units clear of the next.\<close>

fun spaced :: "nat \<Rightarrow> nat \<Rightarrow> (nat \<times> nat) list \<Rightarrow> bool" where
  "spaced low high [] = True"
| "spaced low high ((start, n) # es) = (low \<le> start \<and> 0 < n \<and> start + n \<le> high \<and> spaced (start + n + 2) high es)"

lemma spaced_mono: "spaced low high es \<Longrightarrow> low' \<le> low \<Longrightarrow> spaced low' high es"
  by (cases es) auto

lemma spaced_pairwise:
  assumes "spaced low high es"
  shows "\<forall>(start, n) \<in> set es. low \<le> start \<and> 0 < n \<and> start + n \<le> high"
    "sorted_wrt (\<lambda>(s, n) (s', n'). s + n + 2 \<le> s') es"
proof -
  have "(\<forall>(start, n) \<in> set es. low \<le> start \<and> 0 < n \<and> start + n \<le> high) \<and>
      sorted_wrt (\<lambda>(s, n) (s', n'). s + n + 2 \<le> s') es"
    using assms
  proof (induction low high es rule: spaced.induct)
    case (2 low high start n es)
    then show ?case by fastforce
  qed simp
  then show "\<forall>(start, n) \<in> set es. low \<le> start \<and> 0 < n \<and> start + n \<le> high"
    "sorted_wrt (\<lambda>(s, n) (s', n'). s + n + 2 \<le> s') es"
    by blast+
qed

definition wf_files :: "LdtmRawFile list \<Rightarrow> bool" where
  "wf_files files \<longleftrightarrow> length files = LDTM_RAW_FILES \<and> (\<forall>item \<in> set files. length (rf_start item) = 2 \<and> length (rf_count item) = 2)"

definition wf_slot :: "nat \<times> nat \<Rightarrow> bool" where
  "wf_slot = (\<lambda>(phase, n). phase < 2 \<and> n < LDTM_RAW_FILES)"

definition agrees :: "LdtmRawFile list \<Rightarrow> LdtmRawFile list \<Rightarrow> nat \<times> nat \<Rightarrow> bool" where
  "agrees files files' s \<longleftrightarrow> slot_start files' s = slot_start files s \<and> slot_count files' s = slot_count files s"

definition slot_filled :: "LdtmFilesystemSpec option \<Rightarrow> u32 \<Rightarrow> LdtmRawFile list \<Rightarrow> nat \<times> nat \<Rightarrow> bool" where
  "slot_filled spec unit files = (\<lambda>(phase, n).
     rf_bytes (files ! n) = ldtm_raw_file_bytes spec n \<and>
     slot_count files (phase, n) = unat (raw_half (raw_units (ldtm_raw_file_bytes spec n) unit) phase))"

lemma plan_slot_step:
  assumes "plan_slot spec capacity unit s (files, cursor) = Some (files', cursor')"
    and "wf_files files" "wf_slot s"
    and room: "unat (capacity div ucast unit) + 2 < 2 ^ 64"
  shows "wf_files files'" "\<forall>t. t \<noteq> s \<longrightarrow> wf_slot t \<longrightarrow> agrees files files' t" "slot_filled spec unit files' s"
    "\<forall>t. slot_filled spec unit files t \<longrightarrow> wf_slot t \<longrightarrow> slot_filled spec unit files' t"
    "if slot_count files' s = 0 then cursor' = cursor
     else slot_start files' s = unat cursor \<and> unat cursor + slot_count files' s \<le> unat (capacity div ucast unit) \<and>
       unat cursor' = unat cursor + slot_count files' s + 2"
proof -
  obtain phase n where s: "s = (phase, n)" by force
  define bytes where "bytes = ldtm_raw_file_bytes spec n"
  define amount where "amount = raw_half (raw_units bytes unit) phase"
  define item where "item = (files ! n)\<lparr>rf_bytes := bytes,
      rf_start := (rf_start (files ! n))[phase := if amount \<noteq> 0 then cursor else 0],
      rf_count := (rf_count (files ! n))[phase := amount]\<rparr>"
  have files': "files' = files[n := item]"
    and cursor': "cursor' = (if amount = 0 then cursor else cursor + (amount + 2))"
    and fits: "amount \<noteq> 0 \<Longrightarrow> \<not> cursor \<ge> capacity div ucast unit \<and> \<not> amount > capacity div ucast unit - cursor"
    using assms(1) by (auto simp: plan_slot_def s Let_def bytes_def amount_def item_def split: if_splits)
  have n: "n < length files" "phase < 2" "length (rf_start (files ! n)) = 2" "length (rf_count (files ! n)) = 2"
    using assms(2,3) by (auto simp: wf_files_def wf_slot_def s)
  show "wf_files files'"
    using assms(2) n by (auto simp: wf_files_def files' item_def dest!: subsetD [OF set_update_subset_insert])
  show "\<forall>t. t \<noteq> s \<longrightarrow> wf_slot t \<longrightarrow> agrees files files' t"
    using n by (auto simp: agrees_def slot_start_def slot_count_def files' s item_def nth_list_update)
  show "slot_filled spec unit files' s"
    using n by (simp add: slot_filled_def slot_count_def s files' item_def bytes_def amount_def)
  show "\<forall>t. slot_filled spec unit files t \<longrightarrow> wf_slot t \<longrightarrow> slot_filled spec unit files' t"
    using n by (auto simp: slot_filled_def slot_count_def files' item_def bytes_def amount_def nth_list_update)
  have here: "slot_count files' s = unat amount" "amount \<noteq> 0 \<Longrightarrow> slot_start files' s = unat cursor"
    using n by (simp_all add: slot_count_def slot_start_def s files' item_def)
  have "unat (cursor + (amount + 2)) = unat cursor + unat amount + 2" "unat cursor + unat amount \<le> unat (capacity div ucast unit)"
    if "amount \<noteq> 0"
    using fits [OF that] room
    by (auto simp: word_le_nat_alt word_less_nat_alt unat_sub_if_size unat_word_ariths not_le not_less)
  then show "if slot_count files' s = 0 then cursor' = cursor
     else slot_start files' s = unat cursor \<and> unat cursor + slot_count files' s \<le> unat (capacity div ucast unit) \<and>
       unat cursor' = unat cursor + slot_count files' s + 2"
    by (simp add: here cursor' unat_eq_0)
qed

lemma plan_slots_spaced:
  assumes "plan_slots spec capacity unit slots (files, cursor) = Some (files', cursor')"
    and "wf_files files" "list_all wf_slot slots" "distinct slots"
    and room: "unat (capacity div ucast unit) + 2 < 2 ^ 64"
  shows "wf_files files' \<and> (\<forall>t. t \<notin> set slots \<longrightarrow> wf_slot t \<longrightarrow> agrees files files' t) \<and>
    (\<forall>t. t \<in> set slots \<or> slot_filled spec unit files t \<longrightarrow> wf_slot t \<longrightarrow> slot_filled spec unit files' t) \<and>
    spaced (unat cursor) (unat (capacity div ucast unit)) (extents_of files' slots)"
  using assms(1-4)
proof (induction slots arbitrary: files cursor)
  case Nil
  then show ?case by (simp add: extents_of_def agrees_def)
next
  case (Cons s slots)
  from Cons.prems(1) obtain files1 cursor1 where
    first: "plan_slot spec capacity unit s (files, cursor) = Some (files1, cursor1)" and
    rest: "plan_slots spec capacity unit slots (files1, cursor1) = Some (files', cursor')"
    by (auto split: option.splits)
  have wf: "wf_slot s" "list_all wf_slot slots" "s \<notin> set slots" "distinct slots"
    using Cons.prems by auto
  note step = plan_slot_step [OF first Cons.prems(2) wf(1) room]
  note IH = Cons.IH [OF rest step(1) wf(2,4)]
  have same: "slot_start files' s = slot_start files1 s" "slot_count files' s = slot_count files1 s"
    using conjunct1 [OF conjunct2 [OF IH], rule_format, OF wf(3,1)] by (simp_all add: agrees_def)
  have "spaced (unat cursor) (unat (capacity div ucast unit)) (extents_of files' (s # slots))"
    using IH step(5) by (auto simp: extents_of_def same split: if_splits)
  moreover have "\<forall>t. t \<notin> set (s # slots) \<longrightarrow> wf_slot t \<longrightarrow> agrees files files' t"
    using IH step(2) by (simp add: agrees_def)
  ultimately show ?case
    using IH step(3,4) wf(1) by auto
qed

lemma raw_slots_phases: "raw_slots = map (Pair 0) [0..<LDTM_RAW_FILES] @ map (Pair 1) [0..<LDTM_RAW_FILES]"
  by (simp add: raw_slots_def numeral_2_eq_2)

lemma raw_slots_wf:
  "list_all wf_slot raw_slots" "distinct raw_slots"
  "set raw_slots = {0..<2} \<times> {0..<LDTM_RAW_FILES}"
proof -
  show "list_all wf_slot raw_slots" "distinct raw_slots" "set raw_slots = {0..<2} \<times> {0..<LDTM_RAW_FILES}"
    unfolding raw_slots_phases by (auto simp: wf_slot_def list_all_iff distinct_map inj_on_def less_2_cases_iff)
qed

definition plan_extents :: "LdtmRawPlan \<Rightarrow> (nat \<times> nat) list" where
  "plan_extents plan = extents_of (rp_files plan) raw_slots"

lemma raw_half_both: "1 < unat units \<Longrightarrow> 0 < unat (raw_half units 0) \<and> 0 < unat (raw_half units (Suc 0))"
  by (auto simp: raw_half_def Let_def unat_sub_if_size unat_div word_le_nat_alt word_less_nat_alt)

lemma raw_plan_facts:
  assumes "ldtm_raw_plan spec capacity unit first = Some plan"
    and "unat (capacity div ucast unit) + 2 < 2 ^ 64"
  shows "unit \<noteq> 0" "rp_unit plan = unit"
    "spaced (unat first) (unat (capacity div ucast unit)) (plan_extents plan)"
    "\<And>phase n. phase < 2 \<Longrightarrow> n < LDTM_RAW_FILES \<Longrightarrow> slot_filled spec unit (rp_files plan) (phase, n)"
proof -
  obtain files cursor where
    run: "plan_slots spec capacity unit raw_slots (replicate LDTM_RAW_FILES blank_raw_file, first) = Some (files, cursor)"
    and plan: "rp_files plan = files" "rp_unit plan = unit" "unit \<noteq> 0"
    using assms(1) by (auto simp: ldtm_raw_plan_def split: if_splits option.splits)
  have "wf_files (replicate LDTM_RAW_FILES blank_raw_file)"
    by (simp add: wf_files_def blank_raw_file_def)
  note placed = plan_slots_spaced [OF run this raw_slots_wf(1,2) assms(2)]
  show "unit \<noteq> 0" "rp_unit plan = unit"
    using plan by simp_all
  show "spaced (unat first) (unat (capacity div ucast unit)) (plan_extents plan)"
    using placed by (simp add: plan_extents_def plan)
  show "slot_filled spec unit (rp_files plan) (phase, n)" if "phase < 2" "n < LDTM_RAW_FILES" for phase n
    using placed that by (simp add: raw_slots_wf(3) wf_slot_def plan)
qed

lemma slots_cover_file:
  assumes "unit \<noteq> 0" "\<And>phase. phase < 2 \<Longrightarrow> slot_filled spec unit files (phase, n)"
  shows "rf_bytes (files ! n) = ldtm_raw_file_bytes spec n"
    "slot_count files (0, n) + slot_count files (1, n) = unit_count (ldtm_raw_file_bytes spec n) unit"
    "1 < unit_count (ldtm_raw_file_bytes spec n) unit \<Longrightarrow> 0 < slot_count files (0, n) \<and> 0 < slot_count files (1, n)"
  using assms(2) [of 0] assms(2) [of 1] raw_half_sum raw_half_both
  by (simp_all add: slot_filled_def flip: raw_units_nat [OF assms(1) file_bytes_bound])

text \<open>
  A successful plan is a disjoint, deliberately fragmented layout: each file has
  its corpus size and exactly as many units as that size needs, every file of more than one unit
  is cut into two non-empty extents, all extents lie between the first free unit and the end of
  the volume, and each extent ends at least two units before the next one starts, so no two
  extents of the corpus overlap or touch. The volume must have fewer than \<open>2^64 - 2\<close> units, the
  range in which the cursor cannot wrap around.
\<close>
theorem raw_plan_disjoint:
  assumes "ldtm_raw_plan (Some spec) capacity unit first = Some plan"
    and "unat (capacity div ucast unit) + 2 < 2 ^ 64"
  shows "(\<forall>(start, n) \<in> set (plan_extents plan). unat first \<le> start \<and> 0 < n \<and> start + n \<le> unat (capacity div ucast unit)) \<and>
    sorted_wrt (\<lambda>(start, n) (start', n'). start + n + 2 \<le> start') (plan_extents plan) \<and>
    (\<forall>n < LDTM_RAW_FILES. rf_bytes (rp_files plan ! n) = ldtm_raw_file_bytes (Some spec) n \<and>
       (let units = unit_count (ldtm_raw_file_bytes (Some spec) n) unit;
            head = slot_count (rp_files plan) (0, n); tail = slot_count (rp_files plan) (1, n)
        in head + tail = units \<and> (units > 1 \<longrightarrow> head > 0 \<and> tail > 0)))"
proof -
  note facts = raw_plan_facts [OF assms]
  note cover = slots_cover_file [OF facts(1) facts(4)]
  show ?thesis
    using spaced_pairwise [OF facts(3)] cover by (simp add: Let_def)
qed

definition demo_slot :: LdtmFilesystemSpec where
  "demo_slot = slot ''fat12'' ''LD_FAT12'' 255 200 LDTM_CREATOR_FAT12"

lemma demo_raw_plan: "ldtm_raw_plan (Some demo_slot) (255 * LDTM_MIB) 65536 64 \<noteq> None"
  by code_simp

theorem raw_plan_disjoint_witness:
  "\<exists>plan. ldtm_raw_plan (Some demo_slot) (255 * LDTM_MIB) 65536 64 = Some plan \<and>
     sorted_wrt (\<lambda>(start, n) (start', n'). start + n + 2 \<le> start') (plan_extents plan)"
proof -
  obtain plan where "ldtm_raw_plan (Some demo_slot) (255 * LDTM_MIB) 65536 64 = Some plan"
    using demo_raw_plan by blast
  with raw_plan_disjoint [OF this] show ?thesis
    by (auto simp: LDTM_MIB_def)
qed

subsection \<open>What an accepted check has compared\<close>

text \<open>
  A process whose state makes claims, each step adding only claims that the step itself backs:
  every claim at the end of a run is backed by some step of it.
\<close>

locale evidence =
  fixes step :: "'op \<Rightarrow> 's \<Rightarrow> 's"
    and valid :: "'s \<Rightarrow> bool"
    and claims :: "'s \<Rightarrow> 'c set"
    and backs :: "'op \<Rightarrow> 'c \<Rightarrow> bool"
  assumes step_valid: "valid s \<Longrightarrow> valid (step op s)"
    and step_backed: "valid s \<Longrightarrow> c \<in> claims (step op s) \<Longrightarrow> c \<notin> claims s \<Longrightarrow> backs op c"
begin

lemma run_valid: "valid s \<Longrightarrow> valid (fold step ops s)"
  by (induction ops arbitrary: s) (auto intro: step_valid)

lemma run_backed:
  "valid s \<Longrightarrow> c \<in> claims (fold step ops s) \<Longrightarrow> c \<notin> claims s \<Longrightarrow> \<exists>op \<in> set ops. backs op c"
proof (induction ops arbitrary: s)
  case (Cons op ops)
  show ?case
  proof (cases "c \<in> claims (step op s)")
    case True
    then show ?thesis using Cons.prems step_backed by auto
  next
    case False
    then show ?thesis using Cons.prems Cons.IH [of "step op s"] step_valid by auto
  qed
qed simp

end

datatype check_op = Check_file nat u64 | Check_data nat u64 u64 u64

definition check_step :: "pread_fun \<Rightarrow> int \<Rightarrow> check_op \<Rightarrow> LdtmRawCheck \<Rightarrow> LdtmRawCheck" where
  "check_step pread fd op check =
     (case op of
        Check_file n bytes \<Rightarrow> snd (ldtm_raw_check_file check n bytes)
      | Check_data n physical logical bytes \<Rightarrow> snd (ldtm_raw_check_data pread check fd n physical logical bytes))"

text \<open>A claim is a file announced with its size, or a byte of a file found equal to the oracle.\<close>

datatype check_claim = Announced nat | Compared nat u64

definition check_claims :: "LdtmRawCheck \<Rightarrow> check_claim set" where
  "check_claims check =
     {Announced n | n. n < LDTM_RAW_FILES \<and> bit (ck_seen check) n} \<union>
     {Compared n i | n i. n < LDTM_RAW_FILES \<and> i < ck_done check ! n}"

definition byte_read :: "pread_fun \<Rightarrow> int \<Rightarrow> u64 \<Rightarrow> u8 \<Rightarrow> bool" where
  "byte_read pread fd address b \<longleftrightarrow>
     (\<exists>len offset data k. pread fd len offset = Inr data \<and> k < length data \<and> k < unat len \<and>
        address = offset + of_nat k \<and> data ! k = b)"

fun check_backs :: "pread_fun \<Rightarrow> int \<Rightarrow> LdtmFilesystemSpec option \<Rightarrow> check_op \<Rightarrow> check_claim \<Rightarrow> bool" where
  "check_backs pread fd spec (Check_file n bytes) (Announced n') = (n = n' \<and> bytes = ldtm_raw_file_bytes spec n)"
| "check_backs pread fd spec (Check_data n physical logical bytes) (Compared n' i) =
     (n = n' \<and> logical \<le> i \<and> i - logical < bytes \<and> byte_read pread fd (physical + (i - logical)) (payload_byte n i))"
| "check_backs pread fd spec _ _ = False"

definition check_valid :: "LdtmFilesystemSpec option \<Rightarrow> LdtmRawCheck \<Rightarrow> bool" where
  "check_valid spec check \<longleftrightarrow> ck_spec check = spec \<and> length (ck_done check) = LDTM_RAW_FILES \<and>
     (\<forall>n < LDTM_RAW_FILES. ck_done check ! n \<le> ldtm_raw_file_bytes spec n)"

lemma check_loop_compares:
  assumes "check_loop pread fd n physical logical bytes check = (ok, check')"
    and "n < length (ck_done check)" "ck_done check ! n = logical" "unat logical + unat bytes < 2 ^ 64"
  shows "\<exists>d \<le> bytes. check' = check\<lparr>ck_done := (ck_done check)[n := logical + d]\<rparr> \<and> (ok \<longrightarrow> d = bytes) \<and>
    (\<forall>k < unat d. byte_read pread fd (physical + of_nat k) (payload_byte n (logical + of_nat k)))"
  using assms
proof (induction pread fd n physical logical bytes check rule: check_loop.induct)
  case (1 pread fd n physical logical bytes check)
  define a where "a = buffer_take bytes"
  show ?case
  proof (cases "bytes \<noteq> 0 \<and> ldtm_raw_read pread fd physical (unat a) = Some (ldtm_raw_payload (unat a) n logical)")
    case False
    then have "check' = check \<and> (ok \<longrightarrow> bytes = 0)"
      using "1.prems"(1) by (subst (asm) check_loop.simps) (auto simp: Let_def a_def split: if_splits option.splits)
    then show ?thesis
      using "1.prems"(3) by (intro exI [of _ 0]) auto
  next
    case True
    then have read: "pread fd a physical = Inr (ldtm_raw_payload (unat a) n logical)"
      by (auto simp: ldtm_raw_read_def split: sum.splits)
    have a: "unat a \<le> unat bytes"
      by (simp add: a_def buffer_take_bounds)
    then have next_offset: "unat (logical + a) = unat logical + unat a" "unat (bytes - a) = unat bytes - unat a"
      using "1.prems"(4) by (simp_all add: unat_word_ariths unat_sub word_le_nat_alt)
    let ?check = "check\<lparr>ck_done := (ck_done check)[n := ck_done check ! n + a]\<rparr>"
    have "check_loop pread fd n (physical + a) (logical + a) (bytes - a) ?check = (ok, check')"
      using "1.prems"(1) True by (subst (asm) check_loop.simps) (simp add: Let_def a_def)
    from "1.IH" [OF _ a_def _ _ this] True "1.prems" obtain d where
      d: "d \<le> bytes - a" "check' = ?check\<lparr>ck_done := (ck_done ?check)[n := logical + a + d]\<rparr>" "ok \<longrightarrow> d = bytes - a" and
      later: "\<forall>k < unat d. byte_read pread fd (physical + a + of_nat k) (payload_byte n (logical + a + of_nat k))"
      by (auto simp: next_offset a)
    have sum: "unat (a + d) = unat a + unat d"
      using d(1) a "1.prems"(4) by (simp add: unat_word_ariths word_le_nat_alt next_offset)
    have "byte_read pread fd (physical + of_nat k) (payload_byte n (logical + of_nat k))" if "k < unat (a + d)" for k
    proof (cases "k < unat a")
      case True
      then show ?thesis
        using read unfolding byte_read_def raw_payload_bytes
        by (intro exI [of _ a] exI [of _ physical] exI conjI) (assumption | simp)+
    next
      case False
      then show ?thesis
        using later [rule_format, of "k - unat a"] that by (simp add: sum of_nat_diff add_ac)
    qed
    moreover have "a + d \<le> bytes"
      using d(1) a by (simp add: word_le_nat_alt sum next_offset)
    ultimately show ?thesis
      using d(2,3) by (intro exI [of _ "a + d"]) (auto simp: add_ac)
  qed
qed

lemma check_file_result:
  "ldtm_raw_check_file check n bytes = (ok, check') \<Longrightarrow>
     check' = check \<or>
     n < LDTM_RAW_FILES \<and> bytes = ldtm_raw_file_bytes (ck_spec check) n \<and>
     check' = check\<lparr>ck_seen := ck_seen check OR push_bit n 1\<rparr>"
  by (auto simp: ldtm_raw_check_file_def split: if_splits)

lemma check_data_result:
  assumes "ldtm_raw_check_data pread check fd n physical logical bytes = (ok, check')" "check_valid spec check"
  shows "check' = check \<or>
    (\<exists>d \<le> bytes. n < LDTM_RAW_FILES \<and> check' = check\<lparr>ck_done := (ck_done check)[n := logical + d]\<rparr> \<and>
       ck_done check ! n = logical \<and> logical \<le> logical + d \<and> logical + d \<le> ldtm_raw_file_bytes spec n \<and>
       (\<forall>k < unat d. byte_read pread fd (physical + of_nat k) (payload_byte n (logical + of_nat k))))"
proof (cases "n \<ge> LDTM_RAW_FILES \<or> logical \<noteq> ck_done check ! n \<or> logical > ldtm_raw_file_bytes spec n \<or>
    bytes > ldtm_raw_file_bytes spec n - logical")
  case True
  then show ?thesis
    using assms by (auto simp: ldtm_raw_check_data_def check_valid_def)
next
  case False
  then have within: "unat logical + unat bytes \<le> unat (ldtm_raw_file_bytes spec n)"
    by (auto simp: word_le_nat_alt word_less_nat_alt unat_sub not_less)
  then have small: "unat logical + unat bytes < 2 ^ 64"
    using file_bytes_bound [of spec n] by simp
  have "check_loop pread fd n physical logical bytes check = (ok, check')" "n < length (ck_done check)"
    using assms False by (auto simp: ldtm_raw_check_data_def check_valid_def split: if_splits)
  from check_loop_compares [OF this _ small] False obtain d where
    d: "d \<le> bytes" "check' = check\<lparr>ck_done := (ck_done check)[n := logical + d]\<rparr>"
    "\<forall>k < unat d. byte_read pread fd (physical + of_nat k) (payload_byte n (logical + of_nat k))"
    by auto
  have "unat (logical + d) = unat logical + unat d"
    using d(1) small by (simp add: unat_word_ariths word_le_nat_alt)
  then show ?thesis
    using d False within by (intro disjI2 exI [of _ d]) (auto simp: word_le_nat_alt)
qed

lemma check_step_valid: "check_valid spec check \<Longrightarrow> check_valid spec (check_step pread fd op check)"
proof (cases op)
  case (Check_file n bytes)
  assume "check_valid spec check"
  then show ?thesis
    using check_file_result [of check n bytes, OF prod.collapse [symmetric]]
    by (auto simp: check_step_def Check_file check_valid_def)
next
  case (Check_data n physical logical bytes)
  assume valid: "check_valid spec check"
  then show ?thesis
    using check_data_result [OF prod.collapse [symmetric] valid, of pread fd n physical logical bytes]
    by (auto simp: check_step_def Check_data check_valid_def nth_list_update)
qed

lemma new_bit:
  "bit (seen OR 2 ^ n :: u32) m \<Longrightarrow> \<not> bit seen m \<Longrightarrow> n = m"
  by (auto simp: bit_or_iff bit_exp_iff)

lemma check_step_backed:
  assumes valid: "check_valid spec check"
    and c: "c \<in> check_claims (check_step pread fd op check)" "c \<notin> check_claims check"
  shows "check_backs pread fd spec op c"
proof (cases op)
  case (Check_file n bytes)
  then show ?thesis
    using check_file_result [of check n bytes, OF prod.collapse [symmetric]] c valid
    by (auto simp: check_step_def check_claims_def check_valid_def dest: new_bit)
next
  case (Check_data n physical logical bytes)
  have grown: "check_backs pread fd spec op (Compared n i)"
    if "d \<le> bytes" "i < logical + d" "\<not> i < logical" "logical \<le> logical + d"
      "\<forall>k < unat d. byte_read pread fd (physical + of_nat k) (payload_byte n (logical + of_nat k))" for d i
  proof -
    have "unat (logical + d) = unat logical + unat d"
      using that(4) by (simp add: unat_plus_simple)
    then have "i - logical < d"
      using that(2,3) by (auto simp: word_less_nat_alt unat_sub word_le_nat_alt not_less)
    then show ?thesis
      using that(1,3) that(5) [rule_format, of "unat (i - logical)"]
      by (auto simp: Check_data word_less_nat_alt word_le_nat_alt)
  qed
  let ?check' = "check_step pread fd op check"
  have "?check' \<noteq> check"
    using c by auto
  then obtain d where d: "d \<le> bytes" "?check' = check\<lparr>ck_done := (ck_done check)[n := logical + d]\<rparr>"
    "ck_done check ! n = logical" "logical \<le> logical + d"
    "\<forall>k < unat d. byte_read pread fd (physical + of_nat k) (payload_byte n (logical + of_nat k))" "n < LDTM_RAW_FILES"
    using check_data_result [OF prod.collapse [symmetric] valid, of pread fd n physical logical bytes]
    by (auto simp: check_step_def Check_data)
  have "c \<in> check_claims (check\<lparr>ck_done := (ck_done check)[n := logical + d]\<rparr>)"
    using c(1) d(2) by simp
  then obtain i where "c = Compared n i" "i < logical + d" "\<not> i < logical"
    using c(2) d(3,6) valid by (auto simp: check_claims_def check_valid_def nth_list_update split: if_splits)
  then show ?thesis
    using grown d(1,4,5) by blast
qed

interpretation corpus_check: evidence "check_step pread fd" "check_valid spec" check_claims "check_backs pread fd spec"
  for pread fd spec
  by unfold_locales (use check_step_valid check_step_backed in blast)+

lemma seen_all: "(seen :: u32) = push_bit LDTM_RAW_FILES 1 - 1 \<Longrightarrow> n < LDTM_RAW_FILES \<Longrightarrow> bit seen n"
proof -
  have "(push_bit LDTM_RAW_FILES 1 - 1 :: u32) = mask LDTM_RAW_FILES"
    by (simp add: push_bit_eq_mult mask_eq_exp_minus_1)
  then show "seen = push_bit LDTM_RAW_FILES 1 - 1 \<Longrightarrow> n < LDTM_RAW_FILES \<Longrightarrow> bit seen n"
    by (simp add: bit_mask_iff LDTM_RAW_FILES_def del: push_bit_of_1)
qed

lemma corpus_checked:
  assumes "ldtm_raw_check_finish (fold (check_step pread fd) ops (ldtm_raw_check_init spec))"
    and "n < LDTM_RAW_FILES"
  shows "Check_file n (ldtm_raw_file_bytes spec n) \<in> set ops \<and>
    (\<forall>i < ldtm_raw_file_bytes spec n. \<exists>physical logical bytes. Check_data n physical logical bytes \<in> set ops \<and>
       logical \<le> i \<and> i - logical < bytes \<and> byte_read pread fd (physical + (i - logical)) (payload_byte n i))"
proof -
  let ?final = "fold (check_step pread fd) ops (ldtm_raw_check_init spec)"
  have start: "check_valid spec (ldtm_raw_check_init spec)"
    by (simp add: check_valid_def ldtm_raw_check_init_def)
  have none: "check_claims (ldtm_raw_check_init spec) = {}"
    by (auto simp: check_claims_def ldtm_raw_check_init_def)
  have "check_valid spec ?final"
    using corpus_check.run_valid [OF start] .
  then have ends: "bit (ck_seen ?final) n" "ck_done ?final ! n = ldtm_raw_file_bytes spec n"
    using assms seen_all by (auto simp: ldtm_raw_check_finish_def check_valid_def list_all_iff)
  have backed: "\<exists>op \<in> set ops. check_backs pread fd spec op c" if "c \<in> check_claims ?final" for c
    using corpus_check.run_backed [OF start that] by (simp add: none)
  have "Announced n \<in> check_claims ?final"
    using ends(1) assms(2) by (auto simp: check_claims_def)
  from backed [OF this] have "Check_file n (ldtm_raw_file_bytes spec n) \<in> set ops"
    by (auto elim: check_backs.elims(2))
  moreover have "\<exists>physical logical bytes. Check_data n physical logical bytes \<in> set ops \<and>
      logical \<le> i \<and> i - logical < bytes \<and> byte_read pread fd (physical + (i - logical)) (payload_byte n i)"
    if "i < ldtm_raw_file_bytes spec n" for i
  proof -
    have "Compared n i \<in> check_claims ?final"
      using ends(2) assms(2) that by (auto simp: check_claims_def)
    from backed [OF this] show ?thesis
      by (elim bexE check_backs.elims(2)) auto
  qed
  ultimately show ?thesis by blast
qed

end
