(* ===== verification/Corpus_Roundtrip.thy ===== *)
theory Corpus_Roundtrip
  imports Raw
begin

text \<open>
  Planner, payload writer and checker of \<open>test_media_raw.c\<close> fit together: the payload written by a
  plan onto a medium that stores what it is given is accepted by the checker when it follows
  the plan's extents. The medium is a function from addresses to bytes.
\<close>

subsection \<open>A medium\<close>

type_synonym medium = "u64 \<Rightarrow> u8"

definition medium_pread :: "medium \<Rightarrow> pread_fun" where
  "medium_pread m = (\<lambda>fd len offset. Inr (map (\<lambda>k. m (offset + of_nat k)) [0..<unat len]))"

definition medium_pwrite :: "medium pwrite_fun" where
  "medium_pwrite = (\<lambda>fd data offset m.
     (None, \<lambda>a. if unat (a - offset) < length data then data ! unat (a - offset) else m a))"

definition medium_fsync :: "int \<Rightarrow> medium \<Rightarrow> bool \<times> medium" where
  "medium_fsync fd m = (True, m)"

subsection \<open>What the writer stores\<close>

definition content :: "nat \<Rightarrow> u64 \<Rightarrow> u64 \<Rightarrow> u8" where
  "content n bytes logical = (if logical < bytes then payload_byte n logical else 0)"

definition region_store :: "nat \<Rightarrow> u64 \<Rightarrow> u64 \<Rightarrow> u64 \<Rightarrow> u64 \<Rightarrow> medium \<Rightarrow> medium" where
  "region_store n bytes logical physical remaining m =
     (\<lambda>a. if a - physical < remaining then content n bytes (logical + (a - physical)) else m a)"

lemma chunk_content:
  assumes "unat logical + unat amount < 2 ^ 64"
    and "used = (if (if logical < bytes then bytes - logical else 0) < amount
                 then unat (if logical < bytes then bytes - logical else 0) else unat amount)"
  shows "ldtm_raw_payload used n logical @ replicate (unat amount - used) 0 =
    map (\<lambda>k. content n bytes (logical + of_nat k)) [0..<unat amount]"
proof (rule nth_equalityI)
  have used: "used \<le> unat amount" "k < used \<longleftrightarrow> k < unat amount \<and> unat logical + k < unat bytes" for k
    using assms by (auto simp: word_less_nat_alt unat_sub word_le_nat_alt split: if_splits)
  then show "length (ldtm_raw_payload used n logical @ replicate (unat amount - used) 0) =
      length (map (\<lambda>k. content n bytes (logical + of_nat k)) [0..<unat amount])"
    by simp
  fix k assume "k < length (ldtm_raw_payload used n logical @ replicate (unat amount - used) 0)"
  then have k: "k < unat amount"
    using used(1) by simp
  then have "unat (logical + of_nat k) = unat logical + k"
    using assms(1) by (simp add: unat_word_ariths unat_of_nat)
  then show "(ldtm_raw_payload used n logical @ replicate (unat amount - used) 0) ! k =
      map (\<lambda>k. content n bytes (logical + of_nat k)) [0..<unat amount] ! k"
    using k used(1) used(2) [of k]
    by (cases "k < used") (simp_all add: nth_append raw_payload_bytes content_def word_less_nat_alt)
qed

lemma region_store_split:
  assumes "amount \<le> remaining"
  shows "region_store n bytes (logical + amount) (physical + amount) (remaining - amount)
      (region_store n bytes logical physical amount m) = region_store n bytes logical physical remaining m"
proof
  fix a
  define x where "x = a - physical"
  have shift: "a - (physical + amount) = x - amount"
    by (simp add: x_def)
  have low: "\<not> x - amount < remaining - amount" if "x < amount"
    using that assms
    by (auto simp: word_less_nat_alt word_le_nat_alt unat_sub unat_sub_if_size word_size)
       (use unat_lt64_num [of remaining] in linarith)
  have high: "x - amount < remaining - amount \<longleftrightarrow> x < remaining" if "\<not> x < amount"
    using that assms by (auto simp: word_less_nat_alt word_le_nat_alt unat_sub not_less)
  show "region_store n bytes (logical + amount) (physical + amount) (remaining - amount)
      (region_store n bytes logical physical amount m) a = region_store n bytes logical physical remaining m a"
    using low high assms by (auto simp: region_store_def shift simp flip: x_def)
qed

lemma write_part_stores:
  assumes "unat logical + unat remaining < 2 ^ 64"
  shows "write_part medium_pwrite fd n bytes logical physical remaining m =
    (True, logical + remaining, region_store n bytes logical physical remaining m)"
  using assms
proof (induction "medium_pwrite" fd n bytes logical physical remaining m rule: write_part.induct)
  case (1 fd n bytes logical physical remaining m)
  show ?case
  proof (cases "remaining = 0")
    case True
    then show ?thesis by (subst write_part.simps) (simp add: region_store_def)
  next
    case False
    define a where "a = buffer_take remaining"
    have a: "unat a \<le> unat remaining"
      by (simp add: a_def buffer_take_bounds)
    then have small: "unat logical + unat a < 2 ^ 64" "unat (logical + a) = unat logical + unat a"
      "unat (remaining - a) = unat remaining - unat a"
      using "1.prems" by (simp_all add: unat_word_ariths unat_sub word_le_nat_alt)
    have stored: "ldtm_raw_write medium_pwrite fd physical
        (map (\<lambda>k. content n bytes (logical + of_nat k)) [0..<unat a]) m = (True, region_store n bytes logical physical a m)"
      by (auto simp: ldtm_raw_write_def medium_pwrite_def region_store_def word_less_nat_alt)
    note chunk = chunk_content [OF small(1) refl, of bytes n]
    have "write_part medium_pwrite fd n bytes (logical + a) (physical + a) (remaining - a) (region_store n bytes logical physical a m) =
        (True, logical + a + (remaining - a), region_store n bytes (logical + a) (physical + a) (remaining - a)
          (region_store n bytes logical physical a m))"
      using "1.hyps" [OF False a_def refl refl refl] "1.prems" small a
      by (simp add: chunk stored flip: a_def)
    then show ?thesis
      using False a
      by (subst write_part.simps)
         (simp add: Let_def chunk stored region_store_split word_le_nat_alt flip: a_def)
  qed
qed

subsection \<open>The whole payload\<close>

definition slot_bytes :: "LdtmRawPlan \<Rightarrow> nat \<times> nat \<Rightarrow> u64" where
  "slot_bytes plan = (\<lambda>(phase, n). rf_count (rp_files plan ! n) ! phase * ucast (rp_unit plan))"

definition slot_address :: "LdtmRawPlan \<Rightarrow> nat \<times> nat \<Rightarrow> u64" where
  "slot_address plan = (\<lambda>(phase, n). rf_start (rp_files plan ! n) ! phase * ucast (rp_unit plan))"

definition slot_logical :: "LdtmRawPlan \<Rightarrow> nat \<times> nat \<Rightarrow> u64" where
  "slot_logical plan = (\<lambda>(phase, n). if phase = 0 then 0 else slot_bytes plan (0, n))"

definition slot_store :: "LdtmRawPlan \<Rightarrow> nat \<times> nat \<Rightarrow> medium \<Rightarrow> medium" where
  "slot_store plan s = region_store (snd s) (rf_bytes (rp_files plan ! snd s)) (slot_logical plan s)
     (slot_address plan s) (slot_bytes plan s)"

definition file_slots :: "nat list \<Rightarrow> (nat \<times> nat) list" where
  "file_slots ns = [(phase, n). n \<leftarrow> ns, phase \<leftarrow> [0, 1]]"

lemma write_files_store:
  assumes "\<forall>n \<in> set ns. unat (slot_bytes plan (0, n)) + unat (slot_bytes plan (1, n)) < 2 ^ 64"
  shows "write_files medium_pwrite fd plan ns m = (True, fold (slot_store plan) (file_slots ns) m)"
  using assms
proof (induction ns arbitrary: m)
  case Nil
  then show ?case by (simp add: file_slots_def)
next
  case (Cons n ns)
  have "unat (slot_bytes plan (0, n)) < 2 ^ 64" "unat (slot_bytes plan (0, n)) + unat (slot_bytes plan (1, n)) < 2 ^ 64"
    using Cons.prems by auto
  then have "write_parts medium_pwrite fd (rp_unit plan) n (rp_files plan ! n) [0, 1] 0 m =
      (True, slot_store plan (1, n) (slot_store plan (0, n) m))"
    by (simp add: write_part_stores slot_store_def slot_bytes_def slot_address_def slot_logical_def)
  then show ?case
    using Cons by (simp add: file_slots_def)
qed

lemma fold_store_here:
  assumes "distinct slots" "s \<in> set slots" "a - slot_address plan s < slot_bytes plan s"
    and "\<forall>t \<in> set slots. t \<noteq> s \<longrightarrow> \<not> a - slot_address plan t < slot_bytes plan t"
  shows "fold (slot_store plan) slots m a =
    content (snd s) (rf_bytes (rp_files plan ! snd s)) (slot_logical plan s + (a - slot_address plan s))"
proof -
  have later: "fold (slot_store plan) ts m' a = m' a"
    if "\<forall>t \<in> set ts. \<not> a - slot_address plan t < slot_bytes plan t" for ts m'
    using that by (induction ts arbitrary: m') (simp_all add: slot_store_def region_store_def)
  obtain before after where slots: "slots = before @ s # after" "s \<notin> set after"
    using assms(1,2) by (metis distinct.simps(2) distinct_append in_set_conv_decomp)
  have "\<forall>t \<in> set after. \<not> a - slot_address plan t < slot_bytes plan t"
    using assms(4) slots by auto
  from later [OF this] show ?thesis
    using assms(3) by (simp add: slots(1)) (simp add: slot_store_def region_store_def)
qed

lemma sorted_wrt_either:
  "sorted_wrt R xs \<Longrightarrow> x \<in> set xs \<Longrightarrow> y \<in> set xs \<Longrightarrow> x \<noteq> y \<Longrightarrow> R x y \<or> R y x"
  by (induction xs) auto

text \<open>Facts on a plan, in bytes.\<close>

definition clear_slots :: "LdtmFilesystemSpec option \<Rightarrow> LdtmRawPlan \<Rightarrow> bool" where
  "clear_slots spec plan \<longleftrightarrow>
     (\<forall>n < LDTM_RAW_FILES. rf_bytes (rp_files plan ! n) = ldtm_raw_file_bytes spec n \<and>
        unat (slot_bytes plan (0, n)) + unat (slot_bytes plan (1, n)) < 2 ^ 64 \<and>
        unat (ldtm_raw_file_bytes spec n) \<le> unat (slot_bytes plan (0, n)) + unat (slot_bytes plan (1, n))) \<and>
     (\<forall>s \<in> set raw_slots. \<forall>t \<in> set raw_slots. \<forall>a. s \<noteq> t \<longrightarrow> a - slot_address plan s < slot_bytes plan s \<longrightarrow>
        \<not> a - slot_address plan t < slot_bytes plan t)"

lemma in_region_nat:
  assumes "unat address + unat bytes < 2 ^ 64"
  shows "a - address < bytes \<longleftrightarrow> unat address \<le> unat a \<and> unat a < unat address + unat (bytes :: u64)"
  using assms unat_lt64 [of a] unat_lt64 [of bytes]
  by (auto simp: word_less_nat_alt unat_sub_if_size word_size)

lemma unit_bound:
  assumes "k \<le> unat (capacity div ucast (unit :: u32) :: u64)"
  shows "k * unat unit \<le> unat capacity"
proof -
  have "k * unat unit \<le> unat capacity div unat unit * unat unit"
    using assms(1) by (intro mult_right_mono) (simp_all add: unat_div unat_ucast_u32)
  also have "\<dots> \<le> unat capacity"
    by (simp add: div_times_less_eq_dividend)
  finally show ?thesis .
qed

lemma unit_product:
  assumes "k \<le> unat (capacity div ucast (unit :: u32) :: u64)" "unat c = k"
  shows "unat (c * ucast unit :: u64) = k * unat unit"
proof -
  have "k * unat unit < 18446744073709551616"
    using unit_bound [OF assms(1)] unat_lt64_num [of capacity] by linarith
  then show ?thesis
    by (simp add: unat_word_ariths unat_ucast_u32 assms(2))
qed

lemma plan_clear:
  assumes plan: "ldtm_raw_plan spec capacity unit first = Some plan"
    and room: "unat (capacity div ucast unit) + 2 < 2 ^ 64"
  shows "clear_slots spec plan"
proof -
  note facts = raw_plan_facts [OF plan room]
  define start where "start = slot_start (rp_files plan)"
  define n_units where "n_units = slot_count (rp_files plan)"
  note pairwise = spaced_pairwise [OF facts(3), unfolded plan_extents_def extents_of_def, folded start_def n_units_def]
  have inside: "start s + n_units s \<le> unat (capacity div ucast unit)" if "s \<in> set raw_slots" "n_units s \<noteq> 0" for s
    using pairwise(1) that by (cases s) auto
  have bytes: "unat (slot_bytes plan s) = n_units s * unat unit" if "s \<in> set raw_slots" for s
  proof (cases "n_units s = 0")
    case True
    then show ?thesis
      by (cases s) (simp add: n_units_def slot_count_def slot_bytes_def unat_eq_0)
  next
    case False
    then have "n_units s \<le> unat (capacity div ucast unit)"
      using inside [OF that] by simp
    from unit_product [OF this] show ?thesis
      by (cases s) (simp add: n_units_def slot_count_def slot_bytes_def facts(2))
  qed
  have address: "unat (slot_address plan s) = start s * unat unit"
    "(start s + n_units s) * unat unit \<le> unat capacity" if "s \<in> set raw_slots" "n_units s \<noteq> 0" for s
  proof -
    have "start s \<le> unat (capacity div ucast unit)"
      using inside [OF that] by simp
    from unit_product [OF this] show "unat (slot_address plan s) = start s * unat unit"
      by (cases s) (simp add: start_def slot_start_def slot_address_def facts(2))
    show "(start s + n_units s) * unat unit \<le> unat capacity"
      by (rule unit_bound [OF inside [OF that]])
  qed
  have region: "a - slot_address plan s < slot_bytes plan s \<longleftrightarrow>
      start s * unat unit \<le> unat a \<and> unat a < (start s + n_units s) * unat unit"
    if "s \<in> set raw_slots" for a s
  proof (cases "n_units s = 0")
    case True
    then show ?thesis
      using bytes [OF that] by (auto simp: word_less_nat_alt)
  next
    case False
    have "unat (slot_address plan s) + unat (slot_bytes plan s) < 2 ^ 64"
      using le_less_trans [OF address(2) [OF that False] unat_lt64] address(1) [OF that False] bytes [OF that]
      by (simp add: add_mult_distrib)
    from in_region_nat [OF this] show ?thesis
      using address(1) [OF that False] bytes [OF that] by (simp add: add_mult_distrib)
  qed
  have apart: "\<not> a - slot_address plan t < slot_bytes plan t"
    if st: "s \<in> set raw_slots" "t \<in> set raw_slots" "s \<noteq> t" and a: "a - slot_address plan s < slot_bytes plan s" for s t a
  proof
    assume b: "a - slot_address plan t < slot_bytes plan t"
    have "n_units s \<noteq> 0" "n_units t \<noteq> 0"
      using a b bytes [OF st(1)] bytes [OF st(2)] by (auto simp: word_less_nat_alt intro!: gr0I)
    then have "start s + n_units s + 2 \<le> start t \<or> start t + n_units t + 2 \<le> start s"
      using sorted_wrt_either [of _ "filter (\<lambda>s. n_units s \<noteq> 0) raw_slots" s t] pairwise(2) st by (simp add: sorted_wrt_map)
    then have "(start s + n_units s) * unat unit \<le> start t * unat unit \<or> (start t + n_units t) * unat unit \<le> start s * unat unit"
      by (auto intro!: mult_right_mono)
    moreover have "start s * unat unit \<le> unat a \<and> unat a < (start s + n_units s) * unat unit"
      "start t * unat unit \<le> unat a \<and> unat a < (start t + n_units t) * unat unit"
      using a b region st by blast+
    ultimately show False
      by linarith
  qed
  have "rf_bytes (rp_files plan ! n) = ldtm_raw_file_bytes spec n \<and>
        unat (slot_bytes plan (0, n)) + unat (slot_bytes plan (1, n)) < 2 ^ 64 \<and>
        unat (ldtm_raw_file_bytes spec n) \<le> unat (slot_bytes plan (0, n)) + unat (slot_bytes plan (1, n))"
    if n: "n < LDTM_RAW_FILES" for n
  proof -
    note cover = slots_cover_file [OF facts(1) facts(4) [OF _ n]]
    have members: "(0, n) \<in> set raw_slots" "(1, n) \<in> set raw_slots"
      using n by (simp_all add: raw_slots_wf(3))
    define b where "b = unat (ldtm_raw_file_bytes spec n)"
    define u where "u = unat unit"
    have u: "0 < u" "u < 2 ^ 32"
      using facts(1) unsigned_less [of unit] by (simp_all add: u_def unat_gt_0)
    have "unat (slot_bytes plan (0, n)) + unat (slot_bytes plan (1, n)) = (b + u - 1) div u * u"
      using bytes members cover(2) by (simp add: n_units_def unit_count_def u_def b_def flip: add_mult_distrib)
    moreover have "b \<le> (b + u - 1) div u * u"
      using div_mult_mod_eq [of "b + u - 1" u] mod_less_divisor [OF u(1), of "b + u - 1"] u(1) by linarith
    moreover have "(b + u - 1) div u * u \<le> b + u"
      using div_times_less_eq_dividend [of "b + u - 1" u] by linarith
    moreover have "b \<le> 62914560"
      by (simp add: b_def file_bytes_bound)
    ultimately show ?thesis
      using cover(1) u(2) by (simp add: b_def)
  qed
  then show ?thesis
    using apart by (auto simp: clear_slots_def)
qed

subsection \<open>Checking along the plan\<close>

lemma check_loop_accepts:
  assumes "\<forall>k < unat bytes. m (physical + of_nat k) = payload_byte n (logical + of_nat k)" "n < length (ck_done check)"
  shows "check_loop (medium_pread m) fd n physical logical bytes check =
    (True, check\<lparr>ck_done := (ck_done check)[n := ck_done check ! n + bytes]\<rparr>)"
  using assms
proof (induction "medium_pread m" fd n physical logical bytes check rule: check_loop.induct)
  case (1 fd n physical logical bytes check)
  show ?case
  proof (cases "bytes = 0")
    case True
    then show ?thesis by (subst check_loop.simps) simp
  next
    case False
    define a where "a = buffer_take bytes"
    have a: "unat a \<le> unat bytes" "unat (bytes - a) = unat bytes - unat a"
      by (simp_all add: a_def buffer_take_bounds unat_minus_take)
    have read: "ldtm_raw_read (medium_pread m) fd physical (unat a) = Some (ldtm_raw_payload (unat a) n logical)"
      using "1.prems"(1) a(1) by (simp add: ldtm_raw_read_def medium_pread_def raw_payload_bytes)
    have rest: "\<forall>k < unat (bytes - a). m (physical + a + of_nat k) = payload_byte n (logical + a + of_nat k)"
    proof (intro allI impI)
      fix k assume "k < unat (bytes - a)"
      then show "m (physical + a + of_nat k) = payload_byte n (logical + a + of_nat k)"
        using "1.prems"(1) [rule_format, of "unat a + k"] a by (simp add: add_ac)
    qed
    show ?thesis
      using "1.hyps" [OF False a_def read] False rest read "1.prems"(2)
      by (subst check_loop.simps) (simp add: Let_def flip: a_def)
  qed
qed

definition head_bytes :: "LdtmFilesystemSpec option \<Rightarrow> LdtmRawPlan \<Rightarrow> nat \<Rightarrow> u64" where
  "head_bytes spec plan n = min (ldtm_raw_file_bytes spec n) (slot_bytes plan (0, n))"

text \<open>How a codec checks one file of the plan: its announcement and its two extents.\<close>

definition file_ops :: "LdtmFilesystemSpec option \<Rightarrow> LdtmRawPlan \<Rightarrow> nat \<Rightarrow> check_op list" where
  "file_ops spec plan n =
     [Check_file n (ldtm_raw_file_bytes spec n),
      Check_data n (slot_address plan (0, n)) 0 (head_bytes spec plan n),
      Check_data n (slot_address plan (1, n)) (head_bytes spec plan n) (ldtm_raw_file_bytes spec n - head_bytes spec plan n)]"

definition plan_ops :: "LdtmFilesystemSpec option \<Rightarrow> LdtmRawPlan \<Rightarrow> check_op list" where
  "plan_ops spec plan = concat (map (file_ops spec plan) [0..<LDTM_RAW_FILES])"

definition checked_upto :: "LdtmFilesystemSpec option \<Rightarrow> nat \<Rightarrow> LdtmRawCheck" where
  "checked_upto spec k = \<lparr>ck_spec = spec, ck_seen = mask k,
     ck_done = map (ldtm_raw_file_bytes spec) [0..<k] @ replicate (LDTM_RAW_FILES - k) 0\<rparr>"

definition holds_file :: "LdtmFilesystemSpec option \<Rightarrow> LdtmRawPlan \<Rightarrow> medium \<Rightarrow> nat \<Rightarrow> bool" where
  "holds_file spec plan m n \<longleftrightarrow>
     (\<forall>k < unat (head_bytes spec plan n). m (slot_address plan (0, n) + of_nat k) = payload_byte n (of_nat k)) \<and>
     (\<forall>k < unat (ldtm_raw_file_bytes spec n - head_bytes spec plan n).
        m (slot_address plan (1, n) + of_nat k) = payload_byte n (head_bytes spec plan n + of_nat k))"

lemma mask_step: "k < LDTM_RAW_FILES \<Longrightarrow> (mask k :: u32) AND push_bit k 1 = 0"
  "k < LDTM_RAW_FILES \<Longrightarrow> (mask k :: u32) OR push_bit k 1 = mask (Suc k)"
  by (rule bit_word_eqI, auto simp: bit_simps LDTM_RAW_FILES_def)+

lemma file_ops_advance:
  assumes "holds_file spec plan m k" "k < LDTM_RAW_FILES"
  shows "fold (check_step (medium_pread m) fd) (file_ops spec plan k) (checked_upto spec k) = checked_upto spec (Suc k)"
proof -
  define h where "h = head_bytes spec plan k"
  define b where "b = ldtm_raw_file_bytes spec k"
  have h: "h \<le> b" "h + (b - h) = b"
    by (simp_all add: h_def b_def head_bytes_def)
  define start where "start = map (ldtm_raw_file_bytes spec) [0..<k]"
  define rest where "rest = replicate (LDTM_RAW_FILES - Suc k) (0 :: u64)"
  have split: "replicate (LDTM_RAW_FILES - k) (0 :: u64) = 0 # rest"
    using assms(2) by (simp add: rest_def Suc_diff_Suc flip: replicate_Suc)
  have len: "length start = k"
    by (simp add: start_def)
  let ?C = "\<lambda>seen done. \<lparr>ck_spec = spec, ck_seen = seen, ck_done = start @ done # rest\<rparr>"
  have one: "check_step (medium_pread m) fd (Check_file k b) (?C (mask k) 0) = ?C (mask (Suc k)) 0"
    using assms(2) mask_step [OF assms(2)] by (simp add: check_step_def ldtm_raw_check_file_def b_def del: push_bit_of_1)
  have two: "check_step (medium_pread m) fd (Check_data k (slot_address plan (0, k)) 0 h) (?C seen 0) = ?C seen h" for seen
    using assms h not_less [of b h] check_loop_accepts [of h m "slot_address plan (0, k)" k 0 "?C seen 0" fd]
    by (simp add: check_step_def ldtm_raw_check_data_def holds_file_def len nth_append list_update_append
        flip: h_def b_def)
  have three: "check_step (medium_pread m) fd (Check_data k (slot_address plan (1, k)) h (b - h)) (?C seen h) = ?C seen b" for seen
    using assms h not_less [of b h] check_loop_accepts [of "b - h" m "slot_address plan (1, k)" k h "?C seen h" fd]
    by (simp add: check_step_def ldtm_raw_check_data_def holds_file_def len nth_append list_update_append
        flip: h_def b_def)
  have from_to: "checked_upto spec k = ?C (mask k) 0" "checked_upto spec (Suc k) = ?C (mask (Suc k)) b"
    by (simp_all add: checked_upto_def split start_def rest_def b_def)
  show ?thesis
    by (simp only: file_ops_def from_to fold_simps one two three flip: h_def b_def)
qed

lemma plan_ops_accepted:
  assumes "\<forall>n < LDTM_RAW_FILES. holds_file spec plan m n"
  shows "ldtm_raw_check_finish (fold (check_step (medium_pread m) fd) (plan_ops spec plan) (ldtm_raw_check_init spec))"
proof -
  have "fold (check_step (medium_pread m) fd) (concat (map (file_ops spec plan) [0..<k])) (ldtm_raw_check_init spec) = checked_upto spec k"
    if "k \<le> LDTM_RAW_FILES" for k
    using that
  proof (induction k)
    case 0
    then show ?case by (simp add: checked_upto_def ldtm_raw_check_init_def)
  next
    case (Suc k)
    then show ?case using assms file_ops_advance by simp
  qed
  from this [of LDTM_RAW_FILES] show ?thesis
    by (simp add: plan_ops_def checked_upto_def ldtm_raw_check_finish_def list_all_iff mask_eq_exp_minus_1 push_bit_eq_mult
        del: push_bit_of_1)
qed

subsection \<open>Round trip\<close>

lemma file_slots_set: "set (file_slots [0..<LDTM_RAW_FILES]) = set raw_slots" "distinct (file_slots ns) = distinct ns"
proof -
  show "set (file_slots [0..<LDTM_RAW_FILES]) = set raw_slots"
    by (auto simp: file_slots_def raw_slots_wf(3) less_2_cases_iff)
  show "distinct (file_slots ns) = distinct ns"
    by (induction ns) (auto simp: file_slots_def)
qed

lemma stored_slot:
  assumes clear: "clear_slots spec plan" and n: "n < LDTM_RAW_FILES" and phase: "phase < 2"
    and k: "k < unat (slot_bytes plan (phase, n))"
    and inside: "slot_logical plan (phase, n) + of_nat k < ldtm_raw_file_bytes spec n"
  shows "fold (slot_store plan) (file_slots [0..<LDTM_RAW_FILES]) m (slot_address plan (phase, n) + of_nat k) =
    payload_byte n (slot_logical plan (phase, n) + of_nat k)"
proof -
  let ?s = "(phase, n)" and ?a = "slot_address plan (phase, n) + of_nat k"
  have s: "?s \<in> set raw_slots"
    using n phase by (simp add: raw_slots_wf(3))
  have k64: "unat (of_nat k :: u64) = k"
    using k less_trans [OF k unat_lt64_num] by (simp add: unat_of_nat)
  then have here: "?a - slot_address plan ?s < slot_bytes plan ?s"
    using k by (simp add: word_less_nat_alt)
  have "\<forall>t \<in> set raw_slots. t \<noteq> ?s \<longrightarrow> \<not> ?a - slot_address plan t < slot_bytes plan t"
    using clear s here unfolding clear_slots_def by blast
  from fold_store_here [of "file_slots [0..<LDTM_RAW_FILES]" ?s ?a plan m] this s here show ?thesis
    using clear n inside by (simp add: file_slots_set content_def clear_slots_def)
qed

lemma stored_file:
  assumes clear: "clear_slots spec plan" and n: "n < LDTM_RAW_FILES"
  shows "holds_file spec plan (fold (slot_store plan) (file_slots [0..<LDTM_RAW_FILES]) m) n"
proof -
  define b where "b = ldtm_raw_file_bytes spec n"
  define h where "h = head_bytes spec plan n"
  define c0 where "c0 = slot_bytes plan (0, n)"
  define c1 where "c1 = slot_bytes plan (1, n)"
  have sizes: "unat b \<le> unat c0 + unat c1" "unat c0 + unat c1 < 2 ^ 64"
    using clear n by (auto simp: clear_slots_def b_def c0_def c1_def)
  have h: "h = min b c0"
    by (simp add: h_def head_bytes_def b_def c0_def)
  then have h_nat: "unat h = min (unat b) (unat c0)"
    by (simp add: min_def word_le_nat_alt)
  have small: "unat (of_nat k :: u64) = k" if "k < unat x" for k and x :: u64
    using less_trans [OF that unat_lt64_num] by (simp add: unat_of_nat)
  have part0: "of_nat k < b" "k < unat c0" if "k < unat h" for k
    using that small [OF that] by (simp_all add: word_less_nat_alt h_nat)
  have part1: "h = c0" "k < unat c1" "c0 + of_nat k < b" if k: "k < unat (b - h)" for k
  proof -
    have diff: "unat (b - h) = unat b - unat h"
      by (simp add: h unat_sub)
    then show "h = c0"
      using k by (auto simp: h_nat h min_def word_le_nat_alt split: if_splits)
    then show "k < unat c1" "c0 + of_nat k < b"
      using k diff sizes small [OF k] by (auto simp: word_less_nat_alt unat_word_ariths)
  qed
  show ?thesis
    unfolding holds_file_def
  proof (intro conjI allI impI)
    fix k assume "k < unat (head_bytes spec plan n)"
    then show "fold (slot_store plan) (file_slots [0..<LDTM_RAW_FILES]) m (slot_address plan (0, n) + of_nat k) = payload_byte n (of_nat k)"
      using stored_slot [OF clear n, of 0 k m] part0 [of k]
      by (simp add: slot_logical_def b_def c0_def flip: h_def)
  next
    fix k assume "k < unat (ldtm_raw_file_bytes spec n - head_bytes spec plan n)"
    then show "fold (slot_store plan) (file_slots [0..<LDTM_RAW_FILES]) m (slot_address plan (1, n) + of_nat k) =
        payload_byte n (head_bytes spec plan n + of_nat k)"
      using stored_slot [OF clear n, of 1 k m] part1 [of k]
      by (simp add: slot_logical_def b_def c0_def c1_def flip: h_def)
  qed
qed

lemma corpus_accepted:
  assumes "ldtm_raw_plan spec capacity unit first = Some plan"
    and "unat (capacity div ucast unit) + 2 < 2 ^ 64"
    and "ldtm_raw_write_payload medium_pwrite medium_fsync fd plan m = (ok, m')"
  shows "ok \<and> ldtm_raw_check_finish (fold (check_step (medium_pread m') fd) (plan_ops spec plan) (ldtm_raw_check_init spec))"
proof -
  have clear: "clear_slots spec plan"
    by (rule plan_clear [OF assms(1,2)])
  then have "write_files medium_pwrite fd plan [0..<LDTM_RAW_FILES] m =
      (True, fold (slot_store plan) (file_slots [0..<LDTM_RAW_FILES]) m)"
    by (intro write_files_store) (simp add: clear_slots_def)
  then have result: "ok" "m' = fold (slot_store plan) (file_slots [0..<LDTM_RAW_FILES]) m"
    using assms(3) by (auto simp: ldtm_raw_write_payload_def medium_fsync_def)
  have "\<forall>n < LDTM_RAW_FILES. holds_file spec plan m' n"
    using stored_file [OF clear] by (simp add: result)
  from plan_ops_accepted [OF this] result show ?thesis by blast
qed

lemma demo_room: "unat (255 * LDTM_MIB div ucast (65536 :: u32)) + 2 < 2 ^ 64"
  by (simp add: LDTM_MIB_def)

text \<open>
  Corpus verification is complete, whatever a file-system module does: let it call
  the check callbacks in any order, with any file numbers, offsets and lengths, ignore their
  failures and let reads fail at will. If \<open>ldtm_raw_check_finish\<close> then accepts, each of the sixteen
  files was announced with its exact corpus size, and every byte of every file was really read
  from the medium, at the place the module named for it, and found equal to the oracle's byte.
\<close>
theorem corpus_check_complete:
  assumes "ldtm_raw_check_finish (fold (check_step pread fd) ops (ldtm_raw_check_init spec))"
    and "n < LDTM_RAW_FILES"
  shows "Check_file n (ldtm_raw_file_bytes spec n) \<in> set ops \<and>
    (\<forall>i < ldtm_raw_file_bytes spec n. \<exists>physical logical bytes. Check_data n physical logical bytes \<in> set ops \<and>
       logical \<le> i \<and> i - logical < bytes \<and> byte_read pread fd (physical + (i - logical)) (payload_byte n i))"
  by (rule corpus_checked [OF assms])

theorem corpus_check_complete_witness:
  "\<exists>ops. Check_file 7 62914560 \<in> set ops \<and> (\<exists>physical logical bytes. Check_data 7 physical logical bytes \<in> set ops)"
proof -
  obtain plan where plan: "ldtm_raw_plan (Some demo_slot) (255 * LDTM_MIB) 65536 64 = Some plan"
    using demo_raw_plan by blast
  obtain ok m where run: "ldtm_raw_write_payload medium_pwrite medium_fsync 3 plan (\<lambda>_. 0) = (ok, m)"
    by force
  have last: "ldtm_raw_file_bytes (Some demo_slot) 7 = 62914560"
    by (simp add: demo_slot_def slot_def ldtm_raw_file_bytes_def ldtm_profile_file_bytes_def ldtm_profile_file_chunks_def
        ldtm_fragment_profile_def LDTM_TARGET_FILE_COUNT_def)
  have "Check_file 7 (ldtm_raw_file_bytes (Some demo_slot) 7) \<in> set (plan_ops (Some demo_slot) plan)"
    "\<exists>physical logical bytes. Check_data 7 physical logical bytes \<in> set (plan_ops (Some demo_slot) plan)"
    using corpus_check_complete [OF conjunct2 [OF corpus_accepted [OF plan demo_room run]], of 7]
    by (auto simp: LDTM_RAW_FILES_def last dest!: spec [of _ 0])
  then show ?thesis
    by (auto simp: last)
qed

text \<open>
  Property C16. Manufacture and verification of the corpus agree: whenever a plan exists, writing
  the payload by it onto a storing medium succeeds, and the checker, led along the plan's
  extents, accepts the result; no earlier content of the medium matters.
\<close>
theorem corpus_roundtrip:
  assumes "ldtm_raw_plan spec capacity unit first = Some plan"
    and "unat (capacity div ucast unit) + 2 < 2 ^ 64"
    and "ldtm_raw_write_payload medium_pwrite medium_fsync fd plan m = (ok, m')"
  shows "ok \<and> ldtm_raw_check_finish (fold (check_step (medium_pread m') fd) (plan_ops spec plan) (ldtm_raw_check_init spec))"
  by (rule corpus_accepted [OF assms])

theorem corpus_roundtrip_witness:
  "\<exists>plan ok m'. ldtm_raw_plan (Some demo_slot) (255 * LDTM_MIB) 65536 64 = Some plan \<and>
     ldtm_raw_write_payload medium_pwrite medium_fsync 3 plan (\<lambda>_. 0) = (ok, m') \<and> ok"
proof -
  obtain plan where plan: "ldtm_raw_plan (Some demo_slot) (255 * LDTM_MIB) 65536 64 = Some plan"
    using demo_raw_plan by blast
  obtain ok m' where run: "ldtm_raw_write_payload medium_pwrite medium_fsync 3 plan (\<lambda>_. 0) = (ok, m')"
    by force
  from corpus_roundtrip [OF plan demo_room run] plan run show ?thesis by blast
qed

end
