(* ===== verification/Fat_Fixture.thy ===== *)
theory Fat_Fixture
  imports Raw Loaders
begin

text \<open>
  The FAT and exFAT test media of \<open>test_media/test_media_fat_module.c\<close>. The module's function
  tables and the host's callback table (\<open>IfsDefragHostV2\<close>) are records of functions on one
  state of type \<open>'m\<close>, which holds the medium, the module's own variables and the stop flag.
  A missing function pointer is \<open>None\<close>. Module functions return their C status and the values
  they deliver.
\<close>

subsection \<open>Tables\<close>

text \<open>The I/O description that a module receives; the callbacks are those of the opened target.\<close>

record IfsFatfsIo =
  io_partition_bytes :: u64
  io_sector_bytes :: u32
  io_timestamp :: u32

record IfsFatfsEntry =
  fe_name :: string
  fe_bytes :: u32
  fe_attributes :: u8

record 'm IfsFatfsModuleV3 =
  v3_abi_version :: u32
  v3_structure_bytes :: u32
  v3_format_id :: "string option"
  v3_capabilities :: u64
  v3_mount :: "(IfsFatfsIo \<Rightarrow> 'm \<Rightarrow> int \<times> 'm) option"
  v3_unmount :: "('m \<Rightarrow> int \<times> 'm) option"
  v3_create :: "(string \<Rightarrow> 'm \<Rightarrow> int \<times> 'm) option"
  v3_read :: "(string \<Rightarrow> u32 \<Rightarrow> u32 \<Rightarrow> 'm \<Rightarrow> (int \<times> u8 list) \<times> 'm) option"
  v3_write :: "(string \<Rightarrow> u32 \<Rightarrow> u8 list \<Rightarrow> 'm \<Rightarrow> int \<times> 'm) option"
  v3_stat :: "(string \<Rightarrow> 'm \<Rightarrow> (int \<times> IfsFatfsEntry) \<times> 'm) option"
  v3_directory_entry :: "(string \<Rightarrow> u32 \<Rightarrow> 'm \<Rightarrow> (int \<times> IfsFatfsEntry) \<times> 'm) option"

record 'm IfsFatfsModuleV4 =
  v4_abi_version :: u32
  v4_structure_bytes :: u32
  v4_format_id :: "string option"
  v4_capabilities :: u64
  v4_v3 :: "'m IfsFatfsModuleV3 option"
  v4_format :: "(IfsFatfsIo \<Rightarrow> u32 \<Rightarrow> 'm \<Rightarrow> int \<times> 'm) option"

record 'm IfsExfatModuleV5 =
  v5_abi_version :: u32
  v5_structure_bytes :: u32
  v5_format_id :: "string option"
  v5_capabilities :: u64
  v5_compat_v4 :: "'m IfsFatfsModuleV4 option"
  v5_read64 :: bool
  v5_stat64 :: bool

text \<open>What the entry point behind a symbol returns, read at the type of its interface.\<close>

record 'm fat_symbol =
  sym_v4 :: "'m IfsFatfsModuleV4 option"
  sym_v5 :: "'m IfsExfatModuleV5 option"

record 'm IfsDefragHostV2 =
  hv_open_target :: "path \<Rightarrow> bool \<Rightarrow> 'm \<Rightarrow> u64 option \<times> 'm"
  hv_close_target :: "'m \<Rightarrow> 'm"
  hv_write_at :: "u64 \<Rightarrow> u8 list \<Rightarrow> 'm \<Rightarrow> int \<times> 'm"
  hv_stop_requested :: "'m \<Rightarrow> bool \<times> 'm"

definition IFS_FATFS_CAP_READ :: u64 where "IFS_FATFS_CAP_READ = 1"
definition IFS_FATFS_CAP_WRITE_EXISTING :: u64 where "IFS_FATFS_CAP_WRITE_EXISTING = 2"
definition IFS_FATFS_CAP_CREATE :: u64 where "IFS_FATFS_CAP_CREATE = 4"
definition IFS_FATFS_CAP_DIRECTORY :: u64 where "IFS_FATFS_CAP_DIRECTORY = 32"
definition IFS_FATFS_CAP_FORMAT :: u64 where "IFS_FATFS_CAP_FORMAT = 128"
definition IFS_EXFAT_CAP_READ64 :: u64 where "IFS_EXFAT_CAP_READ64 = 1"
definition IFS_EXFAT_CAP_STAT64 :: u64 where "IFS_EXFAT_CAP_STAT64 = 8"

definition has_caps :: "u64 \<Rightarrow> u64 \<Rightarrow> bool" where
  "has_caps capabilities required \<longleftrightarrow> capabilities AND required = required"

definition v5_valid :: "'m IfsExfatModuleV5 \<Rightarrow> bool" where
  "v5_valid v5 \<longleftrightarrow> v5_abi_version v5 = 5 \<and> v5_structure_bytes v5 \<ge> 64 \<and> v5_format_id v5 = Some ''exfat'' \<and>
     v5_compat_v4 v5 \<noteq> None \<and> v5_read64 v5 \<and> v5_stat64 v5 \<and>
     has_caps (v5_capabilities v5) (IFS_EXFAT_CAP_READ64 OR IFS_EXFAT_CAP_STAT64)"

definition v4_valid :: "string \<Rightarrow> 'm IfsFatfsModuleV4 \<Rightarrow> bool" where
  "v4_valid key api \<longleftrightarrow> v4_abi_version api = 4 \<and> v4_structure_bytes api \<ge> 72 \<and> v4_format_id api = Some key \<and>
     has_caps (v4_capabilities api) IFS_FATFS_CAP_FORMAT \<and> v4_format api \<noteq> None \<and> v4_v3 api \<noteq> None"

definition v3_valid :: "string \<Rightarrow> 'm IfsFatfsModuleV3 \<Rightarrow> bool" where
  "v3_valid key v3 \<longleftrightarrow> v3_abi_version v3 = 3 \<and> v3_structure_bytes v3 \<ge> 112 \<and>
     has_caps (v3_capabilities v3) (IFS_FATFS_CAP_CREATE OR IFS_FATFS_CAP_WRITE_EXISTING) \<and>
     v3_format_id v3 = Some key \<and> v3_mount v3 \<noteq> None \<and> v3_unmount v3 \<noteq> None \<and> v3_create v3 \<noteq> None \<and> v3_write v3 \<noteq> None"

text \<open>The C function \<open>interface\<close>; \<open>None\<close> is its null result.\<close>

definition fat_interface :: "'m fat_symbol \<Rightarrow> LdtmFilesystemSpec \<Rightarrow> 'm IfsFatfsModuleV4 option" where
  "fat_interface symbol spec =
     (let api = (if sp_creator spec = LDTM_CREATOR_EXFAT
                 then case sym_v5 symbol of
                        None \<Rightarrow> None
                      | Some v5 \<Rightarrow> if v5_valid v5 then v5_compat_v4 v5 else None
                 else sym_v4 symbol)
      in case api of
           None \<Rightarrow> None
         | Some api \<Rightarrow>
             if \<not> v4_valid (sp_key spec) api then None
             else case v4_v3 api of
                    None \<Rightarrow> None
                  | Some v3 \<Rightarrow> if v3_valid (sp_key spec) v3 then Some api else None)"

definition fat_available :: "LdtmFilesystemSpec \<Rightarrow> 'm fat_symbol \<Rightarrow> int" where
  "fat_available spec symbol = (if fat_interface symbol spec \<noteq> None then 0 else - 1)"

subsection \<open>Creation\<close>

definition slot_capacity :: "LdtmFilesystemSpec \<Rightarrow> u64" where
  "slot_capacity spec = ucast (sp_size_mib spec) * LDTM_MIB"

definition zero_buffer :: "u8 list" where
  "zero_buffer = replicate 65536 0"

text \<open>Clearing the first and the last MiB; \<open>False\<close> is \<open>goto done\<close>.\<close>

fun clear_signatures :: "'m IfsDefragHostV2 \<Rightarrow> u64 \<Rightarrow> u64 list \<Rightarrow> 'm \<Rightarrow> bool \<times> 'm" where
  "clear_signatures H bytes [] m = (True, m)"
| "clear_signatures H bytes (at # ats) m =
     (case hv_stop_requested H m of
        (True, m) \<Rightarrow> (False, m)
      | (False, m) \<Rightarrow>
          (case hv_write_at H at zero_buffer m of
             (e, m) \<Rightarrow>
               if e \<noteq> 0 then (False, m)
               else case hv_write_at H (bytes - LDTM_MIB + at) zero_buffer m of
                      (e, m) \<Rightarrow> if e \<noteq> 0 then (False, m) else clear_signatures H bytes ats m))"

definition clear_offsets :: "u64 list" where
  "clear_offsets = map (\<lambda>i. of_nat i * 65536) [0..<16]"

fun create_names :: "(string \<Rightarrow> 'm \<Rightarrow> int \<times> 'm) \<Rightarrow> nat list \<Rightarrow> 'm \<Rightarrow> int \<times> 'm" where
  "create_names create [] m = (0, m)"
| "create_names create (n # ns) m =
     (case create (ldtm_raw_name n) m of
        (result, m) \<Rightarrow> if result \<noteq> 0 then (result, m) else create_names create ns m)"

lemma span_progress:
  assumes "\<not> stop \<le> (at :: u64)"
  shows "unat (at + buffer_take (stop - at)) = unat at + unat (buffer_take (stop - at))"
    "unat stop - unat (at + buffer_take (stop - at)) < unat stop - unat at"
proof -
  have diff: "unat (stop - at) = unat stop - unat at" "unat at < unat stop"
    using assms by (simp_all add: unat_sub word_le_nat_alt not_le)
  then have a: "unat (buffer_take (stop - at)) \<le> unat stop - unat at" "0 < unat (buffer_take (stop - at))"
    using buffer_take_bounds [of "stop - at"] by auto
  have "unat at + unat (buffer_take (stop - at)) \<le> unat stop"
    using a diff by linarith
  then have "unat at + unat (buffer_take (stop - at)) < 2 ^ 64"
    by (rule le_less_trans) simp
  then show sum: "unat (at + buffer_take (stop - at)) = unat at + unat (buffer_take (stop - at))"
    by (simp add: unat_word_ariths)
  show "unat stop - unat (at + buffer_take (stop - at)) < unat stop - unat at"
    unfolding sum using a diff by linarith
qed

function write_span ::
  "'m IfsDefragHostV2 \<Rightarrow> (string \<Rightarrow> u32 \<Rightarrow> u8 list \<Rightarrow> 'm \<Rightarrow> int \<times> 'm) \<Rightarrow> nat \<Rightarrow> u64 \<Rightarrow> u64 \<Rightarrow> 'm \<Rightarrow> int \<times> 'm" where
  "write_span H write n at stop m =
     (if at \<ge> stop then (0, m)
      else let amount = buffer_take (stop - at)
        in case hv_stop_requested H m of
             (True, m) \<Rightarrow> (- 1, m)
           | (False, m) \<Rightarrow>
               (case write (ldtm_raw_name n) (ucast at) (ldtm_raw_payload (unat amount) n at) m of
                  (result, m) \<Rightarrow>
                    if result \<noteq> 0 then (result, m) else write_span H write n (at + amount) stop m))"
  by pat_completeness auto
termination
  by (relation "measure (\<lambda>(H, write, n, at, stop, m). unat stop - unat at)") (auto simp: span_progress(2))

declare write_span.simps [simp del]

definition span_of :: "u32 \<Rightarrow> u64 \<Rightarrow> nat \<Rightarrow> u64 \<times> u64" where
  "span_of unit bytes phase =
     (let units = raw_units bytes unit;
          split = (if units > 1 then units div 2 else units) * ucast unit;
          split = (if split > bytes then bytes else split)
      in if phase = 0 then (0, split) else (split, bytes))"

fun write_phases ::
  "'m IfsDefragHostV2 \<Rightarrow> (string \<Rightarrow> u32 \<Rightarrow> u8 list \<Rightarrow> 'm \<Rightarrow> int \<times> 'm) \<Rightarrow> LdtmFilesystemSpec \<Rightarrow> u32 \<Rightarrow> (nat \<times> nat) list \<Rightarrow> 'm \<Rightarrow> int \<times> 'm" where
  "write_phases H write spec unit [] m = (0, m)"
| "write_phases H write spec unit ((phase, n) # slots) m =
     (let bytes = ldtm_raw_file_bytes (Some spec) n
      in if bytes > 0xFFFFFFFF then (- 1, m)
         else case span_of unit bytes phase of
                (at, stop) \<Rightarrow>
                  (case write_span H write n at stop m of
                     (result, m) \<Rightarrow> if result \<noteq> 0 then (result, m) else write_phases H write spec unit slots m))"

definition populate_fat :: "'m IfsDefragHostV2 \<Rightarrow> 'm IfsFatfsModuleV3 \<Rightarrow> LdtmFilesystemSpec \<Rightarrow> u32 \<Rightarrow> 'm \<Rightarrow> int \<times> 'm" where
  "populate_fat H v3 spec unit m =
     (case create_names (the (v3_create v3)) [0..<LDTM_RAW_FILES] m of
        (result, m) \<Rightarrow>
          (case (if result \<noteq> 0 then (result, m) else write_phases H (the (v3_write v3)) spec unit raw_slots m) of
             (result, m) \<Rightarrow>
               (case the (v3_unmount v3) m of
                  (unmounted, m) \<Rightarrow> (if result = 0 then unmounted else result, m))))"

definition fat_unit :: "LdtmFilesystemSpec \<Rightarrow> u32" where
  "fat_unit spec = (if sp_creator spec = LDTM_CREATOR_FAT32 then 16384 else 65536)"

text \<open>2000-01-01 in the FAT time stamp format.\<close>

definition timestamp_io :: u32 where
  "timestamp_io = push_bit 25 20 OR push_bit 21 1 OR push_bit 16 1"

definition create_fixture :: "'m IfsDefragHostV2 \<Rightarrow> LdtmFilesystemSpec \<Rightarrow> path \<Rightarrow> 'm fat_symbol \<Rightarrow> 'm \<Rightarrow> int \<times> 'm" where
  "create_fixture H spec path symbol m =
     (case fat_interface symbol spec of
        None \<Rightarrow> (- 1, m)
      | Some api \<Rightarrow>
          (case hv_open_target H path True m of
             (None, m) \<Rightarrow> (- 1, m)
           | (Some bytes, m) \<Rightarrow>
               let io = \<lparr>io_partition_bytes = bytes, io_sector_bytes = 512, io_timestamp = timestamp_io\<rparr>;
                   stopped = (if bytes \<noteq> slot_capacity spec then (True, m) else hv_stop_requested H m)
               in case stopped of
                    (True, m) \<Rightarrow> (- 1, hv_close_target H m)
                  | (False, m) \<Rightarrow>
                      (case clear_signatures H bytes clear_offsets m of
                         (False, m) \<Rightarrow> (- 1, hv_close_target H m)
                       | (True, m) \<Rightarrow>
                           (case the (v4_format api) io (fat_unit spec) m of
                              (e, m) \<Rightarrow>
                                if e \<noteq> 0 then (- 1, hv_close_target H m)
                                else case the (v3_mount (the (v4_v3 api))) io m of
                                       (e, m) \<Rightarrow>
                                         if e \<noteq> 0 then (- 1, hv_close_target H m)
                                         else case populate_fat H (the (v4_v3 api)) spec (fat_unit spec) m of
                                                (result, m) \<Rightarrow> (result, hv_close_target H m)))))"

subsection \<open>Verification\<close>

definition is_directory :: "IfsFatfsEntry \<Rightarrow> bool" where
  "is_directory entry \<longleftrightarrow> fe_attributes entry AND 0x10 \<noteq> 0"

text \<open>The first sixteen directory entries; \<open>None\<close> is \<open>goto done\<close>. The last look-up is separate.\<close>

fun scan_directory ::
  "(string \<Rightarrow> u32 \<Rightarrow> 'm \<Rightarrow> (int \<times> IfsFatfsEntry) \<times> 'm) \<Rightarrow> LdtmFilesystemSpec \<Rightarrow> nat list \<Rightarrow> bool list \<Rightarrow> 'm \<Rightarrow> bool list option \<times> 'm" where
  "scan_directory directory_entry spec [] seen m =
     (case directory_entry ''/'' (of_nat LDTM_RAW_FILES) m of
        ((status, _), m) \<Rightarrow> (if status \<noteq> 1 then None else Some seen, m))"
| "scan_directory directory_entry spec (index # rest) seen m =
     (case directory_entry ''/'' (of_nat index) m of
        ((status, entry), m) \<Rightarrow>
          if status \<noteq> 0 then (None, m)
          else case ldtm_raw_name_index (fe_name entry) of
                 None \<Rightarrow> (None, m)
               | Some n \<Rightarrow>
                   if seen ! n \<or> is_directory entry \<or> ucast (fe_bytes entry) \<noteq> ldtm_raw_file_bytes (Some spec) n
                   then (None, m)
                   else scan_directory directory_entry spec rest (seen[n := True]) m)"

function compare_file ::
  "'m IfsDefragHostV2 \<Rightarrow> (string \<Rightarrow> u32 \<Rightarrow> u32 \<Rightarrow> 'm \<Rightarrow> (int \<times> u8 list) \<times> 'm) \<Rightarrow> nat \<Rightarrow> u64 \<Rightarrow> u64 \<Rightarrow> 'm \<Rightarrow> bool \<times> 'm" where
  "compare_file H read n offset len m =
     (if offset \<ge> len then (True, m)
      else let amount = buffer_take (len - offset)
        in case hv_stop_requested H m of
             (True, m) \<Rightarrow> (False, m)
           | (False, m) \<Rightarrow>
               (case read (ldtm_raw_name n) (ucast offset) (ucast amount) m of
                  ((status, actual), m) \<Rightarrow>
                    if status \<noteq> 0 \<or> actual \<noteq> ldtm_raw_payload (unat amount) n offset then (False, m)
                    else compare_file H read n (offset + amount) len m))"
  by pat_completeness auto
termination
  by (relation "measure (\<lambda>(H, read, n, offset, len, m). unat len - unat offset)") (auto simp: span_progress(2))

declare compare_file.simps [simp del]

fun compare_files ::
  "'m IfsDefragHostV2 \<Rightarrow> (string \<Rightarrow> 'm \<Rightarrow> (int \<times> IfsFatfsEntry) \<times> 'm) \<Rightarrow>
   (string \<Rightarrow> u32 \<Rightarrow> u32 \<Rightarrow> 'm \<Rightarrow> (int \<times> u8 list) \<times> 'm) \<Rightarrow> LdtmFilesystemSpec \<Rightarrow> bool list \<Rightarrow> nat list \<Rightarrow> 'm \<Rightarrow> bool \<times> 'm" where
  "compare_files H stat read spec seen [] m = (True, m)"
| "compare_files H stat read spec seen (n # ns) m =
     (if \<not> seen ! n then (False, m)
      else let len = ldtm_raw_file_bytes (Some spec) n
        in if len > 0xFFFFFFFF then (False, m)
           else case stat (ldtm_raw_name n) m of
                  ((status, entry), m) \<Rightarrow>
                    if status \<noteq> 0 \<or> ucast (fe_bytes entry) \<noteq> len \<or> is_directory entry then (False, m)
                    else case compare_file H read n 0 len m of
                           (False, m) \<Rightarrow> (False, m)
                         | (True, m) \<Rightarrow> compare_files H stat read spec seen ns m)"

definition verify_mounted ::
  "'m IfsDefragHostV2 \<Rightarrow> 'm IfsFatfsModuleV3 \<Rightarrow> LdtmFilesystemSpec \<Rightarrow> 'm \<Rightarrow> bool \<times> 'm" where
  "verify_mounted H v3 spec m =
     (case scan_directory (the (v3_directory_entry v3)) spec [0..<LDTM_RAW_FILES] (replicate LDTM_RAW_FILES False) m of
        (None, m) \<Rightarrow> (False, m)
      | (Some seen, m) \<Rightarrow>
          compare_files H (the (v3_stat v3)) (the (v3_read v3)) spec seen [0..<LDTM_RAW_FILES] m)"

definition v3_readable :: "'m IfsFatfsModuleV3 \<Rightarrow> bool" where
  "v3_readable v3 \<longleftrightarrow> has_caps (v3_capabilities v3) (IFS_FATFS_CAP_READ OR IFS_FATFS_CAP_DIRECTORY) \<and>
     v3_read v3 \<noteq> None \<and> v3_stat v3 \<noteq> None \<and> v3_directory_entry v3 \<noteq> None"

text \<open>A zero clock suppresses access-date updates.\<close>

definition timestamp_verify_io :: u32 where "timestamp_verify_io = 0"

definition verify_fixture :: "'m IfsDefragHostV2 \<Rightarrow> LdtmFilesystemSpec \<Rightarrow> path \<Rightarrow> 'm fat_symbol \<Rightarrow> 'm \<Rightarrow> int \<times> 'm" where
  "verify_fixture H spec path symbol m =
     (case fat_interface symbol spec of
        None \<Rightarrow> (- 1, m)
      | Some api \<Rightarrow>
          (case v4_v3 api of
             None \<Rightarrow> (- 1, m)
           | Some v3 \<Rightarrow>
               if \<not> v3_readable v3 then (- 1, m)
               else case hv_open_target H path False m of
                      (None, m) \<Rightarrow> (- 1, m)
                    | (Some bytes, m) \<Rightarrow>
                        if bytes \<noteq> slot_capacity spec then (- 1, hv_close_target H m)
                        else case the (v3_mount v3) \<lparr>io_partition_bytes = bytes, io_sector_bytes = 512,
                                    io_timestamp = timestamp_verify_io\<rparr> m of
                               (e, m) \<Rightarrow>
                                 if e \<noteq> 0 then (- 1, hv_close_target H m)
                                 else case verify_mounted H v3 spec m of
                                        (matched, m) \<Rightarrow>
                                          (case the (v3_unmount v3) m of
                                             (e, m) \<Rightarrow> (if matched \<and> e = 0 then 0 else - 1, hv_close_target H m))))"

subsection \<open>Dispatch\<close>

definition fat_module_name :: "LdtmCreator \<Rightarrow> string option" where
  "fat_module_name creator =
     (case creator of
        LDTM_CREATOR_FAT12 \<Rightarrow> Some ''FAT12.so''
      | LDTM_CREATOR_FAT16 \<Rightarrow> Some ''FAT16.so''
      | LDTM_CREATOR_FAT32 \<Rightarrow> Some ''FAT32.so''
      | _ \<Rightarrow> None)"

definition fat_call_module ::
  "'m fat_symbol module_store \<Rightarrow> LdtmFilesystemSpec \<Rightarrow> ('m fat_symbol \<Rightarrow> 'm \<Rightarrow> int \<times> 'm) \<Rightarrow> 'm \<Rightarrow> int \<times> 'm" where
  "fat_call_module S spec call m =
     (if sp_creator spec = LDTM_CREATOR_EXFAT
      then (case ifs_filesystem_module_call S (Some ''exfat'') (Some ''exFAT.so'') (Some ''infiltrator_filesystem_module_v5'') True of
              Called symbol \<Rightarrow> call symbol m
            | _ \<Rightarrow> (1, m))
      else case fat_module_name (sp_creator spec) of
             None \<Rightarrow> (- 1, m)
           | Some file \<Rightarrow>
               (case ifs_filesystem_module_call S (Some (sp_key spec)) (Some file) (Some ''infiltrator_filesystem_module_v4'') True of
                  Called symbol \<Rightarrow> call symbol m
                | _ \<Rightarrow> (1, m)))"

definition ldtm_fat_module_available :: "'m fat_symbol module_store \<Rightarrow> LdtmFilesystemSpec option \<Rightarrow> 'm \<Rightarrow> bool" where
  "ldtm_fat_module_available S spec m =
     (case spec of
        None \<Rightarrow> False
      | Some spec \<Rightarrow> fst (fat_call_module S spec (\<lambda>symbol m. (fat_available spec symbol, m)) m) = 0)"

definition ldtm_fat_module_create ::
  "'m IfsDefragHostV2 \<Rightarrow> 'm fat_symbol module_store \<Rightarrow> LdtmFilesystemSpec option \<Rightarrow> path option \<Rightarrow> 'm \<Rightarrow> int \<times> 'm" where
  "ldtm_fat_module_create H S spec path m =
     (case (spec, path) of
        (Some spec, Some path) \<Rightarrow> fat_call_module S spec (create_fixture H spec path) m
      | _ \<Rightarrow> (- 1, m))"

definition ldtm_raw_fat ::
  "'m IfsDefragHostV2 \<Rightarrow> 'm fat_symbol module_store \<Rightarrow> LdtmFilesystemSpec option \<Rightarrow> path option \<Rightarrow> bool \<Rightarrow> 'm \<Rightarrow> int \<times> 'm" where
  "ldtm_raw_fat H S spec path create m =
     (case (spec, path) of
        (Some s, Some p) \<Rightarrow>
          if create then ldtm_fat_module_create H S spec path m
          else fat_call_module S s (verify_fixture H s p) m
      | _ \<Rightarrow> (- 1, m))"

definition ldtm_raw_exfat ::
  "'m IfsDefragHostV2 \<Rightarrow> 'm fat_symbol module_store \<Rightarrow> LdtmFilesystemSpec option \<Rightarrow> path option \<Rightarrow> bool \<Rightarrow> 'm \<Rightarrow> int \<times> 'm" where
  "ldtm_raw_exfat H S spec path create m =
     (case spec of
        None \<Rightarrow> (- 1, m)
      | Some s \<Rightarrow> if sp_creator s = LDTM_CREATOR_EXFAT then ldtm_raw_fat H S spec path create m else (- 1, m))"

subsection \<open>Names\<close>

lemma unat_ucast32: "unat (x :: u64) < 2 ^ 32 \<Longrightarrow> unat (ucast x :: u32) = unat x"
  by (simp add: unsigned_ucast_eq take_bit_nat_eq_self)

lemma raw_name_inject: "m < LDTM_RAW_FILES \<Longrightarrow> n < LDTM_RAW_FILES \<Longrightarrow> ldtm_raw_name m = ldtm_raw_name n \<longleftrightarrow> m = n"
proof -
  assume "m < LDTM_RAW_FILES" "n < LDTM_RAW_FILES"
  then have small: "m \<in> set [0..<16]" "n \<in> set [0..<16]"
    by (simp_all add: LDTM_RAW_FILES_def)
  have "distinct (map ldtm_raw_name [0..<16])"
    by code_simp
  with small show ?thesis
    by (auto simp: distinct_map inj_on_def)
qed

lemma raw_name_index_Some: "ldtm_raw_name_index name = Some n \<longleftrightarrow> n < LDTM_RAW_FILES \<and> name = ldtm_raw_name n"
proof -
  have found: "k < LDTM_RAW_FILES \<and> name = ldtm_raw_name k" if "ldtm_raw_name_index name = Some k" for k
    using that by (auto simp: ldtm_raw_name_index_def find_Some_iff)
  have "ldtm_raw_name_index name = Some n" if n: "n < LDTM_RAW_FILES" "name = ldtm_raw_name n"
  proof -
    have "ldtm_raw_name_index name \<noteq> None"
      using n by (auto simp: ldtm_raw_name_index_def find_None_iff)
    then obtain k where k: "ldtm_raw_name_index name = Some k" by blast
    have "k = n"
      using found [OF k] n raw_name_inject [of k n] by simp
    with k show ?thesis by simp
  qed
  with found show ?thesis by blast
qed

subsection \<open>An accepted volume holds the corpus\<close>

definition delivered :: "(string \<Rightarrow> u32 \<Rightarrow> u32 \<Rightarrow> 'm \<Rightarrow> (int \<times> u8 list) \<times> 'm) \<Rightarrow> nat \<Rightarrow> u64 \<Rightarrow> bool" where
  "delivered read n i \<longleftrightarrow>
     (\<exists>offset amount m data m'. read (ldtm_raw_name n) offset amount m = ((0, data), m') \<and>
        unat offset \<le> unat i \<and> unat i - unat offset < length data \<and> length data = unat amount \<and>
        data ! (unat i - unat offset) = payload_byte n i)"

definition listed ::
  "(string \<Rightarrow> u32 \<Rightarrow> 'm \<Rightarrow> (int \<times> IfsFatfsEntry) \<times> 'm) \<Rightarrow> LdtmFilesystemSpec \<Rightarrow> nat \<Rightarrow> nat \<Rightarrow> bool" where
  "listed directory_entry spec index n \<longleftrightarrow>
     (\<exists>m entry m'. directory_entry ''/'' (of_nat index) m = ((0, entry), m') \<and> fe_name entry = ldtm_raw_name n \<and>
        \<not> is_directory entry \<and> ucast (fe_bytes entry) = ldtm_raw_file_bytes (Some spec) n)"

lemma deliveredI:
  "read (ldtm_raw_name n) offset amount m = ((0, data), m') \<Longrightarrow> unat offset \<le> unat i \<Longrightarrow> unat i - unat offset < length data \<Longrightarrow>
   length data = unat amount \<Longrightarrow> data ! (unat i - unat offset) = payload_byte n i \<Longrightarrow> delivered read n i"
  unfolding delivered_def by blast

lemma compare_file_sound:
  assumes "compare_file H read n offset len m = (True, m')" "unat len < 2 ^ 32" "offset \<le> i" "i < len"
  shows "delivered read n i"
  using assms
proof (induction H read n offset len m rule: compare_file.induct)
  case (1 H read n offset len m)
  define a where "a = buffer_take (len - offset)"
  have open_end: "\<not> len \<le> offset"
    using "1.prems"(3,4) by auto
  obtain m1 where stop: "hv_stop_requested H m = (False, m1)"
    using "1.prems"(1) open_end
    by (subst (asm) compare_file.simps) (auto simp: Let_def split: prod.splits bool.splits)
  obtain m2 where read: "read (ldtm_raw_name n) (ucast offset) (ucast a) m1 = ((0, ldtm_raw_payload (unat a) n offset), m2)"
    and rest: "compare_file H read n (offset + a) len m2 = (True, m')"
    using "1.prems"(1) open_end stop
    by (subst (asm) (1) compare_file.simps) (auto simp: Let_def a_def split: prod.splits if_splits)
  have step: "unat (offset + a) = unat offset + unat a"
    unfolding a_def by (rule span_progress(1) [OF open_end])
  have a: "unat a \<le> unat len - unat offset"
    using buffer_take_bounds(1) [of "len - offset"] open_end by (simp add: a_def unat_sub word_le_nat_alt)
  show ?case
  proof (cases "i < offset + a")
    case True
    define k where "k = unat i - unat offset"
    have k: "k < unat a" "i = offset + of_nat k"
      using True "1.prems"(3) step unat_lt64 [of i]
      by (auto simp: k_def word_less_nat_alt word_le_nat_alt of_nat_diff)
    have "unat (ucast offset :: u32) = unat offset" "unat (ucast a :: u32) = unat a"
      using a "1.prems"(2) open_end by (simp_all add: unat_ucast32 word_le_nat_alt)
    then show ?thesis
      using k(1) "1.prems"(3)
      by (intro deliveredI [of read, OF read]) (simp_all add: raw_payload_bytes word_le_nat_alt flip: k_def k(2))
  next
    case False
    then show ?thesis
      using "1.IH" [OF open_end a_def stop [symmetric] _ read [symmetric]] rest "1.prems" by auto
  qed
qed

lemma compare_files_sound:
  assumes "compare_files H stat read spec seen ns m = (True, m')" "n \<in> set ns"
  shows "seen ! n \<and> (\<forall>i < ldtm_raw_file_bytes (Some spec) n. delivered read n i)"
  using assms
proof (induction ns arbitrary: m)
  case (Cons k ns)
  obtain m1 m2 where k: "seen ! k" "compare_file H read k 0 (ldtm_raw_file_bytes (Some spec) k) m1 = (True, m2)"
    and rest: "compare_files H stat read spec seen ns m2 = (True, m')"
    using Cons.prems(1) by (auto simp: Let_def split: if_splits prod.splits bool.splits)
  have "unat (ldtm_raw_file_bytes (Some spec) k) < 2 ^ 32"
    using file_bytes_bound [of "Some spec" k] by simp
  then show ?case
    using Cons.IH [OF rest] Cons.prems(2) k compare_file_sound [OF k(2)] by auto
qed simp

lemma scan_directory_sound:
  assumes "scan_directory directory_entry spec indices seen m = (Some seen', m')" "length seen = LDTM_RAW_FILES"
  shows "(\<forall>n < LDTM_RAW_FILES. seen' ! n \<longrightarrow> seen ! n \<or> (\<exists>index \<in> set indices. listed directory_entry spec index n)) \<and>
    (\<exists>m1 entry m2. directory_entry ''/'' (of_nat LDTM_RAW_FILES) m1 = ((1, entry), m2))"
  using assms
proof (induction indices arbitrary: seen m)
  case Nil
  then show ?case by (auto split: prod.splits if_splits)
next
  case (Cons index indices)
  obtain entry m1 n where here: "directory_entry ''/'' (of_nat index) m = ((0, entry), m1)"
    "ldtm_raw_name_index (fe_name entry) = Some n" "\<not> seen ! n" "\<not> is_directory entry"
    "ucast (fe_bytes entry) = ldtm_raw_file_bytes (Some spec) n"
    and rest: "scan_directory directory_entry spec indices (seen[n := True]) m1 = (Some seen', m')"
    using Cons.prems(1) by (auto split: prod.splits if_splits option.splits)
  have "listed directory_entry spec index n"
    using here by (auto simp: listed_def raw_name_index_Some)
  then show ?case
    using Cons.IH [OF rest] Cons.prems(2) by (metis length_list_update list.set_intros nth_list_update_neq)
qed

text \<open>
  A FAT or exFAT volume passes verification only if it holds exactly the corpus. When
  \<open>verify_fixture\<close> returns 0, whatever module it talked to: the target was opened read-only and had
  the slot's capacity; the root directory listed all sixteen corpus files, as plain files of their
  exact sizes, within its first sixteen entries, and reported its end right after them; and for
  every byte of every file the module's read delivered the oracle's byte.
\<close>
theorem fat_verify_complete:
  assumes "verify_fixture H spec path symbol m = (0, m')"
  shows "\<exists>api v3 read directory_entry opened. fat_interface symbol spec = Some api \<and> v4_v3 api = Some v3 \<and>
    v3_read v3 = Some read \<and> v3_directory_entry v3 = Some directory_entry \<and>
    hv_open_target H path False m = (Some (slot_capacity spec), opened) \<and>
    (\<exists>m1 entry m2. directory_entry ''/'' 16 m1 = ((1, entry), m2)) \<and>
    (\<forall>n < LDTM_RAW_FILES. (\<exists>index < 16. listed directory_entry spec index n) \<and>
       (\<forall>i < ldtm_raw_file_bytes (Some spec) n. delivered read n i))"
proof -
  obtain api v3 opened m1 m2 where
    api: "fat_interface symbol spec = Some api" "v4_v3 api = Some v3" "v3_readable v3"
      "hv_open_target H path False m = (Some (slot_capacity spec), opened)"
    and run: "verify_mounted H v3 spec m1 = (True, m2)"
    using assms
    by (auto simp: verify_fixture_def split: option.splits if_splits prod.splits)
  obtain read directory_entry where fns: "v3_read v3 = Some read" "v3_directory_entry v3 = Some directory_entry"
    using api(3) by (auto simp: v3_readable_def)
  obtain seen m3 where
    scan: "scan_directory directory_entry spec [0..<LDTM_RAW_FILES] (replicate LDTM_RAW_FILES False) m1 = (Some seen, m3)"
    and files: "compare_files H (the (v3_stat v3)) read spec seen [0..<LDTM_RAW_FILES] m3 = (True, m2)"
    using run fns by (auto simp: verify_mounted_def split: prod.splits option.splits)
  have "(\<exists>index < 16. listed directory_entry spec index n) \<and> (\<forall>i < ldtm_raw_file_bytes (Some spec) n. delivered read n i)"
    if "n < LDTM_RAW_FILES" for n
    using scan_directory_sound [OF scan] compare_files_sound [OF files, of n] that
    by (auto simp: LDTM_RAW_FILES_def) (meson atLeastLessThan_iff)
  then show ?thesis
    using api fns scan_directory_sound [OF scan] by (auto simp: LDTM_RAW_FILES_def)
qed

subsection \<open>A created volume holds the corpus\<close>

text \<open>
  What creation relies on: \<open>files\<close> gives the contents the module keeps; creating a file makes it
  empty, writing at a file's end appends, neither touches other files, and asking for a stop
  request changes no file.
\<close>

definition appending_store ::
  "'m IfsDefragHostV2 \<Rightarrow> 'm IfsFatfsModuleV3 \<Rightarrow> ('m \<Rightarrow> string \<Rightarrow> u8 list option) \<Rightarrow> bool" where
  "appending_store H v3 files \<longleftrightarrow>
     (\<forall>name m m'. the (v3_create v3) name m = (0, m') \<longrightarrow> files m' = (files m)(name := Some [])) \<and>
     (\<forall>name offset data m m' c. the (v3_write v3) name offset data m = (0, m') \<longrightarrow> files m name = Some c \<longrightarrow>
        unat offset = length c \<longrightarrow> files m' = (files m)(name := Some (c @ data))) \<and>
     (\<forall>m stopped m'. hv_stop_requested H m = (stopped, m') \<longrightarrow> files m' = files m)"

definition corpus_prefix :: "nat \<Rightarrow> nat \<Rightarrow> u8 list" where
  "corpus_prefix n k = map (\<lambda>i. payload_byte n (of_nat i)) [0..<k]"

lemma length_corpus_prefix: "length (corpus_prefix n k) = k"
  by (simp add: corpus_prefix_def)

lemma corpus_prefix_append:
  "corpus_prefix n (unat at) @ ldtm_raw_payload k n at = corpus_prefix n (unat at + k)"
  by (rule nth_equalityI) (auto simp: corpus_prefix_def raw_payload_bytes nth_append of_nat_diff)

lemma store_create:
  "appending_store H v3 files \<Longrightarrow> the (v3_create v3) name m = (0, m') \<Longrightarrow> files m' = (files m)(name := Some [])"
  by (auto simp: appending_store_def)

lemma store_write:
  "appending_store H v3 files \<Longrightarrow> the (v3_write v3) name offset data m = (0, m') \<Longrightarrow> files m name = Some c \<Longrightarrow>
   unat offset = length c \<Longrightarrow> files m' = (files m)(name := Some (c @ data))"
  unfolding appending_store_def by blast

lemma store_stop: "appending_store H v3 files \<Longrightarrow> hv_stop_requested H m = (stopped, m') \<Longrightarrow> files m' = files m"
  unfolding appending_store_def by blast

lemma write_span_appends:
  assumes "appending_store H v3 files"
    and "write_span H (the (v3_write v3)) n at stop m = (0, m')"
    and "files m (ldtm_raw_name n) = Some (corpus_prefix n (unat at))" "at \<le> stop" "unat stop < 2 ^ 32"
  shows "files m' = (files m)(ldtm_raw_name n := Some (corpus_prefix n (unat stop)))"
  using assms
proof (induction H "the (v3_write v3)" n at stop m rule: write_span.induct)
  case (1 H n at stop m)
  show ?case
  proof (cases "stop \<le> at")
    case True
    then show ?thesis
      using "1.prems" by (subst (asm) write_span.simps) (auto simp: fun_eq_iff)
  next
    case False
    define a where "a = buffer_take (stop - at)"
    obtain m1 m2 where stop: "hv_stop_requested H m = (False, m1)"
      and wrote: "the (v3_write v3) (ldtm_raw_name n) (ucast at) (ldtm_raw_payload (unat a) n at) m1 = (0, m2)"
      and rest: "write_span H (the (v3_write v3)) n (at + a) stop m2 = (0, m')"
      using "1.prems"(2) False
      by (subst (asm) write_span.simps) (auto simp: Let_def a_def split: prod.splits bool.splits if_splits)
    have step: "unat (at + a) = unat at + unat a"
      unfolding a_def by (rule span_progress(1) [OF False])
    have a: "unat a \<le> unat stop - unat at"
      using buffer_take_bounds(1) [of "stop - at"] False by (simp add: a_def unat_sub word_le_nat_alt)
    then have forward: "at + a \<le> stop"
      using False by (simp add: word_le_nat_alt step)
    have "files m1 = files m"
      by (rule store_stop [OF "1.prems"(1) stop])
    moreover have "unat (ucast at :: u32) = unat at"
      using False "1.prems"(5) by (simp add: unat_ucast32 word_le_nat_alt)
    ultimately have appended: "files m2 = (files m)(ldtm_raw_name n := Some (corpus_prefix n (unat (at + a))))"
      using store_write [OF "1.prems"(1) wrote, of "corpus_prefix n (unat at)"] "1.prems"(3)
      by (simp add: step corpus_prefix_append length_corpus_prefix)
    then show ?thesis
      using "1.hyps" [OF False a_def stop [symmetric] _ wrote [symmetric]] rest "1.prems"(1,5) forward by auto
  qed
qed

lemma span_bounds:
  "fst (span_of unit bytes 0) = 0" "snd (span_of unit bytes 0) = fst (span_of unit bytes 1)"
  "snd (span_of unit bytes 1) = bytes" "fst (span_of unit bytes phase) \<le> snd (span_of unit bytes phase)"
  "snd (span_of unit bytes phase) \<le> bytes"
  by (auto simp: span_of_def Let_def)

lemma write_phases_append:
  "write_phases H write spec unit (xs @ ys) m =
     (case write_phases H write spec unit xs m of
        (result, m) \<Rightarrow> if result \<noteq> 0 then (result, m) else write_phases H write spec unit ys m)"
  by (induction xs arbitrary: m) (auto simp: Let_def split: prod.splits)

definition reached :: "('m \<Rightarrow> string \<Rightarrow> u8 list option) \<Rightarrow> 'm \<Rightarrow> nat \<Rightarrow> u64 \<Rightarrow> bool" where
  "reached files m n k \<longleftrightarrow> files m (ldtm_raw_name n) = Some (corpus_prefix n (unat k))"

lemma write_pass:
  assumes "appending_store H v3 files"
    and "write_phases H (the (v3_write v3)) spec unit (map (Pair phase) ns) m = (0, m')"
    and "distinct ns" "set ns \<subseteq> {0..<LDTM_RAW_FILES}"
    and "\<forall>n \<in> set ns. reached files m n (fst (span_of unit (ldtm_raw_file_bytes (Some spec) n) phase))"
  shows "(\<forall>n \<in> set ns. reached files m' n (snd (span_of unit (ldtm_raw_file_bytes (Some spec) n) phase))) \<and>
    (\<forall>n < LDTM_RAW_FILES. n \<notin> set ns \<longrightarrow> files m' (ldtm_raw_name n) = files m (ldtm_raw_name n))"
  using assms
proof (induction ns arbitrary: m)
  case (Cons n ns)
  define span where "span = (\<lambda>n. span_of unit (ldtm_raw_file_bytes (Some spec) n) phase)"
  obtain m1 where here: "write_span H (the (v3_write v3)) n (fst (span n)) (snd (span n)) m = (0, m1)"
    and rest: "write_phases H (the (v3_write v3)) spec unit (map (Pair phase) ns) m1 = (0, m')"
    using Cons.prems(2) by (auto simp: Let_def span_def split: prod.splits if_splits)
  have "unat (snd (span n)) \<le> unat (ldtm_raw_file_bytes (Some spec) n)"
    using span_bounds(5) by (simp add: span_def word_le_nat_alt)
  then have "unat (snd (span n)) < 2 ^ 32"
    using file_bytes_bound [of "Some spec" n] by simp
  then have files: "files m1 = (files m)(ldtm_raw_name n := Some (corpus_prefix n (unat (snd (span n)))))"
    using write_span_appends [OF Cons.prems(1) here] Cons.prems(5) span_bounds(4)
    by (simp add: reached_def span_def)
  have names: "ldtm_raw_name k \<noteq> ldtm_raw_name n" if "k < LDTM_RAW_FILES" "k \<noteq> n" for k
    using that Cons.prems(4) raw_name_inject by auto
  have "\<forall>k \<in> set ns. ldtm_raw_name k \<noteq> ldtm_raw_name n"
    using Cons.prems(3,4) names by fastforce
  then have "\<forall>k \<in> set ns. reached files m1 k (fst (span k))"
    using Cons.prems(5) by (auto simp: reached_def files span_def)
  then have IH: "(\<forall>k \<in> set ns. reached files m' k (snd (span k))) \<and>
    (\<forall>k < LDTM_RAW_FILES. k \<notin> set ns \<longrightarrow> files m' (ldtm_raw_name k) = files m1 (ldtm_raw_name k))"
    using Cons.IH [OF Cons.prems(1) rest] Cons.prems(3,4) by (simp add: span_def)
  have "reached files m' n (snd (span n))"
    using IH Cons.prems(3,4) by (auto simp: reached_def files)
  then show ?case
    using IH names by (auto simp: files span_def)
qed simp

lemma create_names_empty:
  assumes "appending_store H v3 files" "create_names (the (v3_create v3)) ns m = (0, m')"
    and "distinct ns" "set ns \<subseteq> {0..<LDTM_RAW_FILES}"
  shows "(\<forall>n \<in> set ns. reached files m' n 0) \<and>
    (\<forall>n < LDTM_RAW_FILES. n \<notin> set ns \<longrightarrow> files m' (ldtm_raw_name n) = files m (ldtm_raw_name n))"
  using assms
proof (induction ns arbitrary: m)
  case (Cons n ns)
  obtain m1 where here: "the (v3_create v3) (ldtm_raw_name n) m = (0, m1)"
    and rest: "create_names (the (v3_create v3)) ns m1 = (0, m')"
    using Cons.prems(2) by (auto split: prod.splits if_splits)
  have files: "files m1 = (files m)(ldtm_raw_name n := Some [])"
    by (rule store_create [OF Cons.prems(1) here])
  have names: "ldtm_raw_name k \<noteq> ldtm_raw_name n" if "k < LDTM_RAW_FILES" "k \<noteq> n" for k
    using that Cons.prems(4) raw_name_inject by auto
  show ?case
    using Cons.IH [OF Cons.prems(1) rest] Cons.prems(3,4) names
    by (auto simp: files reached_def corpus_prefix_def)
qed simp

lemma populate_fat_corpus:
  assumes store: "appending_store H v3 files"
    and "populate_fat H v3 spec unit m = (0, m')"
  shows "\<exists>m1. the (v3_unmount v3) m1 = (0, m') \<and>
    (\<forall>n < LDTM_RAW_FILES. reached files m1 n (ldtm_raw_file_bytes (Some spec) n))"
proof -
  obtain m1 m2 where created: "create_names (the (v3_create v3)) [0..<LDTM_RAW_FILES] m = (0, m1)"
    and wrote: "write_phases H (the (v3_write v3)) spec unit raw_slots m1 = (0, m2)"
    and unmounted: "the (v3_unmount v3) m2 = (0, m')"
    using assms(2) by (auto simp: populate_fat_def split: prod.splits if_splits)
  obtain m3 where first: "write_phases H (the (v3_write v3)) spec unit (map (Pair 0) [0..<LDTM_RAW_FILES]) m1 = (0, m3)"
    and second: "write_phases H (the (v3_write v3)) spec unit (map (Pair 1) [0..<LDTM_RAW_FILES]) m3 = (0, m2)"
    using wrote unfolding raw_slots_phases write_phases_append by (auto split: prod.splits if_splits)
  have "\<forall>n < LDTM_RAW_FILES. reached files m1 n 0"
    using create_names_empty [OF store created] by simp
  then have "\<forall>n < LDTM_RAW_FILES. reached files m3 n (snd (span_of unit (ldtm_raw_file_bytes (Some spec) n) 0))"
    using write_pass [OF store first] by (simp add: span_bounds(1))
  then have "\<forall>n < LDTM_RAW_FILES. reached files m2 n (ldtm_raw_file_bytes (Some spec) n)"
    using write_pass [OF store second] unfolding span_bounds(2,3) by simp
  with unmounted show ?thesis by blast
qed

text \<open>
  Creating a FAT or exFAT volume is all or nothing: if \<open>create_fixture\<close> returns 0, the
  module table was valid for the slot, the opened target had exactly the slot's capacity, and,
  for a module that keeps files as its interface documents, every one of the sixteen corpus
  files had its complete contents, byte for byte the oracle's, when the volume was unmounted.
\<close>
theorem fat_create_complete:
  assumes "create_fixture H spec path symbol m = (0, m')"
    and "\<And>api v3. fat_interface symbol spec = Some api \<Longrightarrow> v4_v3 api = Some v3 \<Longrightarrow> appending_store H v3 files"
  shows "\<exists>api v3 unmount opened m1 m2. fat_interface symbol spec = Some api \<and> v4_v3 api = Some v3 \<and>
    v3_unmount v3 = Some unmount \<and> hv_open_target H path True m = (Some (slot_capacity spec), opened) \<and>
    unmount m1 = (0, m2) \<and> m' = hv_close_target H m2 \<and>
    (\<forall>n < LDTM_RAW_FILES. files m1 (ldtm_raw_name n) =
       Some (map (\<lambda>i. payload_byte n (of_nat i)) [0..<unat (ldtm_raw_file_bytes (Some spec) n)]))"
proof -
  obtain api where api: "fat_interface symbol spec = Some api"
    using assms(1) by (cases "fat_interface symbol spec") (auto simp: create_fixture_def)
  obtain v3 where v3: "v4_v3 api = Some v3" "v3_valid (sp_key spec) v3"
    using api by (auto simp: fat_interface_def Let_def split: option.splits if_splits)
  obtain opened m2 m3 where opened: "hv_open_target H path True m = (Some (slot_capacity spec), opened)"
    and run: "populate_fat H v3 spec (fat_unit spec) m2 = (0, m3)" "m' = hv_close_target H m3"
    using assms(1) api v3
    by (auto simp: create_fixture_def Let_def split: option.splits if_splits prod.splits bool.splits)
  obtain unmount where unmount: "v3_unmount v3 = Some unmount"
    using v3(2) by (auto simp: v3_valid_def)
  obtain m1 where "unmount m1 = (0, m3)" "\<forall>n < LDTM_RAW_FILES. files m1 (ldtm_raw_name n) =
       Some (map (\<lambda>i. payload_byte n (of_nat i)) [0..<unat (ldtm_raw_file_bytes (Some spec) n)])"
    using populate_fat_corpus [OF assms(2) [OF api v3(1)] run(1)] by (auto simp: unmount reached_def corpus_prefix_def)
  then show ?thesis
    using api v3(1) unmount opened run(2) by blast
qed

subsection \<open>A module in memory\<close>

text \<open>A concrete module that keeps its files in a map, for the examples.\<close>

type_synonym memory = "string \<Rightarrow> u8 list option"

definition memory_entry :: "nat \<Rightarrow> IfsFatfsEntry" where
  "memory_entry n = \<lparr>fe_name = ldtm_raw_name n, fe_bytes = ucast (ldtm_raw_file_bytes None n), fe_attributes = 0x20\<rparr>"

definition memory_v3 :: "memory IfsFatfsModuleV3" where
  "memory_v3 = \<lparr>v3_abi_version = 3, v3_structure_bytes = 112, v3_format_id = Some ''fat12'', v3_capabilities = 39,
     v3_mount = Some (\<lambda>io m. (0, m)), v3_unmount = Some (\<lambda>m. (0, m)),
     v3_create = Some (\<lambda>name m. (0, m(name := Some []))),
     v3_read = Some (\<lambda>name offset n m. ((0, take (unat n) (drop (unat offset) (the (m name)))), m)),
     v3_write = Some (\<lambda>name offset data m. case m name of
        None \<Rightarrow> (- 1, m)
      | Some c \<Rightarrow> if unat offset = length c then (0, m(name := Some (c @ data))) else (- 1, m)),
     v3_stat = Some (\<lambda>name m. ((0, memory_entry (the (ldtm_raw_name_index name))), m)),
     v3_directory_entry = Some (\<lambda>directory index m.
        if index < 16 then ((0, memory_entry (unat index)), m) else ((1, memory_entry 0), m))\<rparr>"

definition memory_symbol :: "memory fat_symbol" where
  "memory_symbol = \<lparr>sym_v4 = Some \<lparr>v4_abi_version = 4, v4_structure_bytes = 72, v4_format_id = Some ''fat12'',
     v4_capabilities = 128, v4_v3 = Some memory_v3, v4_format = Some (\<lambda>io unit m. (0, Map.empty))\<rparr>, sym_v5 = None\<rparr>"

definition memory_host :: "memory IfsDefragHostV2" where
  "memory_host = \<lparr>hv_open_target = (\<lambda>path writable m. (Some (255 * LDTM_MIB), m)), hv_close_target = (\<lambda>m. m),
     hv_write_at = (\<lambda>offset data m. (0, m)), hv_stop_requested = (\<lambda>m. (False, m))\<rparr>"

lemma memory_interface:
  "fat_interface memory_symbol demo_slot = Some (the (sym_v4 memory_symbol))" "v4_v3 (the (sym_v4 memory_symbol)) = Some memory_v3"
  by (simp_all add: fat_interface_def memory_symbol_def demo_slot_def slot_def v4_valid_def v3_valid_def memory_v3_def
      has_caps_def IFS_FATFS_CAP_FORMAT_def IFS_FATFS_CAP_CREATE_def IFS_FATFS_CAP_WRITE_EXISTING_def)

lemma memory_appending: "appending_store memory_host memory_v3 (\<lambda>m. m)"
  by (auto simp: appending_store_def memory_host_def memory_v3_def)

lemma memory_write_span:
  assumes "m (ldtm_raw_name n) = Some c" "length c = unat at" "at \<le> stop" "unat stop < 2 ^ 32"
  shows "fst (write_span memory_host (the (v3_write memory_v3)) n at stop m) = 0"
  using assms
proof (induction memory_host "the (v3_write memory_v3)" n at stop m arbitrary: c rule: write_span.induct)
  case (1 n at stop m)
  show ?case
  proof (cases "stop \<le> at")
    case False
    define a where "a = buffer_take (stop - at)"
    let ?m = "m(ldtm_raw_name n := Some (c @ ldtm_raw_payload (unat a) n at))"
    have small: "unat (ucast at :: u32) = unat at"
      using False "1.prems"(4) by (simp add: unat_ucast32 word_le_nat_alt)
    then have wrote: "the (v3_write memory_v3) (ldtm_raw_name n) (ucast at) (ldtm_raw_payload (unat a) n at) m = (0, ?m)"
      using "1.prems"(1,2) by (simp add: memory_v3_def)
    have stop: "hv_stop_requested memory_host m = (False, m)"
      by (simp add: memory_host_def)
    have step: "unat (at + a) = unat at + unat a"
      unfolding a_def by (rule span_progress(1) [OF False])
    have "unat a \<le> unat stop - unat at"
      using buffer_take_bounds(1) [of "stop - at"] False by (simp add: a_def unat_sub word_le_nat_alt)
    then have "at + a \<le> stop"
      using False by (simp add: word_le_nat_alt step)
    then have "fst (write_span memory_host (the (v3_write memory_v3)) n (at + a) stop ?m) = 0"
      using "1.hyps" [OF False a_def stop [symmetric] _ wrote [symmetric], of "c @ ldtm_raw_payload (unat a) n at"] "1.prems"(2,4)
      by (simp add: step)
    then show ?thesis
      using False stop wrote by (subst write_span.simps) (simp add: Let_def flip: a_def)
  qed (simp add: write_span.simps)
qed

lemma memory_write_phases:
  assumes "distinct ns" "set ns \<subseteq> {0..<LDTM_RAW_FILES}"
    and "\<forall>n \<in> set ns. reached (\<lambda>m. m) m n (fst (span_of unit (ldtm_raw_file_bytes (Some demo_slot) n) phase))"
  shows "fst (write_phases memory_host (the (v3_write memory_v3)) demo_slot unit (map (Pair phase) ns) m) = 0"
  using assms
proof (induction ns arbitrary: m)
  case (Cons n ns)
  define span where "span = (\<lambda>n. span_of unit (ldtm_raw_file_bytes (Some demo_slot) n) phase)"
  obtain result m1 where here: "write_span memory_host (the (v3_write memory_v3)) n (fst (span n)) (snd (span n)) m = (result, m1)"
    by force
  have "unat (snd (span n)) \<le> unat (ldtm_raw_file_bytes (Some demo_slot) n)"
    using span_bounds(5) by (simp add: span_def word_le_nat_alt)
  then have small: "unat (snd (span n)) < 2 ^ 32" "\<not> ldtm_raw_file_bytes (Some demo_slot) n > 0xFFFFFFFF"
    using file_bytes_bound [of "Some demo_slot" n] by (simp_all add: word_less_nat_alt)
  have ok: "result = 0"
    using memory_write_span [of m n _ "fst (span n)" "snd (span n)"] here Cons.prems(3) small span_bounds(4)
    by (auto simp: reached_def span_def length_corpus_prefix)
  have "m1 = m(ldtm_raw_name n := Some (corpus_prefix n (unat (snd (span n)))))"
    using write_span_appends [OF memory_appending here [unfolded ok]] Cons.prems(3) span_bounds(4) small
    by (simp add: reached_def span_def)
  moreover have "\<forall>k \<in> set ns. ldtm_raw_name k \<noteq> ldtm_raw_name n"
    using Cons.prems(1,2) raw_name_inject by fastforce
  ultimately have "\<forall>k \<in> set ns. reached (\<lambda>m. m) m1 k (fst (span k))"
    using Cons.prems(3) by (auto simp: reached_def span_def)
  then have "fst (write_phases memory_host (the (v3_write memory_v3)) demo_slot unit (map (Pair phase) ns) m1) = 0"
    using Cons.IH Cons.prems(1,2) by (simp add: span_def)
  then show ?case
    using here ok small(2) by (simp add: Let_def span_def split_def)
qed simp

lemma memory_clear: "clear_signatures memory_host bytes ats m = (True, m)"
  by (induction ats) (simp_all add: memory_host_def)

lemma memory_create_names: "fst (create_names (the (v3_create memory_v3)) ns m) = 0"
  by (induction ns arbitrary: m) (simp_all add: memory_v3_def)

lemma memory_populate: "fst (populate_fat memory_host memory_v3 demo_slot unit m) = 0"
proof -
  let ?phases = "write_phases memory_host (the (v3_write memory_v3)) demo_slot unit"
  obtain m1 where created: "create_names (the (v3_create memory_v3)) [0..<LDTM_RAW_FILES] m = (0, m1)"
    using memory_create_names [of "[0..<LDTM_RAW_FILES]" m] by (metis prod.collapse)
  have start: "\<forall>n \<in> set [0..<LDTM_RAW_FILES]. reached (\<lambda>m. m) m1 n (fst (span_of unit (ldtm_raw_file_bytes (Some demo_slot) n) 0))"
    using create_names_empty [OF memory_appending created] by (simp add: span_bounds(1))
  then obtain m2 where first: "?phases (map (Pair 0) [0..<LDTM_RAW_FILES]) m1 = (0, m2)"
    using memory_write_phases [of "[0..<LDTM_RAW_FILES]" m1 unit 0] by (metis prod.collapse distinct_upt set_upt order_refl)
  have "\<forall>n \<in> set [0..<LDTM_RAW_FILES]. reached (\<lambda>m. m) m2 n (fst (span_of unit (ldtm_raw_file_bytes (Some demo_slot) n) 1))"
    using write_pass [OF memory_appending first _ _ start] unfolding span_bounds(2) by simp
  then have "fst (?phases (map (Pair 1) [0..<LDTM_RAW_FILES]) m2) = 0"
    using memory_write_phases [of "[0..<LDTM_RAW_FILES]" m2 unit 1] by simp
  then have "fst (?phases raw_slots m1) = 0"
    unfolding raw_slots_phases write_phases_append by (simp add: first)
  moreover have "the (v3_unmount memory_v3) m = (0, m)" for m
    by (simp add: memory_v3_def)
  ultimately show ?thesis
    using created by (simp add: populate_fat_def split_def)
qed

lemma memory_create: "\<exists>m. create_fixture memory_host demo_slot ''/dev/x'' memory_symbol Map.empty = (0, m)"
proof -
  have host: "hv_open_target memory_host path writable m = (Some (slot_capacity demo_slot), m)"
    "hv_stop_requested memory_host m = (False, m)" for path writable m
    by (simp_all add: memory_host_def slot_capacity_def demo_slot_def slot_def)
  have module: "the (v4_format (the (sym_v4 memory_symbol))) io unit m = (0, Map.empty)" "the (v3_mount memory_v3) io m = (0, m)" for io unit m
    by (simp_all add: memory_symbol_def memory_v3_def)
  show ?thesis
    using memory_populate [of "fat_unit demo_slot" Map.empty]
    by (simp add: create_fixture_def memory_interface host module memory_clear Let_def split_def)
qed

theorem fat_create_complete_witness:
  "\<exists>m. create_fixture memory_host demo_slot ''/dev/x'' memory_symbol Map.empty = (0, m) \<and>
     (\<forall>n < LDTM_RAW_FILES. m (ldtm_raw_name n) =
        Some (map (\<lambda>i. payload_byte n (of_nat i)) [0..<unat (ldtm_raw_file_bytes (Some demo_slot) n)]))"
proof -
  obtain m where run: "create_fixture memory_host demo_slot ''/dev/x'' memory_symbol Map.empty = (0, m)"
    using memory_create by blast
  have lawful: "appending_store memory_host v3 (\<lambda>m. m)"
    if "fat_interface memory_symbol demo_slot = Some api" "v4_v3 api = Some v3" for api v3
    using that memory_appending by (auto simp: memory_interface)
  have "v3_unmount memory_v3 = Some (\<lambda>m. (0, m))" "hv_close_target memory_host m = m" for m
    by (simp_all add: memory_v3_def memory_host_def)
  then show ?thesis
    using fat_create_complete [where files = "\<lambda>m. m", OF run lawful, simplified] run by (auto simp: memory_interface)
qed

lemma demo_file_bytes: "ldtm_raw_file_bytes (Some demo_slot) n = ldtm_raw_file_bytes None n"
  by (simp add: ldtm_raw_file_bytes_def ldtm_fragment_profile_def demo_slot_def slot_def)

lemma memory_entry_bytes: "ucast (fe_bytes (memory_entry n)) = ldtm_raw_file_bytes None n"
proof -
  have "unat (ldtm_raw_file_bytes None n) < 2 ^ 32"
    using file_bytes_bound [of None n] by simp
  then show ?thesis
    by (intro word_unat_eq_iff [THEN iffD2]) (simp add: memory_entry_def unat_ucast_u32 unat_ucast32)
qed

lemma memory_scan:
  "k \<le> 16 \<Longrightarrow> scan_directory (the (v3_directory_entry memory_v3)) demo_slot [k..<16] (replicate k True @ replicate (16 - k) False) m =
     (Some (replicate 16 True), m)"
proof (induction k rule: inc_induct)
  case base
  then show ?case by (simp add: memory_v3_def LDTM_RAW_FILES_def)
next
  case (step k)
  have k: "k < LDTM_RAW_FILES"
    using step.hyps by (simp add: LDTM_RAW_FILES_def)
  then have "unat (of_nat k :: u32) = k"
    by (simp add: unat_of_nat LDTM_RAW_FILES_def)
  then have entry: "the (v3_directory_entry memory_v3) ''/'' (of_nat k) m = ((0, memory_entry k), m)"
    using k by (simp add: memory_v3_def word_less_nat_alt LDTM_RAW_FILES_def)
  define d where "d = 16 - Suc k"
  have "16 - k = Suc d"
    using step.hyps by (simp add: d_def)
  then have seen: "(replicate k True @ replicate (16 - k) False)[k := True] = replicate (Suc k) True @ replicate (16 - Suc k) False"
    "\<not> (replicate k True @ replicate (16 - k) False) ! k"
    by (simp_all add: list_update_append nth_append flip: d_def) (simp add: replicate_app_Cons_same)
  have name: "ldtm_raw_name_index (fe_name (memory_entry k)) = Some k"
    using k by (simp add: raw_name_index_Some memory_entry_def)
  show ?case
    using step entry seen name
    by (simp add: upt_conv_Cons memory_entry_bytes demo_file_bytes is_directory_def) (simp add: memory_entry_def)
qed

lemma memory_compare:
  assumes "m (ldtm_raw_name n) = Some (corpus_prefix n (unat len))" "unat len < 2 ^ 32"
  shows "compare_file memory_host (the (v3_read memory_v3)) n offset len m = (True, m)"
  using assms
proof (induction memory_host "the (v3_read memory_v3)" n offset len m rule: compare_file.induct)
  case (1 n offset len m)
  show ?case
  proof (cases "len \<le> offset")
    case False
    define a where "a = buffer_take (len - offset)"
    have stop: "hv_stop_requested memory_host m = (False, m)"
      by (simp add: memory_host_def)
    have a: "unat a \<le> unat len - unat offset"
      using buffer_take_bounds(1) [of "len - offset"] False by (simp add: a_def unat_sub word_le_nat_alt)
    then have "unat (ucast offset :: u32) = unat offset" "unat (ucast a :: u32) = unat a"
      using False "1.prems"(2) by (simp_all add: unat_ucast32 word_le_nat_alt)
    moreover have "take (unat a) (drop (unat offset) (corpus_prefix n (unat len))) = ldtm_raw_payload (unat a) n offset"
      using a False
      by (intro nth_equalityI) (auto simp: corpus_prefix_def raw_payload_bytes word_le_nat_alt not_le)
    ultimately have read: "the (v3_read memory_v3) (ldtm_raw_name n) (ucast offset) (ucast a) m = ((0, ldtm_raw_payload (unat a) n offset), m)"
      using "1.prems"(1) by (simp add: memory_v3_def)
    show ?thesis
      using "1.hyps" [OF False a_def stop [symmetric] _ read [symmetric]] False stop read "1.prems"
      by (subst compare_file.simps) (simp add: Let_def flip: a_def)
  qed (simp add: compare_file.simps)
qed

lemma memory_compare_files:
  assumes "\<forall>n \<in> set ns. n < LDTM_RAW_FILES \<and> m (ldtm_raw_name n) = Some (corpus_prefix n (unat (ldtm_raw_file_bytes None n)))"
  shows "compare_files memory_host (the (v3_stat memory_v3)) (the (v3_read memory_v3)) demo_slot (replicate 16 True) ns m = (True, m)"
  using assms
proof (induction ns)
  case (Cons n ns)
  have small: "unat (ldtm_raw_file_bytes None n) < 2 ^ 32" "\<not> ldtm_raw_file_bytes None n > 0xFFFFFFFF"
    using file_bytes_bound [of None n] by (simp_all add: word_less_nat_alt)
  have "ldtm_raw_name_index (ldtm_raw_name n) = Some n" "n < 16"
    using Cons.prems by (auto simp: raw_name_index_Some LDTM_RAW_FILES_def)
  moreover have "the (v3_stat memory_v3) name m = ((0, memory_entry (the (ldtm_raw_name_index name))), m)" for name
    by (simp add: memory_v3_def)
  ultimately show ?case
    using Cons small memory_compare [OF _ small(1), of m n 0]
    by (simp add: Let_def demo_file_bytes memory_entry_bytes is_directory_def) (simp add: memory_entry_def)
qed simp

definition full_memory :: memory where
  "full_memory name = map_option (\<lambda>n. corpus_prefix n (unat (ldtm_raw_file_bytes None n))) (ldtm_raw_name_index name)"

lemma memory_verify: "\<exists>m. verify_fixture memory_host demo_slot ''/dev/x'' memory_symbol full_memory = (0, m)"
proof -
  have files: "full_memory (ldtm_raw_name n) = Some (corpus_prefix n (unat (ldtm_raw_file_bytes None n)))" if "n < LDTM_RAW_FILES" for n
    using that raw_name_index_Some [of "ldtm_raw_name n" n] by (auto simp: full_memory_def)
  have "scan_directory (the (v3_directory_entry memory_v3)) demo_slot [0..<LDTM_RAW_FILES] (replicate LDTM_RAW_FILES False) full_memory =
      (Some (replicate 16 True), full_memory)"
    using memory_scan [of 0 full_memory] by (simp add: LDTM_RAW_FILES_def)
  then have "verify_mounted memory_host memory_v3 demo_slot full_memory = (True, full_memory)"
    using memory_compare_files [of "[0..<LDTM_RAW_FILES]" full_memory] files by (simp add: verify_mounted_def)
  moreover have "hv_open_target memory_host path writable m = (Some (slot_capacity demo_slot), m)" for path writable m
    by (simp add: memory_host_def slot_capacity_def demo_slot_def slot_def)
  moreover have "v3_readable memory_v3" "the (v3_mount memory_v3) io m = (0, m)" "the (v3_unmount memory_v3) m = (0, m)" for io m
    by (simp_all add: v3_readable_def memory_v3_def has_caps_def IFS_FATFS_CAP_READ_def IFS_FATFS_CAP_DIRECTORY_def)
  ultimately show ?thesis
    by (simp add: verify_fixture_def memory_interface)
qed

theorem fat_verify_complete_witness:
  "\<exists>read. v3_read memory_v3 = Some read \<and> (\<forall>i < ldtm_raw_file_bytes (Some demo_slot) 7. delivered read 7 i)"
proof -
  obtain m where "verify_fixture memory_host demo_slot ''/dev/x'' memory_symbol full_memory = (0, m)"
    using memory_verify by blast
  from fat_verify_complete [OF this] show ?thesis
    by (auto simp: memory_interface LDTM_RAW_FILES_def)
qed

end
