(* ===== verification/Ofs_Fixture.thy ===== *)
theory Ofs_Fixture
  imports Fat_Fixture
begin

text \<open>
  The OFS test media of \<open>test_media/test_media_ofs_module.c\<close>: formatting, populating and checking
  a volume through the function table of \<open>OFS.so\<close> (\<open>ofs_module_abi.h\<close>). As for FAT, the module's
  functions act on a state of type \<open>'m\<close> and the host is a record of callbacks on it; progress
  texts are left out.
\<close>

subsection \<open>Tables\<close>

text \<open>The host's table with \<open>errno\<close> after a refused open and the outcome of \<open>allocate\<close>.\<close>

record 'm ofs_host = "'m IfsDefragHostV2" +
  oh_errno :: "'m \<Rightarrow> errno"
  oh_allocate :: "nat \<Rightarrow> 'm \<Rightarrow> bool \<times> 'm"

text \<open>The flag says whether the write and flush callbacks are present.\<close>

record IfsOfsIoV3 =
  oi_flags :: u32
  oi_volume_bytes :: u64
  oi_writable :: bool

record IfsOfsMountV3 =
  ot_block_bytes :: u32
  ot_reserved_blocks :: u32
  ot_root_block :: u32

record IfsOfsFormatV3 =
  of_block_bytes :: u32
  of_reserved_blocks :: u32
  of_variant :: u32
  of_label :: string

record IfsOfsCheckV3 =
  oc_errors :: u32
  oc_bitmap_mismatches :: u64

text \<open>Of a directory entry only the size is read.\<close>

record 'm IfsOfsModuleV3 =
  om_abi_version :: u32
  om_structure_bytes :: u32
  om_format_id :: "string option"
  om_mount :: "(IfsOfsIoV3 \<Rightarrow> IfsOfsMountV3 option \<Rightarrow> 'm \<Rightarrow> int \<times> 'm) option"
  om_unmount :: "('m \<Rightarrow> int \<times> 'm) option"
  om_format :: "(IfsOfsIoV3 \<Rightarrow> IfsOfsFormatV3 \<Rightarrow> 'm \<Rightarrow> int \<times> 'm) option"
  om_stat :: "(string \<Rightarrow> 'm \<Rightarrow> (int \<times> u32) \<times> 'm) option"
  om_create :: "(string \<Rightarrow> 'm \<Rightarrow> int \<times> 'm) option"
  om_mkdir :: "(string \<Rightarrow> 'm \<Rightarrow> int \<times> 'm) option"
  om_read :: "(string \<Rightarrow> u32 \<Rightarrow> u32 \<Rightarrow> 'm \<Rightarrow> (int \<times> u8 list) \<times> 'm) option"
  om_write :: "(string \<Rightarrow> u32 \<Rightarrow> u8 list \<Rightarrow> 'm \<Rightarrow> int \<times> 'm) option"
  om_unlink :: "(string \<Rightarrow> 'm \<Rightarrow> int \<times> 'm) option"
  om_verify :: "('m \<Rightarrow> (int \<times> IfsOfsCheckV3) \<times> 'm) option"

definition IFS_OFS_READ_ONLY :: u32 where "IFS_OFS_READ_ONLY = 1"
definition IFS_OFS_EPHEMERAL_FIXTURE :: u32 where "IFS_OFS_EPHEMERAL_FIXTURE = 4"
definition IFS_OFS_NOT_FOUND :: int where "IFS_OFS_NOT_FOUND = 2"

definition ofs_header_valid :: "'m IfsOfsModuleV3 \<Rightarrow> bool" where
  "ofs_header_valid api \<longleftrightarrow> om_abi_version api = 3 \<and> om_structure_bytes api \<ge> 224 \<and> om_format_id api = Some ''ofs'' \<and>
     om_format api \<noteq> None \<and> om_mount api \<noteq> None \<and> om_unmount api \<noteq> None \<and> om_mkdir api \<noteq> None \<and>
     om_create api \<noteq> None \<and> om_unlink api \<noteq> None \<and> om_write api \<noteq> None \<and> om_verify api \<noteq> None"

definition ofs_reader_valid :: "'m IfsOfsModuleV3 \<Rightarrow> bool" where
  "ofs_reader_valid api \<longleftrightarrow> om_abi_version api = 3 \<and> om_structure_bytes api \<ge> 224 \<and> om_format_id api = Some ''ofs'' \<and>
     om_mount api \<noteq> None \<and> om_unmount api \<noteq> None \<and> om_read api \<noteq> None \<and> om_stat api \<noteq> None \<and> om_verify api \<noteq> None"

subsection \<open>The oracle\<close>

definition ofs_seed :: "u32 \<Rightarrow> u32 \<Rightarrow> u64" where
  "ofs_seed file_number block =
     0x6a09e667f3bcc909 XOR push_bit 40 (ucast file_number) XOR (ucast block * 0x9e3779b97f4a7c15)"

fun ofs_stream :: "nat \<Rightarrow> u64 \<Rightarrow> u8 list" where
  "ofs_stream 0 state = []"
| "ofs_stream (Suc k) state = (let state = payload_step state in ucast (drop_bit 56 state) # ofs_stream k state)"

definition ofs_payload :: "nat \<Rightarrow> u32 \<Rightarrow> u32 \<Rightarrow> u8 list" where
  "ofs_payload len file_number block = ofs_stream len (ofs_seed file_number block)"

subsection \<open>Population\<close>

definition ofs_base :: string where "ofs_base = ''/Defragmenter-TestData''"
definition ofs_directory :: string where "ofs_directory = ''/Defragmenter-TestData/fragmented-directory''"
definition ofs_files :: string where "ofs_files = ''/Defragmenter-TestData/fragmented-files''"

definition ofs_entry_name :: "u32 \<Rightarrow> string" where
  "ofs_entry_name i = ofs_directory @ ''/entry-'' @ zero_padded 5 (unat i) @ ''.txt''"

definition ofs_file_name :: "nat \<Rightarrow> string" where
  "ofs_file_name i = ofs_files @ ''/fragmented-'' @ zero_padded 2 i @ ''.bin''"

text \<open>Calls in order up to the first that fails; \<open>True\<close> when none did.\<close>

fun each_call :: "(string \<Rightarrow> 'm \<Rightarrow> int \<times> 'm) \<Rightarrow> string list \<Rightarrow> 'm \<Rightarrow> bool \<times> 'm" where
  "each_call call [] m = (True, m)"
| "each_call call (name # names) m =
     (case call name m of (status, m) \<Rightarrow> if status \<noteq> 0 then (False, m) else each_call call names m)"

text \<open>
  The counter of the deletions advances by two; it does not wrap for an initial count below
  \<open>UINT32_MAX\<close>.
\<close>

definition initial_names :: "LdtmFragmentProfile \<Rightarrow> string list" where
  "initial_names p = map (\<lambda>i. ofs_entry_name (of_nat i)) [0..<unat (fp_directory_initial p)]"

definition deleted_names :: "LdtmFragmentProfile \<Rightarrow> string list" where
  "deleted_names p = map (\<lambda>i. ofs_entry_name (of_nat i)) (filter even [0..<unat (fp_directory_initial p)])"

definition second_names :: "LdtmFragmentProfile \<Rightarrow> string list" where
  "second_names p = map (\<lambda>i. ofs_entry_name (fp_directory_initial p + of_nat i)) [0..<unat (fp_directory_second p)]"

definition ofs_block :: "u64 \<Rightarrow> nat \<Rightarrow> u32 \<Rightarrow> u8 list" where
  "ofs_block bytes i block =
     (let at = block * 488;
          take = (if bytes - ucast at < 488 then ucast (bytes - ucast at) else 488 :: u32)
      in ofs_payload (unat take) (of_nat i) block)"

definition ofs_chunk :: "u64 \<Rightarrow> nat \<Rightarrow> u32 \<Rightarrow> u32 \<Rightarrow> u8 list" where
  "ofs_chunk bytes i done_blocks amount = concat (map (\<lambda>j. ofs_block bytes i (done_blocks + of_nat j)) [0..<unat amount])"

text \<open>The \<open>while\<close> loop over one run of blocks; the result is the status, the blocks done and the state.\<close>

definition run_take :: "u32 \<Rightarrow> u32" where
  "run_take run = (if run > 2048 then 2048 else run)"

lemma run_take_bounds: "unat (run_take run) \<le> unat run" "run \<noteq> 0 \<Longrightarrow> 0 < unat (run_take run)"
  by (auto simp: run_take_def word_less_nat_alt unat_gt_0)

lemma run_progress: "run \<noteq> 0 \<Longrightarrow> unat (run - run_take run) < unat run"
  using run_take_bounds [of run] by (simp add: unat_sub word_le_nat_alt)

function write_run ::
  "'m ofs_host \<Rightarrow> (string \<Rightarrow> u32 \<Rightarrow> u8 list \<Rightarrow> 'm \<Rightarrow> int \<times> 'm) \<Rightarrow> u64 \<Rightarrow> nat \<Rightarrow> u32 \<Rightarrow> u32 \<Rightarrow> 'm \<Rightarrow> int \<times> u32 \<times> 'm" where
  "write_run H write bytes i done_blocks run m =
     (if run = 0 then (0, done_blocks, m)
      else let amount = run_take run
        in case write (ofs_file_name i) (done_blocks * 488) (ofs_chunk bytes i done_blocks amount) m of
             (result, m) \<Rightarrow>
               (case hv_stop_requested H m of
                  (stopped, m) \<Rightarrow>
                    let result = (if stopped then - 1 else result)
                    in if result \<noteq> 0 then (result, done_blocks + amount, m)
                       else write_run H write bytes i (done_blocks + amount) (run - amount) m))"
  by pat_completeness auto
termination
  by (relation "measure (\<lambda>(H, write, bytes, i, done_blocks, run, m). unat run)") (auto simp: run_progress)

declare write_run.simps [simp del]

definition ofs_round ::
  "'m ofs_host \<Rightarrow> (string \<Rightarrow> u32 \<Rightarrow> u8 list \<Rightarrow> 'm \<Rightarrow> int \<times> 'm) \<Rightarrow> LdtmFragmentProfile \<Rightarrow> u32 \<Rightarrow> nat \<Rightarrow> u32 \<Rightarrow> 'm \<Rightarrow> int \<times> u32 \<times> 'm" where
  "ofs_round H write p chunk i done_blocks m =
     (let bytes = ldtm_profile_file_bytes p i;
          chunks = ldtm_profile_file_chunks (Some p) i
      in if bytes > 0xFFFFFFFF \<or> chunks < 2 then (- 1, done_blocks, m)
         else if chunk \<ge> chunks then (0, done_blocks, m)
         else let blocks = ucast ((bytes + 487) div 488);
                  run = blocks div chunks + (if chunk < blocks mod chunks then 1 else 0)
           in write_run H write bytes i done_blocks run m)"

fun ofs_rounds ::
  "'m ofs_host \<Rightarrow> (string \<Rightarrow> u32 \<Rightarrow> u8 list \<Rightarrow> 'm \<Rightarrow> int \<times> 'm) \<Rightarrow> LdtmFragmentProfile \<Rightarrow> (nat \<times> nat) list \<Rightarrow> u32 list \<Rightarrow> 'm \<Rightarrow> int \<times> 'm" where
  "ofs_rounds H write p [] dones m = (0, m)"
| "ofs_rounds H write p ((chunk, i) # rounds) dones m =
     (case ofs_round H write p (of_nat chunk) i (dones ! i) m of
        (result, done_blocks, m) \<Rightarrow>
          if result \<noteq> 0 then (result, m) else ofs_rounds H write p rounds (dones[i := done_blocks]) m)"

definition ofs_schedule :: "LdtmFragmentProfile \<Rightarrow> (nat \<times> nat) list" where
  "ofs_schedule p = concat (map (\<lambda>chunk. map (Pair chunk) [0..<unat (fp_files p)]) [0..<unat (fp_chunks p)])"

definition ofs_populate :: "'m ofs_host \<Rightarrow> 'm IfsOfsModuleV3 \<Rightarrow> LdtmFragmentProfile option \<Rightarrow> 'm \<Rightarrow> int \<times> 'm" where
  "ofs_populate H api profile m =
     (case profile of
        None \<Rightarrow> (- 1, m)
      | Some p \<Rightarrow>
          if fp_files p = 0 \<or> fp_files p > 8 \<or> fp_chunks p = 0 \<or> fp_chunk_kib p = 0 then (- 1, m)
          else case each_call (the (om_mkdir api)) [ofs_base, ofs_files, ofs_directory] m of
                 (False, m) \<Rightarrow> (- 1, m)
               | (True, m) \<Rightarrow>
                   (case each_call (the (om_create api)) (initial_names p) m of
                      (False, m) \<Rightarrow> (- 1, m)
                    | (True, m) \<Rightarrow>
                        (case each_call (the (om_unlink api)) (deleted_names p) m of
                           (False, m) \<Rightarrow> (- 1, m)
                         | (True, m) \<Rightarrow>
                             (case each_call (the (om_create api)) (second_names p) m of
                                (False, m) \<Rightarrow> (- 1, m)
                              | (True, m) \<Rightarrow>
                                  (case each_call (the (om_create api)) (map ofs_file_name [0..<unat (fp_files p)]) m of
                                     (False, m) \<Rightarrow> (- 1, m)
                                   | (True, m) \<Rightarrow>
                                       (case oh_allocate H (488 * 2048) m of
                                          (False, m) \<Rightarrow> (- 1, m)
                                        | (True, m) \<Rightarrow>
                                            ofs_rounds H (the (om_write api)) p (ofs_schedule p) (replicate 8 0) m))))))"

subsection \<open>Creation\<close>

definition check_clean :: "int \<times> IfsOfsCheckV3 \<Rightarrow> int" where
  "check_clean r = (if fst r = 0 \<and> (oc_errors (snd r) \<noteq> 0 \<or> oc_bitmap_mismatches (snd r) \<noteq> 0) then - 1 else fst r)"

text \<open>A label asks for formatting, none for population; \<open>- 16\<close> is \<open>-EBUSY\<close>.\<close>

definition ofs_create_fixture ::
  "'m ofs_host \<Rightarrow> path \<Rightarrow> string option \<Rightarrow> LdtmFragmentProfile option \<Rightarrow> 'm IfsOfsModuleV3 option \<Rightarrow> 'm \<Rightarrow> int \<times> 'm" where
  "ofs_create_fixture H path label profile api m =
     (case api of
        None \<Rightarrow> (- 1, m)
      | Some api \<Rightarrow>
          if \<not> ofs_header_valid api then (- 1, m)
          else case hv_open_target H path True m of
                 (None, m) \<Rightarrow> (if oh_errno H m = EBUSY \<or> oh_errno H m = EAGAIN then - 16 else - 1, m)
               | (Some bytes, m) \<Rightarrow>
                   let io = \<lparr>oi_flags = (if label \<noteq> None then 0 else IFS_OFS_EPHEMERAL_FIXTURE), oi_volume_bytes = bytes,
                             oi_writable = True\<rparr>
                   in case (case label of
                              Some label \<Rightarrow>
                                the (om_format api) io \<lparr>of_block_bytes = 512, of_reserved_blocks = 2, of_variant = 0, of_label = label\<rparr> m
                            | None \<Rightarrow>
                                (case the (om_mount api) io None m of
                                   (r, m) \<Rightarrow>
                                     if r \<noteq> 0 then (r, m)
                                     else case ofs_populate H api profile m of
                                            (r, m) \<Rightarrow>
                                              (case (if r \<noteq> 0 then (r, m)
                                                     else case the (om_verify api) m of (checked, m) \<Rightarrow> (check_clean checked, m)) of
                                                 (r, m) \<Rightarrow>
                                                   (case the (om_unmount api) m of
                                                      (unmounted, m) \<Rightarrow> (if r = 0 then unmounted else r, m))))) of
                        (r, m) \<Rightarrow> (r, hv_close_target H m))"

subsection \<open>Inspection\<close>

text \<open>The smaller of what is left and a limit.\<close>

definition part :: "'a :: len word \<Rightarrow> 'a word \<Rightarrow> 'a word" where
  "part limit left = (if left < limit then left else limit)"

text \<open>The expected bytes of one buffer: block payloads up to \<open>n\<close>.\<close>

function ofs_expected :: "nat \<Rightarrow> u64 \<Rightarrow> u32 \<Rightarrow> u32 \<Rightarrow> u8 list" where
  "ofs_expected i pos off n =
     (if off \<ge> n then []
      else let take = part 488 (n - off)
        in ofs_payload (unat take) (of_nat i) (ucast ((pos + ucast off) div 488)) @ ofs_expected i pos (off + take) n)"
  by pat_completeness auto

lemma part_progress:
  assumes "\<not> n \<le> (off :: 'a :: len word)" "0 < unat d"
  shows "unat (off + part d (n - off)) = unat off + unat (part d (n - off))" "0 < unat (part d (n - off))"
    "unat off + unat (part d (n - off)) \<le> unat n" "unat (part d (n - off)) \<le> unat d"
proof -
  define t where "t = part d (n - off)"
  have diff: "unat (n - off) = unat n - unat off" "unat off < unat n"
    using assms(1) by (simp_all add: unat_sub word_le_nat_alt not_le)
  show t: "0 < unat t" "unat off + unat t \<le> unat n" "unat t \<le> unat d"
    using assms(2) diff by (auto simp: t_def part_def word_less_nat_alt)
  have "unat off + unat t < 2 ^ LENGTH('a)"
    by (rule le_less_trans [OF t(2) unsigned_less])
  then show "unat (off + t) = unat off + unat t"
    by (simp add: unat_word_ariths)
qed

lemma part_decreases:
  "\<not> n \<le> (off :: 'a :: len word) \<Longrightarrow> 0 < unat d \<Longrightarrow> unat n - unat (off + part d (n - off)) < unat n - unat off"
  using part_progress [of n off d] by (simp add: word_le_nat_alt)

termination ofs_expected
  by (relation "measure (\<lambda>(i, pos, off, n). unat n - unat off)") (auto intro: part_decreases)

declare ofs_expected.simps [simp del]

text \<open>The two buffers hold 32 blocks of 488 bytes.\<close>

function compare_ofs ::
  "(string \<Rightarrow> u32 \<Rightarrow> u32 \<Rightarrow> 'm \<Rightarrow> (int \<times> u8 list) \<times> 'm) \<Rightarrow> nat \<Rightarrow> u64 \<Rightarrow> u64 \<Rightarrow> 'm \<Rightarrow> int \<times> 'm" where
  "compare_ofs read i bytes pos m =
     (if pos \<ge> bytes then (0, m)
      else let n = part 15616 (bytes - pos)
        in case read (ofs_file_name i) (ucast pos) (ucast n) m of
             ((status, actual), m) \<Rightarrow>
               if status \<noteq> 0 then (- 1, m)
               else if actual \<noteq> ofs_expected i pos 0 (ucast n) then (- 1, m)
               else compare_ofs read i bytes (pos + n) m)"
  by pat_completeness auto
termination
  by (relation "measure (\<lambda>(read, i, bytes, pos, m). unat bytes - unat pos)")
     (auto intro: part_decreases)

declare compare_ofs.simps [simp del]

fun compare_ofs_files :: "'m IfsOfsModuleV3 \<Rightarrow> LdtmFragmentProfile \<Rightarrow> nat list \<Rightarrow> 'm \<Rightarrow> int \<times> 'm" where
  "compare_ofs_files api p [] m = (0, m)"
| "compare_ofs_files api p (i # is) m =
     (let bytes = ldtm_profile_file_bytes p i
      in if bytes > 0xFFFFFFFF then (- 1, m)
         else case the (om_stat api) (ofs_file_name i) m of
                ((found, file_bytes), m) \<Rightarrow>
                  if found \<noteq> 0 \<or> ucast file_bytes \<noteq> bytes then (- 1, m)
                  else case compare_ofs (the (om_read api)) i bytes 0 m of
                         (rc, m) \<Rightarrow> if rc \<noteq> 0 then (rc, m) else compare_ofs_files api p is m)"

definition entry_present :: "LdtmFragmentProfile \<Rightarrow> u32 \<Rightarrow> bool" where
  "entry_present p i \<longleftrightarrow> i \<ge> fp_directory_initial p \<or> i AND 1 \<noteq> 0"

fun check_entries :: "'m IfsOfsModuleV3 \<Rightarrow> LdtmFragmentProfile \<Rightarrow> u32 list \<Rightarrow> 'm \<Rightarrow> int \<times> 'm" where
  "check_entries api p [] m = (0, m)"
| "check_entries api p (i # is) m =
     (case the (om_stat api) (ofs_entry_name i) m of
        ((found, _), m) \<Rightarrow>
          if (entry_present p i \<and> found \<noteq> 0) \<or> (\<not> entry_present p i \<and> found \<noteq> IFS_OFS_NOT_FOUND) then (- 1, m)
          else check_entries api p is m)"

definition entry_numbers :: "LdtmFragmentProfile \<Rightarrow> u32 list" where
  "entry_numbers p = map of_nat [0..<unat (fp_directory_initial p + fp_directory_second p)]"

definition ofs_contents :: "'m IfsOfsModuleV3 \<Rightarrow> LdtmFragmentProfile option \<Rightarrow> 'm \<Rightarrow> int \<times> 'm" where
  "ofs_contents api profile m =
     (case profile of
        None \<Rightarrow> (- 1, m)
      | Some p \<Rightarrow>
          if fp_files p = 0 \<or> unat (fp_files p) > LDTM_TARGET_FILE_COUNT then (- 1, m)
          else case compare_ofs_files api p [0..<unat (fp_files p)] m of
                 (rc, m) \<Rightarrow> if rc \<noteq> 0 then (rc, m) else check_entries api p (entry_numbers p) m)"

definition inspect_ofs ::
  "'m ofs_host \<Rightarrow> path option \<Rightarrow> bool \<Rightarrow> LdtmFragmentProfile option \<Rightarrow> 'm IfsOfsModuleV3 option \<Rightarrow> 'm \<Rightarrow> int \<times> 'm" where
  "inspect_ofs H path validate_only profile api m =
     (case (path, api) of
        (Some path, Some api) \<Rightarrow>
          if \<not> ofs_reader_valid api then (- 1, m)
          else (case hv_open_target H path False m of
                  (None, m) \<Rightarrow> (- 1, m)
                | (Some bytes, m) \<Rightarrow>
                    let io = \<lparr>oi_flags = IFS_OFS_READ_ONLY, oi_volume_bytes = bytes, oi_writable = False\<rparr>;
                        options = \<lparr>ot_block_bytes = 0, ot_reserved_blocks = 0, ot_root_block = 0\<rparr>
                    in case the (om_mount api) io (Some options) m of
                         (rc, m) \<Rightarrow>
                           if rc \<noteq> 0 then (rc, hv_close_target H m)
                           else case the (om_verify api) m of
                                  (checked, m) \<Rightarrow>
                                    (case (if check_clean checked \<noteq> 0 \<or> validate_only then (check_clean checked, m)
                                           else ofs_contents api profile m) of
                                       (rc, m) \<Rightarrow>
                                         (case the (om_unmount api) m of
                                            (urc, m) \<Rightarrow> (if rc = 0 then urc else rc, hv_close_target H m))))
      | _ \<Rightarrow> (- 1, m))"

subsection \<open>The oracle byte by byte\<close>

text \<open>The reference: one byte of a file, computed from its own block alone.\<close>

definition ofs_byte :: "nat \<Rightarrow> nat \<Rightarrow> u8" where
  "ofs_byte i k =
     ucast (drop_bit 56 ((payload_step ^^ Suc (k mod 488)) (ofs_seed (of_nat i) (of_nat (k div 488)))))"

lemma ofs_stream_bytes: "ofs_stream n s = map (\<lambda>j. ucast (drop_bit 56 ((payload_step ^^ Suc j) s))) [0..<n]"
proof (induction n arbitrary: s)
  case (Suc n)
  have "[0..<Suc n] = 0 # map Suc [0..<n]"
    by (simp add: map_Suc_upt upt_conv_Cons del: upt_Suc)
  then show ?case
    by (simp add: Suc Let_def funpow_swap1 o_def del: upt_Suc)
qed simp

lemma ofs_payload_bytes:
  assumes "len \<le> 488"
  shows "ofs_payload len (of_nat i) (of_nat b) = map (ofs_byte i) [b * 488..<b * 488 + len]"
proof (rule nth_equalityI)
  fix j assume j: "j < length (ofs_payload len (of_nat i) (of_nat b))"
  then have "j < 488"
    using assms by (simp add: ofs_payload_def ofs_stream_bytes)
  then have "(b * 488 + j) div 488 = b" "(b * 488 + j) mod 488 = j"
    by simp_all
  then show "ofs_payload len (of_nat i) (of_nat b) ! j = map (ofs_byte i) [b * 488..<b * 488 + len] ! j"
    using j by (simp add: ofs_payload_def ofs_stream_bytes ofs_byte_def)
qed (simp add: ofs_payload_def ofs_stream_bytes)

lemma unat_lt32: "unat (x :: u32) < 2 ^ 32"
  using unsigned_less [of x] by simp

lemma unat_of_nat32: "n < 2 ^ 32 \<Longrightarrow> unat (of_nat n :: u32) = n"
  by (simp add: unat_of_nat)

lemma ofs_block_bytes:
  assumes "b * 488 < unat bytes" "unat bytes < 2 ^ 32"
  shows "ofs_block bytes i (of_nat b) = map (ofs_byte i) [b * 488..<min (b * 488 + 488) (unat bytes)]"
proof -
  have at: "unat (ucast (of_nat b * 488 :: u32) :: u64) = b * 488"
    using assms by (simp add: unat_ucast_u32 unat_word_ariths unat_of_nat)
  then have rest: "unat (bytes - ucast (of_nat b * 488 :: u32)) = unat bytes - b * 488"
    using assms(1) by (simp add: unat_sub word_le_nat_alt)
  define t :: u32 where "t = (if bytes - ucast (of_nat b * 488 :: u32) < 488 then ucast (bytes - ucast (of_nat b * 488 :: u32)) else 488)"
  have t: "unat t = min 488 (unat bytes - b * 488)"
    using rest assms(2) by (simp add: t_def word_less_nat_alt unat_ucast32 min_def)
  then have "b * 488 + unat t = min (b * 488 + 488) (unat bytes)"
    using assms(1) by linarith
  then show ?thesis
    using ofs_payload_bytes [of "unat t" i b] t by (simp add: ofs_block_def Let_def flip: t_def)
qed

text \<open>The first \<open>d\<close> blocks of a file of \<open>size\<close> bytes.\<close>

definition ofs_prefix :: "nat \<Rightarrow> u64 \<Rightarrow> nat \<Rightarrow> u8 list" where
  "ofs_prefix i bytes d = map (ofs_byte i) [0..<min (d * 488) (unat bytes)]"

definition ofs_blocks :: "u64 \<Rightarrow> nat" where
  "ofs_blocks bytes = (unat bytes + 487) div 488"

lemma block_inside: "b < ofs_blocks bytes \<longleftrightarrow> b * 488 < unat bytes"
  unfolding ofs_blocks_def by (simp add: less_eq_div_iff_mult_less_eq Suc_le_eq [symmetric])

lemma ofs_blocks_cover: "unat bytes \<le> ofs_blocks bytes * 488"
  using block_inside [of "ofs_blocks bytes" bytes] by simp

lemma ofs_prefix_all: "ofs_blocks bytes \<le> d \<Longrightarrow> ofs_prefix i bytes d = map (ofs_byte i) [0..<unat bytes]"
proof -
  assume "ofs_blocks bytes \<le> d"
  then have "ofs_blocks bytes * 488 \<le> d * 488" by simp
  then have "min (d * 488) (unat bytes) = unat bytes"
    using ofs_blocks_cover [of bytes] by linarith
  then show ?thesis
    by (simp add: ofs_prefix_def)
qed

lemma length_ofs_prefix: "d < ofs_blocks bytes \<Longrightarrow> length (ofs_prefix i bytes d) = d * 488"
  by (simp add: ofs_prefix_def block_inside min_def)

lemma ofs_prefix_Suc:
  assumes "d < ofs_blocks bytes" "unat bytes < 2 ^ 32"
  shows "ofs_prefix i bytes d @ ofs_block bytes i (of_nat d) = ofs_prefix i bytes (Suc d)"
proof -
  have d: "d * 488 < unat bytes"
    using assms(1) by (simp add: block_inside)
  then have "min (d * 488) (unat bytes) = d * 488" "d * 488 \<le> min (Suc d * 488) (unat bytes)"
    by simp_all
  then show ?thesis
    using ofs_block_bytes [OF d assms(2), of i] upt_add_eq_append [of 0 "d * 488" "min (Suc d * 488) (unat bytes) - d * 488"]
    by (simp add: ofs_prefix_def add.commute flip: map_append)
qed

lemma ofs_chunk_bytes:
  assumes "d + n \<le> ofs_blocks bytes" "unat bytes < 2 ^ 32"
  shows "ofs_prefix i bytes d @ concat (map (\<lambda>j. ofs_block bytes i (of_nat d + of_nat j)) [0..<n]) = ofs_prefix i bytes (d + n)"
  using assms
proof (induction n)
  case (Suc n)
  then show ?case
    using ofs_prefix_Suc [of "d + n" bytes i] by (simp flip: append_assoc)
qed simp

subsection \<open>A populated volume holds the corpus\<close>

text \<open>
  What population relies on: \<open>files\<close> gives the contents the module keeps; creating a file makes it
  empty, writing at a file's end appends, unlinking removes, and everything else leaves the files
  alone.
\<close>

definition ofs_store :: "'m ofs_host \<Rightarrow> 'm IfsOfsModuleV3 \<Rightarrow> ('m \<Rightarrow> string \<Rightarrow> u8 list option) \<Rightarrow> bool" where
  "ofs_store H api files \<longleftrightarrow>
     (\<forall>name m m'. the (om_create api) name m = (0, m') \<longrightarrow> files m' = (files m)(name := Some [])) \<and>
     (\<forall>name m m'. the (om_unlink api) name m = (0, m') \<longrightarrow> files m' = (files m)(name := None)) \<and>
     (\<forall>name m m'. the (om_mkdir api) name m = (0, m') \<longrightarrow> files m' = files m) \<and>
     (\<forall>name offset data m m' c. the (om_write api) name offset data m = (0, m') \<longrightarrow> files m name = Some c \<longrightarrow>
        unat offset = length c \<longrightarrow> files m' = (files m)(name := Some (c @ data))) \<and>
     (\<forall>m. files (snd (hv_stop_requested H m)) = files m) \<and> (\<forall>n m. files (snd (oh_allocate H n m)) = files m) \<and>
     (\<forall>m. files (snd (the (om_verify api) m)) = files m) \<and> (\<forall>m. files (snd (the (om_unmount api) m)) = files m) \<and>
     (\<forall>m. files (hv_close_target H m) = files m)"

lemma ofs_store_create: "ofs_store H api files \<Longrightarrow> the (om_create api) name m = (0, m') \<Longrightarrow> files m' = (files m)(name := Some [])"
  by (simp add: ofs_store_def)

lemma ofs_store_unlink: "ofs_store H api files \<Longrightarrow> the (om_unlink api) name m = (0, m') \<Longrightarrow> files m' = (files m)(name := None)"
  by (simp add: ofs_store_def)

lemma ofs_store_write:
  "ofs_store H api files \<Longrightarrow> the (om_write api) name offset data m = (0, m') \<Longrightarrow> files m name = Some c \<Longrightarrow>
   unat offset = length c \<Longrightarrow> files m' = (files m)(name := Some (c @ data))"
  unfolding ofs_store_def by blast

lemma ofs_store_keeps:
  assumes "ofs_store H api files"
  shows "the (om_mkdir api) name m = (0, m') \<Longrightarrow> files m' = files m" "hv_stop_requested H m = (b, m') \<Longrightarrow> files m' = files m"
    "oh_allocate H n m = (b, m') \<Longrightarrow> files m' = files m" "the (om_verify api) m = (c, m') \<Longrightarrow> files m' = files m"
    "the (om_unmount api) m = (r, m') \<Longrightarrow> files m' = files m" "files (hv_close_target H m) = files m"
  using assms unfolding ofs_store_def by (metis snd_conv)+

lemma write_run_fills:
  assumes "ofs_store H api files"
    and "write_run H (the (om_write api)) bytes i (of_nat d) run m = (0, done_blocks, m')"
    and "files m (ofs_file_name i) = Some (ofs_prefix i bytes d)" "d + unat run \<le> ofs_blocks bytes" "unat bytes < 2 ^ 32"
  shows "done_blocks = of_nat (d + unat run) \<and>
    files m' = (files m)(ofs_file_name i := Some (ofs_prefix i bytes (d + unat run)))"
  using assms
proof (induction H "the (om_write api)" bytes i "of_nat d :: u32" run m arbitrary: d rule: write_run.induct)
  case (1 H bytes i run m)
  show ?case
  proof (cases "run = 0")
    case True
    then show ?thesis
      using "1.prems" by (subst (asm) write_run.simps) (auto simp: fun_eq_iff)
  next
    case False
    define a where "a = run_take run"
    have a: "unat a \<le> unat run" "0 < unat a" "unat (run - a) = unat run - unat a"
      using run_take_bounds [of run] False by (simp_all add: a_def unat_sub word_le_nat_alt)
    have inside: "d < ofs_blocks bytes" "d * 488 < unat bytes"
      using a "1.prems"(4) block_inside [of d bytes] by simp_all
    obtain m1 m2 where wrote: "the (om_write api) (ofs_file_name i) (of_nat d * 488) (ofs_chunk bytes i (of_nat d) a) m = (0, m1)"
      and stop: "hv_stop_requested H m1 = (False, m2)"
      and rest: "write_run H (the (om_write api)) bytes i (of_nat (d + unat a)) (run - a) m2 = (0, done_blocks, m')"
      using "1.prems"(2) False
      by (subst (asm) write_run.simps) (auto simp: Let_def a_def split: prod.splits if_splits)
    have "d + unat a \<le> ofs_blocks bytes"
      using a "1.prems"(4) by simp
    then have grown: "ofs_prefix i bytes d @ ofs_chunk bytes i (of_nat d) a = ofs_prefix i bytes (d + unat a)"
      using ofs_chunk_bytes "1.prems"(5) by (simp add: ofs_chunk_def)
    have "unat (of_nat d * 488 :: u32) = length (ofs_prefix i bytes d)"
      using inside "1.prems"(5) by (simp add: length_ofs_prefix unat_word_ariths unat_of_nat)
    then have "files m2 = (files m)(ofs_file_name i := Some (ofs_prefix i bytes (d + unat a)))"
      using ofs_store_write [OF "1.prems"(1) wrote "1.prems"(3)] ofs_store_keeps(2) [OF "1.prems"(1) stop] grown by simp
    then show ?thesis
      using "1.hyps" [OF False a_def wrote [symmetric] stop [symmetric] refl, of "d + unat a"] rest "1.prems"(1,4,5) a by auto
  qed
qed

text \<open>The blocks of a file of \<open>blocks\<close> blocks that its first \<open>c\<close> of \<open>chunks\<close> runs hold.\<close>

definition blocks_after :: "nat \<Rightarrow> nat \<Rightarrow> nat \<Rightarrow> nat" where
  "blocks_after blocks chunks c = min c chunks * (blocks div chunks) + min (min c chunks) (blocks mod chunks)"

lemma blocks_after_0 [simp]: "blocks_after blocks chunks 0 = 0"
  by (simp add: blocks_after_def)

lemma blocks_after_Suc:
  "blocks_after blocks chunks (Suc c) =
     blocks_after blocks chunks c + (if c < chunks then blocks div chunks + (if c < blocks mod chunks then 1 else 0) else 0)"
  by (auto simp: blocks_after_def min_def)

lemma blocks_after_all: "0 < chunks \<Longrightarrow> chunks \<le> c \<Longrightarrow> blocks_after blocks chunks c = blocks"
  using mod_less_divisor [of chunks blocks] by (simp add: blocks_after_def min_absorb2 less_imp_le)

lemma blocks_after_le: "0 < chunks \<Longrightarrow> blocks_after blocks chunks c \<le> blocks"
proof -
  assume "0 < chunks"
  have "blocks_after blocks chunks c \<le> chunks * (blocks div chunks) + blocks mod chunks"
    unfolding blocks_after_def by (intro add_mono mult_right_mono) simp_all
  then show ?thesis by simp
qed

definition file_progress :: "LdtmFragmentProfile \<Rightarrow> nat \<Rightarrow> nat \<Rightarrow> nat" where
  "file_progress p i c = blocks_after (ofs_blocks (ldtm_profile_file_bytes p i)) (unat (ldtm_profile_file_chunks (Some p) i)) c"

definition file_at :: "('m \<Rightarrow> string \<Rightarrow> u8 list option) \<Rightarrow> 'm \<Rightarrow> LdtmFragmentProfile \<Rightarrow> nat \<Rightarrow> nat \<Rightarrow> bool" where
  "file_at files m p i c \<longleftrightarrow>
     files m (ofs_file_name i) = Some (ofs_prefix i (ldtm_profile_file_bytes p i) (file_progress p i c))"

lemma ofs_round_fills:
  assumes "ofs_store H api files" "c < 2 ^ 32"
    and "ofs_round H (the (om_write api)) p (of_nat c) i (of_nat (file_progress p i c)) m = (0, done_blocks, m')"
    and "file_at files m p i c"
  shows "done_blocks = of_nat (file_progress p i (Suc c)) \<and> file_at files m' p i (Suc c) \<and>
    (\<forall>name. name \<noteq> ofs_file_name i \<longrightarrow> files m' name = files m name) \<and>
    unat (ldtm_profile_file_bytes p i) < 2 ^ 32 \<and> 2 \<le> unat (ldtm_profile_file_chunks (Some p) i)"
proof -
  define bytes chunks where "bytes = ldtm_profile_file_bytes p i" and "chunks = ldtm_profile_file_chunks (Some p) i"
  have guard: "\<not> bytes > 0xFFFFFFFF" "\<not> chunks < 2"
    using assms(3) by (auto simp: ofs_round_def bytes_def chunks_def Let_def split: if_splits)
  then have size: "unat bytes < 2 ^ 32" and two: "2 \<le> unat chunks"
    by (simp_all add: word_less_nat_alt)
  have progress: "file_progress p i k = blocks_after (ofs_blocks bytes) (unat chunks) k" for k
    by (simp add: file_progress_def bytes_def chunks_def)
  show ?thesis
  proof (cases "c < unat chunks")
    case False
    then show ?thesis
      using assms guard size two
      by (auto simp: ofs_round_def Let_def file_at_def progress blocks_after_Suc word_le_nat_alt unat_of_nat32
          simp flip: bytes_def chunks_def)
  next
    case True
    define blocks :: u32 where "blocks = ucast ((bytes + 487) div 488)"
    define run where "run = blocks div chunks + (if of_nat c < blocks mod chunks then 1 else 0)"
    have blocks: "unat blocks = ofs_blocks bytes" "ofs_blocks bytes < 2 ^ 31"
      using size by (simp_all add: blocks_def ofs_blocks_def unat_ucast32 unat_div unat_word_ariths)
    have "ofs_blocks bytes div unat chunks \<le> ofs_blocks bytes" "ofs_blocks bytes mod unat chunks \<le> ofs_blocks bytes"
      by simp_all
    then have "ofs_blocks bytes div unat chunks < 2 ^ 31" "ofs_blocks bytes mod unat chunks < 2 ^ 31"
      using blocks(2) by (metis le_less_trans)+
    then have run: "unat run = ofs_blocks bytes div unat chunks + (if c < ofs_blocks bytes mod unat chunks then 1 else 0)"
      using blocks assms(2) by (simp add: run_def unat_word_ariths unat_div unat_mod word_less_nat_alt unat_of_nat)
    have next': "file_progress p i (Suc c) = file_progress p i c + unat run"
      using True by (simp add: progress blocks_after_Suc run)
    have "write_run H (the (om_write api)) bytes i (of_nat (file_progress p i c)) run m = (0, done_blocks, m')"
      using assms(2,3) guard True
      by (simp add: ofs_round_def Let_def word_le_nat_alt unat_of_nat32 run_def blocks_def flip: bytes_def chunks_def)
    moreover have "file_progress p i (Suc c) \<le> ofs_blocks bytes"
      using blocks_after_le [of "unat chunks"] two by (simp add: progress)
    ultimately show ?thesis
      using write_run_fills [OF assms(1)] assms(4) size two next'
      by (auto simp: file_at_def simp flip: bytes_def chunks_def)
  qed
qed

text \<open>The runs of file \<open>i\<close> in a schedule are those from \<open>started i\<close> up to \<open>stop\<close>.\<close>

definition runs_of :: "nat \<Rightarrow> (nat \<times> nat) list \<Rightarrow> nat list" where
  "runs_of i rounds = map fst (filter (\<lambda>r. snd r = i) rounds)"

lemma file_name_inject: "i < 8 \<Longrightarrow> j < 8 \<Longrightarrow> ofs_file_name i = ofs_file_name j \<longleftrightarrow> i = j"
proof -
  have "distinct (map ofs_file_name [0..<8])"
    by code_simp
  then show "i < 8 \<Longrightarrow> j < 8 \<Longrightarrow> ofs_file_name i = ofs_file_name j \<longleftrightarrow> i = j"
    by (auto simp: distinct_map inj_on_def)
qed

lemma ofs_rounds_fill:
  assumes "ofs_store H api files" "stop \<le> 2 ^ 32" "n \<le> 8" "length dones = 8"
    and "ofs_rounds H (the (om_write api)) p rounds dones m = (0, m')"
    and "\<forall>r \<in> set rounds. snd r < n"
    and "\<forall>i < n. runs_of i rounds = [started i..<stop] \<and> started i \<le> stop \<and> dones ! i = of_nat (file_progress p i (started i)) \<and>
      file_at files m p i (started i)"
  shows "(\<forall>i < n. file_at files m' p i stop) \<and> (\<forall>name. (\<forall>i < n. name \<noteq> ofs_file_name i) \<longrightarrow> files m' name = files m name) \<and>
    (\<forall>r \<in> set rounds. unat (ldtm_profile_file_bytes p (snd r)) < 2 ^ 32 \<and> 2 \<le> unat (ldtm_profile_file_chunks (Some p) (snd r)))"
  using assms
proof (induction rounds arbitrary: started dones m)
  case Nil
  have "started i = stop" if "i < n" for i
  proof -
    have "runs_of i [] = [started i..<stop]" "started i \<le> stop"
      using Nil.prems(7) that by blast+
    moreover from this have "length (runs_of i []) = stop - started i"
      by (simp only: length_upt)
    ultimately show ?thesis by (simp add: runs_of_def)
  qed
  then show ?case using Nil.prems by auto
next
  case (Cons r rounds)
  obtain c i where r: "r = (c, i)" by force
  have i: "i < n" using Cons.prems(6) r by simp
  have upt: "[started i..<stop] = c # runs_of i rounds"
    using Cons.prems(7) i r by (auto simp: runs_of_def)
  then have c: "c = started i" "c < stop" "runs_of i rounds = [Suc c..<stop]"
    by (auto simp: upt_eq_Cons_conv)
  obtain done_blocks m1 where here: "ofs_round H (the (om_write api)) p (of_nat c) i (dones ! i) m = (0, done_blocks, m1)"
    and rest: "ofs_rounds H (the (om_write api)) p rounds (dones[i := done_blocks]) m1 = (0, m')"
    using Cons.prems(5) r by (auto split: prod.splits if_splits)
  have step: "done_blocks = of_nat (file_progress p i (Suc c))" "file_at files m1 p i (Suc c)"
    "\<forall>name. name \<noteq> ofs_file_name i \<longrightarrow> files m1 name = files m name"
    "unat (ldtm_profile_file_bytes p i) < 2 ^ 32 \<and> 2 \<le> unat (ldtm_profile_file_chunks (Some p) i)"
    using ofs_round_fills [OF Cons.prems(1), of c p i m] here Cons.prems(2,7) i c by auto
  have inv: "\<forall>j < n. runs_of j rounds = [(started(i := Suc c)) j..<stop] \<and> (started(i := Suc c)) j \<le> stop \<and>
      dones[i := done_blocks] ! j = of_nat (file_progress p j ((started(i := Suc c)) j)) \<and> file_at files m1 p j ((started(i := Suc c)) j)"
  proof (intro allI impI)
    fix j assume j: "j < n"
    show "runs_of j rounds = [(started(i := Suc c)) j..<stop] \<and> (started(i := Suc c)) j \<le> stop \<and>
        dones[i := done_blocks] ! j = of_nat (file_progress p j ((started(i := Suc c)) j)) \<and> file_at files m1 p j ((started(i := Suc c)) j)"
    proof (cases "j = i")
      case True
      then show ?thesis using c step Cons.prems(3,4) i by simp
    next
      case False
      then have "ofs_file_name j \<noteq> ofs_file_name i"
        using file_name_inject [of j i] i j Cons.prems(3) by simp
      then show ?thesis
        using False Cons.prems(7) j r step(3) by (auto simp: runs_of_def file_at_def)
    qed
  qed
  have "(\<forall>j < n. file_at files m' p j stop) \<and> (\<forall>name. (\<forall>j < n. name \<noteq> ofs_file_name j) \<longrightarrow> files m' name = files m1 name) \<and>
      (\<forall>r \<in> set rounds. unat (ldtm_profile_file_bytes p (snd r)) < 2 ^ 32 \<and> 2 \<le> unat (ldtm_profile_file_chunks (Some p) (snd r)))"
    by (rule Cons.IH [OF Cons.prems(1,2,3) _ rest _ inv]) (use Cons.prems(4,6) in simp_all)
  then show ?case
    using step(3,4) i r by simp
qed

lemma schedule_runs:
  assumes "i < unat (fp_files p)"
  shows "runs_of i (ofs_schedule p) = [0..<unat (fp_chunks p)]"
proof -
  have row: "map fst (filter (\<lambda>r. snd r = i) (map (Pair c) [0..<unat (fp_files p)])) = [c]" for c :: nat
  proof -
    have "i < n \<Longrightarrow> filter (\<lambda>j. j = i) [0..<n] = [i]" for n
      by (induction n) (auto simp: less_Suc_eq filter_empty_conv)
    with assms show ?thesis by (simp add: filter_map o_def)
  qed
  have "runs_of i (concat (map (\<lambda>c. map (Pair c) [0..<unat (fp_files p)]) cs)) = cs" for cs
    by (induction cs) (simp_all add: runs_of_def row)
  then show ?thesis by (simp add: ofs_schedule_def)
qed

lemma schedule_files: "r \<in> set (ofs_schedule p) \<Longrightarrow> snd r < unat (fp_files p)"
  by (auto simp: ofs_schedule_def)

lemma schedule_first: "i < unat (fp_files p) \<Longrightarrow> fp_chunks p \<noteq> 0 \<Longrightarrow> (0, i) \<in> set (ofs_schedule p)"
  by (auto simp: ofs_schedule_def unat_gt_0 intro!: bexI [of _ 0])

lemma nat_of_zero_padded: "nat_of_digits (zero_padded w n) = n"
proof -
  have "foldl (\<lambda>a c. 10 * a + ((of_char c :: nat) - 48)) 0 (replicate k CHR ''0'') = 0" for k
    by (induction k) simp_all
  then have "nat_of_digits (replicate k CHR ''0'' @ s) = nat_of_digits s" for k s
    by (simp add: nat_of_digits_def)
  then show ?thesis by (simp add: zero_padded_def)
qed

lemma entry_name_inject: "ofs_entry_name i = ofs_entry_name j \<longleftrightarrow> i = j"
proof
  assume "ofs_entry_name i = ofs_entry_name j"
  then have "zero_padded 5 (unat i) = zero_padded 5 (unat j)"
    by (simp add: ofs_entry_name_def)
  then have "unat i = unat j"
    by (metis nat_of_zero_padded)
  then show "i = j" by (simp add: word_unat_eq_iff)
qed simp

lemma entry_not_file: "ofs_entry_name i \<noteq> ofs_file_name j"
  by (simp add: ofs_entry_name_def ofs_file_name_def ofs_directory_def ofs_files_def)

lemma each_create:
  assumes "ofs_store H api files" "each_call (the (om_create api)) names m = (True, m')"
  shows "files m' = (\<lambda>name. if name \<in> set names then Some [] else files m name)"
  using assms(2)
proof (induction names arbitrary: m)
  case (Cons n names)
  obtain m1 where "the (om_create api) n m = (0, m1)" "each_call (the (om_create api)) names m1 = (True, m')"
    using Cons.prems by (auto split: prod.splits if_splits)
  then show ?case
    using Cons.IH ofs_store_create [OF assms(1)] by (auto simp: fun_eq_iff)
qed auto

lemma each_unlink:
  assumes "ofs_store H api files" "each_call (the (om_unlink api)) names m = (True, m')"
  shows "files m' = (\<lambda>name. if name \<in> set names then None else files m name)"
  using assms(2)
proof (induction names arbitrary: m)
  case (Cons n names)
  obtain m1 where "the (om_unlink api) n m = (0, m1)" "each_call (the (om_unlink api)) names m1 = (True, m')"
    using Cons.prems by (auto split: prod.splits if_splits)
  then show ?case
    using Cons.IH ofs_store_unlink [OF assms(1)] by (auto simp: fun_eq_iff)
qed auto

lemma entry_lists:
  assumes "unat e < unat (fp_directory_initial p) + unat (fp_directory_second p)"
    and "unat (fp_directory_initial p) + unat (fp_directory_second p) < 2 ^ 32"
  shows "ofs_entry_name e \<in> set (initial_names p) \<longleftrightarrow> e < fp_directory_initial p"
    "ofs_entry_name e \<in> set (deleted_names p) \<longleftrightarrow> e < fp_directory_initial p \<and> even (unat e)"
    "ofs_entry_name e \<in> set (second_names p) \<longleftrightarrow> e \<ge> fp_directory_initial p"
proof -
  have nums: "e = of_nat i \<longleftrightarrow> unat e = i" if "i < 2 ^ 32" for i
    using that unat_of_nat32 [OF that] by auto
  have small: "i < unat (fp_directory_initial p) \<Longrightarrow> i < 2 ^ 32" for i
    using unat_lt32 [of "fp_directory_initial p"] by linarith
  have "ofs_entry_name e \<in> set (initial_names p) \<longleftrightarrow> (\<exists>i < unat (fp_directory_initial p). e = of_nat i)"
    "ofs_entry_name e \<in> set (deleted_names p) \<longleftrightarrow> (\<exists>i < unat (fp_directory_initial p). e = of_nat i \<and> even i)"
    by (auto simp: initial_names_def deleted_names_def entry_name_inject image_iff)
  then show "ofs_entry_name e \<in> set (initial_names p) \<longleftrightarrow> e < fp_directory_initial p"
    "ofs_entry_name e \<in> set (deleted_names p) \<longleftrightarrow> e < fp_directory_initial p \<and> even (unat e)"
    by (auto simp: nums [OF small] word_less_nat_alt cong: conj_cong)
  have late: "e = of_nat (unat (fp_directory_initial p) + i) \<longleftrightarrow> unat e = unat (fp_directory_initial p) + i"
    if "i < unat (fp_directory_second p)" for i
    by (rule nums) (use that assms(2) in linarith)
  have "ofs_entry_name e \<in> set (second_names p) \<longleftrightarrow>
      (\<exists>i < unat (fp_directory_second p). e = of_nat (unat (fp_directory_initial p) + i))"
    by (auto simp: second_names_def entry_name_inject image_iff)
  also have "\<dots> \<longleftrightarrow> (\<exists>i < unat (fp_directory_second p). unat e = unat (fp_directory_initial p) + i)"
    by (simp only: late cong: conj_cong)
  also have "\<dots> \<longleftrightarrow> e \<ge> fp_directory_initial p"
    using assms(1) by (auto simp: word_le_nat_alt intro!: exI [of _ "unat e - unat (fp_directory_initial p)"])
  finally show "ofs_entry_name e \<in> set (second_names p) \<longleftrightarrow> e \<ge> fp_directory_initial p" .
qed

text \<open>The files and directory entries of the corpus.\<close>

definition ofs_corpus :: "LdtmFragmentProfile \<Rightarrow> (string \<Rightarrow> u8 list option) \<Rightarrow> bool" where
  "ofs_corpus p content \<longleftrightarrow>
     (\<forall>i < unat (fp_files p). content (ofs_file_name i) = Some (map (ofs_byte i) [0..<unat (ldtm_profile_file_bytes p i)])) \<and>
     (\<forall>e < fp_directory_initial p + fp_directory_second p. content (ofs_entry_name e) \<noteq> None \<longleftrightarrow>
        e \<ge> fp_directory_initial p \<or> odd (unat e))"

lemma populate_fills:
  assumes "ofs_store H api files" "ofs_populate H api (Some p) m = (0, m')"
    and complete: "\<forall>i < unat (fp_files p). ldtm_profile_file_chunks (Some p) i \<le> fp_chunks p"
    and exact: "unat (fp_directory_initial p) + unat (fp_directory_second p) < 2 ^ 32"
  shows "ofs_corpus p (files m') \<and> 0 < unat (fp_files p) \<and> unat (fp_files p) \<le> 8 \<and>
    (\<forall>i < unat (fp_files p). unat (ldtm_profile_file_bytes p i) < 2 ^ 32)"
proof -
  let ?files = "map ofs_file_name [0..<unat (fp_files p)]"
  obtain m2 m3 m4 m5 m6 where guard: "fp_chunks p \<noteq> 0" "\<not> fp_files p > 8" "fp_files p \<noteq> 0"
    and first: "each_call (the (om_create api)) (initial_names p) m2 = (True, m3)"
    and gone: "each_call (the (om_unlink api)) (deleted_names p) m3 = (True, m4)"
    and second: "each_call (the (om_create api)) (second_names p) m4 = (True, m5)"
    and made: "each_call (the (om_create api)) ?files m5 = (True, m6)"
    and rest: "(case oh_allocate H (488 * 2048) m6 of (False, m) \<Rightarrow> (- 1, m)
      | (True, m) \<Rightarrow> ofs_rounds H (the (om_write api)) p (ofs_schedule p) (replicate 8 0) m) = (0, m')"
    using assms(2) unfolding ofs_populate_def option.case
    by (auto simp del: each_call.simps split: prod.splits bool.splits if_splits)
  obtain m7 where room: "oh_allocate H (488 * 2048) m6 = (True, m7)"
    and run: "ofs_rounds H (the (om_write api)) p (ofs_schedule p) (replicate 8 0) m7 = (0, m')"
    using rest by (auto split: prod.splits bool.splits)
  have same: "files m7 = files m6"
    by (rule ofs_store_keeps(3) [OF assms(1) room])
  have n: "unat (fp_files p) \<le> 8" "0 < unat (fp_files p)"
    using guard(2,3) by (simp_all add: word_less_nat_alt unat_gt_0)
  have start: "\<forall>i < unat (fp_files p). runs_of i (ofs_schedule p) = [0..<unat (fp_chunks p)] \<and> 0 \<le> unat (fp_chunks p) \<and>
      replicate 8 0 ! i = (of_nat (file_progress p i 0) :: u32) \<and> file_at files m7 p i 0"
    using each_create [OF assms(1) made] n
    by (simp add: schedule_runs file_progress_def file_at_def same ofs_prefix_def)
  have full: "(\<forall>i < unat (fp_files p). file_at files m' p i (unat (fp_chunks p))) \<and>
      (\<forall>name. (\<forall>i < unat (fp_files p). name \<noteq> ofs_file_name i) \<longrightarrow> files m' name = files m7 name) \<and>
      (\<forall>r \<in> set (ofs_schedule p). unat (ldtm_profile_file_bytes p (snd r)) < 2 ^ 32 \<and>
         2 \<le> unat (ldtm_profile_file_chunks (Some p) (snd r)))"
    by (rule ofs_rounds_fill [OF assms(1) _ n(1) _ run _ start])
       (use unat_lt32 [of "fp_chunks p"] schedule_files in auto)
  have "files m' (ofs_file_name i) = Some (map (ofs_byte i) [0..<unat (ldtm_profile_file_bytes p i)])"
    if i: "i < unat (fp_files p)" for i
  proof -
    have "2 \<le> unat (ldtm_profile_file_chunks (Some p) i)" "unat (ldtm_profile_file_chunks (Some p) i) \<le> unat (fp_chunks p)"
      using full schedule_first [OF i guard(1)] complete i by (auto simp: word_le_nat_alt)
    then have "file_progress p i (unat (fp_chunks p)) = ofs_blocks (ldtm_profile_file_bytes p i)"
      by (simp add: file_progress_def blocks_after_all)
    then show ?thesis
      using full i by (simp add: file_at_def ofs_prefix_all)
  qed
  moreover have "files m' (ofs_entry_name e) \<noteq> None \<longleftrightarrow> e \<ge> fp_directory_initial p \<or> odd (unat e)"
    if e: "e < fp_directory_initial p + fp_directory_second p" for e
  proof -
    have total: "unat (fp_directory_initial p + fp_directory_second p) = unat (fp_directory_initial p) + unat (fp_directory_second p)"
      using exact by (simp add: unat_word_ariths)
    have "files m' (ofs_entry_name e) = files m5 (ofs_entry_name e)"
      using full same each_create [OF assms(1) made] entry_not_file by (auto simp: entry_not_file)
    also have "\<dots> \<noteq> None \<longleftrightarrow> ofs_entry_name e \<in> set (second_names p) \<or>
        (ofs_entry_name e \<notin> set (deleted_names p) \<and> (ofs_entry_name e \<in> set (initial_names p) \<or> files m2 (ofs_entry_name e) \<noteq> None))"
      using each_create [OF assms(1) first] each_unlink [OF assms(1) gone] each_create [OF assms(1) second] by auto
    also have "\<dots> \<longleftrightarrow> e \<ge> fp_directory_initial p \<or> odd (unat e)"
      using e exact total by (auto simp: entry_lists word_less_nat_alt word_le_nat_alt)
    finally show ?thesis .
  qed
  moreover have "unat (ldtm_profile_file_bytes p i) < 2 ^ 32" if "i < unat (fp_files p)" for i
    using full schedule_first [OF that guard(1)] by auto
  ultimately show ?thesis
    using n by (simp add: ofs_corpus_def)
qed

lemma created_corpus:
  assumes "ofs_create_fixture H path None (Some p) (Some api) m = (0, m')" "ofs_store H api files"
    and "\<forall>i < unat (fp_files p). ldtm_profile_file_chunks (Some p) i \<le> fp_chunks p"
    and "unat (fp_directory_initial p) + unat (fp_directory_second p) < 2 ^ 32"
  shows "(\<exists>bytes opened. hv_open_target H path True m = (Some bytes, opened)) \<and> ofs_corpus p (files m') \<and>
    0 < unat (fp_files p) \<and> unat (fp_files p) \<le> 8 \<and> (\<forall>i < unat (fp_files p). unat (ldtm_profile_file_bytes p i) < 2 ^ 32)"
proof -
  obtain bytes m1 io m2 m3 checked m4 r m5 where "hv_open_target H path True m = (Some bytes, m1)"
    and "the (om_mount api) io None m1 = (0, m2)" and fill: "ofs_populate H api (Some p) m2 = (0, m3)"
    and check: "the (om_verify api) m3 = (checked, m4)" and leave: "the (om_unmount api) m4 = (r, m5)" and "m' = hv_close_target H m5"
    using assms(1)
    by (auto simp: ofs_create_fixture_def Let_def split: prod.splits option.splits if_splits)
  moreover from this have "files m' = files m3"
    using ofs_store_keeps(4-6) [OF assms(2)] by metis
  ultimately show ?thesis
    using populate_fills [OF assms(2) fill assms(3,4)] by auto
qed

text \<open>
  Populating an OFS volume writes the whole corpus. When \<open>ofs_create_fixture\<close> succeeds
  without a label, on a module that keeps files as the store laws say and for a profile whose files
  have no more chunks than rounds: the target was opened for writing, every file of the profile
  holds exactly the oracle's bytes, although its blocks were written in rounds interleaved with the
  other files, and of the directory entries exactly the odd ones of the first wave and all of the
  second exist.
\<close>
theorem ofs_create_complete:
  assumes "ofs_create_fixture H path None (Some p) (Some api) m = (0, m')" "ofs_store H api files"
    and "\<forall>i < unat (fp_files p). ldtm_profile_file_chunks (Some p) i \<le> fp_chunks p"
    and "unat (fp_directory_initial p) + unat (fp_directory_second p) < 2 ^ 32"
  shows "(\<exists>bytes opened. hv_open_target H path True m = (Some bytes, opened)) \<and>
    (\<forall>i < unat (fp_files p). files m' (ofs_file_name i) = Some (map (ofs_byte i) [0..<unat (ldtm_profile_file_bytes p i)])) \<and>
    (\<forall>e < fp_directory_initial p + fp_directory_second p. files m' (ofs_entry_name e) \<noteq> None \<longleftrightarrow>
       e \<ge> fp_directory_initial p \<or> odd (unat e))"
  using created_corpus [OF assms] by (auto simp: ofs_corpus_def)

subsection \<open>An accepted volume holds the corpus\<close>

lemma unat_ucast_u32_back: "n = part 15616 d \<Longrightarrow> unat (ucast (n :: u64) :: u32) = unat n \<and> unat n \<le> 15616"
  by (auto simp: part_def word_less_nat_alt unat_ucast32)

lemma ofs_expected_bytes:
  assumes "488 dvd unat pos" "488 dvd unat off \<or> n \<le> off" "unat pos + unat n < 2 ^ 32"
  shows "ofs_expected i pos off n = map (ofs_byte i) [unat pos + unat off..<unat pos + unat n]"
  using assms
proof (induction i pos off n rule: ofs_expected.induct)
  case (1 i pos off n)
  show ?case
  proof (cases "n \<le> off")
    case True
    then show ?thesis
      by (subst ofs_expected.simps) (simp add: word_le_nat_alt)
  next
    case False
    define t where "t = part 488 (n - off)"
    have t: "unat (off + t) = unat off + unat t" "unat off + unat t \<le> unat n" "unat t \<le> 488"
      using part_progress [OF False, of 488] by (simp_all add: t_def)
    obtain b where b: "unat pos + unat off = b * 488"
      using "1.prems"(1,2) False by (metis dvd_add dvd_def mult.commute)
    have "unat pos + unat off < 2 ^ 32"
      using "1.prems"(3) False by (simp add: word_le_nat_alt)
    then have b32: "b * 488 < 2 ^ 32" and sum: "unat (pos + ucast off) = b * 488"
      using b by (simp_all add: unat_word_ariths unat_ucast_u32)
    have "(ucast ((pos + ucast off) div 488) :: u32) = of_nat b"
      using sum b32 by (intro word_unat_eq_iff [THEN iffD2]) (simp add: unat_ucast32 unat_div unat_of_nat)
    then have block: "ofs_payload (unat t) (of_nat i) (ucast ((pos + ucast off) div 488)) =
        map (ofs_byte i) [unat pos + unat off..<unat pos + unat off + unat t]"
      using ofs_payload_bytes [OF t(3), of i b] b by simp
    have "488 dvd unat (off + t) \<or> n \<le> off + t"
    proof (cases "n - off < 488")
      case True
      then show ?thesis by (simp add: t_def part_def)
    next
      case False
      then have "unat t = 488" by (simp add: t_def part_def)
      then show ?thesis using "1.prems"(2) \<open>\<not> n \<le> off\<close> t(1) by simp
    qed
    then have rest: "ofs_expected i pos (off + t) n = map (ofs_byte i) [unat pos + unat off + unat t..<unat pos + unat n]"
      using "1.IH" [OF False t_def "1.prems"(1) _ "1.prems"(3)] t(1) by (simp add: add.assoc)
    have "ofs_expected i pos off n =
        map (ofs_byte i) ([unat pos + unat off..<unat pos + unat off + unat t] @ [unat pos + unat off + unat t..<unat pos + unat n])"
      using False block rest by (subst ofs_expected.simps) (simp add: Let_def flip: t_def)
    also have "[unat pos + unat off..<unat pos + unat off + unat t] @ [unat pos + unat off + unat t..<unat pos + unat n] =
        [unat pos + unat off..<unat pos + unat n]"
      using t(2) upt_add_eq_append [of "unat pos + unat off" "unat pos + unat off + unat t" "unat n - unat off - unat t"] by simp
    finally show ?thesis .
  qed
qed

definition ofs_delivered :: "(string \<Rightarrow> u32 \<Rightarrow> u32 \<Rightarrow> 'm \<Rightarrow> (int \<times> u8 list) \<times> 'm) \<Rightarrow> nat \<Rightarrow> nat \<Rightarrow> bool" where
  "ofs_delivered read i k \<longleftrightarrow>
     (\<exists>offset n m data m'. read (ofs_file_name i) offset n m = ((0, data), m') \<and>
        unat offset \<le> k \<and> k - unat offset < length data \<and> length data = unat n \<and> data ! (k - unat offset) = ofs_byte i k)"

lemma ofs_deliveredI:
  "read (ofs_file_name i) offset n m = ((0, data), m') \<Longrightarrow> unat offset \<le> k \<Longrightarrow> k - unat offset < length data \<Longrightarrow>
   length data = unat n \<Longrightarrow> data ! (k - unat offset) = ofs_byte i k \<Longrightarrow> ofs_delivered read i k"
  unfolding ofs_delivered_def by blast

text \<open>One step of the comparison: the amount, its position and the bytes it expects.\<close>

lemma compare_step:
  assumes "\<not> bytes \<le> pos" "unat bytes < 2 ^ 32" "488 dvd unat pos" "n = part 15616 (bytes - pos)"
  shows "unat (ucast pos :: u32) = unat pos" "unat (ucast n :: u32) = unat n" "unat (pos + n) = unat pos + unat n"
    "unat pos + unat n \<le> unat bytes" "pos + n = bytes \<or> 488 dvd unat (pos + n)"
    "ofs_expected i pos 0 (ucast n) = map (ofs_byte i) [unat pos..<unat pos + unat n]"
proof -
  show n: "unat (pos + n) = unat pos + unat n" "unat pos + unat n \<le> unat bytes"
    using part_progress [OF assms(1), of 15616] assms(4) by simp_all
  show "unat (ucast pos :: u32) = unat pos"
    using assms(1,2) by (simp add: unat_ucast32 word_le_nat_alt)
  show len: "unat (ucast n :: u32) = unat n"
    using unat_ucast_u32_back [OF assms(4)] by simp
  show "ofs_expected i pos 0 (ucast n) = map (ofs_byte i) [unat pos..<unat pos + unat n]"
    using ofs_expected_bytes [of pos 0 "ucast n" i] assms(2,3) n(2) len by simp
  show "pos + n = bytes \<or> 488 dvd unat (pos + n)"
  proof (cases "bytes - pos < 15616")
    case False
    then have "unat n = 32 * 488" using assms(4) by (simp add: part_def)
    then show ?thesis using assms(3) n(1) by (metis dvd_add dvd_triv_right)
  qed (simp add: assms(4) part_def)
qed

lemma compare_ofs_sound:
  assumes "compare_ofs read i bytes pos m = (0, m')" "unat bytes < 2 ^ 32" "488 dvd unat pos" "unat pos \<le> k" "k < unat bytes"
  shows "ofs_delivered read i k"
  using assms
proof (induction read i bytes pos m rule: compare_ofs.induct)
  case (1 read i bytes pos m)
  define n where "n = part 15616 (bytes - pos)"
  have open_end: "\<not> bytes \<le> pos"
    using "1.prems"(4,5) by (simp add: word_le_nat_alt)
  note step = compare_step [OF open_end "1.prems"(2,3) n_def]
  obtain m1 where read: "read (ofs_file_name i) (ucast pos) (ucast n) m = ((0, ofs_expected i pos 0 (ucast n)), m1)"
    and rest: "compare_ofs read i bytes (pos + n) m1 = (0, m')"
    using "1.prems"(1) open_end
    by (subst (asm) compare_ofs.simps) (auto simp: Let_def n_def split: prod.splits if_splits)
  show ?case
  proof (cases "k < unat pos + unat n")
    case True
    then show ?thesis
      using "1.prems"(4) step by (intro ofs_deliveredI [of read, OF read]) simp_all
  next
    case False
    have "pos + n \<noteq> bytes"
      using False "1.prems"(5) step(3) by auto
    then show ?thesis
      using "1.IH" [OF open_end n_def read [symmetric] refl] rest "1.prems"(2,5) step(3,5) False by simp
  qed
qed

lemma compare_ofs_files_sound:
  assumes "compare_ofs_files api p is m = (0, m')" "i \<in> set is" "k < unat (ldtm_profile_file_bytes p i)"
  shows "ofs_delivered (the (om_read api)) i k"
  using assms
proof (induction "is" arbitrary: m)
  case (Cons j "is")
  obtain m1 m2 where j: "\<not> ldtm_profile_file_bytes p j > 0xFFFFFFFF"
    "compare_ofs (the (om_read api)) j (ldtm_profile_file_bytes p j) 0 m1 = (0, m2)"
    and rest: "compare_ofs_files api p is m2 = (0, m')"
    using Cons.prems(1) by (auto simp: Let_def split: if_splits prod.splits)
  have "unat (ldtm_profile_file_bytes p j) < 2 ^ 32"
    using j(1) by (simp add: word_less_nat_alt)
  then show ?case
    using Cons.IH [OF rest] Cons.prems(2,3) compare_ofs_sound [OF j(2)] by auto
qed simp

lemma check_entries_sound:
  assumes "check_entries api p es m = (0, m')" "e \<in> set es"
  shows "\<exists>m1 b m2. the (om_stat api) (ofs_entry_name e) m1 = ((if entry_present p e then 0 else IFS_OFS_NOT_FOUND, b), m2)"
  using assms by (induction es arbitrary: m) (auto simp: IFS_OFS_NOT_FOUND_def split: prod.splits if_splits)

lemma entry_numbers_iff: "e \<in> set (entry_numbers p) \<longleftrightarrow> e < fp_directory_initial p + fp_directory_second p"
proof
  assume "e \<in> set (entry_numbers p)"
  then obtain k where "e = of_nat k" "k < unat (fp_directory_initial p + fp_directory_second p)"
    by (auto simp: entry_numbers_def)
  moreover from this have "unat e = k"
    using unat_of_nat32 unat_lt32 [of "fp_directory_initial p + fp_directory_second p"] by (metis less_trans)
  ultimately show "e < fp_directory_initial p + fp_directory_second p"
    by (simp add: word_less_nat_alt)
next
  assume "e < fp_directory_initial p + fp_directory_second p"
  then show "e \<in> set (entry_numbers p)"
    by (auto simp: entry_numbers_def image_iff word_less_nat_alt intro!: bexI [of _ "unat e"])
qed

lemma entry_present_iff: "entry_present p e \<longleftrightarrow> e \<ge> fp_directory_initial p \<or> odd (unat e)"
  by (simp add: entry_present_def and_one_eq odd_iff_mod_2_eq_one) (simp add: word_unat_eq_iff unat_mod)

text \<open>
  An OFS volume passes the inspection only if it holds exactly the corpus. When
  \<open>inspect_ofs\<close> returns 0 for a profile, whatever module it talked to: the target was opened for
  reading, mounted read-only without a write callback and found clean by the module's own check;
  every byte of every file of the profile was delivered as the oracle's byte; and every entry
  of the directory was reported present or absent as population leaves it.
\<close>
theorem ofs_verify_complete:
  assumes "inspect_ofs H (Some path) False (Some p) (Some api) m = (0, m')"
  shows "(\<exists>bytes m1 m2 checked m3 options. hv_open_target H path False m = (Some bytes, m1) \<and>
      the (om_mount api) \<lparr>oi_flags = IFS_OFS_READ_ONLY, oi_volume_bytes = bytes, oi_writable = False\<rparr> (Some options) m1 = (0, m2) \<and>
      the (om_verify api) m2 = ((0, checked), m3) \<and> oc_errors checked = 0 \<and> oc_bitmap_mismatches checked = 0) \<and>
    (\<forall>i < unat (fp_files p). \<forall>k < unat (ldtm_profile_file_bytes p i). ofs_delivered (the (om_read api)) i k) \<and>
    (\<forall>e < fp_directory_initial p + fp_directory_second p. \<exists>m1 b m2. the (om_stat api) (ofs_entry_name e) m1 =
       ((if e \<ge> fp_directory_initial p \<or> odd (unat e) then 0 else IFS_OFS_NOT_FOUND, b), m2))"
proof -
  obtain bytes m1 m2 checked m3 options m4 where
    opened: "hv_open_target H path False m = (Some bytes, m1)"
      "the (om_mount api) \<lparr>oi_flags = IFS_OFS_READ_ONLY, oi_volume_bytes = bytes, oi_writable = False\<rparr> (Some options) m1 = (0, m2)"
      "the (om_verify api) m2 = (checked, m3)" "check_clean checked = 0"
    and content: "ofs_contents api (Some p) m3 = (0, m4)"
    using assms by (auto simp: inspect_ofs_def Let_def split: option.splits if_splits prod.splits)
  have clean: "fst checked = 0 \<and> oc_errors (snd checked) = 0 \<and> oc_bitmap_mismatches (snd checked) = 0"
    using opened(4) by (auto simp: check_clean_def split: if_splits)
  obtain m5 where files: "compare_ofs_files api p [0..<unat (fp_files p)] m3 = (0, m5)"
    and entries: "check_entries api p (entry_numbers p) m5 = (0, m4)"
    using content by (auto simp: ofs_contents_def split: if_splits prod.splits)
  have "\<forall>e < fp_directory_initial p + fp_directory_second p. \<exists>m1 b m2. the (om_stat api) (ofs_entry_name e) m1 =
      ((if e \<ge> fp_directory_initial p \<or> odd (unat e) then 0 else IFS_OFS_NOT_FOUND, b), m2)"
    using check_entries_sound [OF entries] by (simp only: entry_numbers_iff entry_present_iff) blast
  moreover have "\<forall>i < unat (fp_files p). \<forall>k < unat (ldtm_profile_file_bytes p i). ofs_delivered (the (om_read api)) i k"
    using compare_ofs_files_sound [OF files] by simp
  moreover have "the (om_verify api) m2 = ((0, snd checked), m3)"
    using opened(3) clean by (simp flip: surjective_pairing) (metis surjective_pairing)
  ultimately show ?thesis
    using opened(1,2) clean by blast
qed

subsection \<open>Round trip\<close>

text \<open>
  What the inspection relies on: reads deliver the contents, sizes and absences are reported, and
  nothing changes the files; mounting, checking and unmounting succeed.
\<close>

definition ofs_readable :: "'m ofs_host \<Rightarrow> 'm IfsOfsModuleV3 \<Rightarrow> ('m \<Rightarrow> string \<Rightarrow> u8 list option) \<Rightarrow> bool" where
  "ofs_readable H api files \<longleftrightarrow> ofs_reader_valid api \<and>
     (\<forall>name offset n m c. files m name = Some c \<longrightarrow> unat offset + unat n \<le> length c \<longrightarrow>
        (\<exists>m'. the (om_read api) name offset n m = ((0, take (unat n) (drop (unat offset) c)), m') \<and> files m' = files m)) \<and>
     (\<forall>name m. \<exists>bytes m'. the (om_stat api) name m =
        ((if files m name = None then IFS_OFS_NOT_FOUND else 0, bytes), m') \<and> files m' = files m \<and>
        (\<forall>c. files m name = Some c \<longrightarrow> bytes = of_nat (length c))) \<and>
     (\<forall>path m. \<exists>bytes m'. hv_open_target H path False m = (Some bytes, m') \<and> files m' = files m) \<and>
     (\<forall>io options m. \<exists>m'. the (om_mount api) io (Some options) m = (0, m') \<and> files m' = files m) \<and>
     (\<forall>m. \<exists>checked m'. the (om_verify api) m = (checked, m') \<and> check_clean checked = 0 \<and> files m' = files m) \<and>
     (\<forall>m. \<exists>m'. the (om_unmount api) m = (0, m') \<and> files m' = files m)"

lemma readable_read:
  assumes "ofs_readable H api files" "files m name = Some c" "unat offset + unat n \<le> length c"
  obtains m' where "the (om_read api) name offset n m = ((0, take (unat n) (drop (unat offset) c)), m')" "files m' = files m"
  using assms unfolding ofs_readable_def by blast

lemma readable_stat:
  assumes "ofs_readable H api files"
  obtains bytes m' where "the (om_stat api) name m = ((if files m name = None then IFS_OFS_NOT_FOUND else 0, bytes), m')"
    "files m' = files m" "\<forall>c. files m name = Some c \<longrightarrow> bytes = of_nat (length c)"
  using assms unfolding ofs_readable_def by blast

lemma compare_ofs_accepts:
  assumes "ofs_readable H api files" "files m (ofs_file_name i) = Some (map (ofs_byte i) [0..<unat bytes])"
    and "unat bytes < 2 ^ 32" "bytes \<le> pos \<or> 488 dvd unat pos"
  shows "\<exists>m'. compare_ofs (the (om_read api)) i bytes pos m = (0, m') \<and> files m' = files m"
  using assms
proof (induction "the (om_read api)" i bytes pos m rule: compare_ofs.induct)
  case (1 i bytes pos m)
  show ?case
  proof (cases "bytes \<le> pos")
    case True
    then show ?thesis by (simp add: compare_ofs.simps)
  next
    case False
    define n where "n = part 15616 (bytes - pos)"
    note step = compare_step [OF False "1.prems"(3) _ n_def]
    have dvd: "488 dvd unat pos"
      using "1.prems"(4) False by simp
    obtain m1 where read: "the (om_read api) (ofs_file_name i) (ucast pos) (ucast n) m =
        ((0, take (unat n) (drop (unat pos) (map (ofs_byte i) [0..<unat bytes]))), m1)" and same: "files m1 = files m"
      using readable_read [OF "1.prems"(1,2), of "ucast pos" "ucast n"] step(1,2,4) dvd by auto
    have "take (unat n) (drop (unat pos) (map (ofs_byte i) [0..<unat bytes])) = ofs_expected i pos 0 (ucast n)"
      using step(4,6) dvd by (simp add: drop_map take_map)
    moreover have "bytes \<le> pos + n \<or> 488 dvd unat (pos + n)"
      using step(5) dvd by auto
    ultimately show ?thesis
      using "1.hyps" [OF False n_def read [symmetric] refl] "1.prems"(1-3) same read False
      by (subst compare_ofs.simps) (simp add: Let_def flip: n_def)
  qed
qed

lemma compare_ofs_files_accepts:
  assumes "ofs_readable H api files"
    and "\<forall>i \<in> set is. files m (ofs_file_name i) = Some (map (ofs_byte i) [0..<unat (ldtm_profile_file_bytes p i)]) \<and>
      unat (ldtm_profile_file_bytes p i) < 2 ^ 32"
  shows "\<exists>m'. compare_ofs_files api p is m = (0, m') \<and> files m' = files m"
  using assms(2)
proof (induction "is" arbitrary: m)
  case (Cons i "is")
  define bytes where "bytes = ldtm_profile_file_bytes p i"
  have i: "files m (ofs_file_name i) = Some (map (ofs_byte i) [0..<unat bytes])" "unat bytes < 2 ^ 32"
    using Cons.prems by (simp_all add: bytes_def)
  obtain m1 where stat: "the (om_stat api) (ofs_file_name i) m = ((0, of_nat (unat bytes)), m1)" and same: "files m1 = files m"
    by (rule readable_stat [OF assms(1), of "ofs_file_name i" m]) (use i(1) in \<open>simp add: that\<close>)
  have "(ucast (of_nat (unat bytes) :: u32) :: u64) = bytes"
    using i(2) by (intro word_unat_eq_iff [THEN iffD2]) (simp add: unat_ucast_u32 unat_ucast32)
  moreover obtain m2 where "compare_ofs (the (om_read api)) i bytes 0 m1 = (0, m2)" "files m2 = files m"
    using compare_ofs_accepts [OF assms(1), of m1 i bytes 0] i same by auto
  moreover from this obtain m3 where "compare_ofs_files api p is m2 = (0, m3)" "files m3 = files m"
    using Cons.IH [of m2] Cons.prems by auto
  ultimately show ?case
    using stat i(2) by (simp add: Let_def word_less_nat_alt flip: bytes_def)
qed simp

lemma check_entries_accepts:
  assumes "ofs_readable H api files" "\<forall>e \<in> set es. files m (ofs_entry_name e) \<noteq> None \<longleftrightarrow> entry_present p e"
  shows "\<exists>m'. check_entries api p es m = (0, m') \<and> files m' = files m"
  using assms(2)
proof (induction es arbitrary: m)
  case (Cons e es)
  obtain b m1 where stat: "the (om_stat api) (ofs_entry_name e) m =
      ((if files m (ofs_entry_name e) = None then IFS_OFS_NOT_FOUND else 0, b), m1)" "files m1 = files m"
    using readable_stat [OF assms(1)] by metis
  moreover obtain m2 where "check_entries api p es m1 = (0, m2)" "files m2 = files m"
    using Cons.IH [of m1] Cons.prems stat(2) by auto
  ultimately show ?case
    using Cons.prems by auto
qed simp

lemma inspect_accepts:
  assumes "ofs_readable H api files" "ofs_corpus p (files m)" "0 < unat (fp_files p)" "unat (fp_files p) \<le> 8"
    and "\<forall>i < unat (fp_files p). unat (ldtm_profile_file_bytes p i) < 2 ^ 32"
  shows "\<exists>m'. inspect_ofs H (Some path) False (Some p) (Some api) m = (0, m')"
proof -
  obtain bytes m1 where opened: "hv_open_target H path False m = (Some bytes, m1)" "files m1 = files m"
    using assms(1) unfolding ofs_readable_def by blast
  obtain m2 where mounted: "the (om_mount api) \<lparr>oi_flags = IFS_OFS_READ_ONLY, oi_volume_bytes = bytes, oi_writable = False\<rparr>
      (Some \<lparr>ot_block_bytes = 0, ot_reserved_blocks = 0, ot_root_block = 0\<rparr>) m1 = (0, m2)" "files m2 = files m1"
    using assms(1) unfolding ofs_readable_def by blast
  obtain checked m3 where verified: "the (om_verify api) m2 = (checked, m3)" "check_clean checked = 0" "files m3 = files m2"
    using assms(1) unfolding ofs_readable_def by blast
  have corpus: "ofs_corpus p (files m3)"
    using assms(2) opened mounted verified by simp
  obtain m4 where compared: "compare_ofs_files api p [0..<unat (fp_files p)] m3 = (0, m4)" "files m4 = files m3"
    using compare_ofs_files_accepts [OF assms(1), of "[0..<unat (fp_files p)]" m3 p] corpus assms(5) by (auto simp: ofs_corpus_def)
  obtain m5 where entries: "check_entries api p (entry_numbers p) m4 = (0, m5)"
    using check_entries_accepts [OF assms(1), of "entry_numbers p" m4 p] corpus compared(2)
    by (auto simp: ofs_corpus_def entry_numbers_iff entry_present_iff)
  obtain m6 where "the (om_unmount api) m5 = (0, m6)"
    using assms(1) unfolding ofs_readable_def by blast
  moreover have "ofs_reader_valid api" "fp_files p \<noteq> 0"
    using assms(1,3) by (auto simp: ofs_readable_def)
  ultimately show ?thesis
    using opened mounted verified compared entries assms(4)
    by (simp add: inspect_ofs_def ofs_contents_def LDTM_TARGET_FILE_COUNT_def Let_def)
qed

text \<open>
  Creation and inspection of the OFS corpus agree: on a module that keeps and delivers
  files as the store and reading laws say, a volume that \<open>ofs_create_fixture\<close> populated is accepted by
  \<open>inspect_ofs\<close>, byte for byte and entry for entry, although one writes in interleaved rounds of
  up to 2048 blocks and the other reads in buffers of 32.
\<close>
theorem ofs_roundtrip:
  assumes "ofs_create_fixture H path None (Some p) (Some api) m = (0, m')"
    and "ofs_store H api files" "ofs_readable H api files"
    and "\<forall>i < unat (fp_files p). ldtm_profile_file_chunks (Some p) i \<le> fp_chunks p"
    and "unat (fp_directory_initial p) + unat (fp_directory_second p) < 2 ^ 32"
  shows "fst (inspect_ofs H (Some path) False (Some p) (Some api) m') = 0"
  using created_corpus [OF assms(1,2,4,5)] inspect_accepts [OF assms(3), of p m' path] by auto

text \<open>A module that keeps files in a map, and a small profile on it.\<close>

definition ofs_memory :: "memory IfsOfsModuleV3" where
  "ofs_memory = \<lparr>om_abi_version = 3, om_structure_bytes = 224, om_format_id = Some ''ofs'',
     om_mount = Some (\<lambda>io options m. (0, m)), om_unmount = Some (\<lambda>m. (0, m)), om_format = Some (\<lambda>io format m. (0, Map.empty)),
     om_stat = Some (\<lambda>name m. (case m name of None \<Rightarrow> (2, 0) | Some c \<Rightarrow> (0, of_nat (length c)), m)),
     om_create = Some (\<lambda>name m. (0, m(name := Some []))), om_mkdir = Some (\<lambda>name m. (0, m)),
     om_read = Some (\<lambda>name offset n m. ((0, take (unat n) (drop (unat offset) (the (m name)))), m)),
     om_write = Some (\<lambda>name offset data m. (0, m(name := map_option (\<lambda>c. c @ data) (m name)))),
     om_unlink = Some (\<lambda>name m. (0, m(name := None))),
     om_verify = Some (\<lambda>m. ((0, \<lparr>oc_errors = 0, oc_bitmap_mismatches = 0\<rparr>), m))\<rparr>"

definition ofs_memory_host :: "memory ofs_host" where
  "ofs_memory_host = \<lparr>hv_open_target = (\<lambda>path writable m. (Some 2147483648, m)), hv_close_target = (\<lambda>m. m),
     hv_write_at = (\<lambda>offset data m. (0, m)), hv_stop_requested = (\<lambda>m. (False, m)), oh_errno = (\<lambda>m. EIO),
     oh_allocate = (\<lambda>n m. (True, m))\<rparr>"

definition small_profile :: LdtmFragmentProfile where
  "small_profile = \<lparr>fp_files = 2, fp_chunks = 3, fp_chunk_kib = 1, fp_directory_initial = 4, fp_directory_second = 2,
     fp_file_chunks = [2, 3, 0, 0, 0, 0, 0, 0]\<rparr>"

lemma ofs_memory_store: "ofs_store ofs_memory_host ofs_memory (\<lambda>m. m)"
  by (auto simp: ofs_store_def ofs_memory_host_def ofs_memory_def)

lemma ofs_memory_readable: "ofs_readable ofs_memory_host ofs_memory (\<lambda>m. m)"
  by (auto simp: ofs_readable_def ofs_reader_valid_def ofs_memory_host_def ofs_memory_def check_clean_def IFS_OFS_NOT_FOUND_def
      split: option.splits)

lemma memory_each: "\<exists>m'. each_call (the (om_create ofs_memory)) names m = (True, m')"
  "\<exists>m'. each_call (the (om_unlink ofs_memory)) names m = (True, m')" "\<exists>m'. each_call (the (om_mkdir ofs_memory)) names m = (True, m')"
  by (induction names arbitrary: m) (simp_all add: ofs_memory_def)

lemma memory_run: "fst (write_run ofs_memory_host (the (om_write ofs_memory)) bytes i done_blocks run m) = 0"
proof (induction ofs_memory_host "the (om_write ofs_memory)" bytes i done_blocks run m rule: write_run.induct)
  case (1 bytes i done_blocks run m)
  let ?chunk = "ofs_chunk bytes i done_blocks (run_take run)"
  let ?m = "m(ofs_file_name i := map_option (\<lambda>c. c @ ?chunk) (m (ofs_file_name i)))"
  have step: "the (om_write ofs_memory) (ofs_file_name i) (done_blocks * 488) ?chunk m = (0, ?m)"
    "hv_stop_requested ofs_memory_host ?m = (False, ?m)"
    by (simp_all add: ofs_memory_def ofs_memory_host_def)
  show ?case
    using "1.hyps" [OF _ refl step [symmetric] refl] step by (subst write_run.simps) (simp add: Let_def)
qed

lemma memory_rounds:
  assumes "\<forall>r \<in> set rounds. \<not> ldtm_profile_file_bytes p (snd r) > 0xFFFFFFFF \<and> \<not> ldtm_profile_file_chunks (Some p) (snd r) < 2"
  shows "fst (ofs_rounds ofs_memory_host (the (om_write ofs_memory)) p rounds dones m) = 0"
  using assms
proof (induction rounds arbitrary: dones m)
  case (Cons r rounds)
  obtain c i where r: "r = (c, i)" by force
  have "fst (ofs_round ofs_memory_host (the (om_write ofs_memory)) p (of_nat c) i (dones ! i) m) = 0"
    using Cons.prems r by (simp add: ofs_round_def Let_def memory_run)
  then show ?case
    using Cons r by (auto split: prod.splits)
qed simp

lemma small_profile_sizes:
  "i < 2 \<Longrightarrow> ldtm_profile_file_bytes small_profile i = (if i = 0 then 2048 else 3072) \<and>
     ldtm_profile_file_chunks (Some small_profile) i = (if i = 0 then 2 else 3)"
  by (auto simp: ldtm_profile_file_bytes_def ldtm_profile_file_chunks_def small_profile_def LDTM_TARGET_FILE_COUNT_def less_2_cases_iff)

lemma ofs_memory_create: "\<exists>m'. ofs_create_fixture ofs_memory_host ''/dev/x'' None (Some small_profile) (Some ofs_memory) m = (0, m')"
proof -
  have n: "unat (fp_files small_profile) = 2"
    by (simp add: small_profile_def)
  have rounds: "fst (ofs_rounds ofs_memory_host (the (om_write ofs_memory)) small_profile (ofs_schedule small_profile) dones m) = 0"
    for dones m
    by (intro memory_rounds ballI) (use schedule_files [of _ small_profile] n in \<open>simp add: small_profile_sizes\<close>)
  have "fst (ofs_populate ofs_memory_host ofs_memory (Some small_profile) m) = 0" for m
  proof -
    obtain m1 where 1: "each_call (the (om_mkdir ofs_memory)) [ofs_base, ofs_files, ofs_directory] m = (True, m1)"
      using memory_each(3) by blast
    obtain m2 where 2: "each_call (the (om_create ofs_memory)) (initial_names small_profile) m1 = (True, m2)"
      using memory_each(1) by blast
    obtain m3 where 3: "each_call (the (om_unlink ofs_memory)) (deleted_names small_profile) m2 = (True, m3)"
      using memory_each(2) by blast
    obtain m4 where 4: "each_call (the (om_create ofs_memory)) (second_names small_profile) m3 = (True, m4)"
      using memory_each(1) by blast
    obtain m5 where 5: "each_call (the (om_create ofs_memory)) (map ofs_file_name [0..<unat (fp_files small_profile)]) m4 = (True, m5)"
      using memory_each(1) by blast
    have "\<not> (fp_files small_profile = 0 \<or> fp_files small_profile > 8 \<or> fp_chunks small_profile = 0 \<or> fp_chunk_kib small_profile = 0)"
      "oh_allocate ofs_memory_host k m5 = (True, m5)" for k
      by (simp_all add: small_profile_def ofs_memory_host_def)
    then show ?thesis
      using 1 2 3 4 5 rounds by (simp add: ofs_populate_def del: each_call.simps)
  qed
  moreover have "hv_open_target ofs_memory_host path w m = (Some 2147483648, m)" "hv_close_target ofs_memory_host m = m"
    "the (om_mount ofs_memory) io options m = (0, m)" "the (om_unmount ofs_memory) m = (0, m)"
    "the (om_verify ofs_memory) m = ((0, \<lparr>oc_errors = 0, oc_bitmap_mismatches = 0\<rparr>), m)" "ofs_header_valid ofs_memory"
    for path w m io options
    by (simp_all add: ofs_memory_host_def ofs_memory_def ofs_header_valid_def)
  ultimately show ?thesis
    by (simp add: ofs_create_fixture_def check_clean_def Let_def split_def)
qed

lemma small_profile_complete:
  "\<forall>i < unat (fp_files small_profile). ldtm_profile_file_chunks (Some small_profile) i \<le> fp_chunks small_profile"
  "unat (fp_directory_initial small_profile) + unat (fp_directory_second small_profile) < 2 ^ 32"
proof -
  have "unat (fp_files small_profile) = 2" "fp_chunks small_profile = 3"
    by (simp_all add: small_profile_def)
  then show "\<forall>i < unat (fp_files small_profile). ldtm_profile_file_chunks (Some small_profile) i \<le> fp_chunks small_profile"
    by (simp add: small_profile_sizes)
qed (simp add: small_profile_def)

theorem ofs_create_complete_witness:
  "\<exists>m. ofs_create_fixture ofs_memory_host ''/dev/x'' None (Some small_profile) (Some ofs_memory) Map.empty = (0, m) \<and>
     m (ofs_file_name 1) = Some (map (ofs_byte 1) [0..<3072])"
proof -
  obtain m where run: "ofs_create_fixture ofs_memory_host ''/dev/x'' None (Some small_profile) (Some ofs_memory) Map.empty = (0, m)"
    using ofs_memory_create by blast
  have "unat (fp_files small_profile) = 2"
    by (simp add: small_profile_def)
  then show ?thesis
    using ofs_create_complete [OF run ofs_memory_store small_profile_complete] run small_profile_sizes [of 1] by auto
qed

theorem ofs_roundtrip_witness:
  "\<exists>m. ofs_create_fixture ofs_memory_host ''/dev/x'' None (Some small_profile) (Some ofs_memory) Map.empty = (0, m) \<and>
     fst (inspect_ofs ofs_memory_host (Some ''/dev/x'') False (Some small_profile) (Some ofs_memory) m) = 0"
proof -
  obtain m where run: "ofs_create_fixture ofs_memory_host ''/dev/x'' None (Some small_profile) (Some ofs_memory) Map.empty = (0, m)"
    using ofs_memory_create by blast
  then show ?thesis
    using ofs_roundtrip [OF run ofs_memory_store ofs_memory_readable small_profile_complete] by blast
qed

theorem ofs_verify_complete_witness:
  "ofs_delivered (the (om_read ofs_memory)) 1 3071"
proof -
  obtain m where run: "ofs_create_fixture ofs_memory_host ''/dev/x'' None (Some small_profile) (Some ofs_memory) Map.empty = (0, m)"
    using ofs_memory_create by blast
  obtain m' where "inspect_ofs ofs_memory_host (Some ''/dev/x'') False (Some small_profile) (Some ofs_memory) m = (0, m')"
    using inspect_accepts [OF ofs_memory_readable] created_corpus [OF run ofs_memory_store small_profile_complete] by blast
  moreover have "unat (fp_files small_profile) = 2"
    by (simp add: small_profile_def)
  ultimately show ?thesis
    using ofs_verify_complete small_profile_sizes [of 1] by force
qed

end
