(* ===== verification/Fixtures.thy ===== *)
theory Fixtures
  imports Ofs_Fixture
begin

text \<open>
  The adapters of \<open>test_media/test_media_*_module.c\<close> between the test media and the installed
  file-system modules, the driver preflight of \<open>test_media_core.c\<close> and the fixture dispatcher of
  \<open>test_media_raw.c\<close>. A module's tables are what its entry points return; its functions act on a
  state of type \<open>'m\<close> that holds the medium. Texts for the user are left out.
\<close>

subsection \<open>Tables\<close>

record 'm codec_table =
  ct_abi_version :: u32
  ct_structure_bytes :: u32
  ct_format_id :: "string option"
  ct_capabilities :: u64
  ct_run :: bool
  ct_fixture :: "(LdtmFilesystemSpec \<Rightarrow> path \<Rightarrow> bool \<Rightarrow> 'm \<Rightarrow> int \<times> 'm) option"

text \<open>APFS, SFS and PFS3: one entry with an operation code.\<close>

record 'm staged_table =
  sg_abi_version :: u32
  sg_structure_bytes :: u32
  sg_format_id :: "string option"
  sg_capabilities :: u64
  sg_run :: bool
  sg_fixture :: "(u32 \<Rightarrow> path \<Rightarrow> LdtmFragmentProfile option \<Rightarrow> 'm \<Rightarrow> int \<times> 'm) option"

record 'm ffs_table =
  ff_abi_version :: u32
  ff_structure_bytes :: u32
  ff_format_id :: "string option"
  ff_capabilities :: u64
  ff_format :: "(path \<Rightarrow> string option \<Rightarrow> 'm \<Rightarrow> int \<times> 'm) option"
  ff_validate :: "(path \<Rightarrow> 'm \<Rightarrow> int \<times> 'm) option"
  ff_populate :: "(path \<Rightarrow> LdtmFragmentProfile \<Rightarrow> 'm \<Rightarrow> int \<times> 'm) option"
  ff_verify :: "(path \<Rightarrow> LdtmFragmentProfile \<Rightarrow> 'm \<Rightarrow> int \<times> 'm) option"
  ff_verify_after :: "(path \<Rightarrow> LdtmFragmentProfile \<Rightarrow> 'm \<Rightarrow> int \<times> 'm) option"

record 'm swap_table =
  sw_abi_version :: u32
  sw_structure_bytes :: u32
  sw_format_id :: "string option"
  sw_capabilities :: u64
  sw_format :: "(u64 \<Rightarrow> string \<Rightarrow> 'm \<Rightarrow> int \<times> 'm) option"
  sw_verify :: "(u64 \<Rightarrow> 'm \<Rightarrow> int \<times> 'm) option"

text \<open>What the entry point behind a symbol returns, read at the type of its interface.\<close>

record 'm exported =
  ex_codec :: "'m codec_table option"
  ex_staged :: "'m staged_table option"
  ex_ffs :: "'m ffs_table option"
  ex_swap :: "'m swap_table option"
  ex_ofs :: "'m IfsOfsModuleV3 option"
  ex_ufs :: "driver_table option"

type_synonym 'm exports = "'m exported module_store"

subsection \<open>Single-entry codecs\<close>

text \<open>
  \<open>inspect\<close> of the NTFS, XFS, BTRFS, HFS, HFS+, MINIX, ZFS and EXT adapters; the mask is their \<open>RUN\<close> and
  \<open>FIXTURE\<close> bits.
\<close>

definition inspect :: "u32 \<Rightarrow> u64 \<Rightarrow> string \<Rightarrow> 'm exported \<Rightarrow> 'm codec_table option" where
  "inspect bytes caps format symbol =
     (case ex_codec symbol of
        None \<Rightarrow> None
      | Some api \<Rightarrow>
          if ct_abi_version api = 1 \<and> ct_structure_bytes api \<ge> bytes \<and> ct_format_id api = Some format \<and>
             has_caps (ct_capabilities api) caps \<and> ct_run api \<and> ct_fixture api \<noteq> None
          then Some api else None)"

definition codec_ready :: "'m exports \<Rightarrow> string \<Rightarrow> string \<Rightarrow> string \<Rightarrow> u32 \<Rightarrow> u64 \<Rightarrow> bool" where
  "codec_ready S format file interface bytes caps =
     (case ifs_filesystem_module_call S (Some format) (Some file) (Some interface) True of
        Called symbol \<Rightarrow> inspect bytes caps format symbol \<noteq> None
      | _ \<Rightarrow> False)"

definition codec_call ::
  "'m exports \<Rightarrow> string \<Rightarrow> string \<Rightarrow> string \<Rightarrow> u32 \<Rightarrow> u64 \<Rightarrow> LdtmFilesystemSpec \<Rightarrow> path \<Rightarrow> bool \<Rightarrow> 'm \<Rightarrow> int \<times> 'm" where
  "codec_call S format file interface bytes caps spec path create m =
     (case ifs_filesystem_module_call S (Some format) (Some file) (Some interface) True of
        Called symbol \<Rightarrow>
          (case inspect bytes caps format symbol of
             None \<Rightarrow> (1, m)
           | Some api \<Rightarrow> the (ct_fixture api) spec path create m)
      | _ \<Rightarrow> (1, m))"

definition own_slot :: "LdtmCreator \<Rightarrow> LdtmFilesystemSpec option \<Rightarrow> bool" where
  "own_slot creator spec = (case spec of None \<Rightarrow> False | Some spec \<Rightarrow> sp_creator spec = creator)"

definition guarded_codec ::
  "LdtmCreator \<Rightarrow> (LdtmFilesystemSpec \<Rightarrow> path \<Rightarrow> bool \<Rightarrow> 'm \<Rightarrow> int \<times> 'm) \<Rightarrow>
   LdtmFilesystemSpec option \<Rightarrow> path option \<Rightarrow> bool \<Rightarrow> 'm \<Rightarrow> int \<times> 'm" where
  "guarded_codec creator call spec path create m =
     (case (spec, path) of
        (Some spec, Some path) \<Rightarrow> if sp_creator spec \<noteq> creator then (- 1, m) else call spec path create m
      | _ \<Rightarrow> (- 1, m))"

definition ldtm_ntfs_module_available :: "'m exports \<Rightarrow> LdtmFilesystemSpec option \<Rightarrow> bool" where
  "ldtm_ntfs_module_available S spec \<longleftrightarrow> own_slot LDTM_CREATOR_NTFS spec \<and>
     codec_ready S ''ntfs'' ''NTFS.so'' ''infiltrator_filesystem_ntfs_v1'' 40 3"

definition ldtm_raw_ntfs :: "'m exports \<Rightarrow> LdtmFilesystemSpec option \<Rightarrow> path option \<Rightarrow> bool \<Rightarrow> 'm \<Rightarrow> int \<times> 'm" where
  "ldtm_raw_ntfs S = guarded_codec LDTM_CREATOR_NTFS (codec_call S ''ntfs'' ''NTFS.so'' ''infiltrator_filesystem_ntfs_v1'' 40 3)"

definition ldtm_xfs_module_available :: "'m exports \<Rightarrow> LdtmFilesystemSpec option \<Rightarrow> bool" where
  "ldtm_xfs_module_available S spec \<longleftrightarrow> own_slot LDTM_CREATOR_XFS spec \<and>
     codec_ready S ''xfs'' ''XFS.so'' ''infiltrator_filesystem_xfs_v1'' 40 3"

definition ldtm_raw_xfs :: "'m exports \<Rightarrow> LdtmFilesystemSpec option \<Rightarrow> path option \<Rightarrow> bool \<Rightarrow> 'm \<Rightarrow> int \<times> 'm" where
  "ldtm_raw_xfs S = guarded_codec LDTM_CREATOR_XFS (codec_call S ''xfs'' ''XFS.so'' ''infiltrator_filesystem_xfs_v1'' 40 3)"

definition ldtm_btrfs_module_available :: "'m exports \<Rightarrow> LdtmFilesystemSpec option \<Rightarrow> bool" where
  "ldtm_btrfs_module_available S spec \<longleftrightarrow> own_slot LDTM_CREATOR_BTRFS spec \<and>
     codec_ready S ''btrfs'' ''BTRFS.so'' ''infiltrator_filesystem_btrfs_v1'' 40 3"

definition ldtm_raw_btrfs :: "'m exports \<Rightarrow> LdtmFilesystemSpec option \<Rightarrow> path option \<Rightarrow> bool \<Rightarrow> 'm \<Rightarrow> int \<times> 'm" where
  "ldtm_raw_btrfs S =
     guarded_codec LDTM_CREATOR_BTRFS (codec_call S ''btrfs'' ''BTRFS.so'' ''infiltrator_filesystem_btrfs_v1'' 40 3)"

definition ldtm_hfs_module_available :: "'m exports \<Rightarrow> LdtmFilesystemSpec option \<Rightarrow> bool" where
  "ldtm_hfs_module_available S spec \<longleftrightarrow> own_slot LDTM_CREATOR_HFS spec \<and>
     codec_ready S ''hfs'' ''HFS.so'' ''infiltrator_filesystem_hfs_v1'' 40 3"

definition ldtm_hfs_module_fixture :: "'m exports \<Rightarrow> LdtmFilesystemSpec option \<Rightarrow> path option \<Rightarrow> bool \<Rightarrow> 'm \<Rightarrow> int \<times> 'm" where
  "ldtm_hfs_module_fixture S =
     guarded_codec LDTM_CREATOR_HFS (codec_call S ''hfs'' ''HFS.so'' ''infiltrator_filesystem_hfs_v1'' 40 3)"

definition ldtm_hfsplus_module_available :: "'m exports \<Rightarrow> LdtmFilesystemSpec option \<Rightarrow> bool" where
  "ldtm_hfsplus_module_available S spec \<longleftrightarrow> own_slot LDTM_CREATOR_HFSPLUS spec \<and>
     codec_ready S ''hfsplus'' ''HFSPLUS.so'' ''infiltrator_filesystem_hfsplus_v1'' 40 3"

definition ldtm_hfsplus_module_fixture :: "'m exports \<Rightarrow> LdtmFilesystemSpec option \<Rightarrow> path option \<Rightarrow> bool \<Rightarrow> 'm \<Rightarrow> int \<times> 'm" where
  "ldtm_hfsplus_module_fixture S =
     guarded_codec LDTM_CREATOR_HFSPLUS (codec_call S ''hfsplus'' ''HFSPLUS.so'' ''infiltrator_filesystem_hfsplus_v1'' 40 3)"

definition ldtm_raw_mac :: "'m exports \<Rightarrow> LdtmFilesystemSpec option \<Rightarrow> path option \<Rightarrow> bool \<Rightarrow> 'm \<Rightarrow> int \<times> 'm" where
  "ldtm_raw_mac S spec path create m =
     (case spec of
        None \<Rightarrow> (- 1, m)
      | Some s \<Rightarrow>
          if sp_creator s = LDTM_CREATOR_HFSPLUS then ldtm_hfsplus_module_fixture S spec path create m
          else ldtm_hfs_module_fixture S spec path create m)"

definition ldtm_minix_module_available :: "'m exports \<Rightarrow> LdtmFilesystemSpec option \<Rightarrow> bool" where
  "ldtm_minix_module_available S spec \<longleftrightarrow> own_slot LDTM_CREATOR_MINIX spec \<and>
     codec_ready S ''minix'' ''MINIX.so'' ''infiltrator_filesystem_minix_defrag_v1'' 40 3"

definition ldtm_raw_minix :: "'m exports \<Rightarrow> LdtmFilesystemSpec option \<Rightarrow> path option \<Rightarrow> bool \<Rightarrow> 'm \<Rightarrow> int \<times> 'm" where
  "ldtm_raw_minix S =
     guarded_codec LDTM_CREATOR_MINIX (codec_call S ''minix'' ''MINIX.so'' ''infiltrator_filesystem_minix_defrag_v1'' 40 3)"

definition ldtm_zfs_module_available :: "'m exports \<Rightarrow> LdtmFilesystemSpec option \<Rightarrow> bool" where
  "ldtm_zfs_module_available S spec \<longleftrightarrow> own_slot LDTM_CREATOR_ZFS spec \<and>
     codec_ready S ''zfs'' ''ZFS.so'' ''infiltrator_filesystem_zfs_v1'' 40 3"

definition ldtm_raw_zfs :: "'m exports \<Rightarrow> LdtmFilesystemSpec option \<Rightarrow> path option \<Rightarrow> bool \<Rightarrow> 'm \<Rightarrow> int \<times> 'm" where
  "ldtm_raw_zfs S = guarded_codec LDTM_CREATOR_ZFS (codec_call S ''zfs'' ''ZFS.so'' ''infiltrator_filesystem_zfs_v1'' 40 3)"

text \<open>EXT: the format follows from the creator; the mask is \<open>RUN\<close> and \<open>FIXTURE\<close>.\<close>

definition ext_kind :: "LdtmFilesystemSpec option \<Rightarrow> string option" where
  "ext_kind spec =
     (case spec of
        None \<Rightarrow> None
      | Some spec \<Rightarrow>
          (case sp_creator spec of
             LDTM_CREATOR_EXT2 \<Rightarrow> Some ''ext2''
           | LDTM_CREATOR_EXT3 \<Rightarrow> Some ''ext3''
           | LDTM_CREATOR_EXT4 \<Rightarrow> Some ''ext4''
           | _ \<Rightarrow> None))"

definition ext_filename :: "string \<Rightarrow> string" where
  "ext_filename k = (if k = ''ext2'' then ''EXT2.so'' else if k = ''ext3'' then ''EXT3.so'' else ''EXT4.so'')"

definition ldtm_ext_module_available :: "'m exports \<Rightarrow> LdtmFilesystemSpec option \<Rightarrow> bool" where
  "ldtm_ext_module_available S spec =
     (case ext_kind spec of
        None \<Rightarrow> False
      | Some k \<Rightarrow> codec_ready S k (ext_filename k) ''infiltrator_filesystem_ext_v1'' 56 5)"

definition ldtm_raw_ext :: "'m exports \<Rightarrow> LdtmFilesystemSpec option \<Rightarrow> path option \<Rightarrow> bool \<Rightarrow> 'm \<Rightarrow> int \<times> 'm" where
  "ldtm_raw_ext S spec path create m =
     (case (ext_kind spec, spec, path) of
        (Some k, Some spec, Some path) \<Rightarrow>
          codec_call S k (ext_filename k) ''infiltrator_filesystem_ext_v1'' 56 5 spec path create m
      | _ \<Rightarrow> (- 1, m))"

subsection \<open>SWAP\<close>

definition IFS_SWAP_CAP_FORMAT :: u64 where "IFS_SWAP_CAP_FORMAT = 2"
definition IFS_SWAP_CAP_VERIFY :: u64 where "IFS_SWAP_CAP_VERIFY = 4"

definition swap_inspect :: "'m exported \<Rightarrow> 'm swap_table option" where
  "swap_inspect symbol =
     (case ex_swap symbol of
        None \<Rightarrow> None
      | Some api \<Rightarrow>
          if sw_abi_version api = 1 \<and> sw_structure_bytes api \<ge> 48 \<and> sw_format_id api = Some ''swap'' \<and>
             has_caps (sw_capabilities api) (IFS_SWAP_CAP_FORMAT OR IFS_SWAP_CAP_VERIFY) \<and>
             sw_format api \<noteq> None \<and> sw_verify api \<noteq> None
          then Some api else None)"

definition swap_module_call ::
  "'m IfsDefragHostV2 \<Rightarrow> LdtmFilesystemSpec \<Rightarrow> path \<Rightarrow> bool \<Rightarrow> 'm exported \<Rightarrow> 'm \<Rightarrow> int \<times> 'm" where
  "swap_module_call H spec path create symbol m =
     (case swap_inspect symbol of
        None \<Rightarrow> (1, m)
      | Some api \<Rightarrow>
          (case hv_open_target H path create m of
             (None, m) \<Rightarrow> (1, m)
           | (Some bytes, m) \<Rightarrow>
               if bytes \<noteq> slot_capacity spec then (1, hv_close_target H m)
               else case hv_stop_requested H m of
                      (True, m) \<Rightarrow> (1, hv_close_target H m)
                    | (False, m) \<Rightarrow>
                        (case (if create then the (sw_format api) bytes (sp_label spec) m else the (sw_verify api) bytes m) of
                           (status, m) \<Rightarrow> (status, hv_close_target H m))))"

definition ldtm_swap_module_available :: "'m exports \<Rightarrow> LdtmFilesystemSpec option \<Rightarrow> bool" where
  "ldtm_swap_module_available S spec \<longleftrightarrow> own_slot LDTM_CREATOR_SWAP spec \<and>
     (case ifs_filesystem_module_call S (Some ''swap'') (Some ''SWAP.so'') (Some ''infiltrator_filesystem_swap_v1'') True of
        Called symbol \<Rightarrow> swap_inspect symbol \<noteq> None
      | _ \<Rightarrow> False)"

definition ldtm_raw_swap ::
  "'m IfsDefragHostV2 \<Rightarrow> 'm exports \<Rightarrow> LdtmFilesystemSpec option \<Rightarrow> path option \<Rightarrow> bool \<Rightarrow> 'm \<Rightarrow> int \<times> 'm" where
  "ldtm_raw_swap H S = guarded_codec LDTM_CREATOR_SWAP (\<lambda>spec path create m.
     case ifs_filesystem_module_call S (Some ''swap'') (Some ''SWAP.so'') (Some ''infiltrator_filesystem_swap_v1'') True of
       Called symbol \<Rightarrow> swap_module_call H spec path create symbol m
     | _ \<Rightarrow> (1, m))"

subsection \<open>APFS, SFS and PFS3\<close>

definition staged_inspect :: "string \<Rightarrow> 'm exported \<Rightarrow> 'm staged_table option" where
  "staged_inspect format symbol =
     (case ex_staged symbol of
        None \<Rightarrow> None
      | Some api \<Rightarrow>
          if sg_abi_version api = 1 \<and> sg_structure_bytes api \<ge> 40 \<and> sg_format_id api = Some format \<and>
             has_caps (sg_capabilities api) (CAP_RUN OR CAP_FIXTURE) \<and> sg_run api \<and> sg_fixture api \<noteq> None
          then Some api else None)"

definition staged_ready :: "'m exports \<Rightarrow> string \<Rightarrow> string \<Rightarrow> string \<Rightarrow> bool" where
  "staged_ready S format file interface =
     (case ifs_filesystem_module_call S (Some format) (Some file) (Some interface) True of
        Called symbol \<Rightarrow> staged_inspect format symbol \<noteq> None
      | _ \<Rightarrow> False)"

definition staged_invoke ::
  "'m exports \<Rightarrow> string \<Rightarrow> string \<Rightarrow> string \<Rightarrow> u32 \<Rightarrow> path option \<Rightarrow> LdtmFragmentProfile option \<Rightarrow> 'm \<Rightarrow> int \<times> 'm" where
  "staged_invoke S format file interface operation path profile m =
     (case path of
        None \<Rightarrow> (- 1, m)
      | Some path \<Rightarrow>
          (case ifs_filesystem_module_call S (Some format) (Some file) (Some interface) True of
             Called symbol \<Rightarrow>
               (case staged_inspect format symbol of
                  None \<Rightarrow> (1, m)
                | Some api \<Rightarrow> the (sg_fixture api) operation path profile m)
           | _ \<Rightarrow> (1, m)))"

definition FIXTURE_FORMAT :: u32 where "FIXTURE_FORMAT = 1"
definition FIXTURE_POPULATE :: u32 where "FIXTURE_POPULATE = 2"
definition FIXTURE_VERIFY :: u32 where "FIXTURE_VERIFY = 3"
definition FIXTURE_VERIFY_DEFRAG :: u32 where "FIXTURE_VERIFY_DEFRAG = 4"

text \<open>A staged call that needs a profile.\<close>

definition with_profile :: "(LdtmFragmentProfile option \<Rightarrow> 'm \<Rightarrow> int \<times> 'm) \<Rightarrow> LdtmFragmentProfile option \<Rightarrow> 'm \<Rightarrow> int \<times> 'm" where
  "with_profile call profile m = (case profile of None \<Rightarrow> (- 1, m) | Some _ \<Rightarrow> call profile m)"

definition apfs_invoke :: "'m exports \<Rightarrow> u32 \<Rightarrow> path option \<Rightarrow> 'm \<Rightarrow> int \<times> 'm" where
  "apfs_invoke S operation path = staged_invoke S ''apfs'' ''APFS.so'' ''infiltrator_filesystem_apfs_v1'' operation path None"

definition sfs_invoke :: "'m exports \<Rightarrow> u32 \<Rightarrow> path option \<Rightarrow> LdtmFragmentProfile option \<Rightarrow> 'm \<Rightarrow> int \<times> 'm" where
  "sfs_invoke S operation path = staged_invoke S ''sfs'' ''SFS.so'' ''infiltrator_filesystem_sfs_v1'' operation path"

definition pfs3_invoke :: "'m exports \<Rightarrow> u32 \<Rightarrow> path option \<Rightarrow> LdtmFragmentProfile option \<Rightarrow> 'm \<Rightarrow> int \<times> 'm" where
  "pfs3_invoke S operation path = staged_invoke S ''pfs3'' ''PFS3.so'' ''infiltrator_filesystem_pfs3_v1'' operation path"

definition ldtm_apfs_module_available :: "'m exports \<Rightarrow> bool" where
  "ldtm_apfs_module_available S = staged_ready S ''apfs'' ''APFS.so'' ''infiltrator_filesystem_apfs_v1''"

definition ldtm_format_apfs_volume :: "'m exports \<Rightarrow> path option \<Rightarrow> 'm \<Rightarrow> int \<times> 'm" where
  "ldtm_format_apfs_volume S path = apfs_invoke S FIXTURE_FORMAT path"

definition ldtm_verify_apfs_payload :: "'m exports \<Rightarrow> path option \<Rightarrow> 'm \<Rightarrow> int \<times> 'm" where
  "ldtm_verify_apfs_payload S path = apfs_invoke S FIXTURE_VERIFY path"

definition ldtm_verify_apfs_payload_after_defrag :: "'m exports \<Rightarrow> path option \<Rightarrow> 'm \<Rightarrow> int \<times> 'm" where
  "ldtm_verify_apfs_payload_after_defrag S path = apfs_invoke S FIXTURE_VERIFY_DEFRAG path"

definition ldtm_sfs_module_available :: "'m exports \<Rightarrow> bool" where
  "ldtm_sfs_module_available S = staged_ready S ''sfs'' ''SFS.so'' ''infiltrator_filesystem_sfs_v1''"

definition ldtm_format_sfs_volume :: "'m exports \<Rightarrow> path option \<Rightarrow> 'm \<Rightarrow> int \<times> 'm" where
  "ldtm_format_sfs_volume S path = sfs_invoke S FIXTURE_FORMAT path None"

definition ldtm_populate_sfs_volume :: "'m exports \<Rightarrow> path option \<Rightarrow> LdtmFragmentProfile option \<Rightarrow> 'm \<Rightarrow> int \<times> 'm" where
  "ldtm_populate_sfs_volume S path = with_profile (sfs_invoke S FIXTURE_POPULATE path)"

definition ldtm_verify_sfs_payload :: "'m exports \<Rightarrow> path option \<Rightarrow> LdtmFragmentProfile option \<Rightarrow> 'm \<Rightarrow> int \<times> 'm" where
  "ldtm_verify_sfs_payload S path = with_profile (sfs_invoke S FIXTURE_VERIFY path)"

definition ldtm_verify_sfs_payload_after_defrag :: "'m exports \<Rightarrow> path option \<Rightarrow> LdtmFragmentProfile option \<Rightarrow> 'm \<Rightarrow> int \<times> 'm" where
  "ldtm_verify_sfs_payload_after_defrag S path = with_profile (sfs_invoke S FIXTURE_VERIFY_DEFRAG path)"

definition ldtm_pfs3_module_available :: "'m exports \<Rightarrow> bool" where
  "ldtm_pfs3_module_available S = staged_ready S ''pfs3'' ''PFS3.so'' ''infiltrator_filesystem_pfs3_v1''"

definition ldtm_format_pfs3_volume :: "'m exports \<Rightarrow> path option \<Rightarrow> 'm \<Rightarrow> int \<times> 'm" where
  "ldtm_format_pfs3_volume S path = pfs3_invoke S FIXTURE_FORMAT path None"

definition ldtm_populate_pfs3_volume :: "'m exports \<Rightarrow> path option \<Rightarrow> LdtmFragmentProfile option \<Rightarrow> 'm \<Rightarrow> int \<times> 'm" where
  "ldtm_populate_pfs3_volume S path = with_profile (pfs3_invoke S FIXTURE_POPULATE path)"

definition ldtm_verify_pfs3_payload :: "'m exports \<Rightarrow> path option \<Rightarrow> LdtmFragmentProfile option \<Rightarrow> 'm \<Rightarrow> int \<times> 'm" where
  "ldtm_verify_pfs3_payload S path = with_profile (pfs3_invoke S FIXTURE_VERIFY path)"

definition ldtm_verify_pfs3_payload_after_defrag :: "'m exports \<Rightarrow> path option \<Rightarrow> LdtmFragmentProfile option \<Rightarrow> 'm \<Rightarrow> int \<times> 'm" where
  "ldtm_verify_pfs3_payload_after_defrag S path = with_profile (pfs3_invoke S FIXTURE_VERIFY_DEFRAG path)"

subsection \<open>FFS and OFS\<close>

datatype Operation = AVAIL | FORMAT | VALIDATE | POPULATE | VERIFY | VERIFY_AFTER

definition ffs_valid :: "'m ffs_table \<Rightarrow> bool" where
  "ffs_valid api \<longleftrightarrow> ff_abi_version api = 1 \<and> ff_structure_bytes api \<ge> 64 \<and> ff_format_id api = Some ''ffs'' \<and>
     has_caps (ff_capabilities api) 7 \<and> ff_format api \<noteq> None \<and> ff_validate api \<noteq> None \<and> ff_populate api \<noteq> None \<and>
     ff_verify api \<noteq> None \<and> ff_verify_after api \<noteq> None"

definition ffs_call ::
  "'m exports \<Rightarrow> Operation \<Rightarrow> path \<Rightarrow> string option \<Rightarrow> LdtmFragmentProfile option \<Rightarrow> 'm \<Rightarrow> int \<times> 'm" where
  "ffs_call S operation path label profile m =
     (case ifs_filesystem_module_call S (Some ''ffs'') (Some ''FFS.so'') (Some ''infiltrator_filesystem_ffs_fixture_v1'') True of
        Called symbol \<Rightarrow>
          (case ex_ffs symbol of
             None \<Rightarrow> (1, m)
           | Some api \<Rightarrow>
               if \<not> ffs_valid api then (1, m)
               else case operation of
                      AVAIL \<Rightarrow> (0, m)
                    | FORMAT \<Rightarrow> the (ff_format api) path label m
                    | VALIDATE \<Rightarrow> the (ff_validate api) path m
                    | _ \<Rightarrow>
                        (case profile of
                           None \<Rightarrow> (1, m)
                         | Some profile \<Rightarrow>
                             (case operation of
                                POPULATE \<Rightarrow> the (ff_populate api) path profile m
                              | VERIFY \<Rightarrow> the (ff_verify api) path profile m
                              | _ \<Rightarrow> the (ff_verify_after api) path profile m)))
      | _ \<Rightarrow> (1, m))"

definition zero_or_minus :: "int \<times> 'm \<Rightarrow> int \<times> 'm" where
  "zero_or_minus r = (if fst r = 0 then 0 else - 1, snd r)"

definition ldtm_ffs_module_available :: "'m exports \<Rightarrow> 'm \<Rightarrow> bool" where
  "ldtm_ffs_module_available S m \<longleftrightarrow> fst (ffs_call S AVAIL [] None None m) = 0"

definition ldtm_format_ffs_module :: "'m exports \<Rightarrow> path \<Rightarrow> string option \<Rightarrow> 'm \<Rightarrow> int \<times> 'm" where
  "ldtm_format_ffs_module S path label m = zero_or_minus (ffs_call S FORMAT path label None m)"

definition ldtm_validate_ffs_module :: "'m exports \<Rightarrow> path \<Rightarrow> 'm \<Rightarrow> int \<times> 'm" where
  "ldtm_validate_ffs_module S path m = zero_or_minus (ffs_call S VALIDATE path None None m)"

definition ldtm_populate_ffs_module :: "'m exports \<Rightarrow> path \<Rightarrow> LdtmFragmentProfile option \<Rightarrow> 'm \<Rightarrow> int \<times> 'm" where
  "ldtm_populate_ffs_module S path profile m = zero_or_minus (ffs_call S POPULATE path None profile m)"

definition ldtm_verify_ffs_module :: "'m exports \<Rightarrow> path \<Rightarrow> LdtmFragmentProfile option \<Rightarrow> bool \<Rightarrow> 'm \<Rightarrow> int \<times> 'm" where
  "ldtm_verify_ffs_module S path profile after m =
     zero_or_minus (ffs_call S (if after then VERIFY_AFTER else VERIFY) path None profile m)"

definition ldtm_ofs_module_available :: "'m exports \<Rightarrow> bool" where
  "ldtm_ofs_module_available S =
     (case ifs_filesystem_module_call S (Some ''ofs'') (Some ''OFS.so'') (Some ''infiltrator_filesystem_module_v3'') True of
        Called symbol \<Rightarrow> (case ex_ofs symbol of None \<Rightarrow> False | Some api \<Rightarrow> ofs_header_valid api)
      | _ \<Rightarrow> False)"

definition ofs_call :: "'m exports \<Rightarrow> ('m IfsOfsModuleV3 option \<Rightarrow> 'm \<Rightarrow> int \<times> 'm) \<Rightarrow> 'm \<Rightarrow> int \<times> 'm" where
  "ofs_call S callback m =
     (case ifs_filesystem_module_call S (Some ''ofs'') (Some ''OFS.so'') (Some ''infiltrator_filesystem_module_v3'') True of
        Called symbol \<Rightarrow> callback (ex_ofs symbol) m
      | _ \<Rightarrow> (1, m))"

definition ldtm_format_ofs_module :: "'m ofs_host \<Rightarrow> 'm exports \<Rightarrow> path \<Rightarrow> string option \<Rightarrow> 'm \<Rightarrow> int \<times> 'm" where
  "ldtm_format_ofs_module H S path label =
     ofs_call S (ofs_create_fixture H path (Some (case label of None \<Rightarrow> ''LD_OFS'' | Some label \<Rightarrow> label)) None)"

definition ldtm_populate_ofs_module :: "'m ofs_host \<Rightarrow> 'm exports \<Rightarrow> path \<Rightarrow> LdtmFragmentProfile option \<Rightarrow> 'm \<Rightarrow> int \<times> 'm" where
  "ldtm_populate_ofs_module H S path profile = ofs_call S (ofs_create_fixture H path None profile)"

definition ldtm_validate_ofs_module :: "'m ofs_host \<Rightarrow> 'm exports \<Rightarrow> path option \<Rightarrow> 'm \<Rightarrow> int \<times> 'm" where
  "ldtm_validate_ofs_module H S path m = zero_or_minus (ofs_call S (inspect_ofs H path True None) m)"

definition ldtm_verify_ofs_module ::
  "'m ofs_host \<Rightarrow> 'm exports \<Rightarrow> path option \<Rightarrow> LdtmFragmentProfile option \<Rightarrow> bool \<Rightarrow> 'm \<Rightarrow> int \<times> 'm" where
  "ldtm_verify_ofs_module H S path profile after m = zero_or_minus (ofs_call S (inspect_ofs H path False profile) m)"

subsection \<open>Preflight\<close>

text \<open>The callback of the UFS2 preflight on one interface.\<close>

definition ldtm_ufs2_preflight_interface :: "string \<Rightarrow> 'm exported \<Rightarrow> bool" where
  "ldtm_ufs2_preflight_interface interface symbol =
     (case ex_ufs symbol of
        None \<Rightarrow> False
      | Some api \<Rightarrow>
          if interface = ''infiltrator_filesystem_ufs_v1''
          then table_header 1 40 ''ufs2'' api \<and> has_caps (tb_capabilities api) (CAP_RUN OR IFS_UFS_CAP_TEST_MEDIA) \<and>
               tb_run api \<noteq> None \<and> tb_format_test_media api \<noteq> None
          else if interface = ''infiltrator_filesystem_ufs_probe_v1''
          then table_header 1 24 ''ufs2'' api \<and> tb_probe api \<noteq> None
          else if interface = ''infiltrator_filesystem_ufs_volume_check_v1''
          then table_header 1 24 ''ufs2'' api \<and> tb_volume_check api \<noteq> None
          else if interface = ''infiltrator_filesystem_ufs_payload_verifier_v1''
          then table_header 1 24 ''ufs2'' api \<and> tb_verify_payload api
          else False)"

definition ufs2_interfaces :: "string list" where
  "ufs2_interfaces = [''infiltrator_filesystem_ufs_v1'', ''infiltrator_filesystem_ufs_probe_v1'',
     ''infiltrator_filesystem_ufs_volume_check_v1'', ''infiltrator_filesystem_ufs_payload_verifier_v1'']"

definition ldtm_ufs2_module_available :: "'m exports \<Rightarrow> bool" where
  "ldtm_ufs2_module_available S =
     list_all (\<lambda>interface.
       case ifs_filesystem_module_call S (Some ''ufs2'') (Some ''UFS2.so'') (Some interface) True of
         Called symbol \<Rightarrow> ldtm_ufs2_preflight_interface interface symbol
       | _ \<Rightarrow> False) ufs2_interfaces"

text \<open>
  The modules are found through two stores, for the FAT tables and for all others; \<open>V\<close> and
  \<open>executable\<close> serve program resolution. The flag is a non-null detail buffer with room.
\<close>

definition ldtm_spec_creator_available ::
  "host_view \<Rightarrow> (path \<Rightarrow> bool) \<Rightarrow> 'm fat_symbol module_store \<Rightarrow> 'm exports \<Rightarrow> 'm \<Rightarrow> LdtmFilesystemSpec option \<Rightarrow> bool \<Rightarrow> bool" where
  "ldtm_spec_creator_available V executable FS S m spec detail_given =
     (case spec of
        None \<Rightarrow> False
      | Some s \<Rightarrow>
          if \<not> detail_given then False
          else (case sp_creator s of
                  LDTM_CREATOR_FAT12 \<Rightarrow> ldtm_fat_module_available FS spec m
                | LDTM_CREATOR_FAT16 \<Rightarrow> ldtm_fat_module_available FS spec m
                | LDTM_CREATOR_FAT32 \<Rightarrow> ldtm_fat_module_available FS spec m
                | LDTM_CREATOR_EXFAT \<Rightarrow> ldtm_fat_module_available FS spec m
                | LDTM_CREATOR_EXT2 \<Rightarrow> ldtm_ext_module_available S spec
                | LDTM_CREATOR_EXT3 \<Rightarrow> ldtm_ext_module_available S spec
                | LDTM_CREATOR_EXT4 \<Rightarrow> ldtm_ext_module_available S spec
                | LDTM_CREATOR_MINIX \<Rightarrow> ldtm_minix_module_available S spec
                | LDTM_CREATOR_BTRFS \<Rightarrow> ldtm_btrfs_module_available S spec
                | LDTM_CREATOR_HFS \<Rightarrow> ldtm_hfs_module_available S spec
                | LDTM_CREATOR_HFSPLUS \<Rightarrow> ldtm_hfsplus_module_available S spec
                | LDTM_CREATOR_XFS \<Rightarrow> ldtm_xfs_module_available S spec
                | LDTM_CREATOR_NTFS \<Rightarrow> ldtm_ntfs_module_available S spec
                | LDTM_CREATOR_SWAP \<Rightarrow> ldtm_swap_module_available S spec
                | LDTM_CREATOR_ZFS \<Rightarrow> ldtm_zfs_module_available S spec
                | LDTM_CREATOR_AFFS \<Rightarrow>
                    if sp_key s = ''sfs'' then ldtm_sfs_module_available S
                    else if sp_key s = ''ofs'' then ldtm_ofs_module_available S
                    else if sp_key s = ''ffs'' then ldtm_ffs_module_available S m
                    else False
                | LDTM_CREATOR_PFS3 \<Rightarrow> ldtm_pfs3_module_available S
                | LDTM_CREATOR_UFS \<Rightarrow>
                    ldtm_program_available V executable (Some ''makefs'') \<and> ldtm_ufs2_module_available S
                | LDTM_CREATOR_APFS \<Rightarrow> ldtm_apfs_module_available S
                | LDTM_CREATOR_MANUAL \<Rightarrow> False))"

fun all_available :: "(LdtmFilesystemSpec \<Rightarrow> bool) \<Rightarrow> LdtmFilesystemSpec list \<Rightarrow> bool" where
  "all_available available [] = True"
| "all_available available (spec # specs) = (if \<not> available spec then False else all_available available specs)"

definition ldtm_required_modules_available ::
  "host_view \<Rightarrow> (path \<Rightarrow> bool) \<Rightarrow> 'm fat_symbol module_store \<Rightarrow> 'm exports \<Rightarrow> 'm \<Rightarrow> bool \<Rightarrow> bool" where
  "ldtm_required_modules_available V executable FS S m detail_given =
     (if \<not> detail_given then False
      else all_available (\<lambda>spec. ldtm_spec_creator_available V executable FS S m (Some spec) True) ldtm_specs)"

subsection \<open>The fixture dispatcher\<close>

text \<open>
  The surroundings of a fixture run: what \<open>ldtm_raw_open\<close> meets, the positioned write, whether
  \<open>close\<close> succeeds, the host's callbacks and the installed modules.
\<close>

record 'm fixture_env =
  fx_common :: common
  fx_run :: open_run
  fx_view :: host_view
  fx_fds :: fd_view
  fx_pwrite :: "'m pwrite_fun"
  fx_close_ok :: bool
  fx_host :: "'m IfsDefragHostV2"
  fx_fat :: "'m fat_symbol module_store"
  fx_exports :: "'m exports"

definition fixture_precheck :: "'m fixture_env \<Rightarrow> LdtmFilesystemSpec \<Rightarrow> 'm \<Rightarrow> bool" where
  "fixture_precheck E spec m =
     (case sp_creator spec of
        LDTM_CREATOR_FAT12 \<Rightarrow> ldtm_fat_module_available (fx_fat E) (Some spec) m
      | LDTM_CREATOR_FAT16 \<Rightarrow> ldtm_fat_module_available (fx_fat E) (Some spec) m
      | LDTM_CREATOR_FAT32 \<Rightarrow> ldtm_fat_module_available (fx_fat E) (Some spec) m
      | LDTM_CREATOR_XFS \<Rightarrow> ldtm_xfs_module_available (fx_exports E) (Some spec)
      | LDTM_CREATOR_NTFS \<Rightarrow> ldtm_ntfs_module_available (fx_exports E) (Some spec)
      | LDTM_CREATOR_SWAP \<Rightarrow> ldtm_swap_module_available (fx_exports E) (Some spec)
      | LDTM_CREATOR_ZFS \<Rightarrow> ldtm_zfs_module_available (fx_exports E) (Some spec)
      | LDTM_CREATOR_HFSPLUS \<Rightarrow> ldtm_hfsplus_module_available (fx_exports E) (Some spec)
      | LDTM_CREATOR_HFS \<Rightarrow> ldtm_hfs_module_available (fx_exports E) (Some spec)
      | LDTM_CREATOR_BTRFS \<Rightarrow> ldtm_btrfs_module_available (fx_exports E) (Some spec)
      | LDTM_CREATOR_MINIX \<Rightarrow> ldtm_minix_module_available (fx_exports E) (Some spec)
      | _ \<Rightarrow> True)"

definition fixture_codec ::
  "'m fixture_env \<Rightarrow> LdtmCreator \<Rightarrow> (LdtmFilesystemSpec option \<Rightarrow> path option \<Rightarrow> bool \<Rightarrow> 'm \<Rightarrow> int \<times> 'm) option" where
  "fixture_codec E creator =
     (case creator of
        LDTM_CREATOR_FAT12 \<Rightarrow> Some (ldtm_raw_fat (fx_host E) (fx_fat E))
      | LDTM_CREATOR_FAT16 \<Rightarrow> Some (ldtm_raw_fat (fx_host E) (fx_fat E))
      | LDTM_CREATOR_FAT32 \<Rightarrow> Some (ldtm_raw_fat (fx_host E) (fx_fat E))
      | LDTM_CREATOR_EXFAT \<Rightarrow> Some (ldtm_raw_exfat (fx_host E) (fx_fat E))
      | LDTM_CREATOR_EXT2 \<Rightarrow> Some (ldtm_raw_ext (fx_exports E))
      | LDTM_CREATOR_EXT3 \<Rightarrow> Some (ldtm_raw_ext (fx_exports E))
      | LDTM_CREATOR_EXT4 \<Rightarrow> Some (ldtm_raw_ext (fx_exports E))
      | LDTM_CREATOR_MINIX \<Rightarrow> Some (ldtm_raw_minix (fx_exports E))
      | LDTM_CREATOR_SWAP \<Rightarrow> Some (ldtm_raw_swap (fx_host E) (fx_exports E))
      | LDTM_CREATOR_HFS \<Rightarrow> Some (ldtm_raw_mac (fx_exports E))
      | LDTM_CREATOR_HFSPLUS \<Rightarrow> Some (ldtm_raw_mac (fx_exports E))
      | LDTM_CREATOR_NTFS \<Rightarrow> Some (ldtm_raw_ntfs (fx_exports E))
      | LDTM_CREATOR_XFS \<Rightarrow> Some (ldtm_raw_xfs (fx_exports E))
      | LDTM_CREATOR_BTRFS \<Rightarrow> Some (ldtm_raw_btrfs (fx_exports E))
      | LDTM_CREATOR_ZFS \<Rightarrow> Some (ldtm_raw_zfs (fx_exports E))
      | _ \<Rightarrow> None)"

fun erase_ends :: "'m pwrite_fun \<Rightarrow> int \<Rightarrow> u64 \<Rightarrow> u64 list \<Rightarrow> 'm \<Rightarrow> bool \<times> 'm" where
  "erase_ends pwrite fd bytes [] m = (True, m)"
| "erase_ends pwrite fd bytes (offset # offsets) m =
     (case ldtm_raw_write pwrite fd offset zero_buffer m of
        (False, m) \<Rightarrow> (False, m)
      | (True, m) \<Rightarrow>
          (case ldtm_raw_write pwrite fd (bytes - LDTM_MIB + offset) zero_buffer m of
             (False, m) \<Rightarrow> (False, m)
           | (True, m) \<Rightarrow> erase_ends pwrite fd bytes offsets m))"

definition erases :: "LdtmFilesystemSpec \<Rightarrow> bool \<Rightarrow> bool" where
  "erases spec create \<longleftrightarrow> create \<and> sp_creator spec \<noteq> LDTM_CREATOR_FAT12 \<and> sp_creator spec \<noteq> LDTM_CREATOR_FAT16"

definition ldtm_raw_fixture ::
  "'m fixture_env \<Rightarrow> LdtmFilesystemSpec option \<Rightarrow> path option \<Rightarrow> bool \<Rightarrow> 'm \<Rightarrow> ((int \<times> 'm) \<times> fd_event list) proc" where
  "ldtm_raw_fixture E spec path create m =
     (case (spec, path) of
        (Some s, Some p) \<Rightarrow>
          if create \<and> \<not> fixture_precheck E s m then Return ((- 1, m), [])
          else (case fixture_codec E (sp_creator s) of
                  None \<Rightarrow> Return ((- 1, m), [])
                | Some codec \<Rightarrow>
                    (case ldtm_raw_open (fx_common E) (fx_run E) (fx_view E) (fx_fds E) path create of
                       Exit_failure t \<Rightarrow> Exit_failure t
                     | Return (None, evs) \<Rightarrow> Return ((- 1, m), evs)
                     | Return (Some (fd, bytes), evs) \<Rightarrow>
                         let evs = evs @ [Fd_close fd]
                         in if bytes \<noteq> slot_capacity s then Return ((- 1, m), evs)
                            else (case (if erases s create then erase_ends (fx_pwrite E) fd bytes clear_offsets m else (True, m)) of
                                    (valid, m) \<Rightarrow>
                                      if \<not> valid \<or> \<not> fx_close_ok E then Return ((- 1, m), evs)
                                      else Return (codec spec path create m, evs))))
      | _ \<Rightarrow> Return ((- 1, m), []))"

subsection \<open>Properties\<close>

text \<open>
  The contract of a codec adapter: it reaches module code only through the trusted store, for
  its own creator and through a table that its availability check accepts; otherwise it
  refuses and leaves the medium alone.
\<close>

locale codec_adapter =
  fixes available :: "LdtmFilesystemSpec option \<Rightarrow> bool"
    and codec :: "LdtmFilesystemSpec option \<Rightarrow> path option \<Rightarrow> bool \<Rightarrow> 'm \<Rightarrow> int \<times> 'm"
    and creators :: "LdtmCreator set"
  assumes foreign: "own \<in> creators \<Longrightarrow> sp_creator s \<notin> creators \<Longrightarrow> codec (Some s) path create m = (- 1, m)"
    and unavailable: "sp_creator s \<in> creators \<Longrightarrow> \<not> available (Some s) \<Longrightarrow>
      snd (codec (Some s) path create m) = m \<and> fst (codec (Some s) path create m) \<noteq> 0"
begin

lemma effect_needs_module:
  assumes "sp_creator s \<in> creators" "codec (Some s) path create m = (result, m')" "result = 0 \<or> m' \<noteq> m"
  shows "available (Some s)"
  using unavailable [OF assms(1), of path create m] assms(2,3) by auto

end

lemma codec_call_unready:
  "\<not> codec_ready S format file interface bytes caps \<Longrightarrow> codec_call S format file interface bytes caps spec path create m = (1, m)"
  by (auto simp: codec_ready_def codec_call_def split: call_outcome.splits option.splits)

lemma guarded_adapter:
  assumes "\<And>s path create m. \<not> ready \<Longrightarrow> snd (call s path create m) = m \<and> fst (call s path create m) \<noteq> 0"
  shows "codec_adapter (\<lambda>spec. own_slot creator spec \<and> ready) (guarded_codec creator call) {creator}"
  by unfold_locales (use assms in \<open>auto simp: guarded_codec_def own_slot_def split: option.splits\<close>)

lemma codec_adapterI:
  "codec_adapter (\<lambda>spec. own_slot creator spec \<and> codec_ready S format file interface bytes caps)
     (guarded_codec creator (codec_call S format file interface bytes caps)) {creator}"
  by (rule guarded_adapter) (simp add: codec_call_unready)

interpretation ntfs: codec_adapter "ldtm_ntfs_module_available S" "ldtm_raw_ntfs S" "{LDTM_CREATOR_NTFS}" for S
  unfolding ldtm_ntfs_module_available_def [abs_def] ldtm_raw_ntfs_def by (rule codec_adapterI)

interpretation xfs: codec_adapter "ldtm_xfs_module_available S" "ldtm_raw_xfs S" "{LDTM_CREATOR_XFS}" for S
  unfolding ldtm_xfs_module_available_def [abs_def] ldtm_raw_xfs_def by (rule codec_adapterI)

interpretation btrfs: codec_adapter "ldtm_btrfs_module_available S" "ldtm_raw_btrfs S" "{LDTM_CREATOR_BTRFS}" for S
  unfolding ldtm_btrfs_module_available_def [abs_def] ldtm_raw_btrfs_def by (rule codec_adapterI)

interpretation hfs: codec_adapter "ldtm_hfs_module_available S" "ldtm_hfs_module_fixture S" "{LDTM_CREATOR_HFS}" for S
  unfolding ldtm_hfs_module_available_def [abs_def] ldtm_hfs_module_fixture_def by (rule codec_adapterI)

interpretation hfsplus: codec_adapter "ldtm_hfsplus_module_available S" "ldtm_hfsplus_module_fixture S" "{LDTM_CREATOR_HFSPLUS}" for S
  unfolding ldtm_hfsplus_module_available_def [abs_def] ldtm_hfsplus_module_fixture_def by (rule codec_adapterI)

interpretation minix: codec_adapter "ldtm_minix_module_available S" "ldtm_raw_minix S" "{LDTM_CREATOR_MINIX}" for S
  unfolding ldtm_minix_module_available_def [abs_def] ldtm_raw_minix_def by (rule codec_adapterI)

interpretation zfs: codec_adapter "ldtm_zfs_module_available S" "ldtm_raw_zfs S" "{LDTM_CREATOR_ZFS}" for S
  unfolding ldtm_zfs_module_available_def [abs_def] ldtm_raw_zfs_def by (rule codec_adapterI)

interpretation swap: codec_adapter "ldtm_swap_module_available S" "ldtm_raw_swap H S" "{LDTM_CREATOR_SWAP}" for H S
  unfolding ldtm_swap_module_available_def [abs_def] ldtm_raw_swap_def
  by (rule guarded_adapter) (auto simp: swap_module_call_def split: call_outcome.splits)

interpretation ext: codec_adapter "ldtm_ext_module_available S" "ldtm_raw_ext S"
  "{LDTM_CREATOR_EXT2, LDTM_CREATOR_EXT3, LDTM_CREATOR_EXT4}" for S
  by unfold_locales
     (auto simp: ldtm_ext_module_available_def ldtm_raw_ext_def ext_kind_def codec_call_unready
       split: LdtmCreator.splits option.splits)

interpretation fat: codec_adapter "\<lambda>spec. ldtm_fat_module_available FS spec m0" "ldtm_raw_fat H FS"
  "{LDTM_CREATOR_FAT12, LDTM_CREATOR_FAT16, LDTM_CREATOR_FAT32, LDTM_CREATOR_EXFAT}" for H FS m0
  by unfold_locales
     (auto simp: ldtm_fat_module_available_def ldtm_raw_fat_def ldtm_fat_module_create_def fat_call_module_def fat_module_name_def
       fat_available_def create_fixture_def verify_fixture_def split: LdtmCreator.splits option.splits call_outcome.splits if_splits)

lemma codec_needs_driver:
  assumes "fixture_codec E (sp_creator s) = Some codec" "codec (Some s) path create m = (0, m')"
  shows "ldtm_spec_creator_available V executable (fx_fat E) (fx_exports E) m0 (Some s) True"
proof -
  have ok: "available (Some s)"
    if "codec_adapter available codec' creators" "sp_creator s \<in> creators" "codec' (Some s) path create m = (0, m')"
    for available codec' creators
    using codec_adapter.effect_needs_module [OF that(1,2,3)] by simp
  show ?thesis
    using assms
    by (cases "sp_creator s")
       (auto simp: fixture_codec_def ldtm_spec_creator_available_def ldtm_raw_mac_def ldtm_raw_exfat_def
         dest: ok [OF ntfs.codec_adapter_axioms, rotated] ok [OF xfs.codec_adapter_axioms, rotated]
           ok [OF btrfs.codec_adapter_axioms, rotated] ok [OF hfs.codec_adapter_axioms, rotated]
           ok [OF hfsplus.codec_adapter_axioms, rotated] ok [OF minix.codec_adapter_axioms, rotated]
           ok [OF zfs.codec_adapter_axioms, rotated] ok [OF swap.codec_adapter_axioms, rotated]
           ok [OF ext.codec_adapter_axioms, rotated] ok [OF fat.codec_adapter_axioms, rotated])
qed

text \<open>
  A fixture run touches a medium only behind its guards. If \<open>ldtm_raw_fixture\<close> reports
  success or leaves the medium changed, then, in this order: on creation the module precheck
  passed, the target was opened through the verified open with the requested access and its
  capacity was exactly the slot's, and the descriptor was closed again. A verification, and the
  creation of FAT12 or FAT16, write nothing themselves: their effect is the codec's alone. On
  success the slot's own driver was available and its codec ran to success, on creation after
  both ends of the volume had been erased.
\<close>
theorem fixture_guarded:
  assumes "ldtm_raw_fixture E (Some s) (Some p) create m = Return ((result, m'), evs)" "result = 0 \<or> m' \<noteq> m"
  shows "\<exists>codec fd pre m1. fixture_codec E (sp_creator s) = Some codec \<and> (create \<longrightarrow> fixture_precheck E s m) \<and>
    ldtm_raw_open (fx_common E) (fx_run E) (fx_view E) (fx_fds E) (Some p) create = Return (Some (fd, slot_capacity s), pre) \<and>
    evs = pre @ [Fd_close fd] \<and>
    (\<not> erases s create \<longrightarrow> codec (Some s) (Some p) create m = (result, m')) \<and>
    (result = 0 \<longrightarrow>
       (if erases s create then erase_ends (fx_pwrite E) fd (slot_capacity s) clear_offsets m else (True, m)) = (True, m1) \<and>
       codec (Some s) (Some p) create m1 = (0, m') \<and>
       (\<forall>V executable m0. ldtm_spec_creator_available V executable (fx_fat E) (fx_exports E) m0 (Some s) True))"
proof -
  have guard: "\<not> (create \<and> \<not> fixture_precheck E s m)"
    using assms by (auto simp: ldtm_raw_fixture_def split: if_splits)
  obtain codec where codec: "fixture_codec E (sp_creator s) = Some codec"
    using assms guard by (cases "fixture_codec E (sp_creator s)") (auto simp: ldtm_raw_fixture_def)
  obtain fd pre where pre: "ldtm_raw_open (fx_common E) (fx_run E) (fx_view E) (fx_fds E) (Some p) create =
      Return (Some (fd, slot_capacity s), pre)" and evs: "evs = pre @ [Fd_close fd]"
    using assms guard codec
    by (auto simp: ldtm_raw_fixture_def Let_def split: proc.splits prod.splits option.splits if_splits)
  let ?prepared = "if erases s create then erase_ends (fx_pwrite E) fd (slot_capacity s) clear_offsets m else (True, m)"
  obtain valid m1 where prepared: "?prepared = (valid, m1)"
    by force
  have result: "(result, m') = (if \<not> valid \<or> \<not> fx_close_ok E then (- 1, m1) else codec (Some s) (Some p) create m1)"
    using assms(1) guard codec pre prepared by (auto simp: ldtm_raw_fixture_def split: if_splits)
  have same: "\<not> erases s create \<Longrightarrow> m1 = m"
    using prepared by auto
  have "result = 0 \<Longrightarrow> valid \<and> codec (Some s) (Some p) create m1 = (0, m')"
    using result by (auto split: if_splits)
  moreover have "\<not> erases s create \<Longrightarrow> codec (Some s) (Some p) create m = (result, m')"
    using result same assms(2) by (auto split: if_splits)
  ultimately show ?thesis
    using codec pre evs prepared guard codec_needs_driver [OF codec]
    by (intro exI [of _ codec] exI [of _ fd] exI [of _ pre] exI [of _ m1]) auto
qed

text \<open>A host whose only image is a slot-sized file, with an NTFS driver that reports success.\<close>

definition ntfs_slot :: LdtmFilesystemSpec where
  "ntfs_slot = slot ''ntfs'' ''LD_NTFS'' 2048 200 LDTM_CREATOR_NTFS"

definition ntfs_codec :: "nat codec_table" where
  "ntfs_codec = \<lparr>ct_abi_version = 1, ct_structure_bytes = 40, ct_format_id = Some ''ntfs'', ct_capabilities = 3, ct_run = True,
     ct_fixture = Some (\<lambda>spec path create m. (0, m + 1000))\<rparr>"

definition codec_symbol :: "'m codec_table \<Rightarrow> 'm exported" where
  "codec_symbol api = \<lparr>ex_codec = Some api, ex_staged = None, ex_ffs = None, ex_swap = None, ex_ofs = None, ex_ufs = None\<rparr>"

definition store_of :: "string \<Rightarrow> 'sym \<Rightarrow> 'sym module_store" where
  "store_of file symbol = \<lparr>ms_system = Some (Some (root_file 0x41ED)), ms_filesystems = Some (Some (root_file 0x41ED)),
     ms_entries = None, ms_open = \<lambda>n. if n = file then Some (Some (root_file 0x81A4)) else None,
     ms_dlopen = \<lambda>n. Some \<lparr>mi_defrag_v2 = None, mi_symbol = \<lambda>i. Some symbol\<rparr>\<rparr>"

definition demo_env :: "nat exports \<Rightarrow> nat fixture_env" where
  "demo_env S = \<lparr>fx_common = demo_common, fx_run = demo_run, fx_view = idle_host,
     fx_fds = \<lparr>fstat_fd = \<lambda>fd. Inr (demo_image\<lparr>st_size := 2147483648\<rparr>), blkgetsize64 = \<lambda>fd. Inl EIO\<rparr>,
     fx_pwrite = \<lambda>fd data at m. (None, m + 1), fx_close_ok = True, fx_host = undefined, fx_fat = store_of [] undefined,
     fx_exports = S\<rparr>"

lemma demo_raw_open:
  "ldtm_raw_open (fx_common (demo_env S)) (fx_run (demo_env S)) (fx_view (demo_env S)) (fx_fds (demo_env S)) (Some ''/img'') w =
     Return (Some (5, 2147483648), [Fd_open ''/img'' (open_mode w False) 5])"
  by (simp add: ldtm_raw_open_def demo_env_def ld_device_open_verified_fd_def demo_open)
     (simp add: demo_device_def ld_fd_size_bytes_def demo_image_def S_ISREG_def S_ISBLK_def S_IFMT_def)

lemma demo_erase: "erase_ends (fx_pwrite (demo_env S)) 5 bytes offsets m = (True, m + 2 * length offsets)"
  by (induction offsets arbitrary: m) (simp_all add: demo_env_def ldtm_raw_write_def)

lemma demo_ntfs_ready:
  "ifs_filesystem_module_call (store_of ''NTFS.so'' s) (Some ''ntfs'') (Some ''NTFS.so'') (Some ''infiltrator_filesystem_ntfs_v1'')
     True = Called s"
  by (simp add: ifs_filesystem_module_call_def store_of_def opened_trusted_def demo_trusted)

lemma demo_fixture:
  "ldtm_raw_fixture (demo_env (store_of ''NTFS.so'' (codec_symbol ntfs_codec))) (Some ntfs_slot) (Some ''/img'') True 0 =
     Return ((0, 1032), [Fd_open ''/img'' (open_mode True False) 5, Fd_close 5])"
proof -
  have "inspect 40 3 ''ntfs'' (codec_symbol ntfs_codec) = Some ntfs_codec"
    by (simp add: inspect_def codec_symbol_def ntfs_codec_def has_caps_def)
  moreover have "sp_creator ntfs_slot = LDTM_CREATOR_NTFS" "slot_capacity ntfs_slot = 2147483648" "length clear_offsets = 16"
    by (simp_all add: ntfs_slot_def slot_def slot_capacity_def LDTM_MIB_def clear_offsets_def)
  moreover have "fx_exports (demo_env S) = S" "fx_close_ok (demo_env S)" for S
    by (simp_all add: demo_env_def)
  ultimately show ?thesis
    by (simp add: ldtm_raw_fixture_def demo_raw_open demo_erase fixture_precheck_def fixture_codec_def erases_def
        ldtm_ntfs_module_available_def own_slot_def codec_ready_def demo_ntfs_ready ldtm_raw_ntfs_def guarded_codec_def
        codec_call_def)
       (simp add: ntfs_codec_def)
qed

theorem fixture_guarded_witness:
  "ldtm_spec_creator_available idle_host (\<lambda>p. False) (store_of [] undefined) (store_of ''NTFS.so'' (codec_symbol ntfs_codec)) 0
     (Some ntfs_slot) True"
  using fixture_guarded [OF demo_fixture] by (auto simp: demo_env_def)

text \<open>
  EXT and exFAT have no module precheck in the dispatcher: with the driver missing, the ends of the
  volume are erased before the codec refuses.
\<close>

lemma ext_erased_before_module_check:
  "ldtm_raw_fixture (demo_env (store_of [] undefined)) (Some (slot ''ext4'' ''LD_EXT4'' 2048 200 LDTM_CREATOR_EXT4)) (Some ''/img'')
     True 0 = Return ((1, 32), [Fd_open ''/img'' (open_mode True False) 5, Fd_close 5]) \<and>
   \<not> ldtm_ext_module_available (store_of [] undefined :: nat exports) (Some (slot ''ext4'' ''LD_EXT4'' 2048 200 LDTM_CREATOR_EXT4))"
proof -
  have missing: "ifs_filesystem_module_call (store_of [] s) (Some ''ext4'') (Some ''EXT4.so'') (Some i) True \<noteq> Called x" for s i x
    by (simp add: ifs_filesystem_module_call_def store_of_def opened_trusted_def demo_trusted)
  have unready: "\<not> codec_ready (store_of [] s) ''ext4'' ''EXT4.so'' i b c" for s i b c
    unfolding codec_ready_def using missing [of s i]
    by (cases "ifs_filesystem_module_call (store_of [] s) (Some ''ext4'') (Some ''EXT4.so'') (Some i) True") auto
  have "slot_capacity (slot ''ext4'' ''LD_EXT4'' 2048 200 LDTM_CREATOR_EXT4) = 2147483648" "length clear_offsets = 16"
    by (simp_all add: slot_def slot_capacity_def LDTM_MIB_def clear_offsets_def)
  moreover have "fx_exports (demo_env S) = S" "fx_close_ok (demo_env S)" for S
    by (simp_all add: demo_env_def)
  ultimately show ?thesis
    by (simp add: ldtm_raw_fixture_def demo_raw_open demo_erase fixture_precheck_def fixture_codec_def erases_def slot_def
        ldtm_raw_ext_def ext_kind_def ext_filename_def codec_call_unready unready ldtm_ext_module_available_def)
qed

lemma all_available_iff: "all_available available specs \<longleftrightarrow> (\<forall>spec \<in> set specs. available spec)"
  by (induction specs) auto

text \<open>
  The preflight covers every fixture: when \<open>ldtm_required_modules_available\<close> accepts the
  installed modules, every slot of the media plan has its driver, and for no slot does the
  dispatcher's own precheck refuse.
\<close>
lemma preflight_covers_fixtures:
  assumes "ldtm_required_modules_available V executable (fx_fat E) (fx_exports E) m True"
  shows "\<forall>spec \<in> set LDTM_SPECS. ldtm_spec_creator_available V executable (fx_fat E) (fx_exports E) m (Some spec) True \<and>
    fixture_precheck E spec m"
proof
  fix spec assume "spec \<in> set LDTM_SPECS"
  then have "ldtm_spec_creator_available V executable (fx_fat E) (fx_exports E) m (Some spec) True"
    using assms by (simp add: ldtm_required_modules_available_def all_available_iff ldtm_specs_def)
  then show "ldtm_spec_creator_available V executable (fx_fat E) (fx_exports E) m (Some spec) True \<and> fixture_precheck E spec m"
    by (auto simp: ldtm_spec_creator_available_def fixture_precheck_def split: LdtmCreator.splits)
qed

end
