(* ===== verification/Worker_Json.thy ===== *)
theory Worker_Json
  imports Topology
begin

text \<open>
  The reader of the analyser's report in \<open>test_media/test_media_worker.c\<close>: white space, strings and
  values of JSON are skipped by a bounded recursive scanner, and \<open>parse_json_u64_field\<close> takes one
  unsigned field of the top-level object. A position in the text is the rest of the text. The
  number token is the shared library's (\<open>parse_u64_token\<close> of the record \<open>common\<close>).
\<close>

subsection \<open>Scanner\<close>

definition json_skip_ws :: "string \<Rightarrow> string" where
  "json_skip_ws s = dropWhile is_space s"

definition is_xdigit :: "char \<Rightarrow> bool" where
  "is_xdigit c \<longleftrightarrow> is_digit c \<or> c \<in> set ''abcdefABCDEF''"

definition escape_chars :: string where
  "escape_chars = [CHR 0x22, CHR 0x5C, CHR ''/'', CHR ''b'', CHR ''f'', CHR ''n'', CHR ''r'', CHR ''t'']"

text \<open>Behind the opening quote: the raw text up to the closing one, whether it has an escape, and the rest.\<close>

function scan_body :: "string \<Rightarrow> (string \<times> bool \<times> string) option" where
  "scan_body [] = None"
| "scan_body (c # s) =
     (if c = CHR 0x22 then Some ([], False, s)
      else if (of_char c :: nat) < 0x20 then None
      else if c = CHR 0x5C
      then (case s of
              [] \<Rightarrow> None
            | d # s \<Rightarrow>
                if d = CHR ''u''
                then (if length s \<ge> 4 \<and> list_all is_xdigit (take 4 s)
                      then map_option (\<lambda>(t, _, r). (c # d # take 4 s @ t, True, r)) (scan_body (drop 4 s))
                      else None)
                else if d \<in> set escape_chars then map_option (\<lambda>(t, _, r). (c # d # t, True, r)) (scan_body s)
                else None)
      else map_option (\<lambda>(t, e, r). (c # t, e, r)) (scan_body s))"
  by pat_completeness auto
termination by (relation "measure length") auto

definition json_scan_string :: "string \<Rightarrow> (string \<times> bool \<times> string) option" where
  "json_scan_string s = (case s of [] \<Rightarrow> None | c # t \<Rightarrow> if c = CHR 0x22 then scan_body t else None)"

definition skip_digits :: "string \<Rightarrow> string" where
  "skip_digits s = dropWhile is_digit s"

definition starts_digit :: "string \<Rightarrow> bool" where
  "starts_digit s = (case s of [] \<Rightarrow> False | c # _ \<Rightarrow> is_digit c)"

definition skip_integer :: "string \<Rightarrow> string option" where
  "skip_integer s =
     (let s = (case s of [] \<Rightarrow> [] | c # t \<Rightarrow> if c = CHR ''-'' then t else s)
      in case s of
           [] \<Rightarrow> None
         | c # t \<Rightarrow> if c = CHR ''0'' then (if starts_digit t then None else Some t)
                    else if is_digit c then Some (skip_digits t) else None)"

definition skip_fraction :: "string \<Rightarrow> string option" where
  "skip_fraction s =
     (case s of [] \<Rightarrow> Some []
      | c # t \<Rightarrow> if c = CHR ''.'' then (if starts_digit t then Some (skip_digits t) else None) else Some s)"

definition skip_exponent :: "string \<Rightarrow> string option" where
  "skip_exponent s =
     (case s of [] \<Rightarrow> Some []
      | c # t \<Rightarrow>
          if c = CHR ''e'' \<or> c = CHR ''E''
          then let t = (case t of [] \<Rightarrow> [] | d # u \<Rightarrow> if d = CHR ''+'' \<or> d = CHR ''-'' then u else t)
               in if starts_digit t then Some (skip_digits t) else None
          else Some s)"

definition skip_number :: "string \<Rightarrow> string option" where
  "skip_number s =
     (case skip_integer s of
        None \<Rightarrow> None
      | Some s \<Rightarrow> (case skip_fraction s of None \<Rightarrow> None | Some s \<Rightarrow> skip_exponent s))"

text \<open>
  \<open>json_skip_value\<close> and its two loops, with fuel for the recursion; running out of it is a failure.
\<close>

fun skip_value :: "nat \<Rightarrow> nat \<Rightarrow> string \<Rightarrow> string option"
  and skip_members :: "nat \<Rightarrow> nat \<Rightarrow> string \<Rightarrow> string option"
  and skip_elements :: "nat \<Rightarrow> nat \<Rightarrow> string \<Rightarrow> string option" where
  "skip_value 0 depth s = None"
| "skip_value (Suc f) depth s =
     (if depth > 64 then None
      else case json_skip_ws s of
             [] \<Rightarrow> None
           | c # t \<Rightarrow>
               if c = CHR 0x22 then map_option (\<lambda>(_, _, r). r) (json_scan_string (c # t))
               else if c = CHR 0x7B
               then (case json_skip_ws t of
                       [] \<Rightarrow> None
                     | d # u \<Rightarrow> if d = CHR 0x7D then Some u else skip_members f depth (d # u))
               else if c = CHR ''[''
               then (case json_skip_ws t of
                       [] \<Rightarrow> None
                     | d # u \<Rightarrow> if d = CHR '']'' then Some u else skip_elements f depth (d # u))
               else if starts_with (c # t) ''true'' then Some (drop 4 (c # t))
               else if starts_with (c # t) ''false'' then Some (drop 5 (c # t))
               else if starts_with (c # t) ''null'' then Some (drop 4 (c # t))
               else skip_number (c # t))"
| "skip_members 0 depth s = None"
| "skip_members (Suc f) depth s =
     (case json_scan_string s of
        None \<Rightarrow> None
      | Some (_, _, s) \<Rightarrow>
          (case json_skip_ws s of
             [] \<Rightarrow> None
           | c # s \<Rightarrow>
               if c \<noteq> CHR '':'' then None
               else (case skip_value f (Suc depth) s of
                       None \<Rightarrow> None
                     | Some s \<Rightarrow>
                         (case json_skip_ws s of
                            [] \<Rightarrow> None
                          | c # s \<Rightarrow>
                              if c = CHR 0x7D then Some s
                              else if c = CHR '','' then skip_members f depth (json_skip_ws s)
                              else None))))"
| "skip_elements 0 depth s = None"
| "skip_elements (Suc f) depth s =
     (case skip_value f (Suc depth) s of
        None \<Rightarrow> None
      | Some s \<Rightarrow>
          (case json_skip_ws s of
             [] \<Rightarrow> None
           | c # s \<Rightarrow>
               if c = CHR '']'' then Some s
               else if c = CHR '','' then skip_elements f depth s
               else None))"

definition json_fuel :: "string \<Rightarrow> nat" where
  "json_fuel s = 2 * length s + 2"

definition json_skip_value :: "nat \<Rightarrow> string \<Rightarrow> string option" where
  "json_skip_value depth s = skip_value (json_fuel s) depth s"

subsection \<open>One unsigned field\<close>

text \<open>The value of the field that the loop stands at: the token and the rest, with its guards.\<close>

definition u64_value :: "common \<Rightarrow> string \<Rightarrow> (u64 \<times> string) option" where
  "u64_value C s =
     (if \<not> starts_digit s then None
      else case parse_u64_token C s 10 of
             None \<Rightarrow> None
           | Some (v, r) \<Rightarrow>
               if r = s \<or> (hd s = CHR ''0'' \<and> length s - length r > 1) then None else Some (v, r))"

text \<open>The loop over the members, with fuel; the result is the value found, if any, and the rest at its end.\<close>

fun field_loop :: "nat \<Rightarrow> common \<Rightarrow> string \<Rightarrow> u64 option \<Rightarrow> string \<Rightarrow> (u64 option \<times> string) option" where
  "field_loop 0 C name found s = None"
| "field_loop (Suc f) C name found s =
     (if s = [] \<or> hd s = CHR 0x7D then Some (found, s)
      else case json_scan_string s of
             None \<Rightarrow> None
           | Some (key, escaped, s) \<Rightarrow>
               (case json_skip_ws s of
                  [] \<Rightarrow> None
                | c # s \<Rightarrow>
                    if c \<noteq> CHR '':'' then None
                    else let s = json_skip_ws s;
                             step = (if \<not> escaped \<and> key = name
                                     then (if found \<noteq> None then None else map_option (\<lambda>(v, r). (Some v, r)) (u64_value C s))
                                     else map_option (Pair found) (json_skip_value 0 s))
                         in case step of
                              None \<Rightarrow> None
                            | Some (found, s) \<Rightarrow>
                                (case json_skip_ws s of
                                   [] \<Rightarrow> None
                                 | c # s \<Rightarrow>
                                     if c = CHR 0x7D then Some (found, c # s)
                                     else if c = CHR '','' then field_loop f C name found (json_skip_ws s)
                                     else None)))"

definition parse_json_u64_field :: "common \<Rightarrow> string option \<Rightarrow> string option \<Rightarrow> u64 option" where
  "parse_json_u64_field C json name =
     (case (json, name) of
        (Some json, Some name) \<Rightarrow>
          (case json_skip_ws json of
             [] \<Rightarrow> None
           | c # s \<Rightarrow>
               if c \<noteq> CHR 0x7B then None
               else (case field_loop (Suc (length json)) C name None (json_skip_ws s) of
                       None \<Rightarrow> None
                     | Some (found, []) \<Rightarrow> None
                     | Some (found, c # s) \<Rightarrow>
                         if c \<noteq> CHR 0x7D \<or> json_skip_ws s \<noteq> [] then None else found))
      | _ \<Rightarrow> None)"

subsection \<open>The grammar\<close>

abbreviation spaces :: "string \<Rightarrow> bool" where "spaces w \<equiv> list_all is_space w"

inductive json_chars :: "string \<Rightarrow> bool" where
  chars_end: "json_chars []"
| chars_plain: "c \<noteq> CHR 0x22 \<Longrightarrow> c \<noteq> CHR 0x5C \<Longrightarrow> 0x20 \<le> (of_char c :: nat) \<Longrightarrow> json_chars s \<Longrightarrow> json_chars (c # s)"
| chars_escape: "d \<in> set escape_chars \<Longrightarrow> json_chars s \<Longrightarrow> json_chars (CHR 0x5C # d # s)"
| chars_unicode: "length x = 4 \<Longrightarrow> list_all is_xdigit x \<Longrightarrow> json_chars s \<Longrightarrow> json_chars (CHR 0x5C # CHR ''u'' # x @ s)"

definition some_digits :: "string \<Rightarrow> bool" where
  "some_digits s \<longleftrightarrow> s \<noteq> [] \<and> list_all is_digit s"

definition json_integer :: "string \<Rightarrow> bool" where
  "json_integer s \<longleftrightarrow> (\<exists>sign i. s = sign @ i \<and> sign \<in> {[], ''-''} \<and>
     (i = ''0'' \<or> (some_digits i \<and> hd i \<noteq> CHR ''0'')))"

definition json_fraction :: "string \<Rightarrow> bool" where
  "json_fraction s \<longleftrightarrow> s = [] \<or> (\<exists>ds. s = CHR ''.'' # ds \<and> some_digits ds)"

definition json_exponent :: "string \<Rightarrow> bool" where
  "json_exponent s \<longleftrightarrow> s = [] \<or>
     (\<exists>e sign ds. s = e # sign @ ds \<and> e \<in> {CHR ''e'', CHR ''E''} \<and> sign \<in> {[], ''+'', ''-''} \<and> some_digits ds)"

definition json_number :: "string \<Rightarrow> bool" where
  "json_number s \<longleftrightarrow> (\<exists>i f e. s = i @ f @ e \<and> json_integer i \<and> json_fraction f \<and> json_exponent e)"

text \<open>The number bounds the nesting that is left.\<close>

inductive json_value :: "nat \<Rightarrow> string \<Rightarrow> bool"
  and json_members :: "nat \<Rightarrow> string \<Rightarrow> bool"
  and json_elements :: "nat \<Rightarrow> string \<Rightarrow> bool" where
  value_string: "json_chars s \<Longrightarrow> json_value (Suc n) (CHR 0x22 # s @ [CHR 0x22])"
| value_word: "s \<in> {''true'', ''false'', ''null''} \<Longrightarrow> json_value (Suc n) s"
| value_number: "json_number s \<Longrightarrow> json_value (Suc n) s"
| value_empty: "spaces w \<Longrightarrow> ends \<in> {(CHR 0x7B, CHR 0x7D), (CHR ''['', CHR '']'')} \<Longrightarrow>
    json_value (Suc n) (fst ends # w @ [snd ends])"
| value_object: "spaces w \<Longrightarrow> json_members n s \<Longrightarrow> json_value (Suc n) (CHR 0x7B # w @ s @ [CHR 0x7D])"
| value_array: "spaces w \<Longrightarrow> json_elements n s \<Longrightarrow> json_value (Suc n) (CHR ''['' # w @ s @ [CHR '']''])"
| members_last: "json_chars k \<Longrightarrow> spaces w1 \<Longrightarrow> spaces w2 \<Longrightarrow> spaces w3 \<Longrightarrow> json_value n v \<Longrightarrow>
    json_members n (CHR 0x22 # k @ CHR 0x22 # w1 @ CHR '':'' # w2 @ v @ w3)"
| members_more: "json_chars k \<Longrightarrow> spaces w1 \<Longrightarrow> spaces w2 \<Longrightarrow> spaces w3 \<Longrightarrow> spaces w4 \<Longrightarrow> json_value n v \<Longrightarrow> json_members n s \<Longrightarrow>
    json_members n (CHR 0x22 # k @ CHR 0x22 # w1 @ CHR '':'' # w2 @ v @ w3 @ CHR '','' # w4 @ s)"
| elements_last: "spaces w1 \<Longrightarrow> spaces w2 \<Longrightarrow> json_value n v \<Longrightarrow> json_elements n (w1 @ v @ w2)"
| elements_more: "spaces w1 \<Longrightarrow> spaces w2 \<Longrightarrow> json_value n v \<Longrightarrow> json_elements n s \<Longrightarrow> json_elements n (w1 @ v @ w2 @ CHR '','' # s)"

subsection \<open>Strings and numbers\<close>

lemma skip_ws_split: "\<exists>w. s = w @ json_skip_ws s \<and> spaces w"
  by (metis Ball_set json_skip_ws_def set_takeWhileD takeWhile_dropWhile_id)

lemma scan_body_sound:
  "scan_body s = Some (t, e, r) \<Longrightarrow> s = t @ CHR 0x22 # r \<and> json_chars t \<and> (e \<longleftrightarrow> CHR 0x5C \<in> set t)"
proof (induction s arbitrary: t e r rule: scan_body.induct)
  case (2 c s)
  consider (close) "c = CHR 0x22" | (escape) "c = CHR 0x5C" | (plain) "c \<noteq> CHR 0x22" "c \<noteq> CHR 0x5C"
    by blast
  then show ?case
  proof cases
    case close
    then show ?thesis using "2.prems" by (auto intro: json_chars.intros)
  next
    case escape
    obtain d u where s: "s = d # u"
      using "2.prems" escape by (cases s) auto
    show ?thesis
    proof (cases "d = CHR ''u''")
      case True
      then have four: "length u \<ge> 4" "list_all is_xdigit (take 4 u)"
        using "2.prems" escape s by (auto split: if_splits)
      obtain t' e' where rest: "scan_body (drop 4 u) = Some (t', e', r)" and t: "t = c # d # take 4 u @ t'" "e"
        using "2.prems" escape s True four by auto
      have "drop 4 u = t' @ CHR 0x22 # r \<and> json_chars t'"
        using "2.IH"(1) [OF _ _ escape s True _ rest] escape four by simp
      moreover from this have "u = take 4 u @ t' @ CHR 0x22 # r"
        by (metis append_take_drop_id)
      ultimately show ?thesis
        using t s escape True four chars_unicode [of "take 4 u" t'] by auto
    next
      case False
      then have d: "d \<in> set escape_chars"
        using "2.prems" escape s by (auto split: if_splits)
      obtain t' e' where rest: "scan_body u = Some (t', e', r)" and t: "t = c # d # t'" "e"
        using "2.prems" escape s False d by auto
      show ?thesis
        using "2.IH"(2) [OF _ _ escape s False d rest] escape s t d by (auto intro: json_chars.intros)
    qed
  next
    case plain
    then obtain t' where low: "\<not> (of_char c :: nat) < 0x20" and rest: "scan_body s = Some (t', e, r)" and t: "t = c # t'"
      using "2.prems" by (auto split: if_splits)
    show ?thesis
      using "2.IH"(3) [OF plain(1) low plain(2) rest] plain low t by (auto intro: json_chars.intros)
  qed
qed simp

lemma scan_body_complete: "json_chars t \<Longrightarrow> scan_body (t @ CHR 0x22 # r) = Some (t, CHR 0x5C \<in> set t, r)"
  by (induction t rule: json_chars.induct) (auto simp: escape_chars_def)

lemma scan_string_sound:
  "json_scan_string s = Some (k, e, r) \<Longrightarrow> s = CHR 0x22 # k @ CHR 0x22 # r \<and> json_chars k \<and> (e \<longleftrightarrow> CHR 0x5C \<in> set k)"
  using scan_body_sound by (auto simp: json_scan_string_def split: list.splits if_splits)

lemma scan_string_complete:
  "json_chars k \<Longrightarrow> json_scan_string (CHR 0x22 # k @ CHR 0x22 # r) = Some (k, CHR 0x5C \<in> set k, r)"
  by (simp add: json_scan_string_def scan_body_complete)

lemma skip_digits_split: "\<exists>ds. s = ds @ skip_digits s \<and> list_all is_digit ds"
  by (metis Ball_set set_takeWhileD skip_digits_def takeWhile_dropWhile_id)

lemma starts_digit_split: "starts_digit s \<Longrightarrow> \<exists>ds. s = ds @ skip_digits s \<and> some_digits ds"
proof -
  assume "starts_digit s"
  then obtain c t where s: "s = c # t" "is_digit c"
    by (auto simp: starts_digit_def split: list.splits)
  obtain ds where "t = ds @ skip_digits t" "list_all is_digit ds"
    using skip_digits_split by blast
  then show ?thesis
    using s by (intro exI [of _ "c # ds"]) (simp add: skip_digits_def some_digits_def)
qed

lemma skip_digits_append: "list_all is_digit ds \<Longrightarrow> \<not> starts_digit r \<Longrightarrow> skip_digits (ds @ r) = r"
  by (induction ds) (auto simp: skip_digits_def starts_digit_def split: list.splits)

lemma starts_digit_some: "some_digits ds \<Longrightarrow> starts_digit (ds @ r)"
  by (cases ds) (simp_all add: some_digits_def starts_digit_def)

lemma skip_integer_sound: "skip_integer s = Some r \<Longrightarrow> \<exists>i. s = i @ r \<and> json_integer i"
proof -
  assume skip: "skip_integer s = Some r"
  define sign where "sign = (if s \<noteq> [] \<and> hd s = CHR ''-'' then ''-'' else [])"
  define t where "t = (case s of [] \<Rightarrow> [] | c # t \<Rightarrow> if c = CHR ''-'' then t else s)"
  have s: "s = sign @ t" "sign \<in> {[], ''-''}"
    by (auto simp: sign_def t_def split: list.splits)
  obtain c u where t: "t = c # u"
    using skip by (cases t) (auto simp: skip_integer_def Let_def t_def)
  have "\<exists>i. t = i @ r \<and> (i = ''0'' \<or> (some_digits i \<and> hd i \<noteq> CHR ''0''))"
  proof (cases "c = CHR ''0''")
    case True
    then show ?thesis
      using skip t by (auto simp: skip_integer_def Let_def simp flip: t_def split: if_splits)
  next
    case False
    then have "is_digit c" "r = skip_digits u"
      using skip t by (auto simp: skip_integer_def Let_def simp flip: t_def split: if_splits)
    moreover obtain ds where "u = ds @ skip_digits u" "list_all is_digit ds"
      using skip_digits_split by blast
    ultimately show ?thesis
      using False t by (intro exI [of _ "c # ds"]) (auto simp: some_digits_def)
  qed
  then show ?thesis
    using s unfolding json_integer_def by (metis append.assoc)
qed

lemma skip_fraction_sound: "skip_fraction s = Some r \<Longrightarrow> \<exists>f. s = f @ r \<and> json_fraction f"
  using starts_digit_split
  by (auto simp: skip_fraction_def json_fraction_def split: list.splits if_splits) (metis append_Cons)+

lemma skip_exponent_sound: "skip_exponent s = Some r \<Longrightarrow> \<exists>e. s = e @ r \<and> json_exponent e"
proof -
  assume skip: "skip_exponent s = Some r"
  show ?thesis
  proof (cases "s \<noteq> [] \<and> hd s \<in> {CHR ''e'', CHR ''E''}")
    case True
    then obtain c t where s: "s = c # t" "c \<in> {CHR ''e'', CHR ''E''}"
      by (cases s) auto
    define u where "u = (case t of [] \<Rightarrow> [] | d # u \<Rightarrow> if d = CHR ''+'' \<or> d = CHR ''-'' then u else t)"
    have "\<exists>sign. t = sign @ u \<and> sign \<in> {[], ''+'', ''-''}"
      by (auto simp: u_def split: list.splits)
    moreover have "starts_digit u" "r = skip_digits u"
      using skip s by (auto simp: skip_exponent_def Let_def simp flip: u_def split: if_splits)
    moreover from this obtain ds where "u = ds @ r" "some_digits ds"
      using starts_digit_split by blast
    ultimately show ?thesis
      using s unfolding json_exponent_def by (metis append.assoc append_Cons)
  next
    case False
    then have "r = s"
      using skip by (auto simp: skip_exponent_def split: list.splits if_splits)
    then show ?thesis by (auto simp: json_exponent_def)
  qed
qed

lemma skip_number_sound: "skip_number s = Some r \<Longrightarrow> \<exists>n. s = n @ r \<and> json_number n"
  using skip_integer_sound skip_fraction_sound skip_exponent_sound unfolding skip_number_def json_number_def
  by (fastforce split: option.splits)

text \<open>What may follow a value: nothing that a number could still take.\<close>

definition delimited :: "string \<Rightarrow> bool" where
  "delimited r \<longleftrightarrow> (\<forall>c t. r = c # t \<longrightarrow> \<not> is_digit c \<and> c \<notin> {CHR ''.'', CHR ''e'', CHR ''E''})"

lemma not_digits [simp]: "\<not> is_digit CHR ''.''" "\<not> is_digit CHR ''e''" "\<not> is_digit CHR ''E''"
  by (simp_all add: is_digit_def)

lemma is_digit_not: "is_digit c \<Longrightarrow> c \<notin> {CHR ''.'', CHR ''e'', CHR ''E'', CHR ''+'', CHR ''-'', CHR 0x22, CHR 0x7B, CHR ''['', CHR ''t'', CHR ''f'', CHR ''n''}"
  by (auto simp: is_digit_def)

lemma delimited_no_digit: "delimited r \<Longrightarrow> \<not> starts_digit r"
  by (auto simp: delimited_def starts_digit_def split: list.splits)

lemma skip_exponent_complete: "json_exponent e \<Longrightarrow> delimited r \<Longrightarrow> skip_exponent (e @ r) = Some r"
  unfolding json_exponent_def
proof (elim disjE exE conjE)
  fix x sign ds
  assume d: "delimited r" and e: "e = x # sign @ ds" "x \<in> {CHR ''e'', CHR ''E''}" "sign \<in> {[], ''+'', ''-''}" "some_digits ds"
  obtain c cs where ds: "ds = c # cs" "is_digit c"
    using e(4) by (cases ds) (auto simp: some_digits_def)
  show ?thesis
    using e ds is_digit_not [OF ds(2)] starts_digit_some [OF e(4), of r] skip_digits_append [of ds r] delimited_no_digit [OF d]
    by (auto simp: skip_exponent_def Let_def some_digits_def)
qed (auto simp: skip_exponent_def delimited_def split: list.splits)

lemma skip_fraction_complete:
  assumes "json_fraction f" "json_exponent e" "delimited r"
  shows "skip_fraction (f @ e @ r) = Some (e @ r)"
proof -
  have nd: "\<not> starts_digit (e @ r)"
    using assms(2) delimited_no_digit [OF assms(3)]
    by (auto simp: json_exponent_def starts_digit_def split: list.splits)
  have stop: "e @ r = [] \<or> hd (e @ r) \<noteq> CHR ''.''"
    using assms(2,3) by (cases r) (auto simp: json_exponent_def delimited_def)
  consider "f = []" | ds where "f = CHR ''.'' # ds" "some_digits ds"
    using assms(1) by (auto simp: json_fraction_def)
  then show ?thesis
  proof cases
    case 1
    then show ?thesis using stop by (auto simp: skip_fraction_def split: list.splits)
  next
    case 2
    then show ?thesis
      using starts_digit_some [of ds "e @ r"] skip_digits_append [of ds "e @ r"] nd
      by (simp add: skip_fraction_def some_digits_def)
  qed
qed

lemma skip_integer_complete:
  assumes "json_integer i" "\<not> starts_digit r"
  shows "skip_integer (i @ r) = Some r"
proof -
  obtain sign k where i: "i = sign @ k" "sign \<in> {[], ''-''}" "k = ''0'' \<or> (some_digits k \<and> hd k \<noteq> CHR ''0'')"
    using assms(1) by (auto simp: json_integer_def)
  obtain c ds where k: "k = c # ds" "is_digit c" "list_all is_digit ds"
    using i(3) by (cases k) (auto simp: some_digits_def is_digit_def)
  have "c \<noteq> CHR ''-''" using is_digit_not [OF k(2)] by simp
  then have "skip_integer (i @ r) = (if c = CHR ''0'' then if starts_digit (ds @ r) then None else Some (ds @ r) else Some (skip_digits (ds @ r)))"
    using i(1,2) k by (auto simp: skip_integer_def)
  also have "\<dots> = Some r"
    using i(3) k assms(2) skip_digits_append [OF k(3) assms(2)] by auto
  finally show ?thesis .
qed

lemma skip_number_complete: "json_number n \<Longrightarrow> delimited r \<Longrightarrow> skip_number (n @ r) = Some r"
proof -
  assume "json_number n" and d: "delimited r"
  then obtain i f e where n: "n = i @ f @ e" "json_integer i" "json_fraction f" "json_exponent e"
    by (auto simp: json_number_def)
  have "\<not> starts_digit (f @ e @ r)"
    using n(3,4) delimited_no_digit [OF d]
    by (auto simp: json_fraction_def json_exponent_def starts_digit_def split: list.splits)
  then show ?thesis
    using n skip_integer_complete [OF n(2)] skip_fraction_complete [OF n(3,4) d] skip_exponent_complete [OF n(4) d]
    by (simp add: skip_number_def)
qed

subsection \<open>Values\<close>

lemma scan_value:
  assumes "(c :: char) = CHR 0x22" "map_option (\<lambda>(_, _, r). r) (json_scan_string (c # t)) = Some r"
  shows "\<exists>k. c # t = (CHR 0x22 # k @ [CHR 0x22]) @ r \<and> json_chars k"
  using assms scan_string_sound [of "c # t"] by fastforce

lemma skip_word:
  assumes "starts_with s word"
  shows "s = word @ drop (length word) s"
  using assms by (metis append_take_drop_id starts_with_def)

lemma word_step:
  assumes "(if starts_with s ''true'' then Some (drop 4 s) else if starts_with s ''false'' then Some (drop 5 s)
    else if starts_with s ''null'' then Some (drop 4 s) else skip_number s) = Some r"
  shows "\<exists>v. s = v @ r \<and> json_value (Suc n) v"
proof -
  have word: ?thesis if "word \<in> {''true'', ''false'', ''null''}" "starts_with s word" "r = drop (length word) s" for word
    using skip_word [OF that(2)] value_word [OF that(1), of n] that(3) by metis
  consider "starts_with s ''true''" | "\<not> starts_with s ''true''" "starts_with s ''false''"
    | "\<not> starts_with s ''true''" "\<not> starts_with s ''false''" "starts_with s ''null''"
    | "\<not> starts_with s ''true''" "\<not> starts_with s ''false''" "\<not> starts_with s ''null''"
    by blast
  then show ?thesis
  proof cases
    case 1
    then show ?thesis using assms by (intro word [of "''true''"]) (simp_all add: eval_nat_numeral)
  next
    case 2
    then show ?thesis using assms by (intro word [of "''false''"]) (simp_all add: eval_nat_numeral)
  next
    case 3
    then show ?thesis using assms by (intro word [of "''null''"]) (simp_all add: eval_nat_numeral)
  next
    case 4
    then have "skip_number s = Some r" using assms by simp
    then show ?thesis using skip_number_sound value_number by metis
  qed
qed

text \<open>What each of the three scanners has consumed when it succeeds.\<close>

definition took_value :: "nat \<Rightarrow> string \<Rightarrow> string \<Rightarrow> bool" where
  "took_value n s r \<longleftrightarrow> (\<exists>w v. s = w @ v @ r \<and> spaces w \<and> json_value n v)"

definition took_members :: "nat \<Rightarrow> string \<Rightarrow> string \<Rightarrow> bool" where
  "took_members n s r \<longleftrightarrow> (\<exists>b. s = b @ CHR 0x7D # r \<and> json_members n b)"

definition took_elements :: "nat \<Rightarrow> string \<Rightarrow> string \<Rightarrow> bool" where
  "took_elements n s r \<longleftrightarrow> (\<exists>b. s = b @ CHR '']'' # r \<and> json_elements n b)"

lemma object_step:
  assumes "(case json_skip_ws t of [] \<Rightarrow> None | d # u \<Rightarrow> if d = CHR 0x7D then Some u else members (d # u)) = Some r"
    and "\<And>s. members s = Some r \<Longrightarrow> took_members n s r"
  shows "\<exists>v. CHR 0x7B # t = v @ r \<and> json_value (Suc n) v"
proof -
  obtain w where w: "t = w @ json_skip_ws t" "spaces w"
    using skip_ws_split by blast
  obtain e u where u: "json_skip_ws t = e # u"
    using assms(1) by (cases "json_skip_ws t") auto
  show ?thesis
  proof (cases "e = CHR 0x7D")
    case True
    then show ?thesis
      using assms(1) value_empty [OF w(2), of "(CHR 0x7B, CHR 0x7D)" n] w u by force
  next
    case False
    then obtain b where "e # u = b @ CHR 0x7D # r" "json_members n b"
      using assms u by (auto simp: took_members_def)
    then show ?thesis
      using value_object [OF w(2), of n b] w u by force
  qed
qed

lemma array_step:
  assumes "(case json_skip_ws t of [] \<Rightarrow> None | d # u \<Rightarrow> if d = CHR '']'' then Some u else elements (d # u)) = Some r"
    and "\<And>s. elements s = Some r \<Longrightarrow> took_elements n s r"
  shows "\<exists>v. CHR ''['' # t = v @ r \<and> json_value (Suc n) v"
proof -
  obtain w where w: "t = w @ json_skip_ws t" "spaces w"
    using skip_ws_split by blast
  obtain e u where u: "json_skip_ws t = e # u"
    using assms(1) by (cases "json_skip_ws t") auto
  show ?thesis
  proof (cases "e = CHR '']''")
    case True
    then show ?thesis
      using assms(1) value_empty [OF w(2), of "(CHR ''['', CHR '']'')" n] w u by force
  next
    case False
    then obtain b where "e # u = b @ CHR '']'' # r" "json_elements n b"
      using assms u by (auto simp: took_elements_def)
    then show ?thesis
      using value_array [OF w(2), of n b] w u by force
  qed
qed

lemma value_step:
  assumes run: "skip_value (Suc f) d s = Some r"
    and "\<And>s. skip_members f d s = Some r \<Longrightarrow> took_members n s r"
    and "\<And>s. skip_elements f d s = Some r \<Longrightarrow> took_elements n s r"
  shows "d \<le> 64 \<and> took_value (Suc n) s r"
proof -
  have depth: "d \<le> 64" using run by (auto split: if_splits)
  obtain w where w: "s = w @ json_skip_ws s" "spaces w"
    using skip_ws_split by blast
  obtain c t where t: "json_skip_ws s = c # t"
    using run depth by (cases "json_skip_ws s") auto
  consider "c = CHR 0x22" | "c = CHR 0x7B" | "c = CHR ''[''" | "c \<notin> {CHR 0x22, CHR 0x7B, CHR ''[''}"
    by blast
  then have "\<exists>v. c # t = v @ r \<and> json_value (Suc n) v"
  proof cases
    case 1
    then show ?thesis using run depth t scan_value [of c t r] value_string by auto
  next
    case 2
    then show ?thesis using run depth t object_step [where members = "skip_members f d" and t = t and r = r and n = n] assms(2) by simp
  next
    case 3
    then show ?thesis using run depth t array_step [where elements = "skip_elements f d" and t = t and r = r and n = n] assms(3) by simp
  next
    case 4
    then show ?thesis using run depth t by (intro word_step) simp
  qed
  then show ?thesis using depth w t by (metis took_value_def)
qed

lemma members_step:
  assumes run: "skip_members (Suc f) d s = Some r"
    and inner: "\<And>s r. skip_value f (Suc d) s = Some r \<Longrightarrow> took_value n s r"
    and more: "\<And>s. skip_members f d s = Some r \<Longrightarrow> took_members n s r"
  shows "took_members n s r"
proof -
  obtain k e s1 s2 s3 c s4 where k: "json_scan_string s = Some (k, e, s1)" and s2: "json_skip_ws s1 = CHR '':'' # s2"
    and v: "skip_value f (Suc d) s2 = Some s3" and s4: "json_skip_ws s3 = c # s4"
    and stop: "c = CHR 0x7D \<and> r = s4 \<or> c = CHR '','' \<and> skip_members f d (json_skip_ws s4) = Some r"
    using run by (auto split: option.splits list.splits if_splits)
  obtain w1 w3 w4 where ws: "s1 = w1 @ CHR '':'' # s2" "spaces w1" "s3 = w3 @ c # s4" "spaces w3"
    "s4 = w4 @ json_skip_ws s4" "spaces w4"
    using skip_ws_split [of s1] skip_ws_split [of s3] skip_ws_split [of s4] s2 s4 by auto
  obtain w2 x where x: "s2 = w2 @ x @ s3" "spaces w2" "json_value n x"
    using inner [OF v] by (auto simp: took_value_def)
  have s: "s = CHR 0x22 # k @ CHR 0x22 # w1 @ CHR '':'' # w2 @ x @ w3 @ c # s4" and chars: "json_chars k"
    using scan_string_sound [OF k] ws x by auto
  from stop show ?thesis
  proof
    assume "c = CHR 0x7D \<and> r = s4"
    then show ?thesis
      using members_last [OF chars ws(2) x(2) ws(4) x(3)] s unfolding took_members_def
      by (intro exI [of _ "CHR 0x22 # k @ CHR 0x22 # w1 @ CHR '':'' # w2 @ x @ w3"]) simp
  next
    assume c: "c = CHR '','' \<and> skip_members f d (json_skip_ws s4) = Some r"
    then obtain b where b: "json_skip_ws s4 = b @ CHR 0x7D # r" "json_members n b"
      using more by (auto simp: took_members_def)
    then show ?thesis
      using members_more [OF chars ws(2) x(2) ws(4,6) x(3) b(2)] s ws(5) c unfolding took_members_def
      by (intro exI [of _ "CHR 0x22 # k @ CHR 0x22 # w1 @ CHR '':'' # w2 @ x @ w3 @ CHR '','' # w4 @ b"]) simp
  qed
qed

lemma elements_step:
  assumes run: "skip_elements (Suc f) d s = Some r"
    and inner: "\<And>s r. skip_value f (Suc d) s = Some r \<Longrightarrow> took_value n s r"
    and more: "\<And>s. skip_elements f d s = Some r \<Longrightarrow> took_elements n s r"
  shows "took_elements n s r"
proof -
  obtain s1 c s2 where v: "skip_value f (Suc d) s = Some s1" and s2: "json_skip_ws s1 = c # s2"
    and stop: "c = CHR '']'' \<and> r = s2 \<or> c = CHR '','' \<and> skip_elements f d s2 = Some r"
    using run by (auto split: option.splits list.splits if_splits)
  obtain w2 where w2: "s1 = w2 @ c # s2" "spaces w2"
    using skip_ws_split [of s1] s2 by auto
  obtain w1 x where x: "s = w1 @ x @ s1" "spaces w1" "json_value n x"
    using inner [OF v] by (auto simp: took_value_def)
  from stop show ?thesis
  proof
    assume "c = CHR '']'' \<and> r = s2"
    then show ?thesis
      using elements_last [OF x(2) w2(2) x(3)] x(1) w2(1) unfolding took_elements_def by (intro exI [of _ "w1 @ x @ w2"]) simp
  next
    assume c: "c = CHR '','' \<and> skip_elements f d s2 = Some r"
    then obtain b where b: "s2 = b @ CHR '']'' # r" "json_elements n b"
      using more by (auto simp: took_elements_def)
    then show ?thesis
      using elements_more [OF x(2) w2(2) x(3) b(2)] x(1) w2(1) c unfolding took_elements_def
      by (intro exI [of _ "w1 @ x @ w2 @ CHR '','' # b"]) simp
  qed
qed

text \<open>Whatever is skipped is a value of the grammar, nested no deeper than 65 levels.\<close>

lemma skip_sound:
  "(skip_value f d s = Some r \<longrightarrow> d \<le> 64 \<and> took_value (Suc (64 - d)) s r) \<and>
   (skip_members f d s = Some r \<longrightarrow> took_members (64 - d) s r) \<and> (skip_elements f d s = Some r \<longrightarrow> took_elements (64 - d) s r)"
proof (induction f arbitrary: d s r)
  case (Suc f)
  have inner: "took_value (64 - d) s r" if "skip_value f (Suc d) s = Some r" for d s r
  proof -
    have "Suc d \<le> 64" "took_value (Suc (64 - Suc d)) s r"
      using Suc.IH [of "Suc d" s r] that by blast+
    moreover from this(1) have "Suc (64 - Suc d) = 64 - d" by linarith
    ultimately show ?thesis by simp
  qed
  show ?case
    using value_step [of f d s r "64 - d"] members_step [OF _ inner, of f d s r] elements_step [OF _ inner, of f d s r] Suc.IH
    by blast
qed simp

subsection \<open>The fuel is enough\<close>

declare skip_value.simps [simp del] skip_members.simps [simp del] skip_elements.simps [simp del]

lemma skip_ws_length: "length (json_skip_ws s) \<le> length s"
  by (simp add: json_skip_ws_def length_dropWhile_le)

lemma skip_ws_Cons_length: "json_skip_ws s = c # t \<Longrightarrow> length t < length s"
  using skip_ws_length [of s] by simp

lemma scan_string_length: "json_scan_string s = Some (k, e, r) \<Longrightarrow> length r + 2 \<le> length s"
  by (auto dest!: scan_string_sound)

lemma skip_value_length: "skip_value f d s = Some r \<Longrightarrow> length r \<le> length s"
  using skip_sound [of f d s r] by (auto simp: took_value_def)

lemma value_more_fuel:
  assumes "2 * length s < Suc f"
    and "\<And>t. 2 * length t + 1 < f \<Longrightarrow> skip_members f d t = skip_members (Suc f) d t"
    and "\<And>t. 2 * length t + 1 < f \<Longrightarrow> skip_elements f d t = skip_elements (Suc f) d t"
  shows "skip_value (Suc f) d s = skip_value (Suc (Suc f)) d s"
proof (cases "json_skip_ws s")
  case (Cons c t)
  have "2 * length (json_skip_ws t) + 1 < f"
    using assms(1) skip_ws_Cons_length [OF Cons] skip_ws_length [of t] by linarith
  then show ?thesis
    using assms(2,3) [of "json_skip_ws t"] Cons
    unfolding skip_value.simps(2) [of f d s] skip_value.simps(2) [of "Suc f" d s] by (auto split: list.split)
qed (simp add: skip_value.simps)

lemma members_more_fuel:
  assumes bound: "2 * length s + 1 < Suc f"
    and inner: "\<And>t. 2 * length t < f \<Longrightarrow> skip_value f (Suc d) t = skip_value (Suc f) (Suc d) t"
    and more: "\<And>t. 2 * length t + 1 < f \<Longrightarrow> skip_members f d t = skip_members (Suc f) d t"
  shows "skip_members (Suc f) d s = skip_members (Suc (Suc f)) d s"
proof (cases "json_scan_string s")
  case (Some k)
  then obtain key e s1 where k: "json_scan_string s = Some (key, e, s1)" by (cases k) auto
  note l1 = scan_string_length [OF k]
  show ?thesis
  proof (cases "json_skip_ws s1")
    case (Cons c s2)
    note l2 = skip_ws_Cons_length [OF Cons]
    have same: "skip_value f (Suc d) s2 = skip_value (Suc f) (Suc d) s2"
      using bound l1 l2 by (intro inner) linarith
    have again: "skip_members f d (json_skip_ws s4) = skip_members (Suc f) d (json_skip_ws s4)"
      if "skip_value f (Suc d) s2 = Some s3" "json_skip_ws s3 = x # s4" for s3 x s4
      using bound l1 l2 skip_value_length [OF that(1)] skip_ws_Cons_length [OF that(2)] skip_ws_length [of s4]
      by (intro more) linarith
    show ?thesis
      using k Cons same again unfolding skip_members.simps(2) [of f d s] skip_members.simps(2) [of "Suc f" d s]
      by (auto split: option.split list.split)
  qed (simp add: k skip_members.simps)
qed (simp add: skip_members.simps)

lemma elements_more_fuel:
  assumes bound: "2 * length s + 1 < Suc f"
    and inner: "\<And>t. 2 * length t < f \<Longrightarrow> skip_value f (Suc d) t = skip_value (Suc f) (Suc d) t"
    and more: "\<And>t. 2 * length t + 1 < f \<Longrightarrow> skip_elements f d t = skip_elements (Suc f) d t"
  shows "skip_elements (Suc f) d s = skip_elements (Suc (Suc f)) d s"
proof -
  have same: "skip_value f (Suc d) s = skip_value (Suc f) (Suc d) s"
    using bound by (intro inner) linarith
  have again: "skip_elements f d s2 = skip_elements (Suc f) d s2"
    if "skip_value f (Suc d) s = Some s1" "json_skip_ws s1 = x # s2" for s1 x s2
    using bound skip_value_length [OF that(1)] skip_ws_Cons_length [OF that(2)] by (intro more) linarith
  show ?thesis
    using same again unfolding skip_elements.simps(2) [of f d s] skip_elements.simps(2) [of "Suc f" d s]
    by (auto split: option.split list.split)
qed

lemma skip_more_fuel:
  "(2 * length s < f \<longrightarrow> skip_value f d s = skip_value (Suc f) d s) \<and>
   (2 * length s + 1 < f \<longrightarrow> skip_members f d s = skip_members (Suc f) d s) \<and>
   (2 * length s + 1 < f \<longrightarrow> skip_elements f d s = skip_elements (Suc f) d s)"
proof (induction f arbitrary: d s)
  case (Suc f)
  show ?case
    using value_more_fuel [of s f d] members_more_fuel [of s f d] elements_more_fuel [of s f d] Suc.IH by blast
qed simp

lemma settled: "(\<And>f. b < f \<Longrightarrow> g f = g (Suc f)) \<Longrightarrow> b < f \<Longrightarrow> b < f' \<Longrightarrow> g f = (g f' :: 'a)" for b f f' :: nat
proof -
  assume step: "\<And>f. b < f \<Longrightarrow> g f = g (Suc f)"
  have "g (Suc b + n) = g (Suc b)" for n
    by (induction n) (simp_all flip: step)
  moreover assume "b < f" "b < f'"
  ultimately show ?thesis by (metis le_add_diff_inverse Suc_leI)
qed

lemma skip_value_fuel: "2 * length s < f \<Longrightarrow> skip_value f d s = json_skip_value d s"
  unfolding json_skip_value_def json_fuel_def
  by (rule settled [where b = "2 * length s"]) (use skip_more_fuel in blast, simp_all)

text \<open>The two loops with their own fuel, and the recursion equations of the C text, free of it.\<close>

definition json_skip_members :: "nat \<Rightarrow> string \<Rightarrow> string option" where
  "json_skip_members depth s = skip_members (json_fuel s) depth s"

definition json_skip_elements :: "nat \<Rightarrow> string \<Rightarrow> string option" where
  "json_skip_elements depth s = skip_elements (json_fuel s) depth s"

lemma skip_members_fuel: "2 * length s + 1 < f \<Longrightarrow> skip_members f d s = json_skip_members d s"
  unfolding json_skip_members_def json_fuel_def
  by (rule settled [where b = "2 * length s + 1"]) (use skip_more_fuel in blast, simp_all)

lemma skip_elements_fuel: "2 * length s + 1 < f \<Longrightarrow> skip_elements f d s = json_skip_elements d s"
  unfolding json_skip_elements_def json_fuel_def
  by (rule settled [where b = "2 * length s + 1"]) (use skip_more_fuel in blast, simp_all)

lemma json_skip_value_unfold:
  "json_skip_value d s =
     (if d > 64 then None
      else case json_skip_ws s of
             [] \<Rightarrow> None
           | c # t \<Rightarrow>
               if c = CHR 0x22 then map_option (\<lambda>(_, _, r). r) (json_scan_string (c # t))
               else if c = CHR 0x7B
               then (case json_skip_ws t of
                       [] \<Rightarrow> None
                     | e # u \<Rightarrow> if e = CHR 0x7D then Some u else json_skip_members d (e # u))
               else if c = CHR ''[''
               then (case json_skip_ws t of
                       [] \<Rightarrow> None
                     | e # u \<Rightarrow> if e = CHR '']'' then Some u else json_skip_elements d (e # u))
               else if starts_with (c # t) ''true'' then Some (drop 4 (c # t))
               else if starts_with (c # t) ''false'' then Some (drop 5 (c # t))
               else if starts_with (c # t) ''null'' then Some (drop 4 (c # t))
               else skip_number (c # t))"
proof -
  have fuel: "json_fuel s = Suc (Suc (2 * length s))" by (simp add: json_fuel_def)
  have len: "2 * length (json_skip_ws t) + 1 < Suc (2 * length s)" if "json_skip_ws s = c # t" for c t
    using skip_ws_Cons_length [OF that] skip_ws_length [of t] by linarith
  show ?thesis
    unfolding json_skip_value_def [of d s] fuel skip_value.simps(2) [of "Suc (2 * length s)" d s]
    using skip_members_fuel [OF len] skip_elements_fuel [OF len] by (auto split: list.split)
qed

lemma json_skip_members_unfold:
  "json_skip_members d s =
     (case json_scan_string s of
        None \<Rightarrow> None
      | Some (_, _, s) \<Rightarrow>
          (case json_skip_ws s of
             [] \<Rightarrow> None
           | c # s \<Rightarrow>
               if c \<noteq> CHR '':'' then None
               else (case json_skip_value (Suc d) s of
                       None \<Rightarrow> None
                     | Some s \<Rightarrow>
                         (case json_skip_ws s of
                            [] \<Rightarrow> None
                          | c # s \<Rightarrow>
                              if c = CHR 0x7D then Some s
                              else if c = CHR '','' then json_skip_members d (json_skip_ws s)
                              else None))))"
proof -
  let ?f = "Suc (2 * length s)"
  have fuel: "json_fuel s = Suc ?f" by (simp add: json_fuel_def)
  have inner: "skip_value ?f (Suc d) s2 = json_skip_value (Suc d) s2"
    if "json_scan_string s = Some (k, e, s1)" "json_skip_ws s1 = c # s2" for k e s1 c s2
    using scan_string_length [OF that(1)] skip_ws_Cons_length [OF that(2)] by (intro skip_value_fuel) linarith
  have more: "skip_members ?f d (json_skip_ws s4) = json_skip_members d (json_skip_ws s4)"
    if "json_scan_string s = Some (k, e, s1)" "json_skip_ws s1 = c # s2" "json_skip_value (Suc d) s2 = Some s3"
      "json_skip_ws s3 = x # s4" for k e s1 c s2 s3 x s4
    using scan_string_length [OF that(1)] skip_ws_Cons_length [OF that(2)] skip_ws_Cons_length [OF that(4)]
      skip_value_length [OF that(3) [unfolded json_skip_value_def]] skip_ws_length [of s4]
    by (intro skip_members_fuel) linarith
  show ?thesis
    unfolding json_skip_members_def [of d s] fuel skip_members.simps(2) [of "Suc (2 * length s)" d s]
    using inner more by (auto split: option.split list.split)
qed

lemma json_skip_elements_unfold:
  "json_skip_elements d s =
     (case json_skip_value (Suc d) s of
        None \<Rightarrow> None
      | Some s \<Rightarrow>
          (case json_skip_ws s of
             [] \<Rightarrow> None
           | c # s \<Rightarrow>
               if c = CHR '']'' then Some s
               else if c = CHR '','' then json_skip_elements d s
               else None))"
proof -
  let ?f = "Suc (2 * length s)"
  have fuel: "json_fuel s = Suc ?f" by (simp add: json_fuel_def)
  have inner: "skip_value ?f (Suc d) s = json_skip_value (Suc d) s"
    by (intro skip_value_fuel) simp
  have more: "skip_elements ?f d s2 = json_skip_elements d s2"
    if "json_skip_value (Suc d) s = Some s1" "json_skip_ws s1 = x # s2" for s1 x s2
    using skip_value_length [OF that(1) [unfolded json_skip_value_def]] skip_ws_Cons_length [OF that(2)]
    by (intro skip_elements_fuel) linarith
  show ?thesis
    unfolding json_skip_elements_def [of d s] fuel skip_elements.simps(2) [of "Suc (2 * length s)" d s]
    using inner more by (auto split: option.split list.split)
qed

subsection \<open>Every value of the grammar is skipped\<close>

lemma not_space [simp]: "\<not> is_space CHR 0x22" "\<not> is_space CHR 0x7B" "\<not> is_space CHR 0x7D" "\<not> is_space CHR ''[''"
  "\<not> is_space CHR '']''" "\<not> is_space CHR '':''" "\<not> is_space CHR '',''" "\<not> is_space CHR ''-''"
  "\<not> is_space CHR ''t''" "\<not> is_space CHR ''f''" "\<not> is_space CHR ''n''"
  by (simp_all add: is_space_def)

lemma digit_not_space: "is_digit c \<Longrightarrow> \<not> is_space c"
  by (auto simp: is_digit_def is_space_def)

lemma skip_ws_append [simp]: "spaces w \<Longrightarrow> json_skip_ws (w @ s) = json_skip_ws s"
  by (induction w) (simp_all add: json_skip_ws_def)

lemma skip_ws_Cons [simp]: "\<not> is_space c \<Longrightarrow> json_skip_ws (c # s) = c # s"
  by (simp add: json_skip_ws_def)

lemma skip_ws_idem [simp]: "json_skip_ws (json_skip_ws s) = json_skip_ws s"
  by (simp add: json_skip_ws_def)

lemma skip_ws_Nil [simp]: "json_skip_ws [] = []"
  by (simp add: json_skip_ws_def)

lemma skip_value_spaces [simp]: "spaces w \<Longrightarrow> json_skip_value d (w @ s) = json_skip_value d s"
  by (simp add: json_skip_value_unfold)

lemma skip_elements_spaces [simp]: "spaces w \<Longrightarrow> json_skip_elements d (w @ s) = json_skip_elements d s"
  by (simp add: json_skip_elements_unfold [of _ "w @ s"] json_skip_elements_unfold [of _ s])

definition stops :: "string \<Rightarrow> bool" where
  "stops r \<longleftrightarrow> (\<exists>w c t. r = w @ c # t \<and> spaces w \<and> c \<in> {CHR '','', CHR 0x7D, CHR '']''})"

lemma stops_delimited: "stops r \<Longrightarrow> delimited r"
proof -
  assume "stops r"
  then obtain w c t where r: "r = w @ c # t" "spaces w" "c \<in> {CHR '','', CHR 0x7D, CHR '']''}"
    by (auto simp: stops_def)
  then show ?thesis
    by (cases w) (auto simp: delimited_def is_space_def is_digit_def)
qed

lemma number_head: "json_number s \<Longrightarrow> \<exists>c t. s = c # t \<and> (is_digit c \<or> c = CHR ''-'')"
proof -
  assume "json_number s"
  then obtain i f where s: "s = i @ f" "json_integer i" by (auto simp: json_number_def)
  then obtain sign k where i: "i = sign @ k" "sign \<in> {[], ''-''}" "k = ''0'' \<or> some_digits k" by (auto simp: json_integer_def)
  obtain c ds where "k = c # ds" "is_digit c"
    using i(3) by (cases k) (auto simp: some_digits_def is_digit_def)
  then show ?thesis using s(1) i(1,2) by auto
qed

lemma value_head:
  assumes "json_value n v"
  shows "\<exists>c t. v = c # t \<and> \<not> is_space c \<and> c \<noteq> CHR '']''"
  using assms
proof (cases rule: json_value.cases)
  case (value_number m)
  then obtain c t where "v = c # t" "is_digit c \<or> c = CHR ''-''" using number_head by blast
  moreover from this(2) have "\<not> is_space c" "c \<noteq> CHR '']''" using digit_not_space by (auto simp: is_digit_def)
  ultimately show ?thesis by blast
next
  case (value_word m)
  then show ?thesis by (elim insertE) simp_all
next
  case (value_empty w ends m)
  then show ?thesis by (elim insertE) simp_all
qed simp_all

lemma members_head: "json_members n v \<Longrightarrow> \<exists>t. v = CHR 0x22 # t"
  by (erule json_members.cases) auto

lemma elements_head:
  assumes "json_elements n v"
  shows "\<exists>w c t. v = w @ c # t \<and> spaces w \<and> \<not> is_space c \<and> c \<noteq> CHR '']''"
  using assms by (cases rule: json_elements.cases) (force dest!: value_head)+

lemma skip_word_complete:
  assumes "v \<in> {''true'', ''false'', ''null''}" "d \<le> 64"
  shows "json_skip_value d (v @ r) = Some r"
  using assms by (auto simp: json_skip_value_unfold starts_with_def)

lemma skip_number_value:
  assumes "json_number v" "d \<le> 64" "delimited r"
  shows "json_skip_value d (v @ r) = Some r"
proof -
  obtain c t where v: "v = c # t" "is_digit c \<or> c = CHR ''-''"
    using number_head [OF assms(1)] by blast
  have head: "\<not> is_space c" "c \<notin> {CHR 0x22, CHR 0x7B, CHR ''['', CHR ''t'', CHR ''f'', CHR ''n''}"
    using v(2) digit_not_space is_digit_not by auto
  then have "json_skip_value d (v @ r) = skip_number (v @ r)"
    using assms(2) v(1) by (simp add: json_skip_value_unfold starts_with_def)
  then show ?thesis using skip_number_complete [OF assms(1,3)] by simp
qed

lemma skip_complete:
  "json_value n v \<Longrightarrow> \<forall>d r. d + n \<le> 65 \<longrightarrow> delimited r \<longrightarrow> json_skip_value d (v @ r) = Some r"
  "json_members n s \<Longrightarrow> \<forall>d r. d + n \<le> 64 \<longrightarrow> json_skip_members d (s @ CHR 0x7D # r) = Some r"
  "json_elements n s \<Longrightarrow> \<forall>d r. d + n \<le> 64 \<longrightarrow> json_skip_elements d (s @ CHR '']'' # r) = Some r"
proof (induction rule: json_value_json_members_json_elements.inducts)
  case (value_string s n)
  then show ?case by (simp add: json_skip_value_unfold scan_string_complete)
next
  case (value_word s n)
  then show ?case using skip_word_complete by simp
next
  case (value_number s n)
  then show ?case using skip_number_value by simp
next
  case (value_empty w ends n)
  then show ?case by (auto simp: json_skip_value_unfold)
next
  case (value_object w n s)
  then show ?case
    using members_head [OF value_object(2)] by (auto simp: json_skip_value_unfold)
next
  case (value_array w n s)
  then show ?case
    using elements_head [OF value_array(2)] by (auto simp: json_skip_value_unfold)
next
  case (members_last k w1 w2 w3 n v)
  have "delimited (w3 @ CHR 0x7D # r)" for r
    using members_last by (intro stops_delimited) (auto simp: stops_def)
  then show ?case
    using members_last by (simp add: json_skip_members_unfold [of _ "CHR 0x22 # _"] scan_string_complete)
next
  case (members_more k w1 w2 w3 w4 n v s)
  have "delimited (w3 @ CHR '','' # r)" for r
    using members_more by (intro stops_delimited) (auto simp: stops_def)
  then show ?case
    using members_more members_head [OF members_more(7)]
    by (auto simp: json_skip_members_unfold [of _ "CHR 0x22 # k @ _"] scan_string_complete)
next
  case (elements_last w1 w2 n v)
  have "delimited (w2 @ CHR '']'' # r)" for r
    using elements_last by (intro stops_delimited) (auto simp: stops_def)
  then show ?case
    using elements_last by (simp add: json_skip_elements_unfold [of _ "v @ _"])
next
  case (elements_more w1 w2 n v s)
  have "delimited (w2 @ CHR '','' # r)" for r
    using elements_more by (intro stops_delimited) (auto simp: stops_def)
  then show ?case
    using elements_more by (simp add: json_skip_elements_unfold [of _ "v @ _"])
qed

subsection \<open>The field that is read\<close>

text \<open>What the number token of the shared library does on a text that starts with a digit.\<close>

definition reads_decimal :: "common \<Rightarrow> bool" where
  "reads_decimal C \<longleftrightarrow> (\<forall>s. starts_digit s \<longrightarrow> parse_u64_token C s 10 = decimal_token s 10)"

definition json_decimal :: "nat \<Rightarrow> string \<Rightarrow> bool" where
  "json_decimal n ds \<longleftrightarrow> some_digits ds \<and> (hd ds = CHR ''0'' \<longrightarrow> ds = ''0'') \<and> nat_of_digits ds = n \<and> n < 2 ^ 64"

text \<open>One member of the report, with the numbers it gives for the name: one when it has that name, else none.\<close>

inductive member :: "string \<Rightarrow> nat list \<Rightarrow> string \<Rightarrow> bool" for name :: string where
  member_named: "json_chars name \<Longrightarrow> CHR 0x5C \<notin> set name \<Longrightarrow> spaces w1 \<Longrightarrow> spaces w2 \<Longrightarrow> spaces w3 \<Longrightarrow> json_decimal n ds \<Longrightarrow>
    member name [n] (CHR 0x22 # name @ CHR 0x22 # w1 @ CHR '':'' # w2 @ ds @ w3)"
| member_other: "json_chars k \<Longrightarrow> k \<noteq> name \<or> CHR 0x5C \<in> set name \<Longrightarrow> spaces w1 \<Longrightarrow> spaces w2 \<Longrightarrow> spaces w3 \<Longrightarrow> json_value 65 v \<Longrightarrow>
    member name [] (CHR 0x22 # k @ CHR 0x22 # w1 @ CHR '':'' # w2 @ v @ w3)"

text \<open>The body of the object: members behind each other, a comma after the last one allowed.\<close>

inductive fields :: "string \<Rightarrow> nat list \<Rightarrow> string \<Rightarrow> bool" for name :: string where
  fields_none: "fields name [] []"
| fields_last: "member name ns m \<Longrightarrow> fields name ns m"
| fields_more: "member name ns m \<Longrightarrow> spaces w \<Longrightarrow> fields name ms s \<Longrightarrow> fields name (ns @ ms) (m @ CHR '','' # w @ s)"

definition report_gives :: "string \<Rightarrow> nat \<Rightarrow> string \<Rightarrow> bool" where
  "report_gives name n json \<longleftrightarrow>
     (\<exists>w0 w1 w2 s. json = w0 @ CHR 0x7B # w1 @ s @ CHR 0x7D # w2 \<and> spaces w0 \<and> spaces w1 \<and> spaces w2 \<and> fields name [n] s)"

lemma takeWhile_digits: "list_all is_digit ds \<Longrightarrow> \<not> starts_digit r \<Longrightarrow> takeWhile is_digit (ds @ r) = ds"
  by (induction ds) (auto simp: starts_digit_def split: list.splits)

lemma decimal_token_digits:
  "some_digits ds \<Longrightarrow> \<not> starts_digit r \<Longrightarrow>
   decimal_token (ds @ r) 10 = (if nat_of_digits ds < 2 ^ 64 then Some (word_of_nat (nat_of_digits ds), r) else None)"
  by (auto simp: decimal_token_def some_digits_def takeWhile_digits Let_def)

lemma skip_digits_stop: "\<not> starts_digit (skip_digits s)"
  by (induction s) (auto simp: starts_digit_def skip_digits_def)

lemma u64_value_iff:
  assumes "reads_decimal C"
  shows "u64_value C s = Some (x, r) \<longleftrightarrow> (\<exists>ds. s = ds @ r \<and> json_decimal (unat x) ds \<and> \<not> starts_digit r)"
proof (cases "starts_digit s")
  case True
  obtain ds where s: "s = ds @ skip_digits s" "some_digits ds"
    using starts_digit_split [OF True] by blast
  have unique: "es = ds \<and> r = skip_digits s" if "s = es @ r" "some_digits es" "\<not> starts_digit r" for es
    using that s skip_digits_append [of es r] by (auto simp: some_digits_def)
  have "parse_u64_token C s 10 = (if nat_of_digits ds < 2 ^ 64 then Some (word_of_nat (nat_of_digits ds), skip_digits s) else None)"
    using assms True decimal_token_digits [OF s(2) skip_digits_stop, of s] s(1) by (simp add: reads_decimal_def)
  moreover have "length s - length (skip_digits s) = length ds" "s \<noteq> skip_digits s" "hd s = hd ds"
    using s by (auto simp: some_digits_def) (metis length_append add_diff_cancel_right' append_self_conv2 hd_append2)+
  moreover have "hd ds = CHR ''0'' \<Longrightarrow> length ds > 1 \<longleftrightarrow> ds \<noteq> ''0''"
    using s(2) by (cases ds) (auto simp: some_digits_def neq_Nil_conv)
  ultimately have "u64_value C s = Some (x, r) \<longleftrightarrow> json_decimal (unat x) ds \<and> r = skip_digits s"
    using True s(2) by (auto simp: u64_value_def json_decimal_def unat_of_nat take_bit_nat_eq_self_iff)
  then show ?thesis
    using unique s skip_digits_stop [of s] by (metis json_decimal_def)
next
  case False
  then show ?thesis
    using starts_digit_some by (auto simp: u64_value_def json_decimal_def)
qed

text \<open>One round of the loop: the member it reads, and the rest behind the white space after it.\<close>

definition field_step :: "common \<Rightarrow> string \<Rightarrow> u64 option \<Rightarrow> string \<Rightarrow> (u64 option \<times> string) option" where
  "field_step C name found s =
     (case json_scan_string s of
        None \<Rightarrow> None
      | Some (key, escaped, s) \<Rightarrow>
          (case json_skip_ws s of
             [] \<Rightarrow> None
           | c # s \<Rightarrow>
               if c \<noteq> CHR '':'' then None
               else map_option (\<lambda>(found, s). (found, json_skip_ws s))
                      (if \<not> escaped \<and> key = name
                       then (if found \<noteq> None then None else map_option (\<lambda>(v, r). (Some v, r)) (u64_value C (json_skip_ws s)))
                       else map_option (Pair found) (json_skip_value 0 (json_skip_ws s)))))"

lemma field_loop_step:
  "field_loop (Suc f) C name found s =
     (if s = [] \<or> hd s = CHR 0x7D then Some (found, s)
      else case field_step C name found s of
             None \<Rightarrow> None
           | Some (found, []) \<Rightarrow> None
           | Some (found, c # s) \<Rightarrow>
               if c = CHR 0x7D then Some (found, c # s)
               else if c = CHR '','' then field_loop f C name found (json_skip_ws s)
               else None)"
  by (auto simp: field_step_def Let_def split: option.split list.split prod.split)

text \<open>How the numbers seen so far change the value held.\<close>

definition held :: "u64 option \<Rightarrow> nat list \<Rightarrow> u64 option \<Rightarrow> bool" where
  "held found ns found' \<longleftrightarrow> (ns = [] \<and> found' = found) \<or> (found = None \<and> (\<exists>x. ns = [unat x] \<and> found' = Some x))"

lemma held_append: "held a ns b \<Longrightarrow> held b ms c \<Longrightarrow> held a (ns @ ms) c"
  by (auto simp: held_def)

lemma held_split: "held a (ns @ ms) c \<Longrightarrow> \<exists>b. held a ns b \<and> held b ms c"
  by (auto simp: held_def append_eq_Cons_conv Cons_eq_append_conv append_eq_append_conv2)

lemma field_step_sound:
  assumes C: "reads_decimal C" and run: "field_step C name found s = Some (found', t)"
  shows "\<exists>m ns. s = m @ t \<and> member name ns m \<and> held found ns found'"
proof -
  obtain k e s1 s2 where k: "json_scan_string s = Some (k, e, s1)" and s2: "json_skip_ws s1 = CHR '':'' # s2"
    using run by (auto simp: field_step_def split: option.splits list.splits if_splits)
  obtain w1 w2 where w: "s1 = w1 @ CHR '':'' # s2" "spaces w1" "s2 = w2 @ json_skip_ws s2" "spaces w2"
    using skip_ws_split [of s1] skip_ws_split [of s2] s2 by auto
  have s: "s = CHR 0x22 # k @ CHR 0x22 # w1 @ CHR '':'' # w2 @ json_skip_ws s2" and key: "json_chars k" "e \<longleftrightarrow> CHR 0x5C \<in> set k"
    using scan_string_sound [OF k] w by auto
  show ?thesis
  proof (cases "\<not> e \<and> k = name")
    case True
    then obtain x r where x: "u64_value C (json_skip_ws s2) = Some (x, r)" "found = None" "found' = Some x" "t = json_skip_ws r"
      using run k s2 by (auto simp: field_step_def split: if_splits)
    obtain ds where ds: "json_skip_ws s2 = ds @ r" "json_decimal (unat x) ds"
      using x(1) u64_value_iff [OF C] by blast
    obtain w3 where "r = w3 @ t" "spaces w3"
      using x(4) skip_ws_split by blast
    then show ?thesis
      using ds member_named [of name w1 w2 w3 "unat x" ds] True key w(2,4) x(2,3) s
      by (intro exI [of _ "CHR 0x22 # k @ CHR 0x22 # w1 @ CHR '':'' # w2 @ ds @ w3"] exI [of _ "[unat x]"]) (auto simp: held_def)
  next
    case False
    then obtain r where r: "json_skip_value 0 (json_skip_ws s2) = Some r" "found' = found" "t = json_skip_ws r"
      using run k s2 by (auto simp: field_step_def split: if_splits)
    obtain w3 where w3: "r = w3 @ t" "spaces w3" using r(3) skip_ws_split by blast
    obtain w v where v: "json_skip_ws s2 = w @ v @ r" "spaces w" "json_value 65 v"
      using r(1) skip_sound [of "json_fuel (json_skip_ws s2)" 0 "json_skip_ws s2" r] by (auto simp: json_skip_value_def took_value_def)
    have "member name [] (CHR 0x22 # k @ CHR 0x22 # w1 @ CHR '':'' # (w2 @ w) @ v @ w3)"
      using False key w(2,4) v w3(2) by (intro member_other) auto
    then show ?thesis
      using s v(1) w3(1) r(2) by (intro exI [of _ "CHR 0x22 # k @ CHR 0x22 # w1 @ CHR '':'' # (w2 @ w) @ v @ w3"] exI [of _ "[]"]) (simp add: held_def)
  qed
qed

lemma field_loop_sound:
  assumes C: "reads_decimal C"
  shows "field_loop f C name found s = Some (found', c # t) \<Longrightarrow> c = CHR 0x7D \<Longrightarrow>
    \<exists>b ns. s = b @ c # t \<and> fields name ns b \<and> held found ns found'"
proof (induction f arbitrary: found s)
  case (Suc f)
  show ?case
  proof (cases "s = [] \<or> hd s = CHR 0x7D")
    case True
    then show ?thesis using Suc.prems fields_none by (intro exI [of _ "[]"]) (auto simp: held_def)
  next
    case False
    then obtain g d u where g: "field_step C name found s = Some (g, d # u)"
      and stop: "(d = c \<and> u = t \<and> g = found') \<or> (d = CHR '','' \<and> field_loop f C name g (json_skip_ws u) = Some (found', c # t))"
      using Suc.prems unfolding field_loop_step by (auto split: option.splits list.splits if_splits)
    obtain m ns where m: "s = m @ d # u" "member name ns m" "held found ns g"
      using field_step_sound [OF C g] by blast
    from stop show ?thesis
    proof
      assume "d = c \<and> u = t \<and> g = found'"
      then show ?thesis using m fields_last by blast
    next
      assume d: "d = CHR '','' \<and> field_loop f C name g (json_skip_ws u) = Some (found', c # t)"
      obtain w where w: "u = w @ json_skip_ws u" "spaces w" using skip_ws_split by blast
      obtain b ms where b: "json_skip_ws u = b @ c # t" "fields name ms b" "held g ms found'"
        using Suc.IH d Suc.prems(2) by blast
      then show ?thesis
        using fields_more [OF m(2) w(2) b(2)] held_append [OF m(3) b(3)] m(1) w(1) d
        by (intro exI [of _ "m @ CHR '','' # w @ b"] exI [of _ "ns @ ms"]) simp
    qed
  qed
qed simp

lemma decimal_head: "json_decimal n ds \<Longrightarrow> \<exists>c es. ds = c # es \<and> \<not> is_space c"
  using digit_not_space by (cases ds) (auto simp: json_decimal_def some_digits_def)

lemma field_step_complete:
  assumes C: "reads_decimal C" and m: "member name ns m" and "held found ns found'" and c: "c \<in> {CHR '','', CHR 0x7D}"
  shows "field_step C name found (m @ c # t) = Some (found', c # t)"
  using m
proof cases
  case (member_named w1 w2 w3 n ds)
  obtain x where x: "found = None" "n = unat x" "found' = Some x"
    using assms(3) member_named(1) by (auto simp: held_def)
  obtain d es where d: "ds = d # es" "\<not> is_space d" using decimal_head [OF member_named(8)] by blast
  have "delimited (w3 @ c # t)" using member_named(7) c by (intro stops_delimited) (auto simp: stops_def)
  then have "u64_value C (ds @ w3 @ c # t) = Some (x, w3 @ c # t)"
    using u64_value_iff [OF C] delimited_no_digit member_named(8) x(2) by blast
  moreover have "json_skip_ws (c # t) = c # t" using c by auto
  ultimately show ?thesis
    using member_named x d by (simp add: field_step_def scan_string_complete)
next
  case (member_other k w1 w2 w3 v)
  obtain d es where d: "v = d # es" "\<not> is_space d" using value_head [OF member_other(8)] by blast
  have "delimited (w3 @ c # t)" using member_other(7) c by (intro stops_delimited) (auto simp: stops_def)
  then have "json_skip_value 0 (v @ w3 @ c # t) = Some (w3 @ c # t)"
    using skip_complete(1) [OF member_other(8)] by simp
  moreover have "json_skip_ws (c # t) = c # t" using c by auto
  moreover have "found' = found" using assms(3) member_other(1) by (auto simp: held_def)
  ultimately show ?thesis
    using member_other d by (auto simp: field_step_def scan_string_complete)
qed

lemma member_head: "member name ns m \<Longrightarrow> \<exists>u. m = CHR 0x22 # u"
  by (erule member.cases) auto

lemma fields_head: "fields name ns b \<Longrightarrow> b = [] \<or> (\<exists>u. b = CHR 0x22 # u)"
  by (erule fields.cases) (auto dest: member_head)

lemma field_loop_complete:
  assumes C: "reads_decimal C"
  shows "fields name ns b \<Longrightarrow> held found ns found' \<Longrightarrow> length b < f \<Longrightarrow>
    field_loop f C name found (b @ CHR 0x7D # t) = Some (found', CHR 0x7D # t)"
proof (induction arbitrary: found f rule: fields.induct)
  case fields_none
  then show ?case by (cases f) (auto simp: held_def)
next
  case (fields_last ns m)
  then show ?case
    using field_step_complete [OF C fields_last(1,2), of "CHR 0x7D" t] member_head [OF fields_last(1)]
    by (cases f) (auto simp: field_loop_step simp del: field_loop.simps)
next
  case (fields_more ns m w ms s)
  obtain g where g: "held found ns g" "held g ms found'" using held_split [OF fields_more(5)] by blast
  obtain f' where f: "f = Suc f'" "length s < f'" using fields_more(6) by (cases f) auto
  have "json_skip_ws (w @ s @ CHR 0x7D # t) = s @ CHR 0x7D # t"
    using fields_more(2) fields_head [OF fields_more(3)] by auto
  then show ?case
    using field_step_complete [OF C fields_more(1) g(1), of "CHR '',''" "w @ s @ CHR 0x7D # t"] member_head [OF fields_more(1)]
      fields_more(4) [OF g(2) f(2)] f(1)
    by (auto simp: field_loop_step simp del: field_loop.simps)
qed

subsection \<open>Properties\<close>

text \<open>
  The recursion of \<open>json_skip_value\<close> always ends by itself: with fuel twice the length of
  the text and one more, every larger amount gives the same result, so no failure of it is due to the fuel.\<close>

theorem skip_value_ends: "2 * length s < f \<Longrightarrow> skip_value f depth s = json_skip_value depth s"
  by (rule skip_value_fuel)

theorem skip_value_ends_witness:
  "2 * length ''[1, [2]] x'' < 23 \<and> skip_value 23 0 ''[1, [2]] x'' = Some '' x'' \<and> json_skip_value 0 ''[1, [2]] x'' = Some '' x''"
proof -
  have "skip_value 23 0 ''[1, [2]] x'' = Some '' x''"
    by (simp add: skip_value.simps skip_elements.simps eval_nat_numeral json_skip_ws_def is_space_def skip_number_def
        skip_integer_def skip_fraction_def skip_exponent_def starts_digit_def skip_digits_def is_digit_def starts_with_def)
  then show ?thesis
    using skip_value_ends [of "''[1, [2]] x''" 23 0] by simp
qed

text \<open>On a text whose rest cannot extend a number, \<open>json_skip_value\<close> skips exactly white space and one
  value of JSON, nested within the levels that are left of 65: it accepts all of them and nothing else.\<close>

theorem skip_value_grammar:
  assumes "delimited r"
  shows "json_skip_value depth s = Some r \<longleftrightarrow> depth \<le> 64 \<and> (\<exists>w v. s = w @ v @ r \<and> spaces w \<and> json_value (65 - depth) v)"
proof
  assume "json_skip_value depth s = Some r"
  then have "depth \<le> 64" "took_value (Suc (64 - depth)) s r"
    using skip_sound [of "json_fuel s" depth s r] by (auto simp: json_skip_value_def)
  moreover from this(1) have "Suc (64 - depth) = 65 - depth" by simp
  ultimately show "depth \<le> 64 \<and> (\<exists>w v. s = w @ v @ r \<and> spaces w \<and> json_value (65 - depth) v)"
    unfolding took_value_def by metis
next
  assume "depth \<le> 64 \<and> (\<exists>w v. s = w @ v @ r \<and> spaces w \<and> json_value (65 - depth) v)"
  then show "json_skip_value depth s = Some r"
    using skip_complete(1) assms by fastforce
qed

theorem skip_value_grammar_witness:
  "delimited '', 2'' \<and> json_skip_value 0 '' null, 2'' = Some '', 2'' \<and> json_skip_value 65 '' null, 2'' \<noteq> Some '', 2''"
proof -
  have d: "delimited '', 2''" by (simp add: delimited_def is_digit_def)
  have "json_value (Suc 64) ''null''" by (rule value_word) simp
  then have "\<exists>w v. '' null, 2'' = w @ v @ '', 2'' \<and> spaces w \<and> json_value (65 - 0) v"
    by (intro exI [of _ "'' ''"] exI [of _ "''null''"]) (simp add: is_space_def)
  then show ?thesis
    using d skip_value_grammar [OF d, of 0 "'' null, 2''"] skip_value_grammar [OF d, of 65 "'' null, 2''"] by simp
qed

text \<open>
  Reading a field of the analyser's report: with a library that reads decimal numbers, the field is
  found with the value \<open>x\<close> exactly when the text is one JSON object (a comma behind the last member allowed) in which one
  member alone has that name, spelt without escapes, and its value is the decimal \<open>x\<close> without leading zeros.\<close>

theorem report_reads:
  assumes C: "reads_decimal C"
  shows "parse_json_u64_field C (Some json) (Some name) = Some x \<longleftrightarrow> report_gives name (unat x) json"
proof
  assume "parse_json_u64_field C (Some json) (Some name) = Some x"
  then obtain s t where s: "json_skip_ws json = CHR 0x7B # s" and t: "json_skip_ws t = []"
    and loop: "field_loop (Suc (length json)) C name None (json_skip_ws s) = Some (Some x, CHR 0x7D # t)"
    by (auto simp: parse_json_u64_field_def split: option.splits list.splits if_splits simp del: field_loop.simps)
  obtain b ns where b: "json_skip_ws s = b @ CHR 0x7D # t" "fields name ns b" "held None ns (Some x)"
    using field_loop_sound [OF C loop] by blast
  obtain w0 w1 where w: "json = w0 @ CHR 0x7B # s" "spaces w0" "s = w1 @ json_skip_ws s" "spaces w1"
    using skip_ws_split [of json] skip_ws_split [of s] s by metis
  have "spaces t" using skip_ws_split [of t] t by auto
  moreover have "ns = [unat x]" using b(3) by (auto simp: held_def)
  ultimately show "report_gives name (unat x) json"
    using w b unfolding report_gives_def by (metis append.assoc)
next
  assume "report_gives name (unat x) json"
  then obtain w0 w1 w2 s where json: "json = w0 @ CHR 0x7B # w1 @ s @ CHR 0x7D # w2" "spaces w0" "spaces w1" "spaces w2"
    and s: "fields name [unat x] s"
    by (auto simp: report_gives_def)
  have "json_skip_ws (w1 @ s @ CHR 0x7D # w2) = s @ CHR 0x7D # w2"
    using json(3) fields_head [OF s] by auto
  moreover have "field_loop (Suc (length json)) C name None (s @ CHR 0x7D # w2) = Some (Some x, CHR 0x7D # w2)"
    using json(1) by (intro field_loop_complete [OF C s]) (auto simp: held_def)
  moreover have "json_skip_ws w2 = []" using skip_ws_append [OF json(4), of "[]"] by simp
  ultimately show "parse_json_u64_field C (Some json) (Some name) = Some x"
    using json(1,2) by (simp add: parse_json_u64_field_def del: field_loop.simps)
qed

theorem report_reads_witness:
  "reads_decimal demo_common \<and> report_gives ''a'' 7 (CHR 0x7B # CHR 0x22 # ''a'' @ CHR 0x22 # '':7,'' @ [CHR 0x7D]) \<and>
   parse_json_u64_field demo_common (Some (CHR 0x7B # CHR 0x22 # ''a'' @ CHR 0x22 # '':7,'' @ [CHR 0x7D])) (Some ''a'') = Some 7"
proof -
  have C: "reads_decimal demo_common" by (simp add: reads_decimal_def demo_common_def)
  have "json_decimal 7 ''7''" by (simp add: json_decimal_def some_digits_def is_digit_def nat_of_digits_def of_char_def)
  then have "member ''a'' [7] (CHR 0x22 # ''a'' @ CHR 0x22 # [] @ CHR '':'' # [] @ ''7'' @ [])"
    by (intro member_named) (auto intro!: json_chars.intros simp: of_char_def)
  then have "fields ''a'' ([7] @ []) ((CHR 0x22 # ''a'' @ CHR 0x22 # '':7'') @ CHR '','' # [] @ [])"
    by (intro fields_more fields_none) simp_all
  then have "report_gives ''a'' 7 (CHR 0x7B # CHR 0x22 # ''a'' @ CHR 0x22 # '':7,'' @ [CHR 0x7D])"
    unfolding report_gives_def
    by (intro exI [of _ "[]"] exI [of _ "CHR 0x22 # ''a'' @ CHR 0x22 # '':7,''"]) simp
  then show ?thesis
    using C report_reads [OF C, of "CHR 0x7B # CHR 0x22 # ''a'' @ CHR 0x22 # '':7,'' @ [CHR 0x7D]" "''a''" 7] by simp
qed

text \<open>Without either argument nothing is read.\<close>

lemma parse_field_null: "parse_json_u64_field C None name = None" "parse_json_u64_field C json None = None"
  by (auto simp: parse_json_u64_field_def split: option.splits)

end
