(* ===== verification/Worker_State.thy ===== *)
theory Worker_State
  imports Corpus
begin

text \<open>
  The saved state of a test disk (\<open>test_media/test_media_worker.c\<close>): the tab-separated text that
  \<open>ldtm_worker_prepare\<close> writes - four header lines and one line per slot - and
  \<open>parse_verify_state\<close>, which reads it for the verify and qualify workers. The two bit masks of the
  parser are words; \<open>seen\<close> reads them as a set of items. A character 0 ends a C string.
\<close>

subsection \<open>Writing\<close>

abbreviation TAB :: char where "TAB \<equiv> CHR 0x09"
abbreviation LF :: char where "LF \<equiv> CHR 0x0A"

definition sanitize_tsv :: "string \<Rightarrow> string" where
  "sanitize_tsv s = map (\<lambda>c. if c = TAB \<or> c = CHR 0x0D \<or> c = LF then CHR '' '' else c) s"

text \<open>The header that \<open>ldtm_worker_prepare\<close> writes, and the line of \<open>state_write_status\<close>.\<close>

definition state_header :: "string \<Rightarrow> string \<Rightarrow> string" where
  "state_header device fingerprint =
     ''schema'' @ TAB # ''3'' @ LF # ''corpus'' @ TAB # ''1'' @ LF # ''device'' @ TAB # device @ LF #
     ''fingerprint'' @ TAB # fingerprint @ [LF]"

definition status_line :: "LdtmFilesystemSpec \<Rightarrow> string \<Rightarrow> string option \<Rightarrow> string" where
  "status_line spec status detail =
     (let safe = sanitize_tsv (take 511 (case detail of None \<Rightarrow> [] | Some t \<Rightarrow> t))
      in ''fs'' @ TAB # sp_key spec @ TAB # status @ TAB # safe @ [LF])"

subsection \<open>Reading\<close>

record LdtmVerifyFilesystem =
  vf_populated :: bool
  vf_build_status :: string
  vf_build_detail :: string

definition no_filesystem :: LdtmVerifyFilesystem where
  "no_filesystem = \<lparr>vf_populated = False, vf_build_status = [], vf_build_detail = []\<rparr>"

record parse_state =
  ps_headers :: u32
  ps_filesystems :: u32
  ps_state :: "LdtmVerifyFilesystem list"
  ps_fingerprint :: string

definition parse_start :: parse_state where
  "parse_start = \<lparr>ps_headers = 0, ps_filesystems = 0, ps_state = replicate LDTM_SPEC_COUNT no_filesystem, ps_fingerprint = []\<rparr>"

definition state_hash :: "string \<Rightarrow> bool" where
  "state_hash s \<longleftrightarrow> length s = 64 \<and> list_all is_hex s"

definition state_words :: "string set" where
  "state_words = {''populated'', ''failed'', ''format-failed'', ''formatted-unpopulated'', ''qualification-failed'', ''skipped''}"

definition header_bit :: "u32 \<Rightarrow> parse_state \<Rightarrow> parse_state option" where
  "header_bit m st = (if ps_headers st AND m \<noteq> 0 then None else Some (st\<lparr>ps_headers := ps_headers st OR m\<rparr>))"

definition spec_index :: "LdtmFilesystemSpec \<Rightarrow> nat" where
  "spec_index spec = length (takeWhile (\<lambda>s. s \<noteq> spec) ldtm_specs)"

definition filesystem_fields :: "string \<Rightarrow> string \<Rightarrow> string \<Rightarrow> parse_state \<Rightarrow> parse_state option" where
  "filesystem_fields key status detail st =
     (case ldtm_find_spec (Some key) of
        None \<Rightarrow> None
      | Some spec \<Rightarrow>
          let index = spec_index spec; m = push_bit index 1 :: u32
          in if ps_filesystems st AND m \<noteq> 0 \<or> length status \<ge> 64 \<or> length detail \<ge> 512 then None
             else if status \<notin> state_words then None
             else Some (st\<lparr>ps_filesystems := ps_filesystems st OR m,
                           ps_state := (ps_state st)[index := \<lparr>vf_populated = status = ''populated'', vf_build_status = status,
                                                               vf_build_detail = detail\<rparr>]\<rparr>))"

definition state_line :: "string \<Rightarrow> parse_state \<Rightarrow> string \<Rightarrow> parse_state option" where
  "state_line device st line =
     (let line = c_str line
      in if line = [] \<or> last line \<noteq> LF then None
         else case split_char TAB (butlast line) of
                [name, value] \<Rightarrow>
                  if name = ''schema'' \<and> value = ''3'' then header_bit 1 st
                  else if name = ''corpus'' \<and> value = ''1'' then header_bit 2 st
                  else if name = ''device'' \<and> value = device then header_bit 4 st
                  else if name = ''fingerprint'' \<and> state_hash value
                  then map_option (\<lambda>st. st\<lparr>ps_fingerprint := value\<rparr>) (header_bit 8 st)
                  else None
              | [name, key, status, detail] \<Rightarrow> if name = ''fs'' then filesystem_fields key status detail st else None
              | _ \<Rightarrow> None)"

fun state_lines :: "string \<Rightarrow> parse_state \<Rightarrow> string list \<Rightarrow> parse_state option" where
  "state_lines device st [] = Some st"
| "state_lines device st (l # ls) = (case state_line device st l of None \<Rightarrow> None | Some st \<Rightarrow> state_lines device st ls)"

definition LDTM_LINE_MAX :: nat where "LDTM_LINE_MAX = 4096"

text \<open>The stream is its text and whether reading it ended in an error (\<open>ferror\<close>).\<close>

definition parse_verify_state :: "string \<times> bool \<Rightarrow> string \<Rightarrow> (LdtmVerifyFilesystem list \<times> string) option" where
  "parse_verify_state stream device =
     (case state_lines device parse_start (fgets_list (LDTM_LINE_MAX - 2) (fst stream)) of
        None \<Rightarrow> None
      | Some st \<Rightarrow>
          if \<not> snd stream \<and> ps_headers st = 15 \<and> ps_filesystems st = push_bit LDTM_SPEC_COUNT 1 - 1
          then Some (ps_state st, ps_fingerprint st) else None)"

subsection \<open>Describing a slot that was not built\<close>

definition append_bounded_text :: "nat \<Rightarrow> string \<Rightarrow> string \<Rightarrow> string" where
  "append_bounded_text capacity destination source =
     (if capacity = 0 \<or> length destination \<ge> capacity - 1 then destination
      else destination @ take (capacity - length destination - 1) source)"

definition describe_unpopulated_filesystem :: "LdtmVerifyFilesystem option \<Rightarrow> nat \<Rightarrow> string" where
  "describe_unpopulated_filesystem expected capacity =
     (let d = append_bounded_text capacity [] ''Build Test Disk did not produce a populated filesystem'';
          d = (case expected of
                 Some e \<Rightarrow>
                   if vf_build_status e \<noteq> []
                   then append_bounded_text capacity (append_bounded_text capacity (append_bounded_text capacity d '' ('') (vf_build_status e)) '')''
                   else d
               | None \<Rightarrow> d)
      in case expected of
           Some e \<Rightarrow>
             if vf_build_detail e \<noteq> [] then append_bounded_text capacity (append_bounded_text capacity d '': '') (vf_build_detail e) else d
         | None \<Rightarrow> d)"

subsection \<open>Items\<close>

text \<open>What a line says, read without the parser's state, and where it belongs.\<close>

datatype item = Schema | Corpus_version | Device_name | Fingerprint string | Filesystem nat string string

definition line_item :: "string \<Rightarrow> string \<Rightarrow> item option" where
  "line_item device line =
     (let line = c_str line
      in if line = [] \<or> last line \<noteq> LF then None
         else case split_char TAB (butlast line) of
                [name, value] \<Rightarrow>
                  if name = ''schema'' \<and> value = ''3'' then Some Schema
                  else if name = ''corpus'' \<and> value = ''1'' then Some Corpus_version
                  else if name = ''device'' \<and> value = device then Some Device_name
                  else if name = ''fingerprint'' \<and> state_hash value then Some (Fingerprint value)
                  else None
              | [name, key, status, detail] \<Rightarrow>
                  if name = ''fs''
                  then (case ldtm_find_spec (Some key) of
                          None \<Rightarrow> None
                        | Some spec \<Rightarrow>
                            if length detail < 512 \<and> status \<in> state_words then Some (Filesystem (spec_index spec) status detail) else None)
                  else None
              | _ \<Rightarrow> None)"

primrec item_place :: "item \<Rightarrow> nat + nat" where
  "item_place Schema = Inl 0"
| "item_place Corpus_version = Inl 1"
| "item_place Device_name = Inl 2"
| "item_place (Fingerprint f) = Inl 3"
| "item_place (Filesystem i status detail) = Inr i"

definition all_places :: "(nat + nat) set" where
  "all_places = Inl ` {..<4} \<union> Inr ` {..<LDTM_SPEC_COUNT}"

definition slot_result :: "string \<Rightarrow> string \<Rightarrow> LdtmVerifyFilesystem" where
  "slot_result status detail = \<lparr>vf_populated = status = ''populated'', vf_build_status = status, vf_build_detail = detail\<rparr>"

definition seen :: "parse_state \<Rightarrow> (nat + nat) set" where
  "seen st = Inl ` {i. bit (ps_headers st) i} \<union> Inr ` {i. bit (ps_filesystems st) i}"

definition note_item :: "item \<Rightarrow> parse_state \<Rightarrow> parse_state" where
  "note_item it st =
     (case it of
        Fingerprint f \<Rightarrow> st\<lparr>ps_headers := ps_headers st OR 8, ps_fingerprint := f\<rparr>
      | Filesystem i status detail \<Rightarrow>
          st\<lparr>ps_filesystems := ps_filesystems st OR push_bit i 1, ps_state := (ps_state st)[i := slot_result status detail]\<rparr>
      | Device_name \<Rightarrow> st\<lparr>ps_headers := ps_headers st OR 4\<rparr>
      | Corpus_version \<Rightarrow> st\<lparr>ps_headers := ps_headers st OR 2\<rparr>
      | Schema \<Rightarrow> st\<lparr>ps_headers := ps_headers st OR 1\<rparr>)"

lemma length_takeWhile_eq: "length (takeWhile P xs) = length xs \<Longrightarrow> x \<in> set xs \<Longrightarrow> P x"
  by (metis append_eq_conv_conj take_all_iff order_refl set_takeWhileD takeWhile_eq_take)

lemma spec_index_bound: "ldtm_find_spec (Some key) = Some spec \<Longrightarrow> spec_index spec < LDTM_SPEC_COUNT"
proof -
  assume "ldtm_find_spec (Some key) = Some spec"
  then have "spec \<in> set ldtm_specs"
    by (auto simp: ldtm_find_spec_def ldtm_specs_def find_Some_iff)
  then show ?thesis
    using nth_length_takeWhile [of "\<lambda>s. s \<noteq> spec" ldtm_specs] length_takeWhile_le [of "\<lambda>s. s \<noteq> spec" ldtm_specs] spec_table(1)
    by (metis (full_types) ldtm_specs_def le_neq_implies_less length_takeWhile_eq spec_index_def)
qed

lemma state_word_length: "s \<in> state_words \<Longrightarrow> length s < 64"
  by (auto simp: state_words_def)

lemma header_bit_alt:
  "header_bit (2 ^ i) st = (if Inl i \<in> seen st then None else Some (st\<lparr>ps_headers := ps_headers st OR 2 ^ i\<rparr>))"
  by (auto simp: header_bit_def and_exp_eq_0_iff_not_bit seen_def)

lemma filesystem_fields_alt:
  "filesystem_fields key status detail st =
     (case ldtm_find_spec (Some key) of
        None \<Rightarrow> None
      | Some spec \<Rightarrow>
          if length detail < 512 \<and> status \<in> state_words \<and> Inr (spec_index spec) \<notin> seen st
          then Some (note_item (Filesystem (spec_index spec) status detail) st) else None)"
proof (cases "ldtm_find_spec (Some key)")
  case (Some spec)
  have "spec_index spec < 32"
    using spec_index_bound [OF Some] by (simp add: LDTM_SPEC_COUNT_def)
  then show ?thesis
    using Some state_word_length [of status]
    by (auto simp: filesystem_fields_def Let_def and_exp_eq_0_iff_not_bit seen_def note_item_def slot_result_def)
qed (simp add: filesystem_fields_def)

lemma fields_cases:
  obtains a b where "xs = [a, b]" | a b c d where "xs = [a, b, c, d]" | "length xs \<notin> {2, 4}"
  by (cases xs rule: remdups_adj.cases) (auto simp: numeral_eq_Suc length_Suc_conv)

lemma no_case: "length xs \<notin> {2, 4} \<Longrightarrow> (case xs of [a, b] \<Rightarrow> f a b | [a, b, c, d] \<Rightarrow> g a b c d | _ \<Rightarrow> None) = None"
  by (auto split: list.split)

lemma state_line_item:
  "state_line device st line =
     (case line_item device line of
        None \<Rightarrow> None
      | Some it \<Rightarrow> if item_place it \<in> seen st then None else Some (note_item it st))"
proof -
  have bits: "header_bit 1 st = (if Inl 0 \<in> seen st then None else Some (note_item Schema st))"
    "header_bit 2 st = (if Inl 1 \<in> seen st then None else Some (note_item Corpus_version st))"
    "header_bit 4 st = (if Inl 2 \<in> seen st then None else Some (note_item Device_name st))"
    "map_option (\<lambda>st. st\<lparr>ps_fingerprint := f\<rparr>) (header_bit 8 st) = (if Inl 3 \<in> seen st then None else Some (note_item (Fingerprint f) st))" for f
    using header_bit_alt [of 0 st] header_bit_alt [of 1 st] header_bit_alt [of 2 st] header_bit_alt [of 3 st]
    by (simp_all add: note_item_def)
  define fields where "fields = split_char TAB (butlast (c_str line))"
  consider a b where "fields = [a, b]" | a b c d where "fields = [a, b, c, d]" | "length fields \<notin> {2, 4}"
    by (cases fields rule: fields_cases) blast+
  then show ?thesis
  proof cases
    case (1 a b)
    then show ?thesis by (simp add: state_line_def line_item_def Let_def bits flip: fields_def)
  next
    case (2 a b c d)
    then show ?thesis
      by (simp add: state_line_def line_item_def Let_def filesystem_fields_alt split: option.split flip: fields_def)
  next
    case 3
    then show ?thesis by (simp add: state_line_def line_item_def Let_def no_case flip: fields_def)
  qed
qed

text \<open>The items that lines give, in order; the parser accepts them while no place is taken twice.\<close>

definition items_of :: "string \<Rightarrow> string list \<Rightarrow> item list option" where
  "items_of device ls = those (map (line_item device) ls)"

lemma or_bits: "n < 32 \<Longrightarrow> {i. bit ((x :: u32) OR 2 ^ n) i} = insert n {i. bit x i}"
  by (auto simp: bit_or_iff bit_exp_iff)

lemma or_small: "{i. bit ((x :: u32) OR 1) i} = insert 0 {i. bit x i}" "{i. bit ((x :: u32) OR 2) i} = insert 1 {i. bit x i}"
  "{i. bit ((x :: u32) OR 4) i} = insert 2 {i. bit x i}" "{i. bit ((x :: u32) OR 8) i} = insert 3 {i. bit x i}"
  using or_bits [of 0 x] or_bits [of 1 x] or_bits [of 2 x] or_bits [of 3 x] by simp_all

lemma seen_note: "item_place it \<in> all_places \<Longrightarrow> seen (note_item it st) = insert (item_place it) (seen st)"
  by (cases it) (simp_all add: seen_def note_item_def all_places_def LDTM_SPEC_COUNT_def or_small or_bits image_iff)

lemma item_in_places: "line_item device l = Some it \<Longrightarrow> item_place it \<in> all_places"
  using spec_index_bound
  by (auto simp: line_item_def all_places_def Let_def split: list.splits if_splits option.splits)

lemma state_lines_items:
  "state_lines device st ls =
     (case items_of device ls of
        None \<Rightarrow> None
      | Some its \<Rightarrow>
          if distinct (map item_place its) \<and> set (map item_place its) \<inter> seen st = {} then Some (fold note_item its st) else None)"
proof (induction ls arbitrary: st)
  case (Cons l ls)
  show ?case
  proof (cases "line_item device l")
    case (Some it)
    show ?thesis
      using Cons.IH [of "note_item it st"] Some seen_note [OF item_in_places [OF Some], of st]
      by (auto simp: state_line_item items_of_def split: option.split)
  qed (simp add: state_line_item items_of_def)
qed (simp add: items_of_def)

text \<open>What the folded state holds.\<close>

lemma fold_seen: "set (map item_place its) \<subseteq> all_places \<Longrightarrow> seen (fold note_item its st) = seen st \<union> set (map item_place its)"
  by (induction its arbitrary: st) (auto simp: seen_note)

lemma fold_length: "length (ps_state (fold note_item its st)) = length (ps_state st)"
  by (induction its arbitrary: st) (auto simp: note_item_def split: item.split)

lemma fold_slot:
  assumes "Filesystem i status detail \<in> set its" "distinct (map item_place its)" "i < length (ps_state st)"
  shows "ps_state (fold note_item its st) ! i = slot_result status detail"
  using assms
proof (induction its arbitrary: st rule: rev_induct)
  case (snoc it its)
  show ?case
  proof (cases "it = Filesystem i status detail")
    case True
    then show ?thesis using snoc.prems(3) fold_length [of its st] by (simp add: note_item_def [of "Filesystem i status detail"])
  next
    case False
    then have "item_place it \<noteq> Inr i" using snoc.prems(1,2) by force
    then have "ps_state (note_item it (fold note_item its st)) ! i = ps_state (fold note_item its st) ! i"
      by (cases it) (auto simp: note_item_def)
    then show ?thesis using snoc False by simp
  qed
qed simp

lemma fold_fingerprint:
  assumes "Fingerprint f \<in> set its" "distinct (map item_place its)"
  shows "ps_fingerprint (fold note_item its st) = f"
  using assms
proof (induction its arbitrary: st rule: rev_induct)
  case (snoc it its)
  show ?case
  proof (cases "it = Fingerprint f")
    case False
    then have "item_place it \<noteq> Inl 3" using snoc.prems(1,2) by force
    then show ?thesis
      using snoc False by (cases it) (auto simp: note_item_def)
  qed (simp add: note_item_def)
qed simp

lemma items_in_places: "items_of device ls = Some its \<Longrightarrow> set (map item_place its) \<subseteq> all_places"
proof (induction ls arbitrary: its)
  case (Cons l ls)
  then show ?case
    using item_in_places [of device l] by (fastforce simp: items_of_def split: option.splits)
qed (simp add: items_of_def)

lemma all_seen_iff: "seen st = all_places \<longleftrightarrow> ps_headers st = 15 \<and> ps_filesystems st = push_bit LDTM_SPEC_COUNT 1 - 1"
proof -
  have bits: "(x :: u32) = mask n \<longleftrightarrow> {i. bit x i} = {..<n}" if "n \<le> 32" for x n
    using that bit_imp_le_length [of x] by (auto simp: bit_eq_iff bit_mask_iff set_eq_iff)
  have "seen st = all_places \<longleftrightarrow> {i. bit (ps_headers st) i} = {..<4} \<and> {i. bit (ps_filesystems st) i} = {..<LDTM_SPEC_COUNT}"
    by (auto simp: seen_def all_places_def set_eq_iff)
  also have "\<dots> \<longleftrightarrow> ps_headers st = mask 4 \<and> ps_filesystems st = mask LDTM_SPEC_COUNT"
    using bits [of 4 "ps_headers st"] bits [of LDTM_SPEC_COUNT "ps_filesystems st"] by (simp add: LDTM_SPEC_COUNT_def)
  finally show ?thesis by (simp add: mask_eq_exp_minus_1 push_bit_eq_mult LDTM_SPEC_COUNT_def)
qed

lemma parse_items:
  "parse_verify_state (t, failed) device =
     (case items_of device (fgets_list 4094 t) of
        None \<Rightarrow> None
      | Some its \<Rightarrow>
          if \<not> failed \<and> distinct (map item_place its) \<and> set (map item_place its) = all_places
          then Some (let st = fold note_item its parse_start in (ps_state st, ps_fingerprint st)) else None)"
proof -
  have start: "seen parse_start = {}" by (simp add: seen_def parse_start_def)
  show ?thesis
  proof (cases "items_of device (fgets_list 4094 t)")
    case (Some its)
    have "ps_headers (fold note_item its parse_start) = 15 \<and> ps_filesystems (fold note_item its parse_start) = push_bit LDTM_SPEC_COUNT 1 - 1
      \<longleftrightarrow> set (map item_place its) = all_places"
      using fold_seen [OF items_in_places [OF Some], of parse_start] start all_seen_iff [of "fold note_item its parse_start"] by simp
    then show ?thesis
      using Some start by (auto simp: parse_verify_state_def LDTM_LINE_MAX_def state_lines_items Let_def)
  qed (simp add: parse_verify_state_def LDTM_LINE_MAX_def state_lines_items)
qed

subsection \<open>Writing and reading\<close>

lemma place_cases: "Inl i \<in> set (map item_place its) \<Longrightarrow> i = 3 \<Longrightarrow> \<exists>f. Fingerprint f \<in> set its"
  "Inr j \<in> set (map item_place its) \<Longrightarrow> \<exists>s d. Filesystem j s d \<in> set its"
proof -
  have "item_place it = Inl 3 \<Longrightarrow> \<exists>f. it = Fingerprint f" "item_place it = Inr j \<Longrightarrow> \<exists>s d. it = Filesystem j s d" for it
    by (cases it; simp)+
  then show "Inl i \<in> set (map item_place its) \<Longrightarrow> i = 3 \<Longrightarrow> \<exists>f. Fingerprint f \<in> set its"
    "Inr j \<in> set (map item_place its) \<Longrightarrow> \<exists>s d. Filesystem j s d \<in> set its"
    by (metis imageE list.set_map)+
qed

lemma parse_iff_items:
  "parse_verify_state (t, failed) device = Some (fs, fp) \<longleftrightarrow>
     \<not> failed \<and> (\<exists>its. items_of device (fgets_list 4094 t) = Some its \<and> distinct (map item_place its) \<and>
       set (map item_place its) = all_places \<and> Fingerprint fp \<in> set its \<and> length fs = LDTM_SPEC_COUNT \<and>
       (\<forall>i<LDTM_SPEC_COUNT. \<exists>s d. Filesystem i s d \<in> set its \<and> fs ! i = slot_result s d))"
  (is "?L \<longleftrightarrow> \<not> failed \<and> (\<exists>its. ?R its)")
proof (cases "items_of device (fgets_list 4094 t)")
  case (Some its)
  let ?st = "fold note_item its parse_start"
  have len: "length (ps_state ?st) = LDTM_SPEC_COUNT" by (simp add: fold_length parse_start_def)
  have held: "(Fingerprint fp \<in> set its \<longleftrightarrow> ps_fingerprint ?st = fp) \<and>
      ((length fs = LDTM_SPEC_COUNT \<and> (\<forall>i<LDTM_SPEC_COUNT. \<exists>s d. Filesystem i s d \<in> set its \<and> fs ! i = slot_result s d)) \<longleftrightarrow> ps_state ?st = fs)"
    if ok: "distinct (map item_place its)" "set (map item_place its) = all_places"
  proof -
    obtain f where f: "Fingerprint f \<in> set its"
      using place_cases(1) [of 3 its] ok(2) by (auto simp: all_places_def)
    have slot: "\<exists>s d. Filesystem i s d \<in> set its \<and> ps_state ?st ! i = slot_result s d" if "i < LDTM_SPEC_COUNT" for i
    proof -
      have "Inr i \<in> set (map item_place its)" unfolding ok(2) using that by (simp add: all_places_def)
      then obtain s d where "Filesystem i s d \<in> set its" using place_cases(2) by blast
      then show ?thesis
        using fold_slot [OF _ ok(1)] that len by (metis fold_length)
    qed
    have fixed: "ps_state ?st ! i = slot_result s d" if "Filesystem i s d \<in> set its" "i < LDTM_SPEC_COUNT" for i s d
      using fold_slot [OF that(1) ok(1), of parse_start] that(2) len by (simp add: fold_length)
    have "Fingerprint fp \<in> set its \<longleftrightarrow> ps_fingerprint ?st = fp"
      using f fold_fingerprint [OF _ ok(1)] by metis
    moreover have "ps_state ?st = fs"
      if "length fs = LDTM_SPEC_COUNT" "\<forall>i<LDTM_SPEC_COUNT. \<exists>s d. Filesystem i s d \<in> set its \<and> fs ! i = slot_result s d"
      using that fixed len by (intro nth_equalityI) (simp, metis)
    ultimately show ?thesis using slot len by blast
  qed
  then show ?thesis
    using Some by (auto simp: parse_items Let_def)
qed (simp add: parse_items)

lemma fgets_line_LF: "LF \<notin> set l \<Longrightarrow> length l < n \<Longrightarrow> fgets_line n (l @ LF # s) = (l @ [LF], s)"
  by (induction l arbitrary: n) auto

lemma fgets_lines:
  "\<forall>l \<in> set ls. LF \<notin> set l \<and> length l \<le> n \<Longrightarrow> fgets_list n (concat (map (\<lambda>l. l @ [LF]) ls)) = map (\<lambda>l. l @ [LF]) ls"
proof (induction ls)
  case (Cons l ls)
  let ?s = "concat (map (\<lambda>l. l @ [LF]) ls)"
  obtain c u where u: "l @ LF # ?s = c # u" by (cases l) auto
  have "fgets_list n (l @ LF # ?s) = (l @ [LF]) # fgets_list n ?s"
    using fgets_line_LF [of l "Suc n" ?s] Cons.prems unfolding u by simp
  then show ?case using Cons by simp
qed simp

lemma sanitize_clean: "TAB \<notin> set (sanitize_tsv s)" "LF \<notin> set (sanitize_tsv s)" "CHR 0x0D \<notin> set (sanitize_tsv s)"
  "CHR 0x00 \<notin> set s \<Longrightarrow> CHR 0x00 \<notin> set (sanitize_tsv s)" "length (sanitize_tsv s) = length s"
  by (auto simp: sanitize_tsv_def)

text \<open>The text that a preparation leaves: the header and one line for each slot in order.\<close>

definition state_file :: "string \<Rightarrow> string \<Rightarrow> (string \<times> string option) list \<Rightarrow> string" where
  "state_file device fingerprint results =
     state_header device fingerprint @ concat (map2 (\<lambda>spec (status, detail). status_line spec status detail) ldtm_specs results)"

definition kept_detail :: "string option \<Rightarrow> string" where
  "kept_detail detail = sanitize_tsv (take 511 (case detail of None \<Rightarrow> [] | Some t \<Rightarrow> t))"

definition plain_field :: "string \<Rightarrow> bool" where
  "plain_field s \<longleftrightarrow> TAB \<notin> set s \<and> LF \<notin> set s \<and> CHR 0x00 \<notin> set s"

lemma c_str_plain: "CHR 0x00 \<notin> set s \<Longrightarrow> c_str (s @ [LF]) = s @ [LF]"
  by (induction s) (auto simp: c_str_def)

lemma two_fields: "plain_field a \<Longrightarrow> plain_field b \<Longrightarrow> split_char TAB (a @ TAB # b) = [a, b]"
  by (simp add: plain_field_def split_char_append split_char_plain)

lemma four_fields: "plain_field a \<Longrightarrow> plain_field b \<Longrightarrow> plain_field c \<Longrightarrow> plain_field d \<Longrightarrow>
    split_char TAB (a @ TAB # b @ TAB # c @ TAB # d) = [a, b, c, d]"
  by (simp add: plain_field_def split_char_append split_char_plain)

lemma hash_plain: "state_hash f \<Longrightarrow> plain_field f"
  by (auto simp: state_hash_def plain_field_def list_all_iff is_hex_def of_char_def Let_def)

lemma state_words_plain: "s \<in> state_words \<Longrightarrow> plain_field s"
  by (auto simp: state_words_def plain_field_def)

lemma spec_plain: "spec \<in> set ldtm_specs \<Longrightarrow> plain_field (sp_key spec) \<and> length (sp_key spec) \<le> 8"
  by (auto simp: ldtm_specs_def LDTM_SPECS_def slot_def plain_field_def)

lemma names_plain: "plain_field ''schema''" "plain_field ''3''" "plain_field ''corpus''" "plain_field ''1''" "plain_field ''device''"
  "plain_field ''fingerprint''" "plain_field ''fs''"
  by (simp_all add: plain_field_def)

lemma plain_join: "plain_field a \<Longrightarrow> plain_field b \<Longrightarrow> CHR 0x00 \<notin> set (a @ TAB # b)"
  by (simp add: plain_field_def)

lemma two_field_item:
  assumes "plain_field a" "plain_field b"
  shows "line_item device (a @ TAB # b @ [LF]) =
      (if a = ''schema'' \<and> b = ''3'' then Some Schema else if a = ''corpus'' \<and> b = ''1'' then Some Corpus_version
       else if a = ''device'' \<and> b = device then Some Device_name
       else if a = ''fingerprint'' \<and> state_hash b then Some (Fingerprint b) else None)"
proof -
  have "c_str (a @ TAB # b @ [LF]) = a @ TAB # b @ [LF]"
    using c_str_plain [OF plain_join [OF assms]] by simp
  moreover have "split_char TAB (butlast (a @ TAB # b @ [LF])) = [a, b]"
    using two_fields [OF assms] by (simp add: butlast_append)
  ultimately show ?thesis by (simp add: line_item_def)
qed

lemma header_items:
  assumes "plain_field name" "state_hash f"
  shows "line_item device (''schema'' @ TAB # ''3'' @ [LF]) = Some Schema"
    "line_item device (''corpus'' @ TAB # ''1'' @ [LF]) = Some Corpus_version"
    "line_item device (''device'' @ TAB # name @ [LF]) = (if name = device then Some Device_name else None)"
    "line_item device (''fingerprint'' @ TAB # f @ [LF]) = Some (Fingerprint f)"
  unfolding two_field_item [OF names_plain(1,2)] two_field_item [OF names_plain(3,4)] two_field_item [OF names_plain(5) assms(1)]
    two_field_item [OF names_plain(6) hash_plain [OF assms(2)]]
  using assms(2) by simp_all

lemma kept_plain: "(\<And>t. detail = Some t \<Longrightarrow> CHR 0x00 \<notin> set t) \<Longrightarrow> plain_field (kept_detail detail) \<and> length (kept_detail detail) < 512"
proof -
  assume "\<And>t. detail = Some t \<Longrightarrow> CHR 0x00 \<notin> set t"
  then have "CHR 0x00 \<notin> set (take 511 (case detail of None \<Rightarrow> [] | Some t \<Rightarrow> t))"
    by (auto dest: in_set_takeD split: option.split)
  from sanitize_clean(4) [OF this] show ?thesis
    by (simp add: plain_field_def kept_detail_def sanitize_clean)
qed

lemma spec_found: "i < LDTM_SPEC_COUNT \<Longrightarrow> ldtm_find_spec (Some (sp_key (ldtm_specs ! i))) = Some (ldtm_specs ! i) \<and> spec_index (ldtm_specs ! i) = i"
proof
  assume i: "i < LDTM_SPEC_COUNT"
  then show "ldtm_find_spec (Some (sp_key (ldtm_specs ! i))) = Some (ldtm_specs ! i)"
    using spec_table by (simp add: ldtm_find_spec_def ldtm_specs_def find_Some_distinct)
  have "distinct ldtm_specs" using spec_table(2) by (simp add: ldtm_specs_def distinct_map)
  then show "spec_index (ldtm_specs ! i) = i"
    using i spec_table(1) takeWhile_eq_take_P_nth [of i ldtm_specs "\<lambda>s. s \<noteq> ldtm_specs ! i"]
    by (simp add: spec_index_def ldtm_specs_def nth_eq_iff_index_eq)
qed

lemma status_item:
  assumes i: "i < LDTM_SPEC_COUNT" and "status \<in> state_words" and "\<And>t. detail = Some t \<Longrightarrow> CHR 0x00 \<notin> set t"
  shows "line_item device (status_line (ldtm_specs ! i) status detail) = Some (Filesystem i status (kept_detail detail))"
proof -
  let ?k = "sp_key (ldtm_specs ! i)" let ?d = "kept_detail detail"
  have plain: "plain_field ?k" "plain_field status" "plain_field ?d" "length ?d < 512"
    using spec_plain [of "ldtm_specs ! i"] i spec_table(1) state_words_plain [OF assms(2)] kept_plain [OF assms(3)]
    by (auto simp: ldtm_specs_def)
  have l: "status_line (ldtm_specs ! i) status detail = (''fs'' @ TAB # ?k @ TAB # status @ TAB # ?d) @ [LF]"
    by (simp add: status_line_def kept_detail_def Let_def)
  have c: "c_str ((''fs'' @ TAB # ?k @ TAB # status @ TAB # ?d) @ [LF]) = (''fs'' @ TAB # ?k @ TAB # status @ TAB # ?d) @ [LF]"
    using plain by (intro c_str_plain) (simp add: plain_field_def)
  show ?thesis
    using spec_found [OF i] plain(4) assms(2)
    unfolding line_item_def l Let_def c butlast_snoc four_fields [OF names_plain(7) plain(1-3)] by simp
qed

lemma items_append: "items_of device (xs @ ys) =
    (case items_of device xs of None \<Rightarrow> None | Some a \<Rightarrow> (case items_of device ys of None \<Rightarrow> None | Some b \<Rightarrow> Some (a @ b)))"
  by (induction xs) (auto simp: items_of_def split: option.split)

lemma items_status:
  assumes "length rs \<le> length is" "\<forall>i \<in> set is. i < LDTM_SPEC_COUNT"
    and "\<forall>(s, d) \<in> set rs. s \<in> state_words \<and> (\<forall>t. d = Some t \<longrightarrow> CHR 0x00 \<notin> set t)"
  shows "items_of device (map2 (\<lambda>i (s, d). status_line (ldtm_specs ! i) s d) is rs) =
    Some (map2 (\<lambda>i (s, d). Filesystem i s (kept_detail d)) is rs)"
  using assms
proof (induction rs arbitrary: "is")
  case (Cons r rs)
  obtain i "js" where "is": "is = i # js" using Cons.prems(1) by (cases "is") auto
  obtain s d where r: "r = (s, d)" by (cases r)
  have "line_item device (status_line (ldtm_specs ! i) s d) = Some (Filesystem i s (kept_detail d))"
    using Cons.prems "is" r by (intro status_item) auto
  then show ?case using Cons.IH [of js] Cons.prems "is" r by (simp add: items_of_def)
qed (simp add: items_of_def)

text \<open>The lines of the written text, without their line feeds.\<close>

definition file_lines :: "string \<Rightarrow> string \<Rightarrow> (string \<times> string option) list \<Rightarrow> string list" where
  "file_lines device f results =
     [''schema'' @ TAB # ''3'', ''corpus'' @ TAB # ''1'', ''device'' @ TAB # device, ''fingerprint'' @ TAB # f] @
     map2 (\<lambda>spec (status, detail). ''fs'' @ TAB # sp_key spec @ TAB # status @ TAB # kept_detail detail) ldtm_specs results"

lemma state_file_lines: "state_file device f results = concat (map (\<lambda>l. l @ [LF]) (file_lines device f results))"
proof -
  have "status_line spec status detail = (''fs'' @ TAB # sp_key spec @ TAB # status @ TAB # kept_detail detail) @ [LF]" for spec status detail
    by (simp add: status_line_def kept_detail_def Let_def)
  then show ?thesis by (simp add: state_file_def state_header_def file_lines_def case_prod_beta' o_def)
qed

lemma file_lines_short:
  assumes "plain_field device" "length device \<le> 4000" "state_hash f"
    and "\<forall>(s, d) \<in> set results. s \<in> state_words \<and> (\<forall>t. d = Some t \<longrightarrow> CHR 0x00 \<notin> set t)"
  shows "\<forall>l \<in> set (file_lines device f results). LF \<notin> set l \<and> length l \<le> 4094"
proof -
  have "LF \<notin> set l \<and> length l \<le> 4094"
    if "spec \<in> set ldtm_specs" "(s, d) \<in> set results" "l = ''fs'' @ TAB # sp_key spec @ TAB # s @ TAB # kept_detail d" for l spec s d
  proof -
    have "s \<in> state_words" "plain_field (kept_detail d) \<and> length (kept_detail d) < 512"
      using assms(4) that(2) kept_plain [of d] by auto
    then show ?thesis
      using spec_plain [OF that(1)] state_words_plain [of s] state_word_length [of s] that(3) by (simp add: plain_field_def)
  qed
  note each = this
  have "LF \<notin> set l \<and> length l \<le> 4094"
    if mem: "l \<in> set (map2 (\<lambda>spec (s, d). ''fs'' @ TAB # sp_key spec @ TAB # s @ TAB # kept_detail d) ldtm_specs results)" for l
  proof -
    obtain x where x: "x \<in> set (zip ldtm_specs results)"
      "l = ''fs'' @ TAB # sp_key (fst x) @ TAB # fst (snd x) @ TAB # kept_detail (snd (snd x))"
      using imageE [OF mem [unfolded set_map case_prod_beta']] by blast
    have "fst x \<in> set ldtm_specs" "(fst (snd x), snd (snd x)) \<in> set results"
      using set_zip_leftD [of "fst x" "snd x"] set_zip_rightD [of "fst x" "snd x"] x(1) by simp_all
    then show ?thesis using each x(2) by blast
  qed
  moreover have "LF \<notin> set f" "length f = 64" using hash_plain [OF assms(3)] assms(3) by (simp_all add: plain_field_def state_hash_def)
  ultimately show ?thesis using assms(1,2) by (simp add: file_lines_def plain_field_def)
qed

lemma state_file_parses:
  assumes "plain_field device" "length device \<le> 4000" "state_hash fingerprint" "length results = LDTM_SPEC_COUNT"
    and "\<forall>(s, d) \<in> set results. s \<in> state_words \<and> (\<forall>t. d = Some t \<longrightarrow> CHR 0x00 \<notin> set t)"
  shows "parse_verify_state (state_file device fingerprint results, False) device =
    Some (map (\<lambda>(s, d). slot_result s (kept_detail d)) results, fingerprint)"
proof -
  let ?fs = "map2 (\<lambda>i (s, d). Filesystem i s (kept_detail d)) [0..<LDTM_SPEC_COUNT] results"
  let ?its = "[Schema, Corpus_version, Device_name, Fingerprint fingerprint] @ ?fs"
  have lines: "fgets_list 4094 (state_file device fingerprint results) = map (\<lambda>l. l @ [LF]) (file_lines device fingerprint results)"
    unfolding state_file_lines by (intro fgets_lines file_lines_short assms)
  have specs: "ldtm_specs = map ((!) ldtm_specs) [0..<LDTM_SPEC_COUNT]"
    using map_nth [of ldtm_specs] spec_table(1) by (simp add: ldtm_specs_def)
  have "map (\<lambda>l. l @ [LF]) (map2 (\<lambda>spec (s, d). ''fs'' @ TAB # sp_key spec @ TAB # s @ TAB # kept_detail d) ldtm_specs results) =
      map2 (\<lambda>i (s, d). status_line (ldtm_specs ! i) s d) [0..<LDTM_SPEC_COUNT] results"
    by (subst specs) (simp add: zip_map1 status_line_def kept_detail_def Let_def split_beta)
  then have rest: "items_of device (map (\<lambda>l. l @ [LF]) (map2 (\<lambda>spec (s, d). ''fs'' @ TAB # sp_key spec @ TAB # s @ TAB # kept_detail d) ldtm_specs results)) = Some ?fs"
    using items_status [of results "[0..<LDTM_SPEC_COUNT]"] assms(4,5) by simp
  have items: "items_of device (fgets_list 4094 (state_file device fingerprint results)) = Some ?its"
    unfolding lines file_lines_def map_append items_append rest
    using header_items [OF assms(1,3)] by (simp add: items_of_def)
  have places: "map item_place ?fs = map Inr [0..<LDTM_SPEC_COUNT]"
    using assms(4) by (intro nth_equalityI) (auto simp: split_beta)
  have "distinct (map item_place ?its)" "set (map item_place ?its) = all_places"
    unfolding map_append places by (auto simp: distinct_map all_places_def lessThan_atLeast0 numeral_eq_Suc atLeast0_lessThan_Suc)
  moreover have "\<exists>s d. Filesystem i s d \<in> set ?its \<and> map (\<lambda>(s, d). slot_result s (kept_detail d)) results ! i = slot_result s d"
    if i: "i < LDTM_SPEC_COUNT" for i
  proof -
    have "?fs ! i = Filesystem i (fst (results ! i)) (kept_detail (snd (results ! i)))"
      using i assms(4) by (simp add: split_beta)
    moreover have "?fs ! i \<in> set ?fs" using i assms(4) by (intro nth_mem) simp
    ultimately have "Filesystem i (fst (results ! i)) (kept_detail (snd (results ! i))) \<in> set ?its"
      by (metis UnCI set_append)
    moreover have "map (\<lambda>(s, d). slot_result s (kept_detail d)) results ! i = slot_result (fst (results ! i)) (kept_detail (snd (results ! i)))"
      using i assms(4) by (simp add: split_beta)
    ultimately show ?thesis by blast
  qed
  ultimately show ?thesis
    using items assms(4) unfolding parse_iff_items by (intro conjI exI [of _ ?its]) auto
qed

lemma state_file_other:
  assumes "plain_field device" "length device \<le> 4000" "state_hash fingerprint" "device \<noteq> other"
    and "\<forall>(s, d) \<in> set results. s \<in> state_words \<and> (\<forall>t. d = Some t \<longrightarrow> CHR 0x00 \<notin> set t)"
  shows "parse_verify_state (state_file device fingerprint results, False) other = None"
proof -
  have "fgets_list 4094 (state_file device fingerprint results) = map (\<lambda>l. l @ [LF]) (file_lines device fingerprint results)"
    unfolding state_file_lines by (intro fgets_lines file_lines_short assms)
  then have "items_of other (fgets_list 4094 (state_file device fingerprint results)) = None"
    using header_items [OF assms(1,3), of other] assms(4) by (simp add: items_of_def file_lines_def)
  then show ?thesis by (simp add: parse_items)
qed

text \<open>
  What a preparation saves is what the other workers load: the file with the header of a device and its
  fingerprint and one status for each slot is accepted for that device, and gives back the fingerprint and each slot's
  status and detail, the detail with tabs and line ends made blanks and cut to 511 characters; for any other device it is
  refused.\<close>

theorem saved_state_loads:
  assumes "plain_field device" "length device \<le> 4000" "state_hash fingerprint" "length results = LDTM_SPEC_COUNT"
    and "\<forall>(s, d) \<in> set results. s \<in> state_words \<and> (\<forall>t. d = Some t \<longrightarrow> CHR 0x00 \<notin> set t)"
  shows "parse_verify_state (state_file device fingerprint results, False) other =
    (if other = device then Some (map (\<lambda>(s, d). slot_result s (kept_detail d)) results, fingerprint) else None)"
  using state_file_parses [OF assms] state_file_other [OF assms(1-3) _ assms(5), of other] by simp

theorem saved_state_loads_witness:
  "plain_field ''/dev/sdb'' \<and> state_hash (replicate 64 (CHR ''a'')) \<and>
   parse_verify_state (state_file ''/dev/sdb'' (replicate 64 (CHR ''a'')) (replicate 21 (''skipped'', Some [TAB])), False) ''/dev/sdb'' =
     Some (replicate 21 (slot_result ''skipped'' '' ''), replicate 64 (CHR ''a''))"
proof -
  have d: "plain_field ''/dev/sdb''" by (simp add: plain_field_def)
  have h: "state_hash (replicate 64 (CHR ''a''))" by (simp add: state_hash_def is_hex_def of_char_def list_all_iff)
  have "kept_detail (Some [TAB]) = '' ''" by (simp add: kept_detail_def sanitize_tsv_def)
  then show ?thesis
    using d h saved_state_loads [OF d _ h, of "replicate 21 (''skipped'', Some [TAB])" "''/dev/sdb''"]
    by (simp add: state_words_def LDTM_SPEC_COUNT_def map_replicate)
qed

lemma those_set: "those (map f xs) = Some ys \<Longrightarrow> y \<in> set ys \<Longrightarrow> \<exists>x. f x = Some y"
  by (induction xs arbitrary: ys) (auto split: option.splits)

text \<open>
  What is loaded is well formed: an accepted file gives one result for each slot, with a known status word
  that fits its buffer, a detail shorter than 512 characters and the flag \<open>populated\<close> exactly for that word, and a
  fingerprint of 64 hexadecimal digits.\<close>

theorem loaded_state_type:
  assumes "parse_verify_state stream device = Some (fs, fp)"
  shows "length fs = LDTM_SPEC_COUNT \<and> state_hash fp \<and>
    (\<forall>f \<in> set fs. vf_build_status f \<in> state_words \<and> length (vf_build_status f) < 64 \<and> length (vf_build_detail f) < 512 \<and>
      (vf_populated f \<longleftrightarrow> vf_build_status f = ''populated''))"
proof -
  obtain t where t: "stream = (t, False)"
    using assms parse_iff_items by (cases stream) auto
  obtain its where its: "items_of device (fgets_list 4094 t) = Some its" "Fingerprint fp \<in> set its" "length fs = LDTM_SPEC_COUNT"
    "\<forall>i<LDTM_SPEC_COUNT. \<exists>s d. Filesystem i s d \<in> set its \<and> fs ! i = slot_result s d"
    using assms unfolding t parse_iff_items by blast
  have lines: "it \<in> set its \<Longrightarrow> \<exists>l. line_item device l = Some it" for it
    using its(1) using those_set by (fastforce simp: items_of_def)
  have "line_item device l = Some (Fingerprint fp) \<Longrightarrow> state_hash fp" for l
    by (auto simp: line_item_def Let_def split: list.splits if_splits option.splits)
  moreover have "line_item device l = Some (Filesystem i s d) \<Longrightarrow> s \<in> state_words \<and> length d < 512" for l i s d
    by (auto simp: line_item_def Let_def split: list.splits if_splits option.splits)
  ultimately have "state_hash fp" "\<forall>i<LDTM_SPEC_COUNT. \<exists>s d. fs ! i = slot_result s d \<and> s \<in> state_words \<and> length d < 512"
    using its(2,4) lines by meson+
  then show ?thesis
    using its(3) state_word_length unfolding all_set_conv_all_nth by (fastforce simp: slot_result_def)
qed

theorem loaded_state_type_witness:
  "\<exists>fs fp. parse_verify_state (state_file ''/dev/sdb'' (replicate 64 (CHR ''a'')) (replicate 21 (''skipped'', None)), False) ''/dev/sdb'' = Some (fs, fp) \<and>
     length fs = 21 \<and> state_hash fp"
proof -
  let ?text = "state_file ''/dev/sdb'' (replicate 64 (CHR ''a'')) (replicate 21 (''skipped'', None))"
  have d: "plain_field ''/dev/sdb''" by (simp add: plain_field_def)
  have h: "state_hash (replicate 64 (CHR ''a''))" by (simp add: state_hash_def is_hex_def of_char_def list_all_iff)
  obtain fs fp where p: "parse_verify_state (?text, False) ''/dev/sdb'' = Some (fs, fp)"
    using state_file_parses [OF d _ h, of "replicate 21 (''skipped'', None)"] by (simp add: state_words_def LDTM_SPEC_COUNT_def)
  from loaded_state_type [OF this] p show ?thesis by (auto simp: LDTM_SPEC_COUNT_def)
qed

text \<open>The description of an unbuilt slot always fits its buffer.\<close>

lemma append_bounded_fits: "0 < capacity \<Longrightarrow> length d < capacity \<Longrightarrow> length (append_bounded_text capacity d s) < capacity"
  by (auto simp: append_bounded_text_def)

lemma describe_fits: "0 < capacity \<Longrightarrow> length (describe_unpopulated_filesystem expected capacity) < capacity"
  unfolding describe_unpopulated_filesystem_def Let_def by (cases expected) (simp_all add: append_bounded_fits)

end
