(* ===== verification/Cpp_Json.thy ===== *)
theory Cpp_Json
  imports Worker_Json
begin

text \<open>
  The C++ class \<open>Json\<close> of \<open>native/json.cpp\<close>: values, the parser with its byte positions, the
  accessors and the printer. The parser's position is the rest of the text; an exception carries the
  rest's length, from which \<open>json_parse\<close> forms the message. A \<open>std::map\<close> is its list of pairs in key
  order, a \<open>double\<close> its 64-bit pattern. The escaping, UTF-8 and number routines of the shared library
  and \<open>snprintf\<close>'s \<open>%.17g\<close> are the record \<open>json_lib\<close>.
\<close>

subsection \<open>Values\<close>

record json_lib =
  jl_escape_size :: "string \<Rightarrow> u64 option"
  jl_escape_fill :: "string \<Rightarrow> u64 \<Rightarrow> string option"
  jl_utf8 :: "u32 \<Rightarrow> string option"
  jl_parse_double :: "string \<Rightarrow> u64 option"
  jl_format_17g :: "u64 \<Rightarrow> string"

datatype json =
    JNull
  | JBool bool
  | JNumber string
  | JString string
  | JArray "json list"
  | JObject "(string \<times> json) list"

type_synonym 'a exc = "string + 'a"

text \<open>\<open>operator[]\<close> with an assignment, and \<open>emplace\<close> of a new key: both keep the key order.\<close>

fun object_set :: "string \<Rightarrow> 'a \<Rightarrow> (string \<times> 'a) list \<Rightarrow> (string \<times> 'a) list" where
  "object_set k v [] = [(k, v)]"
| "object_set k v ((l, w) # kvs) =
     (if k = l then (k, v) # kvs else if str_less k l then (k, v) # (l, w) # kvs else (l, w) # object_set k v kvs)"

subsection \<open>Parser\<close>

datatype json_failure = At nat string | Plain string

type_synonym 'a parsed = "json_failure + 'a \<times> string"

definition fail_at :: "string \<Rightarrow> string \<Rightarrow> 'a parsed" where
  "fail_at rest message = Inl (At (length rest) message)"

definition json_space :: "char \<Rightarrow> bool" where
  "json_space c \<longleftrightarrow> c = CHR '' '' \<or> c = CHR 0x09 \<or> c = CHR 0x0D \<or> c = CHR 0x0A"

definition skip_space :: "string \<Rightarrow> string" where
  "skip_space s = dropWhile json_space s"

definition consume :: "char \<Rightarrow> string \<Rightarrow> string option" where
  "consume c s = (case s of [] \<Rightarrow> None | d # t \<Rightarrow> if d = c then Some t else None)"

definition literal :: "string \<Rightarrow> 'a \<Rightarrow> string \<Rightarrow> 'a parsed" where
  "literal word v s = (if starts_with s word then Inr (v, drop (length word) s) else fail_at s ''invalid literal'')"

definition hex_value :: "char \<Rightarrow> u32 option" where
  "hex_value c =
     (let n = (of_char c :: nat)
      in if 48 \<le> n \<and> n \<le> 57 then Some (word_of_nat (n - 48))
         else if 97 \<le> n \<and> n \<le> 102 then Some (word_of_nat (n - 97 + 10))
         else if 65 \<le> n \<and> n \<le> 70 then Some (word_of_nat (n - 65 + 10))
         else None)"

fun hex_digits :: "nat \<Rightarrow> u32 \<Rightarrow> string \<Rightarrow> u32 parsed" where
  "hex_digits 0 v s = Inr (v, s)"
| "hex_digits (Suc n) v [] = fail_at [] ''truncated Unicode escape''"
| "hex_digits (Suc n) v (c # s) =
     (case hex_value c of
        None \<Rightarrow> fail_at s ''invalid Unicode escape''
      | Some d \<Rightarrow> hex_digits n (push_bit 4 v OR d) s)"

definition parse_hex4 :: "string \<Rightarrow> u32 parsed" where
  "parse_hex4 s = (if 4 > length s then fail_at s ''truncated Unicode escape'' else hex_digits 4 0 s)"

definition append_utf8 :: "json_lib \<Rightarrow> u32 \<Rightarrow> string \<Rightarrow> string parsed" where
  "append_utf8 J codepoint s =
     (case jl_utf8 J codepoint of
        None \<Rightarrow> Inl (Plain ''JSON contains an invalid Unicode code point'')
      | Some e \<Rightarrow> Inr (e, s))"

definition unicode_escape :: "json_lib \<Rightarrow> string \<Rightarrow> string parsed" where
  "unicode_escape J s =
     (case parse_hex4 s of
        Inl e \<Rightarrow> Inl e
      | Inr (codepoint, s) \<Rightarrow>
          if codepoint \<ge> 0xD800 \<and> codepoint \<le> 0xDBFF
          then (if length s < 2 \<or> s ! 0 \<noteq> CHR 0x5C \<or> s ! 1 \<noteq> CHR ''u''
                then fail_at s ''high surrogate without low surrogate''
                else case parse_hex4 (drop 2 s) of
                       Inl e \<Rightarrow> Inl e
                     | Inr (low, s) \<Rightarrow>
                         if low < 0xDC00 \<or> low > 0xDFFF then fail_at s ''invalid low surrogate''
                         else append_utf8 J (0x10000 + push_bit 10 (codepoint - 0xD800) + (low - 0xDC00)) s)
          else if codepoint \<ge> 0xDC00 \<and> codepoint \<le> 0xDFFF then fail_at s ''unpaired low surrogate''
          else append_utf8 J codepoint s)"

definition simple_escape :: "char \<Rightarrow> char option" where
  "simple_escape c =
     (if c = CHR 0x22 then Some (CHR 0x22) else if c = CHR 0x5C then Some (CHR 0x5C) else if c = CHR ''/'' then Some (CHR ''/'')
      else if c = CHR ''b'' then Some (CHR 0x08) else if c = CHR ''f'' then Some (CHR 0x0C) else if c = CHR ''n'' then Some (CHR 0x0A)
      else if c = CHR ''r'' then Some (CHR 0x0D) else if c = CHR ''t'' then Some (CHR 0x09) else None)"

definition prepend :: "string \<Rightarrow> string parsed \<Rightarrow> string parsed" where
  "prepend p r = (case r of Inl e \<Rightarrow> Inl e | Inr (t, s) \<Rightarrow> Inr (p @ t, s))"

lemma hex_digits_length: "hex_digits n v s = Inr (w, r) \<Longrightarrow> length s = length r + n"
  by (induction n v s rule: hex_digits.induct) (auto simp: fail_at_def split: option.splits)

lemma parse_hex4_length: "parse_hex4 s = Inr (w, r) \<Longrightarrow> length s = length r + 4"
  using hex_digits_length by (auto simp: parse_hex4_def fail_at_def split: if_splits)

lemma unicode_escape_length: "unicode_escape J s = Inr (w, r) \<Longrightarrow> length r < length s"
  by (auto simp: unicode_escape_def append_utf8_def fail_at_def split: sum.splits if_splits option.splits dest!: parse_hex4_length)

function string_body :: "json_lib \<Rightarrow> string \<Rightarrow> string parsed" where
  "string_body J [] = fail_at [] ''unterminated string''"
| "string_body J (c # s) =
     (if c = CHR 0x22 then Inr ([], s)
      else if (of_char c :: nat) < 0x20 then fail_at s ''control byte in JSON string''
      else if c \<noteq> CHR 0x5C then prepend [c] (string_body J s)
      else case s of
             [] \<Rightarrow> fail_at [] ''truncated escape''
           | e # s \<Rightarrow>
               (case simple_escape e of
                  Some x \<Rightarrow> prepend [x] (string_body J s)
                | None \<Rightarrow>
                    if e = CHR ''u''
                    then (case unicode_escape J s of Inl f \<Rightarrow> Inl f | Inr (x, s) \<Rightarrow> prepend x (string_body J s))
                    else fail_at s ''invalid string escape''))"
  by pat_completeness auto
termination
  by (relation "measure (\<lambda>(J, s). length s)") (auto dest!: unicode_escape_length)

definition parse_string :: "json_lib \<Rightarrow> string \<Rightarrow> string parsed" where
  "parse_string J s = (case consume (CHR 0x22) s of None \<Rightarrow> fail_at s ''expected string'' | Some s \<Rightarrow> string_body J s)"

definition number_integer :: "string \<Rightarrow> unit parsed" where
  "number_integer s =
     (let s = (case consume (CHR ''-'') s of Some t \<Rightarrow> t | None \<Rightarrow> s)
      in case s of
           [] \<Rightarrow> fail_at [] ''truncated number''
         | c # t \<Rightarrow>
             if c = CHR ''0'' then (if starts_digit t then fail_at t ''leading zero in number'' else Inr ((), t))
             else if \<not> is_digit c then fail_at s ''invalid number''
             else Inr ((), skip_digits t))"

definition some_more_digits :: "string \<Rightarrow> string \<Rightarrow> unit parsed" where
  "some_more_digits message s =
     (let r = skip_digits s in if length r = length s then fail_at r message else Inr ((), r))"

definition number_fraction :: "string \<Rightarrow> unit parsed" where
  "number_fraction s = (case consume (CHR ''.'') s of None \<Rightarrow> Inr ((), s) | Some t \<Rightarrow> some_more_digits ''fraction has no digits'' t)"

definition number_exponent :: "string \<Rightarrow> unit parsed" where
  "number_exponent s =
     (case s of
        [] \<Rightarrow> Inr ((), s)
      | c # t \<Rightarrow>
          if c = CHR ''e'' \<or> c = CHR ''E''
          then some_more_digits ''exponent has no digits''
                 (case t of [] \<Rightarrow> [] | d # u \<Rightarrow> if d = CHR ''+'' \<or> d = CHR ''-'' then u else t)
          else Inr ((), s))"

definition parse_number :: "string \<Rightarrow> string parsed" where
  "parse_number s =
     (case number_integer s of
        Inl e \<Rightarrow> Inl e
      | Inr (_, i) \<Rightarrow>
          (case number_fraction i of
             Inl e \<Rightarrow> Inl e
           | Inr (_, f) \<Rightarrow>
               (case number_exponent f of
                  Inl e \<Rightarrow> Inl e
                | Inr (_, r) \<Rightarrow> Inr (take (length s - length r) s, r))))"

text \<open>
  The loops of \<open>parse_array\<close> and \<open>parse_object\<close> behind their opening character, with the value parser of
  the next level and with fuel: each round consumes a character, so the length of the text is enough.
\<close>

definition exhausted :: "'a parsed" where "exhausted = Inl (Plain ''no fuel'')"

fun array_items :: "(string \<Rightarrow> json parsed) \<Rightarrow> nat \<Rightarrow> string \<Rightarrow> json list parsed" where
  "array_items pv 0 s = exhausted"
| "array_items pv (Suc f) s =
     (case pv s of
        Inl e \<Rightarrow> Inl e
      | Inr (v, s) \<Rightarrow>
          let s = skip_space s
          in case consume (CHR '']'') s of
               Some t \<Rightarrow> Inr ([v], t)
             | None \<Rightarrow>
                 (case consume (CHR '','') s of
                    None \<Rightarrow> fail_at s ''expected comma in array''
                  | Some t \<Rightarrow> (case array_items pv f (skip_space t) of Inl e \<Rightarrow> Inl e | Inr (vs, r) \<Rightarrow> Inr (v # vs, r))))"

definition parse_array :: "(string \<Rightarrow> json parsed) \<Rightarrow> string \<Rightarrow> json list parsed" where
  "parse_array pv s =
     (case consume (CHR ''['') s of
        None \<Rightarrow> fail_at s ''expected array''
      | Some s \<Rightarrow>
          let s = skip_space s
          in case consume (CHR '']'') s of Some t \<Rightarrow> Inr ([], t) | None \<Rightarrow> array_items pv (Suc (length s)) s)"

fun object_items ::
  "json_lib \<Rightarrow> (string \<Rightarrow> json parsed) \<Rightarrow> nat \<Rightarrow> (string \<times> json) list \<Rightarrow> string \<Rightarrow> (string \<times> json) list parsed" where
  "object_items J pv 0 acc s = exhausted"
| "object_items J pv (Suc f) acc s =
     (if s = [] \<or> hd s \<noteq> CHR 0x22 then fail_at s ''expected object key''
      else case parse_string J s of
             Inl e \<Rightarrow> Inl e
           | Inr (key, s) \<Rightarrow>
               let s = skip_space s
               in case consume (CHR '':'') s of
                    None \<Rightarrow> fail_at s ''expected colon after object key''
                  | Some s \<Rightarrow>
                      (case pv (skip_space s) of
                         Inl e \<Rightarrow> Inl e
                       | Inr (v, s) \<Rightarrow>
                           if key \<in> fst ` set acc then fail_at s ''duplicate object key''
                           else let acc = object_set key v acc; s = skip_space s
                                in case consume (CHR 0x7D) s of
                                     Some t \<Rightarrow> Inr (acc, t)
                                   | None \<Rightarrow>
                                       (case consume (CHR '','') s of
                                          None \<Rightarrow> fail_at s ''expected comma in object''
                                        | Some t \<Rightarrow> object_items J pv f acc (skip_space t))))"

definition parse_object :: "json_lib \<Rightarrow> (string \<Rightarrow> json parsed) \<Rightarrow> string \<Rightarrow> (string \<times> json) list parsed" where
  "parse_object J pv s =
     (case consume (CHR 0x7B) s of
        None \<Rightarrow> fail_at s ''expected object''
      | Some s \<Rightarrow>
          let s = skip_space s
          in case consume (CHR 0x7D) s of Some t \<Rightarrow> Inr ([], t) | None \<Rightarrow> object_items J pv (Suc (length s)) [] s)"

definition as_value :: "('a \<Rightarrow> json) \<Rightarrow> 'a parsed \<Rightarrow> json parsed" where
  "as_value f r = (case r of Inl e \<Rightarrow> Inl e | Inr (a, s) \<Rightarrow> Inr (f a, s))"

text \<open>\<open>Json::number\<close>: the checks of the named constructor.\<close>

definition json_number_of :: "string \<Rightarrow> json exc" where
  "json_number_of text =
     (if text = [] then Inl ''empty JSON number''
      else case skip_number text of Some [] \<Rightarrow> Inr (JNumber text) | _ \<Rightarrow> Inl ''invalid JSON number'')"

text \<open>\<open>parse_value\<close> with the number of levels left; \<open>depth > 64\<close> is none left of 65.\<close>

fun parse_value :: "json_lib \<Rightarrow> nat \<Rightarrow> string \<Rightarrow> json parsed" where
  "parse_value J 0 s = fail_at s ''maximum JSON nesting depth exceeded''"
| "parse_value J (Suc levels) s =
     (let s = skip_space s
      in case s of
           [] \<Rightarrow> fail_at s ''unexpected end of input''
         | c # t \<Rightarrow>
             if c = CHR ''n'' then literal ''null'' JNull s
             else if c = CHR ''t'' then literal ''true'' (JBool True) s
             else if c = CHR ''f'' then literal ''false'' (JBool False) s
             else if c = CHR 0x22 then as_value JString (parse_string J s)
             else if c = CHR ''['' then as_value JArray (parse_array (parse_value J levels) s)
             else if c = CHR 0x7B then as_value JObject (parse_object J (parse_value J levels) s)
             else if c = CHR ''-'' \<or> is_digit c
             then (case parse_number s of
                     Inl e \<Rightarrow> Inl e
                   | Inr (text, r) \<Rightarrow> (case json_number_of text of Inl e \<Rightarrow> Inl (Plain e) | Inr v \<Rightarrow> Inr (v, r)))
             else fail_at s ''unexpected token'')"

definition failure_text :: "string \<Rightarrow> json_failure \<Rightarrow> string" where
  "failure_text input e =
     (case e of
        Plain m \<Rightarrow> m
      | At n m \<Rightarrow> ''JSON parse error at byte '' @ show_nat (length input - n) @ '': '' @ m)"

definition json_parse :: "json_lib \<Rightarrow> string \<Rightarrow> json exc" where
  "json_parse J input =
     (case parse_value J 65 (skip_space input) of
        Inl e \<Rightarrow> Inl (failure_text input e)
      | Inr (v, s) \<Rightarrow>
          let s = skip_space s
          in if s \<noteq> [] then Inl (failure_text input (At (length s) ''trailing data after JSON value'')) else Inr v)"

subsection \<open>Accessors\<close>

definition is_null :: "json \<Rightarrow> bool" where "is_null j \<longleftrightarrow> (case j of JNull \<Rightarrow> True | _ \<Rightarrow> False)"
definition is_bool :: "json \<Rightarrow> bool" where "is_bool j \<longleftrightarrow> (case j of JBool b \<Rightarrow> True | _ \<Rightarrow> False)"
definition is_number :: "json \<Rightarrow> bool" where "is_number j \<longleftrightarrow> (case j of JNumber t \<Rightarrow> True | _ \<Rightarrow> False)"
definition is_string :: "json \<Rightarrow> bool" where "is_string j \<longleftrightarrow> (case j of JString t \<Rightarrow> True | _ \<Rightarrow> False)"
definition is_array :: "json \<Rightarrow> bool" where "is_array j \<longleftrightarrow> (case j of JArray vs \<Rightarrow> True | _ \<Rightarrow> False)"
definition is_object :: "json \<Rightarrow> bool" where "is_object j \<longleftrightarrow> (case j of JObject kvs \<Rightarrow> True | _ \<Rightarrow> False)"

definition json_boolean :: "json \<Rightarrow> bool exc" where
  "json_boolean j = (case j of JBool b \<Rightarrow> Inr b | _ \<Rightarrow> Inl ''JSON value is not boolean'')"

definition json_string :: "json \<Rightarrow> string exc" where
  "json_string j = (case j of JString t \<Rightarrow> Inr t | _ \<Rightarrow> Inl ''JSON value is not a string'')"

definition number_text :: "json \<Rightarrow> string exc" where
  "number_text j = (case j of JNumber t \<Rightarrow> Inr t | _ \<Rightarrow> Inl ''JSON value is not numeric'')"

text \<open>\<open>std::from_chars\<close> on a whole text: no sign but a minus for the signed type, digits only, no overflow.\<close>

definition whole_digits :: "string \<Rightarrow> nat option" where
  "whole_digits t = (if t \<noteq> [] \<and> list_all is_digit t then Some (nat_of_digits t) else None)"

definition integer_value :: "json \<Rightarrow> int exc" where
  "integer_value j =
     (case number_text j of
        Inl e \<Rightarrow> Inl e
      | Inr t \<Rightarrow>
          (case (case consume (CHR ''-'') t of
                   Some u \<Rightarrow> map_option (\<lambda>n. - int n) (whole_digits u)
                 | None \<Rightarrow> map_option int (whole_digits t)) of
             Some i \<Rightarrow> if - (2 ^ 63) \<le> i \<and> i < 2 ^ 63 then Inr i else Inl ''JSON number is not a signed integer''
           | None \<Rightarrow> Inl ''JSON number is not a signed integer''))"

definition unsigned_value :: "json \<Rightarrow> u64 exc" where
  "unsigned_value j =
     (case number_text j of
        Inl e \<Rightarrow> Inl e
      | Inr t \<Rightarrow>
          (case whole_digits t of
             Some n \<Rightarrow> if n < 2 ^ 64 then Inr (word_of_nat n) else Inl ''JSON number is not an unsigned integer''
           | None \<Rightarrow> Inl ''JSON number is not an unsigned integer''))"

definition real_value :: "json_lib \<Rightarrow> json \<Rightarrow> u64 exc" where
  "real_value J j =
     (case number_text j of
        Inl e \<Rightarrow> Inl e
      | Inr t \<Rightarrow> (case jl_parse_double J (c_str t) of Some d \<Rightarrow> Inr d | None \<Rightarrow> Inl ''JSON number is not a finite real value''))"

definition json_array :: "json \<Rightarrow> json list exc" where
  "json_array j = (case j of JArray vs \<Rightarrow> Inr vs | _ \<Rightarrow> Inl ''JSON value is not an array'')"

definition json_object :: "json \<Rightarrow> (string \<times> json) list exc" where
  "json_object j = (case j of JObject kvs \<Rightarrow> Inr kvs | _ \<Rightarrow> Inl ''JSON value is not an object'')"

definition json_find :: "json \<Rightarrow> string \<Rightarrow> json option" where
  "json_find j key = (case j of JObject kvs \<Rightarrow> map_of kvs key | _ \<Rightarrow> None)"

definition json_at :: "json \<Rightarrow> string \<Rightarrow> json exc" where
  "json_at j key = (case json_find j key of Some v \<Rightarrow> Inr v | None \<Rightarrow> Inl (''JSON object is missing key '' @ key))"

definition string_or :: "json \<Rightarrow> string \<Rightarrow> string" where
  "string_or j fallback = (case j of JString t \<Rightarrow> t | _ \<Rightarrow> fallback)"

definition unsigned_or :: "json \<Rightarrow> u64 \<Rightarrow> u64" where
  "unsigned_or j fallback =
     (if \<not> is_number j then fallback else case unsigned_value j of Inr v \<Rightarrow> v | Inl _ \<Rightarrow> fallback)"

definition integer_or :: "json \<Rightarrow> int \<Rightarrow> int" where
  "integer_or j fallback =
     (if \<not> is_number j then fallback else case integer_value j of Inr v \<Rightarrow> v | Inl _ \<Rightarrow> fallback)"

definition real_or :: "json_lib \<Rightarrow> json \<Rightarrow> u64 \<Rightarrow> u64" where
  "real_or J j fallback =
     (if \<not> is_number j then fallback else case real_value J j of Inr v \<Rightarrow> v | Inl _ \<Rightarrow> fallback)"

definition bool_or :: "json \<Rightarrow> bool \<Rightarrow> bool" where
  "bool_or j fallback = (case j of JBool b \<Rightarrow> b | _ \<Rightarrow> fallback)"

subsection \<open>Constructors and printer\<close>

definition json_integer_of :: "int \<Rightarrow> json" where
  "json_integer_of i = JNumber (if i < 0 then CHR ''-'' # show_nat (nat (- i)) else show_nat (nat i))"

definition json_unsigned :: "u64 \<Rightarrow> json" where
  "json_unsigned v = JNumber (show_u64 v)"

definition is_finite :: "u64 \<Rightarrow> bool" where
  "is_finite d \<longleftrightarrow> drop_bit 52 d AND 0x7FF \<noteq> 0x7FF"

definition json_real :: "json_lib \<Rightarrow> u64 \<Rightarrow> json exc" where
  "json_real J d =
     (if \<not> is_finite d then Inl ''JSON cannot represent non-finite values''
      else let t = jl_format_17g J d
           in if t = [] \<or> length t \<ge> 64 then Inl ''formatting JSON number failed'' else Inr (JNumber t))"

definition quoted :: "json_lib \<Rightarrow> string \<Rightarrow> string exc" where
  "quoted J value =
     (let input = c_str value
      in case jl_escape_size J input of
           None \<Rightarrow> Inl ''JSON escaping measurement failed''
         | Some required \<Rightarrow>
             if required = 0 then Inl ''JSON escaping measurement failed''
             else (case jl_escape_fill J input required of
                     None \<Rightarrow> Inl ''JSON escaping failed''
                   | Some escaped \<Rightarrow> Inr (CHR 0x22 # c_str escaped @ [CHR 0x22])))"

text \<open>The elements of a container, with a comma between two.\<close>

fun json_dump :: "json_lib \<Rightarrow> json \<Rightarrow> string exc"
  and dump_items :: "json_lib \<Rightarrow> bool \<Rightarrow> json list \<Rightarrow> string exc"
  and dump_members :: "json_lib \<Rightarrow> bool \<Rightarrow> (string \<times> json) list \<Rightarrow> string exc" where
  "json_dump J JNull = Inr ''null''"
| "json_dump J (JBool b) = Inr (if b then ''true'' else ''false'')"
| "json_dump J (JNumber t) = Inr t"
| "json_dump J (JString t) = quoted J t"
| "json_dump J (JArray vs) = (case dump_items J True vs of Inl e \<Rightarrow> Inl e | Inr t \<Rightarrow> Inr (CHR ''['' # t @ '']''))"
| "json_dump J (JObject kvs) = (case dump_members J True kvs of Inl e \<Rightarrow> Inl e | Inr t \<Rightarrow> Inr (CHR 0x7B # t @ [CHR 0x7D]))"
| "dump_items J first [] = Inr []"
| "dump_items J first (v # vs) =
     (case json_dump J v of
        Inl e \<Rightarrow> Inl e
      | Inr t \<Rightarrow> (case dump_items J False vs of Inl e \<Rightarrow> Inl e | Inr u \<Rightarrow> Inr ((if first then [] else '','') @ t @ u)))"
| "dump_members J first [] = Inr []"
| "dump_members J first ((k, v) # kvs) =
     (case quoted J k of
        Inl e \<Rightarrow> Inl e
      | Inr q \<Rightarrow>
          (case json_dump J v of
             Inl e \<Rightarrow> Inl e
           | Inr t \<Rightarrow>
               (case dump_members J False kvs of
                  Inl e \<Rightarrow> Inl e
                | Inr u \<Rightarrow> Inr ((if first then [] else '','') @ q @ '':'' @ t @ u))))"

subsection \<open>Key order\<close>

lemma str_less_irrefl [simp]: "\<not> str_less a a"
  by (induction a) simp_all

lemma str_less_trans: "str_less a b \<Longrightarrow> str_less b c \<Longrightarrow> str_less a c"
  by (induction a b arbitrary: c rule: str_less.induct) (case_tac c; auto)+

lemma str_less_linear: "a \<noteq> b \<Longrightarrow> str_less a b \<or> str_less b a"
proof (induction a b rule: str_less.induct)
  case (4 x s y t)
  have "(of_char x :: nat) = of_char y \<longleftrightarrow> x = y" by (rule of_char_eq_iff)
  then show ?case using 4 by (auto simp: not_less order_le_less)
qed auto

definition key_sorted :: "(string \<times> 'a) list \<Rightarrow> bool" where
  "key_sorted kvs \<longleftrightarrow> sorted_wrt (\<lambda>a b. str_less (fst a) (fst b)) kvs"

lemma key_sorted_Cons: "key_sorted ((k, v) # kvs) \<longleftrightarrow> (\<forall>l \<in> fst ` set kvs. str_less k l) \<and> key_sorted kvs"
  by (auto simp: key_sorted_def)

lemma key_sorted_Nil [simp]: "key_sorted []" by (simp add: key_sorted_def)

lemma keys_object_set [simp]: "fst ` set (object_set k v kvs) = insert k (fst ` set kvs)"
  by (induction k v kvs rule: object_set.induct) auto

lemma object_set_sorted: "key_sorted kvs \<Longrightarrow> key_sorted (object_set k v kvs)"
proof (induction k v kvs rule: object_set.induct)
  case (2 k v l w kvs)
  have "str_less k l \<Longrightarrow> x \<in> fst ` set kvs \<Longrightarrow> str_less k x" for x
    using 2(2) str_less_trans by (auto simp: key_sorted_Cons)
  then show ?case
    using 2 str_less_linear [of k l] by (auto simp: key_sorted_Cons)
qed (simp add: key_sorted_Cons)

lemma map_of_object_set [simp]: "map_of (object_set k v kvs) = (map_of kvs)(k \<mapsto> v)"
  by (induction k v kvs rule: object_set.induct) auto

lemma object_set_values: "w \<in> snd ` set (object_set k v kvs) \<Longrightarrow> w = v \<or> w \<in> snd ` set kvs"
  by (induction k v kvs rule: object_set.induct) (auto split: if_splits)

lemma object_set_last: "\<forall>l \<in> fst ` set kvs. str_less l k \<Longrightarrow> object_set k v kvs = kvs @ [(k, v)]"
proof (induction k v kvs rule: object_set.induct)
  case (2 k v l w kvs)
  then have "str_less l k" by simp
  then have "k \<noteq> l" "\<not> str_less k l" using str_less_trans [of k l k] by auto
  then show ?case using 2 by simp
qed simp

subsection \<open>Well-formed values\<close>

fun json_wf :: "nat \<Rightarrow> json \<Rightarrow> bool" where
  "json_wf 0 j = False"
| "json_wf (Suc n) JNull = True"
| "json_wf (Suc n) (JBool b) = True"
| "json_wf (Suc n) (JNumber t) = json_number t"
| "json_wf (Suc n) (JString t) = True"
| "json_wf (Suc n) (JArray vs) = (\<forall>v \<in> set vs. json_wf n v)"
| "json_wf (Suc n) (JObject kvs) = (key_sorted kvs \<and> (\<forall>v \<in> snd ` set kvs. json_wf n v))"

lemma json_number_of_wf: "json_number_of t = Inr v \<Longrightarrow> v = JNumber t \<and> json_number t"
  using skip_number_sound by (fastforce simp: json_number_of_def split: if_splits option.splits list.splits)

lemma consume_Some: "consume c s = Some t \<longleftrightarrow> s = c # t"
  by (auto simp: consume_def split: list.splits)

lemma consume_hit [simp]: "consume c (c # t) = Some t"
  by (simp add: consume_def)

lemma array_items_wf:
  assumes "\<And>s v r. pv s = Inr (v, r) \<Longrightarrow> P v"
  shows "array_items pv f s = Inr (vs, r) \<Longrightarrow> \<forall>v \<in> set vs. P v"
proof (induction f arbitrary: s vs)
  case (Suc f)
  then show ?case
    using assms by (auto simp: fail_at_def Let_def split: sum.splits option.splits prod.splits)
qed (simp add: exhausted_def)

lemma object_items_wf:
  assumes "\<And>s v r. pv s = Inr (v, r) \<Longrightarrow> P v"
  shows "object_items J pv f acc s = Inr (kvs, r) \<Longrightarrow> key_sorted acc \<Longrightarrow> \<forall>v \<in> snd ` set acc. P v \<Longrightarrow>
    key_sorted kvs \<and> (\<forall>v \<in> snd ` set kvs. P v)"
proof (induction f arbitrary: acc s)
  case (Suc f)
  obtain key s1 s2 v s3 where run: "parse_string J s = Inr (key, s1)" "consume (CHR '':'') (skip_space s1) = Some s2"
    "pv (skip_space s2) = Inr (v, s3)" "key \<notin> fst ` set acc"
    using Suc.prems(1) by (auto simp: fail_at_def Let_def split: sum.splits option.splits prod.splits if_splits)
  have acc: "key_sorted (object_set key v acc)" "\<forall>w \<in> snd ` set (object_set key v acc). P w"
    using object_set_sorted [OF Suc.prems(2)] object_set_values [of _ key v acc] assms [OF run(3)] Suc.prems(3) by blast+
  show ?case
  proof (cases "consume (CHR 0x7D) (skip_space s3)")
    case None
    then obtain t where "object_items J pv f (object_set key v acc) (skip_space t) = Inr (kvs, r)"
      using Suc.prems(1) run by (auto simp: fail_at_def Let_def split: option.splits if_splits)
    then show ?thesis using Suc.IH acc by blast
  next
    case (Some t)
    then show ?thesis using Suc.prems(1) run acc by (auto simp: fail_at_def Let_def split: if_splits)
  qed
qed (simp add: exhausted_def)

lemma parse_value_wf: "parse_value J n s = Inr (v, r) \<Longrightarrow> json_wf n v"
proof (induction n arbitrary: s v r)
  case (Suc n)
  obtain c t where t: "skip_space s = c # t"
    using Suc.prems by (cases "skip_space s") (auto simp: fail_at_def)
  have items: "array_items (parse_value J n) f s = Inr (vs, r) \<Longrightarrow> \<forall>v \<in> set vs. json_wf n v" for f s vs r
    by (rule array_items_wf) (rule Suc.IH)
  have members: "object_items J (parse_value J n) f [] s = Inr (kvs, r) \<Longrightarrow> key_sorted kvs \<and> (\<forall>v \<in> snd ` set kvs. json_wf n v)"
    for f s kvs r
    by (rule object_items_wf) (auto intro: Suc.IH)
  have array: "\<forall>v \<in> set vs. json_wf n v" if "parse_array (parse_value J n) (c # t) = Inr (vs, r)" for vs
    using that by (auto simp: parse_array_def fail_at_def Let_def simp del: array_items.simps split: option.splits dest: items)
  have object: "key_sorted kvs \<and> (\<forall>v \<in> snd ` set kvs. json_wf n v)"
    if run: "parse_object J (parse_value J n) (c # t) = Inr (kvs, r)" for kvs
  proof -
    consider "kvs = []" | f s where "object_items J (parse_value J n) f [] s = Inr (kvs, r)"
      using run by (auto simp: parse_object_def fail_at_def Let_def simp del: object_items.simps split: option.splits)
    then show ?thesis by cases (simp, rule members)
  qed
  consider "c \<in> {CHR ''n'', CHR ''t'', CHR ''f'', CHR 0x22}" | "c = CHR ''[''" | "c = CHR 0x7B"
    | "c \<notin> {CHR ''n'', CHR ''t'', CHR ''f'', CHR 0x22, CHR ''['', CHR 0x7B}"
    by blast
  then show ?case
  proof cases
    case 1
    then show ?thesis
      using Suc.prems t by (auto simp: Let_def literal_def fail_at_def as_value_def split: if_splits sum.splits)
  next
    case 2
    then have "as_value JArray (parse_array (parse_value J n) (c # t)) = Inr (v, r)"
      using Suc.prems t by simp
    then show ?thesis using array by (auto simp: as_value_def split: sum.splits)
  next
    case 3
    then have "as_value JObject (parse_object J (parse_value J n) (c # t)) = Inr (v, r)"
      using Suc.prems t by simp
    then show ?thesis using object by (auto simp: as_value_def split: sum.splits)
  next
    case 4
    then have "(case parse_number (c # t) of Inl e \<Rightarrow> Inl e
        | Inr (spelt, r) \<Rightarrow> (case json_number_of spelt of Inl e \<Rightarrow> Inl (Plain e) | Inr v \<Rightarrow> Inr (v, r))) = Inr (v, r)"
      using Suc.prems t by (cases "c = CHR ''-'' \<or> is_digit c") (simp_all add: fail_at_def)
    then obtain spelt where "json_number_of spelt = Inr v"
      by (simp split: sum.splits prod.splits)
    then show ?thesis using json_number_of_wf [of spelt v] by simp
  qed
qed (simp add: fail_at_def)

text \<open>
  Property C17. Every value that \<open>Json::parse\<close> returns is well formed: it nests at most 65 levels, every number
  is a number of the JSON grammar, and every object holds each key once, in key order.
\<close>

theorem parsed_json_type:
  assumes "json_parse J input = Inr v"
  shows "json_wf 65 v"
  using assms parse_value_wf by (auto simp: json_parse_def Let_def split: sum.splits if_splits)

text \<open>A library for examples: it escapes the characters that need it, and encodes ASCII only.\<close>

definition demo_hex :: "nat \<Rightarrow> string" where
  "demo_hex n = [CHR ''0'', CHR ''0'', ''0123456789abcdef'' ! (n div 16), ''0123456789abcdef'' ! (n mod 16)]"

definition demo_escape_char :: "char \<Rightarrow> string" where
  "demo_escape_char c =
     (if c = CHR 0x22 then [CHR 0x5C, CHR 0x22] else if c = CHR 0x5C then [CHR 0x5C, CHR 0x5C]
      else if (of_char c :: nat) < 0x20 then CHR 0x5C # CHR ''u'' # demo_hex (of_char c) else [c])"

definition demo_json_lib :: json_lib where
  "demo_json_lib =
     \<lparr>jl_escape_size = \<lambda>s. Some 1, jl_escape_fill = \<lambda>s n. Some (concat (map demo_escape_char s)),
      jl_utf8 = \<lambda>w. if w < 0x80 then Some [char_of (unat w)] else None, jl_parse_double = \<lambda>s. None, jl_format_17g = \<lambda>d. ''0''\<rparr>"

theorem parsed_json_type_witness:
  "json_parse demo_json_lib ''[1, [true]] '' = Inr (JArray [JNumber ''1'', JArray [JBool True]]) \<and>
   json_wf 65 (JArray [JNumber ''1'', JArray [JBool True]])"
proof -
  have "json_parse demo_json_lib ''[1, [true]] '' = Inr (JArray [JNumber ''1'', JArray [JBool True]])"
    by (simp add: json_parse_def parse_value.simps eval_nat_numeral parse_array_def skip_space_def json_space_def consume_def
        as_value_def is_digit_def parse_number_def number_integer_def number_fraction_def number_exponent_def skip_digits_def
        literal_def starts_with_def json_number_of_def skip_number_def skip_integer_def skip_fraction_def skip_exponent_def
        starts_digit_def)
  then show ?thesis using parsed_json_type by blast
qed

subsection \<open>The fuel is enough\<close>

lemma skip_space_length: "length (skip_space s) \<le> length s"
  by (simp add: skip_space_def length_dropWhile_le)

lemma prepend_Inr: "prepend p x = Inr (t, r) \<Longrightarrow> \<exists>u. x = Inr (u, r)"
  by (auto simp: prepend_def split: sum.splits)

lemma string_body_length: "string_body J s = Inr (t, r) \<Longrightarrow> length r < length s"
proof (induction s arbitrary: t r rule: length_induct)
  case (1 s)
  obtain c u where s: "s = c # u" using 1(2) by (cases s) (auto simp: fail_at_def)
  have shorter: "length r < length s" if "string_body J w = Inr (y, r)" "length w < length s" for w y
    using 1(1) that by (meson less_trans)
  consider "c = CHR 0x22 \<or> (of_char c :: nat) < 0x20" | "c \<noteq> CHR 0x22" "\<not> (of_char c :: nat) < 0x20" "c \<noteq> CHR 0x5C" | "c = CHR 0x5C"
    by blast
  then show ?case
  proof cases
    case 1
    then show ?thesis using \<open>string_body J s = Inr (t, r)\<close> s by (auto simp: fail_at_def split: if_splits)
  next
    case 2
    then have "prepend [c] (string_body J u) = Inr (t, r)" using \<open>string_body J s = Inr (t, r)\<close> s by simp
    then show ?thesis using prepend_Inr shorter [of u] s by fastforce
  next
    case 3
    then obtain e w where u: "u = e # w" using \<open>string_body J s = Inr (t, r)\<close> s by (cases u) (auto simp: fail_at_def)
    show ?thesis
    proof (cases "simple_escape e")
      case None
      then obtain x v where x: "unicode_escape J w = Inr (x, v)" "prepend x (string_body J v) = Inr (t, r)"
        using \<open>string_body J s = Inr (t, r)\<close> 3 s u by (auto simp: fail_at_def split: if_splits sum.splits)
      then show ?thesis using prepend_Inr [OF x(2)] unicode_escape_length [OF x(1)] shorter [of v] s u by auto
    next
      case (Some x)
      then have "prepend [x] (string_body J w) = Inr (t, r)" using \<open>string_body J s = Inr (t, r)\<close> 3 s u by simp
      then show ?thesis using prepend_Inr shorter [of w] s u by fastforce
    qed
  qed
qed

lemma parse_string_length: "parse_string J s = Inr (t, r) \<Longrightarrow> length r < length s"
  using string_body_length by (fastforce simp: parse_string_def fail_at_def consume_Some split: option.splits)

lemma skip_digits_length: "length (skip_digits s) \<le> length s"
  by (simp add: skip_digits_def length_dropWhile_le)

lemma number_integer_length: "number_integer s = Inr (u, r) \<Longrightarrow> length r < length s"
  using skip_digits_length
  by (auto simp: number_integer_def consume_def fail_at_def Let_def le_imp_less_Suc less_Suc_eq_le le_Suc_eq split: list.splits if_splits)

lemma some_more_digits_length: "some_more_digits m s = Inr (u, r) \<Longrightarrow> length r \<le> length s"
  using skip_digits_length by (auto simp: some_more_digits_def fail_at_def Let_def split: if_splits)

lemma number_fraction_length: "number_fraction s = Inr (u, r) \<Longrightarrow> length r \<le> length s"
  using some_more_digits_length by (fastforce simp: number_fraction_def consume_Some split: option.splits)

lemma number_exponent_length:
  assumes "number_exponent s = Inr (u, r)"
  shows "length r \<le> length s"
proof (cases s)
  case (Cons c t)
  define w where "w = (case t of [] \<Rightarrow> [] | d # u \<Rightarrow> if d = CHR ''+'' \<or> d = CHR ''-'' then u else t)"
  have "length w \<le> length t" by (auto simp: w_def split: list.split)
  moreover have "r = s \<or> some_more_digits ''exponent has no digits'' w = Inr (u, r)"
    using assms Cons by (auto simp: number_exponent_def w_def split: if_splits)
  ultimately show ?thesis using some_more_digits_length [of "''exponent has no digits''" w u r] Cons by (elim disjE) simp_all
qed (use assms in \<open>simp add: number_exponent_def\<close>)

lemma parse_number_length:
  assumes "parse_number s = Inr (n, r)"
  shows "length r < length s"
proof -
  obtain i f where "number_integer s = Inr ((), i)" "number_fraction i = Inr ((), f)" "number_exponent f = Inr ((), r)"
    using assms by (auto simp: parse_number_def split: sum.splits)
  then show ?thesis
    using number_integer_length number_fraction_length number_exponent_length by (meson leD leI le_trans less_le_trans)
qed

definition shortens :: "(string \<Rightarrow> 'a parsed) \<Rightarrow> bool" where
  "shortens p \<longleftrightarrow> (\<forall>s v r. p s = Inr (v, r) \<longrightarrow> length r < length s)"

lemma array_items_length:
  assumes "shortens pv"
  shows "array_items pv f s = Inr (vs, r) \<Longrightarrow> length r < length s"
proof (induction f arbitrary: s vs)
  case (Suc f)
  obtain v s1 where v: "pv s = Inr (v, s1)"
    using Suc.prems by (auto split: sum.splits)
  have l: "length (skip_space s1) < length s"
    using assms v skip_space_length [of s1] unfolding shortens_def by (meson le_less_trans)
  show ?case
  proof (cases "consume (CHR '']'') (skip_space s1)")
    case None
    then obtain t ws where t: "consume (CHR '','') (skip_space s1) = Some t" "array_items pv f (skip_space t) = Inr (ws, r)"
      using Suc.prems v by (auto simp: fail_at_def Let_def split: option.splits sum.splits)
    then show ?thesis using Suc.IH [OF t(2)] l skip_space_length [of t] by (simp add: consume_Some)
  next
    case (Some t)
    then have "r = t" "skip_space s1 = CHR '']'' # t" using Suc.prems v by (simp_all add: consume_Some Let_def)
    then show ?thesis using l by simp
  qed
qed (simp add: exhausted_def)

lemma object_items_length:
  assumes "shortens pv"
  shows "object_items J pv f acc s = Inr (kvs, r) \<Longrightarrow> length r < length s"
proof (induction f arbitrary: acc s)
  case (Suc f)
  obtain key s1 s2 v s3 where run: "parse_string J s = Inr (key, s1)" "skip_space s1 = CHR '':'' # s2"
    "pv (skip_space s2) = Inr (v, s3)" "key \<notin> fst ` set acc"
    using Suc.prems(1) by (auto simp: fail_at_def Let_def consume_Some split: sum.splits option.splits prod.splits if_splits)
  have "length s3 < length (skip_space s2)" using assms run(3) unfolding shortens_def by blast
  then have l: "length (skip_space s3) < length s"
    using parse_string_length [OF run(1)] skip_space_length [of s1] skip_space_length [of s2] skip_space_length [of s3] run(2) by simp
  show ?case
  proof (cases "consume (CHR 0x7D) (skip_space s3)")
    case None
    then obtain t where "consume (CHR '','') (skip_space s3) = Some t"
      "object_items J pv f (object_set key v acc) (skip_space t) = Inr (kvs, r)"
      using Suc.prems(1) run by (auto simp: fail_at_def Let_def consume_def split: option.splits if_splits)
    then show ?thesis using Suc.IH l skip_space_length [of t] by (fastforce simp: consume_Some)
  next
    case (Some t)
    then show ?thesis using Suc.prems(1) run l by (auto simp: fail_at_def Let_def consume_def split: if_splits list.splits)
  qed
qed (simp add: exhausted_def)

lemma literal_shortens: "literal w v s = Inr (x, r) \<Longrightarrow> w \<noteq> [] \<Longrightarrow> length r < length s"
  using skip_word [of s w] by (auto simp: literal_def fail_at_def split: if_splits)

lemma parse_array_length: "shortens pv \<Longrightarrow> parse_array pv s = Inr (vs, r) \<Longrightarrow> length r < length s"
proof -
  assume pv: "shortens pv" and run: "parse_array pv s = Inr (vs, r)"
  obtain u where u: "s = CHR ''['' # u" using run by (auto simp: parse_array_def fail_at_def consume_Some split: option.splits)
  consider "skip_space u = CHR '']'' # r" | "array_items pv (Suc (length (skip_space u))) (skip_space u) = Inr (vs, r)"
    using run u by (auto simp: parse_array_def consume_def Let_def simp del: array_items.simps split: list.splits if_splits)
  then show ?thesis
    using array_items_length [OF pv, of "Suc (length (skip_space u))" "skip_space u" vs r] skip_space_length [of u] u
    by cases (simp_all del: array_items.simps)
qed

lemma parse_object_length: "shortens pv \<Longrightarrow> parse_object J pv s = Inr (kvs, r) \<Longrightarrow> length r < length s"
proof -
  assume pv: "shortens pv" and run: "parse_object J pv s = Inr (kvs, r)"
  obtain u where u: "s = CHR 0x7B # u" using run by (auto simp: parse_object_def fail_at_def consume_Some split: option.splits)
  consider "skip_space u = CHR 0x7D # r" | "object_items J pv (Suc (length (skip_space u))) [] (skip_space u) = Inr (kvs, r)"
    using run u by (auto simp: parse_object_def consume_def Let_def simp del: object_items.simps split: list.splits if_splits)
  then show ?thesis
    using object_items_length [OF pv, of J "Suc (length (skip_space u))" "[]" "skip_space u" kvs r] skip_space_length [of u] u
    by cases (simp_all del: object_items.simps)
qed

declare array_items.simps [simp del] object_items.simps [simp del]

lemma number_value_length:
  assumes "(case parse_number s of Inl e \<Rightarrow> Inl e
        | Inr (spelt, r) \<Rightarrow> (case json_number_of spelt of Inl e \<Rightarrow> Inl (Plain e) | Inr v \<Rightarrow> Inr (v, r))) = Inr (v, r)"
  shows "length r < length s"
  using assms parse_number_length by (auto split: sum.splits)

lemma parse_value_shortens: "shortens (parse_value J n)"
proof (induction n)
  case (Suc n)
  have "length r < length s" if run: "parse_value J (Suc n) s = Inr (v, r)" for s v r
  proof -
    obtain c t where t: "skip_space s = c # t"
      using run by (cases "skip_space s") (auto simp: fail_at_def)
    have "length r < length (c # t)"
    proof (cases "c \<in> {CHR ''n'', CHR ''t'', CHR ''f''}")
      case True
      then show ?thesis
        using run t literal_shortens [of "''null''" JNull "c # t" v r] literal_shortens [of "''true''" "JBool True" "c # t" v r]
          literal_shortens [of "''false''" "JBool False" "c # t" v r] by auto
    next
      case words: False
      consider "c = CHR 0x22" | "c = CHR ''[''" | "c = CHR 0x7B" | "c \<notin> {CHR 0x22, CHR ''['', CHR 0x7B}" by blast
      then show ?thesis
      proof cases
        case 1
        then have "as_value JString (parse_string J (c # t)) = Inr (v, r)" using run t by simp
        then show ?thesis using parse_string_length by (fastforce simp: as_value_def split: sum.splits)
      next
        case 2
        then have "as_value JArray (parse_array (parse_value J n) (c # t)) = Inr (v, r)" using run t by simp
        then show ?thesis using parse_array_length [OF Suc.IH] by (fastforce simp: as_value_def split: sum.splits)
      next
        case 3
        then have "as_value JObject (parse_object J (parse_value J n) (c # t)) = Inr (v, r)" using run t by simp
        then show ?thesis using parse_object_length [OF Suc.IH] by (fastforce simp: as_value_def split: sum.splits)
      next
        case 4
        then show ?thesis
          using run t words by (intro number_value_length) (cases "c = CHR ''-'' \<or> is_digit c"; simp add: fail_at_def)
      qed
    qed
    then show ?thesis using t skip_space_length [of s] by simp
  qed
  then show ?case by (simp add: shortens_def)
qed (simp add: shortens_def fail_at_def)

text \<open>More fuel than the text is long never runs out: the two loops are then independent of it.\<close>

lemma array_items_fuel:
  assumes "shortens pv"
  shows "length s < f \<Longrightarrow> length s < g \<Longrightarrow> array_items pv f s = array_items pv g s"
proof (induction f arbitrary: g s)
  case (Suc f)
  obtain h where g: "g = Suc h" using Suc.prems(2) by (cases g) auto
  have "array_items pv f (skip_space t) = array_items pv h (skip_space t)"
    if "pv s = Inr (v, s1)" "consume (CHR '','') (skip_space s1) = Some t" for v s1 t
  proof -
    have "length (skip_space t) < length s"
      using assms that skip_space_length [of s1] skip_space_length [of t] unfolding shortens_def consume_Some by fastforce
    then show ?thesis using Suc.prems g by (intro Suc.IH) simp_all
  qed
  then show ?case
    unfolding g by (auto simp: array_items.simps Let_def split: sum.split option.split)
qed simp

lemma object_items_fuel:
  assumes "shortens pv"
  shows "length s < f \<Longrightarrow> length s < g \<Longrightarrow> object_items J pv f acc s = object_items J pv g acc s"
proof (induction f arbitrary: g s acc)
  case (Suc f)
  obtain h where g: "g = Suc h" using Suc.prems(2) by (cases g) auto
  have "object_items J pv f a (skip_space t) = object_items J pv h a (skip_space t)"
    if "parse_string J s = Inr (key, s1)" "consume (CHR '':'') (skip_space s1) = Some s2" "pv (skip_space s2) = Inr (v, s3)"
      "consume (CHR '','') (skip_space s3) = Some t" for a key s1 s2 v s3 t
  proof -
    have "length s3 < length (skip_space s2)" using assms that(3) unfolding shortens_def by blast
    then have "length (skip_space t) < length s"
      using that parse_string_length [OF that(1)] skip_space_length [of s1] skip_space_length [of s2] skip_space_length [of s3]
        skip_space_length [of t] by (simp add: consume_Some)
    then show ?thesis using Suc.prems g by (intro Suc.IH) simp_all
  qed
  then show ?case
    unfolding g by (auto simp: object_items.simps Let_def split: sum.split option.split)
qed simp

subsection \<open>What is printed is parsed back\<close>

text \<open>The spellings of a character inside a JSON string, and a library whose escaping uses them for ASCII texts.\<close>

definition spells :: "char \<Rightarrow> string \<Rightarrow> bool" where
  "spells c e \<longleftrightarrow>
     (e = [c] \<and> 0x20 \<le> (of_char c :: nat) \<and> c \<noteq> CHR 0x22 \<and> c \<noteq> CHR 0x5C) \<or>
     (\<exists>x. e = [CHR 0x5C, x] \<and> simple_escape x = Some c) \<or>
     (\<exists>h. e = CHR 0x5C # CHR ''u'' # h \<and> parse_hex4 h = Inr (word_of_nat (of_char c), []))"

definition ascii :: "string \<Rightarrow> bool" where
  "ascii s \<longleftrightarrow> (\<forall>c \<in> set s. 0 < (of_char c :: nat) \<and> (of_char c :: nat) < 0x80)"

definition escapes_ascii :: "json_lib \<Rightarrow> bool" where
  "escapes_ascii J \<longleftrightarrow>
     (\<forall>w < 0x80. jl_utf8 J w = Some [char_of (unat w)]) \<and>
     (\<forall>s. ascii s \<longrightarrow> (\<exists>n es. jl_escape_size J s = Some n \<and> n \<noteq> 0 \<and> jl_escape_fill J s n = Some (concat es) \<and>
        list_all2 spells s es \<and> CHR 0x00 \<notin> set (concat es)))"

lemma hex_digits_append: "hex_digits n v s = Inr (w, []) \<Longrightarrow> hex_digits n v (s @ r) = Inr (w, r)"
  by (induction n v s rule: hex_digits.induct) (auto simp: fail_at_def split: option.splits)

lemma parse_hex4_append: "parse_hex4 h = Inr (w, []) \<Longrightarrow> parse_hex4 (h @ r) = Inr (w, r)"
  using hex_digits_append by (auto simp: parse_hex4_def fail_at_def split: if_splits)

lemma ascii_word: "(of_char c :: nat) < 0x80 \<Longrightarrow> (word_of_nat (of_char c) :: u32) < 0x80 \<and> unat (word_of_nat (of_char c) :: u32) = of_char c"
  by (simp add: word_less_nat_alt unat_of_nat)

lemma unicode_escape_ascii:
  assumes "escapes_ascii J" "(of_char c :: nat) < 0x80" "parse_hex4 h = Inr (word_of_nat (of_char c), [])"
  shows "unicode_escape J (h @ r) = Inr ([c], r)"
proof -
  let ?w = "word_of_nat (of_char c) :: u32"
  have w: "?w < 0x80" "unat ?w = of_char c" using ascii_word [OF assms(2)] by blast+
  then have "\<not> ?w \<ge> 0xD800" "\<not> ?w \<ge> 0xDC00" by (simp_all add: word_less_nat_alt word_le_nat_alt)
  moreover have "jl_utf8 J ?w = Some [c]" using assms(1) w by (simp add: escapes_ascii_def)
  ultimately show ?thesis
    using parse_hex4_append [OF assms(3), of r] by (simp add: unicode_escape_def append_utf8_def)
qed

lemma string_body_spelt:
  assumes J: "escapes_ascii J"
  shows "list_all2 spells s es \<Longrightarrow> ascii s \<Longrightarrow> string_body J (concat es @ CHR 0x22 # r) = Inr (s, r)"
proof (induction rule: list_all2_induct)
  case (Cons c s e es)
  have c: "(of_char c :: nat) < 0x80" and ih: "string_body J (concat es @ CHR 0x22 # r) = Inr (s, r)"
    using Cons by (simp_all add: ascii_def)
  from Cons.hyps(1) show ?case
    unfolding spells_def
  proof (elim disjE exE conjE)
    assume "e = [c]" "0x20 \<le> (of_char c :: nat)" "c \<noteq> CHR 0x22" "c \<noteq> CHR 0x5C"
    then show ?thesis using ih by (simp add: prepend_def)
  next
    fix x assume "e = [CHR 0x5C, x]" "simple_escape x = Some c"
    then show ?thesis using ih by (simp add: prepend_def)
  next
    fix h assume e: "e = CHR 0x5C # CHR ''u'' # h" and h: "parse_hex4 h = Inr (word_of_nat (of_char c), [])"
    have "simple_escape (CHR ''u'') = None" by (simp add: simple_escape_def)
    then show ?thesis
      using ih e unicode_escape_ascii [OF J c h, of "concat es @ CHR 0x22 # r"] by (simp add: prepend_def)
  qed
qed simp

lemma c_str_id: "CHR 0x00 \<notin> set s \<Longrightarrow> c_str s = s"
  by (induction s) (auto simp: c_str_def)

lemma ascii_no_zero: "ascii s \<Longrightarrow> CHR 0x00 \<notin> set s"
  by (fastforce simp: ascii_def)

lemma quoted_ascii:
  assumes "escapes_ascii J" "ascii s"
  shows "\<exists>t. quoted J s = Inr (CHR 0x22 # t) \<and> (\<forall>r. parse_string J (CHR 0x22 # t @ r) = Inr (s, r))"
proof -
  obtain n es where es: "jl_escape_size J s = Some n" "n \<noteq> 0" "jl_escape_fill J s n = Some (concat es)"
    "list_all2 spells s es" "CHR 0x00 \<notin> set (concat es)"
    using assms unfolding escapes_ascii_def by blast
  have "quoted J s = Inr (CHR 0x22 # concat es @ [CHR 0x22])"
    using es c_str_id [OF es(5)] c_str_id [OF ascii_no_zero [OF assms(2)]] by (simp add: quoted_def)
  then show ?thesis
    using string_body_spelt [OF assms(1) es(4) assms(2)] by (simp add: parse_string_def)
qed

lemma number_integer_skip: "skip_integer s = Some r \<Longrightarrow> number_integer s = Inr ((), r)"
  by (auto simp: skip_integer_def number_integer_def consume_def Let_def split: list.splits if_splits)

lemma some_more_digits_skip: "starts_digit s \<Longrightarrow> some_more_digits m s = Inr ((), skip_digits s)"
proof -
  assume "starts_digit s"
  then obtain ds where "s = ds @ skip_digits s" "some_digits ds" using starts_digit_split by blast
  then have "length (skip_digits s) \<noteq> length s" by (metis append_self_conv2 length_append add_eq_self_zero length_0_conv some_digits_def add.commute)
  then show ?thesis by (simp add: some_more_digits_def Let_def)
qed

lemma number_fraction_skip: "skip_fraction s = Some r \<Longrightarrow> number_fraction s = Inr ((), r)"
  using some_more_digits_skip by (auto simp: skip_fraction_def number_fraction_def consume_def split: list.splits if_splits)

lemma number_exponent_skip: "skip_exponent s = Some r \<Longrightarrow> number_exponent s = Inr ((), r)"
  by (auto simp: skip_exponent_def number_exponent_def some_more_digits_skip Let_def split: list.splits if_splits)

lemma parse_number_skip:
  assumes "skip_number s = Some r"
  shows "parse_number s = Inr (take (length s - length r) s, r)"
proof -
  obtain i f where "skip_integer s = Some i" "skip_fraction i = Some f" "skip_exponent f = Some r"
    using assms by (auto simp: skip_number_def split: option.splits)
  then show ?thesis
    by (simp add: parse_number_def number_integer_skip number_fraction_skip number_exponent_skip)
qed

lemma parse_number_complete: "json_number t \<Longrightarrow> delimited r \<Longrightarrow> parse_number (t @ r) = Inr (t, r)"
  using parse_number_skip [OF skip_number_complete] by simp

lemma json_number_of_complete: "json_number t \<Longrightarrow> json_number_of t = Inr (JNumber t)"
proof -
  assume t: "json_number t"
  then have "skip_number t = Some []" using skip_number_complete [of t "[]"] by (simp add: delimited_def)
  moreover have "t \<noteq> []" using number_head [OF t] by auto
  ultimately show ?thesis by (simp add: json_number_of_def)
qed

fun json_ascii :: "nat \<Rightarrow> json \<Rightarrow> bool" where
  "json_ascii 0 j = False"
| "json_ascii (Suc n) (JString t) = ascii t"
| "json_ascii (Suc n) (JArray vs) = (\<forall>v \<in> set vs. json_ascii n v)"
| "json_ascii (Suc n) (JObject kvs) = (\<forall>(k, v) \<in> set kvs. ascii k \<and> json_ascii n v)"
| "json_ascii (Suc n) j = True"

text \<open>
  Values whose objects may be in any order, as long as each key occurs once; \<open>json_norm\<close> is what
  a \<open>std::map\<close> makes of them.
\<close>

fun json_ok :: "nat \<Rightarrow> json \<Rightarrow> bool" where
  "json_ok 0 j = False"
| "json_ok (Suc n) (JNumber t) = json_number t"
| "json_ok (Suc n) (JArray vs) = (\<forall>v \<in> set vs. json_ok n v)"
| "json_ok (Suc n) (JObject kvs) = (distinct (map fst kvs) \<and> (\<forall>v \<in> snd ` set kvs. json_ok n v))"
| "json_ok (Suc n) j = True"

definition insert_members :: "(string \<times> json) list \<Rightarrow> (string \<times> json) list \<Rightarrow> (string \<times> json) list" where
  "insert_members acc kvs = foldl (\<lambda>acc m. object_set (fst m) (snd m) acc) acc kvs"

fun json_norm :: "json \<Rightarrow> json" where
  "json_norm (JArray vs) = JArray (map json_norm vs)"
| "json_norm (JObject kvs) = JObject (insert_members [] (map (\<lambda>m. (fst m, json_norm (snd m))) kvs))"
| "json_norm j = j"

lemma key_sorted_distinct: "key_sorted kvs \<Longrightarrow> distinct (map fst kvs)"
  by (induction kvs) (auto simp: key_sorted_def)

lemma insert_members_sorted: "key_sorted (acc @ kvs) \<Longrightarrow> insert_members acc kvs = acc @ kvs"
proof (induction kvs arbitrary: acc)
  case (Cons m kvs)
  have "\<forall>l \<in> fst ` set acc. str_less l (fst m)" using Cons.prems by (auto simp: key_sorted_def sorted_wrt_append)
  then have "object_set (fst m) (snd m) acc = acc @ [m]" using object_set_last [of acc "fst m" "snd m"] by simp
  then show ?case using Cons.IH [of "acc @ [m]"] Cons.prems by (simp add: insert_members_def)
qed (simp add: insert_members_def)

lemma wf_ok_norm: "json_wf n v \<Longrightarrow> json_ok n v \<and> json_norm v = v"
proof (induction n v rule: json_wf.induct)
  case (6 n vs)
  then show ?case by (auto intro: map_idI)
next
  case (7 n kvs)
  then have "map (\<lambda>m. (fst m, json_norm (snd m))) kvs = kvs" by (intro map_idI) force
  then show ?case using 7 key_sorted_distinct [of kvs] insert_members_sorted [of "[]" kvs] by force
qed auto

text \<open>A printed value starts with none of the characters that end or separate, and is read back by a parser.\<close>

definition opens_value :: "string \<Rightarrow> bool" where
  "opens_value t \<longleftrightarrow> (\<exists>c u. t = c # u \<and> \<not> json_space c \<and> c \<notin> {CHR '']'', CHR 0x7D, CHR '',''})"

definition prints_back :: "json_lib \<Rightarrow> (string \<Rightarrow> json parsed) \<Rightarrow> json \<Rightarrow> bool" where
  "prints_back J pv v \<longleftrightarrow>
     (\<exists>t. json_dump J v = Inr t \<and> opens_value t \<and> (\<forall>r. delimited r \<longrightarrow> pv (t @ r) = Inr (json_norm v, r)))"

lemma skip_space_open: "opens_value t \<Longrightarrow> skip_space (t @ r) = t @ r"
  by (auto simp: opens_value_def skip_space_def)

lemma skip_space_Cons [simp]: "\<not> json_space c \<Longrightarrow> skip_space (c # s) = c # s"
  by (simp add: skip_space_def)

lemma no_space [simp]: "\<not> json_space CHR '']''" "\<not> json_space CHR 0x7D" "\<not> json_space CHR '',''" "\<not> json_space CHR 0x22"
  "\<not> json_space CHR '':''" "\<not> json_space CHR ''[''" "\<not> json_space CHR 0x7B"
  by (simp_all add: json_space_def)

lemma delimited_ends [simp]: "delimited (CHR '']'' # r)" "delimited (CHR 0x7D # r)" "delimited (CHR '','' # r)" "delimited []"
  by (simp_all add: delimited_def is_digit_def)

lemma consume_miss [simp]: "c \<noteq> d \<Longrightarrow> consume c (d # t) = None"
  by (simp add: consume_def)

lemma dump_items_later: "dump_items J False (v # vs) = (case dump_items J True (v # vs) of Inl e \<Rightarrow> Inl e | Inr u \<Rightarrow> Inr (CHR '','' # u))"
  by (auto split: sum.split)

lemma dump_members_later:
  "dump_members J False (m # kvs) = (case dump_members J True (m # kvs) of Inl e \<Rightarrow> Inl e | Inr u \<Rightarrow> Inr (CHR '','' # u))"
  by (cases m) (auto split: sum.split)

lemma opens_append: "opens_value t \<Longrightarrow> opens_value (t @ u)"
  by (auto simp: opens_value_def)

lemma items_print_back:
  "vs \<noteq> [] \<Longrightarrow> \<forall>v \<in> set vs. prints_back J pv v \<Longrightarrow>
   \<exists>t. dump_items J True vs = Inr t \<and> opens_value t \<and> length vs \<le> length t \<and>
       (\<forall>r f. length vs \<le> f \<longrightarrow> array_items pv f (t @ CHR '']'' # r) = Inr (map json_norm vs, r))"
proof (induction vs)
  case (Cons v vs)
  obtain t where t: "json_dump J v = Inr t" "opens_value t" "\<And>r. delimited r \<Longrightarrow> pv (t @ r) = Inr (json_norm v, r)"
    using Cons.prems(2) by (auto simp: prints_back_def)
  have len: "1 \<le> length t" using t(2) by (auto simp: opens_value_def)
  show ?case
  proof (cases vs)
    case Nil
    have "array_items pv f (t @ CHR '']'' # r) = Inr ([json_norm v], r)" if "1 \<le> f" for r f
      using t(3) [of "CHR '']'' # r"] that by (cases f) (simp_all add: array_items.simps)
    then show ?thesis using t(1,2) len Nil by auto
  next
    case (Cons w ws)
    obtain u where u: "dump_items J True vs = Inr u" "opens_value u" "length vs \<le> length u"
      "\<And>r f. length vs \<le> f \<Longrightarrow> array_items pv f (u @ CHR '']'' # r) = Inr (map json_norm vs, r)"
      using Cons.IH Cons Cons.prems(2) by auto
    have dump: "dump_items J True (v # vs) = Inr (t @ CHR '','' # u)"
      using t(1) u(1) dump_items_later [of J w ws] Cons by simp
    have "array_items pv f (t @ CHR '','' # u @ CHR '']'' # r) = Inr (map json_norm (v # vs), r)" if "Suc (length vs) \<le> f" for r f
      using t(3) [of "CHR '','' # u @ CHR '']'' # r"] u(4) that skip_space_open [OF u(2)]
      by (cases f) (simp_all add: array_items.simps)
    then show ?thesis using dump opens_append [OF t(2)] len u(3) by (intro exI [of _ "t @ CHR '','' # u"]) simp
  qed
qed simp

lemma object_round:
  assumes k: "parse_string J (q @ CHR '':'' # t @ d # r) = Inr (k, CHR '':'' # t @ d # r)" "\<exists>u. q = CHR 0x22 # u"
    and t: "opens_value t" "pv (t @ d # r) = Inr (v, d # r)" and new: "k \<notin> fst ` set acc" and d: "d \<in> {CHR 0x7D, CHR '',''}"
  shows "object_items J pv (Suc f) acc (q @ CHR '':'' # t @ d # r) =
    (if d = CHR 0x7D then Inr (object_set k v acc, r) else object_items J pv f (object_set k v acc) (skip_space r))"
proof -
  have "\<not> json_space d" using d by auto
  moreover have "q @ CHR '':'' # t @ d # r \<noteq> [] \<and> hd (q @ CHR '':'' # t @ d # r) = CHR 0x22" using k(2) by auto
  ultimately show ?thesis
    using k(1) t(2) new d skip_space_open [OF t(1), of "d # r"] by (auto simp: object_items.simps)
qed

lemma members_print_back:
  assumes J: "escapes_ascii J"
  shows "kvs \<noteq> [] \<Longrightarrow> \<forall>(k, v) \<in> set kvs. ascii k \<and> prints_back J pv v \<Longrightarrow> distinct (map fst kvs) \<Longrightarrow>
   \<exists>t. dump_members J True kvs = Inr t \<and> (\<exists>u. t = CHR 0x22 # u) \<and> length kvs \<le> length t \<and>
       (\<forall>r f acc. length kvs \<le> f \<longrightarrow> fst ` set acc \<inter> fst ` set kvs = {} \<longrightarrow>
          object_items J pv f acc (t @ CHR 0x7D # r) = Inr (insert_members acc (map (\<lambda>m. (fst m, json_norm (snd m))) kvs), r))"
proof (induction kvs)
  case (Cons m kvs)
  obtain k v where m: "m = (k, v)" by (cases m)
  obtain q where q: "quoted J k = Inr (CHR 0x22 # q)" "\<And>r. parse_string J (CHR 0x22 # q @ r) = Inr (k, r)"
    using quoted_ascii [OF J, of k] Cons.prems(2) m by auto
  obtain t where t: "json_dump J v = Inr t" "opens_value t" "\<And>r. delimited r \<Longrightarrow> pv (t @ r) = Inr (json_norm v, r)"
    using Cons.prems(2) m by (auto simp: prints_back_def)
  let ?t = "CHR 0x22 # q @ CHR '':'' # t" let ?v = "json_norm v"
  have step: "object_items J pv (Suc f) acc (?t @ d # r) =
      (if d = CHR 0x7D then Inr (object_set k ?v acc, r) else object_items J pv f (object_set k ?v acc) (skip_space r))"
    if "k \<notin> fst ` set acc" "d \<in> {CHR 0x7D, CHR '',''}" for f acc d r
    using object_round [of J "CHR 0x22 # q" t d r k pv ?v acc f] q(2) [of "CHR '':'' # t @ d # r"] t(2) t(3) [of "d # r"] that by auto
  show ?case
  proof (cases kvs)
    case Nil
    have "object_items J pv f acc (?t @ CHR 0x7D # r) = Inr (object_set k ?v acc, r)" if "1 \<le> f" "k \<notin> fst ` set acc" for r f acc
      using step [of acc "CHR 0x7D" _ r] that by (cases f) simp_all
    then show ?thesis using t(1) q(1) m Nil by (auto simp: insert_members_def)
  next
    case (Cons w ws)
    obtain u where u: "dump_members J True kvs = Inr u" "\<exists>x. u = CHR 0x22 # x" "length kvs \<le> length u"
      "\<And>r f acc. length kvs \<le> f \<Longrightarrow> fst ` set acc \<inter> fst ` set kvs = {} \<Longrightarrow>
        object_items J pv f acc (u @ CHR 0x7D # r) = Inr (insert_members acc (map (\<lambda>m. (fst m, json_norm (snd m))) kvs), r)"
      using Cons.IH Cons Cons.prems(2,3) by auto
    have dump: "dump_members J True (m # kvs) = Inr (?t @ CHR '','' # u)"
      using t(1) q(1) u(1) dump_members_later [of J w ws] Cons m by simp
    have "object_items J pv f acc (?t @ CHR '','' # u @ CHR 0x7D # r) =
        Inr (insert_members acc (map (\<lambda>m. (fst m, json_norm (snd m))) (m # kvs)), r)"
      if "Suc (length kvs) \<le> f" "fst ` set acc \<inter> fst ` set (m # kvs) = {}" for r f acc
    proof -
      have "skip_space (u @ CHR 0x7D # r) = u @ CHR 0x7D # r" using u(2) by auto
      moreover have "fst ` set (object_set k ?v acc) \<inter> fst ` set kvs = {}" "k \<notin> fst ` set acc"
        using that(2) Cons.prems(3) m by auto
      ultimately show ?thesis
        using step [of acc "CHR '',''" _ "u @ CHR 0x7D # r"] u(4) [of _ "object_set k ?v acc" r] that(1) m
        by (cases f) (simp_all add: insert_members_def)
    qed
    then show ?thesis using dump u(3) by (intro exI [of _ "?t @ CHR '','' # u"]) simp
  qed
qed simp

lemma opens_Cons: "\<not> json_space c \<Longrightarrow> c \<notin> {CHR '']'', CHR 0x7D, CHR '',''} \<Longrightarrow> opens_value (c # u)"
  by (simp add: opens_value_def)

lemma number_prints_back:
  assumes "json_number t"
  shows "prints_back J (parse_value J (Suc n)) (JNumber t)"
proof -
  obtain c u where t: "t = c # u" "is_digit c \<or> c = CHR ''-''" using number_head [OF assms] by blast
  have c: "\<not> json_space c" "c \<notin> {CHR '']'', CHR 0x7D, CHR '','', CHR ''n'', CHR ''t'', CHR ''f'', CHR 0x22, CHR ''['', CHR 0x7B}"
    using t(2) by (auto simp: json_space_def is_digit_def)
  have "parse_value J (Suc n) (t @ r) = Inr (JNumber t, r)" if "delimited r" for r
    using parse_number_complete [OF assms that] json_number_of_complete [OF assms] c t(2) unfolding t(1)
    by (simp add: disj_commute)
  then show ?thesis using c t(1) by (simp add: prints_back_def opens_Cons)
qed

lemma array_prints_back:
  assumes "\<forall>v \<in> set vs. prints_back J (parse_value J n) v"
  shows "prints_back J (parse_value J (Suc n)) (JArray vs)"
proof (cases vs)
  case Nil
  then show ?thesis by (simp add: prints_back_def opens_Cons parse_array_def as_value_def)
next
  case (Cons w ws)
  obtain t where t: "dump_items J True vs = Inr t" "opens_value t" "length vs \<le> length t"
    "\<And>r f. length vs \<le> f \<Longrightarrow> array_items (parse_value J n) f (t @ CHR '']'' # r) = Inr (map json_norm vs, r)"
    using items_print_back [of vs J "parse_value J n"] assms Cons by auto
  have "consume (CHR '']'') (t @ CHR '']'' # r) = None" for r
    using t(2) by (auto simp: opens_value_def)
  then have "parse_array (parse_value J n) (CHR ''['' # t @ CHR '']'' # r) = Inr (map json_norm vs, r)" for r
    using t(4) [of "Suc (length (t @ CHR '']'' # r))" r] t(3) skip_space_open [OF t(2)] by (simp add: parse_array_def Let_def)
  then show ?thesis using t(1) by (simp add: prints_back_def opens_Cons as_value_def)
qed

lemma object_prints_back:
  assumes "escapes_ascii J" "distinct (map fst kvs)" "\<forall>(k, v) \<in> set kvs. ascii k \<and> prints_back J (parse_value J n) v"
  shows "prints_back J (parse_value J (Suc n)) (JObject kvs)"
proof (cases kvs)
  case Nil
  then show ?thesis by (simp add: prints_back_def opens_Cons parse_object_def as_value_def insert_members_def)
next
  case (Cons w ws)
  let ?kvs = "insert_members [] (map (\<lambda>m. (fst m, json_norm (snd m))) kvs)"
  obtain t where t: "dump_members J True kvs = Inr t" "\<exists>u. t = CHR 0x22 # u" "length kvs \<le> length t"
    "\<And>r f. length kvs \<le> f \<Longrightarrow> object_items J (parse_value J n) f [] (t @ CHR 0x7D # r) = Inr (?kvs, r)"
    using members_print_back [OF assms(1), of kvs "parse_value J n"] assms(2,3) Cons by auto
  have "parse_object J (parse_value J n) (CHR 0x7B # t @ CHR 0x7D # r) = Inr (?kvs, r)" for r
    using t(4) [of "Suc (length (t @ CHR 0x7D # r))" r] t(2,3) by (auto simp: parse_object_def Let_def)
  then show ?thesis using t(1) by (simp add: prints_back_def opens_Cons as_value_def)
qed

lemma value_prints_back:
  assumes J: "escapes_ascii J"
  shows "json_ok n v \<Longrightarrow> json_ascii n v \<Longrightarrow> prints_back J (parse_value J n) v"
proof (induction n arbitrary: v)
  case (Suc n)
  show ?case
  proof (cases v)
    case JNull
    then show ?thesis by (simp add: prints_back_def literal_def starts_with_def opens_Cons json_space_def)
  next
    case (JBool b)
    then show ?thesis by (cases b) (simp_all add: prints_back_def literal_def starts_with_def opens_Cons json_space_def)
  next
    case (JNumber t)
    then show ?thesis using number_prints_back Suc.prems(1) by (simp del: parse_value.simps)
  next
    case (JString t)
    obtain q where "quoted J t = Inr (CHR 0x22 # q)" "\<And>r. parse_string J (CHR 0x22 # q @ r) = Inr (t, r)"
      using quoted_ascii [OF J, of t] Suc.prems(2) JString by auto
    then show ?thesis using JString by (simp add: prints_back_def opens_Cons as_value_def)
  next
    case (JArray vs)
    then show ?thesis using Suc by (intro array_prints_back [of vs, folded JArray]) auto
  next
    case (JObject kvs)
    have "\<forall>(k, v) \<in> set kvs. ascii k \<and> prints_back J (parse_value J n) v"
      using Suc JObject by force
    then show ?thesis using object_prints_back [OF J] Suc.prems(1) JObject by (simp del: parse_value.simps)
  qed
qed simp

lemma dump_parses:
  assumes "escapes_ascii J" "json_ok 65 v" "json_ascii 65 v" "list_all json_space before" "list_all json_space after"
  shows "\<exists>t. json_dump J v = Inr t \<and> json_parse J (before @ t @ after) = Inr (json_norm v)"
proof -
  obtain t where t: "json_dump J v = Inr t" "opens_value t" "\<And>r. delimited r \<Longrightarrow> parse_value J 65 (t @ r) = Inr (json_norm v, r)"
    using value_prints_back [OF assms(1-3)] by (auto simp: prints_back_def)
  have spaces: "list_all json_space w \<Longrightarrow> skip_space (w @ s) = skip_space s" for w s
    by (induction w) (simp_all add: skip_space_def)
  have "skip_space (before @ t @ after) = t @ after"
    using spaces [OF assms(4)] skip_space_open [OF t(2)] by simp
  moreover have "delimited after"
    using assms(5) by (cases after) (auto simp: delimited_def json_space_def is_digit_def)
  moreover have "skip_space after = []" using spaces [OF assms(5), of "[]"] by (simp add: skip_space_def)
  ultimately show ?thesis using t by (simp add: json_parse_def)
qed

lemma show_nat_head: "hd (show_nat n) = CHR ''0'' \<Longrightarrow> n = 0"
proof (induction n rule: show_nat.induct)
  case (1 n)
  show ?case
  proof (cases "n < 10")
    case True
    then show ?thesis
      using 1(2) digit_char_inject [of n 0] by (subst (asm) show_nat.simps) (simp add: digit_char_table)
  next
    case False
    then have "hd (show_nat (n div 10)) = CHR ''0''" using 1(2) by (subst (asm) show_nat.simps) simp
    then show ?thesis using 1(1) False by simp
  qed
qed

lemma show_nat_number: "json_number (show_nat n)"
proof -
  have digits: "some_digits (show_nat n)" using show_nat_digits [of n] by (simp add: some_digits_def list_all_iff)
  have zero: "show_nat 0 = ''0''" by (simp add: show_nat_eval)
  have "json_integer (show_nat n)"
    unfolding json_integer_def using digits zero show_nat_head [of n]
    by (intro exI [of _ "[]"] exI [of _ "show_nat n"]) auto
  then show ?thesis
    unfolding json_number_def by (intro exI [of _ "show_nat n"] exI [of _ "[]"]) (simp add: json_fraction_def json_exponent_def)
qed


lemma demo_hex_value: "\<forall>n \<in> set [0..<32]. parse_hex4 (demo_hex n) = Inr (word_of_nat n, []) \<and> CHR 0x00 \<notin> set (demo_hex n)"
  by code_simp

lemma demo_spells: "spells c (demo_escape_char c)"
proof -
  have quote: "simple_escape CHR 0x22 = Some CHR 0x22" "simple_escape CHR 0x5C = Some CHR 0x5C"
    by (simp_all add: simple_escape_def)
  show ?thesis
  proof (cases "(of_char c :: nat) < 0x20 \<and> c \<noteq> CHR 0x22 \<and> c \<noteq> CHR 0x5C")
    case True
    then have "parse_hex4 (demo_hex (of_char c)) = Inr (word_of_nat (of_char c), [])" using demo_hex_value by simp
    then show ?thesis using True by (simp add: spells_def demo_escape_char_def)
  next
    case False
    then show ?thesis using quote by (auto simp: spells_def demo_escape_char_def)
  qed
qed

lemma demo_escape_zero: "c \<noteq> CHR 0x00 \<Longrightarrow> CHR 0x00 \<notin> set (demo_escape_char c)"
  using demo_hex_value by (simp add: demo_escape_char_def)

lemma demo_escapes: "escapes_ascii demo_json_lib"
proof -
  have "\<exists>n es. jl_escape_size demo_json_lib s = Some n \<and> n \<noteq> 0 \<and> jl_escape_fill demo_json_lib s n = Some (concat es) \<and>
      list_all2 spells s es \<and> CHR 0x00 \<notin> set (concat es)" if "ascii s" for s
  proof (intro exI conjI)
    show "jl_escape_size demo_json_lib s = Some 1" "(1 :: u64) \<noteq> 0" by (simp_all add: demo_json_lib_def)
    show "jl_escape_fill demo_json_lib s 1 = Some (concat (map demo_escape_char s))" by (simp add: demo_json_lib_def)
    show "list_all2 spells s (map demo_escape_char s)" by (simp add: list_all2_conv_all_nth demo_spells)
    show "CHR 0x00 \<notin> set (concat (map demo_escape_char s))"
    proof
      assume "CHR 0x00 \<in> set (concat (map demo_escape_char s))"
      then obtain c where c: "c \<in> set s" "CHR 0x00 \<in> set (demo_escape_char c)" by (simp only: set_concat set_map) blast
      then show False using demo_escape_zero [of c] ascii_no_zero [OF that] by blast
    qed
  qed
  then show ?thesis by (simp add: escapes_ascii_def demo_json_lib_def)
qed


end
