(* ===== verification/Fs_Path.thy ===== *)
theory Fs_Path
  imports Posix
begin

text \<open>
  The operations of \<open>std::filesystem::path\<close> that the C++ programs use, on POSIX paths: the elements of a path
  and the comparison by elements, \<open>parent_path\<close>, \<open>filename\<close>, \<open>operator/\<close> and \<open>lexically_normal\<close>.
\<close>

subsection \<open>Elements\<close>

fun names_from :: "string \<Rightarrow> string \<Rightarrow> string list" where
  "names_from acc [] = (if acc = [] then [] else [acc])"
| "names_from acc (c # s) =
     (if c = CHR ''/'' then (if acc = [] then [] else [acc]) @ names_from [] s else names_from (acc @ [c]) s)"

definition path_names :: "path \<Rightarrow> string list" where
  "path_names p = names_from [] p"

definition is_absolute :: "path \<Rightarrow> bool" where
  "is_absolute p \<longleftrightarrow> p \<noteq> [] \<and> hd p = CHR ''/''"

definition path_elements :: "path \<Rightarrow> string list" where
  "path_elements p =
     (if is_absolute p then [''/''] else []) @ path_names p @ (if path_names p \<noteq> [] \<and> last p = CHR ''/'' then [[]] else [])"

definition path_equal :: "path \<Rightarrow> path \<Rightarrow> bool" where
  "path_equal p q \<longleftrightarrow> path_elements p = path_elements q"

definition parent_path :: "path \<Rightarrow> path" where
  "parent_path p =
     (let base = takeWhile (\<lambda>c. c \<noteq> CHR ''/'') (rev p);
          front = rev (drop (length base) (rev p));
          trimmed = rev (dropWhile (\<lambda>c. c = CHR ''/'') (rev front))
      in if trimmed = [] then take 1 front else trimmed)"

definition file_name :: "path \<Rightarrow> string" where
  "file_name p = rev (takeWhile (\<lambda>c. c \<noteq> CHR ''/'') (rev p))"

definition join_path :: "path \<Rightarrow> path \<Rightarrow> path" where
  "join_path a b =
     (if b \<noteq> [] \<and> hd b = CHR ''/'' then b
      else if a = [] \<or> last a = CHR ''/'' then a @ b else a @ CHR ''/'' # b)"

text \<open>
  \<open>lexically_normal\<close>: a dot goes, a pair of a name and a following dot-dot goes, a dot-dot below the root goes; a directory
  that lost its last name keeps a trailing separator.
\<close>

definition normal_step :: "bool \<Rightarrow> string list \<Rightarrow> string \<Rightarrow> string list" where
  "normal_step rooted acc n =
     (if n = ''.'' then acc
      else if n = ''..'' then (if acc \<noteq> [] \<and> last acc \<noteq> ''..'' then butlast acc else if rooted then acc else acc @ [n])
      else acc @ [n])"

definition normal_names :: "bool \<Rightarrow> string list \<Rightarrow> string list" where
  "normal_names rooted ns = foldl (normal_step rooted) [] ns"

fun join_names :: "string list \<Rightarrow> string" where
  "join_names [] = []"
| "join_names [n] = n"
| "join_names (n # m # ns) = n @ CHR ''/'' # join_names (m # ns)"

definition lexically_normal :: "path \<Rightarrow> path" where
  "lexically_normal p =
     (if p = [] then []
      else let ns = path_names p;
               out = normal_names (is_absolute p) ns;
               open_ended = out \<noteq> [] \<and> last out \<noteq> ''..'' \<and> (last p = CHR ''/'' \<or> last ns = ''.'' \<or> last ns = ''..'');
               body = (if is_absolute p then ''/'' else []) @ join_names out @ (if open_ended then ''/'' else [])
           in if body = [] then ''.'' else body)"

lemma path_examples:
  "lexically_normal ''/dev//sda'' = ''/dev/sda''" "lexically_normal ''/dev/..'' = ''/''" "lexically_normal ''/dev/x/..'' = ''/dev/''"
  "lexically_normal ''a/..'' = ''.''" "lexically_normal ''/../a/./b/'' = ''/a/b/''" "lexically_normal ''../a/../..'' = ''../..''"
  "parent_path ''/a//b'' = ''/a''" "parent_path ''/a'' = ''/''" "parent_path ''/a/'' = ''/a''" "parent_path ''a'' = []"
  "file_name ''/a/b.x'' = ''b.x''" "file_name ''/a/'' = []"
  by code_simp+

subsection \<open>Names of composed paths\<close>

definition plain_part :: "string \<Rightarrow> bool" where
  "plain_part n \<longleftrightarrow> n \<noteq> [] \<and> CHR ''/'' \<notin> set n"

lemma plain_part_head: "plain_part n \<Longrightarrow> hd n \<noteq> CHR ''/'' \<and> last n \<noteq> CHR ''/''"
  unfolding plain_part_def using hd_in_set last_in_set by metis

lemma names_from_part: "CHR ''/'' \<notin> set n \<Longrightarrow> names_from acc (n @ s) = names_from (acc @ n) s"
  by (induction n arbitrary: acc) auto

lemma path_names_slash [simp]: "path_names (CHR ''/'' # s) = path_names s"
  by (simp add: path_names_def)

lemma path_names_Nil [simp]: "path_names [] = []"
  by (simp add: path_names_def)

lemma path_names_part:
  "plain_part n \<Longrightarrow> path_names n = [n]"
  "plain_part n \<Longrightarrow> path_names (n @ CHR ''/'' # s) = n # path_names s"
  using names_from_part [of n "[]" "[]"] names_from_part [of n "[]" "CHR ''/'' # s"]
  by (simp_all add: path_names_def plain_part_def)

lemma path_names_append: "path_names (a @ CHR ''/'' # b) = path_names a @ path_names b"
proof -
  have "names_from acc (a @ CHR ''/'' # b) = names_from acc a @ names_from [] b" for acc
    by (induction a arbitrary: acc) auto
  then show ?thesis by (simp add: path_names_def)
qed

lemma path_names_plain: "n \<in> set (path_names p) \<Longrightarrow> plain_part n"
proof -
  have "CHR ''/'' \<notin> set acc \<Longrightarrow> list_all plain_part (names_from acc p)" for acc
    by (induction p arbitrary: acc) (simp_all add: plain_part_def)
  from this [of "[]"] show "n \<in> set (path_names p) \<Longrightarrow> plain_part n" by (simp add: path_names_def list_all_iff)
qed

lemma path_names_join: "list_all plain_part ns \<Longrightarrow> path_names (join_names ns) = ns"
  by (induction ns rule: join_names.induct) (simp_all add: path_names_part)

lemma join_names_snoc: "ns \<noteq> [] \<Longrightarrow> join_names (ns @ [f]) = join_names ns @ CHR ''/'' # f"
  by (induction ns rule: join_names.induct) simp_all

lemma join_names_last: "list_all plain_part ns \<Longrightarrow> ns \<noteq> [] \<Longrightarrow> join_names ns \<noteq> [] \<and> last (join_names ns) \<noteq> CHR ''/''"
  by (induction ns rule: join_names.induct) (auto simp: plain_part_def dest: last_in_set)

lemma normal_names_plain: "list_all plain_part ns \<Longrightarrow> list_all plain_part (normal_names rooted ns)"
proof (induction ns rule: rev_induct)
  case (snoc n ns)
  then show ?case by (auto simp: normal_names_def normal_step_def list_all_iff dest: in_set_butlastD)
qed (simp add: normal_names_def)

lemma normal_names_snoc: "normal_names rooted (ns @ [n]) = normal_step rooted (normal_names rooted ns) n"
  by (simp add: normal_names_def)

subsection \<open>The last name\<close>

lemma file_name_split:
  obtains front where "p = front @ file_name p" "front = [] \<or> last front = CHR ''/''" "CHR ''/'' \<notin> set (file_name p)"
proof
  let ?r = "dropWhile (\<lambda>c. c \<noteq> CHR ''/'') (rev p)"
  have "rev p = takeWhile (\<lambda>c. c \<noteq> CHR ''/'') (rev p) @ ?r" by simp
  then have "rev (rev p) = rev ?r @ file_name p" by (metis rev_append file_name_def)
  then show "p = rev ?r @ file_name p" by simp
  have "hd ?r = CHR ''/''" if "?r \<noteq> []" using hd_dropWhile [OF that] by simp
  then show "rev ?r = [] \<or> last (rev ?r) = CHR ''/''" by (auto simp: last_rev)
  show "CHR ''/'' \<notin> set (file_name p)" by (auto simp: file_name_def dest: set_takeWhileD)
qed

lemma file_name_plain: "CHR ''/'' \<notin> set (file_name p)"
  using file_name_split by metis

lemma slash_free: "CHR ''/'' \<notin> set f \<longleftrightarrow> (\<forall>c \<in> set f. c \<noteq> CHR ''/'')"
  by blast

lemma file_name_append:
  assumes "CHR ''/'' \<notin> set f" "front = [] \<or> last front = CHR ''/''"
  shows "file_name (front @ f) = f"
proof -
  have "takeWhile (\<lambda>c. c \<noteq> CHR ''/'') (rev f @ rev front) = rev f"
  proof (cases "front = []")
    case True
    then show ?thesis using assms(1) by (simp add: takeWhile_eq_all_conv slash_free)
  next
    case False
    then have "hd (rev front) = CHR ''/''" using assms(2) by (simp add: hd_rev)
    then obtain r where "rev front = CHR ''/'' # r" using False by (cases "rev front") auto
    then show ?thesis using assms(1) by (subst takeWhile_append2) auto
  qed
  then show ?thesis by (simp add: file_name_def)
qed

lemma path_names_file_name: "file_name p \<noteq> [] \<Longrightarrow> \<exists>ns. path_names p = ns @ [file_name p]"
proof -
  assume named: "file_name p \<noteq> []"
  obtain front where front: "p = front @ file_name p" "front = [] \<or> last front = CHR ''/''" "CHR ''/'' \<notin> set (file_name p)"
    by (rule file_name_split)
  then have part: "plain_part (file_name p)" using named by (simp add: plain_part_def)
  show ?thesis
  proof (cases "front = []")
    case True
    then have "p = file_name p" using front(1) by simp
    then show ?thesis using path_names_part(1) [OF part] by (metis append_Nil)
  next
    case False
    then have "front = butlast front @ [CHR ''/'']" using front(2) by (metis append_butlast_last_id)
    then have "p = butlast front @ CHR ''/'' # file_name p" using front(1) by (metis append.assoc append_Cons append_Nil)
    then show ?thesis using path_names_append path_names_part(1) [OF part] by metis
  qed
qed

lemma parent_path_snoc:
  assumes "plain_part f" "d = [] \<or> last d \<noteq> CHR ''/''"
  shows "parent_path (d @ CHR ''/'' # f) = (if d = [] then ''/'' else d)"
proof -
  have base: "takeWhile (\<lambda>c. c \<noteq> CHR ''/'') (rev (d @ CHR ''/'' # f)) = rev f"
    using assms(1) by (simp add: plain_part_def takeWhile_append2 takeWhile_tail slash_free)
  have "dropWhile (\<lambda>c. c = CHR ''/'') (rev d) = rev d"
    using assms(2) by (cases "rev d") (auto simp: hd_rev [symmetric])
  moreover have "drop (length (rev f)) (rev (d @ CHR ''/'' # f)) = CHR ''/'' # rev d" by simp
  ultimately show ?thesis unfolding parent_path_def base Let_def by (cases "d = []") (simp_all add: slash_free [symmetric])
qed

end
