(* ===== verification/Registry.thy ===== *)
theory Registry
  imports Cpp_Json Fs_Path "HOL-Library.Sublist"
begin

text \<open>
  The registry of file-system back ends of \<open>native/runtime.cpp\<close>: the declared operations, the table of
  programs, the checks of the registry, the look-ups, and the choice of a program to run. The process
  environment, the link to the running executable and the test for an executable file are the
  record \<open>program_host\<close>; a \<open>logic_error\<close> or \<open>runtime_error\<close> is its message.
\<close>

subsection \<open>Declarations\<close>

definition CAP_ANALYSE :: u32 where "CAP_ANALYSE = 1"
definition CAP_MAP :: u32 where "CAP_MAP = 2"
definition CAP_DEFRAG :: u32 where "CAP_DEFRAG = 4"
definition CAP_RECOVER :: u32 where "CAP_RECOVER = 8"
definition CAP_LIVE_MAP :: u32 where "CAP_LIVE_MAP = 16"
definition CAP_GROWTH_DEFRAG :: u32 where "CAP_GROWTH_DEFRAG = 32"

record OperationSpec =
  os_name :: string
  os_worker :: string
  os_layout_policy :: string
  os_label :: string
  os_description :: string
  os_warning :: string
  os_default_options :: "string list"
  os_unsupported_options :: "string list"
  os_raw_offline :: bool
  os_live_updates :: bool

datatype MapAdapter = NativeMap | Affs | Exfat | Ext | Fat | HfsPlus | Ntfs | Xfs

datatype QualificationMode = QualificationNone | WorkerPreflight | MapOrWorkerPreflight

record BackendInfo =
  bi_id :: string
  bi_display_name :: string
  bi_aliases :: "string list"
  bi_capabilities :: u32
  bi_map_accuracy :: string
  bi_worker :: string
  bi_map_adapter :: MapAdapter
  bi_operations :: "OperationSpec list"
  bi_qualification_mode :: QualificationMode
  bi_map_auxiliary_worker :: string
  bi_accepted_map_accuracies :: "string list"

definition backend ::
  "string \<Rightarrow> string \<Rightarrow> string list \<Rightarrow> u32 \<Rightarrow> string \<Rightarrow> string \<Rightarrow> MapAdapter \<Rightarrow> OperationSpec list \<Rightarrow> QualificationMode \<Rightarrow> string \<Rightarrow>
   string list \<Rightarrow> BackendInfo" where
  "backend ident display_name aliases capabilities accuracy worker adapter operations mode auxiliary accepted =
     \<lparr>bi_id = ident, bi_display_name = display_name, bi_aliases = aliases, bi_capabilities = capabilities,
      bi_map_accuracy = accuracy, bi_worker = worker, bi_map_adapter = adapter, bi_operations = operations,
      bi_qualification_mode = mode, bi_map_auxiliary_worker = auxiliary, bi_accepted_map_accuracies = accepted\<rparr>"

definition worker_default_options :: "string \<Rightarrow> string \<Rightarrow> string list" where
  "worker_default_options worker operation_name =
     (if operation_name = ''recover'' then []
      else if worker = ''fat-native'' \<or> worker = ''exfat-native''
      then [''--batch-clusters'', ''4096'', ''--ram-buffer'', ''auto'']
      else if worker = ''ext-native'' then [''--batch-clusters'', ''4096'']
      else [])"

definition operation_policy :: "string \<Rightarrow> (string \<times> string \<times> string) option" where
  "operation_policy name =
     (if name = ''defrag''
      then Some (''packed'', ''Defragment'',
        ''Rewrite the unmounted filesystem directly so files and directories are contiguous and every relocatable allocation is packed into the earliest legal allocation units.'')
      else if name = ''growth-defrag''
      then Some (''growth-10'', ''Growth Defrag'',
        ''Apply the same packed contiguous layout while reserving 10% of each regular file'' @ [CHR 0x27] @ ''s allocated length immediately after that file.'')
      else if name = ''recover''
      then Some (''recovery'', ''Recover'', ''Complete or roll back an interrupted raw-device journal transaction.'')
      else None)"

definition operation :: "string \<Rightarrow> string \<Rightarrow> string \<Rightarrow> OperationSpec exc" where
  "operation name worker warning =
     (case operation_policy name of
        None \<Rightarrow> Inl ''invalid operation declaration''
      | Some (policy, label, description) \<Rightarrow>
          Inr \<lparr>os_name = name, os_worker = worker, os_layout_policy = policy, os_label = label, os_description = description,
               os_warning = warning, os_default_options = worker_default_options worker name, os_unsupported_options = [],
               os_raw_offline = True, os_live_updates = True\<rparr>)"

definition standard_write_ops :: "string \<Rightarrow> string \<Rightarrow> string \<Rightarrow> OperationSpec list" where
  "standard_write_ops worker defrag_warning growth_warning =
     [projr (operation ''defrag'' worker defrag_warning), projr (operation ''growth-defrag'' worker growth_warning),
      projr (operation ''recover'' worker [])]"

definition lower_char :: "char \<Rightarrow> char" where
  "lower_char c = (let n = (of_char c :: nat) in if 65 \<le> n \<and> n \<le> 90 then char_of (n + 32) else c)"

definition lower_ascii :: "string \<Rightarrow> string" where
  "lower_ascii s = map lower_char s"

subsection \<open>Programs\<close>

record ProgramSpec =
  pg_id :: string
  pg_environment :: string
  pg_installed :: string
  pg_build_name :: string

definition program :: "string \<Rightarrow> string \<Rightarrow> string \<Rightarrow> string \<Rightarrow> ProgramSpec" where
  "program ident environment installed build_name =
     \<lparr>pg_id = ident, pg_environment = environment, pg_installed = installed, pg_build_name = build_name\<rparr>"

definition kPrograms :: "ProgramSpec list" where
  "kPrograms =
     [program ''hfsplus-native'' ''DEFRAGMENTER_HFSPLUS_WORKER'' ''/System/Commands/Defragmenter/hfsplus/defragmenter-hfsplus-worker'' ''defragmenter-hfsplus-worker'',
      program ''hfs-native'' ''DEFRAGMENTER_HFS_ANALYSER'' ''/System/Commands/Defragmenter/hfs/hfs_analyser'' ''hfs_analyser'',
      program ''affs-native'' ''DEFRAGMENTER_AFFS_WORKER'' ''/System/Commands/Defragmenter/affs/defragmenter-affs-worker'' ''defragmenter-affs-worker'',
      program ''btrfs-native'' ''DEFRAGMENTER_BTRFS_WORKER'' ''/System/Commands/Defragmenter/btrfs/defragmenter-btrfs-worker'' ''defragmenter-btrfs-worker'',
      program ''fat-native'' ''DEFRAGMENTER_FAT_WORKER'' ''/System/Commands/Defragmenter/fat/defragmenter-fat-worker'' ''defragmenter-fat-worker'',
      program ''exfat-native'' ''DEFRAGMENTER_EXFAT_WORKER'' ''/System/Commands/Defragmenter/exfat/defragmenter-exfat-worker'' ''defragmenter-exfat-worker'',
      program ''ntfs-native'' ''DEFRAGMENTER_NTFS_WORKER'' ''/System/Commands/Defragmenter/ntfs/defragmenter-ntfs-worker'' ''defragmenter-ntfs-worker'',
      program ''ext-native'' ''DEFRAGMENTER_EXT_WORKER'' ''/System/Commands/Defragmenter/ext4/defragmenter-ext-worker'' ''defragmenter-ext-worker'',
      program ''ext-metadata'' ''DEFRAGMENTER_EXT_METADATA_WORKER'' ''/System/Commands/Defragmenter/ext4/ext-metadata-worker'' ''ext-metadata-worker'',
      program ''xfs-native'' ''DEFRAGMENTER_XFS_WORKER'' ''/System/Commands/Defragmenter/xfs/defragmenter-xfs-worker'' ''defragmenter-xfs-worker'',
      program ''apfs-native'' ''DEFRAGMENTER_APFS_WORKER'' ''/System/Commands/Defragmenter/apfs/defragmenter-apfs-worker'' ''defragmenter-apfs-worker'',
      program ''minix-native'' ''DEFRAGMENTER_MINIX_WORKER'' ''/System/Commands/Defragmenter/minix/defragmenter-minix-worker'' ''defragmenter-minix-worker'',
      program ''sfs-native'' ''DEFRAGMENTER_SFS_WORKER'' ''/System/Commands/Defragmenter/sfs/defragmenter-sfs-worker'' ''defragmenter-sfs-worker'',
      program ''pfs3-native'' ''DEFRAGMENTER_PFS3_WORKER'' ''/System/Commands/Defragmenter/pfs3/defragmenter-pfs3-worker'' ''defragmenter-pfs3-worker'',
      program ''swap-native'' ''DEFRAGMENTER_SWAP_WORKER'' ''/System/Commands/Defragmenter/swap/defragmenter-swap-worker'' ''defragmenter-swap-worker'',
      program ''ufs-native'' ''DEFRAGMENTER_UFS_WORKER'' ''/System/Commands/Defragmenter/ufs/defragmenter-ufs-worker'' ''defragmenter-ufs-worker'',
      program ''zfs-native'' ''DEFRAGMENTER_ZFS_WORKER'' ''/System/Commands/Defragmenter/zfs/defragmenter-zfs-worker'' ''defragmenter-zfs-worker'',
      program ''mapper'' ''DEFRAGMENTER_MAPPER'' ''/System/Commands/Defragmenter/defragmenter-mapper'' ''defragmenter-mapper'',
      program ''operation-engine'' ''DEFRAGMENTER_OPERATION_ENGINE'' ''/System/Commands/Defragmenter/defragmenter-operation-engine'' ''defragmenter-operation-engine'',
      program ''helper'' ''DEFRAGMENTER_HELPER'' ''/System/Commands/Defragmenter/defragmenter-privileged-helper'' ''defragmenter-privileged-helper'',
      program ''test-media'' ''DEFRAGMENTER_TEST_MEDIA'' ''/Programs/defragmenter-test-media'' ''defragmenter-test-media'']"

definition program_spec :: "string \<Rightarrow> ProgramSpec option" where
  "program_spec ident = List.find (\<lambda>p. ident = pg_id p) kPrograms"

subsection \<open>The registry and its checks\<close>

definition read_capabilities :: u32 where
  "read_capabilities = CAP_ANALYSE OR CAP_MAP"

definition write_capabilities :: u32 where
  "write_capabilities = read_capabilities OR CAP_DEFRAG OR CAP_RECOVER OR CAP_LIVE_MAP OR CAP_GROWTH_DEFRAG"

definition registry_entries :: "BackendInfo list" where
  "registry_entries =
    [backend ''affs'' ''Amiga OFS/FFS'' [''affs'', ''amiga'', ''ofs'', ''ffs'', ''dostype''] write_capabilities ''exact'' ''affs-native'' Affs
       (standard_write_ops ''affs-native''
        ''Amiga OFS/FFS writing runs in the independently installed OFS.so or FFS.so; Defragmenter hosts the verified module only.''
        ''Amiga Growth Defrag runs in OFS.so or FFS.so and reserves 10% free blocks after each supported regular file.'')
       QualificationNone '''' [],
     backend ''apfs'' ''Apple APFS'' [''apfs''] write_capabilities ''exact-bounded-spaceman'' ''apfs-native'' NativeMap
       (standard_write_ops ''apfs-native''
        ''APFS writing is offline and fail-closed to the qualified one-CIB, unencrypted, snapshot-free flat-tree subset; validated older descriptor-ring checkpoint history is retained unchanged.''
        ''APFS Growth Defrag leaves an exact 10% free-block reserve after each supported regular-file data stream.'')
       WorkerPreflight '''' [],
     backend ''btrfs'' ''Btrfs'' [''btrfs''] write_capabilities ''exact'' ''btrfs-native'' NativeMap
       (standard_write_ops ''btrfs-native''
        ''Btrfs writing is offline and fail-closed to the qualified single-device, CRC32C, level-0 mixed data/metadata subset, including relocation and verification of ordinary checksum-tree-protected regular-file extents.''
        ''Btrfs Growth Defrag leaves an exact 10% free-sector reserve after each supported regular file.'')
       WorkerPreflight '''' [''exact-single-device''],
     backend ''exfat'' ''exFAT'' [''exfat''] write_capabilities ''exact'' ''exfat-native'' Exfat
       (standard_write_ops ''exfat-native''
        ''exFAT writing is dispatched to the independently installed exFAT.so; the application has no private exFAT parser, allocator or journal.''
        ''exFAT Growth Defrag runs in exFAT.so and reserves 10% free clusters after each regular file.'')
       QualificationNone '''' [],
     backend ''ext2'' ''EXT2'' [''ext2''] write_capabilities ''exact'' ''ext-native'' Ext
       (standard_write_ops ''ext-native'' '''' '''')
       WorkerPreflight ''ext-metadata'' [],
     backend ''ext3'' ''EXT3'' [''ext3''] write_capabilities ''exact'' ''ext-native'' Ext
       (standard_write_ops ''ext-native'' '''' '''')
       WorkerPreflight ''ext-metadata'' [],
     backend ''ext4'' ''EXT4'' [''ext4''] write_capabilities ''exact'' ''ext-native'' Ext
       (standard_write_ops ''ext-native'' '''' '''')
       WorkerPreflight ''ext-metadata'' [],
     backend ''fat12'' ''FAT12'' [''fat12'', ''msdos12''] write_capabilities ''exact'' ''fat-native'' Fat
       (standard_write_ops ''fat-native'' '''' '''')
       QualificationNone '''' [],
     backend ''fat16'' ''FAT16'' [''fat16'', ''msdos16''] write_capabilities ''exact'' ''fat-native'' Fat
       (standard_write_ops ''fat-native'' '''' '''')
       QualificationNone '''' [],
     backend ''fat32'' ''FAT32'' [''fat32'', ''vfat''] write_capabilities ''exact'' ''fat-native'' Fat
       (standard_write_ops ''fat-native'' '''' '''')
       QualificationNone '''' [],
     backend ''hfs'' ''Apple HFS'' [''hfs''] write_capabilities ''exact'' ''hfs-native'' NativeMap
       (standard_write_ops ''hfs-native''
        ''Classic HFS writing runs in HFS.so and relocates supported regular-file forks while preserving validated B-tree topology.''
        ''Classic HFS Growth Defrag leaves a 10% free allocation-block reserve after each supported non-empty file fork.'')
       WorkerPreflight '''' [],
     backend ''hfsplus'' ''Apple HFS+/HFSX'' [''hfsplus'', ''hfs+'', ''hfsx''] write_capabilities ''exact'' ''hfsplus-native'' HfsPlus
       (standard_write_ops ''hfsplus-native''
        ''HFS+/HFSX writing runs in the independently installed HFSPLUS.so module.''
        ''HFS+/HFSX Growth Defrag runs in HFSPLUS.so and reserves 10% free allocation blocks after each supported fork.'')
       WorkerPreflight '''' [],
     backend ''minix'' ''Minix Filesystem'' [''minix'', ''minix2'', ''minix3''] write_capabilities ''exact'' ''minix-native'' NativeMap
       (standard_write_ops ''minix-native''
        ''Minix filesystem writing runs in the independently installed MINIX.so module.''
        ''Minix Growth Defrag leaves an exact 10% free-zone reserve after every regular file.'')
       QualificationNone '''' [],
     backend ''ntfs'' ''NTFS'' [''ntfs'', ''ntfs3''] write_capabilities ''exact'' ''ntfs-native'' Ntfs
       (standard_write_ops ''ntfs-native''
        ''NTFS writing runs in NTFS.so using offline raw I/O. No kernel filesystem mount, filesystem ioctl or external repair utility is used.''
        ''NTFS Growth Defrag runs in NTFS.so and reserves 10% free clusters after each supported regular-file stream.'')
       MapOrWorkerPreflight '''' [],
     backend ''pfs3'' ''Amiga PFS3'' [''pfs3'', ''pfs'', ''professionalfilesystem''] write_capabilities ''exact-allocation'' ''pfs3-native'' NativeMap
       (standard_write_ops ''pfs3-native''
        ''Amiga PFS3 writing runs in PFS3.so, validates supported directories and links, and fails closed on unsupported entries or layouts.''
        ''PFS3 Growth Defrag leaves an exact 10% free-block reserve after every supported regular file.'')
       QualificationNone '''' [],
     backend ''sfs'' ''Amiga SFS'' [''sfs'', ''sfs0'', ''sfs2'', ''smartfilesystem''] write_capabilities ''exact-allocation'' ''sfs-native'' NativeMap
       (standard_write_ops ''sfs-native''
        ''Amiga SFS0/SFS2 writing runs in the independently installed SFS.so module.''
        ''SFS0/SFS2 Growth Defrag leaves an exact 10% free-block reserve after every regular file.'')
       QualificationNone '''' [],
     backend ''swap'' ''Linux Swap'' [''swap'', ''swapspace'', ''linux-swap''] read_capabilities ''summary'' ''swap-native'' NativeMap
       []
       QualificationNone '''' [''summary'', ''exact''],
     backend ''ufs'' ''Solaris/BSD UFS'' [''ufs'', ''ufs1'', ''ufs2'', ''4.2bsd''] write_capabilities ''exact'' ''ufs-native'' NativeMap
       (standard_write_ops ''ufs-native''
        ''UFS1/UFS2 writing runs in its matching UFS1.so or UFS2.so and fails closed on unsupported filesystem states or allocation layouts.''
        ''UFS Growth Defrag runs in the selected UFS.so engine and reserves 10% free fragments after each supported regular file.'')
       WorkerPreflight '''' [''summary'', ''exact-allocation'', ''exact''],
     backend ''xfs'' ''XFS'' [''xfs''] write_capabilities ''exact'' ''xfs-native'' Xfs
       (standard_write_ops ''xfs-native''
        ''XFS writing runs in XFS.so using offline raw I/O. No kernel filesystem mount, filesystem ioctl or external repair utility is used.''
        ''XFS Growth Defrag runs in XFS.so, requires staging space, and reserves 10% free extents after each supported regular file.'')
       WorkerPreflight '''' [],
     backend ''zfs'' ''ZFS/OpenZFS Member'' [''zfs'', ''zfs_member''] read_capabilities ''exact-bounded'' ''zfs-native'' NativeMap
       []
       QualificationNone '''' [''summary'', ''exact'']]"

text \<open>The checks of one back end; the names are those of the back ends before it.\<close>

fun check_accuracies :: "string \<Rightarrow> string list \<Rightarrow> string list \<Rightarrow> unit exc" where
  "check_accuracies ident before [] = Inr ()"
| "check_accuracies ident before (accuracy # rest) =
     (if accuracy = [] then Inl (''backend '' @ ident @ '' contains an empty accepted map accuracy'')
      else if accuracy \<in> set before then Inl (''backend '' @ ident @ '' repeats accepted map accuracy: '' @ accuracy)
      else check_accuracies ident (before @ [accuracy]) rest)"

fun check_aliases :: "string \<Rightarrow> string \<Rightarrow> string list \<Rightarrow> string list \<Rightarrow> string list exc" where
  "check_aliases ident primary names [] = Inr names"
| "check_aliases ident primary names (raw # rest) =
     (if raw = [] then Inl (''backend '' @ ident @ '' contains an empty alias'')
      else let alias = lower_ascii raw
           in if alias = primary then check_aliases ident primary names rest
              else if alias \<in> set names then Inl (''backend registry contains colliding alias: '' @ alias)
              else check_aliases ident primary (names @ [alias]) rest)"

fun check_operations :: "string \<Rightarrow> OperationSpec list \<Rightarrow> unit exc" where
  "check_operations ident [] = Inr ()"
| "check_operations ident (op # rest) =
     (if program_spec (os_worker op) = None
      then Inl (''backend '' @ ident @ '' operation '' @ os_name op @ '' names an unknown worker: '' @ os_worker op)
      else if [] \<in> set (os_default_options op)
      then Inl (''backend '' @ ident @ '' operation '' @ os_name op @ '' contains an empty default option'')
      else check_operations ident rest)"

definition writable :: "BackendInfo \<Rightarrow> bool" where
  "writable b \<longleftrightarrow> bi_capabilities b AND CAP_DEFRAG \<noteq> 0"

definition check_backend :: "string list \<Rightarrow> BackendInfo \<Rightarrow> string list exc" where
  "check_backend names b =
     (if bi_id b = [] then Inl ''backend registry contains an empty id''
      else if bi_map_accuracy b = [] then Inl (''backend '' @ bi_id b @ '' has no map accuracy contract'')
      else if program_spec (bi_worker b) = None then Inl (''backend '' @ bi_id b @ '' names an unknown worker: '' @ bi_worker b)
      else if bi_map_auxiliary_worker b \<noteq> [] \<and> program_spec (bi_map_auxiliary_worker b) = None
      then Inl (''backend '' @ bi_id b @ '' names an unknown map auxiliary worker: '' @ bi_map_auxiliary_worker b)
      else case check_accuracies (bi_id b) [] (bi_accepted_map_accuracies b) of
             Inl e \<Rightarrow> Inl e
           | Inr _ \<Rightarrow>
               if writable b \<noteq> (bi_operations b \<noteq> [])
               then Inl (''backend '' @ bi_id b @ '' has inconsistent mutation capabilities and operations'')
               else if \<not> writable b \<and> bi_qualification_mode b \<noteq> QualificationNone
               then Inl (''read-only backend '' @ bi_id b @ '' declares mutation qualification policy'')
               else let primary = lower_ascii (bi_id b)
                    in if primary \<in> set names then Inl (''backend registry contains duplicate id: '' @ primary)
                       else case check_aliases (bi_id b) primary (names @ [primary]) (bi_aliases b) of
                              Inl e \<Rightarrow> Inl e
                            | Inr names \<Rightarrow>
                                (case check_operations (bi_id b) (bi_operations b) of Inl e \<Rightarrow> Inl e | Inr _ \<Rightarrow> Inr names))"

fun check_backends :: "string list \<Rightarrow> BackendInfo list \<Rightarrow> unit exc" where
  "check_backends names [] = Inr ()"
| "check_backends names (b # bs) = (case check_backend names b of Inl e \<Rightarrow> Inl e | Inr names \<Rightarrow> check_backends names bs)"

definition validate_backend_registry :: "BackendInfo list \<Rightarrow> unit exc" where
  "validate_backend_registry registry = check_backends [] registry"

text \<open>The static initialiser: the entries, unless a check throws.\<close>

definition backend_registry :: "BackendInfo list exc" where
  "backend_registry = (case validate_backend_registry registry_entries of Inl e \<Rightarrow> Inl e | Inr _ \<Rightarrow> Inr registry_entries)"

lemma registry_valid: "validate_backend_registry registry_entries = Inr ()"
  by code_simp

lemma backend_registry_entries [simp]: "backend_registry = Inr registry_entries"
  by (simp add: backend_registry_def registry_valid)

subsection \<open>Look-ups\<close>

definition backend_names :: "BackendInfo \<Rightarrow> string list" where
  "backend_names b = map lower_ascii (bi_id b # bi_aliases b)"

definition backend_by_fstype :: "string \<Rightarrow> BackendInfo option" where
  "backend_by_fstype filesystem =
     (case backend_registry of
        Inl e \<Rightarrow> None
      | Inr registry \<Rightarrow>
          let key = lower_ascii filesystem
          in List.find (\<lambda>b. lower_ascii (bi_id b) = key \<or> list_ex (\<lambda>alias. lower_ascii alias = key) (bi_aliases b)) registry)"

definition operation_for :: "BackendInfo \<Rightarrow> string \<Rightarrow> OperationSpec option" where
  "operation_for b operation_name = List.find (\<lambda>op. os_name op = operation_name) (bi_operations b)"

definition backend_accepts_map_accuracy :: "BackendInfo \<Rightarrow> string \<Rightarrow> bool" where
  "backend_accepts_map_accuracy b accuracy =
     (if bi_accepted_map_accuracies b = [] then accuracy = bi_map_accuracy b else accuracy \<in> set (bi_accepted_map_accuracies b))"

text \<open>An argument that is an unsupported option or starts with one and \<open>=\<close> is dropped, with a value after it.\<close>

definition blocked_option :: "string list \<Rightarrow> string \<Rightarrow> bool" where
  "blocked_option unsupported token =
     list_ex (\<lambda>option. token = option \<or>
        (length token > length option \<and> take (length option) token = option \<and> token ! length option = CHR ''='')) unsupported"

fun filter_options :: "string list \<Rightarrow> string list \<Rightarrow> string list" where
  "filter_options unsupported [] = []"
| "filter_options unsupported (token # rest) =
     (if \<not> blocked_option unsupported token then token # filter_options unsupported rest
      else case rest of
             [] \<Rightarrow> []
           | v # others \<Rightarrow>
               if v \<noteq> [] \<and> hd v \<noteq> CHR ''-'' then filter_options unsupported others else filter_options unsupported rest)"

definition without_options :: "string list \<Rightarrow> string list \<Rightarrow> string list" where
  "without_options arguments unsupported = (if unsupported = [] then arguments else filter_options unsupported arguments)"

subsection \<open>Choosing a program\<close>

record program_host =
  ph_getenv :: "string \<Rightarrow> string option"
  ph_exe_link :: "string option" \<comment> \<open>\<open>readlink\<close> of \<open>/proc/self/exe\<close>\<close>
  ph_executable :: "path \<Rightarrow> bool" \<comment> \<open>a regular file with execute permission\<close>

definition executable_directory :: "program_host \<Rightarrow> path" where
  "executable_directory H =
     (case ph_exe_link H of
        None \<Rightarrow> []
      | Some link \<Rightarrow> if link = [] then [] else parent_path (c_str (take 4095 link)))"

definition program_candidates :: "program_host \<Rightarrow> ProgramSpec \<Rightarrow> string \<Rightarrow> bool \<Rightarrow> path list" where
  "program_candidates H spec program_id allow_environment_override =
     (if allow_environment_override \<and> program_id \<noteq> ''helper''
      then (case ph_getenv H (pg_environment spec) of None \<Rightarrow> [] | Some p \<Rightarrow> if p = [] then [] else [p])
      else []) @
     (let directory = executable_directory H in if directory = [] then [] else [join_path directory (pg_build_name spec)]) @
     [pg_installed spec]"

definition comma_separated :: "string list \<Rightarrow> string" where
  "comma_separated items = foldl (\<lambda>checked c. (if checked = [] then [] else checked @ '', '') @ c) [] items"

definition resolve_program :: "program_host \<Rightarrow> string \<Rightarrow> bool \<Rightarrow> path exc" where
  "resolve_program H program_id allow_environment_override =
     (case program_spec program_id of
        None \<Rightarrow> Inl (''unknown Defragmenter program: '' @ program_id)
      | Some spec \<Rightarrow>
          let candidates = program_candidates H spec program_id allow_environment_override
          in case List.find (ph_executable H) candidates of
               Some c \<Rightarrow> Inr c
             | None \<Rightarrow> Inl (''could not locate '' @ program_id @ ''; checked: '' @ comma_separated candidates))"

text \<open>The manifest: a list of fragments is joined with commas.\<close>

definition append_exc :: "string exc \<Rightarrow> string exc \<Rightarrow> string exc" where
  "append_exc p q = (case p of Inl e \<Rightarrow> Inl e | Inr t \<Rightarrow> (case q of Inl e \<Rightarrow> Inl e | Inr u \<Rightarrow> Inr (t @ u)))"

fun join_exc :: "(string exc) list \<Rightarrow> string exc" where
  "join_exc [] = Inr []"
| "join_exc (p # ps) = append_exc p (join_exc ps)"

fun comma_list :: "(string exc) list \<Rightarrow> (string exc) list" where
  "comma_list [] = []"
| "comma_list [p] = [p]"
| "comma_list (p # ps) = p # Inr '','' # comma_list ps"

text \<open>\<open>json_quote\<close> repeats the text of \<open>quoted\<close> in \<open>json.cpp\<close>.\<close>

definition json_quote :: "json_lib \<Rightarrow> string \<Rightarrow> string exc" where
  "json_quote J value = quoted J value"

definition json_key :: "string \<Rightarrow> string exc" where
  "json_key name = Inr (CHR 0x22 # name @ CHR 0x22 # '':'')"

definition quote_list :: "json_lib \<Rightarrow> string list \<Rightarrow> (string exc) list" where
  "quote_list J items = Inr ''['' # comma_list (map (json_quote J) items) @ [Inr '']'']"

definition qualification_mode_key :: "QualificationMode \<Rightarrow> string" where
  "qualification_mode_key mode =
     (case mode of QualificationNone \<Rightarrow> ''none'' | WorkerPreflight \<Rightarrow> ''worker-preflight''
      | MapOrWorkerPreflight \<Rightarrow> ''map-or-worker-preflight'')"

definition operation_json :: "json_lib \<Rightarrow> OperationSpec \<Rightarrow> string exc" where
  "operation_json J op =
     join_exc ([Inr [CHR 0x7B], json_key ''name'', json_quote J (os_name op), Inr '','', json_key ''worker'', json_quote J (os_worker op),
       Inr '','', json_key ''layout_policy'', json_quote J (os_layout_policy op), Inr '','', json_key ''label'', json_quote J (os_label op),
       Inr '','', json_key ''description'', json_quote J (os_description op), Inr '','', json_key ''warning'', json_quote J (os_warning op),
       Inr '','', json_key ''default_options''] @ quote_list J (os_default_options op) @
      [Inr '','', json_key ''unsupported_options''] @ quote_list J (os_unsupported_options op) @
      [Inr '','', json_key ''raw_offline'', Inr (if os_raw_offline op then ''true'' else ''false''),
       Inr '','', json_key ''live_updates'', Inr (if os_live_updates op then ''true'' else ''false''), Inr [CHR 0x7D]])"

definition backend_json :: "json_lib \<Rightarrow> BackendInfo \<Rightarrow> string exc" where
  "backend_json J b =
     join_exc ([Inr [CHR 0x7B], json_key ''id'', json_quote J (bi_id b), Inr '','', json_key ''display_name'', json_quote J (bi_display_name b),
       Inr '','', json_key ''aliases''] @ quote_list J (bi_aliases b) @
      [Inr '','', json_key ''capabilities'', Inr (show_u32 (bi_capabilities b)),
       Inr '','', json_key ''map_accuracy'', json_quote J (bi_map_accuracy b), Inr '','', json_key ''accepted_map_accuracies''] @
      quote_list J (if bi_accepted_map_accuracies b = [] then [bi_map_accuracy b] else bi_accepted_map_accuracies b) @
      [Inr '','', json_key ''qualification_mode'', json_quote J (qualification_mode_key (bi_qualification_mode b)),
       Inr '','', json_key ''map_auxiliary_worker'', json_quote J (bi_map_auxiliary_worker b),
       Inr '','', json_key ''operations'', Inr ''[''] @ comma_list (map (operation_json J) (bi_operations b)) @ [Inr '']'', Inr [CHR 0x7D]])"

definition registry_manifest_json :: "json_lib \<Rightarrow> u32 \<Rightarrow> string exc" where
  "registry_manifest_json J schema =
     (if schema = 0 then Inl ''manifest schema must be non-zero''
      else case backend_registry of
             Inl e \<Rightarrow> Inl e
           | Inr registry \<Rightarrow>
               join_exc ([Inr [CHR 0x7B], json_key ''schema'', Inr (show_u32 schema), Inr '','', json_key ''backends'', Inr ''['']
                 @ comma_list (map (backend_json J) registry) @ [Inr '']'', Inr [CHR 0x7D]]))"

subsection \<open>The registry is sound\<close>

lemma registry_names_distinct:
  "distinct (map (\<lambda>b. remdups (backend_names b)) registry_entries) \<and> distinct (concat (map (\<lambda>b. remdups (backend_names b)) registry_entries))"
  by code_simp

lemma registry_operations:
  "\<forall>b \<in> set registry_entries. map os_name (bi_operations b) = (if writable b then [''defrag'', ''growth-defrag'', ''recover''] else [])"
  by code_simp

lemma registry_workers:
  "\<forall>b \<in> set registry_entries. \<forall>op \<in> set (bi_operations b). os_worker op = bi_worker b \<and> program_spec (os_worker op) \<noteq> None \<and>
     os_unsupported_options op = []"
  by code_simp


lemma find_by_names:
  assumes "distinct (concat (map names bs))"
  shows "List.find (\<lambda>b. k \<in> set (names b)) bs = Some b \<longleftrightarrow> b \<in> set bs \<and> k \<in> set (names b)"
  using assms
proof (induction bs)
  case (Cons c bs)
  have "b \<in> set bs \<Longrightarrow> k \<in> set (names b) \<Longrightarrow> k \<notin> set (names c)"
    using Cons.prems by fastforce
  then show ?case using Cons by auto
qed simp

lemma lookup_exact: "backend_by_fstype t = Some b \<longleftrightarrow> b \<in> set registry_entries \<and> lower_ascii t \<in> set (backend_names b)"
proof -
  have "lower_ascii (bi_id b) = key \<or> list_ex (\<lambda>alias. lower_ascii alias = key) (bi_aliases b) \<longleftrightarrow> key \<in> set (remdups (backend_names b))"
    for b key by (auto simp: backend_names_def list_ex_iff)
  then show ?thesis
    using find_by_names [OF conjunct2 [OF registry_names_distinct], of "lower_ascii t" b]
    by (simp add: backend_by_fstype_def)
qed

text \<open>
  Looking up a file-system name: a back end is found exactly when its identifier or one of its aliases is the
  name, case aside, so no name belongs to two of them; it offers Defragment, Growth Defrag and Recover when it has the
  capability to defragment, and otherwise nothing.
\<close>

theorem backend_lookup:
  "(backend_by_fstype filesystem = Some b \<longleftrightarrow> b \<in> set registry_entries \<and> lower_ascii filesystem \<in> set (backend_names b)) \<and>
   (operation_for b name \<noteq> None \<longleftrightarrow> name \<in> set (map os_name (bi_operations b))) \<and>
   list_all (\<lambda>e. map os_name (bi_operations e) = (if writable e then [''defrag'', ''growth-defrag'', ''recover''] else [])) registry_entries"
proof (intro conjI)
  show "backend_by_fstype filesystem = Some b \<longleftrightarrow> b \<in> set registry_entries \<and> lower_ascii filesystem \<in> set (backend_names b)"
    by (rule lookup_exact)
  show "operation_for b name \<noteq> None \<longleftrightarrow> name \<in> set (map os_name (bi_operations b))"
    by (auto simp: operation_for_def find_None_iff)
  show "list_all (\<lambda>e. map os_name (bi_operations e) = (if writable e then [''defrag'', ''growth-defrag'', ''recover''] else [])) registry_entries"
    using registry_operations by (simp add: list_all_iff)
qed

text \<open>
  Property C19. A program that is resolved for privileged use (no override allowed) does not depend on the environment, and
  is an executable file that is either beside the running executable or at the installed place of the program table.
\<close>

theorem resolve_trusted:
  assumes "resolve_program H program_id False = Inr p"
  shows "(\<forall>env. resolve_program (H\<lparr>ph_getenv := env\<rparr>) program_id False = Inr p) \<and> ph_executable H p \<and>
    (\<exists>spec. program_spec program_id = Some spec \<and>
       (p = pg_installed spec \<or> (executable_directory H \<noteq> [] \<and> p = join_path (executable_directory H) (pg_build_name spec))))"
proof -
  obtain spec where spec: "program_spec program_id = Some spec" "List.find (ph_executable H) (program_candidates H spec program_id False) = Some p"
    using assms by (auto simp: resolve_program_def Let_def split: option.splits)
  have same: "executable_directory (H\<lparr>ph_getenv := env\<rparr>) = executable_directory H" for env
    by (simp add: executable_directory_def)
  have "ph_executable H p" "p \<in> set (program_candidates H spec program_id False)"
    using spec(2) by (auto simp: find_Some_iff)
  moreover from this(2) have "p = pg_installed spec \<or> (executable_directory H \<noteq> [] \<and> p = join_path (executable_directory H) (pg_build_name spec))"
    by (auto simp: program_candidates_def Let_def split: if_splits)
  moreover have "resolve_program (H\<lparr>ph_getenv := env\<rparr>) program_id False = Inr p" for env
    using spec by (simp add: resolve_program_def program_candidates_def same)
  ultimately show ?thesis using spec(1) by blast
qed

definition demo_program_host :: program_host where
  "demo_program_host =
     \<lparr>ph_getenv = \<lambda>v. Some ''/tmp/evil'', ph_exe_link = Some ''/opt/build/defragmenter-mapper'',
      ph_executable = \<lambda>p. p \<in> {''/tmp/evil'', ''/opt/build/defragmenter-fat-worker''}\<rparr>"

theorem resolve_trusted_witness:
  "resolve_program demo_program_host ''fat-native'' False = Inr ''/opt/build/defragmenter-fat-worker'' \<and>
   resolve_program demo_program_host ''fat-native'' True = Inr ''/tmp/evil'' \<and>
   (\<exists>spec. program_spec ''fat-native'' = Some spec)"
proof -
  have "resolve_program demo_program_host ''fat-native'' False = Inr ''/opt/build/defragmenter-fat-worker''"
    "resolve_program demo_program_host ''fat-native'' True = Inr ''/tmp/evil''"
    by code_simp+
  with resolve_trusted [OF this(1)] show ?thesis by blast
qed

subsection \<open>Options\<close>

declare filter_options.simps(2) [simp del]

lemma filter_options_Cons:
  "\<not> blocked_option u token \<Longrightarrow> filter_options u (token # rest) = token # filter_options u rest"
  "blocked_option u token \<Longrightarrow> filter_options u (token # rest) =
     filter_options u (if rest \<noteq> [] \<and> hd rest \<noteq> [] \<and> hd (hd rest) \<noteq> CHR ''-'' then tl rest else rest)"
  by (simp_all add: filter_options.simps(2) [of u token] split: list.split)

lemma filter_options_sound:
  "subseq (filter_options u args) args \<and> (\<forall>t \<in> set (filter_options u args). \<not> blocked_option u t)"
proof (induction args rule: length_induct)
  case (1 args)
  show ?case
  proof (cases args)
    case (Cons token rest)
    show ?thesis
    proof (cases "blocked_option u token")
      case True
      define others where "others = (if rest \<noteq> [] \<and> hd rest \<noteq> [] \<and> hd (hd rest) \<noteq> CHR ''-'' then tl rest else rest)"
      have "length others < length args" "subseq others args"
        using Cons by (auto simp: others_def intro: list_emb_Cons subseq_order.order_trans)
      then show ?thesis
        using 1 filter_options_Cons(2) [OF True, of rest] subseq_order.order_trans unfolding Cons others_def by metis
    next
      case False
      then show ?thesis using 1 Cons by (auto simp: filter_options_Cons)
    qed
  qed simp
qed

lemma filter_options_plain: "\<forall>t \<in> set args. \<not> blocked_option u t \<Longrightarrow> filter_options u args = args"
  by (induction args) (simp_all add: filter_options_Cons)

lemma blocked_none [simp]: "\<not> blocked_option [] t"
  by (simp add: blocked_option_def)

text \<open>
  Filtering a worker's options: what is passed on is a subsequence of the arguments without an unsupported option,
  and the arguments are passed on as they are exactly when none of them is one.
\<close>

theorem options_filtered:
  "subseq (without_options args unsupported) args \<and> \<not> list_ex (blocked_option unsupported) (without_options args unsupported) \<and>
   (without_options args unsupported = args \<longleftrightarrow> \<not> list_ex (blocked_option unsupported) args)"
proof (cases "unsupported = []")
  case True
  then show ?thesis by (simp add: without_options_def list_ex_iff)
next
  case False
  then show ?thesis
    using filter_options_sound [of unsupported args] filter_options_plain [of args unsupported]
    by (auto simp: without_options_def list_ex_iff)
qed

text \<open>
  The value is also taken from an option that already has one: after \<open>--cells=9\<close> the next argument is lost, though it is
  no value of that option. No declared operation has unsupported options.
\<close>

lemma filter_takes_next: "without_options [''--cells=9'', ''/dev/sdb''] [''--cells''] = []"
  by code_simp

subsection \<open>The manifest is the registry\<close>

definition texts_json :: "string list \<Rightarrow> json" where
  "texts_json items = JArray (map JString items)"

definition operation_tree :: "OperationSpec \<Rightarrow> json" where
  "operation_tree op =
     JObject [(''name'', JString (os_name op)), (''worker'', JString (os_worker op)), (''layout_policy'', JString (os_layout_policy op)),
       (''label'', JString (os_label op)), (''description'', JString (os_description op)), (''warning'', JString (os_warning op)),
       (''default_options'', texts_json (os_default_options op)), (''unsupported_options'', texts_json (os_unsupported_options op)),
       (''raw_offline'', JBool (os_raw_offline op)), (''live_updates'', JBool (os_live_updates op))]"

definition backend_tree :: "BackendInfo \<Rightarrow> json" where
  "backend_tree b =
     JObject [(''id'', JString (bi_id b)), (''display_name'', JString (bi_display_name b)), (''aliases'', texts_json (bi_aliases b)),
       (''capabilities'', JNumber (show_u32 (bi_capabilities b))), (''map_accuracy'', JString (bi_map_accuracy b)),
       (''accepted_map_accuracies'',
          texts_json (if bi_accepted_map_accuracies b = [] then [bi_map_accuracy b] else bi_accepted_map_accuracies b)),
       (''qualification_mode'', JString (qualification_mode_key (bi_qualification_mode b))),
       (''map_auxiliary_worker'', JString (bi_map_auxiliary_worker b)),
       (''operations'', JArray (map operation_tree (bi_operations b)))]"

definition manifest_tree :: "u32 \<Rightarrow> json" where
  "manifest_tree schema =
     JObject [(''schema'', JNumber (show_u32 schema)), (''backends'', JArray (map backend_tree registry_entries))]"

text \<open>The escaping leaves letters and underscores alone.\<close>

definition letters_only :: "string \<Rightarrow> bool" where
  "letters_only s \<longleftrightarrow> s \<noteq> [] \<and> list_all (\<lambda>c. c = CHR ''_'' \<or> (97 \<le> (of_char c :: nat) \<and> (of_char c :: nat) \<le> 122)) s"

definition keeps_names :: "json_lib \<Rightarrow> bool" where
  "keeps_names J \<longleftrightarrow> (\<forall>s. letters_only s \<longrightarrow> quoted J s = Inr (CHR 0x22 # s @ [CHR 0x22]))"

lemma append_exc_Nil [simp]: "append_exc (Inr []) q = q" "append_exc p (Inr []) = p"
  by (simp_all add: append_exc_def split: sum.split)

lemma append_exc_assoc [simp]: "append_exc (append_exc p q) r = append_exc p (append_exc q r)"
  by (simp add: append_exc_def split: sum.split)

lemma join_append [simp]: "join_exc (ps @ qs) = append_exc (join_exc ps) (join_exc qs)"
  by (induction ps) simp_all

lemma dump_cases:
  "json_dump J (JArray vs) = append_exc (Inr ''['') (append_exc (dump_items J True vs) (Inr '']''))"
  "json_dump J (JObject kvs) = append_exc (Inr [CHR 0x7B]) (append_exc (dump_members J True kvs) (Inr [CHR 0x7D]))"
  "dump_items J True [] = Inr []"
  "dump_items J True [v] = json_dump J v"
  "dump_items J True (v # w # vs) = append_exc (json_dump J v) (append_exc (Inr '','') (dump_items J True (w # vs)))"
  "dump_members J True [] = Inr []"
  "dump_members J True [(k, v)] = append_exc (quoted J k) (append_exc (Inr '':'') (json_dump J v))"
  "dump_members J True ((k, v) # m # kvs) = append_exc (quoted J k) (append_exc (Inr '':'')
     (append_exc (json_dump J v) (append_exc (Inr '','') (dump_members J True (m # kvs)))))"
  by (simp_all add: append_exc_def dump_items_later dump_members_later del: dump_items.simps(2) split: sum.split) (cases m; auto split: sum.split)+

declare json_dump.simps(5,6) [simp del] dump_items.simps [simp del] dump_members.simps [simp del]

lemma comma_list_dump: "join_exc (comma_list (map (json_dump J) vs)) = dump_items J True vs"
  by (induction vs rule: induct_list012) (simp_all add: dump_cases)

lemma join_quotes [simp]: "join_exc (quote_list J items) = json_dump J (texts_json items)"
proof -
  have "map (json_quote J) items = map (json_dump J) (map JString items)"
    by (simp add: json_quote_def o_def)
  then have "join_exc (comma_list (map (json_quote J) items)) = dump_items J True (map JString items)"
    using comma_list_dump by metis
  then show ?thesis by (simp add: quote_list_def texts_json_def dump_cases(1))
qed

lemma names_kept:
  assumes "keeps_names J" "s \<in> {''name'', ''worker'', ''layout_policy'', ''label'', ''description'', ''warning'', ''default_options'',
    ''unsupported_options'', ''raw_offline'', ''live_updates'', ''id'', ''display_name'', ''aliases'', ''capabilities'', ''map_accuracy'',
    ''accepted_map_accuracies'', ''qualification_mode'', ''map_auxiliary_worker'', ''operations'', ''schema'', ''backends''}"
  shows "append_exc (quoted J s) (append_exc (Inr '':'') q) = append_exc (json_key s) q"
proof -
  have "letters_only s"
    using assms(2) by (elim insertE; simp add: letters_only_def of_char_def)
  then have "quoted J s = Inr (CHR 0x22 # s @ [CHR 0x22])" using assms(1) by (simp add: keeps_names_def)
  then show ?thesis by (simp add: json_key_def append_exc_def split: sum.split)
qed

lemma operation_dump: "keeps_names J \<Longrightarrow> operation_json J op = json_dump J (operation_tree op)"
  by (simp add: operation_json_def operation_tree_def dump_cases names_kept json_quote_def)

lemma backend_dump: "keeps_names J \<Longrightarrow> backend_json J b = json_dump J (backend_tree b)"
proof -
  assume J: "keeps_names J"
  have "map (operation_json J) (bi_operations b) = map (json_dump J) (map operation_tree (bi_operations b))"
    using operation_dump [OF J] by simp
  then have "join_exc (comma_list (map (operation_json J) (bi_operations b))) = dump_items J True (map operation_tree (bi_operations b))"
    using comma_list_dump by metis
  then show ?thesis
    by (simp add: backend_json_def backend_tree_def dump_cases names_kept [OF J] json_quote_def)
qed

lemma manifest_dump: "keeps_names J \<Longrightarrow> schema \<noteq> 0 \<Longrightarrow> registry_manifest_json J schema = json_dump J (manifest_tree schema)"
proof -
  assume J: "keeps_names J" and schema: "schema \<noteq> 0"
  have "map (backend_json J) registry_entries = map (json_dump J) (map backend_tree registry_entries)"
    using backend_dump [OF J] by simp
  then have "join_exc (comma_list (map (backend_json J) registry_entries)) = dump_items J True (map backend_tree registry_entries)"
    using comma_list_dump by metis
  then show ?thesis
    using schema by (simp add: registry_manifest_json_def manifest_tree_def dump_cases names_kept [OF J])
qed

lemma texts_ok: "json_ok (Suc (Suc n)) (texts_json items)"
  by (auto simp: texts_json_def)

lemma operation_ok: "json_ok (Suc (Suc (Suc n))) (operation_tree op)"
  using texts_ok by (simp add: operation_tree_def)

lemma backend_ok: "json_ok (Suc (Suc (Suc (Suc (Suc n))))) (backend_tree b)"
proof -
  have "\<forall>op. json_ok (Suc (Suc (Suc n))) (operation_tree op)" using operation_ok by blast
  then show ?thesis using texts_ok [of "Suc (Suc n)"] by (simp add: backend_tree_def show_nat_number)
qed

lemma manifest_ok_deep: "json_ok (Suc (Suc (Suc (Suc (Suc (Suc (Suc n))))))) (manifest_tree schema)"
  using backend_ok [of n] by (auto simp: manifest_tree_def show_nat_number)

lemma manifest_ok: "json_ok 65 (manifest_tree schema)"
  using manifest_ok_deep [of 58] by simp

text \<open>Every text of the registry is ASCII.\<close>

definition operation_texts :: "OperationSpec \<Rightarrow> string list" where
  "operation_texts op =
     os_default_options op @ os_unsupported_options op @
     [os_name op, os_worker op, os_layout_policy op, os_label op, os_description op, os_warning op]"

definition backend_texts :: "BackendInfo \<Rightarrow> string list" where
  "backend_texts b =
     bi_aliases b @ bi_accepted_map_accuracies b @ concat (map operation_texts (bi_operations b)) @
     [bi_id b, bi_display_name b, bi_map_accuracy b, bi_map_auxiliary_worker b]"

definition plain_bytes :: "string \<Rightarrow> bool" where
  "plain_bytes s = list_all (\<lambda>c. c \<noteq> CHR 0x00 \<and> \<not> digit7 c) s"

lemma plain_ascii: "plain_bytes s \<Longrightarrow> ascii s"
proof -
  have "0 < (of_char c :: nat) \<and> (of_char c :: nat) < 128" if "c \<noteq> CHR 0x00 \<and> \<not> digit7 c" for c
    using that by (cases c) (auto simp: of_char_def)
  then show "plain_bytes s \<Longrightarrow> ascii s" by (auto simp: plain_bytes_def ascii_def list_all_iff)
qed

lemma texts_ascii: "list_all ascii items \<Longrightarrow> json_ascii (Suc (Suc n)) (texts_json items)"
  by (auto simp: texts_json_def list_all_iff)

lemma operation_ascii: "list_all ascii (operation_texts op) \<Longrightarrow> json_ascii (Suc (Suc (Suc n))) (operation_tree op)"
  using texts_ascii by (simp add: operation_tree_def operation_texts_def plain_ascii plain_bytes_def)

lemma backend_ascii:
  assumes "list_all ascii (backend_texts b)"
  shows "json_ascii (Suc (Suc (Suc (Suc (Suc n))))) (backend_tree b)"
proof -
  have "\<forall>op \<in> set (bi_operations b). json_ascii (Suc (Suc (Suc n))) (operation_tree op)"
    using assms operation_ascii by (auto simp: backend_texts_def list_all_iff)
  moreover have "ascii (qualification_mode_key m)" for m
    by (rule plain_ascii, cases m) (simp_all add: plain_bytes_def qualification_mode_key_def)
  ultimately show ?thesis
    using assms texts_ascii [of _ "Suc (Suc n)"] by (simp add: backend_tree_def backend_texts_def plain_ascii plain_bytes_def)
qed

lemma registry_plain: "list_all (\<lambda>b. list_all plain_bytes (backend_texts b)) registry_entries"
  by code_simp

lemma manifest_ascii_deep: "json_ascii (Suc (Suc (Suc (Suc (Suc (Suc (Suc n))))))) (manifest_tree schema)"
proof -
  have "\<forall>b \<in> set registry_entries. json_ascii (Suc (Suc (Suc (Suc (Suc n))))) (backend_tree b)"
    using registry_plain backend_ascii plain_ascii by (auto simp: list_all_iff)
  then show ?thesis
    by (auto simp: manifest_tree_def plain_ascii plain_bytes_def)
qed

lemma manifest_ascii: "json_ascii 65 (manifest_tree schema)"
  using manifest_ascii_deep [of 58] by simp

text \<open>
  The manifest is the registry: with a library that escapes ASCII texts as JSON prescribes and leaves plain words
  alone, \<open>registry_manifest_json\<close> gives a text that \<open>Json::parse\<close> reads as the object with the schema number and
  one object for each back end in order, holding its declaration and its operations.
\<close>

theorem manifest_roundtrip:
  assumes "escapes_ascii J" "keeps_names J" "schema \<noteq> 0"
  shows "\<exists>t. registry_manifest_json J schema = Inr t \<and> json_parse J t = Inr (json_norm (manifest_tree schema))"
  using dump_parses [OF assms(1) manifest_ok manifest_ascii, of "[]" "[]" schema] manifest_dump [OF assms(2,3)] by simp

lemma demo_plain:
  assumes "c = CHR ''_'' \<or> (97 \<le> (of_char c :: nat) \<and> (of_char c :: nat) \<le> 122)"
  shows "c \<noteq> CHR 0x00 \<and> demo_escape_char c = [c]"
proof -
  have "(of_char CHR ''_'' :: nat) = 95" by (simp add: of_char_def)
  then have "(of_char c :: nat) = 95 \<or> (of_char c :: nat) \<ge> 97" using assms by metis
  moreover have "(of_char CHR 0x22 :: nat) = 34" "(of_char CHR 0x00 :: nat) = 0" "(of_char CHR 0x5C :: nat) = 92"
    by (simp_all add: of_char_def)
  ultimately have "c \<noteq> CHR 0x22" "c \<noteq> CHR 0x00" "c \<noteq> CHR 0x5C" "\<not> (of_char c :: nat) < 0x20" by auto
  then show ?thesis by (simp add: demo_escape_char_def)
qed

theorem manifest_roundtrip_witness:
  "escapes_ascii demo_json_lib \<and> keeps_names demo_json_lib \<and>
   (\<exists>t. registry_manifest_json demo_json_lib 2 = Inr t \<and> json_parse demo_json_lib t = Inr (json_norm (manifest_tree 2)))"
proof -
  have "quoted demo_json_lib s = Inr (CHR 0x22 # s @ [CHR 0x22])" if "letters_only s" for s
  proof -
    have c: "\<forall>c \<in> set s. c \<noteq> CHR 0x00 \<and> demo_escape_char c = [c]"
      using that demo_plain by (auto simp: letters_only_def list_all_iff)
    then have "concat (map demo_escape_char s) = s" "c_str s = s"
      by (induction s) (auto simp: c_str_def)
    then show ?thesis by (simp add: quoted_def demo_json_lib_def)
  qed
  then have "keeps_names demo_json_lib" by (simp add: keeps_names_def)
  then have "\<exists>t. registry_manifest_json demo_json_lib 2 = Inr t \<and> json_parse demo_json_lib t = Inr (json_norm (manifest_tree 2))"
    by (intro manifest_roundtrip demo_escapes) simp_all
  then show ?thesis using demo_escapes \<open>keeps_names demo_json_lib\<close> by blast
qed

end
