(* ===== verification/Helper_Policy.thy ===== *)
theory Helper_Policy
  imports Registry
begin

text \<open>
  The argument contract of the privileged helper, \<open>native/helper_policy.cpp\<close>: which command lines an
  authenticated desktop user may have run as root. A \<open>runtime_error\<close> is its message; the two regular
  expressions are the character tests they stand for, and the process environment is the record
  \<open>helper_env\<close>.
\<close>

subsection \<open>Tokens\<close>

definition kMaxMapCells :: u64 where "kMaxMapCells = 1048576"

definition kMapper :: string where "kMapper = ''/System/Commands/Defragmenter/defragmenter-mapper''"
definition kOperationEngine :: string where "kOperationEngine = ''/System/Commands/Defragmenter/defragmenter-operation-engine''"
definition kUdisksctl :: string where "kUdisksctl = ''/usr/bin/udisksctl''"
definition kStateRoot :: string where "kStateRoot = ''/var/lib/defragmenter/state''"

record HelperCommand =
  hc_executable :: string
  hc_arguments :: "string list"

record helper_env =
  he_getenv :: "string \<Rightarrow> string option"
  he_geteuid :: u32
  he_getuid :: u32

definition digit_value :: "char \<Rightarrow> u64" where
  "digit_value c = word_of_nat (of_char c - 48)"

fun uid_digits :: "u64 \<Rightarrow> string \<Rightarrow> u64 exc" where
  "uid_digits parsed [] = Inr parsed"
| "uid_digits parsed (c # s) =
     (if \<not> is_digit c then Inl ''invalid invoking UID''
      else let parsed' = parsed * 10 + digit_value c
           in if parsed' > 4294967295 then Inl ''invoking UID is out of range'' else uid_digits parsed' s)"

definition parse_uid :: "string option \<Rightarrow> u32 exc" where
  "parse_uid raw =
     (case raw of
        None \<Rightarrow> Inl ''empty invoking UID''
      | Some value \<Rightarrow>
          if value = [] then Inl ''empty invoking UID''
          else (case uid_digits 0 value of Inl e \<Rightarrow> Inl e | Inr n \<Rightarrow> Inr (ucast n)))"

definition identifier_char :: "char \<Rightarrow> bool" where
  "identifier_char c \<longleftrightarrow>
     (65 \<le> (of_char c :: nat) \<and> (of_char c :: nat) \<le> 90) \<or> (97 \<le> (of_char c :: nat) \<and> (of_char c :: nat) \<le> 122) \<or> is_digit c \<or>
     c = CHR ''_'' \<or> c = CHR ''.'' \<or> c = CHR ''-''"

definition valid_filesystem_identifier :: "string \<Rightarrow> bool" where
  "valid_filesystem_identifier value \<longleftrightarrow> value \<noteq> [] \<and> list_all (\<lambda>c. identifier_char c \<or> c = CHR ''+'') value"

definition validate_device_path :: "string \<Rightarrow> string \<Rightarrow> unit exc" where
  "validate_device_path value purpose =
     (if \<not> starts_with value ''/dev/'' \<or> \<not> is_absolute value \<or> \<not> path_equal (lexically_normal value) value
      then Inl (purpose @ '' must be a normalised /dev/... path'')
      else let relative = drop 5 value;
               direct = relative \<noteq> [] \<and> CHR ''/'' \<notin> set relative;
               mapper = starts_with relative ''mapper/'' \<and> length relative > 7 \<and> CHR ''/'' \<notin> set (drop 7 relative)
           in if \<not> direct \<and> \<not> mapper then Inl (purpose @ '' is outside the authorised device namespace'') else Inr ())"

fun cell_digits :: "u64 \<Rightarrow> string \<Rightarrow> u64 exc" where
  "cell_digits parsed [] = Inr parsed"
| "cell_digits parsed (c # s) =
     (if \<not> is_digit c then Inl ''mapper cell count is not decimal''
      else let digit = digit_value c
           in if parsed > (kMaxMapCells - digit) div 10 then Inl ''mapper cell count is out of range''
              else cell_digits (parsed * 10 + digit) s)"

definition parse_mapper_cells :: "string \<Rightarrow> u64 exc" where
  "parse_mapper_cells value =
     (if value = [] then Inl ''mapper cell count is empty''
      else case cell_digits 0 value of
             Inl e \<Rightarrow> Inl e
           | Inr parsed \<Rightarrow>
               if parsed = 0 \<or> parsed > kMaxMapCells then Inl ''mapper cell count is out of range'' else Inr parsed)"

definition validate_mapper_args :: "string list \<Rightarrow> unit exc" where
  "validate_mapper_args arguments =
     (if length arguments \<noteq> 5 \<or> arguments ! 1 \<noteq> ''--fstype'' \<or> arguments ! 3 \<noteq> ''--cells''
      then Inl ''mapper command is not allowed''
      else case validate_device_path (arguments ! 0) ''mapper target'' of
             Inl e \<Rightarrow> Inl e
           | Inr u \<Rightarrow>
               if \<not> valid_filesystem_identifier (arguments ! 2) then Inl ''mapper filesystem identifier is not valid''
               else (case parse_mapper_cells (arguments ! 4) of Inl e \<Rightarrow> Inl e | Inr n \<Rightarrow> Inr ()))"

subsection \<open>The operation engine's arguments\<close>

record request_state =
  rs_filesystem :: bool
  rs_write :: bool
  rs_confirm :: bool
  rs_growth :: bool
  rs_journal_count :: nat
  rs_journal :: path

definition takes_value :: "string \<Rightarrow> bool" where
  "takes_value token \<longleftrightarrow>
     token = ''--filesystem'' \<or> token = ''--confirm'' \<or> token = ''--journal'' \<or> token = ''--growth-percent'' \<or>
     token = ''--batch-clusters'' \<or> token = ''--ram-buffer'' \<or> token = ''--live-map-cells''"

definition accept_option :: "string \<Rightarrow> string \<Rightarrow> string \<Rightarrow> string \<Rightarrow> request_state \<Rightarrow> request_state exc" where
  "accept_option op_name device token value st =
     (if token = ''--filesystem'' then
        if rs_filesystem st then Inl ''operation-engine request repeats --filesystem''
        else if \<not> valid_filesystem_identifier value then Inl ''operation filesystem identifier is not valid''
        else Inr (st\<lparr>rs_filesystem := True\<rparr>)
      else if token = ''--confirm'' then
        if rs_confirm st then Inl ''operation-engine request repeats --confirm''
        else if value \<noteq> device then Inl ''operation confirmation does not match target''
        else Inr (st\<lparr>rs_confirm := True\<rparr>)
      else if token = ''--journal'' then Inr (st\<lparr>rs_journal_count := rs_journal_count st + 1, rs_journal := value\<rparr>)
      else if token = ''--growth-percent'' then
        if rs_growth st \<or> op_name \<noteq> ''growth-defrag'' \<or> value \<noteq> ''10''
        then Inl ''growth percentage is permitted only once as 10 for growth-defrag''
        else Inr (st\<lparr>rs_growth := True\<rparr>)
      else Inr st)"

fun operation_options :: "string \<Rightarrow> string \<Rightarrow> string list \<Rightarrow> request_state \<Rightarrow> request_state exc" where
  "operation_options op_name device [] st = Inr st"
| "operation_options op_name device (token # rest) st =
     (if token = ''--write'' then
        if rs_write st then Inl ''operation-engine request repeats --write''
        else operation_options op_name device rest (st\<lparr>rs_write := True\<rparr>)
      else if \<not> takes_value token then Inl (''operation-engine request contains an unsupported option: '' @ token)
      else case rest of
             [] \<Rightarrow> Inl (''operation-engine request has a truncated option: '' @ token)
           | value # others \<Rightarrow>
               if value = [] then Inl (''operation-engine request has an empty option value: '' @ token)
               else (case accept_option op_name device token value st of
                       Inl e \<Rightarrow> Inl e
                     | Inr st' \<Rightarrow> operation_options op_name device others st'))"

definition journal_file :: "string \<Rightarrow> bool" where
  "journal_file f \<longleftrightarrow>
     length f > 8 \<and> drop (length f - 8) f = ''.journal'' \<and> list_all identifier_char (take (length f - 8) f)"

definition state_directory :: "u32 \<Rightarrow> path" where
  "state_directory invoking_uid = join_path kStateRoot (show_u32 invoking_uid)"

definition request_start :: request_state where
  "request_start =
     \<lparr>rs_filesystem = False, rs_write = False, rs_confirm = False, rs_growth = False, rs_journal_count = 0, rs_journal = []\<rparr>"

definition check_request :: "string \<Rightarrow> u32 \<Rightarrow> request_state \<Rightarrow> unit exc" where
  "check_request op_name invoking_uid st =
     (if \<not> rs_filesystem st \<or> \<not> rs_write st \<or> \<not> rs_confirm st
      then Inl ''operation-engine request is missing required mutation authority''
      else if op_name = ''growth-defrag'' \<and> \<not> rs_growth st
      then Inl ''growth-defrag request must provide the fixed 10 percent reserve''
      else if rs_journal_count st \<noteq> 1
      then Inl ''operation-engine request must provide exactly one journal''
      else let journal = rs_journal st; expected_parent = state_directory invoking_uid
           in if \<not> is_absolute journal \<or> \<not> path_equal (parent_path (lexically_normal journal)) expected_parent
              then Inl (''operation journal must be directly below '' @ expected_parent)
              else if \<not> journal_file (file_name journal) then Inl ''operation journal filename is not valid''
              else Inr ())"

definition mutating_operation :: "string \<Rightarrow> bool" where
  "mutating_operation op_name \<longleftrightarrow> op_name \<in> {''defrag'', ''growth-defrag'', ''recover''}"

definition validate_operation_args :: "string list \<Rightarrow> u32 \<Rightarrow> unit exc" where
  "validate_operation_args arguments invoking_uid =
     (if length arguments < 2 \<or> \<not> mutating_operation (arguments ! 0)
      then Inl ''operation-engine command is not allowed''
      else let op_name = arguments ! 0; device = arguments ! 1
           in if device = [] \<or> hd device \<noteq> CHR ''/'' then Inl ''operation target must be an absolute path''
              else case operation_options op_name device (drop 2 arguments) request_start of
                     Inl e \<Rightarrow> Inl e
                   | Inr st \<Rightarrow> check_request op_name invoking_uid st)"

subsection \<open>The command\<close>

definition invoking_uid_from_environment :: "helper_env \<Rightarrow> u32 exc" where
  "invoking_uid_from_environment H =
     (let set_value = (\<lambda>name. case he_getenv H name of None \<Rightarrow> None | Some raw \<Rightarrow> if raw = [] then None else Some raw)
      in case set_value ''PKEXEC_UID'' of
           Some raw \<Rightarrow> parse_uid (Some raw)
         | None \<Rightarrow>
             (case set_value ''SUDO_UID'' of
                Some raw \<Rightarrow> parse_uid (Some raw)
              | None \<Rightarrow>
                  if he_geteuid H \<noteq> 0 then Inr (he_getuid H)
                  else Inl ''cannot determine the unprivileged caller UID''))"

definition helper_command :: "string \<Rightarrow> string list \<Rightarrow> u32 \<Rightarrow> HelperCommand exc" where
  "helper_command prog arguments invoking_uid =
     (let run = (\<lambda>checked executable. case checked of
                   Inl e \<Rightarrow> Inl e
                 | Inr u \<Rightarrow> Inr \<lparr>hc_executable = executable, hc_arguments = arguments\<rparr>)
      in if prog = ''operation-engine'' then run (validate_operation_args arguments invoking_uid) kOperationEngine
         else if prog = ''mapper'' then run (validate_mapper_args arguments) kMapper
         else if prog = ''udisksctl'' then
           if length arguments \<noteq> 3 \<or> arguments ! 0 \<noteq> ''unmount'' \<or> arguments ! 1 \<noteq> ''-b''
           then Inl ''only udisksctl unmount -b /dev/... is allowed''
           else run (validate_device_path (arguments ! 2) ''unmount target'') kUdisksctl
         else Inl ''unknown helper program'')"


subsection \<open>Numbers\<close>

lemma digit_value_nat: "is_digit c \<Longrightarrow> unat (digit_value c) = of_char c - 48 \<and> unat (digit_value c) \<le> 9"
proof -
  assume "is_digit c"
  then have "(of_char c :: nat) - 48 \<le> 9" unfolding is_digit_def by linarith
  moreover from this have "unat (word_of_nat (of_char c - 48) :: u64) = of_char c - 48"
    by (simp add: unsigned_of_nat take_bit_nat_eq_self)
  ultimately show ?thesis by (simp add: digit_value_def)
qed

definition digits_after :: "nat \<Rightarrow> string \<Rightarrow> nat" where
  "digits_after a s = foldl (\<lambda>a c. 10 * a + ((of_char c :: nat) - 48)) a s"

lemma digits_after_simps [simp]:
  "digits_after a [] = a" "digits_after a (c # s) = digits_after (10 * a + (of_char c - 48)) s"
  by (simp_all add: digits_after_def)

lemma digits_after_ge: "a \<le> digits_after a s"
proof (induction s arbitrary: a)
  case (Cons c s)
  have "a \<le> 10 * a + (of_char c - 48)" by simp
  then show ?case using Cons [of "10 * a + (of_char c - 48)"] by (simp only: digits_after_simps)
qed simp

lemma uid_digits_exact:
  assumes "unat p \<le> 4294967295"
  shows "uid_digits p s = Inr n \<longleftrightarrow> list_all is_digit s \<and> digits_after (unat p) s = unat n \<and> unat n \<le> 4294967295"
  using assms
proof (induction s arbitrary: p)
  case Nil
  then show ?case by (auto simp: word_unat_eq_iff)
next
  case (Cons c s)
  show ?case
  proof (cases "is_digit c")
    case True
    have step: "unat (p * 10 + digit_value c) = 10 * unat p + (of_char c - 48)"
      using Cons.prems digit_value_nat [OF True] by (simp add: unat_word_ariths)
    show ?thesis
    proof (cases "p * 10 + digit_value c > 4294967295")
      case over: True
      then have "10 * unat p + (of_char c - 48) > 4294967295" by (simp add: word_less_nat_alt step)
      then show ?thesis using True over digits_after_ge [of "10 * unat p + (of_char c - 48)" s] by (auto simp: Let_def)
    next
      case False
      then have "unat (p * 10 + digit_value c) \<le> 4294967295" by (simp add: word_less_nat_alt not_less)
      then show ?thesis using True False Cons.IH step by (simp add: Let_def)
    qed
  qed simp
qed

lemma cell_digits_exact:
  assumes "p \<le> kMaxMapCells"
  shows "cell_digits p s = Inr n \<longleftrightarrow> list_all is_digit s \<and> digits_after (unat p) s = unat n \<and> unat n \<le> 1048576"
  using assms
proof (induction s arbitrary: p)
  case Nil
  then show ?case by (auto simp: word_unat_eq_iff kMaxMapCells_def word_le_nat_alt)
next
  case (Cons c s)
  show ?case
  proof (cases "is_digit c")
    case True
    note d = digit_value_nat [OF True]
    have p: "unat p \<le> 1048576" using Cons.prems by (simp add: kMaxMapCells_def word_le_nat_alt)
    have step: "unat (p * 10 + digit_value c) = 10 * unat p + (of_char c - 48)"
      using p d by (simp add: unat_word_ariths)
    have "digit_value c \<le> kMaxMapCells" using d by (simp add: kMaxMapCells_def word_le_nat_alt)
    then have limit: "unat ((kMaxMapCells - digit_value c) div 10) = (1048576 - (of_char c - 48)) div 10"
      using d by (simp add: unat_div unat_sub kMaxMapCells_def)
    have fits: "p > (kMaxMapCells - digit_value c) div 10 \<longleftrightarrow> 10 * unat p + (of_char c - 48) > 1048576"
      using d unfolding word_less_nat_alt limit by linarith
    show ?thesis
    proof (cases "p > (kMaxMapCells - digit_value c) div 10")
      case over: True
      then show ?thesis
        using True fits digits_after_ge [of "10 * unat p + (of_char c - 48)" s] by (auto simp: Let_def)
    next
      case False
      then have "p * 10 + digit_value c \<le> kMaxMapCells" using fits step by (simp add: word_le_nat_alt kMaxMapCells_def)
      then show ?thesis using True False Cons.IH step by (simp add: Let_def)
    qed
  qed simp
qed

lemma nat_of_digits_after: "nat_of_digits s = digits_after 0 s"
  by (simp add: nat_of_digits_def digits_after_def)

text \<open>
  Property C21. Decimal arguments keep their bounds on \<open>uint32_t\<close> and \<open>std::size_t\<close>: the invoking user's number is exactly the
  decimal value of a non-empty digit string up to \<open>UINT32_MAX\<close>, and a mapper cell count that of one between 1 and the limit;
  the checks inside the loops never let the accumulator wrap.
\<close>

theorem helper_numbers_exact:
  "(parse_uid (Some value) = Inr u \<longleftrightarrow>
      value \<noteq> [] \<and> list_all is_digit value \<and> nat_of_digits value = unat u) \<and>
   (parse_mapper_cells value = Inr n \<longleftrightarrow>
      value \<noteq> [] \<and> list_all is_digit value \<and> nat_of_digits value = unat n \<and> 1 \<le> unat n \<and> unat n \<le> 1048576)"
proof
  have narrow: "unat (ucast n :: u32) = unat n" if "unat n \<le> 4294967295" for n :: u64
    using that by (simp add: unsigned_ucast_eq take_bit_nat_eq_self)
  have "unat u < 2 ^ 32" using unsigned_less [of u] by simp
  then have bound: "unat u \<le> 4294967295" by simp
  have "(\<exists>n. uid_digits 0 value = Inr n \<and> ucast n = u) \<longleftrightarrow> list_all is_digit value \<and> nat_of_digits value = unat u"
  proof
    assume "\<exists>n. uid_digits 0 value = Inr n \<and> ucast n = u"
    then obtain n where "uid_digits 0 value = Inr n" "ucast n = u" by blast
    then show "list_all is_digit value \<and> nat_of_digits value = unat u"
      using uid_digits_exact [of 0 "value" n] narrow [of n] by (auto simp: nat_of_digits_after)
  next
    assume r: "list_all is_digit value \<and> nat_of_digits value = unat u"
    have "unat (ucast u :: u64) = unat u" by (rule unat_ucast_u32)
    then have "uid_digits 0 value = Inr (ucast u)" "ucast (ucast u :: u64) = u"
      using uid_digits_exact [of 0 "value" "ucast u"] r bound narrow by (auto simp: nat_of_digits_after word_unat_eq_iff)
    then show "\<exists>n. uid_digits 0 value = Inr n \<and> ucast n = u" by blast
  qed
  then show "parse_uid (Some value) = Inr u \<longleftrightarrow> value \<noteq> [] \<and> list_all is_digit value \<and> nat_of_digits value = unat u"
    by (auto simp: parse_uid_def split: sum.splits)
  show "parse_mapper_cells value = Inr n \<longleftrightarrow>
      value \<noteq> [] \<and> list_all is_digit value \<and> nat_of_digits value = unat n \<and> 1 \<le> unat n \<and> unat n \<le> 1048576"
    using cell_digits_exact [of 0 "value" n]
    by (auto simp: parse_mapper_cells_def nat_of_digits_after kMaxMapCells_def word_le_nat_alt word_less_nat_alt unat_gt_0 Suc_le_eq
        split: sum.splits if_splits)
qed

subsection \<open>Device paths\<close>

lemma starts_with_split: "starts_with s p \<longleftrightarrow> (\<exists>r. s = p @ r)"
proof
  assume "starts_with s p"
  then have "s = p @ drop (length p) s" by (metis starts_with_def append_take_drop_id)
  then show "\<exists>r. s = p @ r" by blast
qed (auto simp: starts_with_def)

lemma device_not_normal:
  "\<not> path_equal (lexically_normal ''/dev/.'') ''/dev/.''" "\<not> path_equal (lexically_normal ''/dev/..'') ''/dev/..''"
  "\<not> path_equal (lexically_normal ''/dev/mapper/.'') ''/dev/mapper/.''"
  "\<not> path_equal (lexically_normal ''/dev/mapper/..'') ''/dev/mapper/..''"
  by code_simp+

lemma device_normal:
  assumes "plain_part name" "name \<noteq> ''.''" "name \<noteq> ''..''"
  shows "path_equal (lexically_normal (''/dev/'' @ name)) (''/dev/'' @ name)"
    "path_equal (lexically_normal (''/dev/mapper/'' @ name)) (''/dev/mapper/'' @ name)"
proof -
  have last: "name \<noteq> []" "last name \<noteq> CHR ''/''" using plain_part_head [OF assms(1)] assms(1) by (auto simp: plain_part_def)
  have "plain_part ''dev''" "plain_part ''mapper''" by (simp_all add: plain_part_def)
  from path_names_part(2) [OF this(1), of name] path_names_part(2) [OF this(1), of "''mapper/'' @ name"]
    path_names_part(2) [OF this(2), of name] path_names_part(1) [OF assms(1)]
  have names: "path_names (''/dev/'' @ name) = [''dev'', name]" "path_names (''/dev/mapper/'' @ name) = [''dev'', ''mapper'', name]"
    by simp_all
  show "path_equal (lexically_normal (''/dev/'' @ name)) (''/dev/'' @ name)"
    using last names(1) assms(2,3)
    by (simp add: path_equal_def lexically_normal_def is_absolute_def normal_names_def normal_step_def)
  show "path_equal (lexically_normal (''/dev/mapper/'' @ name)) (''/dev/mapper/'' @ name)"
    using last names(2) assms(2,3)
    by (simp add: path_equal_def lexically_normal_def is_absolute_def normal_names_def normal_step_def)
qed

lemma device_path_char:
  "validate_device_path value purpose = Inr () \<longleftrightarrow>
   (\<exists>name. plain_part name \<and> name \<notin> {''.'', ''..''} \<and> (value = ''/dev/'' @ name \<or> value = ''/dev/mapper/'' @ name))"
proof
  assume ok: "validate_device_path value purpose = Inr ()"
  then obtain relative where rel: "value = ''/dev/'' @ relative" by (auto simp: validate_device_path_def starts_with_split split: if_splits)
  have normal: "path_equal (lexically_normal value) value" using ok by (simp add: validate_device_path_def split: if_splits)
  have "relative \<noteq> [] \<and> CHR ''/'' \<notin> set relative \<or>
      (\<exists>name. relative = ''mapper/'' @ name \<and> name \<noteq> [] \<and> CHR ''/'' \<notin> set name)"
    using ok rel by (auto simp: validate_device_path_def starts_with_split Let_def split: if_splits)
  then obtain name where name: "plain_part name" "value = ''/dev/'' @ name \<or> value = ''/dev/mapper/'' @ name"
    using rel by (auto simp: plain_part_def)
  then have "name \<notin> {''.'', ''..''}" using normal device_not_normal by auto
  then show "\<exists>name. plain_part name \<and> name \<notin> {''.'', ''..''} \<and> (value = ''/dev/'' @ name \<or> value = ''/dev/mapper/'' @ name)"
    using name by blast
next
  assume "\<exists>name. plain_part name \<and> name \<notin> {''.'', ''..''} \<and> (value = ''/dev/'' @ name \<or> value = ''/dev/mapper/'' @ name)"
  then obtain name where name: "plain_part name" "name \<noteq> ''.''" "name \<noteq> ''..''" "value = ''/dev/'' @ name \<or> value = ''/dev/mapper/'' @ name"
    by blast
  from name(4) show "validate_device_path value purpose = Inr ()"
  proof
    assume v: "value = ''/dev/'' @ name"
    then have "path_equal (lexically_normal value) value" using device_normal name by blast
    then show ?thesis using v name(1) by (auto simp: validate_device_path_def starts_with_def is_absolute_def plain_part_def)
  next
    assume v: "value = ''/dev/mapper/'' @ name"
    then have "path_equal (lexically_normal value) value" using device_normal name by blast
    then show ?thesis using v name(1) by (auto simp: validate_device_path_def starts_with_def is_absolute_def plain_part_def)
  qed
qed


subsection \<open>The operation engine's arguments\<close>

text \<open>A request seen as a list of options with their values; \<open>--write\<close> has none.\<close>

definition option_words :: "(string \<times> string) list \<Rightarrow> string list" where
  "option_words opts = concat (map (\<lambda>m. if fst m = ''--write'' then [''--write''] else [fst m, snd m]) opts)"

definition shaped :: "(string \<times> string) list \<Rightarrow> bool" where
  "shaped opts \<longleftrightarrow> list_all (\<lambda>m. if fst m = ''--write'' then snd m = [] else takes_value (fst m) \<and> snd m \<noteq> []) opts"

definition uses :: "string \<Rightarrow> (string \<times> string) list \<Rightarrow> string list" where
  "uses token opts = map snd (filter (\<lambda>m. fst m = token) opts)"

lemma uses_simps [simp]:
  "uses token [] = []"
  "uses token (m # opts) = (if fst m = token then snd m # uses token opts else uses token opts)"
  by (simp_all add: uses_def)

lemma option_words_simps [simp]:
  "option_words [] = []"
  "option_words (m # opts) = (if fst m = ''--write'' then [''--write''] else [fst m, snd m]) @ option_words opts"
  by (simp_all add: option_words_def)

lemma shaped_simps [simp]:
  "shaped []"
  "shaped (m # opts) \<longleftrightarrow> (if fst m = ''--write'' then snd m = [] else takes_value (fst m) \<and> snd m \<noteq> []) \<and> shaped opts"
  by (simp_all add: shaped_def)

declare operation_options.simps(2) [simp del]

lemma options_shape:
  "operation_options op_name device ts st = Inr st' \<Longrightarrow> \<exists>opts. ts = option_words opts \<and> shaped opts"
proof (induction op_name device ts st rule: operation_options.induct)
  case (1 op_name device st)
  show ?case by (rule exI [of _ "[]"]) simp
next
  case (2 op_name device token rest st)
  show ?case
  proof (cases "token = ''--write''")
    case True
    then have "operation_options op_name device rest (st\<lparr>rs_write := True\<rparr>) = Inr st'" "\<not> rs_write st"
      using 2(3) by (simp_all add: operation_options.simps(2) split: if_splits)
    then obtain opts where "rest = option_words opts" "shaped opts" using 2(1) True by blast
    then show ?thesis using True by (intro exI [of _ "(''--write'', []) # opts"]) simp
  next
    case False
    then obtain v others st1 where rest: "rest = v # others" "takes_value token" "v \<noteq> []"
      "accept_option op_name device token v st = Inr st1" "operation_options op_name device others st1 = Inr st'"
      using 2(3) by (auto simp: operation_options.simps(2) [of op_name device token] split: if_splits list.splits sum.splits)
    then obtain opts where "others = option_words opts" "shaped opts" using 2(2) False by blast
    then show ?thesis using False rest by (intro exI [of _ "(token, v) # opts"]) simp
  qed
qed

definition granted :: "string \<Rightarrow> string \<Rightarrow> (string \<times> string) list \<Rightarrow> request_state \<Rightarrow> bool" where
  "granted op_name device opts st \<longleftrightarrow>
     length (uses ''--write'' opts) + of_bool (rs_write st) \<le> 1 \<and>
     length (uses ''--filesystem'' opts) + of_bool (rs_filesystem st) \<le> 1 \<and>
     list_all valid_filesystem_identifier (uses ''--filesystem'' opts) \<and>
     length (uses ''--confirm'' opts) + of_bool (rs_confirm st) \<le> 1 \<and> list_all (\<lambda>v. v = device) (uses ''--confirm'' opts) \<and>
     length (uses ''--growth-percent'' opts) + of_bool (rs_growth st) \<le> 1 \<and>
     list_all (\<lambda>v. op_name = ''growth-defrag'' \<and> v = ''10'') (uses ''--growth-percent'' opts)"

definition granted_state :: "(string \<times> string) list \<Rightarrow> request_state \<Rightarrow> request_state" where
  "granted_state opts st =
     \<lparr>rs_filesystem = (rs_filesystem st \<or> uses ''--filesystem'' opts \<noteq> []), rs_write = (rs_write st \<or> uses ''--write'' opts \<noteq> []),
      rs_confirm = (rs_confirm st \<or> uses ''--confirm'' opts \<noteq> []), rs_growth = (rs_growth st \<or> uses ''--growth-percent'' opts \<noteq> []),
      rs_journal_count = rs_journal_count st + length (uses ''--journal'' opts),
      rs_journal = (if uses ''--journal'' opts = [] then rs_journal st else last (uses ''--journal'' opts))\<rparr>"

lemma options_granted:
  "shaped opts \<Longrightarrow>
   operation_options op_name device (option_words opts) st = Inr st' \<longleftrightarrow> granted op_name device opts st \<and> st' = granted_state opts st"
proof (induction opts arbitrary: st)
  case Nil
  then show ?case by (auto simp: granted_def granted_state_def)
next
  case (Cons m opts)
  obtain t v where m: "m = (t, v)" by (cases m)
  show ?case
  proof (cases "t = ''--write''")
    case True
    have step: "operation_options op_name device (option_words ((''--write'', v) # opts)) st =
        (if rs_write st then Inl ''operation-engine request repeats --write''
         else operation_options op_name device (option_words opts) (st\<lparr>rs_write := True\<rparr>))"
      using True m by (simp add: operation_options.simps(2))
    have opts: "shaped opts" using Cons.prems by simp
    show ?thesis unfolding m True step using Cons.IH [OF opts]
      by (cases "rs_write st") (simp_all add: granted_def granted_state_def cong: conj_cong)
  next
    case False
    then have v: "takes_value t" "v \<noteq> []" "shaped opts" using Cons.prems m by simp_all
    have step: "operation_options op_name device (option_words ((t, v) # opts)) st =
        (case accept_option op_name device t v st of Inl e \<Rightarrow> Inl e | Inr st1 \<Rightarrow> operation_options op_name device (option_words opts) st1)"
      using False m v by (simp add: operation_options.simps(2))
    have kept: ?thesis if t: "t \<in> {''--batch-clusters'', ''--ram-buffer'', ''--live-map-cells''}"
    proof -
      have "accept_option op_name device t v st = Inr st"
        using t by (elim insertE emptyE; simp add: accept_option_def)
      moreover have "uses k ((t, v) # opts) = uses k opts"
        if "k \<in> {''--write'', ''--filesystem'', ''--confirm'', ''--journal'', ''--growth-percent''}" for k
        using t that by (elim insertE emptyE; simp)
      ultimately show ?thesis
        unfolding m step using Cons.IH [OF v(3)] by (simp add: granted_def granted_state_def)
    qed
    from v(1) show ?thesis
      unfolding takes_value_def
    proof (elim disjE, goal_cases)
      case 1
      then show ?case unfolding step m using Cons.IH [OF v(3)]
        by (cases "rs_filesystem st") (simp_all add: accept_option_def granted_def granted_state_def cong: conj_cong)
    next
      case 2
      then show ?case unfolding step m using Cons.IH [OF v(3)]
        by (cases "rs_confirm st") (simp_all add: accept_option_def granted_def granted_state_def cong: conj_cong)
    next
      case 3
      then show ?case unfolding step m using Cons.IH [OF v(3)]
        by (simp add: accept_option_def granted_def granted_state_def cong: conj_cong)
    next
      case 4
      show ?case
      proof (cases "rs_growth st \<or> op_name \<noteq> ''growth-defrag'' \<or> v \<noteq> ''10''")
        case True
        then have "accept_option op_name device t v st = Inl ''growth percentage is permitted only once as 10 for growth-defrag''"
          using 4 by (simp add: accept_option_def)
        then show ?thesis unfolding m step using 4 True by (elim disjE; simp add: granted_def)
      next
        case False
        then have "accept_option op_name device t v st = Inr (st\<lparr>rs_growth := True\<rparr>)" using 4 by (simp add: accept_option_def)
        then show ?thesis unfolding m step using Cons.IH [OF v(3)] 4 False
          by (simp add: granted_def granted_state_def cong: conj_cong)
      qed
    qed (rule kept, simp)+
  qed
qed


subsection \<open>The authority of a request\<close>

text \<open>A journal in the caller's state directory: by its normal form.\<close>

definition journal_authorised :: "u32 \<Rightarrow> path \<Rightarrow> bool" where
  "journal_authorised invoking_uid j \<longleftrightarrow>
     is_absolute j \<and> journal_file (file_name j) \<and>
     normal_names True (path_names j) = [''var'', ''lib'', ''defragmenter'', ''state'', show_u32 invoking_uid, file_name j]"

lemma journal_file_part:
  assumes "journal_file f" "CHR ''/'' \<notin> set f"
  shows "plain_part f" "f \<noteq> ''.''" "f \<noteq> ''..''"
  using assms by (auto simp: journal_file_def plain_part_def)

lemma show_nat_plain: "plain_part (show_nat n) \<and> show_nat n \<noteq> ''.'' \<and> show_nat n \<noteq> ''..''"
proof -
  have digits: "show_nat n \<noteq> []" "list_all is_digit (show_nat n)" using show_nat_digits [of n] by (simp_all add: list_all_iff)
  then have "is_digit (hd (show_nat n))" by (cases "show_nat n") simp_all
  moreover have "\<not> is_digit CHR ''/''" "\<not> is_digit CHR ''.''" by (simp_all add: is_digit_def)
  ultimately show ?thesis using digits by (auto simp: plain_part_def list_all_iff)
qed

lemma state_elements:
  "path_elements (state_directory uid) = [''/'', ''var'', ''lib'', ''defragmenter'', ''state'', show_u32 uid]"
proof -
  have dir: "state_directory uid = ''/var/lib/defragmenter/state/'' @ show_u32 uid"
    using show_nat_plain [of "unat uid"] plain_part_head [of "show_u32 uid"]
    by (simp add: state_directory_def join_path_def kStateRoot_def plain_part_def)
  have "path_names (''/var/lib/defragmenter/state'' @ CHR ''/'' # show_u32 uid) = [''var'', ''lib'', ''defragmenter'', ''state'', show_u32 uid]"
    using show_nat_plain [of "unat uid"] path_names_part(1)
    by (subst path_names_append) (simp add: path_names_def)
  then show ?thesis
    using dir show_nat_plain [of "unat uid"] plain_part_head [of "show_u32 uid"]
    by (auto simp: path_elements_def is_absolute_def plain_part_def)
qed

lemma journal_parent:
  assumes "is_absolute j" "journal_file (file_name j)"
  shows "path_equal (parent_path (lexically_normal j)) (state_directory uid) \<longleftrightarrow>
    normal_names True (path_names j) = [''var'', ''lib'', ''defragmenter'', ''state'', show_u32 uid, file_name j]"
proof -
  define f where "f = file_name j"
  have f: "plain_part f" "f \<noteq> ''.''" "f \<noteq> ''..''"
    using journal_file_part [OF assms(2) file_name_plain] unfolding f_def by simp_all
  obtain front where front: "j = front @ f" unfolding f_def by (rule file_name_split [of j]) simp
  have last: "last j \<noteq> CHR ''/''" using front plain_part_head [OF f(1)] f(1) by (auto simp: plain_part_def)
  obtain ns where ns: "path_names j = ns @ [f]"
    using path_names_file_name [of j] f(1) by (auto simp: f_def plain_part_def)
  define dir where "dir = normal_names True ns"
  have parts: "list_all plain_part dir"
    using path_names_plain [of _ j] ns unfolding dir_def by (intro normal_names_plain) (simp add: list_all_iff)
  have normal: "normal_names True (path_names j) = dir @ [f]" using f by (simp add: ns normal_names_snoc normal_step_def dir_def)
  have "lexically_normal j = CHR ''/'' # join_names (dir @ [f])"
    using assms(1) last f normal ns by (auto simp: lexically_normal_def is_absolute_def Let_def)
  moreover have "CHR ''/'' # join_names (dir @ [f]) = (if dir = [] then [] else CHR ''/'' # join_names dir) @ CHR ''/'' # f"
    by (simp add: join_names_snoc)
  ultimately have "parent_path (lexically_normal j) = (if dir = [] then ''/'' else CHR ''/'' # join_names dir)"
    using parent_path_snoc [OF f(1)] join_names_last [OF parts] by auto
  then have "path_elements (parent_path (lexically_normal j)) = ''/'' # dir"
    using path_names_join [OF parts] join_names_last [OF parts] by (simp add: path_elements_def is_absolute_def)
  then show ?thesis using normal by (simp add: path_equal_def state_elements f_def)
qed

lemma check_request_exact:
  "check_request op_name uid st = Inr () \<longleftrightarrow>
   rs_filesystem st \<and> rs_write st \<and> rs_confirm st \<and> (op_name = ''growth-defrag'' \<longrightarrow> rs_growth st) \<and> rs_journal_count st = 1 \<and>
   journal_authorised uid (rs_journal st)"
proof -
  have "journal_authorised uid j \<longleftrightarrow>
      is_absolute j \<and> path_equal (parent_path (lexically_normal j)) (state_directory uid) \<and> journal_file (file_name j)" for j
    using journal_parent [of j uid] unfolding journal_authorised_def by blast
  then show ?thesis by (cases "op_name = ''growth-defrag''") (auto simp: check_request_def Let_def)
qed

lemma validate_unfolded:
  "validate_operation_args (op_name # device # rest) uid = Inr () \<longleftrightarrow>
   mutating_operation op_name \<and> is_absolute device \<and>
   (\<exists>st. operation_options op_name device rest request_start = Inr st \<and> check_request op_name uid st = Inr ())"
  by (cases "operation_options op_name device rest request_start") (simp_all add: validate_operation_args_def is_absolute_def)

lemma request_checked:
  assumes "shaped opts"
  shows "validate_operation_args (op_name # device # option_words opts) uid = Inr () \<longleftrightarrow>
    mutating_operation op_name \<and> is_absolute device \<and> granted op_name device opts request_start \<and>
    check_request op_name uid (granted_state opts request_start) = Inr ()"
  unfolding validate_unfolded options_granted [OF assms] by simp

lemma shaped_write: "shaped opts \<Longrightarrow> v \<in> set (uses ''--write'' opts) \<Longrightarrow> v = []"
  by (auto simp: shaped_def uses_def list_all_iff)

lemma granted_uses:
  assumes "granted op_name device opts request_start" "check_request op_name uid (granted_state opts request_start) = Inr ()" "shaped opts"
  shows "uses ''--write'' opts = [[]]" "\<exists>fs. uses ''--filesystem'' opts = [fs] \<and> valid_filesystem_identifier fs"
    "uses ''--confirm'' opts = [device]" "uses ''--growth-percent'' opts = (if op_name = ''growth-defrag'' then [''10''] else [])"
    "\<exists>j. uses ''--journal'' opts = [j] \<and> journal_authorised uid j"
proof -
  have one: "length vs \<le> 1 \<Longrightarrow> vs \<noteq> [] \<Longrightarrow> \<exists>v. vs = [v]" for vs :: "string list" by (cases vs) auto
  note g = assms(1) [unfolded granted_def request_start_def, simplified]
  note c = assms(2) [unfolded check_request_exact granted_state_def request_start_def, simplified]
  have "length (uses ''--write'' opts) \<le> 1" "uses ''--write'' opts \<noteq> []" using g c by simp_all
  then obtain w where "uses ''--write'' opts = [w]" using one by blast
  moreover from this have "w = []" using shaped_write [OF assms(3), of w] by simp
  ultimately show "uses ''--write'' opts = [[]]" by simp
  have "length (uses ''--filesystem'' opts) \<le> 1" "uses ''--filesystem'' opts \<noteq> []" using g c by simp_all
  then obtain f where "uses ''--filesystem'' opts = [f]" using one by blast
  moreover from this have "valid_filesystem_identifier f" using g by simp
  ultimately show "\<exists>fs. uses ''--filesystem'' opts = [fs] \<and> valid_filesystem_identifier fs" by simp
  have "length (uses ''--confirm'' opts) \<le> 1" "uses ''--confirm'' opts \<noteq> []" using g c by simp_all
  then obtain d where "uses ''--confirm'' opts = [d]" using one by blast
  then show "uses ''--confirm'' opts = [device]" using g by simp
  show "uses ''--growth-percent'' opts = (if op_name = ''growth-defrag'' then [''10''] else [])"
    using g c by (cases "uses ''--growth-percent'' opts") auto
  obtain j where j: "uses ''--journal'' opts = [j]" using c by (auto simp: length_Suc_conv)
  then show "\<exists>j. uses ''--journal'' opts = [j] \<and> journal_authorised uid j" using c by simp
qed

lemma granted_back:
  assumes "uses ''--write'' opts = [[]]" "uses ''--filesystem'' opts = [fs]" "valid_filesystem_identifier fs"
    "uses ''--confirm'' opts = [device]" "uses ''--growth-percent'' opts = (if op_name = ''growth-defrag'' then [''10''] else [])"
    "uses ''--journal'' opts = [j]" "journal_authorised uid j"
  shows "granted op_name device opts request_start \<and> check_request op_name uid (granted_state opts request_start) = Inr ()"
  using assms by (cases "op_name = ''growth-defrag''") (simp_all add: granted_def granted_state_def request_start_def check_request_exact)

lemma request_words:
  assumes "validate_operation_args args uid = Inr ()"
  obtains op_name device opts where "args = op_name # device # option_words opts" "shaped opts"
proof -
  obtain op_name device rest where args: "args = op_name # device # rest"
    using assms by (cases args; cases "tl args") (auto simp: validate_operation_args_def)
  then obtain st where "operation_options op_name device rest request_start = Inr st"
    using assms unfolding args validate_unfolded by (elim conjE exE)
  then have "\<exists>opts. rest = option_words opts \<and> shaped opts" by (rule options_shape)
  then obtain opts where "rest = option_words opts" "shaped opts" by (elim exE conjE)
  from that [OF _ this(2)] this(1) args show ?thesis by simp
qed

text \<open>
  Property C20. What the helper runs as root for a mutation request. A request is accepted exactly when it names one of the three
  operations and an absolute target and, in any order, gives \<open>--write\<close> once, one well-formed file-system identifier, one
  confirmation equal to the target, the ten percent reserve exactly for Growth Defrag, and one journal that normalises to a
  \<open>.journal\<close> file directly in the caller's own state directory; beyond these it may hold only the three tuning options. The command
  is then the operation engine at its fixed place, with the arguments as given.
\<close>

theorem operation_request_exact:
  "helper_command ''operation-engine'' args uid = Inr c \<longleftrightarrow>
   c = \<lparr>hc_executable = kOperationEngine, hc_arguments = args\<rparr> \<and>
   (\<exists>op_name device opts filesystem journal.
      args = op_name # device # option_words opts \<and> op_name \<in> {''defrag'', ''growth-defrag'', ''recover''} \<and> is_absolute device \<and>
      shaped opts \<and> uses ''--write'' opts = [[]] \<and> uses ''--filesystem'' opts = [filesystem] \<and> valid_filesystem_identifier filesystem \<and>
      uses ''--confirm'' opts = [device] \<and> uses ''--growth-percent'' opts = (if op_name = ''growth-defrag'' then [''10''] else []) \<and>
      uses ''--journal'' opts = [journal] \<and> journal_authorised uid journal)"
  (is "?lhs \<longleftrightarrow> ?rhs")
proof
  assume ok: ?lhs
  then have checked: "validate_operation_args args uid = Inr ()" "c = \<lparr>hc_executable = kOperationEngine, hc_arguments = args\<rparr>"
    by (auto simp: helper_command_def split: sum.splits)
  obtain op_name device opts where opts: "args = op_name # device # option_words opts" "shaped opts"
    by (rule request_words [OF checked(1)])
  have "mutating_operation op_name" "is_absolute device" and g: "granted op_name device opts request_start"
    "check_request op_name uid (granted_state opts request_start) = Inr ()"
    using checked(1) request_checked [OF opts(2)] unfolding opts(1) by blast+
  then show ?rhs
    using opts checked(2) granted_uses [OF g opts(2)] unfolding mutating_operation_def by blast
next
  assume ?rhs
  then obtain op_name device opts filesystem journal where r: "c = \<lparr>hc_executable = kOperationEngine, hc_arguments = args\<rparr>"
    "args = op_name # device # option_words opts" "op_name \<in> {''defrag'', ''growth-defrag'', ''recover''}" "is_absolute device"
    "shaped opts" "uses ''--write'' opts = [[]]" "uses ''--filesystem'' opts = [filesystem]" "valid_filesystem_identifier filesystem"
    "uses ''--confirm'' opts = [device]" "uses ''--growth-percent'' opts = (if op_name = ''growth-defrag'' then [''10''] else [])"
    "uses ''--journal'' opts = [journal]" "journal_authorised uid journal" by blast
  then have "validate_operation_args args uid = Inr ()"
    using granted_back [OF r(6-12)] unfolding r(2) by (intro request_checked [THEN iffD2]) (simp_all add: mutating_operation_def)
  then show ?lhs using r(1) by (simp add: helper_command_def)
qed


text \<open>
  Only the normal form is compared, while the argument is passed on as it is: a journal below another directory is accepted when
  enough dot-dots follow, although the kernel resolves a dot-dot after a symbolic link elsewhere.
\<close>

lemma journal_elsewhere: "journal_authorised 1000 ''/tmp/link/../../var/lib/defragmenter/state/1000/x.journal''"
  by code_simp

definition authorised_device :: "path \<Rightarrow> bool" where
  "authorised_device v \<longleftrightarrow>
     (\<exists>name. plain_part name \<and> name \<notin> {''.'', ''..''} \<and> (v = ''/dev/'' @ name \<or> v = ''/dev/mapper/'' @ name))"

lemma device_path_authorised: "validate_device_path v purpose = Inr () \<longleftrightarrow> authorised_device v"
  unfolding authorised_device_def by (rule device_path_char)

lemma five_args:
  "length args = 5 \<Longrightarrow> args ! 1 = b \<Longrightarrow> args ! 3 = d \<Longrightarrow> args = [args ! 0, b, args ! 2, d, args ! 4]"
  "length us = 3 \<Longrightarrow> us ! 0 = b \<Longrightarrow> us ! 1 = d \<Longrightarrow> us = [b, d, us ! 2]"
  by (auto simp: list_eq_iff_nth_eq less_Suc_eq eval_nat_numeral)

lemma mapper_args_exact:
  "validate_mapper_args args = Inr () \<longleftrightarrow>
      (\<exists>device filesystem cells n. args = [device, ''--fstype'', filesystem, ''--cells'', cells] \<and> authorised_device device \<and>
         valid_filesystem_identifier filesystem \<and> parse_mapper_cells cells = Inr n)" (is "_ \<longleftrightarrow> ?r")
proof
  assume ok: "validate_mapper_args args = Inr ()"
  then have five: "length args = 5" "args ! 1 = ''--fstype''" "args ! 3 = ''--cells''"
    by (simp_all add: validate_mapper_args_def split: if_splits)
  have "validate_device_path (args ! 0) ''mapper target'' = Inr ()" "valid_filesystem_identifier (args ! 2)"
    "\<exists>n. parse_mapper_cells (args ! 4) = Inr n"
    using ok by (simp_all add: validate_mapper_args_def split: if_splits sum.splits)
  then show ?r using five_args(1) [OF five] device_path_authorised by metis
next
  assume ?r
  then obtain device filesystem cells n where r: "args = [device, ''--fstype'', filesystem, ''--cells'', cells]"
    "authorised_device device" "valid_filesystem_identifier filesystem" "parse_mapper_cells cells = Inr n" by blast
  then have "validate_device_path device ''mapper target'' = Inr ()" using device_path_authorised by blast
  then show "validate_mapper_args args = Inr ()"
    using r(3,4) unfolding r(1) by (simp add: validate_mapper_args_def numeral_eq_Suc)
qed

text \<open>
  The other two programs of the helper: the mapper runs only as a read of one authorised device with a well-formed
  file-system identifier and a cell count between 1 and the limit, \<open>udisksctl\<close> only to unmount one authorised device, and any
  other program is refused.
\<close>

theorem helper_reads_exact:
  "(helper_command ''mapper'' args uid = Inr c \<longleftrightarrow>
      c = \<lparr>hc_executable = kMapper, hc_arguments = args\<rparr> \<and>
      (\<exists>device filesystem cells n. args = [device, ''--fstype'', filesystem, ''--cells'', cells] \<and> authorised_device device \<and>
         valid_filesystem_identifier filesystem \<and> parse_mapper_cells cells = Inr n)) \<and>
   (helper_command ''udisksctl'' args uid = Inr c \<longleftrightarrow>
      c = \<lparr>hc_executable = kUdisksctl, hc_arguments = args\<rparr> \<and>
      (\<exists>device. args = [''unmount'', ''-b'', device] \<and> authorised_device device)) \<and>
   (helper_command prog args uid = Inr c \<longleftrightarrow>
      prog \<in> {''operation-engine'', ''mapper'', ''udisksctl''} \<and> helper_command prog args uid = Inr c)"
proof (intro conjI)
  show "helper_command ''mapper'' args uid = Inr c \<longleftrightarrow>
      c = \<lparr>hc_executable = kMapper, hc_arguments = args\<rparr> \<and>
      (\<exists>device filesystem cells n. args = [device, ''--fstype'', filesystem, ''--cells'', cells] \<and> authorised_device device \<and>
         valid_filesystem_identifier filesystem \<and> parse_mapper_cells cells = Inr n)"
    using mapper_args_exact [of args] by (cases "validate_mapper_args args") (auto simp: helper_command_def)
  show "helper_command ''udisksctl'' args uid = Inr c \<longleftrightarrow>
      c = \<lparr>hc_executable = kUdisksctl, hc_arguments = args\<rparr> \<and>
      (\<exists>device. args = [''unmount'', ''-b'', device] \<and> authorised_device device)"
  proof (cases "length args = 3 \<and> args ! 0 = ''unmount'' \<and> args ! 1 = ''-b''")
    case True
    then have "args = [''unmount'', ''-b'', args ! 2]" by (elim conjE) (rule five_args(2))
    then have "\<exists>device. args = [''unmount'', ''-b'', device]" by (rule exI)
    then obtain device where args: "args = [''unmount'', ''-b'', device]" ..
    have "helper_command ''udisksctl'' args uid =
        (case validate_device_path device ''unmount target'' of
           Inl e \<Rightarrow> Inl e | Inr u \<Rightarrow> Inr \<lparr>hc_executable = kUdisksctl, hc_arguments = args\<rparr>)"
      unfolding args by (simp add: helper_command_def numeral_eq_Suc)
    moreover have "validate_device_path device ''unmount target'' = Inr () \<longleftrightarrow> authorised_device device"
      by (rule device_path_authorised)
    ultimately have "helper_command ''udisksctl'' args uid = Inr c \<longleftrightarrow>
        c = \<lparr>hc_executable = kUdisksctl, hc_arguments = args\<rparr> \<and> authorised_device device"
      by (cases "validate_device_path device ''unmount target''") auto
    then show ?thesis by (simp add: args)
  next
    case False
    then have "helper_command ''udisksctl'' args uid \<noteq> Inr c" by (simp add: helper_command_def)
    moreover have "args \<noteq> [''unmount'', ''-b'', device]" for device using False by (intro notI) (simp add: numeral_eq_Suc)
    ultimately show ?thesis by simp
  qed
qed (simp add: helper_command_def)

end
