(* ===== verification/Desktop_Policy.thy ===== *)
theory Desktop_Policy
  imports Helper_Policy
begin

text \<open>
  What the desktop may ask for, \<open>native/desktop_policy.cpp\<close>, and the geometry of its map, \<open>native/desktop_map_geometry.cpp\<close>:
  the volumes found in an \<open>lsblk\<close> report, the enabled controls, the name of a volume's journal, the identity check after an
  analysis and the command line of a mutation. SHA-256 is a parameter; a \<open>runtime_error\<close> is its message.
\<close>

subsection \<open>Volumes\<close>

record DesktopVolume =
  dv_path :: string
  dv_filesystem :: string
  dv_label :: string
  dv_filesystem_uuid :: string
  dv_partition_uuid :: string
  dv_serial :: string
  dv_wwn :: string
  dv_total :: u64
  dv_start_sector :: u64
  dv_mounted :: bool
  dv_readonly :: bool
  dv_from_image :: bool
  dv_verified :: bool
  dv_exact_analysis :: bool
  dv_defrag_qualified :: bool
  dv_growth_qualified :: bool
  dv_defrag_reason :: string
  dv_growth_reason :: string

definition new_volume :: DesktopVolume where
  "new_volume =
     \<lparr>dv_path = [], dv_filesystem = [], dv_label = [], dv_filesystem_uuid = [], dv_partition_uuid = [], dv_serial = [], dv_wwn = [],
      dv_total = 0, dv_start_sector = 0, dv_mounted = False, dv_readonly = False, dv_from_image = False, dv_verified = False,
      dv_exact_analysis = False, dv_defrag_qualified = False, dv_growth_qualified = False, dv_defrag_reason = [], dv_growth_reason = []\<rparr>"

definition text_field :: "json \<Rightarrow> string \<Rightarrow> string" where
  "text_field obj key = (case json_find obj key of Some v \<Rightarrow> string_or v [] | None \<Rightarrow> [])"

definition flag_field :: "json \<Rightarrow> string \<Rightarrow> bool" where
  "flag_field obj key =
     (case json_find obj key of
        None \<Rightarrow> False
      | Some (JBool b) \<Rightarrow> b
      | Some v \<Rightarrow>
          let t = string_or v [] in unsigned_or v 0 \<noteq> 0 \<or> t = ''true'' \<or> t = ''1'' \<or> t = ''yes'')"

definition unsigned_field :: "json \<Rightarrow> string \<Rightarrow> u64" where
  "unsigned_field obj key = (case json_find obj key of Some v \<Rightarrow> unsigned_or v 0 | None \<Rightarrow> 0)"

definition filesystem_from_test_media_label :: "string \<Rightarrow> string" where
  "filesystem_from_test_media_label label =
     (if length label \<le> 3 \<or> take 3 label \<noteq> ''LD_'' then []
      else let candidate = lower_ascii (drop 3 label) in if backend_by_fstype candidate = None then [] else candidate)"

definition generic_fat :: "string \<Rightarrow> bool" where
  "generic_fat filesystem \<longleftrightarrow> filesystem = ''fat'' \<or> filesystem = ''vfat'' \<or> filesystem = ''msdos''"

definition mounted_node :: "json \<Rightarrow> bool" where
  "mounted_node node =
     (case json_find node ''mountpoints'' of
        None \<Rightarrow> False
      | Some (JArray mounts) \<Rightarrow> list_ex (\<lambda>mount. string_or mount [] \<noteq> []) mounts
      | Some m \<Rightarrow> string_or m [] \<noteq> [])"

definition node_filesystem :: "json \<Rightarrow> string" where
  "node_filesystem node =
     (let filesystem = lower_ascii (text_field node ''fstype'');
          partition_label = text_field node ''partlabel'';
          discovery_label = (if partition_label \<noteq> [] then partition_label else text_field node ''label'')
      in if filesystem = [] then filesystem_from_test_media_label discovery_label else filesystem)"

definition node_volume :: "json \<Rightarrow> DesktopVolume list" where
  "node_volume node =
     (let filesystem = node_filesystem node; filesystem_label = text_field node ''label''
      in if (backend_by_fstype filesystem \<noteq> None \<or> generic_fat filesystem) \<and> text_field node ''path'' \<noteq> []
         then [new_volume\<lparr>dv_path := text_field node ''path'', dv_filesystem := filesystem,
                 dv_label := (if filesystem_label = [] then text_field node ''partlabel'' else filesystem_label),
                 dv_filesystem_uuid := text_field node ''uuid'', dv_partition_uuid := text_field node ''partuuid'',
                 dv_serial := text_field node ''serial'', dv_wwn := text_field node ''wwn'',
                 dv_total := unsigned_field node ''size'', dv_start_sector := unsigned_field node ''start'',
                 dv_readonly := flag_field node ''ro'', dv_mounted := mounted_node node\<rparr>]
         else [])"

definition json_items :: "json \<Rightarrow> string \<Rightarrow> json list" where
  "json_items node key = (case json_find node key of Some (JArray vs) \<Rightarrow> vs | _ \<Rightarrow> [])"

lemma json_items_smaller: "v \<in> set (json_items node key) \<Longrightarrow> size v < size node"
proof -
  assume v: "v \<in> set (json_items node key)"
  then obtain kvs vs where node: "node = JObject kvs" "map_of kvs key = Some (JArray vs)" "v \<in> set vs"
    by (cases node; simp add: json_items_def json_find_def split: option.splits json.splits) (metis option.inject)
  have "size v < size (JArray vs)" using node(3) by (induction vs) auto
  moreover have "size (JArray vs) < size (JObject kvs)"
    using map_of_SomeD [OF node(2)] by (induction kvs) auto
  ultimately show ?thesis using node(1) by simp
qed

function visit :: "json \<Rightarrow> DesktopVolume list" where
  "visit node =
     (if \<not> is_object node then [] else node_volume node @ concat (map visit (json_items node ''children'')))"
  by pat_completeness auto
termination
  by (relation "measure size") (auto intro: json_items_smaller)

declare visit.simps [simp del]

definition desktop_discover :: "json \<Rightarrow> DesktopVolume list" where
  "desktop_discover lsblk = concat (map visit (json_items lsblk ''blockdevices''))"

subsection \<open>Controls\<close>

record DesktopControls =
  ct_analyse :: bool
  ct_unmount :: bool
  ct_defrag :: bool
  ct_growth_defrag :: bool
  ct_recover :: bool
  ct_stop :: bool

definition desktop_controls :: "DesktopVolume option \<Rightarrow> bool \<Rightarrow> bool \<Rightarrow> bool \<Rightarrow> DesktopControls" where
  "desktop_controls volume busy stopping journal_exists =
     (let out = \<lparr>ct_analyse = False, ct_unmount = False, ct_defrag = False, ct_growth_defrag = False, ct_recover = False,
                 ct_stop = (busy \<and> \<not> stopping)\<rparr>
      in case volume of
           None \<Rightarrow> out
         | Some v \<Rightarrow>
             if busy then out
             else let out = out\<lparr>ct_analyse := True, ct_unmount := (dv_mounted v \<and> \<not> dv_from_image v)\<rparr>
                  in case backend_by_fstype (dv_filesystem v) of
                       None \<Rightarrow> out
                     | Some b \<Rightarrow>
                         if dv_readonly v \<or> dv_mounted v then out
                         else let out = out\<lparr>ct_recover := (journal_exists \<and> operation_for b ''recover'' \<noteq> None)\<rparr>
                              in if \<not> dv_verified v then out
                                 else out\<lparr>ct_defrag := (operation_for b ''defrag'' \<noteq> None),
                                          ct_growth_defrag := (operation_for b ''growth-defrag'' \<noteq> None)\<rparr>)"

subsection \<open>The journal's name\<close>

definition alnum :: "char \<Rightarrow> bool" where
  "alnum c \<longleftrightarrow>
     (65 \<le> (of_char c :: nat) \<and> (of_char c :: nat) \<le> 90) \<or> (97 \<le> (of_char c :: nat) \<and> (of_char c :: nat) \<le> 122) \<or> is_digit c"

definition stem_char :: "char \<Rightarrow> char" where
  "stem_char c = (if \<not> alnum c \<and> c \<noteq> CHR ''_'' \<and> c \<noteq> CHR ''.'' \<and> c \<noteq> CHR ''-'' then CHR ''_'' else c)"

definition hex_nibble :: "nat \<Rightarrow> char" where
  "hex_nibble n = ''0123456789abcdef'' ! (n mod 16)"

definition hex_byte :: "u8 \<Rightarrow> string" where
  "hex_byte b = [hex_nibble (unat b div 16), hex_nibble (unat b)]"

definition stable_identity :: "DesktopVolume \<Rightarrow> string" where
  "stable_identity v =
     (let identity = dv_filesystem_uuid v;
          identity = (if dv_partition_uuid v \<noteq> [] then (if identity \<noteq> [] then identity @ ''|'' else identity) @ dv_partition_uuid v
                      else identity)
      in if identity = [] \<and> (dv_serial v \<noteq> [] \<or> dv_wwn v \<noteq> [])
         then ''media:'' @ dv_serial v @ ''|'' @ dv_wwn v @ ''|'' @ show_u64 (dv_start_sector v) @ ''|'' @ show_u64 (dv_total v)
         else identity)"

definition journal_stem :: "DesktopVolume \<Rightarrow> string" where
  "journal_stem v =
     (let stem = (if stable_identity v \<noteq> [] then ''volume'' else dv_path v);
          stem = map stem_char (dropWhile (\<lambda>c. c = CHR ''/'') stem);
          stem = (if length stem > 80 then drop (length stem - 80) stem else stem)
      in if stem = [] then ''volume'' else stem)"

definition desktop_journal :: "(string \<Rightarrow> u8 list) \<Rightarrow> DesktopVolume \<Rightarrow> u32 \<Rightarrow> path" where
  "desktop_journal sha256 v uid =
     (let identity = stable_identity v;
          material = (if identity \<noteq> [] then identity else dv_path v);
          suffix = concat (map hex_byte (take 8 (sha256 material)))
      in ''/var/lib/defragmenter/state/'' @ show_u32 uid @ ''/'' @ journal_stem v @ ''-'' @ suffix @ ''.journal'')"

subsection \<open>Identity and mutation\<close>

definition desktop_verify_identity :: "DesktopVolume \<Rightarrow> string \<Rightarrow> DesktopVolume exc" where
  "desktop_verify_identity v detected =
     (let candidate = backend_by_fstype (dv_filesystem v); fat = generic_fat (dv_filesystem v);
          conflict = ''Native filesystem identity conflicts with discovery metadata''
      in case backend_by_fstype detected of
           None \<Rightarrow> Inl conflict
         | Some actual \<Rightarrow>
             let fat_variant = (bi_id actual = ''fat12'' \<or> bi_id actual = ''fat16'' \<or> bi_id actual = ''fat32'')
             in if (\<not> fat \<and> candidate \<noteq> Some actual) \<or> (fat \<and> \<not> fat_variant) then Inl conflict
                else Inr (v\<lparr>dv_filesystem := bi_id actual, dv_exact_analysis := False, dv_defrag_qualified := False,
                             dv_growth_qualified := False, dv_defrag_reason := [], dv_growth_reason := [], dv_verified := True\<rparr>))"

definition clamp_cells :: "u32 \<Rightarrow> u32" where
  "clamp_cells cells = (if cells < 256 then 256 else if cells > 1048576 then 1048576 else cells)"

definition mutation_words :: "DesktopVolume \<Rightarrow> OperationSpec \<Rightarrow> string \<Rightarrow> path \<Rightarrow> u32 \<Rightarrow> string list" where
  "mutation_words v spec op_name journal cells =
     [op_name, dv_path v, ''--filesystem'', dv_filesystem v, ''--write'', ''--confirm'', dv_path v, ''--journal'', journal] @
     os_default_options spec @
     (if op_name = ''growth-defrag'' then [''--growth-percent'', ''10''] else []) @
     (if op_name \<noteq> ''recover'' then [''--live-map-cells'', show_u32 (clamp_cells cells)] else [])"

definition desktop_mutation ::
  "DesktopVolume \<Rightarrow> string \<Rightarrow> string \<Rightarrow> path \<Rightarrow> u32 \<Rightarrow> bool \<Rightarrow> string list exc" where
  "desktop_mutation v op_name engine journal cells journal_exists =
     (let unsupported = ''Volume is not verified, unmounted, writable or supported''
      in case backend_by_fstype (dv_filesystem v) of
           None \<Rightarrow> Inl unsupported
         | Some b \<Rightarrow>
             (case operation_for b op_name of
                None \<Rightarrow> Inl unsupported
              | Some spec \<Rightarrow>
                  if (op_name \<noteq> ''recover'' \<and> \<not> dv_verified v) \<or> dv_mounted v \<or> dv_readonly v then Inl unsupported
                  else if op_name \<noteq> ''recover'' \<and> \<not> dv_exact_analysis v
                  then Inl ''An exact allocation analysis is required before filesystem mutation''
                  else if op_name = ''defrag'' \<and> \<not> dv_defrag_qualified v
                  then Inl (if dv_defrag_reason v = []
                            then ''This exact filesystem layout is outside the qualified Defragment writer contract''
                            else dv_defrag_reason v)
                  else if op_name = ''growth-defrag'' \<and> \<not> dv_growth_qualified v
                  then Inl (if dv_growth_reason v = []
                            then ''This exact filesystem layout is outside the qualified Growth Defrag writer contract''
                            else dv_growth_reason v)
                  else if (op_name = ''recover'') \<noteq> journal_exists
                  then Inl ''An unfinished journal must be recovered before further writes''
                  else if journal = [] then Inl ''A persistent journal path is required''
                  else Inr (engine # mutation_words v spec op_name journal cells)))"


subsection \<open>What discovery and identification establish\<close>

lemma node_volume_kept:
  "v \<in> set (node_volume node) \<Longrightarrow>
   dv_path v \<noteq> [] \<and> (backend_by_fstype (dv_filesystem v) \<noteq> None \<or> generic_fat (dv_filesystem v)) \<and> \<not> dv_verified v \<and>
   \<not> dv_exact_analysis v \<and> \<not> dv_defrag_qualified v \<and> \<not> dv_growth_qualified v"
  by (auto simp: node_volume_def Let_def new_volume_def split: if_splits)

lemma visit_volumes: "v \<in> set (visit node) \<Longrightarrow> \<exists>n. v \<in> set (node_volume n)"
proof (induction node rule: visit.induct)
  case (1 node)
  show ?case
  proof (cases "is_object node \<and> v \<notin> set (node_volume node)")
    case True
    then obtain c where "c \<in> set (json_items node ''children'')" "v \<in> set (visit c)"
      using 1(2) by (subst (asm) visit.simps) auto
    then show ?thesis using 1(1) True by blast
  next
    case False
    then show ?thesis using 1(2) by (subst (asm) visit.simps) (auto split: if_splits)
  qed
qed

lemma discovered_volume: "v \<in> set (desktop_discover lsblk) \<Longrightarrow> \<exists>n. v \<in> set (node_volume n)"
  using visit_volumes by (auto simp: desktop_discover_def)

lemma unready_refused:
  assumes "op_name \<noteq> ''recover''" "\<not> dv_exact_analysis v"
  shows "\<exists>e. desktop_mutation v op_name engine journal cells journal_exists = Inl e"
  using assms by (simp add: desktop_mutation_def Let_def split: option.split)

text \<open>
  Neither discovery nor identification authorises a write: for a volume as it is discovered, and for one whose
  identity has just been verified, every mutation but recovery is refused, whatever the request; only a later exact analysis can
  change that. A discovered volume has a path and a registered or generic FAT file system.
\<close>

theorem identity_never_authorises:
  assumes "op_name \<noteq> ''recover''"
    and "v \<in> set (desktop_discover lsblk) \<or> desktop_verify_identity u detected = Inr v"
  shows "(\<exists>e. desktop_mutation v op_name engine journal cells journal_exists = Inl e) \<and>
    (v \<in> set (desktop_discover lsblk) \<longrightarrow>
       dv_path v \<noteq> [] \<and> (backend_by_fstype (dv_filesystem v) \<noteq> None \<or> generic_fat (dv_filesystem v)))"
proof -
  have "\<not> dv_exact_analysis v"
    using assms(2)
  proof
    assume "v \<in> set (desktop_discover lsblk)"
    then show ?thesis using discovered_volume node_volume_kept by blast
  next
    assume "desktop_verify_identity u detected = Inr v"
    then show ?thesis by (auto simp: desktop_verify_identity_def Let_def split: option.splits if_splits)
  qed
  then show ?thesis using assms(1) unready_refused discovered_volume node_volume_kept by blast
qed

definition demo_lsblk :: json where
  "demo_lsblk =
     JObject [(''blockdevices'', JArray [JObject [(''children'', JArray [JObject [(''fstype'', JString ''vfat''), (''path'', JString ''/dev/sda1'')]]),
       (''path'', JString ''/dev/sda'')]])]"

definition demo_found :: DesktopVolume where
  "demo_found = new_volume\<lparr>dv_path := ''/dev/sda1'', dv_filesystem := ''vfat''\<rparr>"

lemma demo_discovery: "desktop_discover demo_lsblk = [demo_found]"
  by code_simp

theorem identity_never_authorises_witness:
  "demo_found \<in> set (desktop_discover demo_lsblk) \<and>
   (\<exists>e. desktop_mutation demo_found ''defrag'' ''engine'' ''/j'' 512 False = Inl e) \<and> dv_path demo_found = ''/dev/sda1''"
proof -
  have found: "demo_found \<in> set (desktop_discover demo_lsblk)" by (simp add: demo_discovery)
  moreover have "\<exists>e. desktop_mutation demo_found ''defrag'' ''engine'' ''/j'' 512 False = Inl e"
    using identity_never_authorises [of "''defrag''" demo_found demo_lsblk] found by simp
  ultimately show ?thesis by (simp add: demo_found_def)
qed

text \<open>
  Verifying an identity: it succeeds exactly when the name the native analyser gives is registered and is the back
  end found by discovery, or a FAT of a definite width where discovery could only say FAT. The volume then carries the registry's
  identifier of exactly that back end, counts as verified and has no qualification left.
\<close>

theorem verified_identity_exact:
  "desktop_verify_identity v detected = Inr v' \<longleftrightarrow>
   (\<exists>actual. backend_by_fstype detected = Some actual \<and>
      (if generic_fat (dv_filesystem v) then bi_id actual \<in> {''fat12'', ''fat16'', ''fat32''}
       else backend_by_fstype (dv_filesystem v) = Some actual) \<and>
      backend_by_fstype (dv_filesystem v') = Some actual \<and>
      v' = v\<lparr>dv_filesystem := bi_id actual, dv_exact_analysis := False, dv_defrag_qualified := False,
             dv_growth_qualified := False, dv_defrag_reason := [], dv_growth_reason := [], dv_verified := True\<rparr>)"
proof -
  have same: "backend_by_fstype (bi_id b) = Some b" if "backend_by_fstype t = Some b" for t b
    using that lookup_exact [of t b] lookup_exact [of "bi_id b" b] by (simp add: backend_names_def)
  show ?thesis
  proof (cases "backend_by_fstype detected")
    case None
    then show ?thesis by (simp add: desktop_verify_identity_def Let_def)
  next
    case (Some actual)
    then show ?thesis using same [OF Some]
      by (auto simp: desktop_verify_identity_def Let_def)
  qed
qed


subsection \<open>What the desktop asks for is accepted\<close>

lemma alnum_identifier: "alnum c \<Longrightarrow> identifier_char c"
  by (auto simp: alnum_def identifier_char_def)

lemma identifier_slash: "\<not> identifier_char CHR ''/''"
  by (simp add: identifier_char_def is_digit_def)

lemma stem_char_identifier: "identifier_char (stem_char c)"
proof (cases "alnum c \<or> c = CHR ''_'' \<or> c = CHR ''.'' \<or> c = CHR ''-''")
  case True
  then show ?thesis using alnum_identifier by (auto simp: stem_char_def identifier_char_def)
next
  case False
  then show ?thesis by (simp add: stem_char_def identifier_char_def)
qed

lemma hex_nibble_identifier: "identifier_char (hex_nibble n)"
proof -
  have "list_all identifier_char ''0123456789abcdef''" by (simp add: identifier_char_def is_digit_def)
  moreover have "hex_nibble n \<in> set ''0123456789abcdef''"
    unfolding hex_nibble_def by (rule nth_mem) simp
  ultimately show ?thesis unfolding list_all_iff by (rule bspec)
qed

lemma journal_stem_identifier: "journal_stem v \<noteq> [] \<and> list_all identifier_char (journal_stem v)"
proof -
  have "list_all identifier_char ''volume''" by (simp add: identifier_char_def)
  moreover have "list_all identifier_char (map stem_char s)" "list_all identifier_char (drop k (map stem_char s))" for s k
    using stem_char_identifier by (simp_all add: list_all_iff drop_map)
  ultimately show ?thesis by (simp add: journal_stem_def Let_def)
qed

text \<open>The journal the desktop names lies in the state directory of the user it is named for.\<close>

lemma desktop_journal_authorised: "journal_authorised uid (desktop_journal sha256 v uid')  \<longleftrightarrow> uid = uid'"
proof -
  define base where "base = journal_stem v @ ''-'' @ concat (map hex_byte (take 8 (sha256 (if stable_identity v \<noteq> [] then stable_identity v else dv_path v))))"
  have chars: "base \<noteq> []" "list_all identifier_char base"
    using journal_stem_identifier [of v] hex_nibble_identifier
    by (auto simp: base_def hex_byte_def list_all_iff identifier_char_def [of "CHR ''-''"])
  have name: "journal_file (base @ ''.journal'')" using chars by (simp add: journal_file_def)
  have "CHR ''/'' \<notin> set base" using chars(2) identifier_slash by (auto simp: list_all_iff)
  then have plain: "plain_part (base @ ''.journal'')" "CHR ''/'' \<notin> set (base @ ''.journal'')" by (auto simp: plain_part_def)
  have dots: "base @ ''.journal'' \<noteq> ''.''" "base @ ''.journal'' \<noteq> ''..''" using journal_file_part [OF name plain(2)] by blast+
  define front where "front = ''/var/lib/defragmenter/state/'' @ show_u32 uid' @ ''/''"
  have j: "desktop_journal sha256 v uid' = front @ base @ ''.journal''"
    by (simp add: desktop_journal_def base_def front_def Let_def)
  have last_name: "file_name (desktop_journal sha256 v uid') = base @ ''.journal''"
    unfolding j by (rule file_name_append [OF plain(2)]) (simp add: front_def)
  have split: "front @ base @ ''.journal'' =
      ''/var/lib/defragmenter/state'' @ CHR ''/'' # (show_u32 uid' @ CHR ''/'' # base @ ''.journal'')" by (simp add: front_def)
  have "path_names ''/var/lib/defragmenter/state'' = [''var'', ''lib'', ''defragmenter'', ''state'']" by (simp add: path_names_def)
  then have names: "path_names (front @ base @ ''.journal'') =
      [''var'', ''lib'', ''defragmenter'', ''state'', show_u32 uid', base @ ''.journal'']"
    unfolding split path_names_append using show_nat_plain path_names_part plain(1) by simp
  have normal: "normal_names True [''var'', ''lib'', ''defragmenter'', ''state'', show_u32 uid', base @ ''.journal''] =
      [''var'', ''lib'', ''defragmenter'', ''state'', show_u32 uid', base @ ''.journal'']"
    using show_nat_plain [of "unat uid'"] dots by (simp add: normal_names_def normal_step_def)
  have "is_absolute (front @ base @ ''.journal'')" by (simp add: is_absolute_def front_def)
  moreover have "show_u32 uid' = show_u32 uid \<longleftrightarrow> uid = uid'" using nat_of_show_nat by (metis word_unat_eq_iff)
  ultimately show ?thesis
    unfolding journal_authorised_def last_name using name by (auto simp: j names normal)
qed

lemma registry_identifiers:
  "list_all (\<lambda>b. list_all valid_filesystem_identifier (backend_names b)) registry_entries"
  by code_simp

lemma registered_identifier: "backend_by_fstype fs = Some b \<Longrightarrow> valid_filesystem_identifier fs"
proof -
  assume "backend_by_fstype fs = Some b"
  then have "valid_filesystem_identifier (lower_ascii fs)"
    using registry_identifiers lookup_exact [of fs b] by (auto simp: list_all_iff)
  moreover have "identifier_char c \<or> c = CHR ''+''" if "identifier_char (lower_char c) \<or> lower_char c = CHR ''+''" for c
  proof (cases "65 \<le> (of_char c :: nat) \<and> (of_char c :: nat) \<le> 90")
    case True
    then show ?thesis by (simp add: identifier_char_def)
  next
    case False
    then have "lower_char c = c" by (auto simp: lower_char_def Let_def)
    then show ?thesis using that by simp
  qed
  ultimately show ?thesis by (auto simp: valid_filesystem_identifier_def lower_ascii_def list_all_iff)
qed

definition default_pairs :: "string list \<Rightarrow> (string \<times> string) list" where
  "default_pairs options =
     (if options = [''--batch-clusters'', ''4096'', ''--ram-buffer'', ''auto'']
      then [(''--batch-clusters'', ''4096''), (''--ram-buffer'', ''auto'')]
      else if options = [''--batch-clusters'', ''4096''] then [(''--batch-clusters'', ''4096'')] else [])"

lemma registry_defaults:
  "list_all (\<lambda>b. list_all (\<lambda>op. option_words (default_pairs (os_default_options op)) = os_default_options op) (bi_operations b)) registry_entries"
  by code_simp

lemma default_pairs_uses:
  "shaped (default_pairs options) \<and>
   (k \<in> {''--write'', ''--filesystem'', ''--confirm'', ''--journal'', ''--growth-percent''} \<longrightarrow> uses k (default_pairs options) = [])"
  by (auto simp: default_pairs_def takes_value_def)


lemma mutation_facts:
  assumes "desktop_mutation v op_name engine journal cells journal_exists = Inr args"
  obtains b spec where "backend_by_fstype (dv_filesystem v) = Some b" "operation_for b op_name = Some spec"
    "\<not> dv_mounted v" "\<not> dv_readonly v" "op_name = ''recover'' \<longleftrightarrow> journal_exists"
    "op_name \<noteq> ''recover'' \<Longrightarrow> dv_verified v \<and> dv_exact_analysis v"
    "op_name = ''defrag'' \<Longrightarrow> dv_defrag_qualified v" "op_name = ''growth-defrag'' \<Longrightarrow> dv_growth_qualified v"
    "journal \<noteq> []" "args = engine # mutation_words v spec op_name journal cells"
proof -
  obtain b spec where b: "backend_by_fstype (dv_filesystem v) = Some b" "operation_for b op_name = Some spec"
    using assms by (simp add: desktop_mutation_def Let_def split: option.splits)
  note body = assms [unfolded desktop_mutation_def Let_def b option.case]
  show ?thesis
    by (rule that [OF b]) (use body in \<open>simp_all split: if_splits\<close>)
qed

definition mutation_options :: "DesktopVolume \<Rightarrow> OperationSpec \<Rightarrow> string \<Rightarrow> path \<Rightarrow> u32 \<Rightarrow> (string \<times> string) list" where
  "mutation_options v spec op_name journal cells =
     [(''--filesystem'', dv_filesystem v), (''--write'', []), (''--confirm'', dv_path v), (''--journal'', journal)] @
     default_pairs (os_default_options spec) @
     (if op_name = ''growth-defrag'' then [(''--growth-percent'', ''10'')] else []) @
     (if op_name \<noteq> ''recover'' then [(''--live-map-cells'', show_u32 (clamp_cells cells))] else [])"

lemma option_words_append [simp]: "option_words (a @ b) = option_words a @ option_words b"
  by (simp add: option_words_def)

lemma uses_append [simp]: "uses k (a @ b) = uses k a @ uses k b"
  by (simp add: uses_def)

lemma shaped_append [simp]: "shaped (a @ b) \<longleftrightarrow> shaped a \<and> shaped b"
  by (simp add: shaped_def)

lemma mutation_words_options:
  assumes "b \<in> set registry_entries" "spec \<in> set (bi_operations b)"
  shows "mutation_words v spec op_name journal cells =
    op_name # dv_path v # option_words (mutation_options v spec op_name journal cells)"
proof -
  have "option_words (default_pairs (os_default_options spec)) = os_default_options spec"
    using registry_defaults assms by (auto simp: list_all_iff)
  then show ?thesis by (simp add: mutation_words_def mutation_options_def)
qed

lemma mutation_options_checked:
  fixes v spec op_name journal cells
  assumes "op_name \<in> {''defrag'', ''growth-defrag'', ''recover''}" "dv_filesystem v \<noteq> []" "dv_path v \<noteq> []" "journal \<noteq> []"
  defines "opts \<equiv> mutation_options v spec op_name journal cells"
  shows "shaped opts" "uses ''--write'' opts = [[]]" "uses ''--filesystem'' opts = [dv_filesystem v]" "uses ''--confirm'' opts = [dv_path v]"
    "uses ''--growth-percent'' opts = (if op_name = ''growth-defrag'' then [''10''] else [])" "uses ''--journal'' opts = [journal]"
proof -
  have number: "show_u32 n \<noteq> []" for n using show_nat_digits [of "unat n"] by simp
  show "shaped opts"
    using assms number default_pairs_uses by (simp add: mutation_options_def takes_value_def)
  show "uses ''--write'' opts = [[]]" "uses ''--filesystem'' opts = [dv_filesystem v]" "uses ''--confirm'' opts = [dv_path v]"
    "uses ''--growth-percent'' opts = (if op_name = ''growth-defrag'' then [''10''] else [])" "uses ''--journal'' opts = [journal]"
    by (simp_all add: opts_def mutation_options_def default_pairs_uses)
qed

text \<open>
  The desktop and the privileged helper agree on the contract. When the desktop may mutate a volume with an absolute
  path, under the journal it names for the invoking user, the helper accepts the request as it is, whatever operation, cell count
  and digest, and runs the operation engine on it.
\<close>

theorem desktop_request_accepted:
  assumes "desktop_mutation v op_name engine (desktop_journal sha256 v uid) cells journal_exists = Inr args" "is_absolute (dv_path v)"
  shows "hd args = engine \<and>
    helper_command ''operation-engine'' (tl args) uid = Inr \<lparr>hc_executable = kOperationEngine, hc_arguments = tl args\<rparr>"
proof -
  let ?j = "desktop_journal sha256 v uid"
  obtain b spec where m: "backend_by_fstype (dv_filesystem v) = Some b" "operation_for b op_name = Some spec"
      "args = engine # mutation_words v spec op_name ?j cells"
    by (rule mutation_facts [OF assms(1)])
  have b: "b \<in> set registry_entries" using m(1) lookup_exact by blast
  have spec: "spec \<in> set (bi_operations b)" "os_name spec = op_name"
    using m(2) by (auto simp: operation_for_def find_Some_iff)
  then have "op_name \<in> set (map os_name (bi_operations b))" by auto
  then have op: "op_name \<in> {''defrag'', ''growth-defrag'', ''recover''}"
    using registry_operations b by (auto split: if_splits)
  have "valid_filesystem_identifier (dv_filesystem v)" using registered_identifier m(1) .
  then have parts: "dv_filesystem v \<noteq> []" "dv_path v \<noteq> []" "?j \<noteq> []"
    using assms(2) by (auto simp: valid_filesystem_identifier_def is_absolute_def desktop_journal_def Let_def)
  note opts = mutation_options_checked [OF op parts, of spec cells]
  have "granted op_name (dv_path v) (mutation_options v spec op_name ?j cells) request_start \<and>
      check_request op_name uid (granted_state (mutation_options v spec op_name ?j cells) request_start) = Inr ()"
    by (rule granted_back [OF opts(2,3) _ opts(4,5,6)])
       (use \<open>valid_filesystem_identifier (dv_filesystem v)\<close> in \<open>simp_all add: desktop_journal_authorised\<close>)
  then have "validate_operation_args (mutation_words v spec op_name ?j cells) uid = Inr ()"
    unfolding mutation_words_options [OF b spec(1)]
    using op assms(2) by (intro request_checked [OF opts(1), THEN iffD2]) (simp add: mutating_operation_def)
  then show ?thesis by (simp add: m(3) helper_command_def)
qed

definition demo_ready :: DesktopVolume where
  "demo_ready =
     new_volume\<lparr>dv_path := ''/dev/sdb1'', dv_filesystem := ''fat16'', dv_verified := True, dv_exact_analysis := True, dv_defrag_qualified := True\<rparr>"

definition demo_digest :: "string \<Rightarrow> u8 list" where
  "demo_digest s = replicate 32 0"

theorem desktop_request_accepted_witness:
  "\<exists>args. desktop_mutation demo_ready ''defrag'' ''engine'' (desktop_journal demo_digest demo_ready 1000) 512 False = Inr args \<and>
     tl args = [''defrag'', ''/dev/sdb1'', ''--filesystem'', ''fat16'', ''--write'', ''--confirm'', ''/dev/sdb1'', ''--journal'',
       ''/var/lib/defragmenter/state/1000/dev_sdb1-0000000000000000.journal'', ''--batch-clusters'', ''4096'', ''--ram-buffer'', ''auto'',
       ''--live-map-cells'', ''512''] \<and>
     helper_command ''operation-engine'' (tl args) 1000 = Inr \<lparr>hc_executable = kOperationEngine, hc_arguments = tl args\<rparr>"
proof -
  have "desktop_mutation demo_ready ''defrag'' ''engine'' (desktop_journal demo_digest demo_ready 1000) 512 False =
      Inr (''engine'' # [''defrag'', ''/dev/sdb1'', ''--filesystem'', ''fat16'', ''--write'', ''--confirm'', ''/dev/sdb1'', ''--journal'',
       ''/var/lib/defragmenter/state/1000/dev_sdb1-0000000000000000.journal'', ''--batch-clusters'', ''4096'', ''--ram-buffer'', ''auto'',
       ''--live-map-cells'', ''512''])"
    by code_simp
  moreover have "is_absolute (dv_path demo_ready)" by (simp add: is_absolute_def demo_ready_def)
  ultimately show ?thesis using desktop_request_accepted by (metis list.sel(3))
qed

text \<open>
  What a mutation rests on. When the desktop builds a command, the volume is unmounted, writable and its back end
  offers the operation; Defragment and Growth Defrag need a verified identity, an exact analysis, their own qualification and no
  unfinished journal, Recover needs one. The matching control is then enabled while no other job runs, and no control but Stop
  is enabled while one does.
\<close>

theorem mutation_within_controls:
  assumes "desktop_mutation v op_name engine journal cells journal_exists = Inr args"
  shows "\<not> dv_mounted v \<and> \<not> dv_readonly v \<and> (op_name = ''recover'' \<longleftrightarrow> journal_exists) \<and>
    (op_name \<noteq> ''recover'' \<longrightarrow> dv_verified v \<and> dv_exact_analysis v) \<and>
    (op_name = ''defrag'' \<longrightarrow> dv_defrag_qualified v \<and> ct_defrag (desktop_controls (Some v) False stopping journal_exists)) \<and>
    (op_name = ''growth-defrag'' \<longrightarrow> dv_growth_qualified v \<and> ct_growth_defrag (desktop_controls (Some v) False stopping journal_exists)) \<and>
    (op_name = ''recover'' \<longrightarrow> ct_recover (desktop_controls (Some v) False stopping journal_exists)) \<and>
    desktop_controls (Some v) True stopping journal_exists =
      \<lparr>ct_analyse = False, ct_unmount = False, ct_defrag = False, ct_growth_defrag = False, ct_recover = False, ct_stop = (\<not> stopping)\<rparr>"
proof -
  obtain b spec where m: "backend_by_fstype (dv_filesystem v) = Some b" "operation_for b op_name = Some spec"
    "\<not> dv_mounted v" "\<not> dv_readonly v" "op_name = ''recover'' \<longleftrightarrow> journal_exists"
    "op_name \<noteq> ''recover'' \<Longrightarrow> dv_verified v \<and> dv_exact_analysis v"
    "op_name = ''defrag'' \<Longrightarrow> dv_defrag_qualified v" "op_name = ''growth-defrag'' \<Longrightarrow> dv_growth_qualified v"
    by (rule mutation_facts [OF assms(1)]) blast
  have "op_name = ''defrag'' \<Longrightarrow> ct_defrag (desktop_controls (Some v) False stopping journal_exists)"
    "op_name = ''growth-defrag'' \<Longrightarrow> ct_growth_defrag (desktop_controls (Some v) False stopping journal_exists)"
    "op_name = ''recover'' \<Longrightarrow> ct_recover (desktop_controls (Some v) False stopping journal_exists)"
    using m by (simp_all add: desktop_controls_def Let_def)
  moreover have "desktop_controls (Some v) True stopping journal_exists =
      \<lparr>ct_analyse = False, ct_unmount = False, ct_defrag = False, ct_growth_defrag = False, ct_recover = False, ct_stop = (\<not> stopping)\<rparr>"
    by (simp add: desktop_controls_def)
  ultimately show ?thesis using m(3-8) by (intro conjI impI) simp_all
qed

theorem mutation_within_controls_witness:
  "ct_defrag (desktop_controls (Some demo_ready) False False False) \<and> \<not> ct_recover (desktop_controls (Some demo_ready) False False False)"
proof -
  have m: "desktop_mutation demo_ready ''defrag'' ''engine'' ''/j'' 512 False =
      Inr [''engine'', ''defrag'', ''/dev/sdb1'', ''--filesystem'', ''fat16'', ''--write'', ''--confirm'', ''/dev/sdb1'', ''--journal'', ''/j'',
           ''--batch-clusters'', ''4096'', ''--ram-buffer'', ''auto'', ''--live-map-cells'', ''512'']"
    by code_simp
  have "\<not> ct_recover (desktop_controls (Some demo_ready) False False False)" by code_simp
  then show ?thesis using mutation_within_controls [OF m, of False] by simp
qed


subsection \<open>The map's raster\<close>

record DesktopMapRasterGeometry =
  rg_pixels :: u64
  rg_enlarged :: bool
  rg_minimum_units :: u64
  rg_maximum_units :: u64

definition pixel_edge :: "u64 \<Rightarrow> u64 \<Rightarrow> u64 \<Rightarrow> u64" where
  "pixel_edge pixel cells pixels = pixel * cells div pixels"

definition widen :: "u64 \<Rightarrow> DesktopMapRasterGeometry \<Rightarrow> DesktopMapRasterGeometry" where
  "widen units raster =
     raster\<lparr>rg_minimum_units := min (rg_minimum_units raster) units, rg_maximum_units := max (rg_maximum_units raster) units\<rparr>"

definition desktop_map_raster_geometry :: "json list \<Rightarrow> u64 \<Rightarrow> DesktopMapRasterGeometry" where
  "desktop_map_raster_geometry cells capacity =
     (let count = word_of_nat (length cells);
          raster = \<lparr>rg_pixels = capacity, rg_enlarged = (count < capacity), rg_minimum_units = - 1, rg_maximum_units = 0\<rparr>
      in if capacity = 0 \<or> cells = []
         then \<lparr>rg_pixels = 0, rg_enlarged = False, rg_minimum_units = 0, rg_maximum_units = 0\<rparr>
         else if rg_enlarged raster
         then foldl (\<lambda>r cell. widen (unsigned_field cell ''end'' - unsigned_field cell ''start'' + 1) r) raster cells
         else foldl (\<lambda>r pixel.
                       let first = pixel_edge pixel count capacity; past = pixel_edge (pixel + 1) count capacity
                       in widen (unsigned_field (cells ! unat (past - 1)) ''end'' - unsigned_field (cells ! unat first) ''start'' + 1) r)
                raster (map word_of_nat [0..<unat capacity]))"

lemma pixel_unique:
  fixes k n i :: nat
  assumes "0 < k" "k \<le> n" "i < n"
  shows "\<exists>!p. p < k \<and> p * n div k \<le> i \<and> i < (p + 1) * n div k"
proof
  let ?x = "(i + 1) * k"
  have edge: "p * n div k \<le> i \<longleftrightarrow> p * n < ?x" "i < p * n div k \<longleftrightarrow> ?x \<le> p * n" for p
  proof -
    have "p * n div k < i + 1 \<longleftrightarrow> p * n < ?x" using div_less_iff_less_mult [OF assms(1)] .
    then show "p * n div k \<le> i \<longleftrightarrow> p * n < ?x" "i < p * n div k \<longleftrightarrow> ?x \<le> p * n" by linarith+
  qed
  have x: "0 < ?x" "?x \<le> n * k" using assms(1) mult_le_mono1 [of "i + 1" n k] assms(3) by simp_all
  show "(?x - 1) div n < k \<and> (?x - 1) div n * n div k \<le> i \<and> i < ((?x - 1) div n + 1) * n div k"
  proof -
    have n: "0 < n" using assms by simp
    have low: "(?x - 1) div n * n \<le> ?x - 1" by (simp add: div_times_less_eq_dividend)
    have high: "?x - 1 < ((?x - 1) div n + 1) * n" using n dividend_less_div_times [of n "?x - 1"] by (simp add: algebra_simps)
    have "(?x - 1) div n < k" using x n by (simp add: div_less_iff_less_mult mult.commute) linarith
    then show ?thesis using low high x unfolding edge by linarith
  qed
  show "p = (?x - 1) div n" if p: "p < k \<and> p * n div k \<le> i \<and> i < (p + 1) * n div k" for p
  proof (rule div_nat_eqI [symmetric])
    show "n * p \<le> ?x - 1" using p x unfolding edge by (simp add: mult.commute) linarith
    show "?x - 1 < n * Suc p" using p x unfolding edge by (simp add: mult.commute) linarith
  qed
qed

text \<open>
  The raster covers the analysed surface once: with at least as many cells as pixels and a product that fits in
  \<open>std::size_t\<close>, every cell belongs to exactly one pixel, so no pixel is empty of meaning and no cell is left out.
\<close>

theorem raster_covers_once:
  assumes "0 < unat capacity" "unat capacity \<le> n" "n < 2 ^ 64" "unat capacity * n < 2 ^ 64" "i < n"
  shows "\<exists>!p. p < unat capacity \<and> unat (pixel_edge (word_of_nat p) (word_of_nat n) capacity) \<le> i \<and>
     i < unat (pixel_edge (word_of_nat p + 1) (word_of_nat n) capacity)"
proof -
  have edge: "unat (pixel_edge (word_of_nat p) (word_of_nat n) capacity) = p * n div unat capacity" if "p \<le> unat capacity" for p
  proof -
    have "p * n < 2 ^ 64" using that assms(4) mult_le_mono1 [OF that, of n] by linarith
    moreover have "p < 2 ^ 64" using that unat_lt64 [of capacity] by linarith
    ultimately show ?thesis
      using assms(3) by (simp add: pixel_edge_def unat_div unat_word_ariths unsigned_of_nat take_bit_nat_eq_self)
  qed
  have succ: "word_of_nat p + 1 = (word_of_nat (p + 1) :: u64)" for p by simp
  obtain p where p: "p < unat capacity" "p * n div unat capacity \<le> i" "i < (p + 1) * n div unat capacity"
    and uniq: "\<And>q. q < unat capacity \<and> q * n div unat capacity \<le> i \<and> i < (q + 1) * n div unat capacity \<Longrightarrow> q = p"
    using pixel_unique [OF assms(1,2,5)] by (elim ex1E) blast
  show ?thesis
  proof (rule ex1I [of _ p])
    show "p < unat capacity \<and> unat (pixel_edge (word_of_nat p) (word_of_nat n) capacity) \<le> i \<and>
        i < unat (pixel_edge (word_of_nat p + 1) (word_of_nat n) capacity)"
      using p edge [of p] edge [of "p + 1"] by (simp add: succ del: of_nat_Suc)
  next
    fix q
    assume "q < unat capacity \<and> unat (pixel_edge (word_of_nat q) (word_of_nat n) capacity) \<le> i \<and>
        i < unat (pixel_edge (word_of_nat q + 1) (word_of_nat n) capacity)"
    then show "q = p" using uniq [of q] edge [of q] edge [of "q + 1"] by (simp add: succ del: of_nat_Suc)
  qed
qed

theorem raster_covers_once_witness:
  "(\<exists>!p. p < unat (3 :: u64) \<and> unat (pixel_edge (word_of_nat p) (word_of_nat 7) 3) \<le> 4 \<and>
     4 < unat (pixel_edge (word_of_nat p + 1) (word_of_nat 7) 3)) \<and> pixel_edge 2 7 3 = 4"
  using raster_covers_once [of 3 7 4] by (simp add: pixel_edge_def)

end
