(* ===== verification/Ranges.thy ===== *)
theory Ranges
  imports Cpp_Json "HOL-Library.Product_Lexorder"
begin

text \<open>
  The allocation ranges of \<open>native/map.cpp\<close>: merging and complementing ranges of units, aggregating states into the
  cells of a map and laying further ranges over the cells. A range of units is half open; a cell in the JSON map has
  an inclusive last unit. The checked multiplication of the common library is a parameter.
\<close>

subsection \<open>Errors in sequence\<close>

definition and_then :: "'a exc \<Rightarrow> ('a \<Rightarrow> 'b exc) \<Rightarrow> 'b exc" where
  "and_then e f = (case e of Inl m \<Rightarrow> Inl m | Inr x \<Rightarrow> f x)"

definition demand :: "bool \<Rightarrow> string \<Rightarrow> unit exc" where
  "demand p message = (if p then Inr () else Inl message)"

lemma and_then_simps [simp]: "and_then (Inl m) f = Inl m" "and_then (Inr x) f = f x"
  by (simp_all add: and_then_def)

lemma and_then_Inr: "and_then e f = Inr y \<longleftrightarrow> (\<exists>x. e = Inr x \<and> f x = Inr y)"
  by (cases e) simp_all

lemma demand_Inr [simp]: "demand p message = Inr u \<longleftrightarrow> p"
  by (simp add: demand_def)

lemma and_then_cong [fundef_cong]: "e = e' \<Longrightarrow> (\<And>x. e' = Inr x \<Longrightarrow> f x = f' x) \<Longrightarrow> and_then e f = and_then e' f'"
  by (cases e') simp_all

subsection \<open>Ranges\<close>

record UnitRange =
  ur_start :: u64
  ur_end :: u64

record StateRange =
  sr_start :: u64
  sr_end :: u64
  sr_state :: u32

definition merge_step :: "UnitRange list \<Rightarrow> UnitRange \<Rightarrow> UnitRange list" where
  "merge_step merged r =
     (if ur_end r \<le> ur_start r then merged
      else if merged \<noteq> [] \<and> ur_start r \<le> ur_end (last merged)
      then butlast merged @ [(last merged)\<lparr>ur_end := max (ur_end (last merged)) (ur_end r)\<rparr>]
      else merged @ [r])"

definition merge_ranges :: "UnitRange list \<Rightarrow> UnitRange list" where
  "merge_ranges ranges = foldl merge_step [] (sort_key (\<lambda>r. (ur_start r, ur_end r)) ranges)"

fun complement_loop :: "u64 \<Rightarrow> u64 \<Rightarrow> UnitRange list \<Rightarrow> UnitRange list \<Rightarrow> UnitRange list \<times> u64" where
  "complement_loop total_units cursor gaps [] = (gaps, cursor)"
| "complement_loop total_units cursor gaps (r # rs) =
     (let first = min total_units (ur_start r); past = min total_units (ur_end r);
          gaps' = (if first > cursor then gaps @ [\<lparr>ur_start = cursor, ur_end = first\<rparr>] else gaps);
          cursor' = max cursor past
      in if cursor' \<ge> total_units then (gaps', cursor') else complement_loop total_units cursor' gaps' rs)"

definition complement_ranges :: "u64 \<Rightarrow> UnitRange list \<Rightarrow> UnitRange list" where
  "complement_ranges total_units occupied =
     (let (gaps, cursor) = complement_loop total_units 0 [] (merge_ranges occupied)
      in if cursor < total_units then gaps @ [\<lparr>ur_start = cursor, ur_end = total_units\<rparr>] else gaps)"

subsection \<open>Cells\<close>

type_synonym checked_multiply = "u64 \<Rightarrow> u64 \<Rightarrow> u64 option"

definition multiply_or_throw :: "checked_multiply \<Rightarrow> u64 \<Rightarrow> u64 \<Rightarrow> string \<Rightarrow> u64 exc" where
  "multiply_or_throw mul left right context_text =
     (case mul left right of Some p \<Rightarrow> Inr p | None \<Rightarrow> Inl (context_text @ '' overflows uint64''))"

definition cell_boundary :: "u64 \<Rightarrow> u64 \<Rightarrow> u64 \<Rightarrow> u64 exc" where
  "cell_boundary index total_units n =
     (if n = 0 then Inl ''zero map-cell count''
      else let quotient = total_units div n; remainder = total_units mod n in Inr (index * quotient + (index * remainder) div n))"

fun order_states :: "u64 \<Rightarrow> StateRange list \<Rightarrow> StateRange list \<Rightarrow> StateRange list exc" where
  "order_states total_units ordered [] = Inr ordered"
| "order_states total_units ordered (r # rs) =
     (let first = min (sr_start r) total_units; past = min (sr_end r) total_units
      in if past \<le> first then order_states total_units ordered rs
         else if sr_state r > 3 then Inl ''invalid allocation state''
         else if ordered \<noteq> [] \<and> first < sr_end (last ordered) then Inl ''overlapping allocation-state ranges''
         else if ordered \<noteq> [] \<and> first = sr_end (last ordered) \<and> sr_state r = sr_state (last ordered)
         then order_states total_units (butlast ordered @ [(last ordered)\<lparr>sr_end := past\<rparr>]) rs
         else order_states total_units (ordered @ [\<lparr>sr_start = first, sr_end = past, sr_state = sr_state r\<rparr>]) rs)"

definition add_count :: "nat \<Rightarrow> u64 \<Rightarrow> u64 list \<Rightarrow> u64 list" where
  "add_count state units counts = counts[state := counts ! state + units]"

fun count_overlaps :: "u64 \<Rightarrow> u64 \<Rightarrow> StateRange list \<Rightarrow> u64 \<Rightarrow> u64 list \<Rightarrow> u64 \<times> u64 list" where
  "count_overlaps first past [] cursor counts = (cursor, counts)"
| "count_overlaps first past (r # rs) cursor counts =
     (if \<not> sr_start r < past then (cursor, counts)
      else let overlap_start = max first (sr_start r); overlap_end = min past (sr_end r);
               counts' = (if overlap_start > cursor then add_count 2 (overlap_start - cursor) counts else counts);
               counts'' = (if overlap_end > overlap_start
                           then add_count (unat (sr_state r)) (overlap_end - overlap_start) counts' else counts');
               cursor' = (if overlap_end > overlap_start then max cursor overlap_end else cursor)
           in if sr_end r > past then (cursor', counts'') else count_overlaps first past rs cursor' counts'')"

definition cell_counts :: "u64 \<Rightarrow> u64 \<Rightarrow> StateRange list \<Rightarrow> u64 list" where
  "cell_counts first past rs =
     (let (cursor, counts) = count_overlaps first past rs first [0, 0, 0, 0]
      in if cursor < past then add_count 2 (past - cursor) counts else counts)"

definition cell_json :: "u64 \<Rightarrow> u64 \<Rightarrow> u64 list \<Rightarrow> json" where
  "cell_json first past counts =
     JObject (insert_members []
       [(''start'', json_unsigned first), (''end'', json_unsigned (past - 1)), (''free'', json_unsigned (counts ! 0)),
        (''used'', json_unsigned (counts ! 1)), (''unknown'', json_unsigned (counts ! 2)), (''bad'', json_unsigned (counts ! 3)),
        (''fragmented'', json_unsigned 0), (''directory'', json_unsigned 0)])"

text \<open>The cells from \<open>index\<close> on, \<open>k\<close> of them; the ranges that end before a cell are not looked at again.\<close>

fun cell_loop :: "u64 \<Rightarrow> u64 \<Rightarrow> u64 \<Rightarrow> nat \<Rightarrow> StateRange list \<Rightarrow> u64 list \<Rightarrow> json list \<Rightarrow> (u64 list \<times> json list) exc" where
  "cell_loop total_units n index 0 ordered totals cells = Inr (totals, cells)"
| "cell_loop total_units n index (Suc k) ordered totals cells =
     and_then (cell_boundary index total_units n) (\<lambda>first.
     and_then (cell_boundary (index + 1) total_units n) (\<lambda>past.
       let rest = dropWhile (\<lambda>r. sr_end r \<le> first) ordered;
           counts = cell_counts first past rest
       in cell_loop total_units n (index + 1) k rest (map2 (+) totals counts) (cells @ [cell_json first past counts])))"

definition aggregate_ranges ::
  "checked_multiply \<Rightarrow> u64 \<Rightarrow> u64 \<Rightarrow> u64 \<Rightarrow> string \<Rightarrow> StateRange list \<Rightarrow> string \<Rightarrow> (string \<times> json) list \<Rightarrow> json exc" where
  "aggregate_ranges mul total_units cell_count unit_bytes filesystem ranges accuracy details =
     (if total_units = 0 then Inl ''allocation-unit count must be positive''
      else
        let n = max 1 (min cell_count total_units)
        in and_then (order_states total_units [] (sort_key (\<lambda>r. (sr_start r, sr_end r, sr_state r)) ranges)) (\<lambda>ordered.
           and_then (cell_loop total_units n 0 (unat n) ordered [0, 0, 0, 0] []) (\<lambda>(totals, cells).
           and_then (multiply_or_throw mul total_units unit_bytes ''filesystem capacity'') (\<lambda>total_bytes.
           and_then (multiply_or_throw mul (totals ! 0) unit_bytes ''free-space total'') (\<lambda>free_bytes.
           and_then (multiply_or_throw mul (totals ! 1) unit_bytes ''used-space total'') (\<lambda>used_bytes.
           and_then (multiply_or_throw mul (totals ! 2 + totals ! 3) unit_bytes ''unknown-space total'') (\<lambda>unknown_bytes.
             Inr (JObject (insert_members []
               ([(''schema'', json_unsigned 1), (''backend'', JString ''read-only-domain''), (''filesystem'', JString filesystem),
                 (''map_accuracy'', JString accuracy), (''unit_size'', json_unsigned unit_bytes),
                 (''total_units'', json_unsigned total_units), (''cell_count'', json_unsigned n),
                 (''total_bytes'', json_unsigned total_bytes), (''free_bytes'', json_unsigned free_bytes),
                 (''used_bytes'', json_unsigned used_bytes), (''unknown_bytes'', json_unsigned unknown_bytes),
                 (''cells'', JArray cells)] @
                (if details \<noteq> [] then [(''details'', JObject details)] else [])))))))))))"

subsection \<open>Further ranges over the cells\<close>

fun overlap_units :: "u64 \<Rightarrow> u64 \<Rightarrow> UnitRange list \<Rightarrow> u64 \<Rightarrow> u64" where
  "overlap_units first past [] overlap = overlap"
| "overlap_units first past (r # rs) overlap =
     (if \<not> ur_start r < past then overlap
      else let overlap' = overlap + max 0 (min past (ur_end r) - max first (ur_start r))
           in if ur_end r > past then overlap' else overlap_units first past rs overlap')"

definition json_set :: "json \<Rightarrow> string \<Rightarrow> json \<Rightarrow> json exc" where
  "json_set j key v = and_then (json_object j) (\<lambda>kvs. Inr (JObject (object_set key v kvs)))"

definition optional_u64 :: "json \<Rightarrow> string \<Rightarrow> u64 \<Rightarrow> u64 exc" where
  "optional_u64 j key fallback = (case json_find j key of None \<Rightarrow> Inr fallback | Some v \<Rightarrow> unsigned_value v)"

definition required_u64 :: "json \<Rightarrow> string \<Rightarrow> u64 exc" where
  "required_u64 j key = and_then (json_at j key) unsigned_value"

fun overlay_cells :: "string \<Rightarrow> UnitRange list \<Rightarrow> json list \<Rightarrow> json list exc" where
  "overlay_cells field merged [] = Inr []"
| "overlay_cells field merged (cell # cells) =
     and_then (required_u64 cell ''start'') (\<lambda>first.
     and_then (required_u64 cell ''end'') (\<lambda>last_unit.
       let past = last_unit + 1;
           rest = dropWhile (\<lambda>r. ur_end r \<le> first) merged;
           overlap = overlap_units first past rest 0
       in and_then (optional_u64 cell ''used'' 0) (\<lambda>used.
          and_then (json_set cell field (json_unsigned (min used overlap))) (\<lambda>cell'.
          and_then (overlay_cells field rest cells) (\<lambda>cells'. Inr (cell' # cells'))))))"

definition overlay_ranges :: "json list \<Rightarrow> UnitRange list \<Rightarrow> string \<Rightarrow> (u64 \<times> json list) exc" where
  "overlay_ranges cells ranges field =
     (let merged = merge_ranges ranges; covered_units = foldl (\<lambda>t r. t + (ur_end r - ur_start r)) 0 merged
      in and_then (overlay_cells field merged cells) (\<lambda>cells'. Inr (covered_units, cells')))"


subsection \<open>What merging and complementing cover\<close>

definition range_units :: "UnitRange \<Rightarrow> nat set" where
  "range_units r = {unat (ur_start r)..<unat (ur_end r)}"

definition covered :: "UnitRange list \<Rightarrow> nat set" where
  "covered rs = (\<Union>r \<in> set rs. range_units r)"

definition separated :: "UnitRange list \<Rightarrow> bool" where
  "separated rs \<longleftrightarrow> sorted_wrt (\<lambda>a b. ur_end a < ur_start b) rs \<and> list_all (\<lambda>r. ur_start r < ur_end r) rs"

lemma covered_simps [simp]:
  "covered [] = {}" "covered (r # rs) = range_units r \<union> covered rs" "covered (a @ b) = covered a \<union> covered b"
  by (auto simp: covered_def)

lemma range_units_empty: "ur_end r \<le> ur_start r \<Longrightarrow> range_units r = {}"
  by (simp add: range_units_def word_le_nat_alt)

lemma merge_step_keeps:
  assumes "separated acc" "acc \<noteq> [] \<Longrightarrow> ur_start (last acc) \<le> ur_start r"
  shows "separated (merge_step acc r) \<and> covered (merge_step acc r) = covered acc \<union> range_units r \<and>
    (merge_step acc r \<noteq> [] \<longrightarrow> ur_start (last (merge_step acc r)) \<le> ur_start r)"
proof (cases "ur_end r \<le> ur_start r")
  case True
  then show ?thesis using assms by (simp add: merge_step_def range_units_empty)
next
  case False
  then have r: "ur_start r < ur_end r" by simp
  show ?thesis
  proof (cases acc rule: rev_cases)
    case Nil
    then have "merge_step acc r = [r]" using r by (simp add: merge_step_def)
    then show ?thesis using Nil r by (simp add: separated_def)
  next
    case (snoc front l)
    have l: "ur_start l < ur_end l" "ur_start l \<le> ur_start r" and front: "separated front" "\<forall>a \<in> set front. ur_end a < ur_start l"
      using assms snoc by (auto simp: separated_def sorted_wrt_append list_all_iff)
    show ?thesis
    proof (cases "ur_start r \<le> ur_end l")
      case True
      let ?m = "l\<lparr>ur_end := max (ur_end l) (ur_end r)\<rparr>"
      have step: "merge_step acc r = front @ [?m]" using r snoc True by (simp add: merge_step_def)
      have "range_units ?m = range_units l \<union> range_units r"
        using True l r by (auto simp: range_units_def word_le_nat_alt word_less_nat_alt max_def)
      moreover have "separated (front @ [?m])"
        using front l by (auto simp: separated_def sorted_wrt_append list_all_iff max_def)
      ultimately show ?thesis unfolding step using snoc l by auto
    next
      case False
      then have "merge_step acc r = acc @ [r]" using r snoc by (simp add: merge_step_def)
      moreover have "separated (acc @ [r])"
        using False r assms(1) snoc l front(2) by (auto simp: separated_def sorted_wrt_append list_all_iff)
      ultimately show ?thesis by simp
    qed
  qed
qed

lemma merge_fold:
  assumes "separated acc" "sorted (map ur_start rs)" "acc \<noteq> [] \<Longrightarrow> \<forall>r \<in> set rs. ur_start (last acc) \<le> ur_start r"
  shows "separated (foldl merge_step acc rs) \<and> covered (foldl merge_step acc rs) = covered acc \<union> covered rs"
  using assms
proof (induction rs arbitrary: acc)
  case (Cons r rs)
  have step: "separated (merge_step acc r)" "covered (merge_step acc r) = covered acc \<union> range_units r"
      "merge_step acc r \<noteq> [] \<Longrightarrow> ur_start (last (merge_step acc r)) \<le> ur_start r"
    using merge_step_keeps [of acc r] Cons.prems by auto
  moreover have "\<forall>q \<in> set rs. ur_start r \<le> ur_start q" "sorted (map ur_start rs)" using Cons.prems(2) by auto
  ultimately show ?case using Cons.IH [of "merge_step acc r"] by (auto intro: order.trans)
qed simp

lemma sort_key_start: "sorted (map ur_start (sort_key (\<lambda>r. (ur_start r, ur_end r)) rs))"
proof -
  have "sorted (map (\<lambda>r. (ur_start r, ur_end r)) (sort_key (\<lambda>r. (ur_start r, ur_end r)) rs))" by (rule sorted_sort_key)
  then show ?thesis unfolding sorted_map by (rule sorted_wrt_mono_rel [rotated]) (auto simp: less_eq_prod_def)
qed

lemma merge_exact: "separated (merge_ranges rs) \<and> covered (merge_ranges rs) = covered rs"
proof -
  have "covered (sort_key (\<lambda>r. (ur_start r, ur_end r)) rs) = covered rs" by (simp add: covered_def)
  moreover have "separated []" by (simp add: separated_def)
  ultimately show ?thesis
    unfolding merge_ranges_def using merge_fold [OF _ sort_key_start, of "[]" rs] by simp
qed

lemma complement_loop_exact:
  assumes "separated rs" "separated gaps" "\<forall>g \<in> set gaps. ur_end g < cursor" "cursor < total_units"
    and "complement_loop total_units cursor gaps rs = (gaps', cursor')"
  shows "separated gaps' \<and> (cursor' < total_units \<longrightarrow> (\<forall>g \<in> set gaps'. ur_end g < cursor')) \<and>
    covered gaps' \<union> {unat cursor'..<unat total_units} = covered gaps \<union> ({unat cursor..<unat total_units} - covered rs)"
  using assms
proof (induction rs arbitrary: gaps cursor)
  case (Cons r rs)
  define first where "first = min total_units (ur_start r)"
  define past where "past = min total_units (ur_end r)"
  define new where "new = (if first > cursor then gaps @ [\<lparr>ur_start = cursor, ur_end = first\<rparr>] else gaps)"
  have r: "ur_start r < ur_end r" "separated rs" "\<forall>q \<in> set rs. ur_end r < ur_start q"
    using Cons.prems(1) by (auto simp: separated_def)
  have sep: "separated new" using Cons.prems(2,3) by (auto simp: new_def separated_def sorted_wrt_append list_all_iff)
  have beyond: "x \<notin> covered rs" if "x < unat (ur_end r)" for x
    using that r(3) by (fastforce simp: covered_def range_units_def word_less_nat_alt)
  have cov: "covered new \<union> ({unat (max cursor past)..<unat total_units} - covered rs) =
      covered gaps \<union> ({unat cursor..<unat total_units} - covered (r # rs))"
  proof -
    have "{unat cursor..<unat total_units} - covered (r # rs) =
        (if first > cursor then {unat cursor..<unat first} else {}) \<union> ({unat (max cursor past)..<unat total_units} - covered rs)"
      using beyond r(1) by (auto simp: first_def past_def range_units_def word_less_nat_alt word_le_nat_alt min_def max_def not_le not_less)
    then show ?thesis by (auto simp: new_def range_units_def)
  qed
  have step: "complement_loop total_units cursor gaps (r # rs) =
      (if max cursor past \<ge> total_units then (new, max cursor past) else complement_loop total_units (max cursor past) new rs)"
    by (simp add: first_def past_def new_def Let_def)
  show ?case
  proof (cases "max cursor past \<ge> total_units")
    case True
    then have out: "gaps' = new" "cursor' = max cursor past" using Cons.prems(5) unfolding step by simp_all
    have "\<not> max cursor past < total_units" using True by (simp only: not_less)
    moreover have "{unat (max cursor past)..<unat total_units} = {}" using True by (simp only: word_le_nat_alt) simp
    ultimately show ?thesis unfolding out using sep cov by blast
  next
    case False
    then have "past < total_units" "ur_end r = past" "first < past"
      using r(1) by (auto simp: past_def first_def min_def max_def split: if_splits)
    then have "\<forall>g \<in> set new. ur_end g < max cursor past"
      using Cons.prems(3) by (auto simp: new_def less_max_iff_disj)
    moreover have "max cursor past < total_units" using False by (simp only: not_le)
    moreover have "complement_loop total_units (max cursor past) new rs = (gaps', cursor')"
      using Cons.prems(5) False unfolding step by (simp only: if_False)
    ultimately show ?thesis using Cons.IH [OF r(2) sep, of "max cursor past"] unfolding cov by blast
  qed
qed auto

lemma complement_exact:
  "separated (complement_ranges total_units occupied) \<and>
   covered (complement_ranges total_units occupied) = {0..<unat total_units} - covered occupied"
proof (cases "total_units = 0")
  case True
  have "complement_loop 0 0 [] rs = ([], 0)" for rs by (cases rs) (simp_all add: Let_def)
  then show ?thesis using True by (simp add: complement_ranges_def separated_def)
next
  case False
  obtain gaps cursor where run: "complement_loop total_units 0 [] (merge_ranges occupied) = (gaps, cursor)" by fastforce
  have "separated []" by (simp add: separated_def)
  moreover have "0 < total_units" using False by (simp add: word_greater_zero_iff)
  ultimately have r: "separated gaps" "cursor < total_units \<Longrightarrow> \<forall>g \<in> set gaps. ur_end g < cursor"
    "covered gaps \<union> {unat cursor..<unat total_units} = {0..<unat total_units} - covered occupied"
    using complement_loop_exact [OF _ _ _ _ run] merge_exact [of occupied] by auto
  show ?thesis
  proof (cases "cursor < total_units")
    case True
    then have "separated (gaps @ [\<lparr>ur_start = cursor, ur_end = total_units\<rparr>])"
      using r by (auto simp: separated_def sorted_wrt_append list_all_iff)
    then show ?thesis using True r(3) by (simp add: complement_ranges_def run range_units_def)
  next
    case False
    then show ?thesis using r by (simp add: complement_ranges_def run word_less_nat_alt)
  qed
qed


text \<open>
  Property C22. Ranges of units and the set they stand for: merging gives the same set as separate, non-empty ranges in order,
  and the complement gives exactly the units below the total that no range holds, in the same form.
\<close>

theorem ranges_refine_sets:
  "separated (merge_ranges rs) \<and> covered (merge_ranges rs) = covered rs \<and>
   separated (complement_ranges total_units rs) \<and> covered (complement_ranges total_units rs) = {0..<unat total_units} - covered rs"
  using merge_exact complement_exact by simp

subsection \<open>The state of a unit\<close>

definition holds_unit :: "nat \<Rightarrow> StateRange \<Rightarrow> bool" where
  "holds_unit u r \<longleftrightarrow> unat (sr_start r) \<le> u \<and> u < unat (sr_end r)"

definition unit_state :: "StateRange list \<Rightarrow> nat \<Rightarrow> nat" where
  "unit_state rs u = (case List.find (holds_unit u) rs of Some r \<Rightarrow> unat (sr_state r) | None \<Rightarrow> 2)"

lemma unit_state_simps:
  "unit_state [] u = 2"
  "unit_state (r # rs) u = (if holds_unit u r then unat (sr_state r) else unit_state rs u)"
  by (simp_all add: unit_state_def)

definition state_list :: "u64 \<Rightarrow> StateRange list \<Rightarrow> bool" where
  "state_list total_units rs \<longleftrightarrow>
     sorted_wrt (\<lambda>a b. sr_end a \<le> sr_start b) rs \<and>
     list_all (\<lambda>r. sr_start r < sr_end r \<and> sr_end r \<le> total_units \<and> sr_state r \<le> 3) rs"

definition tally :: "StateRange list \<Rightarrow> nat \<Rightarrow> nat \<Rightarrow> nat \<Rightarrow> nat" where
  "tally rs a b s = card {u \<in> {a..<b}. unit_state rs u = s}"

lemma tally_split:
  assumes "a \<le> m" "m \<le> b"
  shows "tally rs a b s = tally rs a m s + tally rs m b s"
proof -
  have "{u \<in> {a..<b}. unit_state rs u = s} = {u \<in> {a..<m}. unit_state rs u = s} \<union> {u \<in> {m..<b}. unit_state rs u = s}"
    using assms by auto
  then have "tally rs a b s = card ({u \<in> {a..<m}. unit_state rs u = s} \<union> {u \<in> {m..<b}. unit_state rs u = s})"
    by (simp only: tally_def)
  also have "\<dots> = tally rs a m s + tally rs m b s" unfolding tally_def by (rule card_Un_disjoint) auto
  finally show ?thesis .
qed

lemma tally_const:
  assumes "\<And>u. a \<le> u \<Longrightarrow> u < b \<Longrightarrow> unit_state rs u = t"
  shows "tally rs a b s = (if s = t then b - a else 0)"
proof -
  have "unit_state rs u = t" if "u \<in> {a..<b}" for u using that by (intro assms) simp_all
  then have "{u \<in> {a..<b}. unit_state rs u = s} = {u \<in> {a..<b}. t = s}" by (intro Collect_cong) metis
  then have "tally rs a b s = card {u \<in> {a..<b}. t = s}" by (simp only: tally_def)
  also have "{u \<in> {a..<b}. t = s} = (if s = t then {a..<b} else {})" by auto
  finally show ?thesis by simp
qed

lemma tally_cong: "(\<And>u. a \<le> u \<Longrightarrow> u < b \<Longrightarrow> unit_state rs u = unit_state rs' u) \<Longrightarrow> tally rs a b s = tally rs' a b s"
  unfolding tally_def by (rule arg_cong [of _ _ card]) auto

lemma tally_empty [simp]: "tally rs a a s = 0"
  by (simp add: tally_def)

lemma uncovered_state: "\<forall>r \<in> set rs. u < unat (sr_start r) \<or> unat (sr_end r) \<le> u \<Longrightarrow> unit_state rs u = 2"
  by (induction rs) (auto simp: unit_state_simps holds_unit_def)

lemma skipped_state:
  "unat first \<le> u \<Longrightarrow> unit_state (dropWhile (\<lambda>r. sr_end r \<le> first) rs) u = unit_state rs u"
  by (induction rs) (auto simp: unit_state_simps holds_unit_def word_le_nat_alt)

subsection \<open>Counting a cell\<close>

definition counted :: "u64 list \<Rightarrow> (nat \<Rightarrow> nat) \<Rightarrow> u64 list" where
  "counted counts f = map (\<lambda>s. counts ! s + word_of_nat (f s)) [0..<4]"

lemma counted_0: "length counts = 4 \<Longrightarrow> counted counts (\<lambda>s. 0) = counts"
  by (simp add: counted_def list_eq_iff_nth_eq)

lemma counted_counted: "counted (counted counts f) g = counted counts (\<lambda>s. f s + g s)"
  by (simp add: counted_def add.assoc)

lemma add_count_counted:
  assumes "length counts = 4" "t < 4"
  shows "add_count t units counts = counted counts (\<lambda>s. if s = t then unat units else 0)"
  using assms by (auto simp: add_count_def counted_def list_eq_iff_nth_eq nth_list_update)

lemma length_counted [simp]: "length (counted counts f) = 4"
  by (simp add: counted_def)

lemma counted_cong: "(\<And>s. s < 4 \<Longrightarrow> f s = g s) \<Longrightarrow> counted counts f = counted counts g"
  by (simp add: counted_def)

lemma count_overlaps_exact:
  assumes "state_list total_units rs" "first \<le> cursor" "cursor \<le> past" "first < past"
    "\<forall>r \<in> set rs. first < sr_end r \<and> cursor \<le> max first (sr_start r)" "length counts = 4"
    "count_overlaps first past rs cursor counts = (cursor', counts')"
  shows "cursor \<le> cursor' \<and> cursor' \<le> past \<and> counts' = counted counts (tally rs (unat cursor) (unat cursor')) \<and>
    (\<forall>u. unat cursor' \<le> u \<and> u < unat past \<longrightarrow> unit_state rs u = 2)"
  using assms
proof (induction rs arbitrary: cursor counts)
  case Nil
  then show ?case using counted_0 by (simp add: unit_state_simps)
next
  case (Cons r rs)
  show ?case
  proof (cases "sr_start r < past")
    case False
    have "\<forall>q \<in> set (r # rs). past \<le> sr_start q"
      using False Cons.prems(1) by (auto simp: state_list_def list_all_iff not_less)
    then have "unit_state (r # rs) u = 2" if "u < unat past" for u
      using that by (intro uncovered_state) (auto simp: word_le_nat_alt)
    then show ?thesis using False Cons.prems counted_0 by simp
  next
    case True
    define os where "os = max first (sr_start r)"
    define oe where "oe = min past (sr_end r)"
    have r: "sr_start r < sr_end r" "sr_state r \<le> 3" "state_list total_units rs" "\<forall>q \<in> set rs. sr_end r \<le> sr_start q"
      using Cons.prems(1) by (auto simp: state_list_def)
    have order: "cursor \<le> os" "os < oe" "oe \<le> past"
      using Cons.prems(4,5) r(1) True by (auto simp: os_def oe_def)
    have gap: "unit_state (r # rs) u = 2" if "unat cursor \<le> u" "u < unat os" for u
    proof -
      have "u < unat (sr_start r)"
        using that Cons.prems(2) by (auto simp: os_def max_def word_le_nat_alt split: if_splits)
      then show ?thesis using r(1,4) by (intro uncovered_state) (fastforce simp: word_le_nat_alt word_less_nat_alt)
    qed
    have here: "unit_state (r # rs) u = unat (sr_state r)" if "unat os \<le> u" "u < unat oe" for u
      using that by (auto simp: unit_state_simps holds_unit_def os_def oe_def max_def min_def word_le_nat_alt split: if_splits)
    define counts1 where "counts1 = (if os > cursor then add_count 2 (os - cursor) counts else counts)"
    have counts1: "counts1 = counted counts (tally (r # rs) (unat cursor) (unat os))"
    proof -
      have "tally (r # rs) (unat cursor) (unat os) = (\<lambda>s. if s = 2 then unat os - unat cursor else 0)"
        using tally_const [OF gap] by blast
      moreover have "unat (os - cursor) = unat os - unat cursor" using order(1) by (rule unat_sub)
      ultimately show ?thesis
        using add_count_counted [OF Cons.prems(6), of 2 "os - cursor"] counted_0 [OF Cons.prems(6)] order(1)
        by (cases "os = cursor") (simp_all add: counts1_def cong: if_cong)
    qed
    define counts2 where "counts2 = add_count (unat (sr_state r)) (oe - os) counts1"
    have counts2: "counts2 = counted counts (tally (r # rs) (unat cursor) (unat oe))"
    proof -
      have "tally (r # rs) (unat os) (unat oe) = (\<lambda>s. if s = unat (sr_state r) then unat oe - unat os else 0)"
        using tally_const [OF here] by blast
      moreover have "unat (oe - os) = unat oe - unat os" using order(2) by (intro unat_sub) simp
      moreover have "unat (sr_state r) < 4" using r(2) by (simp add: word_le_nat_alt)
      ultimately have "counts2 = counted counts1 (tally (r # rs) (unat os) (unat oe))"
        using add_count_counted [of counts1 "unat (sr_state r)" "oe - os"] counts1 by (simp add: counts2_def cong: if_cong)
      moreover have "tally (r # rs) (unat cursor) (unat oe) s = tally (r # rs) (unat cursor) (unat os) s + tally (r # rs) (unat os) (unat oe) s"
        for s using order by (intro tally_split) (simp_all add: word_le_nat_alt word_less_nat_alt)
      ultimately show ?thesis by (simp add: counts1 counted_counted counted_def)
    qed
    have run: "count_overlaps first past (r # rs) cursor counts =
        (if sr_end r > past then (oe, counts2) else count_overlaps first past rs oe counts2)"
    proof -
      have "max cursor oe = oe" using order by simp
      then show ?thesis
        unfolding count_overlaps.simps(2) Let_def os_def [symmetric] oe_def [symmetric] counts1_def [symmetric] counts2_def
        using True order(2) by simp
    qed
    show ?thesis
    proof (cases "sr_end r > past")
      case True
      then have "oe = past" by (simp add: oe_def)
      then show ?thesis using True Cons.prems(7) run order counts2 by simp
    next
      case False
      then have oe: "oe = sr_end r" by (simp add: oe_def)
      have beyond: "unit_state rs u = unit_state (r # rs) u" if "unat oe \<le> u" for u
        using that oe by (simp add: unit_state_simps holds_unit_def)
      have "oe \<le> cursor' \<and> cursor' \<le> past \<and> counts' = counted counts2 (tally rs (unat oe) (unat cursor')) \<and>
          (\<forall>u. unat cursor' \<le> u \<and> u < unat past \<longrightarrow> unit_state rs u = 2)"
      proof (rule Cons.IH [OF r(3) _ order(3) Cons.prems(4)])
        show "first \<le> oe" using order Cons.prems(2) by simp
        show "\<forall>q \<in> set rs. first < sr_end q \<and> oe \<le> max first (sr_start q)"
          using r(4) Cons.prems(5) oe by (auto simp: le_max_iff_disj)
        show "length counts2 = 4" by (simp add: counts2)
        show "count_overlaps first past rs oe counts2 = (cursor', counts')" using False Cons.prems(7) run by simp
      qed
      then have ih: "oe \<le> cursor'" "cursor' \<le> past" "counts' = counted counts2 (tally rs (unat oe) (unat cursor'))"
          "\<forall>u. unat cursor' \<le> u \<and> u < unat past \<longrightarrow> unit_state rs u = 2" by blast+
      have le: "cursor \<le> oe" "unat cursor \<le> unat oe" "unat oe \<le> unat cursor'"
        using order ih(1) by (simp_all add: word_le_nat_alt word_less_nat_alt)
      have "tally rs (unat oe) (unat cursor') = tally (r # rs) (unat oe) (unat cursor')"
        using tally_cong [of "unat oe" "unat cursor'" rs "r # rs"] beyond by blast
      then have "counts' = counted counts (tally (r # rs) (unat cursor) (unat cursor'))"
        using ih(3) tally_split [OF le(2,3)] by (simp add: counts2 counted_counted counted_def)
      moreover have "unit_state (r # rs) u = 2" if "unat cursor' \<le> u" "u < unat past" for u
        using ih(4) that beyond [of u] le(3) by simp
      ultimately show ?thesis using le(1) ih(1,2) by simp
    qed
  qed
qed


lemma cell_counts_exact:
  assumes "state_list total_units rs" "first < past" "\<forall>r \<in> set rs. first < sr_end r"
  shows "cell_counts first past rs = counted [0, 0, 0, 0] (tally rs (unat first) (unat past))"
proof -
  obtain cursor counts where run: "count_overlaps first past rs first [0, 0, 0, 0] = (cursor, counts)" by fastforce
  have r: "first \<le> cursor" "cursor \<le> past" "counts = counted [0, 0, 0, 0] (tally rs (unat first) (unat cursor))"
      "\<forall>u. unat cursor \<le> u \<and> u < unat past \<longrightarrow> unit_state rs u = 2"
    using count_overlaps_exact [OF assms(1) _ _ assms(2) _ _ run] assms(2,3) by auto
  have split: "tally rs (unat first) (unat past) s = tally rs (unat first) (unat cursor) s + tally rs (unat cursor) (unat past) s" for s
    using r(1,2) by (intro tally_split) (simp_all add: word_le_nat_alt)
  have rest: "tally rs (unat cursor) (unat past) = (\<lambda>s. if s = 2 then unat past - unat cursor else 0)"
    using tally_const [of "unat cursor" "unat past" rs 2] r(4) by blast
  show ?thesis
  proof (cases "cursor < past")
    case True
    then have "unat (past - cursor) = unat past - unat cursor" by (intro unat_sub) simp
    then have "cell_counts first past rs = counted counts (tally rs (unat cursor) (unat past))"
      using True add_count_counted [of counts 2 "past - cursor"] r(3) by (simp add: cell_counts_def run rest cong: if_cong)
    then show ?thesis using split by (simp add: r(3) counted_counted counted_def)
  next
    case False
    then have "cursor = past" using r(2) by simp
    then show ?thesis using r(3) by (simp add: cell_counts_def run)
  qed
qed

subsection \<open>The edges of the cells\<close>

definition cell_edge :: "nat \<Rightarrow> nat \<Rightarrow> nat \<Rightarrow> nat" where
  "cell_edge i units n = i * units div n"

lemma cell_boundary_edge:
  assumes "0 < n" "unat n \<le> 1048576" "i \<le> unat n"
  shows "cell_boundary (word_of_nat i) total_units n = Inr (word_of_nat (cell_edge i (unat total_units) (unat n))) \<and>
    cell_edge i (unat total_units) (unat n) \<le> unat total_units"
proof -
  let ?t = "unat total_units" let ?n = "unat n"
  have n: "0 < ?n" using assms(1) by (simp add: unat_gt_0)
  have edge: "i * (?t div ?n) + (i * (?t mod ?n)) div ?n = cell_edge i ?t ?n"
  proof -
    have "i * ?t = i * (?t div ?n) * ?n + i * (?t mod ?n)"
      by (metis add_mult_distrib2 div_mult_mod_eq mult.assoc)
    then show ?thesis using n by (simp add: cell_edge_def)
  qed
  have upper: "cell_edge i ?t ?n \<le> ?t"
  proof -
    have "i * ?t \<le> ?n * ?t" using assms(3) by (rule mult_le_mono1)
    then have "i * ?t div ?n \<le> ?n * ?t div ?n" by (rule div_le_mono)
    then show ?thesis using n by (simp add: cell_edge_def)
  qed
  have i: "i < 2 ^ 64" "unat (word_of_nat i :: u64) = i"
    using assms(2,3) by (simp_all add: unsigned_of_nat take_bit_nat_eq_self)
  have small: "i * (?t mod ?n) < 2 ^ 64"
  proof -
    have "i * (?t mod ?n) \<le> 1048576 * 1048576"
      using assms(2,3) mod_less_divisor [OF n, of ?t] by (intro mult_le_mono) linarith+
    then show ?thesis by simp
  qed
  have large: "i * (?t div ?n) < 2 ^ 64" using edge upper unat_lt64 [of total_units] by linarith
  have edge64: "cell_edge i ?t ?n < 2 ^ 64" using upper unat_lt64 [of total_units] by (rule le_less_trans)
  have "unat (word_of_nat i * (total_units div n) + word_of_nat i * (total_units mod n) div n) = cell_edge i ?t ?n"
  proof -
    have "unat (word_of_nat i * (total_units div n)) = i * (?t div ?n)"
      using large i by (subst unat_mult_64) (simp_all add: unat_div)
    moreover have "unat (word_of_nat i * (total_units mod n) div n) = i * (?t mod ?n) div ?n"
      using small i by (subst unat_div, subst unat_mult_64) (simp_all add: unat_mod)
    ultimately show ?thesis using edge edge64 by (subst unat_add_64) simp_all
  qed
  then have "word_of_nat i * (total_units div n) + word_of_nat i * (total_units mod n) div n = word_of_nat (cell_edge i ?t ?n)"
    using edge64 by (simp add: word_unat_eq_iff unsigned_of_nat take_bit_nat_eq_self)
  then show ?thesis
    using assms(1) upper by (simp add: cell_boundary_def Let_def)
qed

lemma cell_edge_less: "0 < n \<Longrightarrow> n \<le> units \<Longrightarrow> cell_edge i units n < cell_edge (Suc i) units n"
proof -
  assume n: "0 < n" "n \<le> units"
  have "i * units div n + 1 = (i * units + n) div n" using div_add_self2 [of n "i * units"] n(1) by simp
  also have "\<dots> \<le> (i * units + units) div n" using n(2) by (intro div_le_mono) simp
  finally show ?thesis by (simp add: cell_edge_def add.commute)
qed

lemma cell_edge_last: "0 < n \<Longrightarrow> cell_edge n units n = units" "cell_edge 0 units n = 0"
  by (simp_all add: cell_edge_def)

lemma add_counts: "map2 (+) (counted totals f) (counted [0, 0, 0, 0] g) = counted totals (\<lambda>s. f s + g s)"
  by (simp add: counted_def list_eq_iff_nth_eq nth_append numeral_eq_Suc less_Suc_eq)

definition edge_word :: "nat \<Rightarrow> u64 \<Rightarrow> u64 \<Rightarrow> u64" where
  "edge_word i total_units n = word_of_nat (cell_edge i (unat total_units) (unat n))"

definition exact_cell :: "u64 \<Rightarrow> u64 \<Rightarrow> (nat \<Rightarrow> nat \<Rightarrow> nat \<Rightarrow> nat) \<Rightarrow> nat \<Rightarrow> json" where
  "exact_cell total_units n count i =
     cell_json (edge_word i total_units n) (edge_word (Suc i) total_units n)
       (map (\<lambda>s. word_of_nat (count (cell_edge i (unat total_units) (unat n)) (cell_edge (Suc i) (unat total_units) (unat n)) s)) [0..<4])"

lemma edge_word_unat:
  "cell_edge i (unat total_units) (unat n) \<le> unat total_units \<Longrightarrow>
   unat (edge_word i total_units n) = cell_edge i (unat total_units) (unat n)"
proof -
  assume "cell_edge i (unat total_units) (unat n) \<le> unat total_units"
  then have "cell_edge i (unat total_units) (unat n) < 2 ^ 64" using unat_lt64 [of total_units] by (rule le_less_trans)
  then show ?thesis by (simp add: edge_word_def unsigned_of_nat take_bit_nat_eq_self)
qed

lemma state_list_drop:
  assumes "state_list total_units rs"
  shows "state_list total_units (dropWhile (\<lambda>r. sr_end r \<le> first) rs) \<and> (\<forall>r \<in> set (dropWhile (\<lambda>r. sr_end r \<le> first) rs). first < sr_end r)"
  using assms
proof (induction rs)
  case (Cons r rs)
  show ?case
  proof (cases "sr_end r \<le> first")
    case True
    then show ?thesis using Cons by (simp add: state_list_def)
  next
    case False
    have "first < sr_end q" if "q \<in> set rs" for q
    proof -
      have "sr_end r \<le> sr_start q" "sr_start q < sr_end q" using Cons.prems that by (auto simp: state_list_def list_all_iff)
      then show ?thesis using False by simp
    qed
    then show ?thesis using False Cons.prems by simp
  qed
qed (simp add: state_list_def)

lemma cell_loop_exact:
  assumes "0 < n" "unat n \<le> 1048576" "unat n \<le> unat total_units" "i + k = unat n" "state_list total_units ordered"
    "\<forall>u. cell_edge i (unat total_units) (unat n) \<le> u \<longrightarrow> unit_state ordered u = unit_state all u"
    "totals = counted [0, 0, 0, 0] (tally all 0 (cell_edge i (unat total_units) (unat n)))"
  shows "cell_loop total_units n (word_of_nat i) k ordered totals cells =
    Inr (counted [0, 0, 0, 0] (tally all 0 (unat total_units)), cells @ map (exact_cell total_units n (tally all)) [i..<unat n])"
  using assms(4-)
proof (induction k arbitrary: i ordered totals cells)
  case 0
  have "0 < unat n" using assms(1) by (simp add: unat_gt_0)
  then have "cell_edge i (unat total_units) (unat n) = unat total_units" using 0(1) cell_edge_last by simp
  then show ?case using 0 by simp
next
  case (Suc k)
  let ?t = "unat total_units" let ?n = "unat n"
  have n: "0 < ?n" using assms(1) by (simp add: unat_gt_0)
  define first where "first = edge_word i total_units n"
  define past where "past = edge_word (Suc i) total_units n"
  have edges: "cell_boundary (word_of_nat i) total_units n = Inr first" "cell_boundary (word_of_nat (Suc i)) total_units n = Inr past"
      "unat first = cell_edge i ?t ?n" "unat past = cell_edge (Suc i) ?t ?n"
    using cell_boundary_edge [OF assms(1,2), of i total_units] cell_boundary_edge [OF assms(1,2), of "Suc i" total_units] Suc.prems(1)
      edge_word_unat [of i total_units n] edge_word_unat [of "Suc i" total_units n]
    by (simp_all add: first_def past_def edge_word_def del: of_nat_Suc)
  have less: "first < past" using edges(3,4) cell_edge_less [OF n assms(3)] by (simp add: word_less_nat_alt)
  define rest where "rest = dropWhile (\<lambda>r. sr_end r \<le> first) ordered"
  have rest: "state_list total_units rest" "\<forall>r \<in> set rest. first < sr_end r"
    using state_list_drop [OF Suc.prems(2)] by (simp_all add: rest_def)
  have same: "unit_state rest u = unit_state all u" if "cell_edge i ?t ?n \<le> u" for u
    using skipped_state [of first u ordered] that Suc.prems(3) edges(3) by (simp add: rest_def)
  have tallies: "tally rest (unat first) (unat past) = tally all (unat first) (unat past)"
    using same edges(3) by (intro ext tally_cong) simp
  have counts: "cell_counts first past rest = counted [0, 0, 0, 0] (tally all (unat first) (unat past))"
    using cell_counts_exact [OF rest(1) less rest(2)] tallies by simp
  have split: "tally all 0 (cell_edge (Suc i) ?t ?n) s = tally all 0 (unat first) s + tally all (unat first) (unat past) s" for s
    using tally_split [of 0 "unat first" "unat past" all s] less edges(4) by (simp add: word_less_nat_alt)
  have totals: "map2 (+) totals (cell_counts first past rest) = counted [0, 0, 0, 0] (tally all 0 (cell_edge (Suc i) ?t ?n))"
    using split edges(3) unfolding Suc.prems(4) counts add_counts by (simp add: counted_def)
  have "cell_loop total_units n (word_of_nat (Suc i)) k rest (map2 (+) totals (cell_counts first past rest))
      (cells @ [cell_json first past (cell_counts first past rest)]) =
      Inr (counted [0, 0, 0, 0] (tally all 0 ?t),
        (cells @ [cell_json first past (cell_counts first past rest)]) @ map (exact_cell total_units n (tally all)) [Suc i..<?n])"
    using same less edges(3,4) Suc.prems(1) by (intro Suc.IH rest(1) totals) (simp_all add: word_less_nat_alt)
  moreover have "cell_json first past (cell_counts first past rest) = exact_cell total_units n (tally all) i"
    using edges(3,4) unfolding exact_cell_def counts by (simp add: counted_def first_def [symmetric] past_def [symmetric] numeral_eq_Suc)
  moreover have "[i..<?n] = i # [Suc i..<?n]" using Suc.prems(1) by (simp add: upt_conv_Cons)
  ultimately show ?case
    using edges(1,2) by (simp add: Let_def rest_def [symmetric] add.commute)
qed


subsection \<open>Putting the states in order\<close>

lemma state_list_unique: "state_list total_units rs \<Longrightarrow> r \<in> set rs \<Longrightarrow> holds_unit u r \<Longrightarrow> unit_state rs u = unat (sr_state r)"
proof (induction rs)
  case (Cons q rs)
  show ?case
  proof (cases "r = q")
    case True
    then show ?thesis using Cons.prems by (simp add: unit_state_simps)
  next
    case False
    then have r: "r \<in> set rs" "sr_end q \<le> sr_start r" "state_list total_units rs"
      using Cons.prems by (auto simp: state_list_def)
    then have "\<not> holds_unit u q" using Cons.prems(3) by (auto simp: holds_unit_def word_le_nat_alt)
    then show ?thesis using Cons.IH [OF r(3,1)] Cons.prems(3) by (simp add: unit_state_simps)
  qed
qed simp

lemma unit_state_none: "\<forall>r \<in> set rs. \<not> holds_unit u r \<Longrightarrow> unit_state rs u = 2"
  by (induction rs) (simp_all add: unit_state_simps)

definition states_kept :: "nat \<Rightarrow> StateRange set \<Rightarrow> (nat \<Rightarrow> nat) \<Rightarrow> bool" where
  "states_kept units rs f \<longleftrightarrow>
     (\<forall>u < units. (\<forall>r \<in> rs. holds_unit u r \<longrightarrow> f u = unat (sr_state r)) \<and> ((\<forall>r \<in> rs. \<not> holds_unit u r) \<longrightarrow> f u = 2))"

lemma states_kept_find: "states_kept units (set rs) f \<Longrightarrow> u < units \<Longrightarrow> f u = unit_state rs u"
proof (cases "\<exists>r \<in> set rs. holds_unit u r")
  case True
  then obtain r where "List.find (holds_unit u) rs = Some r" by (metis find_None_iff option.exhaust)
  moreover from this have "r \<in> set rs" "holds_unit u r" by (auto simp: find_Some_iff)
  moreover assume "states_kept units (set rs) f" "u < units"
  ultimately show "f u = unit_state rs u" unfolding states_kept_def unit_state_def by simp
next
  case False
  moreover assume "states_kept units (set rs) f" "u < units"
  ultimately show "f u = unit_state rs u" unfolding states_kept_def using unit_state_none [of rs u] by simp
qed

lemma states_kept_swap:
  assumes "states_kept units (insert q rs) f"
    and "\<And>u. u < units \<Longrightarrow> holds_unit u q \<longleftrightarrow> (\<exists>r \<in> ps. holds_unit u r)"
    and "\<And>r. r \<in> ps \<Longrightarrow> sr_state r = sr_state q"
  shows "states_kept units (ps \<union> rs) f"
  using assms unfolding states_kept_def by (metis Un_iff insertCI insertE)

lemma order_states_exact:
  assumes "order_states total_units acc rs = Inr out" "state_list total_units acc" "sorted (map sr_start rs)"
    "acc \<noteq> [] \<Longrightarrow> \<forall>r \<in> set rs. sr_start (last acc) \<le> sr_start r"
  shows "state_list total_units out \<and> states_kept (unat total_units) (set acc \<union> set rs) (unit_state out)"
  using assms
proof (induction rs arbitrary: acc)
  case Nil
  then show ?case using state_list_unique unit_state_none by (fastforce simp: states_kept_def)
next
  case (Cons r rs)
  define first where "first = min (sr_start r) total_units"
  define past where "past = min (sr_end r) total_units"
  have later: "\<forall>q \<in> set rs. sr_start r \<le> sr_start q" "sorted (map sr_start rs)" using Cons.prems(3) by simp_all
  have run: "order_states total_units acc (r # rs) =
      (if past \<le> first then order_states total_units acc rs
       else if sr_state r > 3 then Inl ''invalid allocation state''
       else if acc \<noteq> [] \<and> first < sr_end (last acc) then Inl ''overlapping allocation-state ranges''
       else if acc \<noteq> [] \<and> first = sr_end (last acc) \<and> sr_state r = sr_state (last acc)
       then order_states total_units (butlast acc @ [(last acc)\<lparr>sr_end := past\<rparr>]) rs
       else order_states total_units (acc @ [\<lparr>sr_start = first, sr_end = past, sr_state = sr_state r\<rparr>]) rs)"
    by (simp add: first_def past_def Let_def)
  have clipped: "holds_unit u r \<longleftrightarrow> unat first \<le> u \<and> u < unat past" if "u < unat total_units" for u
    using that by (auto simp: holds_unit_def first_def past_def min_def word_le_nat_alt)
  show ?case
  proof (cases "past \<le> first")
    case True
    then have "\<not> holds_unit u r" if "u < unat total_units" for u using clipped [OF that] by (simp add: word_le_nat_alt)
    moreover have "state_list total_units out \<and> states_kept (unat total_units) (set acc \<union> set rs) (unit_state out)"
      using Cons.IH [of acc] Cons.prems later run True by simp
    ultimately show ?thesis by (auto simp: states_kept_def)
  next
    case False
    then have r: "first < past" "past \<le> total_units" "first = sr_start r"
      by (auto simp: past_def first_def min_def split: if_splits)
    show ?thesis
    proof (cases "acc \<noteq> [] \<and> first = sr_end (last acc) \<and> sr_state r = sr_state (last acc)")
      case True
      then obtain front l where acc: "acc = front @ [l]" by (cases acc rule: rev_cases) auto
      let ?m = "l\<lparr>sr_end := past\<rparr>"
      have l: "first = sr_end l" "sr_state r = sr_state l" "sr_start l < sr_end l" using True acc Cons.prems(2) by (simp_all add: state_list_def)
      have next_run: "order_states total_units (front @ [?m]) rs = Inr out"
        using Cons.prems(1) False True acc unfolding run by (auto split: if_splits)
      have list: "state_list total_units (front @ [?m])"
        using Cons.prems(2) acc l r by (auto simp: state_list_def sorted_wrt_append list_all_iff)
      have "state_list total_units out \<and> states_kept (unat total_units) (set (front @ [?m]) \<union> set rs) (unit_state out)"
        by (rule Cons.IH [OF next_run list later(2)]) (use Cons.prems(4) acc in auto)
      moreover have "states_kept (unat total_units) ({l, r} \<union> (set front \<union> set rs)) (unit_state out)"
        if "states_kept (unat total_units) (insert ?m (set front \<union> set rs)) (unit_state out)"
      proof (rule states_kept_swap [OF that])
        show "holds_unit u ?m \<longleftrightarrow> (\<exists>p \<in> {l, r}. holds_unit u p)" if "u < unat total_units" for u
          using clipped [OF that] l r(1) by (auto simp: holds_unit_def word_le_nat_alt word_less_nat_alt)
      qed (use l in auto)
      ultimately show ?thesis by (simp add: acc insert_commute)
    next
      case nomerge: False
      let ?m = "\<lparr>sr_start = first, sr_end = past, sr_state = sr_state r\<rparr>"
      have ok: "sr_state r \<le> 3" "acc \<noteq> [] \<Longrightarrow> sr_end (last acc) \<le> first"
          "order_states total_units (acc @ [?m]) rs = Inr out"
        using Cons.prems(1) False nomerge unfolding run by (auto split: if_splits)
      have "\<forall>a \<in> set acc. sr_end a \<le> first"
      proof (cases acc rule: rev_cases)
        case (snoc front l)
        have "sr_end a \<le> sr_start l \<and> sr_start l < sr_end l" if "a \<in> set front" for a
          using Cons.prems(2) snoc that by (auto simp: state_list_def sorted_wrt_append)
        then show ?thesis using ok(2) snoc by force
      qed simp
      then have list: "state_list total_units (acc @ [?m])"
        using Cons.prems(2) r ok(1) by (auto simp: state_list_def sorted_wrt_append)
      have "state_list total_units out \<and> states_kept (unat total_units) (set (acc @ [?m]) \<union> set rs) (unit_state out)"
        by (rule Cons.IH [OF ok(3) list later(2)]) (use later(1) r(3) in simp)
      moreover have "states_kept (unat total_units) ({r} \<union> (set acc \<union> set rs)) (unit_state out)"
        if "states_kept (unat total_units) (insert ?m (set acc \<union> set rs)) (unit_state out)"
        by (rule states_kept_swap [OF that]) (use clipped in \<open>auto simp: holds_unit_def\<close>)
      ultimately show ?thesis by simp
    qed
  qed
qed


subsection \<open>The aggregate map\<close>

definition checked_product :: "checked_multiply \<Rightarrow> bool" where
  "checked_product mul \<longleftrightarrow> (\<forall>a b. mul a b = (if unat a * unat b < 2 ^ 64 then Some (a * b) else None))"

lemma multiply_exact:
  "checked_product mul \<Longrightarrow> multiply_or_throw mul a b m = Inr p \<longleftrightarrow> unat a * unat b < 2 ^ 64 \<and> p = a * b"
  by (auto simp: multiply_or_throw_def checked_product_def)

lemma sort_key_sr_start: "sorted (map sr_start (sort_key (\<lambda>r. (sr_start r, sr_end r, sr_state r)) rs))"
proof -
  have "sorted (map (\<lambda>r. (sr_start r, sr_end r, sr_state r)) (sort_key (\<lambda>r. (sr_start r, sr_end r, sr_state r)) rs))" by (rule sorted_sort_key)
  then show ?thesis unfolding sorted_map by (rule sorted_wrt_mono_rel [rotated]) (auto simp: less_eq_prod_def)
qed

lemma states_small: "state_list total_units rs \<Longrightarrow> unit_state rs u \<le> 3"
  by (induction rs) (auto simp: unit_state_simps state_list_def word_le_nat_alt)

lemma tally_total:
  assumes "\<And>u. a \<le> u \<Longrightarrow> u < b \<Longrightarrow> unit_state rs u \<le> 3"
  shows "tally rs a b 0 + tally rs a b 1 + tally rs a b 2 + tally rs a b 3 = b - a"
proof -
  have "tally rs a b 0 + tally rs a b 1 + tally rs a b 2 + tally rs a b 3 = (\<Sum>s \<in> {..<4}. tally rs a b s)"
    by (simp add: numeral_eq_Suc)
  also have "\<dots> = card (\<Union>s \<in> {..<4}. {u \<in> {a..<b}. unit_state rs u = s})"
    unfolding tally_def by (rule card_UN_disjoint [symmetric]) auto
  also have "(\<Union>s \<in> {..<4}. {u \<in> {a..<b}. unit_state rs u = s}) = {a..<b}" using assms by force
  finally show ?thesis by simp
qed

lemma aggregate_form:
  assumes "aggregate_ranges mul total_units cell_count unit_bytes filesystem ranges accuracy details = Inr j"
    and "unat cell_count \<le> 1048576" "checked_product mul"
  obtains n totals where "unat n = max 1 (min (unat cell_count) (unat total_units))" "0 < total_units"
    "\<forall>u < unat total_units. unit_state ranges u \<le> 3" "states_kept (unat total_units) (set ranges) (unit_state ranges)"
    "totals = counted [0, 0, 0, 0] (tally ranges 0 (unat total_units))"
    "unat total_units * unat unit_bytes < 2 ^ 64"
    "j = JObject (insert_members []
       ([(''schema'', json_unsigned 1), (''backend'', JString ''read-only-domain''), (''filesystem'', JString filesystem),
         (''map_accuracy'', JString accuracy), (''unit_size'', json_unsigned unit_bytes),
         (''total_units'', json_unsigned total_units), (''cell_count'', json_unsigned n),
         (''total_bytes'', json_unsigned (total_units * unit_bytes)), (''free_bytes'', json_unsigned (totals ! 0 * unit_bytes)),
         (''used_bytes'', json_unsigned (totals ! 1 * unit_bytes)),
         (''unknown_bytes'', json_unsigned ((totals ! 2 + totals ! 3) * unit_bytes)),
         (''cells'', JArray (map (exact_cell total_units n (tally ranges)) [0..<unat n]))] @
        (if details \<noteq> [] then [(''details'', JObject details)] else [])))"
proof -
  have positive: "total_units \<noteq> 0" using assms(1) by (auto simp: aggregate_ranges_def)
  define n where "n = max 1 (min cell_count total_units)"
  have t: "0 < unat total_units" using positive by (simp add: unat_gt_0)
  then have n: "unat n = max 1 (min (unat cell_count) (unat total_units))" "0 < n" "unat n \<le> 1048576" "unat n \<le> unat total_units"
    using assms(2) by (auto simp: n_def max_def min_def word_le_nat_alt word_less_nat_alt)
  obtain ordered totals cells total_bytes free_bytes used_bytes unknown_bytes where run:
    "order_states total_units [] (sort_key (\<lambda>r. (sr_start r, sr_end r, sr_state r)) ranges) = Inr ordered"
    "cell_loop total_units n 0 (unat n) ordered [0, 0, 0, 0] [] = Inr (totals, cells)"
    "multiply_or_throw mul total_units unit_bytes ''filesystem capacity'' = Inr total_bytes"
    "multiply_or_throw mul (totals ! 0) unit_bytes ''free-space total'' = Inr free_bytes"
    "multiply_or_throw mul (totals ! 1) unit_bytes ''used-space total'' = Inr used_bytes"
    "multiply_or_throw mul (totals ! 2 + totals ! 3) unit_bytes ''unknown-space total'' = Inr unknown_bytes"
    and j: "j = JObject (insert_members []
       ([(''schema'', json_unsigned 1), (''backend'', JString ''read-only-domain''), (''filesystem'', JString filesystem),
         (''map_accuracy'', JString accuracy), (''unit_size'', json_unsigned unit_bytes),
         (''total_units'', json_unsigned total_units), (''cell_count'', json_unsigned n),
         (''total_bytes'', json_unsigned total_bytes), (''free_bytes'', json_unsigned free_bytes),
         (''used_bytes'', json_unsigned used_bytes), (''unknown_bytes'', json_unsigned unknown_bytes), (''cells'', JArray cells)] @
        (if details \<noteq> [] then [(''details'', JObject details)] else [])))"
    using assms(1) positive unfolding aggregate_ranges_def Let_def n_def [symmetric]
    by (simp only: if_False and_then_Inr split_paired_Ex case_prod_conv sum.inject) blast
  have "state_list total_units ordered \<and> states_kept (unat total_units) (set ranges) (unit_state ordered)"
    using order_states_exact [OF run(1) _ sort_key_sr_start] by (simp add: state_list_def)
  then have ordered: "state_list total_units ordered" "states_kept (unat total_units) (set ranges) (unit_state ordered)" by simp_all
  then have same: "\<forall>u < unat total_units. unit_state ordered u = unit_state ranges u" using states_kept_find by blast
  have "cell_loop total_units n (word_of_nat 0) (unat n) ordered [0, 0, 0, 0] [] =
      Inr (counted [0, 0, 0, 0] (tally ordered 0 (unat total_units)), [] @ map (exact_cell total_units n (tally ordered)) [0..<unat n])"
    by (rule cell_loop_exact [OF n(2,3,4) _ ordered(1)]) (simp_all add: cell_edge_def counted_def numeral_eq_Suc)
  then have loop: "totals = counted [0, 0, 0, 0] (tally ordered 0 (unat total_units))"
      "cells = map (exact_cell total_units n (tally ordered)) [0..<unat n]"
    using run(2) by simp_all
  have tallies: "tally ordered a b = tally ranges a b" if "b \<le> unat total_units" for a b
    using same that by (intro ext tally_cong) simp
  have "exact_cell total_units n (tally ordered) i = exact_cell total_units n (tally ranges) i" if "i < unat n" for i
  proof -
    have "cell_edge (Suc i) (unat total_units) (unat n) \<le> unat total_units"
      using cell_boundary_edge [OF n(2,3), of "Suc i" total_units] that by simp
    then show ?thesis using tallies by (simp add: exact_cell_def)
  qed
  then have "cells = map (exact_cell total_units n (tally ranges)) [0..<unat n]" using loop(2) by simp
  moreover have "totals = counted [0, 0, 0, 0] (tally ranges 0 (unat total_units))" using loop(1) tallies by simp
  moreover have "\<forall>u < unat total_units. unit_state ranges u \<le> 3" using same states_small [OF ordered(1)] by metis
  moreover have "states_kept (unat total_units) (set ranges) (unit_state ranges)"
    using ordered(2) same unfolding states_kept_def by metis
  moreover have "total_bytes = total_units * unit_bytes" "free_bytes = totals ! 0 * unit_bytes" "used_bytes = totals ! 1 * unit_bytes"
      "unknown_bytes = (totals ! 2 + totals ! 3) * unit_bytes" "unat total_units * unat unit_bytes < 2 ^ 64"
    using run(3-6) multiply_exact [OF assms(3)] by simp_all
  moreover have "0 < total_units" using positive by (simp add: word_gt_0)
  ultimately show ?thesis using that n(1) j by blast
qed

text \<open>
  Property C23. The aggregated map counts every unit once. When \<open>aggregate_ranges\<close> succeeds (for a supported number of cells and
  an exact checked product), each unit has the one state its range gives it, or unknown where there is none; the cells
  cut the units at \<open>i * total div n\<close>, each holds the numbers of units of its states, and the byte totals are those of the
  whole device.
\<close>

theorem aggregate_exact:
  assumes "aggregate_ranges mul total_units cell_count unit_bytes filesystem ranges accuracy details = Inr j"
    and "unat cell_count \<le> 1048576" "checked_product mul"
  shows "states_kept (unat total_units) (set ranges) (unit_state ranges) \<and>
    (\<exists>n. unat n = max 1 (min (unat cell_count) (unat total_units)) \<and>
       json_find j ''cells'' = Some (JArray (map (exact_cell total_units n (tally ranges)) [0..<unat n]))) \<and>
    json_find j ''free_bytes'' = Some (json_unsigned (word_of_nat (tally ranges 0 (unat total_units) 0) * unit_bytes)) \<and>
    json_find j ''used_bytes'' = Some (json_unsigned (word_of_nat (tally ranges 0 (unat total_units) 1) * unit_bytes)) \<and>
    json_find j ''total_bytes'' = Some (json_unsigned (total_units * unit_bytes))"
proof -
  obtain n totals where r: "unat n = max 1 (min (unat cell_count) (unat total_units))"
    "states_kept (unat total_units) (set ranges) (unit_state ranges)" "totals = counted [0, 0, 0, 0] (tally ranges 0 (unat total_units))"
    and j: "j = JObject (insert_members []
       ([(''schema'', json_unsigned 1), (''backend'', JString ''read-only-domain''), (''filesystem'', JString filesystem),
         (''map_accuracy'', JString accuracy), (''unit_size'', json_unsigned unit_bytes),
         (''total_units'', json_unsigned total_units), (''cell_count'', json_unsigned n),
         (''total_bytes'', json_unsigned (total_units * unit_bytes)), (''free_bytes'', json_unsigned (totals ! 0 * unit_bytes)),
         (''used_bytes'', json_unsigned (totals ! 1 * unit_bytes)),
         (''unknown_bytes'', json_unsigned ((totals ! 2 + totals ! 3) * unit_bytes)),
         (''cells'', JArray (map (exact_cell total_units n (tally ranges)) [0..<unat n]))] @
        (if details \<noteq> [] then [(''details'', JObject details)] else [])))"
    by (rule aggregate_form [OF assms])
  have totals: "totals ! 0 = word_of_nat (tally ranges 0 (unat total_units) 0)" "totals ! 1 = word_of_nat (tally ranges 0 (unat total_units) 1)"
    by (simp_all add: r(3) counted_def numeral_eq_Suc)
  have find: "json_find j ''cells'' = Some (JArray (map (exact_cell total_units n (tally ranges)) [0..<unat n]))"
    "json_find j ''free_bytes'' = Some (json_unsigned (totals ! 0 * unit_bytes))"
    "json_find j ''used_bytes'' = Some (json_unsigned (totals ! 1 * unit_bytes))"
    "json_find j ''total_bytes'' = Some (json_unsigned (total_units * unit_bytes))"
    unfolding j by (cases "details = []"; simp add: json_find_def insert_members_def)+
  show ?thesis using r(1,2) find unfolding totals by blast
qed

text \<open>It succeeds whenever the ranges can be put in order and the capacity fits.\<close>

lemma aggregate_succeeds:
  assumes "0 < total_units" "unat cell_count \<le> 1048576" "checked_product mul" "unat total_units * unat unit_bytes < 2 ^ 64"
    and run: "order_states total_units [] (sort_key (\<lambda>r. (sr_start r, sr_end r, sr_state r)) ranges) = Inr ordered"
  shows "\<exists>j. aggregate_ranges mul total_units cell_count unit_bytes filesystem ranges accuracy details = Inr j"
proof -
  define n where "n = max 1 (min cell_count total_units)"
  have t: "0 < unat total_units" using assms(1) by (simp add: word_less_nat_alt)
  then have n: "0 < n" "unat n \<le> 1048576" "unat n \<le> unat total_units"
    using assms(2) by (auto simp: n_def max_def min_def word_le_nat_alt word_less_nat_alt)
  have ordered: "state_list total_units ordered"
    using order_states_exact [OF run _ sort_key_sr_start] by (simp add: state_list_def)
  let ?f = "tally ordered 0 (unat total_units)"
  have "cell_loop total_units n (word_of_nat 0) (unat n) ordered [0, 0, 0, 0] [] =
      Inr (counted [0, 0, 0, 0] ?f, [] @ map (exact_cell total_units n (tally ordered)) [0..<unat n])"
    by (rule cell_loop_exact [OF n _ ordered]) (simp_all add: cell_edge_def counted_def numeral_eq_Suc)
  then have loop: "cell_loop total_units n 0 (unat n) ordered [0, 0, 0, 0] [] =
      Inr ([word_of_nat (?f 0), word_of_nat (?f 1), word_of_nat (?f 2), word_of_nat (?f 3)],
        map (exact_cell total_units n (tally ordered)) [0..<unat n])"
    by (simp add: counted_def numeral_eq_Suc)
  have total: "?f 0 + ?f 1 + ?f 2 + ?f 3 = unat total_units" using tally_total [of 0 "unat total_units" ordered] states_small [OF ordered] by simp
  have fits: "\<exists>q. multiply_or_throw mul p unit_bytes m = Inr q" if "unat p \<le> unat total_units" for p m
  proof -
    have "unat p * unat unit_bytes < 2 ^ 64" using mult_le_mono1 [OF that, of "unat unit_bytes"] assms(4) by (rule le_less_trans)
    then show ?thesis using multiply_exact [OF assms(3)] by blast
  qed
  have small: "unat (word_of_nat k :: u64) = k" if "k \<le> unat total_units" for k
  proof -
    have "k < 2 ^ 64" using that unat_lt64 [of total_units] by (rule le_less_trans)
    then show ?thesis by (simp add: unsigned_of_nat take_bit_nat_eq_self)
  qed
  have "unat (word_of_nat (?f 2) + word_of_nat (?f 3) :: u64) \<le> unat total_units"
    using small [of "?f 2 + ?f 3"] total by simp
  moreover have "unat (word_of_nat (?f 0) :: u64) \<le> unat total_units" "unat (word_of_nat (?f 1) :: u64) \<le> unat total_units"
    using small [of "?f 0"] small [of "?f 1"] total by simp_all
  moreover have "unat total_units \<le> unat total_units" by simp
  ultimately obtain a b c d where "multiply_or_throw mul total_units unit_bytes ''filesystem capacity'' = Inr a"
    "multiply_or_throw mul (word_of_nat (?f 0)) unit_bytes ''free-space total'' = Inr b"
    "multiply_or_throw mul (word_of_nat (?f 1)) unit_bytes ''used-space total'' = Inr c"
    "multiply_or_throw mul (word_of_nat (?f 2) + word_of_nat (?f 3)) unit_bytes ''unknown-space total'' = Inr d"
    using fits by metis
  then show ?thesis
    using assms(1) run loop by (simp add: aggregate_ranges_def Let_def n_def [symmetric] numeral_eq_Suc)
qed

definition exact_multiply :: checked_multiply where
  "exact_multiply a b = (if unat a * unat b < 2 ^ 64 then Some (a * b) else None)"

theorem aggregate_exact_witness:
  "\<exists>j n. aggregate_ranges exact_multiply 10 3 512 ''ext4'' [\<lparr>sr_start = 5, sr_end = 8, sr_state = 0\<rparr>, \<lparr>sr_start = 0, sr_end = 5, sr_state = 1\<rparr>]
        ''exact'' [] = Inr j \<and> unat n = 3 \<and>
      json_find j ''cells'' = Some (JArray (map (exact_cell 10 n (tally
         [\<lparr>sr_start = 5, sr_end = 8, sr_state = 0\<rparr>, \<lparr>sr_start = 0, sr_end = 5, sr_state = 1\<rparr>])) [0..<3]))"
proof -
  let ?rs = "[\<lparr>sr_start = 5, sr_end = 8, sr_state = 0\<rparr>, \<lparr>sr_start = 0, sr_end = 5, sr_state = 1\<rparr>]"
  have exact: "checked_product exact_multiply" by (simp add: checked_product_def exact_multiply_def)
  have order: "order_states 10 [] (sort_key (\<lambda>r. (sr_start r, sr_end r, sr_state r)) ?rs) =
      Inr [\<lparr>sr_start = 0, sr_end = 5, sr_state = 1\<rparr>, \<lparr>sr_start = 5, sr_end = 8, sr_state = 0\<rparr>]"
    by simp
  have "\<exists>j. aggregate_ranges exact_multiply 10 3 512 ''ext4'' ?rs ''exact'' [] = Inr j"
    by (rule aggregate_succeeds [OF _ _ exact _ order]) simp_all
  then obtain j where j: "aggregate_ranges exact_multiply 10 3 512 ''ext4'' ?rs ''exact'' [] = Inr j" by blast
  then show ?thesis using aggregate_exact [OF j _ exact] by auto
qed


subsection \<open>Laying ranges over the cells\<close>

lemma covered_finite [simp]: "finite (covered rs)"
  by (simp add: covered_def range_units_def)

lemma separated_Cons: "separated (r # rs) \<longleftrightarrow> ur_start r < ur_end r \<and> (\<forall>q \<in> set rs. ur_end r < ur_start q) \<and> separated rs"
  by (auto simp: separated_def)

lemma covered_after: "separated (r # rs) \<Longrightarrow> x \<in> covered rs \<Longrightarrow> unat (ur_end r) < x"
  by (fastforce simp: separated_Cons covered_def range_units_def word_less_nat_alt)

lemma covered_card: "separated rs \<Longrightarrow> foldl (\<lambda>t r. t + (ur_end r - ur_start r)) t rs = t + word_of_nat (card (covered rs))"
proof (induction rs arbitrary: t)
  case (Cons r rs)
  have r: "ur_start r < ur_end r" "separated rs" using Cons.prems by (simp_all add: separated_Cons)
  have "range_units r \<inter> covered rs = {}" using covered_after [OF Cons.prems] by (force simp: range_units_def)
  then have "card (covered (r # rs)) = card (range_units r) + card (covered rs)"
    by (simp add: card_Un_disjoint range_units_def)
  moreover have "word_of_nat (card (range_units r)) = ur_end r - ur_start r"
    using r(1) unat_sub [of "ur_start r" "ur_end r"] by (simp add: range_units_def of_nat_diff word_less_nat_alt)
  ultimately show ?case using Cons.IH [OF r(2)] by (simp add: add.assoc)
qed simp

lemma overlap_units_exact:
  assumes "separated rs" "first < past" "\<forall>r \<in> set rs. first < ur_end r"
  shows "overlap_units first past rs acc = acc + word_of_nat (card (covered rs \<inter> {unat first..<unat past}))"
  using assms(1,3)
proof (induction rs arbitrary: acc)
  case (Cons r rs)
  have r: "ur_start r < ur_end r" "separated rs" "\<forall>q \<in> set rs. ur_end r < ur_start q" using Cons.prems(1) by (simp_all add: separated_Cons)
  show ?case
  proof (cases "ur_start r < past")
    case False
    have "x \<notin> {unat first..<unat past}" if "x \<in> covered (r # rs)" for x
      using that False covered_after [OF Cons.prems(1), of x] r(1)
      by (auto simp: range_units_def word_less_nat_alt)
    then have "covered (r # rs) \<inter> {unat first..<unat past} = {}" by blast
    then show ?thesis using False by (simp only: overlap_units.simps) simp
  next
    case True
    define low where "low = max first (ur_start r)"
    define high where "high = min past (ur_end r)"
    have lh: "low < high" using True r(1) Cons.prems(2) assms(2) by (auto simp: low_def high_def)
    have part: "range_units r \<inter> {unat first..<unat past} = {unat low..<unat high}"
      by (auto simp: range_units_def low_def high_def max_def min_def word_le_nat_alt)
    have "(covered rs \<inter> {unat first..<unat past}) \<inter> {unat low..<unat high} = {}"
      using covered_after [OF Cons.prems(1)] by (force simp: high_def min_def word_le_nat_alt split: if_splits)
    then have "card (covered (r # rs) \<inter> {unat first..<unat past}) =
        (unat high - unat low) + card (covered rs \<inter> {unat first..<unat past})"
      unfolding covered_simps Int_Un_distrib2 part by (subst card_Un_disjoint) auto
    moreover have "word_of_nat (unat high - unat low) = high - low"
      using lh by (simp add: of_nat_diff word_less_nat_alt)
    ultimately have step: "acc + word_of_nat (card (covered (r # rs) \<inter> {unat first..<unat past})) =
        acc + (high - low) + word_of_nat (card (covered rs \<inter> {unat first..<unat past}))" by simp
    show ?thesis
    proof (cases "ur_end r > past")
      case beyond: True
      have "covered rs \<inter> {unat first..<unat past} = {}"
        using covered_after [OF Cons.prems(1)] beyond by (force simp: word_less_nat_alt)
      then show ?thesis using step True beyond by (simp add: low_def high_def)
    next
      case False
      then show ?thesis using step True Cons.IH [OF r(2)] Cons.prems(2) by (simp add: low_def high_def)
    qed
  qed
qed simp

definition cell_first :: "json \<Rightarrow> u64" where
  "cell_first cell = (case required_u64 cell ''start'' of Inr w \<Rightarrow> w | Inl _ \<Rightarrow> 0)"

definition cell_last :: "json \<Rightarrow> u64" where
  "cell_last cell = (case required_u64 cell ''end'' of Inr w \<Rightarrow> w | Inl _ \<Rightarrow> 0)"

definition cell_used :: "json \<Rightarrow> u64" where
  "cell_used cell = (case optional_u64 cell ''used'' 0 of Inr w \<Rightarrow> w | Inl _ \<Rightarrow> 0)"

definition overlaid :: "string \<Rightarrow> nat set \<Rightarrow> json \<Rightarrow> json \<Rightarrow> bool" where
  "overlaid field units cell cell' \<longleftrightarrow>
     json_set cell field (json_unsigned (min (cell_used cell) (word_of_nat (card (units \<inter> {unat (cell_first cell)..unat (cell_last cell)}))))) = Inr cell'"

lemma separated_drop:
  assumes "separated rs"
  shows "separated (dropWhile (\<lambda>r. ur_end r \<le> first) rs) \<and> (\<forall>r \<in> set (dropWhile (\<lambda>r. ur_end r \<le> first) rs). first < ur_end r) \<and>
    (\<forall>x. unat first \<le> x \<longrightarrow> x \<in> covered (dropWhile (\<lambda>r. ur_end r \<le> first) rs) \<longleftrightarrow> x \<in> covered rs)"
  using assms
proof (induction rs)
  case (Cons r rs)
  show ?case
  proof (cases "ur_end r \<le> first")
    case True
    then show ?thesis using Cons by (auto simp: separated_Cons range_units_def word_le_nat_alt)
  next
    case False
    have "first < ur_end q" if "q \<in> set rs" for q
      using that Cons.prems False by (fastforce simp: separated_def list_all_iff)
    then show ?thesis using False Cons.prems by simp
  qed
qed (simp add: separated_def)

lemma overlay_cells_exact:
  assumes "overlay_cells field rs cells = Inr cells'" "separated rs" "sorted (map cell_first cells)"
    "list_all (\<lambda>c. cell_first c \<le> cell_last c \<and> cell_last c < UINT64_MAX) cells"
    "cells \<noteq> [] \<Longrightarrow> \<forall>x. unat (cell_first (hd cells)) \<le> x \<longrightarrow> x \<in> covered rs \<longleftrightarrow> x \<in> units"
  shows "list_all2 (overlaid field units) cells cells'"
  using assms
proof (induction cells arbitrary: rs cells')
  case (Cons cell cells)
  define first where "first = cell_first cell"
  define rest where "rest = dropWhile (\<lambda>r. ur_end r \<le> first) rs"
  obtain first' last_unit used cell' others where run: "required_u64 cell ''start'' = Inr first'" "required_u64 cell ''end'' = Inr last_unit"
    "optional_u64 cell ''used'' 0 = Inr used"
    "json_set cell field (json_unsigned (min used (overlap_units first' (last_unit + 1) (dropWhile (\<lambda>r. ur_end r \<le> first') rs) 0))) = Inr cell'"
    "overlay_cells field (dropWhile (\<lambda>r. ur_end r \<le> first') rs) cells = Inr others" "cells' = cell' # others"
    using Cons.prems(1) by (auto simp: and_then_Inr Let_def)
  have names: "first' = first" "cell_last cell = last_unit" "cell_used cell = used"
    using run(1-3) by (simp_all add: first_def cell_first_def cell_last_def cell_used_def)
  have bounds: "first \<le> last_unit" "last_unit < UINT64_MAX" using Cons.prems(4) names by (simp_all add: first_def)
  have succ: "unat (last_unit + 1) = Suc (unat last_unit)"
    using bounds(2) by (subst unat_add_64) (simp_all add: word_less_nat_alt)
  have rest: "separated rest" "\<forall>r \<in> set rest. first < ur_end r" "\<And>x. unat first \<le> x \<Longrightarrow> x \<in> covered rest \<longleftrightarrow> x \<in> units"
    using separated_drop [OF Cons.prems(2), of first] Cons.prems(5) by (simp_all add: rest_def first_def)
  have "first < last_unit + 1" using bounds(1) succ by (simp add: word_less_nat_alt word_le_nat_alt)
  then have "overlap_units first (last_unit + 1) rest 0 = word_of_nat (card (covered rest \<inter> {unat first..<unat (last_unit + 1)}))"
    using overlap_units_exact [OF rest(1) _ rest(2)] by simp
  moreover have "covered rest \<inter> {unat first..<unat (last_unit + 1)} = units \<inter> {unat first..unat last_unit}"
    using rest(3) succ by auto
  ultimately have "overlaid field units cell cell'"
    using run(4) names unfolding overlaid_def first_def [symmetric] by (simp add: rest_def)
  moreover have "list_all2 (overlaid field units) cells others"
  proof (rule Cons.IH [of rest])
    show "overlay_cells field rest cells = Inr others" using run(5) names by (simp add: rest_def)
    show "cells \<noteq> [] \<Longrightarrow> \<forall>x. unat (cell_first (hd cells)) \<le> x \<longrightarrow> x \<in> covered rest \<longleftrightarrow> x \<in> units"
    proof (intro allI impI)
      fix x
      assume "cells \<noteq> []" "unat (cell_first (hd cells)) \<le> x"
      moreover from this have "first \<le> cell_first (hd cells)" using Cons.prems(3) by (cases cells) (simp_all add: first_def)
      ultimately show "x \<in> covered rest \<longleftrightarrow> x \<in> units" using rest(3) [of x] by (simp add: word_le_nat_alt)
    qed
  qed (use Cons.prems rest(1) in simp_all)
  ultimately show ?case using run(6) by simp
qed simp

text \<open>
  Laying ranges over a map: for cells in ascending order, each cell's field becomes the number of its units that any
  of the given ranges holds, in whatever order and overlap they were given, but at most the units in use there; the value
  returned is the number of all units they hold.
\<close>

theorem overlay_exact:
  assumes "overlay_ranges cells ranges field = Inr (n, cells')" "sorted (map cell_first cells)"
    "list_all (\<lambda>c. cell_first c \<le> cell_last c \<and> cell_last c < UINT64_MAX) cells"
  shows "list_all2 (overlaid field (covered ranges)) cells cells' \<and> n = word_of_nat (card (covered ranges))"
proof -
  have run: "overlay_cells field (merge_ranges ranges) cells = Inr cells'" "n = word_of_nat (card (covered ranges))"
    using assms(1) covered_card [of "merge_ranges ranges" 0] merge_exact [of ranges]
    by (auto simp: overlay_ranges_def Let_def and_then_Inr)
  then show ?thesis
    using overlay_cells_exact [OF run(1) _ assms(2,3), of "covered ranges"] merge_exact [of ranges] by simp
qed


definition demo_cells :: "json list" where
  "demo_cells = [JObject [(''end'', JNumber ''4''), (''start'', JNumber ''0''), (''used'', JNumber ''5'')]]"

lemma demo_cells_read:
  "required_u64 (demo_cells ! 0) ''start'' = Inr 0" "required_u64 (demo_cells ! 0) ''end'' = Inr 4"
  "optional_u64 (demo_cells ! 0) ''used'' 0 = Inr 5"
  by (simp_all add: demo_cells_def required_u64_def optional_u64_def json_at_def json_find_def unsigned_value_def number_text_def
      whole_digits_def is_digit_def nat_of_digits_def of_char_def)

theorem overlay_exact_witness:
  "\<exists>cells'. overlay_ranges demo_cells [\<lparr>ur_start = 2, ur_end = 9\<rparr>, \<lparr>ur_start = 1, ur_end = 3\<rparr>] ''bad'' = Inr (8, cells') \<and>
     list_all2 (overlaid ''bad'' (covered [\<lparr>ur_start = 2, ur_end = 9\<rparr>, \<lparr>ur_start = 1, ur_end = 3\<rparr>])) demo_cells cells'"
proof -
  let ?rs = "[\<lparr>ur_start = 2, ur_end = 9\<rparr>, \<lparr>ur_start = 1, ur_end = 3\<rparr>]"
  have merged: "merge_ranges ?rs = [\<lparr>ur_start = 1, ur_end = 9\<rparr>]" by (simp add: merge_ranges_def merge_step_def word_le_nat_alt max_def)
  have one: "demo_cells = [demo_cells ! 0]" by (simp add: demo_cells_def)
  have "\<exists>c. json_set (demo_cells ! 0) ''bad'' v = Inr c" for v by (simp add: demo_cells_def json_set_def json_object_def)
  then have "\<exists>cells'. overlay_cells ''bad'' [\<lparr>ur_start = 1, ur_end = 9\<rparr>] [demo_cells ! 0] = Inr cells'"
    by (simp add: demo_cells_read and_then_Inr del: One_nat_def)
  then obtain cells' where run: "overlay_ranges demo_cells ?rs ''bad'' = Inr (8, cells')"
    using one by (auto simp: overlay_ranges_def merged)
  moreover have "sorted (map cell_first demo_cells)" "list_all (\<lambda>c. cell_first c \<le> cell_last c \<and> cell_last c < UINT64_MAX) demo_cells"
    using demo_cells_read one by (simp_all add: cell_first_def cell_last_def demo_cells_def)
  ultimately show ?thesis using overlay_exact [OF run] by blast
qed

end
