(* ===== verification/Map_Adapters.thy ===== *)
theory Map_Adapters
  imports Registry Ranges
begin

text \<open>
  The allocation maps of \<open>native/map.cpp\<close>: running a worker and reading its report, the adapter of each file system, the
  checks of maps that a worker builds itself, qualification for mutation, and identification. Running a child process,
  the common library's checked product and the floating-point percentage \<open>100.0 * a / b\<close> are fields of the record
  \<open>map_env\<close>; progress lines for the user are left out. An exception is its message.
\<close>

subsection \<open>Workers\<close>

record CommandResult =
  cr_return_code :: int
  cr_standard_output :: string
  cr_standard_error :: string
  cr_output_truncated :: bool

record map_env =
  me_json :: json_lib
  me_programs :: program_host
  me_run :: "string list \<Rightarrow> u64 \<Rightarrow> u64 \<Rightarrow> CommandResult exc" \<comment> \<open>command, output limit, milliseconds\<close>
  me_multiply :: checked_multiply
  me_percent :: "u64 \<Rightarrow> u64 \<Rightarrow> u64"

definition optional_real :: "json_lib \<Rightarrow> json \<Rightarrow> string \<Rightarrow> u64 \<Rightarrow> u64 exc" where
  "optional_real J j key fallback = (case json_find j key of None \<Rightarrow> Inr fallback | Some v \<Rightarrow> real_value J v)"

definition optional_bool :: "json \<Rightarrow> string \<Rightarrow> bool \<Rightarrow> bool exc" where
  "optional_bool j key fallback = (case json_find j key of None \<Rightarrow> Inr fallback | Some v \<Rightarrow> json_boolean v)"

definition optional_string :: "json \<Rightarrow> string \<Rightarrow> string \<Rightarrow> string exc" where
  "optional_string j key fallback = (case json_find j key of None \<Rightarrow> Inr fallback | Some v \<Rightarrow> json_string v)"

definition child_text :: "CommandResult \<Rightarrow> string" where
  "child_text r = (if cr_standard_error r \<noteq> [] then cr_standard_error r else cr_standard_output r)"

definition parse_worker_json :: "json_lib \<Rightarrow> CommandResult \<Rightarrow> string \<Rightarrow> json exc" where
  "parse_worker_json J r action =
     (if cr_return_code r \<noteq> 0
      then let detail = child_text r in Inl (action @ '' failed'' @ (if detail = [] then [] else '': '' @ detail))
      else and_then (json_parse J (cr_standard_output r)) (\<lambda>parsed.
           and_then (demand (is_object parsed) (action @ '' returned a non-object JSON value'')) (\<lambda>_. Inr parsed)))"

abbreviation (input) newline :: char where "newline \<equiv> CHR 0x0A"

function strip_progress :: "string \<Rightarrow> string" where
  "strip_progress s =
     (if s = [] then []
      else let line = takeWhile (\<lambda>c. c \<noteq> newline) s; rest = drop (length line) s
           in (if starts_with s ''@@ANALYSIS '' then [] else line @ take 1 rest) @ strip_progress (drop 1 rest))"
  by pat_completeness auto
termination
proof (relation "measure length")
  fix s line rest :: string
  assume "s \<noteq> []" "line = takeWhile (\<lambda>c. c \<noteq> newline) s" "rest = drop (length line) s"
  then show "(drop 1 rest, s) \<in> measure length" by (cases "s = [] \<or> hd s = newline") (auto simp: neq_Nil_conv)
qed simp

declare strip_progress.simps [simp del]

definition worker_program :: "map_env \<Rightarrow> string \<Rightarrow> string \<Rightarrow> path \<Rightarrow> string list \<Rightarrow> u64 \<Rightarrow> u64 \<Rightarrow> CommandResult exc" where
  "worker_program E program_id mode p options output_limit timeout =
     and_then (resolve_program (me_programs E) program_id True) (\<lambda>prog.
     and_then (me_run E (prog # mode # p # options) output_limit timeout) (\<lambda>r.
       Inr (r\<lparr>cr_standard_error := strip_progress (cr_standard_error r)\<rparr>)))"

definition default_limit :: u64 where "default_limit = 64 * 1024 * 1024"

definition worker :: "map_env \<Rightarrow> BackendInfo \<Rightarrow> string \<Rightarrow> path \<Rightarrow> string list \<Rightarrow> u64 \<Rightarrow> u64 \<Rightarrow> CommandResult exc" where
  "worker E b mode p options output_limit timeout = worker_program E (bi_worker b) mode p options output_limit timeout"

record MutationQualification =
  mq_qualified :: bool
  mq_reason :: string

definition trim_lines :: "string \<Rightarrow> string" where
  "trim_lines s = rev (dropWhile (\<lambda>c. c = newline \<or> c = CHR 0x0D) (rev s))"

definition bounded_text :: "string \<Rightarrow> string" where
  "bounded_text s = (if length s > 2048 then take 2048 s @ ''...'' else s)"

definition concise_child_detail :: "CommandResult \<Rightarrow> string" where
  "concise_child_detail r = bounded_text (trim_lines (child_text r))"

definition mutation_qualification :: "map_env \<Rightarrow> BackendInfo \<Rightarrow> path \<Rightarrow> string \<Rightarrow> MutationQualification" where
  "mutation_qualification E b p mode =
     (case worker E b mode p [] (2 * 1024 * 1024) 60000 of
        Inl e \<Rightarrow> \<lparr>mq_qualified = False, mq_reason = e\<rparr>
      | Inr r \<Rightarrow>
          if cr_return_code r = 0 then \<lparr>mq_qualified = True, mq_reason = []\<rparr>
          else let detail = concise_child_detail r
               in \<lparr>mq_qualified = False,
                   mq_reason = (if detail = [] then ''The native writer rejected this on-disk layout.'' else detail)\<rparr>)"

definition map_capture_limit :: "u64 \<Rightarrow> u64 exc" where
  "map_capture_limit cells =
     (if cells = 0 \<or> cells > 1048576 then Inl ''map-cell count is outside the supported range''
      else Inr (64 * 1024 * 1024 + cells * 256))"

subsection \<open>Reading a report\<close>

fun pair_list :: "string \<Rightarrow> u64 \<Rightarrow> json list \<Rightarrow> UnitRange list exc" where
  "pair_list key total_units [] = Inr []"
| "pair_list key total_units (v # vs) =
     (case v of
        JArray [a, b] \<Rightarrow>
          and_then (unsigned_value a) (\<lambda>first.
          and_then (unsigned_value b) (\<lambda>past.
          and_then (demand (\<not> (past \<le> first \<or> past > total_units)) (''native analyser returned out-of-range '' @ key)) (\<lambda>_.
          and_then (pair_list key total_units vs) (\<lambda>rs. Inr (\<lparr>ur_start = first, ur_end = past\<rparr> # rs)))))
      | _ \<Rightarrow> Inl (''native analyser returned malformed '' @ key))"

definition pair_ranges :: "json \<Rightarrow> string \<Rightarrow> u64 \<Rightarrow> bool \<Rightarrow> UnitRange list exc" where
  "pair_ranges payload key total_units required =
     (case json_find payload key of
        None \<Rightarrow> if required then Inl (''native analyser omitted '' @ key) else Inr []
      | Some (JArray vs) \<Rightarrow> pair_list key total_units vs
      | Some _ \<Rightarrow> Inl (''native analyser returned invalid '' @ key))"

definition copy_member :: "json \<Rightarrow> (string \<times> json) list \<Rightarrow> string \<Rightarrow> (string \<times> json) list" where
  "copy_member payload details key =
     (case json_find payload key of
        None \<Rightarrow> details
      | Some v \<Rightarrow> if map_of details key = None then object_set key v details else details)"

definition selected_details :: "json \<Rightarrow> string list \<Rightarrow> (string \<times> json) list" where
  "selected_details payload keys = foldl (copy_member payload) [] keys"

fun set_counts :: "json \<Rightarrow> string list \<Rightarrow> json \<Rightarrow> json exc" where
  "set_counts payload [] result = Inr result"
| "set_counts payload (key # keys) result =
     and_then (optional_u64 payload key 0) (\<lambda>n.
     and_then (json_set result key (json_unsigned n)) (set_counts payload keys))"

definition add_fragmentation_summary :: "map_env \<Rightarrow> json \<Rightarrow> json \<Rightarrow> bool \<Rightarrow> json exc" where
  "add_fragmentation_summary E result payload copy_percentage =
     and_then (set_counts payload [''regular_files'', ''directories'', ''fragmented_files'', ''fragmented_directories''] result) (\<lambda>result.
       if copy_percentage \<and> json_find payload ''fragmentation_percent'' \<noteq> None
       then and_then (optional_real (me_json E) payload ''fragmentation_percent'' 0) (\<lambda>d.
            and_then (json_real (me_json E) d) (json_set result ''fragmentation_percent''))
       else Inr result)"

definition overlay_member :: "json \<Rightarrow> UnitRange list \<Rightarrow> string \<Rightarrow> (u64 \<times> json) exc" where
  "overlay_member result ranges field =
     and_then (json_at result ''cells'') (\<lambda>c.
     and_then (json_array c) (\<lambda>cells.
     and_then (overlay_ranges cells ranges field) (\<lambda>(n, cells').
     and_then (json_set result ''cells'' (JArray cells')) (\<lambda>result'. Inr (n, result')))))"

definition set_detail :: "json \<Rightarrow> string \<Rightarrow> json \<Rightarrow> json exc" where
  "set_detail result key v =
     and_then (json_at result ''details'') (\<lambda>details.
     and_then (json_set details key v) (json_set result ''details''))"

definition overlay_fragmentation :: "json \<Rightarrow> json \<Rightarrow> u64 \<Rightarrow> string \<Rightarrow> json exc" where
  "overlay_fragmentation result payload total_units units_name =
     and_then (pair_ranges payload ''fragmented_ranges'' total_units False) (\<lambda>fragmented.
     and_then (pair_ranges payload ''directory_ranges'' total_units False) (\<lambda>directories.
     and_then (overlay_member result fragmented ''fragmented'') (\<lambda>(fragmented_units, result).
     and_then (overlay_member result directories ''directory'') (\<lambda>(directory_units, result).
     and_then (if json_find result ''details'' = None then json_set result ''details'' (JObject []) else Inr result) (\<lambda>result.
     and_then (set_detail result (''fragmented_'' @ units_name @ ''_mapped'') (json_unsigned fragmented_units)) (\<lambda>result.
       set_detail result (''directory_'' @ units_name @ ''_mapped'') (json_unsigned directory_units)))))))"

definition free_used_states :: "u64 \<Rightarrow> UnitRange list \<Rightarrow> StateRange list" where
  "free_used_states total_units free =
     map (\<lambda>r. \<lparr>sr_start = ur_start r, sr_end = ur_end r, sr_state = 0\<rparr>) free @
     map (\<lambda>r. \<lparr>sr_start = ur_start r, sr_end = ur_end r, sr_state = 1\<rparr>) (complement_ranges total_units free)"

definition generic_free_range_map ::
  "map_env \<Rightarrow> BackendInfo \<Rightarrow> json \<Rightarrow> u64 \<Rightarrow> u64 \<Rightarrow> u64 \<Rightarrow> string \<Rightarrow> (string \<times> json) list \<Rightarrow> bool \<Rightarrow> string \<Rightarrow> json exc" where
  "generic_free_range_map E b payload cells total_units unit_bytes filesystem details copy_percentage unit_name =
     and_then (pair_ranges payload ''free_ranges'' total_units True) (\<lambda>free.
     and_then (aggregate_ranges (me_multiply E) total_units cells unit_bytes filesystem (free_used_states total_units free)
                 (bi_map_accuracy b) details) (\<lambda>result.
     and_then (add_fragmentation_summary E result payload copy_percentage) (\<lambda>result.
       overlay_fragmentation result payload total_units unit_name)))"


subsection \<open>Adapters\<close>

abbreviation (input) put :: "string \<Rightarrow> json \<Rightarrow> (string \<times> json) list \<Rightarrow> (string \<times> json) list" where
  "put key v \<equiv> object_set key v"

definition analyse :: "map_env \<Rightarrow> BackendInfo \<Rightarrow> path \<Rightarrow> string list \<Rightarrow> string \<Rightarrow> json exc" where
  "analyse E b p options action =
     and_then (worker E b ''analyse-json'' p options default_limit 0) (\<lambda>r. parse_worker_json (me_json E) r action)"

definition identity :: "json \<Rightarrow> string exc" where
  "identity payload = and_then (json_at payload ''filesystem'') json_string"

definition member_or :: "json \<Rightarrow> string \<Rightarrow> (json \<Rightarrow> 'a exc) \<Rightarrow> 'a \<Rightarrow> 'a exc" where
  "member_or payload key read fallback = (case json_find payload key of None \<Rightarrow> Inr fallback | Some v \<Rightarrow> read v)"

definition copy_if_present :: "json \<Rightarrow> string \<Rightarrow> json \<Rightarrow> json exc" where
  "copy_if_present payload key result =
     (case json_find payload key of None \<Rightarrow> Inr result | Some v \<Rightarrow> json_set result key v)"

definition map_affs :: "map_env \<Rightarrow> BackendInfo \<Rightarrow> path \<Rightarrow> u64 \<Rightarrow> json exc" where
  "map_affs E b p cells =
     and_then (analyse E b p [] ''native Amiga analyser'') (\<lambda>payload.
     and_then (identity payload) (\<lambda>name.
     and_then (demand (name = ''affs'') ''native Amiga analyser returned wrong identity'') (\<lambda>_.
     and_then (required_u64 payload ''total_blocks'') (\<lambda>total_units.
     and_then (required_u64 payload ''block_size'') (\<lambda>unit_bytes.
     and_then (member_or payload ''dostype'' unsigned_value 0) (\<lambda>dostype.
     and_then (member_or payload ''variant'' json_string ''Amiga DOS'') (\<lambda>variant.
       generic_free_range_map E b payload cells total_units unit_bytes ''affs''
         (put ''fragmentation_basis'' (JString ''first-party native C OFS/FFS block catalogue'')
           (put ''fragmentation_available'' (JBool True)
             (put ''variant'' (JString variant)
               (put ''dostype'' (JString (''DOS'' @ CHR 0x5C # show_u64 dostype))
                 (put ''block_size'' (json_unsigned unit_bytes) [])))))
         False ''blocks'')))))))"

definition map_exfat :: "map_env \<Rightarrow> BackendInfo \<Rightarrow> path \<Rightarrow> u64 \<Rightarrow> json exc" where
  "map_exfat E b p cells =
     and_then (analyse E b p [] ''native exFAT analyser'') (\<lambda>payload.
     and_then (identity payload) (\<lambda>name.
     and_then (demand (name = ''exfat'') ''native exFAT analyser returned wrong identity'') (\<lambda>_.
     and_then (required_u64 payload ''cluster_size'') (\<lambda>unit_bytes.
     and_then (required_u64 payload ''total_clusters'') (\<lambda>total_units.
     and_then (generic_free_range_map E b payload cells total_units unit_bytes ''exfat''
         (put ''fragmentation_basis'' (JString ''native C exFAT FAT/bitmap/directory catalogue'')
           (put ''fragmentation_available'' (JBool True) (selected_details payload [''cluster_size'', ''serial''])))
         True ''clusters'')
       (copy_if_present payload ''growth_10_satisfied''))))))"

definition ext_details :: "json \<Rightarrow> (string \<times> json) list" where
  "ext_details payload =
     (let details = put ''metadata_basis'' (JString ''native C EXT block-group and reserved-inode classifier'')
                      (put ''fragmentation_basis'' (JString ''native C EXT inode allocation scanner'')
                        (put ''fragmentation_available'' (JBool True) []));
          details = foldl (\<lambda>d key. case json_find payload key of Some v \<Rightarrow> put key v d | None \<Rightarrow> d) details
                      [''inodes_scanned'', ''malformed_inodes'']
      in case json_find payload ''growth_10_satisfied'' of Some v \<Rightarrow> put ''growth_10_satisfied'' v details | None \<Rightarrow> details)"

definition map_ext :: "map_env \<Rightarrow> BackendInfo \<Rightarrow> path \<Rightarrow> u64 \<Rightarrow> json exc" where
  "map_ext E b p cells =
     and_then (analyse E b p [] ''native EXT analyser'') (\<lambda>payload.
     and_then (identity payload) (\<lambda>filesystem.
     and_then (demand (filesystem \<in> {''ext2'', ''ext3'', ''ext4''}) ''native EXT analyser returned wrong identity'') (\<lambda>_.
     and_then (required_u64 payload ''block_size'') (\<lambda>unit_bytes.
     and_then (required_u64 payload ''total_blocks'') (\<lambda>total_units.
     and_then (demand (bi_map_auxiliary_worker b \<noteq> []) ''EXT backend omitted its metadata worker'') (\<lambda>_.
     and_then (worker_program E (bi_map_auxiliary_worker b) ''analyse-json'' p [] default_limit 0) (\<lambda>r.
     and_then (parse_worker_json (me_json E) r ''native EXT metadata classifier'') (\<lambda>metadata.
     and_then (required_u64 metadata ''block_size'') (\<lambda>metadata_bytes.
     and_then (if metadata_bytes \<noteq> unit_bytes then Inr False
               else and_then (required_u64 metadata ''total_blocks'') (\<lambda>n. Inr (n = total_units))) (\<lambda>matches.
     and_then (demand matches ''native EXT metadata classifier returned mismatched geometry'') (\<lambda>_.
     and_then (generic_free_range_map E b payload cells total_units unit_bytes filesystem (ext_details payload) False ''blocks'') (\<lambda>result.
     and_then (case json_find payload ''analysis_warning'' of
                 None \<Rightarrow> Inr result
               | Some w \<Rightarrow> and_then (demand (is_string w) ''EXT analysis warning is not text'') (\<lambda>_. json_set result ''analysis_warning'' w)) (\<lambda>result.
     and_then (pair_ranges metadata ''metadata_ranges'' total_units True) (\<lambda>metadata_ranges.
     and_then (overlay_member result metadata_ranges ''bad'') (\<lambda>(metadata_units, result).
     and_then (set_detail result ''metadata_blocks_mapped'' (json_unsigned metadata_units)) (\<lambda>result.
     and_then (member_or payload ''regular_files'' unsigned_value 0) (\<lambda>regular.
     and_then (member_or payload ''fragmented_files'' unsigned_value 0) (\<lambda>fragmented.
     and_then (json_real (me_json E) (me_percent E fragmented (max 1 regular))) (json_set result ''fragmentation_percent'')))))))))))))))))))"

definition map_hfsplus :: "map_env \<Rightarrow> BackendInfo \<Rightarrow> path \<Rightarrow> u64 \<Rightarrow> json exc" where
  "map_hfsplus E b p cells =
     and_then (analyse E b p [] ''native HFS+ analyser'') (\<lambda>payload.
     and_then (identity payload) (\<lambda>name.
     and_then (demand (name = ''hfsplus'') ''native HFS+ analyser returned wrong identity'') (\<lambda>_.
     and_then (required_u64 payload ''total_blocks'') (\<lambda>total_units.
     and_then (required_u64 payload ''block_size'') (\<lambda>unit_bytes.
     and_then (member_or payload ''variant'' json_string ''HFS+'') (\<lambda>variant.
     and_then (member_or payload ''journaled'' json_boolean False) (\<lambda>journaled.
     and_then (member_or payload ''signature'' json_string []) (\<lambda>signature.
     and_then (generic_free_range_map E b payload cells total_units unit_bytes (if signature = ''HX'' then ''hfsx'' else ''hfsplus'')
         (put ''fragmentation_basis'' (JString ''first-party native C HFS+/HFSX catalog and allocation-file scan'')
           (put ''fragmentation_available'' (JBool True)
             (put ''journaled'' (JBool journaled)
               (put ''variant'' (JString variant) (put ''block_size'' (json_unsigned unit_bytes) [])))))
         False ''blocks'') (\<lambda>result.
       case json_find payload ''free_blocks'' of None \<Rightarrow> Inr result | Some v \<Rightarrow> set_detail result ''header_free_blocks'' v)))))))))"

fun copy_reasons :: "json \<Rightarrow> string list \<Rightarrow> json \<Rightarrow> json exc" where
  "copy_reasons payload [] result = Inr result"
| "copy_reasons payload (key # keys) result =
     and_then (case json_find payload key of
                 None \<Rightarrow> Inr result
               | Some v \<Rightarrow> and_then (demand (is_string v) ''NTFS qualification reason is not text'') (\<lambda>_. json_set result key v))
       (copy_reasons payload keys)"

definition map_ntfs :: "map_env \<Rightarrow> BackendInfo \<Rightarrow> path \<Rightarrow> u64 \<Rightarrow> json exc" where
  "map_ntfs E b p cells =
     and_then (analyse E b p [''--qualify''] ''native NTFS analyser'') (\<lambda>payload.
     and_then (identity payload) (\<lambda>name.
     and_then (demand (name = ''ntfs'') ''native NTFS analyser returned wrong identity'') (\<lambda>_.
     and_then (required_u64 payload ''cluster_size'') (\<lambda>unit_bytes.
     and_then (required_u64 payload ''total_clusters'') (\<lambda>total_units.
     and_then (generic_free_range_map E b payload cells total_units unit_bytes ''ntfs''
         (put ''fragmentation_basis'' (JString ''native C NTFS MFT and mapping-pairs catalogue'')
           (put ''fragmentation_available'' (JBool True)
             (selected_details payload
               [''cluster_size'', ''serial'', ''mft_records_scanned'', ''mft_malformed_records'', ''hibernation_active''])))
         True ''clusters'') (\<lambda>result.
     and_then (copy_if_present payload ''growth_10_satisfied'' result) (\<lambda>result.
     and_then (case (json_find payload ''defrag_qualified'', json_find payload ''growth_qualified'') of
                 (None, None) \<Rightarrow> Inr result
               | (Some d, Some g) \<Rightarrow>
                   and_then (demand (is_bool d \<and> is_bool g) ''NTFS qualification is not boolean'') (\<lambda>_.
                   and_then (json_set result ''defrag_qualified'' d) (\<lambda>result. json_set result ''growth_qualified'' g))
               | _ \<Rightarrow> Inl ''NTFS analyser returned incomplete qualification'')
       (copy_reasons payload [''defrag_reason'', ''growth_reason'']))))))))"

definition rename_detail :: "string \<Rightarrow> string \<Rightarrow> (string \<times> json) list \<Rightarrow> (string \<times> json) list" where
  "rename_detail old_key new_key details =
     (case map_of details old_key of
        None \<Rightarrow> details
      | Some v \<Rightarrow> filter (\<lambda>m. fst m \<noteq> old_key) (put new_key v details))"

definition map_xfs :: "map_env \<Rightarrow> BackendInfo \<Rightarrow> path \<Rightarrow> u64 \<Rightarrow> json exc" where
  "map_xfs E b p cells =
     and_then (analyse E b p [] ''native XFS analyser'') (\<lambda>payload.
     and_then (identity payload) (\<lambda>name.
     and_then (demand (name = ''xfs'') ''native XFS analyser returned wrong identity'') (\<lambda>_.
     and_then (required_u64 payload ''block_size'') (\<lambda>unit_bytes.
     and_then (required_u64 payload ''dblocks'') (\<lambda>total_units.
       generic_free_range_map E b payload cells total_units unit_bytes ''xfs''
         (put ''fragmentation_basis'' (JString ''native C XFS inode B+tree and data-fork extent scanner'')
           (put ''fragmentation_available'' (JBool True)
             (put ''free_space_basis'' (JString ''XFS per-allocation-group block-number free-space B+trees'')
               (rename_detail ''realtime_inodes'' ''realtime_inodes_not_mapped''
                 (rename_detail ''fdblocks'' ''superblock_free_blocks''
                   (rename_detail ''agblocks'' ''allocation_group_blocks''
                     (selected_details payload
                       [''block_size'', ''sector_size'', ''inode_size'', ''agblocks'', ''allocation_groups'', ''bnobt_blocks'', ''fdblocks'',
                        ''inodes_scanned'', ''malformed_inodes'', ''realtime_inodes'', ''inobt_blocks'', ''bmap_blocks'']))))))
         ) True ''blocks'')))))"

fun set_members :: "(string \<times> json) list \<Rightarrow> json \<Rightarrow> json exc" where
  "set_members [] payload = Inr payload"
| "set_members ((key, v) # kvs) payload = and_then (json_set payload key v) (set_members kvs)"

record fat_totals =
  ft_expected :: u64
  ft_free :: u64
  ft_used :: u64

definition fat_cell :: "u64 \<Rightarrow> fat_totals \<Rightarrow> json \<Rightarrow> fat_totals exc" where
  "fat_cell clusters t cell =
     and_then (demand (is_object cell) ''native FAT mapper returned malformed allocation cell'') (\<lambda>_.
     and_then (required_u64 cell ''start'') (\<lambda>first.
     and_then (required_u64 cell ''end'') (\<lambda>last_unit.
     and_then (required_u64 cell ''free'') (\<lambda>free.
     and_then (required_u64 cell ''used'') (\<lambda>used.
     and_then (required_u64 cell ''fragmented'') (\<lambda>fragmented.
     and_then (required_u64 cell ''directory'') (\<lambda>directory.
     and_then (required_u64 cell ''bad'') (\<lambda>bad.
     and_then (demand (\<not> (first \<noteq> ft_expected t \<or> last_unit < first \<or> last_unit \<ge> clusters + 2))
         ''native FAT mapper returned discontinuous allocation cells'') (\<lambda>_.
       let span = last_unit - first + 1
       in and_then (demand (\<not> (free > span \<or> used > span \<or> free + used \<noteq> span \<or> fragmented > used \<or> directory > used \<or> bad > used))
              ''native FAT mapper returned inconsistent allocation counts'') (\<lambda>_.
          Inr \<lparr>ft_expected = last_unit + 1, ft_free = ft_free t + free, ft_used = ft_used t + used\<rparr>))))))))))"

fun fat_cells :: "u64 \<Rightarrow> fat_totals \<Rightarrow> json list \<Rightarrow> fat_totals exc" where
  "fat_cells clusters t [] = Inr t"
| "fat_cells clusters t (cell # cells) = and_then (fat_cell clusters t cell) (\<lambda>t'. fat_cells clusters t' cells)"

record fat_geometry =
  fg_sector_bytes :: u64
  fg_cluster_sectors :: u64
  fg_cluster_bytes :: u64
  fg_sectors :: u64
  fg_data_start :: u64
  fg_clusters :: u64
  fg_free :: u64
  fg_trailing :: u64

definition read_fat_geometry :: "map_env \<Rightarrow> json \<Rightarrow> (fat_geometry \<times> json list) exc" where
  "read_fat_geometry E payload =
     and_then (required_u64 payload ''bytes_per_sector'') (\<lambda>sector_bytes.
     and_then (required_u64 payload ''sectors_per_cluster'') (\<lambda>cluster_sectors.
     and_then (required_u64 payload ''cluster_size'') (\<lambda>cluster_bytes.
     and_then (required_u64 payload ''total_sectors'') (\<lambda>sectors.
     and_then (required_u64 payload ''data_start_sector'') (\<lambda>data_start.
     and_then (required_u64 payload ''data_clusters'') (\<lambda>clusters.
     and_then (required_u64 payload ''free_clusters'') (\<lambda>declared_free.
     and_then (required_u64 payload ''cell_count'') (\<lambda>cell_count.
       let raw_cells = json_find payload ''cells'';
           invalid = ''native FAT mapper returned invalid map geometry''
       in
       and_then (demand (\<not> (sector_bytes = 0 \<or> cluster_sectors = 0 \<or> cluster_bytes = 0 \<or> sectors = 0 \<or> clusters = 0 \<or>
                              declared_free > clusters)) invalid) (\<lambda>_.
       and_then (multiply_or_throw (me_multiply E) sector_bytes cluster_sectors ''FAT cluster geometry'') (\<lambda>product.
       and_then (demand (product = cluster_bytes \<and> cell_count \<noteq> 0) invalid) (\<lambda>_.
       and_then (case raw_cells of Some (JArray vs) \<Rightarrow> Inr vs | _ \<Rightarrow> Inl invalid) (\<lambda>cells.
       and_then (demand (cell_count = word_of_nat (length cells) \<and> \<not> clusters > - 1 - 2) invalid) (\<lambda>_.
       and_then (multiply_or_throw (me_multiply E) clusters cluster_sectors ''FAT data sectors'') (\<lambda>data_sectors.
       and_then (demand (\<not> (data_start > sectors \<or> data_sectors > sectors - data_start))
           ''native FAT mapper returned invalid physical sector geometry'') (\<lambda>_.
         Inr (\<lparr>fg_sector_bytes = sector_bytes, fg_cluster_sectors = cluster_sectors, fg_cluster_bytes = cluster_bytes,
                fg_sectors = sectors, fg_data_start = data_start, fg_clusters = clusters, fg_free = declared_free,
                fg_trailing = sectors - data_start - data_sectors\<rparr>, cells))))))))))))))))"

definition fat_common :: "map_env \<Rightarrow> BackendInfo \<Rightarrow> fat_geometry \<Rightarrow> json \<Rightarrow> json exc" where
  "fat_common E b g payload =
     and_then (set_members
       [(''schema'', json_unsigned 1), (''backend'', JString ''read-only-domain''), (''map_accuracy'', JString (bi_map_accuracy b)),
        (''unit_size'', json_unsigned (fg_cluster_bytes g)), (''total_units'', json_unsigned (fg_clusters g)),
        (''display_unit_size'', json_unsigned (fg_sector_bytes g)),
        (''display_units_per_allocation_unit'', json_unsigned (fg_cluster_sectors g)),
        (''display_prefix_units'', json_unsigned (fg_data_start g)), (''display_suffix_units'', json_unsigned (fg_trailing g)),
        (''display_total_units'', json_unsigned (fg_sectors g)), (''display_unit_name'', JString ''sectors'')] payload) (\<lambda>payload.
     and_then (multiply_or_throw (me_multiply E) (fg_clusters g) (fg_cluster_bytes g) ''FAT capacity'') (\<lambda>capacity.
     and_then (multiply_or_throw (me_multiply E) (fg_free g) (fg_cluster_bytes g) ''FAT free space'') (\<lambda>free_bytes.
     and_then (multiply_or_throw (me_multiply E) (fg_clusters g - fg_free g) (fg_cluster_bytes g) ''FAT used space'') (\<lambda>used_bytes.
     and_then (multiply_or_throw (me_multiply E) (fg_clusters g) (fg_cluster_bytes g) ''FAT filesystem size'') (\<lambda>filesystem_bytes.
     and_then (set_members
       [(''total_bytes'', json_unsigned capacity), (''free_bytes'', json_unsigned free_bytes), (''used_bytes'', json_unsigned used_bytes),
        (''unknown_bytes'', json_unsigned 0), (''outside_bytes'', json_unsigned 0),
        (''filesystem_bytes'', json_unsigned filesystem_bytes)] payload) (\<lambda>payload.
     and_then (optional_u64 payload ''regular_files'' 0) (\<lambda>regular.
     and_then (optional_u64 payload ''fragmented_files'' 0) (\<lambda>fragmented.
     and_then (json_real (me_json E) (if regular = 0 then 0 else me_percent E fragmented regular)) (\<lambda>percent.
     and_then (json_set payload ''fragmentation_percent'' percent) (\<lambda>payload.
       json_set payload ''details''
         (JObject (insert_members []
            [(''bytes_per_sector'', json_unsigned (fg_sector_bytes g)), (''sectors_per_cluster'', json_unsigned (fg_cluster_sectors g)),
             (''cluster_size'', json_unsigned (fg_cluster_bytes g)), (''total_sectors'', json_unsigned (fg_sectors g)),
             (''data_start_sector'', json_unsigned (fg_data_start g)), (''data_clusters'', json_unsigned (fg_clusters g)),
             (''free_clusters'', json_unsigned (fg_free g)), (''fragmentation_available'', JBool True),
             (''fragmentation_basis'', JString ''native C FAT directory catalogue and cluster-chain scan'')]))))))))))))"

definition same_filesystem :: "BackendInfo \<Rightarrow> string \<Rightarrow> bool" where
  "same_filesystem b name \<longleftrightarrow> (case backend_by_fstype name of None \<Rightarrow> False | Some resolved \<Rightarrow> bi_id resolved = bi_id b)"

definition map_arguments :: "u64 \<Rightarrow> string list" where
  "map_arguments cells = [''--cells'', show_u64 (max 1 cells)]"

definition map_fat :: "map_env \<Rightarrow> BackendInfo \<Rightarrow> path \<Rightarrow> u64 \<Rightarrow> json exc" where
  "map_fat E b p cells =
     and_then (map_capture_limit cells) (\<lambda>limit.
     and_then (worker E b ''map'' p (map_arguments cells) limit 0) (\<lambda>r.
     and_then (parse_worker_json (me_json E) r ''native FAT mapper'') (\<lambda>payload.
     and_then (case json_find payload ''filesystem'' of Some (JString name) \<Rightarrow> Inr name
               | _ \<Rightarrow> Inl ''native FAT mapper omitted filesystem identity'') (\<lambda>name.
     and_then (demand (same_filesystem b name) ''native FAT mapper returned wrong filesystem identity'') (\<lambda>_.
     and_then (read_fat_geometry E payload) (\<lambda>(g, raw_cells).
     and_then (fat_cells (fg_clusters g) \<lparr>ft_expected = 2, ft_free = 0, ft_used = 0\<rparr> raw_cells) (\<lambda>t.
     and_then (demand (\<not> (ft_expected t \<noteq> fg_clusters g + 2 \<or> ft_free t \<noteq> fg_free g \<or> ft_used t \<noteq> fg_clusters g - fg_free g))
         ''native FAT mapper totals do not match filesystem geometry'') (\<lambda>_.
       fat_common E b g payload))))))))"


subsection \<open>Maps a worker builds\<close>

definition native_cell :: "u64 \<Rightarrow> u64 \<Rightarrow> json \<Rightarrow> u64 exc" where
  "native_cell total_units expected cell =
     and_then (demand (is_object cell) ''native filesystem mapper returned malformed allocation cell'') (\<lambda>_.
     and_then (required_u64 cell ''start'') (\<lambda>first.
     and_then (required_u64 cell ''end'') (\<lambda>last_unit.
     and_then (demand (\<not> (first \<noteq> expected \<or> last_unit < first \<or> last_unit \<ge> total_units))
         ''native filesystem mapper returned discontinuous allocation cells'') (\<lambda>_.
       let span = last_unit - first + 1
       in
       and_then (required_u64 cell ''free'') (\<lambda>free.
       and_then (required_u64 cell ''used'') (\<lambda>used.
       and_then (optional_u64 cell ''unknown'' 0) (\<lambda>unknown.
       and_then (optional_u64 cell ''outside'' 0) (\<lambda>outside.
       and_then (optional_u64 cell ''bad'' 0) (\<lambda>bad.
       and_then (optional_u64 cell ''fragmented'' 0) (\<lambda>fragmented.
       and_then (optional_u64 cell ''directory'' 0) (\<lambda>directory.
       and_then (demand (\<not> (free > span \<or> used > span \<or> unknown > span \<or> outside > span \<or> bad > span \<or>
                              fragmented > used \<or> directory > used \<or>
                              free > - 1 - used \<or> free + used > - 1 - unknown \<or> free + used + unknown > - 1 - outside \<or>
                              free + used + unknown + outside > - 1 - bad \<or>
                              free + used + unknown + outside + bad \<noteq> span))
           ''native filesystem mapper returned inconsistent allocation counts'') (\<lambda>_.
         Inr (last_unit + 1)))))))))))))"

fun native_cells :: "u64 \<Rightarrow> u64 \<Rightarrow> json list \<Rightarrow> u64 exc" where
  "native_cells total_units expected [] = Inr expected"
| "native_cells total_units expected (cell # cells) =
     and_then (native_cell total_units expected cell) (\<lambda>expected'. native_cells total_units expected' cells)"

definition validate_native_map :: "BackendInfo \<Rightarrow> json \<Rightarrow> unit exc" where
  "validate_native_map b payload =
     and_then (case json_find payload ''schema'' of None \<Rightarrow> Inr False | Some v \<Rightarrow> and_then (unsigned_value v) (\<lambda>n. Inr (n = 1))) (\<lambda>ok.
     and_then (demand ok ''native filesystem mapper returned incompatible map schema'') (\<lambda>_.
     and_then (demand (json_find payload ''backend'' = Some (JString ''read-only-domain''))
         ''native filesystem mapper returned wrong backend domain'') (\<lambda>_.
     and_then (case json_find payload ''filesystem'' of Some (JString name) \<Rightarrow> Inr name
               | _ \<Rightarrow> Inl ''native filesystem mapper omitted filesystem identity'') (\<lambda>name.
     and_then (demand (same_filesystem b name) ''native filesystem mapper returned wrong filesystem identity'') (\<lambda>_.
     and_then (demand (case json_find payload ''map_accuracy'' of Some (JString t) \<Rightarrow> backend_accepts_map_accuracy b t | _ \<Rightarrow> False)
         ''native filesystem mapper returned unexpected accuracy contract'') (\<lambda>_.
     and_then (case json_find payload ''cells'' of Some (JArray vs) \<Rightarrow> Inr vs
               | _ \<Rightarrow> Inl ''native filesystem mapper omitted allocation cells'') (\<lambda>raw_cells.
     and_then (required_u64 payload ''unit_size'') (\<lambda>unit_bytes.
     and_then (required_u64 payload ''total_units'') (\<lambda>total_units.
     and_then (required_u64 payload ''cell_count'') (\<lambda>cell_count.
     and_then (demand (\<not> (unit_bytes = 0 \<or> total_units = 0 \<or> cell_count = 0 \<or> cell_count \<noteq> word_of_nat (length raw_cells)))
         ''native filesystem mapper returned invalid map geometry'') (\<lambda>_.
     and_then (native_cells total_units 0 raw_cells) (\<lambda>expected.
       demand (expected = total_units) ''native filesystem mapper did not cover the complete map''))))))))))))"

definition map_native :: "map_env \<Rightarrow> BackendInfo \<Rightarrow> path \<Rightarrow> u64 \<Rightarrow> json exc" where
  "map_native E b p cells =
     and_then (map_capture_limit cells) (\<lambda>limit.
     and_then (worker E b ''map'' p (map_arguments cells) limit 0) (\<lambda>r.
     and_then (parse_worker_json (me_json E) r ''native filesystem mapper'') (\<lambda>payload.
     and_then (validate_native_map b payload) (\<lambda>_.
       let warning = bounded_text (trim_lines (cr_standard_error r))
       in if warning \<noteq> [] then json_set payload ''analysis_warning'' (JString warning) else Inr payload))))"


subsection \<open>The map of a volume\<close>

definition identify_filesystem :: "map_env \<Rightarrow> BackendInfo \<Rightarrow> path \<Rightarrow> string exc" where
  "identify_filesystem E b p =
     and_then (worker E b ''identify'' p [] (1024 * 1024) 30000) (\<lambda>r.
     and_then (parse_worker_json (me_json E) r ''filesystem identifier'') (\<lambda>payload.
       case json_find payload ''filesystem'' of
         Some (JString name) \<Rightarrow> (let identified = lower_ascii name in Inr (if same_filesystem b identified then identified else []))
       | _ \<Rightarrow> Inr []))"

definition backend_identified_filesystem :: "map_env \<Rightarrow> BackendInfo \<Rightarrow> path \<Rightarrow> string" where
  "backend_identified_filesystem E b p = (case identify_filesystem E b p of Inl e \<Rightarrow> [] | Inr name \<Rightarrow> name)"

definition backend_probe :: "map_env \<Rightarrow> BackendInfo \<Rightarrow> path \<Rightarrow> bool" where
  "backend_probe E b p \<longleftrightarrow> backend_identified_filesystem E b p \<noteq> []"

definition map_adapter :: "MapAdapter \<Rightarrow> map_env \<Rightarrow> BackendInfo \<Rightarrow> path \<Rightarrow> u64 \<Rightarrow> json exc" where
  "map_adapter a =
     (case a of
        NativeMap \<Rightarrow> map_native | Affs \<Rightarrow> map_affs | Exfat \<Rightarrow> map_exfat | Ext \<Rightarrow> map_ext | Fat \<Rightarrow> map_fat
      | HfsPlus \<Rightarrow> map_hfsplus | Ntfs \<Rightarrow> map_ntfs | Xfs \<Rightarrow> map_xfs)"

definition set_if_absent :: "string \<Rightarrow> json \<Rightarrow> json \<Rightarrow> json exc" where
  "set_if_absent key v result = (if json_find result key = None then json_set result key v else Inr result)"

definition set_reason :: "string \<Rightarrow> string \<Rightarrow> json \<Rightarrow> json exc" where
  "set_reason key reason result = (if reason = [] then Inr result else json_set result key (JString reason))"

definition runs_preflight :: "BackendInfo \<Rightarrow> json \<Rightarrow> bool" where
  "runs_preflight b result \<longleftrightarrow>
     bi_qualification_mode b = WorkerPreflight \<or>
     bi_qualification_mode b = MapOrWorkerPreflight \<and>
       \<not> (json_find result ''defrag_qualified'' \<noteq> None \<and> json_find result ''growth_qualified'' \<noteq> None)"

definition qualify_map :: "map_env \<Rightarrow> BackendInfo \<Rightarrow> path \<Rightarrow> json \<Rightarrow> json exc" where
  "qualify_map E b p result =
     (if bi_capabilities b AND CAP_DEFRAG = 0 then Inr result
      else
        let qualified = \<lparr>mq_qualified = True, mq_reason = []\<rparr>;
            defrag = (if runs_preflight b result then mutation_qualification E b p ''preflight-defrag'' else qualified);
            growth = (if runs_preflight b result then mutation_qualification E b p ''preflight-growth'' else qualified)
        in and_then (set_if_absent ''defrag_qualified'' (JBool (mq_qualified defrag)) result) (\<lambda>result.
           and_then (set_if_absent ''growth_qualified'' (JBool (mq_qualified growth)) result) (\<lambda>result.
           and_then (set_reason ''defrag_reason'' (mq_reason defrag) result)
             (set_reason ''growth_reason'' (mq_reason growth)))))"

definition map_backend :: "map_env \<Rightarrow> BackendInfo \<Rightarrow> path \<Rightarrow> u64 \<Rightarrow> json exc" where
  "map_backend E b p cells =
     and_then (map_capture_limit cells) (\<lambda>_.
     and_then (map_adapter (bi_map_adapter b) E b p cells) (qualify_map E b p))"

end
