(* ===== verification/Map_Check.thy ===== *)
theory Map_Check
  imports Map_Adapters
begin

text \<open>
  What every allocation map has in common, whichever adapter of \<open>native/map.cpp\<close> built it: its cells tile the allocation
  units and their counts are consistent. The adapters are long chains of steps that may throw; \<open>yields\<close> is the partial
  correctness of such a chain, and the lemmas below are its rules for the operations of the adapters.
\<close>

subsection \<open>Partial correctness of a computation that may throw\<close>

definition yields :: "'a exc \<Rightarrow> ('a \<Rightarrow> bool) \<Rightarrow> bool" where
  "yields e Q \<longleftrightarrow> (\<forall>x. e = Inr x \<longrightarrow> Q x)"

lemma yields_Inr: "Q x \<Longrightarrow> yields (Inr x) Q"
  by (simp add: yields_def)

lemma yields_Inl: "yields (Inl m) Q"
  by (simp add: yields_def)

lemma yields_then: "yields e P \<Longrightarrow> (\<And>x. P x \<Longrightarrow> yields (f x) Q) \<Longrightarrow> yields (and_then e f) Q"
  by (cases e) (simp_all add: yields_def)

lemma yields_skip: "(\<And>x. yields (f x) Q) \<Longrightarrow> yields (and_then e f) Q"
  by (cases e) (simp_all add: yields_def)

lemma yields_eq: "(\<And>x. e = Inr x \<Longrightarrow> yields (f x) Q) \<Longrightarrow> yields (and_then e f) Q"
  by (cases e) (simp_all add: yields_def)

lemma yields_demand: "(p \<Longrightarrow> yields (f ()) Q) \<Longrightarrow> yields (and_then (demand p message) f) Q"
  by (cases p) (simp_all add: yields_def demand_def)

lemma yieldsD: "yields e Q \<Longrightarrow> e = Inr x \<Longrightarrow> Q x"
  by (simp add: yields_def)


subsection \<open>Members after an assignment\<close>

lemma read_json_unsigned [simp]: "unsigned_value (json_unsigned w) = Inr w"
proof -
  have "whole_digits (show_nat (unat w)) = Some (unat w)"
    using show_nat_digits [of "unat w"] by (simp add: whole_digits_def list_all_iff)
  then show ?thesis using unat_lt64 [of w] by (simp add: unsigned_value_def json_unsigned_def number_text_def)
qed

lemma json_set_find: "json_set j key v = Inr j' \<Longrightarrow> json_find j' k = (if k = key then Some v else json_find j k)"
  by (cases j) (auto simp: json_set_def json_object_def json_find_def)

lemma json_set_other:
  assumes "json_set j key v = Inr j'" "k \<noteq> key"
  shows "json_find j' k = json_find j k" "required_u64 j' k = required_u64 j k" "optional_u64 j' k f = optional_u64 j k f"
  using json_set_find [OF assms(1), of k] assms(2) by (simp_all add: required_u64_def optional_u64_def json_at_def)

lemma json_set_number: "json_set j key (json_unsigned w) = Inr j' \<Longrightarrow> required_u64 j' key = Inr w \<and> optional_u64 j' key f = Inr w"
  by (simp add: json_set_find required_u64_def optional_u64_def json_at_def)

lemma required_optional: "required_u64 j key = Inr w \<Longrightarrow> optional_u64 j key f = Inr w"
  by (simp add: required_u64_def optional_u64_def json_at_def split: option.splits)


subsection \<open>Consistent cells\<close>

definition cell_ok :: "json \<Rightarrow> bool" where
  "cell_ok cell \<longleftrightarrow>
     (\<exists>first last_unit free used fragmented directory.
        required_u64 cell ''start'' = Inr first \<and> required_u64 cell ''end'' = Inr last_unit \<and>
        required_u64 cell ''free'' = Inr free \<and> required_u64 cell ''used'' = Inr used \<and>
        optional_u64 cell ''fragmented'' 0 = Inr fragmented \<and> optional_u64 cell ''directory'' 0 = Inr directory \<and>
        unat first \<le> unat last_unit \<and> unat free + unat used \<le> unat last_unit - unat first + 1 \<and>
        unat fragmented \<le> unat used \<and> unat directory \<le> unat used)"

fun tiles :: "nat \<Rightarrow> json list \<Rightarrow> nat \<Rightarrow> bool" where
  "tiles first [] past \<longleftrightarrow> first = past"
| "tiles first (cell # cells) past \<longleftrightarrow> unat (cell_first cell) = first \<and> tiles (unat (cell_last cell) + 1) cells past"

definition cell_holds :: "nat \<Rightarrow> json \<Rightarrow> bool" where
  "cell_holds u cell \<longleftrightarrow> unat (cell_first cell) \<le> u \<and> u \<le> unat (cell_last cell)"

definition map_ok :: "nat \<Rightarrow> json \<Rightarrow> bool" where
  "map_ok first j \<longleftrightarrow>
     (\<exists>cells units. json_find j ''cells'' = Some (JArray cells) \<and> required_u64 j ''total_units'' = Inr units \<and>
        required_u64 j ''cell_count'' = Inr (word_of_nat (length cells)) \<and> 0 < units \<and>
        tiles first cells (first + unat units) \<and> list_all cell_ok cells)"

lemma cell_ok_order: "cell_ok cell \<Longrightarrow> unat (cell_first cell) \<le> unat (cell_last cell)"
  by (auto simp: cell_ok_def cell_first_def cell_last_def)

lemma tiles_append: "tiles first (xs @ ys) past \<longleftrightarrow> (\<exists>m. tiles first xs m \<and> tiles m ys past)"
  by (induction xs arbitrary: first) auto

lemma tiles_bounds: "tiles first cells past \<Longrightarrow> list_all cell_ok cells \<Longrightarrow> first \<le> past"
proof (induction cells arbitrary: first)
  case (Cons cell cells)
  then have "unat (cell_last cell) + 1 \<le> past" "unat (cell_first cell) = first" by simp_all
  then show ?case using cell_ok_order [of cell] Cons.prems(2) by simp
qed simp

lemma tiles_once:
  assumes "tiles first cells past" "list_all cell_ok cells"
  shows "(\<exists>i < length cells. cell_holds u (cells ! i)) \<longleftrightarrow> first \<le> u \<and> u < past" and
    "i < length cells \<Longrightarrow> k < length cells \<Longrightarrow> cell_holds u (cells ! i) \<Longrightarrow> cell_holds u (cells ! k) \<Longrightarrow> i = k"
proof -
  have "length (filter (cell_holds u) cells) = (if first \<le> u \<and> u < past then 1 else 0)"
    using assms
  proof (induction cells arbitrary: first)
    case (Cons cell cells)
    then have "length (filter (cell_holds u) cells) = (if unat (cell_last cell) + 1 \<le> u \<and> u < past then 1 else 0)" by simp
    moreover have "unat (cell_last cell) + 1 \<le> past" using tiles_bounds Cons.prems by auto
    moreover have "unat (cell_first cell) \<le> unat (cell_last cell)" "unat (cell_first cell) = first"
      using cell_ok_order [of cell] Cons.prems by simp_all
    ultimately show ?case by (auto simp: cell_holds_def [of u cell])
  qed simp
  then have count: "card {i. i < length cells \<and> cell_holds u (cells ! i)} = (if first \<le> u \<and> u < past then 1 else 0)"
    by (simp add: length_filter_conv_card)
  have finite: "finite {i. i < length cells \<and> cell_holds u (cells ! i)}" by simp
  show "(\<exists>i < length cells. cell_holds u (cells ! i)) \<longleftrightarrow> first \<le> u \<and> u < past"
    using count finite by (cases "{i. i < length cells \<and> cell_holds u (cells ! i)} = {}") (auto split: if_splits)
  show "i = k" if "i < length cells" "k < length cells" "cell_holds u (cells ! i)" "cell_holds u (cells ! k)"
  proof -
    have "card {i. i < length cells \<and> cell_holds u (cells ! i)} \<le> 1" using count by simp
    then show ?thesis using that card_le_Suc0_iff_eq [OF finite] by auto
  qed
qed

lemma tiles_map:
  assumes "\<And>i. a \<le> i \<Longrightarrow> i < b \<Longrightarrow> unat (cell_first (f i)) = e i \<and> unat (cell_last (f i)) + 1 = e (Suc i)" "a \<le> b"
  shows "tiles (e a) (map f [a..<b]) (e b)"
  using assms(2,1)
proof (induction b rule: dec_induct)
  case (step m)
  then have "tiles (e a) (map f [a..<m]) (e m)" by simp
  moreover have "unat (cell_first (f m)) = e m \<and> unat (cell_last (f m)) + 1 = e (Suc m)" using step by simp
  ultimately show ?case using step.hyps by (simp add: tiles_append)
qed simp


subsection \<open>Aggregated maps\<close>

lemma cell_json_reads:
  "required_u64 (cell_json a b counts) ''start'' = Inr a" "required_u64 (cell_json a b counts) ''end'' = Inr (b - 1)"
  "required_u64 (cell_json a b counts) ''free'' = Inr (counts ! 0)" "required_u64 (cell_json a b counts) ''used'' = Inr (counts ! 1)"
  "optional_u64 (cell_json a b counts) ''fragmented'' 0 = Inr 0" "optional_u64 (cell_json a b counts) ''directory'' 0 = Inr 0"
  by (simp_all add: cell_json_def insert_members_def json_find_def required_u64_def optional_u64_def json_at_def)

lemma exact_cell_ok:
  assumes "i < unat n" "unat n \<le> 1048576" "unat n \<le> unat total_units" "\<forall>u < unat total_units. unit_state rs u \<le> 3"
  defines "e \<equiv> \<lambda>i. cell_edge i (unat total_units) (unat n)"
  shows "cell_ok (exact_cell total_units n (tally rs) i) \<and>
    unat (cell_first (exact_cell total_units n (tally rs) i)) = e i \<and> unat (cell_last (exact_cell total_units n (tally rs) i)) + 1 = e (Suc i)"
proof -
  have n: "0 < n" using assms(1) by (cases "n = 0") (simp_all add: word_gt_0)
  have bound: "e i \<le> unat total_units" "e (Suc i) \<le> unat total_units"
    using cell_boundary_edge [OF n assms(2), of i total_units] cell_boundary_edge [OF n assms(2), of "Suc i" total_units] assms(1)
    by (simp_all add: e_def)
  have up: "e i < e (Suc i)" unfolding e_def by (rule cell_edge_less) (use assms(1,3) in simp_all)
  have words: "unat (edge_word i total_units n) = e i" "unat (edge_word (Suc i) total_units n) = e (Suc i)"
    using edge_word_unat bound by (simp_all add: e_def)
  have last_unit: "unat (edge_word (Suc i) total_units n - 1) + 1 = e (Suc i)"
  proof -
    have "1 \<le> unat (edge_word (Suc i) total_units n)" using words(2) up by simp
    then have "unat (edge_word (Suc i) total_units n - 1) = unat (edge_word (Suc i) total_units n) - 1"
      by (simp add: unat_sub word_le_nat_alt)
    then show ?thesis using words(2) up by simp
  qed
  have small: "unat (word_of_nat (tally rs (e i) (e (Suc i)) s) :: u64) = tally rs (e i) (e (Suc i)) s"
    if "tally rs (e i) (e (Suc i)) s \<le> unat total_units" for s
    using le_less_trans [OF that unat_lt64] by (simp add: unsigned_of_nat take_bit_nat_eq_self)
  have "tally rs (e i) (e (Suc i)) 0 + tally rs (e i) (e (Suc i)) 1 + tally rs (e i) (e (Suc i)) 2 + tally rs (e i) (e (Suc i)) 3 =
      e (Suc i) - e i"
    by (rule tally_total) (use assms(4) bound in auto)
  then have sum: "tally rs (e i) (e (Suc i)) 0 + tally rs (e i) (e (Suc i)) 1 \<le> e (Suc i) - e i" by linarith
  have "unat (word_of_nat (tally rs (e i) (e (Suc i)) 0) :: u64) + unat (word_of_nat (tally rs (e i) (e (Suc i)) 1) :: u64) \<le>
      unat (edge_word (Suc i) total_units n - 1) - unat (edge_word i total_units n) + 1"
    using small [of 0] small [of 1] sum bound last_unit words(1) up by linarith
  moreover have "unat (edge_word i total_units n) \<le> unat (edge_word (Suc i) total_units n - 1)"
    using last_unit words(1) up by linarith
  ultimately show ?thesis
    using words last_unit
    by (simp add: exact_cell_def cell_ok_def cell_first_def cell_last_def cell_json_reads e_def numeral_eq_Suc)
qed

lemma aggregate_map_ok:
  assumes "unat cells \<le> 1048576" "checked_product mul"
  shows "yields (aggregate_ranges mul total_units cells unit_bytes filesystem rs accuracy details) (map_ok 0)"
  unfolding yields_def
proof (intro allI impI)
  fix j assume run: "aggregate_ranges mul total_units cells unit_bytes filesystem rs accuracy details = Inr j"
  obtain n totals where n: "unat n = max 1 (min (unat cells) (unat total_units))" "0 < total_units"
    and states: "\<forall>u < unat total_units. unit_state rs u \<le> 3"
    and j: "j = JObject (insert_members []
       ([(''schema'', json_unsigned 1), (''backend'', JString ''read-only-domain''), (''filesystem'', JString filesystem),
         (''map_accuracy'', JString accuracy), (''unit_size'', json_unsigned unit_bytes),
         (''total_units'', json_unsigned total_units), (''cell_count'', json_unsigned n),
         (''total_bytes'', json_unsigned (total_units * unit_bytes)), (''free_bytes'', json_unsigned (totals ! 0 * unit_bytes)),
         (''used_bytes'', json_unsigned (totals ! 1 * unit_bytes)),
         (''unknown_bytes'', json_unsigned ((totals ! 2 + totals ! 3) * unit_bytes)),
         (''cells'', JArray (map (exact_cell total_units n (tally rs)) [0..<unat n]))] @
        (if details \<noteq> [] then [(''details'', JObject details)] else [])))"
    by (rule aggregate_form [OF run assms])
  have find: "json_find j ''cells'' = Some (JArray (map (exact_cell total_units n (tally rs)) [0..<unat n]))"
    "json_find j ''total_units'' = Some (json_unsigned total_units)" "json_find j ''cell_count'' = Some (json_unsigned n)"
    unfolding j by (cases "details = []"; simp add: json_find_def insert_members_def)+
  have t: "0 < unat total_units" using n(2) by (simp add: word_less_nat_alt)
  then have bounds: "unat n \<le> 1048576" "unat n \<le> unat total_units" "0 < unat n" using assms(1) n(1) by auto
  have "tiles (cell_edge 0 (unat total_units) (unat n)) (map (exact_cell total_units n (tally rs)) [0..<unat n])
      (cell_edge (unat n) (unat total_units) (unat n))"
    by (rule tiles_map) (use exact_cell_ok [OF _ bounds(1,2) states] in simp_all)
  then have "tiles 0 (map (exact_cell total_units n (tally rs)) [0..<unat n]) (0 + unat total_units)"
    using cell_edge_last(1) [OF bounds(3)] cell_edge_last(2) by simp
  moreover have "list_all cell_ok (map (exact_cell total_units n (tally rs)) [0..<unat n])"
    using exact_cell_ok [OF _ bounds(1,2) states] by (simp add: list_all_iff)
  ultimately show "map_ok 0 j" using find n(2) by (simp add: map_ok_def required_u64_def json_at_def)
qed


subsection \<open>Later steps keep the map\<close>

definition map_keys :: "string set" where
  "map_keys = {''cells'', ''total_units'', ''cell_count''}"

lemma map_ok_set: "map_ok first j \<Longrightarrow> json_set j key v = Inr j' \<Longrightarrow> key \<notin> map_keys \<Longrightarrow> map_ok first j'"
proof -
  assume a: "map_ok first j" "json_set j key v = Inr j'" "key \<notin> map_keys"
  then have "''cells'' \<noteq> key" "''total_units'' \<noteq> key" "''cell_count'' \<noteq> key" by (auto simp: map_keys_def)
  then show "map_ok first j'"
    using a(1) json_set_other [OF a(2), of "''cells''"] json_set_other [OF a(2), of "''total_units''"]
      json_set_other [OF a(2), of "''cell_count''"]
    unfolding map_ok_def by simp
qed

lemma yields_set: "map_ok first j \<Longrightarrow> key \<notin> map_keys \<Longrightarrow> yields (json_set j key v) (map_ok first)"
  unfolding yields_def using map_ok_set by blast

definition overlay_keys :: "string set" where
  "overlay_keys = {''fragmented'', ''directory'', ''bad''}"

lemma cell_ok_overlay:
  assumes "cell_ok cell" "optional_u64 cell ''used'' 0 = Inr used" "json_set cell field (json_unsigned (min used overlap)) = Inr cell'"
    "field \<in> overlay_keys"
  shows "cell_ok cell' \<and> cell_first cell' = cell_first cell \<and> cell_last cell' = cell_last cell"
proof -
  have other: "required_u64 cell' k = required_u64 cell k" "optional_u64 cell' k f = optional_u64 cell k f" if "k \<noteq> field" for k f
    using json_set_other [OF assms(3) that] by simp_all
  have field: "''start'' \<noteq> field" "''end'' \<noteq> field" "''free'' \<noteq> field" "''used'' \<noteq> field"
    using assms(4) by (auto simp: overlay_keys_def)
  have small: "unat (min used overlap) \<le> unat used" by (simp add: min_def word_le_nat_alt)
  obtain first last_unit free fragmented directory where
    old: "required_u64 cell ''start'' = Inr first" "required_u64 cell ''end'' = Inr last_unit" "required_u64 cell ''free'' = Inr free"
      "required_u64 cell ''used'' = Inr used" "optional_u64 cell ''fragmented'' 0 = Inr fragmented"
      "optional_u64 cell ''directory'' 0 = Inr directory" "unat first \<le> unat last_unit"
      "unat free + unat used \<le> unat last_unit - unat first + 1" "unat fragmented \<le> unat used" "unat directory \<le> unat used"
    using assms(1,2) required_optional [of cell "''used''" _ 0] unfolding cell_ok_def by fastforce
  have "\<exists>f. optional_u64 cell' ''fragmented'' 0 = Inr f \<and> unat f \<le> unat used"
    using json_set_number [OF assms(3)] other(2) [of "''fragmented''" 0] old(5,9) small by (cases "field = ''fragmented''") auto
  moreover have "\<exists>f. optional_u64 cell' ''directory'' 0 = Inr f \<and> unat f \<le> unat used"
    using json_set_number [OF assms(3)] other(2) [of "''directory''" 0] old(6,10) small by (cases "field = ''directory''") auto
  ultimately have "cell_ok cell'" unfolding cell_ok_def using old(1-4,7,8) other(1) field by metis
  then show ?thesis using other(1) field by (simp add: cell_first_def cell_last_def)
qed

lemma overlay_cells_ok:
  assumes "overlay_cells field rs cells = Inr cells'" "list_all cell_ok cells" "field \<in> overlay_keys"
  shows "list_all cell_ok cells' \<and> length cells' = length cells \<and> (tiles first cells past \<longrightarrow> tiles first cells' past)"
  using assms
proof (induction cells arbitrary: rs cells' first)
  case (Cons cell cells)
  obtain a z used cell' others rest overlap where run: "optional_u64 cell ''used'' 0 = Inr used"
      "json_set cell field (json_unsigned (min used overlap)) = Inr cell'"
      "overlay_cells field rest cells = Inr others" "cells' = cell' # others"
    using Cons.prems(1) by (auto simp: and_then_Inr Let_def)
  have "cell_ok cell' \<and> cell_first cell' = cell_first cell \<and> cell_last cell' = cell_last cell"
    using cell_ok_overlay [OF _ run(1,2) Cons.prems(3)] Cons.prems(2) by simp
  then show ?case using Cons.IH [OF run(3)] Cons.prems(2,3) run(4) by simp
qed simp

lemma overlay_member_ok:
  assumes "map_ok first j" "field \<in> overlay_keys"
  shows "yields (overlay_member j rs field) (\<lambda>(n, j'). map_ok first j')"
  unfolding yields_def
proof (intro allI impI)
  fix r assume "overlay_member j rs field = Inr r"
  moreover obtain cells units where old: "json_find j ''cells'' = Some (JArray cells)" "required_u64 j ''total_units'' = Inr units"
      "required_u64 j ''cell_count'' = Inr (word_of_nat (length cells))" "0 < units"
      "tiles first cells (first + unat units)" "list_all cell_ok cells"
    using assms(1) by (auto simp: map_ok_def)
  ultimately obtain n cells' j' where run: "overlay_ranges cells rs field = Inr (n, cells')"
      "json_set j ''cells'' (JArray cells') = Inr j'" "r = (n, j')"
    by (auto simp: overlay_member_def json_at_def json_array_def and_then_Inr)
  have "list_all cell_ok cells' \<and> length cells' = length cells \<and> tiles first cells' (first + unat units)"
    using run(1) overlay_cells_ok [OF _ old(6) assms(2)] old(5) by (auto simp: overlay_ranges_def Let_def and_then_Inr)
  moreover have "required_u64 j' ''total_units'' = Inr units" "required_u64 j' ''cell_count'' = Inr (word_of_nat (length cells))"
    using json_set_other(2) [OF run(2)] old(2,3) by simp_all
  ultimately show "case r of (n, j') \<Rightarrow> map_ok first j'"
    using json_set_find [OF run(2), of "''cells''"] old(4) run(3) by (auto simp: map_ok_def)
qed

lemma set_counts_ok: "map_ok first j \<Longrightarrow> set keys \<inter> map_keys = {} \<Longrightarrow> yields (set_counts payload keys j) (map_ok first)"
proof (induction keys arbitrary: j)
  case (Cons key keys)
  have "yields (json_set j key v) (map_ok first)" for v using Cons.prems by (intro yields_set) auto
  moreover have "yields (set_counts payload keys j') (map_ok first)" if "map_ok first j'" for j'
    using Cons.IH [OF that] Cons.prems(2) by auto
  ultimately show ?case unfolding set_counts.simps by (intro yields_skip yields_then)
qed (simp add: yields_def)

lemma map_keys_simps:
  "key \<in> map_keys \<longleftrightarrow> key = ''cells'' \<or> key = ''total_units'' \<or> key = ''cell_count''"
  by (simp add: map_keys_def)

lemma summary_ok: "map_ok first j \<Longrightarrow> yields (add_fragmentation_summary E j payload copy_percentage) (map_ok first)"
  unfolding add_fragmentation_summary_def
  by (rule yields_then [OF set_counts_ok]; cases "copy_percentage \<and> json_find payload ''fragmentation_percent'' \<noteq> None")
    (auto simp: map_keys_simps intro!: yields_skip yields_set yields_Inr)

lemma set_detail_ok: "map_ok first j \<Longrightarrow> yields (set_detail j key v) (map_ok first)"
  unfolding set_detail_def by (intro yields_skip yields_set) (simp_all add: map_keys_simps)

lemma overlay_then:
  assumes "map_ok first j" "field \<in> overlay_keys" "\<And>n j'. map_ok first j' \<Longrightarrow> yields (f (n, j')) Q"
  shows "yields (and_then (overlay_member j rs field) f) Q"
  by (rule yields_then [OF overlay_member_ok [OF assms(1,2)]]) (use assms(3) in auto)

lemma fragmentation_ok: "map_ok first j \<Longrightarrow> yields (overlay_fragmentation j payload total_units name) (map_ok first)"
  unfolding overlay_fragmentation_def
  apply (rule yields_skip)
  apply (rule yields_skip)
  apply (rule overlay_then, assumption, simp add: overlay_keys_def)
  apply (simp only: case_prod_conv)
  apply (rule overlay_then, assumption, simp add: overlay_keys_def)
  apply (simp only: case_prod_conv)
  apply (rule yields_then [where P = "map_ok first"])
   apply (simp add: yields_set yields_Inr map_keys_simps)
  apply (rule yields_then [OF set_detail_ok], assumption)
  by (rule set_detail_ok)

lemma generic_ok:
  assumes "unat cells \<le> 1048576" "checked_product (me_multiply E)"
  shows "yields (generic_free_range_map E b payload cells total_units unit_bytes filesystem details copy_percentage name) (map_ok 0)"
  unfolding generic_free_range_map_def
  by (rule yields_skip yields_then [OF aggregate_map_ok [OF assms]] yields_then [OF summary_ok] fragmentation_ok | assumption)+


subsection \<open>Adapters that read a list of free ranges\<close>

lemma copy_ok: "map_ok first j \<Longrightarrow> key \<notin> map_keys \<Longrightarrow> yields (copy_if_present payload key j) (map_ok first)"
  unfolding copy_if_present_def by (simp add: yields_set yields_Inr split: option.split)

lemma reasons_ok: "map_ok first j \<Longrightarrow> set keys \<inter> map_keys = {} \<Longrightarrow> yields (copy_reasons payload keys j) (map_ok first)"
proof (induction keys arbitrary: j)
  case (Cons key keys)
  have "yields (case json_find payload key of None \<Rightarrow> Inr j
      | Some v \<Rightarrow> and_then (demand (is_string v) m) (\<lambda>_. json_set j key v)) (map_ok first)" for m
    using Cons.prems by (auto intro!: yields_Inr yields_demand yields_set split: option.split)
  moreover have "yields (copy_reasons payload keys j') (map_ok first)" if "map_ok first j'" for j'
    using Cons.IH [OF that] Cons.prems(2) by auto
  ultimately show ?case unfolding copy_reasons.simps by (rule yields_then)
qed (simp add: yields_def)

lemma generic_then:
  assumes "unat cells \<le> 1048576" "checked_product (me_multiply E)" "\<And>j. map_ok 0 j \<Longrightarrow> yields (f j) Q"
  shows "yields (and_then (generic_free_range_map E b payload cells total_units unit_bytes filesystem details copy_percentage name) f) Q"
  by (rule yields_then [OF generic_ok [OF assms(1,2)] assms(3)])

lemma simple_adapters_ok:
  assumes "unat cells \<le> 1048576" "checked_product (me_multiply E)"
  shows "yields (map_affs E b p cells) (map_ok 0)" "yields (map_exfat E b p cells) (map_ok 0)"
    "yields (map_hfsplus E b p cells) (map_ok 0)" "yields (map_xfs E b p cells) (map_ok 0)"
proof -
  show "yields (map_affs E b p cells) (map_ok 0)" "yields (map_xfs E b p cells) (map_ok 0)"
    unfolding map_affs_def map_xfs_def by (rule yields_skip generic_ok [OF assms])+
  show "yields (map_exfat E b p cells) (map_ok 0)"
    unfolding map_exfat_def
    by (rule generic_then [OF assms] yields_skip copy_ok | assumption | simp add: map_keys_simps)+
  show "yields (map_hfsplus E b p cells) (map_ok 0)"
    unfolding map_hfsplus_def
    by (rule generic_then [OF assms] yields_skip)+ (simp add: yields_Inr set_detail_ok split: option.split)
qed

lemma ntfs_ok:
  assumes "unat cells \<le> 1048576" "checked_product (me_multiply E)"
  shows "yields (map_ntfs E b p cells) (map_ok 0)"
proof -
  have fields: "yields (case (d, g) of
                 (None, None) \<Rightarrow> Inr j
               | (Some d, Some g) \<Rightarrow>
                   and_then (demand (is_bool d \<and> is_bool g) m) (\<lambda>_.
                   and_then (json_set j ''defrag_qualified'' d) (\<lambda>j. json_set j ''growth_qualified'' g))
               | _ \<Rightarrow> Inl n) (map_ok 0)" if "map_ok 0 j" for j d g m n
  proof -
    have "yields (and_then (json_set j ''defrag_qualified'' d) (\<lambda>j. json_set j ''growth_qualified'' g)) (map_ok 0)" for d g
      by (rule yields_then [OF yields_set [OF that]]; simp add: yields_set map_keys_simps)
    then show ?thesis using that by (cases d; cases g) (simp_all add: yields_Inl yields_Inr yields_skip)
  qed
  show ?thesis
    unfolding map_ntfs_def
    by (rule generic_then [OF assms] yields_then [OF copy_ok] yields_then [OF fields] yields_skip reasons_ok
        | assumption | simp add: map_keys_simps)+
qed

lemma ext_ok:
  assumes "unat cells \<le> 1048576" "checked_product (me_multiply E)"
  shows "yields (map_ext E b p cells) (map_ok 0)"
proof -
  have warning: "yields (case w of None \<Rightarrow> Inr j
      | Some v \<Rightarrow> and_then (demand (is_string v) m) (\<lambda>_. json_set j ''analysis_warning'' v)) (map_ok 0)" if "map_ok 0 j" for j w m
    using that by (auto intro!: yields_Inr yields_demand yields_set simp: map_keys_simps split: option.split)
  have bad: "''bad'' \<in> overlay_keys" by (simp add: overlay_keys_def)
  have finish: "yields (and_then x (json_set j ''fragmentation_percent'')) (map_ok 0)" if "map_ok 0 j" for x j
    by (rule yields_skip) (simp add: yields_set [OF that] map_keys_simps)
  show ?thesis
    unfolding map_ext_def
    by (rule generic_then [OF assms] yields_then [OF warning] overlay_then [OF _ bad] yields_then [OF set_detail_ok] finish yields_skip
        | assumption | simp only: case_prod_conv)+
qed


subsection \<open>Cells a worker reports\<close>

lemma plus_no_wrap: "\<not> (a::u64) > - 1 - b \<Longrightarrow> unat (a + b) = unat a + unat b"
proof -
  assume "\<not> a > - 1 - b"
  then have "unat a \<le> unat (- 1 - b)" by (simp add: word_le_nat_alt not_less)
  also have "\<dots> = unat (- 1 :: u64) - unat b" by (rule unat_sub) simp
  also have "\<dots> = 2 ^ 64 - 1 - unat b" by (simp add: unsigned_minus_1_eq_mask mask_eq_exp_minus_1)
  finally have "unat a + unat b < 2 ^ 64" using unat_lt64 [of b] by linarith
  then show ?thesis by (simp add: unat_word_ariths)
qed

lemma sum_exact:
  assumes "(free :: u64) \<le> span" "used \<le> span" "free + used = span"
  shows "unat free + unat used = unat span"
proof -
  have "(unat free + unat used) mod 2 ^ 64 = unat span"
    using unat_word_ariths(1) [of free used] unfolding assms(3) by simp
  moreover have "unat free \<le> unat span" "unat used \<le> unat span" "unat span < 2 ^ 64"
    using assms(1,2) unat_lt64 by (simp_all add: word_le_nat_alt)
  ultimately show ?thesis by (cases "unat free + unat used < 2 ^ 64") (simp_all add: le_mod_geq)
qed

lemma span_unat:
  assumes "\<not> (last_unit :: u64) < first" "\<not> last_unit \<ge> past"
  shows "unat (last_unit - first + 1) = unat last_unit - unat first + 1" "unat (last_unit + 1) = unat last_unit + 1"
    "unat first \<le> unat last_unit"
proof -
  have a: "unat first \<le> unat last_unit" "unat last_unit < unat past" "unat past < 2 ^ 64"
    using assms unat_lt64 by (simp_all add: word_le_nat_alt word_less_nat_alt)
  show "unat first \<le> unat last_unit" by (rule a(1))
  have one: "unat (w + 1) = unat w + 1" if "unat w < unat past" for w :: u64
  proof -
    have "unat w + 1 < 2 ^ 64" using that a(3) by linarith
    then have "(unat w + 1) mod 2 ^ 64 = unat w + 1" by (rule mod_less)
    then show ?thesis by (simp add: unat_word_ariths(1))
  qed
  have "unat (last_unit - first) = unat last_unit - unat first" using a(1) by (simp add: unat_sub word_le_nat_alt)
  then show "unat (last_unit - first + 1) = unat last_unit - unat first + 1" using one [of "last_unit - first"] a(2) by simp
  show "unat (last_unit + 1) = unat last_unit + 1" by (rule one [OF a(2)])
qed

lemma fat_cell_ok:
  assumes "fat_cell clusters t cell = Inr t'"
  shows "cell_ok cell \<and> cell_first cell = ft_expected t \<and> unat (cell_last cell) + 1 = unat (ft_expected t')"
proof -
  obtain first last_unit free used fragmented directory where read: "required_u64 cell ''start'' = Inr first"
      "required_u64 cell ''end'' = Inr last_unit" "required_u64 cell ''free'' = Inr free" "required_u64 cell ''used'' = Inr used"
      "required_u64 cell ''fragmented'' = Inr fragmented" "required_u64 cell ''directory'' = Inr directory"
    and place: "first = ft_expected t" "\<not> last_unit < first" "\<not> last_unit \<ge> clusters + 2"
    and counts: "free \<le> last_unit - first + 1" "used \<le> last_unit - first + 1" "free + used = last_unit - first + 1"
      "fragmented \<le> used" "directory \<le> used"
    and t': "ft_expected t' = last_unit + 1"
    using assms unfolding fat_cell_def Let_def and_then_Inr demand_Inr by (auto simp: not_less)
  show ?thesis
    using span_unat [OF place(2,3)] sum_exact [OF counts(1,2,3)] read place(1) counts(4,5) t'
    by (auto simp: cell_ok_def cell_first_def cell_last_def required_optional word_le_nat_alt)
qed

lemma fat_cells_ok:
  "fat_cells clusters t cells = Inr t' \<Longrightarrow> list_all cell_ok cells \<and> tiles (unat (ft_expected t)) cells (unat (ft_expected t'))"
proof (induction cells arbitrary: t)
  case (Cons cell cells)
  obtain m where m: "fat_cell clusters t cell = Inr m" "fat_cells clusters m cells = Inr t'"
    using Cons.prems by (auto simp: and_then_Inr)
  show ?case using fat_cell_ok [OF m(1)] Cons.IH [OF m(2)] by simp
qed simp

lemma native_cell_ok:
  assumes "native_cell total_units expected cell = Inr expected'"
  shows "cell_ok cell \<and> cell_first cell = expected \<and> unat (cell_last cell) + 1 = unat expected'"
proof -
  obtain first last_unit free used unknown outside bad fragmented directory where
    read: "required_u64 cell ''start'' = Inr first"
      "required_u64 cell ''end'' = Inr last_unit" "required_u64 cell ''free'' = Inr free" "required_u64 cell ''used'' = Inr used"
      "optional_u64 cell ''fragmented'' 0 = Inr fragmented" "optional_u64 cell ''directory'' 0 = Inr directory"
    and place: "first = expected" "\<not> last_unit < first" "\<not> last_unit \<ge> total_units"
    and counts: "fragmented \<le> used" "directory \<le> used" "\<not> free > - 1 - used" "\<not> free + used > - 1 - unknown"
      "\<not> free + used + unknown > - 1 - outside" "\<not> free + used + unknown + outside > - 1 - bad"
      "free + used + unknown + outside + bad = last_unit - first + 1"
    and expected': "expected' = last_unit + 1"
    using assms unfolding native_cell_def Let_def and_then_Inr demand_Inr by (auto simp: not_less)
  have "unat free + unat used \<le> unat (last_unit - first + 1)"
    using plus_no_wrap [OF counts(3)] plus_no_wrap [OF counts(4)] plus_no_wrap [OF counts(5)] plus_no_wrap [OF counts(6)]
    unfolding counts(7) [symmetric] by simp
  then show ?thesis
    using span_unat [OF place(2,3)] read place(1) counts(1,2) expected'
    by (auto simp: cell_ok_def cell_first_def cell_last_def word_le_nat_alt)
qed

lemma native_cells_ok:
  "native_cells total_units expected cells = Inr expected' \<Longrightarrow> list_all cell_ok cells \<and> tiles (unat expected) cells (unat expected')"
proof (induction cells arbitrary: expected)
  case (Cons cell cells)
  obtain m where m: "native_cell total_units expected cell = Inr m" "native_cells total_units m cells = Inr expected'"
    using Cons.prems by (auto simp: and_then_Inr)
  show ?case using native_cell_ok [OF m(1)] Cons.IH [OF m(2)] by simp
qed simp

subsection \<open>Maps that a worker builds\<close>

lemma set_members_find:
  "set_members kvs j = Inr j' \<Longrightarrow> json_find j' k = (case map_of (rev kvs) k of Some v \<Rightarrow> Some v | None \<Rightarrow> json_find j k)"
proof (induction kvs arbitrary: j j' rule: rev_induct)
  case (snoc m kvs)
  have step: "set_members (kvs @ [m]) j = and_then (set_members kvs j) (\<lambda>j. json_set j (fst m) (snd m))" for j
    by (cases m; induction kvs arbitrary: j) (auto simp: and_then_def split: sum.splits)
  then obtain i where "set_members kvs j = Inr i" "json_set i (fst m) (snd m) = Inr j'" using snoc.prems by (auto simp: and_then_Inr)
  then show ?case using snoc.IH [of j i] json_set_find [of i "fst m" "snd m" j' k] by (cases m) auto
qed simp

lemma set_members_ok: "map_ok first j \<Longrightarrow> fst ` set kvs \<inter> map_keys = {} \<Longrightarrow> yields (set_members kvs j) (map_ok first)"
proof (induction kvs arbitrary: j)
  case (Cons m kvs)
  have "yields (json_set j (fst m) (snd m)) (map_ok first)" using Cons.prems by (intro yields_set) auto
  moreover have "yields (set_members kvs j') (map_ok first)" if "map_ok first j'" for j' using Cons.IH [OF that] Cons.prems(2) by auto
  ultimately show ?case by (cases m) (auto intro: yields_then)
qed (simp add: yields_def)

lemma fat_common_ok:
  assumes "json_find payload ''cells'' = Some (JArray cells)" "required_u64 payload ''cell_count'' = Inr (word_of_nat (length cells))"
    "0 < fg_clusters g" "tiles 2 cells (2 + unat (fg_clusters g))" "list_all cell_ok cells"
  shows "yields (fat_common E b g payload) (map_ok 2)"
proof -
  let ?kvs = "[(''schema'', json_unsigned 1), (''backend'', JString ''read-only-domain''), (''map_accuracy'', JString (bi_map_accuracy b)),
        (''unit_size'', json_unsigned (fg_cluster_bytes g)), (''total_units'', json_unsigned (fg_clusters g)),
        (''display_unit_size'', json_unsigned (fg_sector_bytes g)),
        (''display_units_per_allocation_unit'', json_unsigned (fg_cluster_sectors g)),
        (''display_prefix_units'', json_unsigned (fg_data_start g)), (''display_suffix_units'', json_unsigned (fg_trailing g)),
        (''display_total_units'', json_unsigned (fg_sectors g)), (''display_unit_name'', JString ''sectors'')]"
  have start: "yields (set_members ?kvs payload) (map_ok 2)"
    unfolding yields_def
  proof (intro allI impI)
    fix j assume run: "set_members ?kvs payload = Inr j"
    have "json_find j ''cells'' = json_find payload ''cells''" "json_find j ''cell_count'' = json_find payload ''cell_count''"
      "json_find j ''total_units'' = Some (json_unsigned (fg_clusters g))"
      by (simp_all add: set_members_find [OF run])
    then show "map_ok 2 j" using assms by (simp add: map_ok_def required_u64_def json_at_def)
  qed
  show ?thesis
    unfolding fat_common_def
    apply (rule yields_then [OF start])
    apply (rule yields_skip)
    apply (rule yields_skip)
    apply (rule yields_skip)
    apply (rule yields_skip)
    apply (rule yields_then [OF set_members_ok], assumption, simp add: map_keys_simps)
    apply (rule yields_skip)
    apply (rule yields_skip)
    apply (rule yields_skip)
    apply (rule yields_then [OF yields_set], assumption, simp add: map_keys_simps)
    by (rule yields_set) (simp_all add: map_keys_simps)
qed

lemma fat_ok: "yields (map_fat E b p cells) (map_ok 2)"
proof -
  have tail: "yields (and_then (fat_cells (fg_clusters g) \<lparr>ft_expected = 2, ft_free = 0, ft_used = 0\<rparr> raw) (\<lambda>t.
      and_then (demand (\<not> (ft_expected t \<noteq> fg_clusters g + 2 \<or> ft_free t \<noteq> fg_free g \<or> ft_used t \<noteq> fg_clusters g - fg_free g)) m)
        (\<lambda>_. fat_common E b g payload))) (map_ok 2)" if "read_fat_geometry E payload = Inr (g, raw)" for payload g raw m
  proof (intro yields_eq)
    fix t x
    assume run: "fat_cells (fg_clusters g) \<lparr>ft_expected = 2, ft_free = 0, ft_used = 0\<rparr> raw = Inr t"
      and "demand (\<not> (ft_expected t \<noteq> fg_clusters g + 2 \<or> ft_free t \<noteq> fg_free g \<or> ft_used t \<noteq> fg_clusters g - fg_free g)) m = Inr x"
    then have expected: "ft_expected t = fg_clusters g + 2" by simp
    have geometry: "json_find payload ''cells'' = Some (JArray raw)"
        "required_u64 payload ''cell_count'' = Inr (word_of_nat (length raw))" "fg_clusters g \<noteq> 0" "\<not> fg_clusters g > - 1 - 2"
      using that unfolding read_fat_geometry_def Let_def and_then_Inr demand_Inr by (auto split: option.splits json.splits)
    have "unat (fg_clusters g + 2) = 2 + unat (fg_clusters g)" "unat (2 :: u64) = 2" using plus_no_wrap [OF geometry(4)] by simp_all
    moreover have "list_all cell_ok raw \<and> tiles (unat (2 :: u64)) raw (unat (fg_clusters g + 2))"
      using fat_cells_ok [OF run] by (simp only: expected fat_totals.select_convs)
    ultimately have "list_all cell_ok raw" "tiles 2 raw (2 + unat (fg_clusters g))" by (simp_all only:)
    moreover have "0 < fg_clusters g" using geometry(3) by (simp add: word_gt_0)
    ultimately show "yields (fat_common E b g payload) (map_ok 2)" using fat_common_ok [OF geometry(1,2)] by blast
  qed
  show ?thesis
    unfolding map_fat_def
    apply (rule yields_skip)
    apply (rule yields_skip)
    apply (rule yields_skip)
    apply (rule yields_skip)
    apply (rule yields_skip)
    apply (rule yields_eq)
    by (simp only: split_paired_all case_prod_conv tail)
qed

lemma validated_ok:
  assumes "validate_native_map b payload = Inr u"
  shows "map_ok 0 payload"
proof -
  obtain raw total_units cell_count where checked: "json_find payload ''cells'' = Some (JArray raw)"
      "required_u64 payload ''total_units'' = Inr total_units" "required_u64 payload ''cell_count'' = Inr cell_count"
      "total_units \<noteq> 0" "cell_count = word_of_nat (length raw)" "native_cells total_units 0 raw = Inr total_units"
    using assms unfolding validate_native_map_def and_then_Inr demand_Inr by (auto split: option.splits json.splits)
  have "0 < total_units" using checked(4) by (simp add: word_gt_0)
  then show ?thesis using checked native_cells_ok [OF checked(6)] by (simp add: map_ok_def)
qed

lemma native_ok: "yields (map_native E b p cells) (map_ok 0)"
proof -
  have "yields (if warning \<noteq> [] then json_set payload ''analysis_warning'' (JString warning) else Inr payload) (map_ok 0)"
    if "validate_native_map b payload = Inr u" for payload u warning
    using validated_ok [OF that] by (simp add: yields_set yields_Inr map_keys_simps)
  then show ?thesis unfolding map_native_def Let_def by (intro yields_skip yields_eq)
qed


subsection \<open>The map of a volume\<close>

definition first_unit :: "BackendInfo \<Rightarrow> nat" where
  "first_unit b = (if bi_map_adapter b = Fat then 2 else 0)"

lemma adapter_ok:
  assumes "unat cells \<le> 1048576" "checked_product (me_multiply E)"
  shows "yields (map_adapter (bi_map_adapter b) E b p cells) (map_ok (first_unit b))"
  by (cases "bi_map_adapter b")
    (simp_all add: map_adapter_def first_unit_def native_ok fat_ok simple_adapters_ok [OF assms] ntfs_ok [OF assms] ext_ok [OF assms])

lemma qualify_ok: "map_ok first j \<Longrightarrow> yields (qualify_map E b p j) (map_ok first)"
proof -
  have absent: "yields (set_if_absent key v i) (map_ok first)" if "map_ok first i" "key \<notin> map_keys" for key v i
    using that by (simp add: set_if_absent_def yields_set yields_Inr)
  have reason: "yields (set_reason key r i) (map_ok first)" if "map_ok first i" "key \<notin> map_keys" for key r i
    using that by (simp add: set_reason_def yields_set yields_Inr)
  assume "map_ok first j"
  then show ?thesis
    unfolding qualify_map_def Let_def
    by (cases "bi_capabilities b AND CAP_DEFRAG = 0")
      (auto intro!: yields_Inr yields_then [OF absent] yields_then [OF reason] reason simp: map_keys_simps)
qed

lemma map_backend_ok:
  assumes "map_backend E b p cells = Inr j" "checked_product (me_multiply E)"
  shows "map_ok (first_unit b) j"
proof -
  obtain limit r where run: "map_capture_limit cells = Inr limit" "map_adapter (bi_map_adapter b) E b p cells = Inr r"
      "qualify_map E b p r = Inr j"
    using assms(1) unfolding map_backend_def and_then_Inr by blast
  have "\<not> cells > 1048576" using run(1) by (auto simp: map_capture_limit_def)
  then have "unat cells \<le> 1048576" by (simp add: not_less word_le_nat_alt)
  then have "map_ok (first_unit b) r" using yieldsD [OF adapter_ok run(2)] assms(2) by blast
  then show ?thesis using yieldsD [OF qualify_ok run(3)] by blast
qed

text \<open>
  Property C24. Every allocation map is complete, whichever adapter built it. When \<open>map_backend\<close> returns a map, its cells are as many
  as it says, each unit of the file system lies in exactly one cell (units are numbered from 2 for FAT and from 0 otherwise),
  no cell counts more free and used units than it holds, and none counts more fragmented or directory units than used ones.
  The checked product of the common library is assumed exact.
\<close>

theorem map_backend_complete:
  assumes "map_backend E b p cells = Inr j" "checked_product (me_multiply E)"
  shows "\<exists>drawn units. json_find j ''cells'' = Some (JArray drawn) \<and> required_u64 j ''total_units'' = Inr units \<and> 0 < units \<and>
    required_u64 j ''cell_count'' = Inr (word_of_nat (length drawn)) \<and> list_all cell_ok drawn \<and>
    (\<forall>u. (\<exists>i < length drawn. cell_holds u (drawn ! i)) \<longleftrightarrow> first_unit b \<le> u \<and> u < first_unit b + unat units) \<and>
    (\<forall>u i k. i < length drawn \<and> k < length drawn \<and> cell_holds u (drawn ! i) \<and> cell_holds u (drawn ! k) \<longrightarrow> i = k)"
proof -
  have "map_ok (first_unit b) j" by (rule map_backend_ok [OF assms])
  then obtain drawn units where found: "json_find j ''cells'' = Some (JArray drawn)" "required_u64 j ''total_units'' = Inr units"
      "required_u64 j ''cell_count'' = Inr (word_of_nat (length drawn))" "0 < units"
    and t: "tiles (first_unit b) drawn (first_unit b + unat units)" and ok: "list_all cell_ok drawn"
    unfolding map_ok_def by blast
  show ?thesis using found ok tiles_once [OF t ok] by blast
qed

text \<open>
  The map of a volume that can be defragmented always says whether it qualifies, and whose word it is: the
  adapter's own verdict when it gives one, otherwise that of the worker's preflight when one runs, which is positive exactly
  when the worker could be run and returned 0. Without a preflight an unreported verdict is positive.
\<close>

theorem qualification_reported:
  assumes "map_backend E b p cells = Inr j" "bi_capabilities b AND CAP_DEFRAG \<noteq> 0"
  shows "\<exists>r. map_adapter (bi_map_adapter b) E b p cells = Inr r \<and>
    (\<forall>(key, mode) \<in> {(''defrag_qualified'', ''preflight-defrag''), (''growth_qualified'', ''preflight-growth'')}.
       json_find j key = Some (case json_find r key of Some v \<Rightarrow> v
         | None \<Rightarrow> JBool (\<not> runs_preflight b r \<or>
             (\<exists>out. worker E b mode p [] (2 * 1024 * 1024) 60000 = Inr out \<and> cr_return_code out = 0))))"
proof -
  obtain r where r: "map_adapter (bi_map_adapter b) E b p cells = Inr r" "qualify_map E b p r = Inr j"
    using assms(1) unfolding map_backend_def and_then_Inr by blast
  define verdict where "verdict = (\<lambda>mode. mq_qualified (if runs_preflight b r then mutation_qualification E b p mode
      else \<lparr>mq_qualified = True, mq_reason = []\<rparr>))"
  have verdict: "verdict mode \<longleftrightarrow> \<not> runs_preflight b r \<or>
      (\<exists>out. worker E b mode p [] (2 * 1024 * 1024) 60000 = Inr out \<and> cr_return_code out = 0)" for mode
    by (simp add: verdict_def mutation_qualification_def Let_def split: sum.split)
  obtain a g d where steps: "set_if_absent ''defrag_qualified'' (JBool (verdict ''preflight-defrag'')) r = Inr a"
      "set_if_absent ''growth_qualified'' (JBool (verdict ''preflight-growth'')) a = Inr g"
      "\<exists>reason. set_reason ''defrag_reason'' reason g = Inr d" "\<exists>reason. set_reason ''growth_reason'' reason d = Inr j"
    using r(2) assms(2) unfolding qualify_map_def Let_def verdict_def and_then_Inr by (simp add: and_then_Inr) blast
  have absent: "json_find i' k = (if k = key then Some (case json_find i key of Some w \<Rightarrow> w | None \<Rightarrow> v) else json_find i k)"
    if "set_if_absent key v i = Inr i'" for key v i i' k
    using that json_set_find [of i key v i' k] by (auto simp: set_if_absent_def split: if_splits)
  have reason: "json_find i' k = json_find i k" if "\<exists>t. set_reason key t i = Inr i'" "k \<noteq> key" for key i i' k
    using that json_set_find [of i key _ i' k] by (auto simp: set_reason_def split: if_splits)
  have "json_find j k = json_find g k" if "k \<noteq> ''defrag_reason''" "k \<noteq> ''growth_reason''" for k
    using reason [OF steps(3)] reason [OF steps(4)] that by simp
  then show ?thesis
    using r(1) absent [OF steps(1)] absent [OF steps(2)] by (intro exI [of _ r], unfold verdict [symmetric]) simp
qed


text \<open>An example: a worker of the classic HFS back end reports one cell of ten units.\<close>

definition demo_report :: string where
  "demo_report =
     (let q = [CHR 0x22]
      in ''{'' @ q @ ''schema'' @ q @ '':1,'' @ q @ ''backend'' @ q @ '':'' @ q @ ''read-only-domain'' @ q @ '','' @
         q @ ''filesystem'' @ q @ '':'' @ q @ ''hfs'' @ q @ '','' @ q @ ''map_accuracy'' @ q @ '':'' @ q @ ''exact'' @ q @ '','' @
         q @ ''unit_size'' @ q @ '':512,'' @ q @ ''total_units'' @ q @ '':9,'' @ q @ ''cell_count'' @ q @ '':1,'' @
         q @ ''cells'' @ q @ '':[{'' @ q @ ''start'' @ q @ '':0,'' @ q @ ''end'' @ q @ '':8,'' @ q @ ''free'' @ q @ '':4,'' @
         q @ ''used'' @ q @ '':5}]}'')"

definition demo_payload :: json where
  "demo_payload =
     JObject [(''backend'', JString ''read-only-domain''), (''cell_count'', JNumber ''1''),
       (''cells'', JArray [JObject [(''end'', JNumber ''8''), (''free'', JNumber ''4''), (''start'', JNumber ''0''), (''used'', JNumber ''5'')]]),
       (''filesystem'', JString ''hfs''), (''map_accuracy'', JString ''exact''), (''schema'', JNumber ''1''),
       (''total_units'', JNumber ''9''), (''unit_size'', JNumber ''512'')]"

definition demo_map_env :: map_env where
  "demo_map_env =
     \<lparr>me_json = demo_json_lib, me_programs = \<lparr>ph_getenv = \<lambda>v. None, ph_exe_link = None, ph_executable = \<lambda>p. True\<rparr>,
      me_run = \<lambda>command limit timeout. Inr \<lparr>cr_return_code = 0, cr_standard_output = demo_report, cr_standard_error = [], cr_output_truncated = False\<rparr>,
      me_multiply = exact_multiply, me_percent = \<lambda>a b. 0\<rparr>"

definition demo_backend :: BackendInfo where
  "demo_backend = registry_entries ! 10"

lemma demo_env: "me_json demo_map_env = demo_json_lib" "me_multiply demo_map_env = exact_multiply" "checked_product (me_multiply demo_map_env)"
  by (simp_all add: demo_map_env_def checked_product_def exact_multiply_def)

lemma demo_backend_fields:
  "bi_id demo_backend = ''hfs''" "bi_worker demo_backend = ''hfs-native''" "bi_map_adapter demo_backend = NativeMap"
  "bi_map_accuracy demo_backend = ''exact''" "bi_accepted_map_accuracies demo_backend = []" "bi_aliases demo_backend = [''hfs'']"
  "bi_capabilities demo_backend = write_capabilities" "bi_qualification_mode demo_backend = WorkerPreflight"
  by (simp_all add: demo_backend_def registry_entries_def backend_def)

lemma demo_writable: "bi_capabilities demo_backend AND CAP_DEFRAG \<noteq> 0"
  unfolding demo_backend_fields by code_simp

lemma demo_same_backend: "backend_by_fstype ''hfs'' = Some demo_backend"
proof -
  have "demo_backend \<in> set registry_entries" unfolding demo_backend_def by (rule nth_mem) (simp add: registry_entries_def)
  moreover have "lower_ascii ''hfs'' \<in> set (backend_names demo_backend)" unfolding backend_names_def demo_backend_fields by simp
  ultimately show ?thesis using lookup_exact by blast
qed

lemma demo_same: "same_filesystem demo_backend ''hfs''"
  by (simp add: same_filesystem_def demo_same_backend)

lemma demo_parsed: "json_parse demo_json_lib demo_report = Inr demo_payload"
  by code_simp

lemma demo_worker:
  "worker demo_map_env demo_backend mode p options limit timeout =
     Inr \<lparr>cr_return_code = 0, cr_standard_output = demo_report, cr_standard_error = [], cr_output_truncated = False\<rparr>"
proof -
  have "resolve_program (me_programs demo_map_env) ''hfs-native'' True = Inr ''/System/Commands/Defragmenter/hfs/hfs_analyser''"
    unfolding demo_map_env_def by code_simp
  then show ?thesis
    by (simp add: worker_def worker_program_def demo_backend_fields) (simp add: demo_map_env_def strip_progress.simps [of "[]"])
qed

lemma demo_validated: "validate_native_map demo_backend demo_payload = Inr ()"
  using demo_same
  by (simp add: validate_native_map_def demo_payload_def json_find_def json_at_def required_u64_def optional_u64_def unsigned_value_def
    number_text_def whole_digits_def is_digit_def nat_of_digits_def demand_def native_cell_def is_object_def
    backend_accepts_map_accuracy_def demo_backend_fields)

lemma demo_native: "map_native demo_map_env demo_backend p 4 = Inr demo_payload"
proof -
  have "is_object demo_payload" by (simp add: demo_payload_def is_object_def)
  then show ?thesis
    by (simp add: map_native_def map_capture_limit_def demo_worker parse_worker_json_def demo_env demo_parsed demand_def demo_validated
      Let_def trim_lines_def bounded_text_def)
qed

lemma demo_map: "\<exists>j. map_backend demo_map_env demo_backend p 4 = Inr j"
proof -
  have "\<exists>j. qualify_map demo_map_env demo_backend p demo_payload = Inr j"
    unfolding demo_payload_def qualify_map_def
    by (simp add: demo_writable Let_def set_if_absent_def set_reason_def mutation_qualification_def demo_worker json_find_def json_set_def
      json_object_def)
  then show ?thesis
    by (simp add: map_backend_def map_capture_limit_def map_adapter_def demo_backend_fields demo_native)
qed

theorem map_backend_complete_witness:
  "\<exists>j drawn units. map_backend demo_map_env demo_backend ''/dev/sdx'' 4 = Inr j \<and> json_find j ''cells'' = Some (JArray drawn) \<and>
     list_all cell_ok drawn \<and> required_u64 j ''total_units'' = Inr units"
proof -
  obtain j where "map_backend demo_map_env demo_backend ''/dev/sdx'' 4 = Inr j" using demo_map by blast
  then show ?thesis using map_backend_complete [OF _ demo_env(3)] by blast
qed

theorem qualification_reported_witness:
  "\<exists>j v. map_backend demo_map_env demo_backend ''/dev/sdx'' 4 = Inr j \<and> json_find j ''defrag_qualified'' = Some v"
proof -
  obtain j where "map_backend demo_map_env demo_backend ''/dev/sdx'' 4 = Inr j" using demo_map by blast
  then show ?thesis using qualification_reported [OF _ demo_writable] by fast
qed

end
