(* ===== verification/Engine.thy ===== *)
theory Engine
  imports Helper_Policy Desktop_Policy Map_Check Mounts Module_Host
begin

text \<open>
  The two programs the helper runs: the operation engine of \<open>native/operation_engine.cpp\<close> and the mapper of
  \<open>native/mapper.cpp\<close>, each from its argument words to what it does. What they print on the error stream, the process
  image that replaces the engine and the version text of the build are not modelled; an action is a value.
\<close>

subsection \<open>The operation engine\<close>

definition plain_word :: "string \<Rightarrow> bool" where
  "plain_word token \<longleftrightarrow> token = [] \<or> hd token \<noteq> CHR ''-''"

datatype engine_request =
    Engine_usage
  | Engine_version
  | Engine_plugins
  | Engine_modules
  | Engine_request string string string "string list" \<comment> \<open>operation, device, file system, forwarded words\<close>

fun engine_words :: "string \<Rightarrow> string \<Rightarrow> string \<Rightarrow> string list \<Rightarrow> string list \<Rightarrow> engine_request" where
  "engine_words op device filesystem forwarded [] = Engine_request op device filesystem forwarded"
| "engine_words op device filesystem forwarded (token # rest) =
     (if token = ''--version'' then Engine_version
      else if token = ''--list-plugins'' then Engine_plugins
      else if token = ''--list-installed-modules'' then Engine_modules
      else if token = ''--filesystem''
      then (case rest of [] \<Rightarrow> Engine_usage | v # others \<Rightarrow> engine_words op device v forwarded others)
      else if starts_with token ''--filesystem='' then engine_words op device (drop 13 token) forwarded rest
      else if op = [] \<and> plain_word token then engine_words token device filesystem forwarded rest
      else if device = [] \<and> plain_word token then engine_words op token filesystem forwarded rest
      else engine_words op device filesystem (forwarded @ [token]) rest)"

record engine_env =
  ee_common :: common
  ee_view :: host_view
  ee_modules :: "module_api option module_store"
  ee_programs :: program_host
  ee_json :: json_lib

datatype engine_action =
    Engine_exit int
  | Engine_died string \<comment> \<open>the core ended the process with this message\<close>
  | Engine_prints_version
  | Engine_prints_plugins "string exc"
  | Engine_lists_modules
  | Engine_runs_module string string "string list" \<comment> \<open>\<open>ifs_filesystem_module_run\<close>: format, file, words\<close>
  | Engine_executes "string list" \<comment> \<open>\<open>execv\<close> of the first word\<close>

definition generic_operation :: "string \<Rightarrow> bool" where
  "generic_operation op \<longleftrightarrow> op = ''defrag'' \<or> op = ''growth-defrag'' \<or> op = ''recover''"

definition generic_identifier :: "string \<Rightarrow> bool" where
  "generic_identifier filesystem \<longleftrightarrow> list_all (\<lambda>c. char_in 97 122 c \<or> char_in 48 57 c \<or> c = CHR ''_'') filesystem"

text \<open>The checks of the target: \<open>None\<close> when the engine may go on.\<close>

definition target_gate :: "engine_env \<Rightarrow> path \<Rightarrow> engine_action option" where
  "target_gate E device =
     (case stat_path (ee_view E) device of
        Inl e \<Rightarrow> Some (Engine_exit 2)
      | Inr status \<Rightarrow>
          if \<not> S_ISREG (st_mode status) \<and> \<not> S_ISBLK (st_mode status) then Some (Engine_exit 2)
          else case ld_path_is_mounted (ee_common E) (ee_view E) (Some device) of
            Exit_failure t \<Rightarrow> Some (Engine_died t)
          | Return mounted \<Rightarrow>
              if mounted then Some (Engine_exit 2)
              else if S_ISBLK (st_mode status)
              then (case ld_block_device_has_system_use (ee_common E) (ee_view E) (Some device) (Some True) of
                      (Inl e, in_use) \<Rightarrow> Some (Engine_exit 2)
                    | (Inr u, in_use) \<Rightarrow> if in_use = Some False then None else Some (Engine_exit 2))
              else None)"

definition engine_generic :: "engine_env \<Rightarrow> string \<Rightarrow> path \<Rightarrow> string \<Rightarrow> string list \<Rightarrow> engine_action" where
  "engine_generic E op device filesystem forwarded =
     (if filesystem = [] \<or> length filesystem > 15 \<or> \<not> generic_operation op then Engine_exit 2
      else if \<not> generic_identifier filesystem then Engine_exit 2
      else case ifs_filesystem_module_find_v2 (ee_modules E) (Some filesystem) True 64 of
        None \<Rightarrow> Engine_exit 2
      | Some module_file \<Rightarrow>
          (case target_gate E device of
             Some stop \<Rightarrow> stop
           | None \<Rightarrow> Engine_runs_module filesystem module_file ([''defragmenter-generic-module'', op, device] @ forwarded)))"

definition engine_registered :: "engine_env \<Rightarrow> BackendInfo \<Rightarrow> string \<Rightarrow> path \<Rightarrow> string list \<Rightarrow> engine_action" where
  "engine_registered E b op device forwarded =
     (case operation_for b op of
        None \<Rightarrow> Engine_exit 2
      | Some specification \<Rightarrow>
          (case target_gate E device of
             Some stop \<Rightarrow> stop
           | None \<Rightarrow>
               (case resolve_program (ee_programs E) (os_worker specification) False of
                  Inl e \<Rightarrow> Engine_exit 2
                | Inr worker_path \<Rightarrow>
                    Engine_executes ([worker_path, op, device] @ without_options forwarded (os_unsupported_options specification)))))"

definition engine_main :: "engine_env \<Rightarrow> string list \<Rightarrow> engine_action" where
  "engine_main E words =
     (case engine_words [] [] [] [] words of
        Engine_usage \<Rightarrow> Engine_exit 2
      | Engine_version \<Rightarrow> Engine_prints_version
      | Engine_plugins \<Rightarrow> Engine_prints_plugins (registry_manifest_json (ee_json E) 3)
      | Engine_modules \<Rightarrow> Engine_lists_modules
      | Engine_request op device filesystem forwarded \<Rightarrow>
          if op = [] \<or> device = [] \<or> filesystem = [] then Engine_exit 2
          else case backend_by_fstype filesystem of
            None \<Rightarrow> engine_generic E op device filesystem forwarded
          | Some b \<Rightarrow> engine_registered E b op device forwarded)"


subsection \<open>The mapper\<close>

definition parse_cell_count :: "string \<Rightarrow> u64 option" where
  "parse_cell_count t =
     (if t = [] \<or> hd t = CHR ''-'' \<or> hd t = CHR ''+'' then None
      else case whole_digits t of
        None \<Rightarrow> None
      | Some n \<Rightarrow> if \<not> n < 2 ^ 64 \<or> n = 0 \<or> (word_of_nat n :: u64) > kMaxMapCells then None else Some (word_of_nat n))"

datatype mapper_request =
    Mapper_usage
  | Mapper_version
  | Mapper_request string string u64 bool bool \<comment> \<open>path, file system, cells, list, probe\<close>

fun mapper_words :: "string \<Rightarrow> string \<Rightarrow> u64 \<Rightarrow> bool \<Rightarrow> bool \<Rightarrow> string list \<Rightarrow> mapper_request" where
  "mapper_words p filesystem cells list_them probe [] = Mapper_request p filesystem cells list_them probe"
| "mapper_words p filesystem cells list_them probe (token # rest) =
     (if token = ''--version'' then Mapper_version
      else if token = ''--list-backends'' then mapper_words p filesystem cells True probe rest
      else if token = ''--probe'' then mapper_words p filesystem cells list_them True rest
      else if token = ''--fstype''
      then (case rest of
              [] \<Rightarrow> Mapper_usage
            | v # others \<Rightarrow> if v = [] then Mapper_usage else mapper_words p v cells list_them probe others)
      else if starts_with token ''--fstype=''
      then (if drop 9 token = [] then Mapper_usage else mapper_words p (drop 9 token) cells list_them probe rest)
      else if token = ''--cells''
      then (case rest of
              [] \<Rightarrow> Mapper_usage
            | v # others \<Rightarrow>
                (case parse_cell_count v of
                   None \<Rightarrow> Mapper_usage
                 | Some n \<Rightarrow> mapper_words p filesystem n list_them probe others))
      else if starts_with token ''--cells=''
      then (case parse_cell_count (drop 8 token) of
              None \<Rightarrow> Mapper_usage
            | Some n \<Rightarrow> mapper_words p filesystem n list_them probe rest)
      else if \<not> plain_word token then Mapper_usage
      else if p \<noteq> [] then Mapper_usage
      else mapper_words token filesystem cells list_them probe rest)"

text \<open>The first candidate that identifies the volume, with the name it gives.\<close>

fun first_identified :: "map_env \<Rightarrow> path \<Rightarrow> BackendInfo list \<Rightarrow> (BackendInfo \<times> string) option" where
  "first_identified E p [] = None"
| "first_identified E p (b # bs) =
     (let identified = backend_identified_filesystem E b p
      in if identified \<noteq> [] then Some (b, identified) else first_identified E p bs)"

definition map_selection :: "map_env \<Rightarrow> string \<Rightarrow> path \<Rightarrow> bool \<Rightarrow> (BackendInfo \<times> string) option exc" where
  "map_selection E filesystem p probe =
     (if filesystem = ''vfat'' \<or> filesystem = ''fat'' \<or> filesystem = ''msdos''
      then Inr (first_identified E p (List.map_filter backend_by_fstype [''fat12'', ''fat16'', ''fat32'']))
      else if filesystem \<noteq> []
      then Inr (case backend_by_fstype filesystem of
                  None \<Rightarrow> None
                | Some b \<Rightarrow>
                    if \<not> probe then Some (b, [])
                    else let identified = backend_identified_filesystem E b p
                         in if identified = [] then None else Some (b, identified))
      else and_then backend_registry (\<lambda>registry. Inr (first_identified E p registry)))"

definition entry_operations :: "string \<Rightarrow> json list \<Rightarrow> json exc" where
  "entry_operations ident entries =
     foldr (\<lambda>entry others. and_then (json_at entry ''id'') (\<lambda>v. if string_or v [] = ident then json_at entry ''operations'' else others))
       entries (Inr (JArray []))"

definition probe_result :: "map_env \<Rightarrow> BackendInfo \<Rightarrow> string \<Rightarrow> json exc" where
  "probe_result E b identified =
     and_then (registry_manifest_json (me_json E) 2) (\<lambda>t.
     and_then (json_parse (me_json E) t) (\<lambda>manifest.
     and_then (json_at manifest ''backends'') (\<lambda>backends.
     and_then (json_array backends) (\<lambda>entries.
     and_then (entry_operations (bi_id b) entries) (\<lambda>operations.
       Inr (JObject (insert_members []
         [(''filesystem'', JString identified), (''backend_id'', JString (bi_id b)),
          (''capabilities'', json_unsigned (ucast (bi_capabilities b))), (''map_accuracy'', JString (bi_map_accuracy b)),
          (''operations'', operations)])))))))"

datatype mapper_action =
    Mapper_exit int
  | Mapper_prints_version
  | Mapper_prints string
  | Mapper_uncaught string \<comment> \<open>an exception outside the handler\<close>

definition mapper_report :: "map_env \<Rightarrow> string \<Rightarrow> path \<Rightarrow> u64 \<Rightarrow> bool \<Rightarrow> mapper_action exc" where
  "mapper_report E filesystem p cells probe =
     and_then (map_selection E filesystem p probe) (\<lambda>selection.
       case selection of
         None \<Rightarrow> Inr (Mapper_exit 2)
       | Some (b, identified) \<Rightarrow>
           if probe
           then let name = (if identified = [] then backend_identified_filesystem E b p else identified)
                in if name = [] then Inr (Mapper_exit 2)
                   else and_then (probe_result E b name) (\<lambda>j. and_then (json_dump (me_json E) j) (\<lambda>t. Inr (Mapper_prints t)))
           else and_then (map_backend E b p (max 1 cells)) (\<lambda>j.
                and_then (demand (is_object j) ''allocation mapper produced non-object result'') (\<lambda>_.
                and_then (json_set j ''capabilities'' (json_unsigned (ucast (bi_capabilities b)))) (\<lambda>j.
                and_then (json_set j ''backend_id'' (JString (bi_id b))) (\<lambda>j.
                and_then (json_dump (me_json E) j) (\<lambda>t. Inr (Mapper_prints t)))))))"

definition mapper_main :: "map_env \<Rightarrow> string list \<Rightarrow> mapper_action" where
  "mapper_main E words =
     (case mapper_words [] [] 4096 False False words of
        Mapper_usage \<Rightarrow> Mapper_exit 2
      | Mapper_version \<Rightarrow> Mapper_prints_version
      | Mapper_request p filesystem cells list_them probe \<Rightarrow>
          if list_them
          then (case registry_manifest_json (me_json E) 2 of Inl e \<Rightarrow> Mapper_uncaught e | Inr t \<Rightarrow> Mapper_prints t)
          else if p = [] then Mapper_exit 2
          else case mapper_report E filesystem p cells probe of Inl e \<Rightarrow> Mapper_exit 1 | Inr a \<Rightarrow> a)"



subsection \<open>What the engine runs\<close>

definition target_free :: "engine_env \<Rightarrow> path \<Rightarrow> bool" where
  "target_free E device \<longleftrightarrow>
     (\<exists>status. stat_path (ee_view E) device = Inr status \<and> (S_ISREG (st_mode status) \<or> S_ISBLK (st_mode status)) \<and>
        ld_path_is_mounted (ee_common E) (ee_view E) (Some device) = Return False \<and>
        (S_ISBLK (st_mode status) \<longrightarrow>
           ld_block_device_has_system_use (ee_common E) (ee_view E) (Some device) (Some True) = (Inr (), Some False)))"

lemma gate_free: "target_gate E device = None \<longleftrightarrow> target_free E device"
  by (auto simp: target_gate_def target_free_def split: sum.splits proc.splits if_splits prod.splits)

lemma gate_stops: "target_gate E device = Some a \<Longrightarrow> a = Engine_exit 2 \<or> (\<exists>t. a = Engine_died t)"
  by (auto simp: target_gate_def split: sum.splits proc.splits if_splits prod.splits)

text \<open>
  Property C25. The operation engine starts nothing on a target in use. When \<open>engine_main\<close> executes a worker or runs a module, the
  target is a regular file or a block device, it is not mounted, and a block device is proved free of system use. A worker is
  the one resolved without environment override for an operation its back end declares; a module is the single trusted one that
  claims a short lower-case identifier no back end has.
\<close>

theorem engine_runs_guarded:
  "(engine_main E words = Engine_executes command \<longrightarrow>
     (\<exists>op device filesystem forwarded b specification worker_path.
        engine_words [] [] [] [] words = Engine_request op device filesystem forwarded \<and> target_free E device \<and>
        backend_by_fstype filesystem = Some b \<and> operation_for b op = Some specification \<and>
        resolve_program (ee_programs E) (os_worker specification) False = Inr worker_path \<and>
        command = [worker_path, op, device] @ without_options forwarded (os_unsupported_options specification))) \<and>
   (engine_main E words = Engine_runs_module filesystem module_file argv \<longrightarrow>
     (\<exists>op device forwarded. engine_words [] [] [] [] words = Engine_request op device filesystem forwarded \<and> target_free E device \<and>
        backend_by_fstype filesystem = None \<and> op \<in> {''defrag'', ''growth-defrag'', ''recover''} \<and> length filesystem \<in> {1..15} \<and>
        generic_identifier filesystem \<and> ifs_filesystem_module_find_v2 (ee_modules E) (Some filesystem) True 64 = Some module_file \<and>
        argv = [''defragmenter-generic-module'', op, device] @ forwarded))"
proof (cases "engine_words [] [] [] [] words")
  case (Engine_request op device fs forwarded)
  show ?thesis
  proof (cases "op = [] \<or> device = [] \<or> fs = []")
    case False
    then have main: "engine_main E words = (case backend_by_fstype fs of None \<Rightarrow> engine_generic E op device fs forwarded
        | Some b \<Rightarrow> engine_registered E b op device forwarded)"
      by (simp add: engine_main_def Engine_request)
    show ?thesis
    proof (cases "backend_by_fstype fs")
      case None
      have "length fs \<in> {1..15}" if "\<not> length fs > 15" using that False by (cases fs) auto
      then show ?thesis
        using None Engine_request gate_free [of E device] gate_stops [of E device] False
        unfolding main
        by (auto simp: engine_generic_def generic_operation_def split: if_splits option.splits)
    next
      case (Some b)
      then show ?thesis
        using Engine_request gate_free [of E device] gate_stops [of E device] unfolding main
        by (auto simp: engine_registered_def split: option.splits sum.splits)
    qed
  qed (simp add: engine_main_def Engine_request)
qed (simp_all add: engine_main_def)


text \<open>An image that nothing uses.\<close>

definition idle_view :: host_view where
  "idle_view = image_host\<lparr>list_directory := \<lambda>p. Inr ([], None)\<rparr>"

definition demo_engine :: engine_env where
  "demo_engine =
     \<lparr>ee_common = demo_common, ee_view = idle_view,
      ee_modules = \<lparr>ms_system = None, ms_filesystems = None, ms_entries = None, ms_open = \<lambda>n. None, ms_dlopen = \<lambda>n. None\<rparr>,
      ee_programs = demo_program_host, ee_json = demo_json_lib\<rparr>"

lemma demo_free: "target_gate demo_engine ''/img'' = None"
proof -
  have image: "stat_path idle_view ''/img'' = Inr demo_image" "realpath idle_view ''/img'' = Inr ''/img''"
    by (simp_all add: idle_view_def image_host_def demo_host_def demo_view_def)
  have "ld_mount_source_matches_regular_identity demo_common idle_view demo_image = Return False"
    by (simp add: ld_mount_source_matches_regular_identity_def idle_view_def image_host_def demo_host_def)
  moreover have "ld_regular_file_has_loop_mapping demo_common idle_view demo_image True = Return False"
    by (simp add: ld_regular_file_has_loop_mapping_def idle_view_def)
  moreover have "ld_regular_file_is_active_swap demo_common idle_view demo_image = Return False"
    by (simp add: ld_regular_file_is_active_swap_def active_swap_def idle_view_def image_host_def demo_host_def swap_lines_def mountinfo_path_def
      swaps_path_def)
  moreover have kind: "S_ISREG (st_mode demo_image)" "\<not> S_ISBLK (st_mode demo_image)"
    by (simp_all add: demo_image_def S_ISREG_def S_ISBLK_def S_IFMT_def)
  ultimately have "ld_path_is_mounted demo_common idle_view (Some ''/img'') = Return False"
    by (simp add: ld_path_is_mounted_def image ld_regular_file_is_mounted_identity_def proc_or_def)
  then show ?thesis by (simp add: target_gate_def demo_engine_def image kind)
qed

lemma demo_fat_worker:
  obtains b spec where "backend_by_fstype ''fat16'' = Some b" "operation_for b ''defrag'' = Some spec"
    "os_worker spec = ''fat-native''" "os_unsupported_options spec = []"
proof -
  have "map_option (\<lambda>b. map_option (\<lambda>op. (os_worker op, os_unsupported_options op)) (operation_for b ''defrag'')) (backend_by_fstype ''fat16'') =
      Some (Some (''fat-native'', []))"
    by code_simp
  then show ?thesis using that by (auto simp: map_option_case split: option.splits)
qed

lemma demo_engine_runs:
  "engine_main demo_engine [''defrag'', ''/img'', ''--filesystem'', ''fat16'', ''--write''] =
     Engine_executes [''/opt/build/defragmenter-fat-worker'', ''defrag'', ''/img'', ''--write'']"
proof -
  obtain b spec where fat: "backend_by_fstype ''fat16'' = Some b" "operation_for b ''defrag'' = Some spec"
    "os_worker spec = ''fat-native''" "os_unsupported_options spec = []" by (rule demo_fat_worker)
  have "resolve_program demo_program_host ''fat-native'' False = Inr ''/opt/build/defragmenter-fat-worker''" by code_simp
  then have "engine_registered demo_engine b ''defrag'' ''/img'' [''--write''] =
      Engine_executes [''/opt/build/defragmenter-fat-worker'', ''defrag'', ''/img'', ''--write'']"
    by (simp add: engine_registered_def fat(2-4) demo_free without_options_def) (simp add: demo_engine_def fat(4) without_options_def)
  moreover have "engine_words [] [] [] [] [''defrag'', ''/img'', ''--filesystem'', ''fat16'', ''--write''] =
      Engine_request ''defrag'' ''/img'' ''fat16'' [''--write'']"
    by (simp add: starts_with_def plain_word_def)
  ultimately show ?thesis by (simp add: engine_main_def fat(1))
qed

theorem engine_runs_guarded_witness:
  "target_free demo_engine ''/img'' \<and>
   resolve_program demo_program_host ''fat-native'' False = Inr ''/opt/build/defragmenter-fat-worker''"
proof -
  have words: "engine_words [] [] [] [] [''defrag'', ''/img'', ''--filesystem'', ''fat16'', ''--write''] =
      Engine_request ''defrag'' ''/img'' ''fat16'' [''--write'']"
    by (simp add: starts_with_def plain_word_def)
  have "target_free demo_engine ''/img''"
    using conjunct1 [OF engine_runs_guarded, THEN mp, OF demo_engine_runs] unfolding words by (elim exE conjE) simp
  moreover have "resolve_program demo_program_host ''fat-native'' False = Inr ''/opt/build/defragmenter-fat-worker''" by code_simp
  ultimately show ?thesis ..
qed



subsection \<open>The engine reads what the helper checked\<close>

definition forwarded_options :: "(string \<times> string) list \<Rightarrow> (string \<times> string) list" where
  "forwarded_options opts = filter (\<lambda>m. fst m \<noteq> ''--filesystem'') opts"

lemma plain_forwarded:
  assumes "v \<noteq> []" "plain_word v" "op \<noteq> []" "device \<noteq> []"
  shows "engine_words op device fs forwarded (v # rest) = engine_words op device fs (forwarded @ [v]) rest"
proof -
  obtain c t where v: "v = c # t" "c \<noteq> CHR ''-''" using assms(1,2) by (cases v) (auto simp: plain_word_def)
  have "v \<noteq> ''--version''" "v \<noteq> ''--list-plugins''" "v \<noteq> ''--list-installed-modules''" "v \<noteq> ''--filesystem''"
    "\<not> starts_with v ''--filesystem=''"
    using v(2) by (simp_all add: v(1) starts_with_def)
  then show ?thesis using assms(3,4) by simp
qed

lemma option_forwarded:
  assumes "k \<in> {''--write'', ''--confirm'', ''--journal'', ''--growth-percent'', ''--batch-clusters'', ''--ram-buffer'', ''--live-map-cells''}"
    "op \<noteq> []" "device \<noteq> []"
  shows "engine_words op device fs forwarded (k # rest) = engine_words op device fs (forwarded @ [k]) rest"
proof -
  have "k \<noteq> ''--version''" "k \<noteq> ''--list-plugins''" "k \<noteq> ''--list-installed-modules''" "k \<noteq> ''--filesystem''"
    "\<not> starts_with k ''--filesystem=''"
    using assms(1) by (elim insertE emptyE; simp add: starts_with_def)+
  then show ?thesis using assms(2,3) by simp
qed

lemma takes_value_cases:
  "takes_value k \<Longrightarrow> k = ''--filesystem'' \<or>
     k \<in> {''--write'', ''--confirm'', ''--journal'', ''--growth-percent'', ''--batch-clusters'', ''--ram-buffer'', ''--live-map-cells''}"
  by (simp only: takes_value_def insert_iff empty_iff) argo

lemma engine_reads_options:
  assumes "op \<noteq> []" "device \<noteq> []" "shaped opts" "\<forall>m \<in> set opts. fst m = ''--filesystem'' \<or> plain_word (snd m)"
  shows "engine_words op device fs forwarded (option_words opts) =
    Engine_request op device (last (fs # uses ''--filesystem'' opts)) (forwarded @ option_words (forwarded_options opts))"
  using assms(3,4)
proof (induction opts arbitrary: fs forwarded)
  case (Cons m opts)
  obtain k v where m: "m = (k, v)" by (cases m)
  have rest: "shaped opts" "\<forall>m \<in> set opts. fst m = ''--filesystem'' \<or> plain_word (snd m)" using Cons.prems by simp_all
  show ?case
  proof (cases "k = ''--write''")
    case True
    have "engine_words op device fs forwarded (''--write'' # option_words opts) =
        engine_words op device fs (forwarded @ [''--write'']) (option_words opts)"
      by (rule option_forwarded [OF _ assms(1,2)]) simp
    then show ?thesis using Cons.IH [OF rest] True by (simp add: m forwarded_options_def)
  next
    case False
    then have v: "takes_value k" "v \<noteq> []" using Cons.prems(1) by (simp_all add: m)
    show ?thesis
    proof (cases "k = ''--filesystem''")
      case True
      then show ?thesis using Cons.IH [OF rest] by (simp add: m forwarded_options_def)
    next
      case other: False
      then have "plain_word v" using Cons.prems(2) by (simp add: m)
      then have "engine_words op device fs forwarded (k # v # option_words opts) =
          engine_words op device fs (forwarded @ [k, v]) (option_words opts)"
        using option_forwarded [OF _ assms(1,2), of k] takes_value_cases [OF v(1)] other plain_forwarded [OF v(2) _ assms(1,2)]
        by simp
      then show ?thesis using Cons.IH [OF rest] False other by (simp add: m forwarded_options_def)
    qed
  qed
qed (simp add: forwarded_options_def)


lemma engine_reads_words:
  assumes "op \<noteq> []" "plain_word op" "device \<noteq> []" "plain_word device" "shaped opts"
    "\<forall>m \<in> set opts. fst m = ''--filesystem'' \<or> plain_word (snd m)" "uses ''--filesystem'' opts = [fs]"
  shows "engine_words [] [] [] [] (op # device # option_words opts) =
    Engine_request op device fs (option_words (forwarded_options opts))"
proof -
  have special: "v \<notin> {''--version'', ''--list-plugins'', ''--list-installed-modules'', ''--filesystem''} \<and> \<not> starts_with v ''--filesystem=''"
    if plain: "v \<noteq> []" "plain_word v" for v
  proof -
    obtain c t where "v = c # t" "c \<noteq> CHR ''-''" using plain by (cases v) (auto simp: plain_word_def)
    then show ?thesis by (simp add: starts_with_def)
  qed
  have "engine_words [] [] [] [] (op # device # option_words opts) = engine_words op device [] [] (option_words opts)"
    using special [OF assms(1,2)] special [OF assms(3,4)] assms(1-4) by simp
  then show ?thesis using engine_reads_options [OF assms(1,3,5,6)] assms(7) by simp
qed

text \<open>
  Property C26. The engine reads a request as the helper checked it, as long as no option value begins with a hyphen: the operation,
  the device and the one validated file-system identifier are the ones checked, and the other options reach the worker in order.
\<close>

theorem engine_reads_request:
  assumes "helper_command ''operation-engine'' (op # device # option_words opts) uid = Inr c" "shaped opts"
    "\<forall>m \<in> set opts. fst m = ''--filesystem'' \<or> plain_word (snd m)"
  shows "\<exists>fs. uses ''--filesystem'' opts = [fs] \<and> valid_filesystem_identifier fs \<and>
    engine_words [] [] [] [] (op # device # option_words opts) = Engine_request op device fs (option_words (forwarded_options opts))"
proof -
  have "validate_operation_args (op # device # option_words opts) uid = Inr ()"
    using assms(1) by (auto simp: helper_command_def split: sum.splits)
  then have ok: "mutating_operation op" "is_absolute device" "granted op device opts request_start"
      "check_request op uid (granted_state opts request_start) = Inr ()"
    using request_checked [OF assms(2)] by blast+
  obtain fs where fs: "uses ''--filesystem'' opts = [fs]" "valid_filesystem_identifier fs"
    using granted_uses(2) [OF ok(3,4) assms(2)] by blast
  have "op \<noteq> [] \<and> plain_word op" using ok(1) by (auto simp: mutating_operation_def plain_word_def)
  moreover have "device \<noteq> [] \<and> plain_word device"
    using ok(2) by (cases device) (auto simp: is_absolute_def plain_word_def)
  ultimately show ?thesis using engine_reads_words [OF _ _ _ _ assms(2,3) fs(1)] fs by blast
qed

text \<open>Without that condition it does not: the value of a tuning option can replace the file system the helper checked.\<close>

definition smuggled_request :: "string list" where
  "smuggled_request =
     [''defrag'', ''/dev/sdb1'', ''--filesystem'', ''fat16'', ''--write'', ''--confirm'', ''/dev/sdb1'', ''--journal'',
      ''/var/lib/defragmenter/state/1000/a.journal'', ''--ram-buffer'', ''--filesystem=ntfs'']"

lemma smuggled_filesystem:
  "helper_command ''operation-engine'' smuggled_request 1000 = Inr \<lparr>hc_executable = kOperationEngine, hc_arguments = smuggled_request\<rparr>"
  "\<exists>forwarded. engine_words [] [] [] [] smuggled_request = Engine_request ''defrag'' ''/dev/sdb1'' ''ntfs'' forwarded"
proof -
  show "helper_command ''operation-engine'' smuggled_request 1000 =
      Inr \<lparr>hc_executable = kOperationEngine, hc_arguments = smuggled_request\<rparr>"
    unfolding smuggled_request_def by code_simp
  show "\<exists>forwarded. engine_words [] [] [] [] smuggled_request = Engine_request ''defrag'' ''/dev/sdb1'' ''ntfs'' forwarded"
    by (simp add: smuggled_request_def starts_with_def plain_word_def)
qed


theorem engine_reads_request_witness:
  "engine_words [] [] [] []
     (''defrag'' # ''/dev/sdb1'' # option_words [(''--filesystem'', ''fat16''), (''--write'', []), (''--confirm'', ''/dev/sdb1''),
        (''--journal'', ''/var/lib/defragmenter/state/1000/a.journal''), (''--ram-buffer'', ''auto'')]) =
   Engine_request ''defrag'' ''/dev/sdb1'' ''fat16''
     [''--write'', ''--confirm'', ''/dev/sdb1'', ''--journal'', ''/var/lib/defragmenter/state/1000/a.journal'', ''--ram-buffer'', ''auto'']"
proof -
  let ?opts = "[(''--filesystem'', ''fat16''), (''--write'', []), (''--confirm'', ''/dev/sdb1''),
        (''--journal'', ''/var/lib/defragmenter/state/1000/a.journal''), (''--ram-buffer'', ''auto'')]"
  have "\<exists>c. helper_command ''operation-engine'' (''defrag'' # ''/dev/sdb1'' # option_words ?opts) 1000 = Inr c"
  proof
    show "helper_command ''operation-engine'' (''defrag'' # ''/dev/sdb1'' # option_words ?opts) 1000 =
        Inr \<lparr>hc_executable = kOperationEngine, hc_arguments = ''defrag'' # ''/dev/sdb1'' # option_words ?opts\<rparr>"
      by code_simp
  qed
  then obtain c where c: "helper_command ''operation-engine'' (''defrag'' # ''/dev/sdb1'' # option_words ?opts) 1000 = Inr c" ..
  have "shaped ?opts" by (simp add: takes_value_def)
  moreover have "\<forall>m \<in> set ?opts. fst m = ''--filesystem'' \<or> plain_word (snd m)" by (simp add: plain_word_def)
  ultimately show ?thesis using engine_reads_request [OF c] by (auto simp: forwarded_options_def)
qed

abbreviation (input) volume_path :: "DesktopVolume \<Rightarrow> path" where "volume_path v \<equiv> DesktopVolume.dv_path v"

definition worker_words :: "DesktopVolume \<Rightarrow> OperationSpec \<Rightarrow> string \<Rightarrow> path \<Rightarrow> u32 \<Rightarrow> string list" where
  "worker_words v spec op_name journal cells =
     [''--write'', ''--confirm'', volume_path v, ''--journal'', journal] @ os_default_options spec @
     (if op_name = ''growth-defrag'' then [''--growth-percent'', ''10''] else []) @
     (if op_name \<noteq> ''recover'' then [''--live-map-cells'', show_u32 (clamp_cells cells)] else [])"

lemma mutation_forwarded:
  assumes "option_words (default_pairs (os_default_options spec)) = os_default_options spec"
  shows "option_words (forwarded_options (mutation_options v spec op_name j cells)) = worker_words v spec op_name j cells"
proof -
  have "forwarded_options (default_pairs options) = default_pairs options" for options
    by (simp add: forwarded_options_def default_pairs_def)
  moreover have "forwarded_options (xs @ ys) = forwarded_options xs @ forwarded_options ys" for xs ys
    by (simp add: forwarded_options_def)
  ultimately show ?thesis using assms by (simp add: mutation_options_def worker_words_def) (simp add: forwarded_options_def)
qed

lemma mutation_plain:
  assumes "plain_word (volume_path v)" "plain_word j"
  shows "\<forall>m \<in> set (mutation_options v spec op_name j cells). fst m = ''--filesystem'' \<or> plain_word (snd m)"
proof -
  have "plain_word (show_u32 n)" for n
    using show_nat_digits [of "unat n"] by (cases "show_u32 n") (auto simp: plain_word_def is_digit_def)
  moreover have "\<forall>m \<in> set (default_pairs options). plain_word (snd m)" for options
    by (simp add: default_pairs_def plain_word_def)
  ultimately show ?thesis using assms by (auto simp: mutation_options_def plain_word_def)
qed

lemma mutation_words_read:
  assumes "b \<in> set registry_entries" "spec \<in> set (bi_operations b)" "op_name \<in> {''defrag'', ''growth-defrag'', ''recover''}"
    "dv_filesystem v \<noteq> []" "is_absolute (volume_path v)"
  shows "engine_words [] [] [] [] (mutation_words v spec op_name (desktop_journal sha256 v uid) cells) =
    Engine_request op_name (volume_path v) (dv_filesystem v) (worker_words v spec op_name (desktop_journal sha256 v uid) cells)"
proof -
  let ?j = "desktop_journal sha256 v uid"
  have parts: "volume_path v \<noteq> []" "?j \<noteq> []" "plain_word (volume_path v)" "plain_word ?j"
    using assms(5) by (auto simp: is_absolute_def plain_word_def desktop_journal_def Let_def)
  note opts = mutation_options_checked [OF assms(3,4) parts(1,2), of spec cells]
  have op: "op_name \<noteq> []" "plain_word op_name" using assms(3) by (auto simp: plain_word_def)
  have "option_words (default_pairs (os_default_options spec)) = os_default_options spec"
    using registry_defaults assms(1,2) by (auto simp: list_all_iff)
  then show ?thesis
    unfolding mutation_words_options [OF assms(1,2)]
    using engine_reads_words [OF op parts(1,3) opts(1) mutation_plain [OF parts(3,4)] opts(3)] mutation_forwarded by simp
qed

text \<open>
  Property C27. A mutation the desktop asks for reaches the worker unchanged: on the words it hands to the helper the engine either
  refuses the target, or executes the worker of the volume's back end with the same operation, device, confirmation, journal and
  options, whatever the environment; only options the worker declares unsupported are dropped.
\<close>

theorem request_reaches_worker:
  assumes "desktop_mutation v op_name engine (desktop_journal sha256 v uid) cells journal_exists = Inr args" "is_absolute (volume_path v)"
  shows "\<exists>b spec. backend_by_fstype (dv_filesystem v) = Some b \<and> operation_for b op_name = Some spec \<and>
    engine_main E (tl args) =
      (case target_gate E (volume_path v) of
         Some stop \<Rightarrow> stop
       | None \<Rightarrow>
           (case resolve_program (ee_programs E) (os_worker spec) False of
              Inl e \<Rightarrow> Engine_exit 2
            | Inr worker_path \<Rightarrow>
                Engine_executes ([worker_path, op_name, volume_path v] @
                  without_options (worker_words v spec op_name (desktop_journal sha256 v uid) cells) (os_unsupported_options spec))))"
proof -
  let ?j = "desktop_journal sha256 v uid"
  obtain b spec where m: "backend_by_fstype (dv_filesystem v) = Some b" "operation_for b op_name = Some spec"
      "args = engine # mutation_words v spec op_name ?j cells"
    by (rule mutation_facts [OF assms(1)])
  have b: "b \<in> set registry_entries" using m(1) lookup_exact by blast
  have spec: "spec \<in> set (bi_operations b)" "os_name spec = op_name"
    using m(2) by (auto simp: operation_for_def find_Some_iff)
  then have "op_name \<in> set (map os_name (bi_operations b))" by auto
  then have op: "op_name \<in> {''defrag'', ''growth-defrag'', ''recover''}"
    using registry_operations b by (auto split: if_splits)
  have "valid_filesystem_identifier (dv_filesystem v)" using registered_identifier m(1) .
  then have fs: "dv_filesystem v \<noteq> []" by (auto simp: valid_filesystem_identifier_def)
  have "volume_path v \<noteq> []" "op_name \<noteq> []" using assms(2) op by (auto simp: is_absolute_def)
  then have "engine_main E (tl args) = engine_registered E b op_name (volume_path v) (worker_words v spec op_name ?j cells)"
    using mutation_words_read [OF b spec(1) op fs assms(2)] m(1,3) fs by (simp add: engine_main_def)
  then show ?thesis using m(1,2) unfolding engine_registered_def by auto
qed

theorem request_reaches_worker_witness:
  "\<exists>args. desktop_mutation demo_ready ''defrag'' ''engine'' (desktop_journal demo_digest demo_ready 1000) 512 False = Inr args \<and>
     (\<exists>b. backend_by_fstype ''fat16'' = Some b) \<and>
     engine_main demo_engine (tl args) = Engine_exit 2"
proof -
  have "desktop_mutation demo_ready ''defrag'' ''engine'' (desktop_journal demo_digest demo_ready 1000) 512 False =
      Inr (''engine'' # [''defrag'', ''/dev/sdb1'', ''--filesystem'', ''fat16'', ''--write'', ''--confirm'', ''/dev/sdb1'', ''--journal'',
       ''/var/lib/defragmenter/state/1000/dev_sdb1-0000000000000000.journal'', ''--batch-clusters'', ''4096'', ''--ram-buffer'', ''auto'',
       ''--live-map-cells'', ''512''])"
    by code_simp
  then obtain args where args: "desktop_mutation demo_ready ''defrag'' ''engine'' (desktop_journal demo_digest demo_ready 1000) 512 False = Inr args"
    by blast
  have path: "volume_path demo_ready = ''/dev/sdb1''" "dv_filesystem demo_ready = ''fat16''" by (simp_all add: demo_ready_def new_volume_def)
  have "stat_path (ee_view demo_engine) ''/dev/sdb1'' = Inl ENOENT"
    by (simp add: demo_engine_def idle_view_def image_host_def)
  then have "target_gate demo_engine ''/dev/sdb1'' = Some (Engine_exit 2)" by (simp add: target_gate_def)
  moreover have "is_absolute (volume_path demo_ready)" by (simp add: path is_absolute_def)
  ultimately show ?thesis
    using request_reaches_worker [OF args, of demo_engine] args unfolding path by auto
qed

subsection \<open>The mapper reads what the helper checked\<close>

lemma cell_counts_agree: "parse_cell_count t = Some n \<longleftrightarrow> parse_mapper_cells t = Inr n"
proof -
  have digits: "nat_of_digits t = digits_after 0 t" by (rule nat_of_digits_after)
  have "hd t \<noteq> CHR ''-'' \<and> hd t \<noteq> CHR ''+''" if "t \<noteq> []" "list_all is_digit t"
    using that by (cases t) (auto simp: is_digit_def)
  moreover have "parse_mapper_cells t = Inr n \<longleftrightarrow> t \<noteq> [] \<and> cell_digits 0 t = Inr n \<and> n \<noteq> 0 \<and> \<not> n > kMaxMapCells"
    by (auto simp: parse_mapper_cells_def split: sum.splits if_splits)
  moreover have "cell_digits 0 t = Inr n \<longleftrightarrow> list_all is_digit t \<and> nat_of_digits t = unat n \<and> unat n \<le> 1048576"
    using cell_digits_exact [of 0 t n] digits by simp
  moreover have "nat_of_digits t < 2 ^ 64 \<and> word_of_nat (nat_of_digits t) = n \<longleftrightarrow> nat_of_digits t = unat n"
    using unat_lt64 [of n] by (auto simp: unsigned_of_nat take_bit_nat_eq_self)
  moreover have "\<not> n > kMaxMapCells \<longleftrightarrow> unat n \<le> 1048576" by (simp add: not_less word_le_nat_alt kMaxMapCells_def)
  ultimately show ?thesis
    by (auto simp: parse_cell_count_def whole_digits_def unat_eq_zero split: if_splits)
qed


lemma mapper_reads_words:
  assumes "authorised_device device" "valid_filesystem_identifier fs" "parse_mapper_cells cell_text = Inr n"
  shows "mapper_words [] [] cells list_them probe [device, ''--fstype'', fs, ''--cells'', cell_text] = Mapper_request device fs n list_them probe"
proof -
  obtain t where device: "device = CHR ''/'' # t" using assms(1) by (auto simp: authorised_device_def)
  have fs: "fs \<noteq> []" using assms(2) by (auto simp: valid_filesystem_identifier_def)
  have "parse_cell_count cell_text = Some n" using cell_counts_agree assms(3) by blast
  moreover have "device \<noteq> ''--version''" "device \<noteq> ''--list-backends''" "device \<noteq> ''--probe''" "device \<noteq> ''--fstype''"
    "device \<noteq> ''--cells''" "\<not> starts_with device ''--fstype=''" "\<not> starts_with device ''--cells=''" "plain_word device"
    by (simp_all add: device starts_with_def plain_word_def)
  ultimately show ?thesis using fs by (simp add: starts_with_def)
qed

lemma first_identified_sound:
  "first_identified E p bs = Some (b, name) \<Longrightarrow> b \<in> set bs \<and> name = backend_identified_filesystem E b p \<and> name \<noteq> []"
  by (induction bs) (auto simp: Let_def split: if_splits)

definition generic_fat_name :: "string \<Rightarrow> bool" where
  "generic_fat_name filesystem \<longleftrightarrow> filesystem = ''vfat'' \<or> filesystem = ''fat'' \<or> filesystem = ''msdos''"



definition demo_final :: json where
  "demo_final =
     (case demo_payload of
        JObject kvs \<Rightarrow>
          JObject (object_set ''backend_id'' (JString ''hfs'')
            (object_set ''capabilities'' (json_unsigned (ucast write_capabilities))
              (object_set ''growth_qualified'' (JBool True) (object_set ''defrag_qualified'' (JBool True) kvs))))
      | _ \<Rightarrow> JNull)"

lemma demo_final_dump: "(case json_dump demo_json_lib demo_final of Inl e \<Rightarrow> False | Inr t \<Rightarrow> True)"
  by code_simp

lemma demo_mapper_request:
  "helper_command ''mapper'' [''/dev/sdb1'', ''--fstype'', ''hfs'', ''--cells'', ''4''] 1000 =
     Inr \<lparr>hc_executable = kMapper, hc_arguments = [''/dev/sdb1'', ''--fstype'', ''hfs'', ''--cells'', ''4'']\<rparr>"
  "validate_device_path ''/dev/sdb1'' ''mapper target'' = Inr ()" "valid_filesystem_identifier ''hfs''" "parse_mapper_cells ''4'' = Inr 4"
  by code_simp+

lemma demo_mapper: "\<exists>t. mapper_main demo_map_env [''/dev/sdb1'', ''--fstype'', ''hfs'', ''--cells'', ''4''] = Mapper_prints t"
proof -
  have read: "mapper_words [] [] 4096 False False [''/dev/sdb1'', ''--fstype'', ''hfs'', ''--cells'', ''4''] =
      Mapper_request ''/dev/sdb1'' ''hfs'' 4 False False"
    using demo_mapper_request(2-4) device_path_authorised mapper_reads_words by blast
  have "backend_by_fstype ''hfs'' = Some demo_backend"
    using demo_same_backend .
  then have selection: "map_selection demo_map_env ''hfs'' ''/dev/sdb1'' False = Inr (Some (demo_backend, []))"
    by (simp add: map_selection_def)
  obtain t where t: "json_dump demo_json_lib demo_final = Inr t" using demo_final_dump by (auto split: sum.splits)
  have preflight: "mutation_qualification demo_map_env demo_backend p mode = \<lparr>mq_qualified = True, mq_reason = []\<rparr>" for p mode
    by (simp add: mutation_qualification_def demo_worker)
  have final: "and_then (map_backend demo_map_env demo_backend ''/dev/sdb1'' 4) (\<lambda>j.
      and_then (demand (is_object j) m) (\<lambda>_.
      and_then (json_set j ''capabilities'' (json_unsigned (ucast (bi_capabilities demo_backend)))) (\<lambda>j.
        json_set j ''backend_id'' (JString (bi_id demo_backend))))) = Inr demo_final" for m
    by (simp add: map_backend_def map_capture_limit_def map_adapter_def demo_backend_fields demo_native qualify_map_def
      demo_writable [unfolded demo_backend_fields] Let_def set_if_absent_def set_reason_def preflight)
      (simp add: preflight demo_payload_def demo_final_def json_find_def json_set_def json_object_def demand_def is_object_def)
  have "mapper_report demo_map_env ''hfs'' ''/dev/sdb1'' 4 False = Inr (Mapper_prints t)"
    using final [of "''allocation mapper produced non-object result''"] t
    by (auto simp: mapper_report_def selection and_then_Inr demo_env)
  then show ?thesis by (simp add: mapper_main_def read del: mapper_words.simps)
qed



end
