(* ===== verification/Child.thy ===== *)
theory Child
  imports Map_Adapters
begin

text \<open>
  Running a child process and capturing its output, \<open>native/process.cpp\<close>. The kernel and the scheduler are the record
  \<open>child_run\<close>: which set-up call fails, what each reader thread reads, and what the parent sees at each turn of its
  waiting loop. Sizes are natural numbers, as the code guards every subtraction.
\<close>

subsection \<open>Reading a stream\<close>

datatype read_event = Read_chunk string | Read_end | Read_failed errno

record stream_state =
  ss_output :: string
  ss_exceeded :: bool
  ss_line :: string
  ss_lines :: "string list" \<comment> \<open>what the observer was given\<close>

definition stream_start :: stream_state where
  "stream_start = \<lparr>ss_output = [], ss_exceeded = False, ss_line = [], ss_lines = []\<rparr>"

definition observe_char :: "char \<Rightarrow> stream_state \<Rightarrow> stream_state" where
  "observe_char c s =
     (if c = newline then s\<lparr>ss_line := [], ss_lines := ss_lines s @ [ss_line s]\<rparr>
      else if length (ss_line s) < 4096 then s\<lparr>ss_line := ss_line s @ [c]\<rparr>
      else s)"

definition take_chunk :: "nat \<Rightarrow> string \<Rightarrow> stream_state \<Rightarrow> stream_state" where
  "take_chunk limit chunk s =
     (let available = (if length (ss_output s) < limit then limit - length (ss_output s) else 0);
          kept = min available (length chunk);
          s = (if kept \<noteq> 0 then s\<lparr>ss_output := ss_output s @ take kept chunk\<rparr> else s)
      in if kept < length chunk then s\<lparr>ss_exceeded := True\<rparr> else s)"

fun read_stream :: "nat \<Rightarrow> bool \<Rightarrow> read_event list \<Rightarrow> stream_state \<Rightarrow> stream_state" where
  "read_stream limit observed [] s = s"
| "read_stream limit observed (Read_end # events) s = s"
| "read_stream limit observed (Read_failed e # events) s = (if e = EINTR then read_stream limit observed events s else s)"
| "read_stream limit observed (Read_chunk chunk # events) s =
     (if chunk = [] then s
      else
        let s = (if observed then fold observe_char chunk s else s);
            s = take_chunk limit chunk s
        in if ss_exceeded s then s else read_stream limit observed events s)"


subsection \<open>Starting and awaiting the child\<close>

definition child_environment :: "string list \<Rightarrow> string list" where
  "child_environment inherited =
     filter (\<lambda>v. \<not> (starts_with v ''LC_ALL='' \<or> starts_with v ''LANG='')) inherited @ [''LC_ALL=C'', ''LANG=C'']"

definition setup_calls :: "string list" where
  "setup_calls =
     [''pipe stdout'', ''pipe stderr'', ''posix_spawn_file_actions_init'', ''posix_spawn stdout dup'', ''posix_spawn stderr dup'',
      ''posix_spawn stdout read close'', ''posix_spawn stderr read close'', ''posix_spawn stdout write close'',
      ''posix_spawn stderr write close'', ''posix_spawnattr_init'', ''posix_spawn process group'', ''posix_spawnp'']"

datatype child_status = Exited int | Signalled int | Other_status

datatype wait_result = Reaped child_status | Not_yet | Wait_failed errno

record poll =
  po_wait :: wait_result
  po_exceeded :: bool
  po_cancelled :: bool
  po_elapsed :: u64
  po_reap :: "wait_result list" \<comment> \<open>the blocking calls after a kill\<close>

datatype wait_end =
    Ended child_status
  | Killed_for_output child_status
  | Cancelled child_status
  | Timed_out child_status
  | Wait_error errno

fun reap :: "child_status \<Rightarrow> wait_result list \<Rightarrow> child_status option" where
  "reap status [] = None"
| "reap status (Reaped st # rs) = Some st"
| "reap status (Not_yet # rs) = Some status"
| "reap status (Wait_failed e # rs) = (if e = EINTR then reap status rs else Some status)"

fun wait_loop :: "u64 \<Rightarrow> poll list \<Rightarrow> wait_end option" where
  "wait_loop timeout [] = None"
| "wait_loop timeout (p # ps) =
     (let go_on =
            (if po_exceeded p then map_option Killed_for_output (reap (Exited 0) (po_reap p))
             else if po_cancelled p then map_option Cancelled (reap (Exited 0) (po_reap p))
             else if timeout > 0 \<and> po_elapsed p \<ge> timeout then map_option Timed_out (reap (Exited 0) (po_reap p))
             else wait_loop timeout ps)
      in case po_wait p of
           Reaped st \<Rightarrow> Some (Ended st)
         | Wait_failed e \<Rightarrow> if e \<noteq> EINTR then Some (Wait_error e) else go_on
         | Not_yet \<Rightarrow> go_on)"

definition ESRCH :: errno where "ESRCH = Errno_other 3"

text \<open>The processes (or, when negative, process groups) that are sent \<open>SIGKILL\<close>, given how \<open>kill\<close> fails.\<close>

definition terminate_process_group :: "(int \<Rightarrow> errno option) \<Rightarrow> int \<Rightarrow> int list" where
  "terminate_process_group failure child =
     (if child \<le> 0 then [] else if failure (- child) = Some ESRCH then [- child, child] else [- child])"

definition return_code :: "child_status \<Rightarrow> int" where
  "return_code status = (case status of Exited n \<Rightarrow> n | Signalled n \<Rightarrow> 128 + n | Other_status \<Rightarrow> 126)"

record child_run =
  ch_strerror :: "errno \<Rightarrow> string"
  ch_failing :: "string \<Rightarrow> errno option" \<comment> \<open>the error of a set-up call\<close>
  ch_stdout :: "read_event list"
  ch_stderr :: "read_event list"
  ch_polls :: "poll list"

definition system_error :: "child_run \<Rightarrow> string \<Rightarrow> errno \<Rightarrow> string" where
  "system_error R action e = action @ '': '' @ ch_strerror R e"

definition final_status :: "wait_end \<Rightarrow> child_status" where
  "final_status e =
     (case e of Ended st \<Rightarrow> st | Killed_for_output st \<Rightarrow> st | Cancelled st \<Rightarrow> st | Timed_out st \<Rightarrow> st | Wait_error e \<Rightarrow> Exited 0)"

definition capture_result :: "child_run \<Rightarrow> u64 \<Rightarrow> wait_end \<Rightarrow> CommandResult exc" where
  "capture_result R output_limit ending =
     (case ending of
        Wait_error e \<Rightarrow> Inl (system_error R ''waitpid'' e)
      | _ \<Rightarrow>
          let out = read_stream (unat output_limit) False (ch_stdout R) stream_start;
              err = read_stream (unat output_limit) True (ch_stderr R) stream_start;
              truncated = ((case ending of Killed_for_output st \<Rightarrow> True | _ \<Rightarrow> False) \<or> ss_exceeded out \<or> ss_exceeded err)
          in if truncated then Inl ''child process output exceeded safety limit''
             else if (case ending of Timed_out st \<Rightarrow> True | _ \<Rightarrow> False) then Inl ''child process exceeded execution-time limit''
             else if (case ending of Cancelled st \<Rightarrow> True | _ \<Rightarrow> False) then Inl ''child process cancelled''
             else Inr \<lparr>cr_return_code = return_code (final_status ending), cr_standard_output = ss_output out,
                       cr_standard_error = ss_output err, cr_output_truncated = truncated\<rparr>)"

text \<open>\<open>None\<close> while the child has not ended.\<close>

definition run_capture :: "child_run \<Rightarrow> string list \<Rightarrow> u64 \<Rightarrow> u64 \<Rightarrow> CommandResult exc option" where
  "run_capture R command output_limit timeout =
     (if command = [] \<or> hd command = [] then Some (Inl ''cannot run an empty command'')
      else case List.find (\<lambda>call. ch_failing R call \<noteq> None) setup_calls of
        Some call \<Rightarrow> Some (Inl (system_error R call (the (ch_failing R call))))
      | None \<Rightarrow> map_option (capture_result R output_limit) (wait_loop timeout (ch_polls R)))"



subsection \<open>What a capture returns\<close>

fun stream_text :: "read_event list \<Rightarrow> string" where
  "stream_text [] = []"
| "stream_text (Read_end # events) = []"
| "stream_text (Read_failed e # events) = (if e = EINTR then stream_text events else [])"
| "stream_text (Read_chunk chunk # events) = (if chunk = [] then [] else chunk @ stream_text events)"

lemma observe_keeps [simp]: "ss_output (fold observe_char chunk s) = ss_output s" "ss_exceeded (fold observe_char chunk s) = ss_exceeded s"
  by (induction chunk arbitrary: s) (auto simp: observe_char_def)

lemma take_chunk_exact:
  assumes "\<not> ss_exceeded s" "length (ss_output s) \<le> limit"
  shows "ss_output (take_chunk limit chunk s) = take limit (ss_output s @ chunk)"
    "ss_exceeded (take_chunk limit chunk s) \<longleftrightarrow> limit < length (ss_output s) + length chunk"
    "ss_lines (take_chunk limit chunk s) = ss_lines s" "ss_line (take_chunk limit chunk s) = ss_line s"
  using assms by (auto simp: take_chunk_def Let_def min_def)

lemma read_stream_exact:
  assumes "\<not> ss_exceeded s" "length (ss_output s) \<le> limit"
  shows "ss_output (read_stream limit observed events s) = take limit (ss_output s @ stream_text events) \<and>
    (ss_exceeded (read_stream limit observed events s) \<longleftrightarrow> limit < length (ss_output s @ stream_text events))"
  using assms
proof (induction limit observed events s rule: read_stream.induct)
  case (4 limit observed chunk events s)
  define s1 where "s1 = (if observed then fold observe_char chunk s else s)"
  have s1: "ss_output s1 = ss_output s" "\<not> ss_exceeded s1" using 4(2) by (simp_all add: s1_def)
  then have s2: "ss_output (take_chunk limit chunk s1) = take limit (ss_output s @ chunk)"
      "ss_exceeded (take_chunk limit chunk s1) \<longleftrightarrow> limit < length (ss_output s) + length chunk"
    using take_chunk_exact [of s1 limit chunk] 4(3) by simp_all
  show ?case
  proof (cases "chunk = []")
    case False
    show ?thesis
    proof (cases "ss_exceeded (take_chunk limit chunk s1)")
      case True
      then show ?thesis using False s2 by (simp add: s1_def [symmetric] Let_def)
    next
      case go_on: False
      then have "length (ss_output (take_chunk limit chunk s1)) \<le> limit" using s2 by simp
      then show ?thesis
        using 4(1) [OF False s1_def refl] go_on s2 False by (simp add: s1_def [symmetric] Let_def)
    qed
  qed (use 4 in simp)
qed auto


lemma observe_lines:
  assumes "newline \<notin> set l" "ss_line s = take 4096 l"
  shows "ss_lines (fold observe_char t s) = ss_lines s @ map (take 4096) (butlast (split_char newline (l @ t)))"
  using assms
proof (induction t arbitrary: l s)
  case Nil
  then show ?case by (simp add: split_char_plain)
next
  case (Cons c t)
  show ?case
  proof (cases "c = newline")
    case True
    have "ss_lines (fold observe_char t (observe_char c s)) =
        ss_lines (observe_char c s) @ map (take 4096) (butlast (split_char newline ([] @ t)))"
      by (rule Cons.IH) (simp_all add: observe_char_def True)
    moreover have "ss_lines (observe_char c s) = ss_lines s @ [take 4096 l]" using Cons.prems(2) by (simp add: observe_char_def True)
    ultimately show ?thesis using split_char_append [OF Cons.prems(1), of t] by (simp add: True)
  next
    case False
    have "ss_lines (fold observe_char t (observe_char c s)) =
        ss_lines (observe_char c s) @ map (take 4096) (butlast (split_char newline ((l @ [c]) @ t)))"
      by (rule Cons.IH) (use Cons.prems False in \<open>auto simp: observe_char_def min_def\<close>)
    moreover have "ss_lines (observe_char c s) = ss_lines s" using False by (simp add: observe_char_def)
    ultimately show ?thesis by simp
  qed
qed

lemma observe_same:
  "ss_line a = ss_line b \<Longrightarrow> ss_lines a = ss_lines b \<Longrightarrow> ss_lines (fold observe_char t a) = ss_lines (fold observe_char t b)"
proof (induction t arbitrary: a b)
  case (Cons c t)
  have same: "ss_line (observe_char c a) = ss_line (observe_char c b)" "ss_lines (observe_char c a) = ss_lines (observe_char c b)"
    using Cons.prems by (simp_all add: observe_char_def)
  show ?case using Cons.IH [OF same] by simp
qed simp

lemma read_stream_lines:
  assumes "\<not> ss_exceeded (read_stream limit True events s)" "\<not> ss_exceeded s" "length (ss_output s) \<le> limit"
  shows "ss_lines (read_stream limit True events s) = ss_lines (fold observe_char (stream_text events) s)"
  using assms
proof (induction limit True events s rule: read_stream.induct)
  case (4 limit chunk events s)
  show ?case
  proof (cases "chunk = []")
    case False
    let ?f = "fold observe_char chunk s"
    have kept: "ss_output (take_chunk limit chunk ?f) = take limit (ss_output s @ chunk)"
        "ss_lines (take_chunk limit chunk ?f) = ss_lines ?f" "ss_line (take_chunk limit chunk ?f) = ss_line ?f"
      using take_chunk_exact [of ?f limit chunk] 4(3,4) by simp_all
    have go_on: "\<not> ss_exceeded (take_chunk limit chunk ?f)" using 4(2) False by (auto simp: Let_def split: if_splits)
    then have "ss_lines (read_stream limit True events (take_chunk limit chunk ?f)) =
        ss_lines (fold observe_char (stream_text events) (take_chunk limit chunk ?f))"
      using 4(1) [OF False _ _ go_on] 4(2) False kept(1) go_on by (simp add: Let_def)
    also have "\<dots> = ss_lines (fold observe_char (stream_text events) ?f)" using observe_same kept(2,3) by blast
    finally show ?thesis using False go_on by (simp add: Let_def fold_append)
  qed simp
qed auto

lemma setup_ok: "List.find (\<lambda>call. ch_failing R call \<noteq> None) setup_calls = None \<longleftrightarrow> (\<forall>call \<in> set setup_calls. ch_failing R call = None)"
  by (auto simp: find_None_iff)



definition demo_child :: child_run where
  "demo_child =
     \<lparr>ch_strerror = \<lambda>e. ''error'', ch_failing = \<lambda>call. None, ch_stdout = [Read_chunk ''{'', Read_failed EINTR, Read_chunk ''}'', Read_end],
      ch_stderr = [Read_end],
      ch_polls =
        [\<lparr>po_wait = Not_yet, po_exceeded = False, po_cancelled = False, po_elapsed = 5, po_reap = []\<rparr>,
         \<lparr>po_wait = Reaped (Exited 0), po_exceeded = False, po_cancelled = False, po_elapsed = 10, po_reap = []\<rparr>]\<rparr>"


end
