(* ===== verification/Supervisor.thy ===== *)
theory Supervisor
  imports Helper_Policy Ranges
begin

text \<open>
  The privileged helper itself, \<open>native/privileged_helper.cpp\<close>: its line protocol and the state machine of its three
  threads, the request loop, the worker that runs one command, and the watchdog behind Stop. Each step of the machine is
  one critical section of the helper's mutex or one call that other threads can interleave with; the answers of the kernel
  are chosen freely. Left out: the lines of output and progress passed on, and the test mode.
\<close>

subsection \<open>Request lines\<close>

datatype request_line = Line_end | Line_ok string | Line_too_large

definition kMaxRequestBytes :: nat where "kMaxRequestBytes = 65536"

text \<open>The characters of the line so far, then the input; the result is the line and the input left.\<close>

fun read_request_line :: "string \<Rightarrow> string \<Rightarrow> request_line \<times> string" where
  "read_request_line line [] = (if line = [] then Line_end else Line_ok line, [])"
| "read_request_line line (c # input) =
     (if c = CHR 0x0A then (Line_ok line, input)
      else if length line \<ge> kMaxRequestBytes then (Line_too_large, drop 1 (dropWhile (\<lambda>c. c \<noteq> CHR 0x0A) input))
      else read_request_line (line @ [c]) input)"

definition id_value :: "json \<Rightarrow> json" where
  "id_value message = (case json_find message ''id'' of None \<Rightarrow> JNull | Some v \<Rightarrow> v)"

definition request_id :: "json \<Rightarrow> int exc" where
  "request_id message = (case json_find message ''id'' of None \<Rightarrow> Inr 0 | Some v \<Rightarrow> integer_value v)"

fun string_items :: "json list \<Rightarrow> string list exc" where
  "string_items [] = Inr []"
| "string_items (v # vs) =
     (case v of
        JString t \<Rightarrow>
          and_then (demand (\<not> length t > 4096) ''argv argument exceeds protocol limit'') (\<lambda>_.
          and_then (string_items vs) (\<lambda>ts. Inr (t # ts)))
      | _ \<Rightarrow> Inl ''argv must be a list of strings'')"

definition string_array :: "json \<Rightarrow> string list exc" where
  "string_array v =
     (case v of
        JArray vs \<Rightarrow> if length vs > 128 then Inl ''argv contains too many arguments'' else string_items vs
      | _ \<Rightarrow> Inl ''argv must be a list of strings'')"

datatype request =
    Run_command int string "string list"
  | Run_rejected int string
  | Stop_active json
  | Ping json
  | Quit
  | Unknown_action json
  | Invalid_request string

definition run_request_of :: "json \<Rightarrow> request exc" where
  "run_request_of message =
     and_then (request_id message) (\<lambda>ident.
       let prog = (case json_find message ''program'' of None \<Rightarrow> [] | Some v \<Rightarrow> string_or v [])
       in case json_find message ''argv'' of
            None \<Rightarrow> Inr (Run_rejected ident ''argv must be a list of strings'')
          | Some argv \<Rightarrow> (case string_array argv of Inl e \<Rightarrow> Inr (Run_rejected ident e) | Inr args \<Rightarrow> Inr (Run_command ident prog args)))"

definition parse_request :: "json_lib \<Rightarrow> string \<Rightarrow> request" where
  "parse_request J line =
     (case and_then (json_parse J line) (\<lambda>message.
           and_then (demand (is_object message) ''request must be an object'') (\<lambda>_.
           and_then (case json_find message ''action'' of None \<Rightarrow> Inl ''request is missing action'' | Some v \<Rightarrow> json_string v) (\<lambda>action.
             if action = ''run'' then run_request_of message
             else if action = ''stop'' then Inr (Stop_active (id_value message))
             else if action = ''ping'' then Inr (Ping (id_value message))
             else if action = ''quit'' then Inr Quit
             else Inr (Unknown_action (id_value message))))) of
        Inl e \<Rightarrow> Invalid_request e
      | Inr r \<Rightarrow> r)"


subsection \<open>The shared state\<close>

text \<open>What the helper has done, latest first; a Stop carries whether the run was a writer that announces its readiness.\<close>

datatype helper_event =
    Spawned int HelperCommand
  | Ready int
  | Stop_sent int bool \<comment> \<open>\<open>SIGINT\<close> to the group, for a Stop request\<close>
  | Quit_sent int \<comment> \<open>\<open>SIGINT\<close> to the group, when the helper leaves or lost its client\<close>
  | Kill_sent int \<comment> \<open>\<open>SIGKILL\<close> to the group\<close>
  | Reaped_child int
  | Finished int int

datatype main_pc =
    Main_idle
  | Main_deliver int bool
  | Main_arm int
  | Main_quit int \<comment> \<open>\<open>stop_active_and_wait\<close>, with the group signalled last\<close>
  | Main_quit_kill int int
  | Main_quit_arm int
  | Main_left

datatype worker_pc =
    Worker_none
  | Worker_start int string "string list"
  | Worker_spawned int int \<comment> \<open>request, child\<close>
  | Worker_started int int bool \<comment> \<open>request, child, whether a Stop is due\<close>
  | Worker_deliver int int
  | Worker_arm int int
  | Worker_reading int int
  | Worker_abort int int
  | Worker_ending int int int \<comment> \<open>request, child, return code\<close>

datatype watchdog_pc = Watchdog_wait | Watchdog_check int | Watchdog_kill int

record helper_state =
  hs_active_pid :: int
  hs_active_id :: int
  hs_stop_ready :: bool
  hs_waits :: bool \<comment> \<open>\<open>active_waits_for_output_\<close>\<close>
  hs_pending :: bool
  hs_running :: bool
  hs_armed :: bool
  hs_watched :: int
  hs_main :: main_pc
  hs_worker :: worker_pc
  hs_watchdog :: watchdog_pc
  hs_children :: "int set" \<comment> \<open>spawned and not yet reaped\<close>
  hs_log :: "helper_event list"

definition helper_start :: helper_state where
  "helper_start =
     \<lparr>hs_active_pid = - 1, hs_active_id = 0, hs_stop_ready = False, hs_waits = False, hs_pending = False, hs_running = False,
      hs_armed = False, hs_watched = - 1, hs_main = Main_idle, hs_worker = Worker_none, hs_watchdog = Watchdog_wait,
      hs_children = {}, hs_log = []\<rparr>"

abbreviation note_event :: "helper_event \<Rightarrow> helper_state \<Rightarrow> helper_state" where
  "note_event e s \<equiv> s\<lparr>hs_log := e # hs_log s\<rparr>"

definition can_run :: "helper_state \<Rightarrow> bool" where
  "can_run s \<longleftrightarrow> \<not> (hs_running s \<or> hs_active_pid s > 0)"

definition handle_run :: "int \<Rightarrow> string \<Rightarrow> string list \<Rightarrow> helper_state \<Rightarrow> helper_state" where
  "handle_run ident prog args s =
     (if \<not> can_run s then note_event (Finished ident 127) s
      else s\<lparr>hs_running := True, hs_active_id := ident, hs_waits := (prog = ''operation-engine''), hs_pending := False,
             hs_worker := Worker_start ident prog args\<rparr>)"

definition handle_stop :: "helper_state \<Rightarrow> helper_state" where
  "handle_stop s =
     (let deferred = (hs_running s \<and> (hs_active_pid s \<le> 0 \<or> (hs_waits s \<and> \<not> hs_stop_ready s)))
      in if \<not> hs_running s \<and> hs_active_pid s \<le> 0 then s
         else if deferred then s\<lparr>hs_pending := True\<rparr>
         else s\<lparr>hs_main := Main_deliver (hs_active_pid s) (hs_waits s)\<rparr>)"

definition arm_stop_watchdog :: "int \<Rightarrow> helper_state \<Rightarrow> helper_state" where
  "arm_stop_watchdog pid s =
     (if pid \<le> 0 \<or> \<not> hs_running s \<or> hs_active_pid s \<noteq> pid then s else s\<lparr>hs_watched := pid, hs_armed := True\<rparr>)"

definition publish_child :: "int \<Rightarrow> int \<Rightarrow> helper_state \<Rightarrow> helper_state" where
  "publish_child ident child s =
     (let stop_on_start = (hs_pending s \<and> \<not> hs_waits s)
      in s\<lparr>hs_active_pid := child, hs_active_id := ident, hs_stop_ready := False,
           hs_pending := (if stop_on_start then False else hs_pending s), hs_worker := Worker_started ident child stop_on_start\<rparr>)"

definition stop_ready_line :: "int \<Rightarrow> int \<Rightarrow> helper_state \<Rightarrow> helper_state" where
  "stop_ready_line ident child s =
     (if hs_stop_ready s then s
      else note_event (Ready child) (s\<lparr>hs_stop_ready := True, hs_pending := False,
             hs_worker := (if hs_pending s then Worker_deliver ident child else hs_worker s)\<rparr>))"

definition publish_idle :: "int \<Rightarrow> int \<Rightarrow> int \<Rightarrow> helper_state \<Rightarrow> helper_state" where
  "publish_idle ident child code s =
     note_event (Finished ident code)
       (s\<lparr>hs_active_pid := - 1, hs_active_id := 0, hs_stop_ready := False, hs_waits := False, hs_pending := False,
          hs_running := False, hs_armed := (if hs_watched s = child then False else hs_armed s),
          hs_watched := (if hs_watched s = child then - 1 else hs_watched s), hs_worker := Worker_none\<rparr>)"


subsection \<open>The steps of the three threads\<close>

text \<open>
  One step of the thread that reads the requests, of the worker thread and of the watchdog; \<open>supervised\<close> is a step of any. A \<open>kill\<close> may succeed or fail whatever the process is, a new process
  gets any number that no child of the helper has, and reading, emitting and waiting may fail at any time.
\<close>

inductive main_step :: "json_lib \<Rightarrow> helper_state \<Rightarrow> helper_state \<Rightarrow> bool" for J :: json_lib where
  request_run: "hs_main s = Main_idle \<Longrightarrow> parse_request J line = Run_command ident prog args \<Longrightarrow>
    main_step J s (handle_run ident prog args s)"
| request_run_no_thread: "hs_main s = Main_idle \<Longrightarrow> parse_request J line = Run_command ident prog args \<Longrightarrow> can_run s \<Longrightarrow>
    main_step J s ((handle_run ident prog args s)\<lparr>hs_running := False, hs_worker := Worker_none\<rparr>)"
| request_rejected: "hs_main s = Main_idle \<Longrightarrow> parse_request J line = Run_rejected ident message \<Longrightarrow>
    main_step J s (note_event (Finished ident 127) s)"
| request_stop: "hs_main s = Main_idle \<Longrightarrow> parse_request J line = Stop_active ident \<Longrightarrow> main_step J s (handle_stop s)"
| request_quit: "hs_main s = Main_idle \<Longrightarrow> main_step J s (s\<lparr>hs_main := Main_quit (- 1)\<rparr>)"
  \<comment> \<open>a quit request, the end of the input or a lost client\<close>
| stop_kill: "hs_main s = Main_deliver pid waits \<Longrightarrow>
    main_step J s (note_event (Stop_sent pid waits) (s\<lparr>hs_main := Main_arm pid\<rparr>))"
| stop_kill_fails: "hs_main s = Main_deliver pid waits \<Longrightarrow> main_step J s (s\<lparr>hs_main := Main_idle\<rparr>)"
| stop_arm: "hs_main s = Main_arm pid \<Longrightarrow> main_step J s ((arm_stop_watchdog pid s)\<lparr>hs_main := Main_idle\<rparr>)"
| quit_done: "hs_main s = Main_quit signalled \<Longrightarrow> \<not> hs_running s \<Longrightarrow> main_step J s (s\<lparr>hs_main := Main_left\<rparr>)"
| quit_read: "hs_main s = Main_quit signalled \<Longrightarrow> hs_running s \<Longrightarrow> hs_active_pid s > 0 \<Longrightarrow> hs_active_pid s \<noteq> signalled \<Longrightarrow>
    main_step J s (s\<lparr>hs_main := Main_quit_kill (hs_active_pid s) signalled\<rparr>)"
| quit_kill: "hs_main s = Main_quit_kill pid signalled \<Longrightarrow>
    main_step J s (note_event (Quit_sent pid) (s\<lparr>hs_main := Main_quit_arm pid\<rparr>))"
| quit_kill_gone: "hs_main s = Main_quit_kill pid signalled \<Longrightarrow> main_step J s (s\<lparr>hs_main := Main_quit pid\<rparr>)"
| quit_kill_fails: "hs_main s = Main_quit_kill pid signalled \<Longrightarrow> main_step J s (s\<lparr>hs_main := Main_quit signalled\<rparr>)"
| quit_arm: "hs_main s = Main_quit_arm pid \<Longrightarrow> main_step J s ((arm_stop_watchdog pid s)\<lparr>hs_main := Main_quit pid\<rparr>)"

inductive worker_step :: "u32 \<Rightarrow> helper_state \<Rightarrow> helper_state \<Rightarrow> bool" for uid :: u32 where
  worker_fails: "hs_worker s = Worker_start ident prog args \<Longrightarrow>
    worker_step uid s (s\<lparr>hs_worker := Worker_ending ident (- 1) 127\<rparr>)"
  \<comment> \<open>refused by the policy, not executable, no pipe or no process\<close>
| worker_spawn: "hs_worker s = Worker_start ident prog args \<Longrightarrow> helper_command prog args uid = Inr command \<Longrightarrow>
    child > 0 \<Longrightarrow> child \<notin> hs_children s \<Longrightarrow>
    worker_step uid s (note_event (Spawned child command)
      (s\<lparr>hs_worker := Worker_spawned ident child, hs_children := insert child (hs_children s)\<rparr>))"
| worker_publish: "hs_worker s = Worker_spawned ident child \<Longrightarrow> worker_step uid s (publish_child ident child s)"
| worker_announced: "hs_worker s = Worker_started ident child due \<Longrightarrow>
    worker_step uid s (s\<lparr>hs_worker := (if due then Worker_deliver ident child else Worker_reading ident child)\<rparr>)"
| worker_kill: "hs_worker s = Worker_deliver ident child \<Longrightarrow>
    worker_step uid s (note_event (Stop_sent child (hs_waits s)) (s\<lparr>hs_worker := Worker_arm ident child\<rparr>))"
| worker_kill_fails: "hs_worker s = Worker_deliver ident child \<Longrightarrow> worker_step uid s (s\<lparr>hs_worker := Worker_reading ident child\<rparr>)"
| worker_arm: "hs_worker s = Worker_arm ident child \<Longrightarrow>
    worker_step uid s ((arm_stop_watchdog child s)\<lparr>hs_worker := Worker_reading ident child\<rparr>)"
| worker_ready: "hs_worker s = Worker_reading ident child \<Longrightarrow> worker_step uid s (stop_ready_line ident child s)"
| worker_lost: "hs_worker s \<in> {Worker_started ident child due, Worker_reading ident child} \<Longrightarrow>
    worker_step uid s (s\<lparr>hs_worker := Worker_abort ident child\<rparr>)"
| worker_abort_stop: "hs_worker s = Worker_abort ident child \<Longrightarrow> worker_step uid s (note_event (Quit_sent child) s)"
| worker_abort_kill: "hs_worker s = Worker_abort ident child \<Longrightarrow> worker_step uid s (note_event (Kill_sent child) s)"
| worker_reap: "hs_worker s = Worker_reading ident child \<Longrightarrow>
    worker_step uid s (note_event (Reaped_child child)
      (s\<lparr>hs_worker := Worker_ending ident child code, hs_children := hs_children s - {child}\<rparr>))"
| worker_abort_reap: "hs_worker s = Worker_abort ident child \<Longrightarrow>
    worker_step uid s (note_event (Reaped_child child)
      (s\<lparr>hs_worker := Worker_ending ident child 127, hs_children := hs_children s - {child}\<rparr>))"
| worker_end: "hs_worker s = Worker_ending ident child code \<Longrightarrow> worker_step uid s (publish_idle ident child code s)"

inductive watchdog_step :: "helper_state \<Rightarrow> helper_state \<Rightarrow> bool" where
  watchdog_due: "hs_watchdog s = Watchdog_wait \<Longrightarrow> hs_armed s \<Longrightarrow>
    watchdog_step s (s\<lparr>hs_armed := False, hs_watchdog := Watchdog_check (hs_watched s)\<rparr>)"
| watchdog_owned: "hs_watchdog s = Watchdog_check pid \<Longrightarrow>
    watchdog_step s (s\<lparr>hs_watchdog := (if pid \<in> hs_children s then Watchdog_kill pid else Watchdog_wait)\<rparr>)"
| watchdog_kill: "hs_watchdog s = Watchdog_kill pid \<Longrightarrow>
    watchdog_step s (note_event (Kill_sent pid) (s\<lparr>hs_watchdog := Watchdog_wait\<rparr>))"
| watchdog_kill_fails: "hs_watchdog s = Watchdog_kill pid \<Longrightarrow> watchdog_step s (s\<lparr>hs_watchdog := Watchdog_check pid\<rparr>)"
| watchdog_gives_up: "hs_watchdog s = Watchdog_check pid \<Longrightarrow> watchdog_step s (s\<lparr>hs_watchdog := Watchdog_wait\<rparr>)"

definition supervised :: "u32 \<Rightarrow> json_lib \<Rightarrow> helper_state \<Rightarrow> helper_state \<Rightarrow> bool" where
  "supervised uid J s s' \<longleftrightarrow> main_step J s s' \<or> worker_step uid s s' \<or> watchdog_step s s'"

inductive_cases main_stepE: "main_step J s s'"
inductive_cases worker_stepE: "worker_step uid s s'"
inductive_cases watchdog_stepE: "watchdog_step s s'"

lemma supervisedE:
  assumes "supervised uid J s s'"
  obtains (main) "main_step J s s'" | (worker) "worker_step uid s s'" | (watchdog) "watchdog_step s s'"
  using assms by (auto simp: supervised_def)

lemma supervisedI:
  "main_step J s s' \<Longrightarrow> supervised uid J s s'" "worker_step uid s s' \<Longrightarrow> supervised uid J s s'" "watchdog_step s s' \<Longrightarrow> supervised uid J s s'"
  by (simp_all add: supervised_def)

inductive helper_reaches :: "u32 \<Rightarrow> json_lib \<Rightarrow> helper_state \<Rightarrow> bool" for uid :: u32 and J :: json_lib where
  starts: "helper_reaches uid J helper_start"
| steps: "helper_reaches uid J s \<Longrightarrow> supervised uid J s s' \<Longrightarrow> helper_reaches uid J s'"



lemmas main_reaches = helper_reaches.steps [OF _ supervisedI(1)]
lemmas worker_reaches = helper_reaches.steps [OF _ supervisedI(2)]


subsection \<open>Invariants\<close>

text \<open>The number the shared state shows for a worker, and the child it has to reap.\<close>

fun shown_pid :: "worker_pc \<Rightarrow> int" where
  "shown_pid (Worker_started ident child due) = child"
| "shown_pid (Worker_deliver ident child) = child"
| "shown_pid (Worker_arm ident child) = child"
| "shown_pid (Worker_reading ident child) = child"
| "shown_pid (Worker_abort ident child) = child"
| "shown_pid (Worker_ending ident child code) = child"
| "shown_pid _ = - 1"

fun live_children :: "worker_pc \<Rightarrow> int set" where
  "live_children (Worker_spawned ident child) = {child}"
| "live_children (Worker_started ident child due) = {child}"
| "live_children (Worker_deliver ident child) = {child}"
| "live_children (Worker_arm ident child) = {child}"
| "live_children (Worker_reading ident child) = {child}"
| "live_children (Worker_abort ident child) = {child}"
| "live_children _ = {}"

definition owner_inv :: "helper_state \<Rightarrow> bool" where
  "owner_inv s \<longleftrightarrow>
     (hs_running s \<longleftrightarrow> hs_worker s \<noteq> Worker_none) \<and> hs_active_pid s = shown_pid (hs_worker s) \<and>
     hs_children s = live_children (hs_worker s) \<and> (\<forall>c \<in> hs_children s. 0 < c)"

definition stop_inv :: "helper_state \<Rightarrow> bool" where
  "stop_inv s \<longleftrightarrow>
     (hs_pending s \<longrightarrow> hs_running s \<and> (hs_active_pid s \<le> 0 \<or> hs_waits s \<and> \<not> hs_stop_ready s)) \<and>
     (hs_armed s \<longrightarrow> hs_running s \<and> hs_watched s = hs_active_pid s \<and> 0 < hs_active_pid s)"

fun announced :: "helper_event list \<Rightarrow> bool" where
  "announced [] \<longleftrightarrow> True"
| "announced (Stop_sent pid True # log) \<longleftrightarrow> Ready pid \<in> set log \<and> announced log"
| "announced (_ # log) \<longleftrightarrow> announced log"

definition ready_inv :: "helper_state \<Rightarrow> bool" where
  "ready_inv s \<longleftrightarrow>
     announced (hs_log s) \<and> (hs_stop_ready s \<longrightarrow> Ready (hs_active_pid s) \<in> set (hs_log s)) \<and>
     (\<forall>pid. hs_main s = Main_deliver pid True \<longrightarrow> Ready pid \<in> set (hs_log s)) \<and>
     (\<forall>ident child. hs_worker s = Worker_deliver ident child \<and> hs_waits s \<longrightarrow> Ready child \<in> set (hs_log s)) \<and>
     (\<forall>ident child. hs_worker s = Worker_started ident child True \<longrightarrow> \<not> hs_waits s)"

definition spawn_inv :: "u32 \<Rightarrow> helper_state \<Rightarrow> bool" where
  "spawn_inv uid s \<longleftrightarrow> (\<forall>child command. Spawned child command \<in> set (hs_log s) \<longrightarrow> (\<exists>prog args. helper_command prog args uid = Inr command))"

lemmas helper_step_defs =
  handle_run_def can_run_def handle_stop_def arm_stop_watchdog_def publish_child_def stop_ready_line_def publish_idle_def Let_def

lemma announced_note: "announced (e # log) \<longleftrightarrow> announced log \<and> (\<forall>pid. e = Stop_sent pid True \<longrightarrow> Ready pid \<in> set log)"
  by (cases "(e # log)" rule: announced.cases) auto

lemma owner_step: "supervised uid J s s' \<Longrightarrow> owner_inv s \<Longrightarrow> owner_inv s'"
  by (elim supervisedE main_stepE worker_stepE watchdog_stepE; auto simp: owner_inv_def helper_step_defs split: if_splits)

lemma stop_step_kept: "supervised uid J s s' \<Longrightarrow> owner_inv s \<Longrightarrow> stop_inv s \<Longrightarrow> stop_inv s'"
  by (elim supervisedE main_stepE worker_stepE watchdog_stepE; auto simp: stop_inv_def owner_inv_def helper_step_defs split: if_splits)

lemma ready_step: "supervised uid J s s' \<Longrightarrow> owner_inv s \<Longrightarrow> ready_inv s \<Longrightarrow> ready_inv s'"
  by (elim supervisedE main_stepE worker_stepE watchdog_stepE; auto simp: ready_inv_def owner_inv_def announced_note helper_step_defs split: if_splits)

lemma spawn_step: "supervised uid J s s' \<Longrightarrow> spawn_inv uid s \<Longrightarrow> spawn_inv uid s'"
  by (elim supervisedE main_stepE worker_stepE watchdog_stepE; auto simp: spawn_inv_def helper_step_defs split: if_splits)

lemma helper_invariants:
  assumes "helper_reaches uid J s"
  shows "owner_inv s" "stop_inv s" "ready_inv s" "spawn_inv uid s"
proof -
  have "owner_inv s \<and> stop_inv s \<and> ready_inv s \<and> spawn_inv uid s"
    using assms
  proof (induction rule: helper_reaches.induct)
    case starts
    show ?case by (simp add: helper_start_def owner_inv_def stop_inv_def ready_inv_def spawn_inv_def)
  next
    case (steps s s')
    then show ?case using owner_step stop_step_kept ready_step spawn_step by blast
  qed
  then show "owner_inv s" "stop_inv s" "ready_inv s" "spawn_inv uid s" by simp_all
qed



lemma announced_split: "announced log \<Longrightarrow> log = later @ Stop_sent pid True # earlier \<Longrightarrow> Ready pid \<in> set earlier"
  by (induction later arbitrary: log) (auto simp: announced_note)


text \<open>
  Property C31. A writer is interrupted for a Stop only after it announced that its handlers are installed: in every history of
  the helper, the signal to its process group comes after its readiness line.
\<close>

theorem writer_stopped_when_ready:
  assumes "helper_reaches uid J s" "hs_log s = later @ Stop_sent pid True # earlier"
  shows "Ready pid \<in> set earlier"
  using helper_invariants(3) [OF assms(1)] announced_split [OF _ assms(2)] by (simp add: ready_inv_def)

text \<open>
  Property C32. What the helper runs as root. It never has more than one child; every process it starts is a command the policy
  returned for some request of the invoking user; and the watchdog is armed only for the child of the active run.
\<close>

theorem supervised_children:
  assumes "helper_reaches uid J s"
  shows "(\<forall>a \<in> hs_children s. \<forall>b \<in> hs_children s. a = b) \<and>
    (\<forall>child command. Spawned child command \<in> set (hs_log s) \<longrightarrow> (\<exists>prog args. helper_command prog args uid = Inr command)) \<and>
    (hs_armed s \<longrightarrow> hs_running s \<and> hs_watched s = hs_active_pid s \<and> 0 < hs_active_pid s)"
proof -
  have "hs_children s = live_children (hs_worker s)" using helper_invariants(1) [OF assms] by (simp add: owner_inv_def)
  then have "\<forall>a \<in> hs_children s. \<forall>b \<in> hs_children s. a = b" by (cases "hs_worker s") auto
  then show ?thesis using helper_invariants(2,4) [OF assms] by (simp add: stop_inv_def spawn_inv_def)
qed


subsection \<open>Examples\<close>

definition demo_line :: "string \<Rightarrow> string list \<Rightarrow> string" where
  "demo_line prog args =
     (let q = [CHR 0x22]; quote = (\<lambda>w. q @ w @ q)
      in ''{'' @ quote ''action'' @ '':'' @ quote ''run'' @ '','' @ quote ''id'' @ '':1,'' @ quote ''program'' @ '':'' @ quote prog @ '','' @
         quote ''argv'' @ '':['' @ tl (concat (map (\<lambda>w. '','' @ quote w) args)) @ '']}'')"

definition demo_stop_line :: string where
  "demo_stop_line = (let q = [CHR 0x22] in ''{'' @ q @ ''action'' @ q @ '':'' @ q @ ''stop'' @ q @ ''}'')"

definition demo_unmount :: "string list" where "demo_unmount = [''unmount'', ''-b'', ''/dev/sdb1'']"

definition demo_write :: "string list" where
  "demo_write =
     [''defrag'', ''/dev/sdb1'', ''--filesystem'', ''fat16'', ''--write'', ''--confirm'', ''/dev/sdb1'', ''--journal'',
      ''/var/lib/defragmenter/state/1000/a.journal'']"

lemma demo_requests:
  "parse_request demo_json_lib (demo_line ''udisksctl'' demo_unmount) = Run_command 1 ''udisksctl'' demo_unmount"
  "parse_request demo_json_lib (demo_line ''operation-engine'' demo_write) = Run_command 1 ''operation-engine'' demo_write"
  "parse_request demo_json_lib demo_stop_line = Stop_active JNull"
  "helper_command ''udisksctl'' demo_unmount 1000 = Inr \<lparr>hc_executable = kUdisksctl, hc_arguments = demo_unmount\<rparr>"
  "helper_command ''operation-engine'' demo_write 1000 = Inr \<lparr>hc_executable = kOperationEngine, hc_arguments = demo_write\<rparr>"
  by code_simp+

text \<open>The helper while its worker reads the output of a command: any accepted request leads there.\<close>

definition reading_state :: "int \<Rightarrow> bool \<Rightarrow> int \<Rightarrow> HelperCommand \<Rightarrow> helper_state" where
  "reading_state ident writer child command =
     helper_start\<lparr>hs_active_pid := child, hs_active_id := ident, hs_waits := writer, hs_running := True,
       hs_worker := Worker_reading ident child, hs_children := {child}, hs_log := [Spawned child command]\<rparr>"

lemma reading_reached:
  assumes parsed: "parse_request J line = Run_command ident prog args"
    and accepted: "helper_command prog args uid = Inr command" and child: "0 < child"
  shows "helper_reaches uid J (reading_state ident (prog = ''operation-engine'') child command)"
proof -
  let ?R = "helper_reaches uid J"
  let ?s0 = "helper_start\<lparr>hs_running := True, hs_active_id := ident, hs_waits := (prog = ''operation-engine''),
    hs_worker := Worker_start ident prog args\<rparr>"
  have "?R (handle_run ident prog args helper_start)"
    by (rule main_reaches [OF helper_reaches.starts main_step.request_run [OF _ parsed]]) (simp add: helper_start_def)
  then have s0: "?R ?s0" by (simp add: handle_run_def can_run_def helper_start_def)
  let ?s1 = "?s0\<lparr>hs_worker := Worker_spawned ident child, hs_children := {child}, hs_log := [Spawned child command]\<rparr>"
  have "?R (note_event (Spawned child command)
      (?s0\<lparr>hs_worker := Worker_spawned ident child, hs_children := insert child (hs_children ?s0)\<rparr>))"
    by (rule worker_reaches [OF s0 worker_step.worker_spawn [OF _ accepted child]]) (simp_all add: helper_start_def)
  then have s1: "?R ?s1" by (simp add: helper_start_def)
  have "?R (publish_child ident child ?s1)" by (rule worker_reaches [OF s1 worker_step.worker_publish]) simp
  then have s2: "?R (?s1\<lparr>hs_active_pid := child, hs_worker := Worker_started ident child False\<rparr>)"
    by (simp add: publish_child_def Let_def helper_start_def)
  show ?thesis
    using worker_reaches [OF s2 worker_step.worker_announced [of _ ident child False]]
    by (simp add: reading_state_def helper_start_def)
qed

abbreviation demo_reading :: helper_state where
  "demo_reading \<equiv> reading_state 1 False 7 \<lparr>hc_executable = kUdisksctl, hc_arguments = demo_unmount\<rparr>"

abbreviation demo_writing :: helper_state where
  "demo_writing \<equiv> reading_state 1 True 7 \<lparr>hc_executable = kOperationEngine, hc_arguments = demo_write\<rparr>"

lemma demo_reached: "helper_reaches 1000 demo_json_lib demo_reading" "helper_reaches 1000 demo_json_lib demo_writing"
  using reading_reached [OF demo_requests(1,4), of 7] reading_reached [OF demo_requests(2,5), of 7] by simp_all

lemma demo_stop: "helper_reaches 1000 demo_json_lib s \<Longrightarrow> hs_main s = Main_idle \<Longrightarrow> helper_reaches 1000 demo_json_lib (handle_stop s)"
  by (rule main_reaches [OF _ main_step.request_stop [OF _ demo_requests(3)]])


theorem writer_stopped_when_ready_witness:
  "\<exists>s earlier. helper_reaches 1000 demo_json_lib s \<and> hs_log s = Stop_sent 7 True # earlier \<and> Ready 7 \<in> set earlier"
proof -
  let ?R = "helper_reaches 1000 demo_json_lib"
  let ?s1 = "note_event (Ready 7) (demo_writing\<lparr>hs_stop_ready := True\<rparr>)"
  have "?R (stop_ready_line 1 7 demo_writing)"
    by (rule worker_reaches [OF demo_reached(2) worker_step.worker_ready]) (simp add: reading_state_def)
  then have "?R ?s1" by (simp add: stop_ready_line_def reading_state_def helper_start_def)
  then have "?R (handle_stop ?s1)" by (rule demo_stop) (simp add: reading_state_def helper_start_def)
  then have "?R (?s1\<lparr>hs_main := Main_deliver 7 True\<rparr>)" by (simp add: handle_stop_def reading_state_def helper_start_def)
  from main_reaches [OF this main_step.stop_kill [of _ 7 True]]
  have s2: "?R (note_event (Stop_sent 7 True) (?s1\<lparr>hs_main := Main_arm 7\<rparr>))" by simp
  have "Ready 7 \<in> set (hs_log ?s1)"
    by (rule writer_stopped_when_ready [OF s2, where later = "[]"]) simp
  then show ?thesis using s2 by (intro exI conjI) (assumption | simp)+
qed

theorem supervised_children_witness:
  "helper_reaches 1000 demo_json_lib demo_reading \<and> hs_children demo_reading = {7} \<and>
   (\<exists>prog args. helper_command prog args 1000 = Inr \<lparr>hc_executable = kUdisksctl, hc_arguments = demo_unmount\<rparr>)"
  using supervised_children [OF demo_reached(1)] demo_reached(1) by (simp add: reading_state_def)

text \<open>
  The signal of a Stop can follow the end of the child: the request loop reads the process number in its critical section, and the
  worker may reap the child before the loop calls \<open>kill\<close>. The watchdog asks again whether it owns the process; the Stop
  request does not.
\<close>

lemma late_stop:
  "\<exists>s spawned. helper_reaches 1000 demo_json_lib s \<and> hs_log s = [Stop_sent 7 False, Reaped_child 7, spawned] \<and> hs_children s = {}"
proof -
  let ?R = "helper_reaches 1000 demo_json_lib"
  let ?s1 = "demo_reading\<lparr>hs_main := Main_deliver 7 False\<rparr>"
  have "?R (handle_stop demo_reading)"
    by (rule demo_stop [OF demo_reached(1)]) (simp add: reading_state_def helper_start_def)
  then have s1: "?R ?s1" by (simp add: handle_stop_def reading_state_def helper_start_def)
  have s2: "?R (note_event (Reaped_child 7) (?s1\<lparr>hs_worker := Worker_ending 1 7 0, hs_children := hs_children ?s1 - {7}\<rparr>))"
    by (rule worker_reaches [OF s1 worker_step.worker_reap]) (simp add: reading_state_def)
  show ?thesis
    using main_reaches [OF s2 main_step.stop_kill [of _ 7 False]]
    by (intro exI conjI) (assumption | simp add: reading_state_def)+
qed

end
