(* ===== verification/Live_Map.thy ===== *)
theory Live_Map
  imports Map_Check
begin

text \<open>
  The live allocation map of the desktop, \<open>native/desktop_live_map.cpp\<close>: the events of a running worker change the cells
  the mapper returned. A range or cell event collects sparse patches and publishes them when the whole event is valid; a
  reset builds a second array. A map of patches is a partial function. Releasing units scales two counters with
  \<open>long double\<close> arithmetic: its rounded quotient is a parameter.
\<close>

subsection \<open>Numbers\<close>

definition number_in :: "json \<Rightarrow> string \<Rightarrow> u64" where
  "number_in obj key = (case json_find obj key of Some v \<Rightarrow> unsigned_or v 0 | None \<Rightarrow> 0)"

definition unit_size_of :: "json \<Rightarrow> u64 exc" where
  "unit_size_of m =
     (let v = number_in m ''unit_size''; w = (if v = 0 then number_in m ''cluster_size'' else v)
      in if w = 0 then Inl ''Allocation map has no unit size'' else Inr w)"

definition addition :: "u64 \<Rightarrow> u64 \<Rightarrow> u64 exc" where
  "addition a b = (if a > UINT64_MAX - b then Inl ''Live allocation range overflows'' else Inr (a + b))"

definition product :: "u64 \<Rightarrow> u64 \<Rightarrow> u64 exc" where
  "product a b = (if b \<noteq> 0 \<and> a > UINT64_MAX div b then Inl ''Live allocation size overflows'' else Inr (a * b))"

definition ceiling_units :: "u64 \<Rightarrow> u64 \<Rightarrow> u64" where
  "ceiling_units bytes u = bytes div u + (if bytes mod u \<noteq> 0 then 1 else 0)"

definition pair_value :: "json \<Rightarrow> nat \<Rightarrow> u64 exc" where
  "pair_value pair index =
     (case pair of
        JArray vs \<Rightarrow> if length vs \<le> index then Inl ''Invalid live allocation pair'' else Inr (unsigned_or (vs ! index) 0)
      | _ \<Rightarrow> Inl ''Invalid live allocation pair'')"


subsection \<open>Cells and patches\<close>

definition max_cells :: nat where "max_cells = 1048576"

definition validate_cell_count :: "json list \<Rightarrow> unit exc" where
  "validate_cell_count cells = demand (\<not> (cells = [] \<or> length cells > max_cells)) ''Invalid live allocation cell count''"

text \<open>\<open>first\<close> and \<open>previous\<close> are one optional value.\<close>

fun cells_follow :: "u64 option \<Rightarrow> json list \<Rightarrow> unit exc" where
  "cells_follow previous [] = Inr ()"
| "cells_follow previous (cell # cells) =
     (if \<not> is_object cell \<or> number_in cell ''end'' < number_in cell ''start'' \<or>
         (case previous of None \<Rightarrow> False | Some p \<Rightarrow> number_in cell ''start'' \<le> p)
      then Inl ''Live allocation cells are not ordered''
      else cells_follow (Some (number_in cell ''end'')) cells)"

definition validate_cells :: "json list \<Rightarrow> unit exc" where
  "validate_cells cells = and_then (validate_cell_count cells) (\<lambda>_. cells_follow None cells)"

type_synonym patches = "nat \<Rightarrow> json option"

definition effective_cell :: "json list \<Rightarrow> patches \<Rightarrow> nat \<Rightarrow> json" where
  "effective_cell cells patches index = (case patches index of None \<Rightarrow> cells ! index | Some cell \<Rightarrow> cell)"

definition commit_patches :: "json list \<Rightarrow> patches \<Rightarrow> json list" where
  "commit_patches cells patches = map (effective_cell cells patches) [0..<length cells]"

definition patch_ordered :: "json list \<Rightarrow> patches \<Rightarrow> nat \<Rightarrow> bool" where
  "patch_ordered cells patches index =
     (let cell = effective_cell cells patches index
      in \<not> (\<not> is_object cell \<or> number_in cell ''end'' < number_in cell ''start'') \<and>
         \<not> (index > 0 \<and> number_in (effective_cell cells patches (index - 1)) ''end'' \<ge> number_in cell ''start'') \<and>
         \<not> (index + 1 < length cells \<and> number_in (effective_cell cells patches (index + 1)) ''start'' \<le> number_in cell ''end''))"

definition validate_patched_cell_order :: "json list \<Rightarrow> patches \<Rightarrow> unit exc" where
  "validate_patched_cell_order cells patches =
     demand (list_all (\<lambda>i. patches i \<noteq> None \<longrightarrow> patch_ordered cells patches i) [0..<length cells])
       ''Live allocation cells are not ordered''"


subsection \<open>Moving units between free and used\<close>

type_synonym scaling = "u64 \<Rightarrow> u64 \<Rightarrow> u64 \<Rightarrow> nat" \<comment> \<open>\<open>round(moved * value / old_used)\<close>\<close>

definition proportional :: "scaling \<Rightarrow> json \<Rightarrow> u64 \<Rightarrow> u64 \<Rightarrow> string \<Rightarrow> u64" where
  "proportional scale cell moved old_used key =
     (let v = number_in cell key in word_of_nat (min (unat v) (scale moved v old_used)))"

definition release_marks :: "scaling \<Rightarrow> json \<Rightarrow> u64 \<Rightarrow> u64 \<Rightarrow> json exc" where
  "release_marks scale cell available moved =
     (let old_used = max 1 available;
          fragments = proportional scale cell moved old_used ''fragmented'';
          directories = proportional scale cell moved old_used ''directory'';
          left = (\<lambda>key taken. json_unsigned (min (number_in cell key - min (number_in cell key) taken) (available - moved)))
      in and_then (json_set cell ''fragmented'' (left ''fragmented'' fragments)) (\<lambda>changed.
         json_set changed ''directory'' (left ''directory'' directories)))"

definition change_cell :: "scaling \<Rightarrow> bool \<Rightarrow> u64 \<Rightarrow> u64 \<Rightarrow> json \<Rightarrow> json exc" where
  "change_cell scale used from_unit to_unit cell =
     and_then (addition (number_in cell ''end'') 1) (\<lambda>past.
       let overlap = min past to_unit - max (number_in cell ''start'') from_unit;
           source = (if used then ''free'' else ''used''); other = (if used then ''used'' else ''free'')
       in if overlap = 0 then Inr cell
          else and_then (json_object cell) (\<lambda>_.
            let available = number_in cell source; moved = min overlap available
            in and_then (if used then Inr cell else release_marks scale cell available moved) (\<lambda>changed.
               and_then (json_set changed source (json_unsigned (available - moved))) (\<lambda>changed.
               and_then (addition (number_in changed other) moved) (\<lambda>n. json_set changed other (json_unsigned n))))))"

text \<open>The loop of \<open>apply_range\<close> from cell \<open>index\<close> on; the argument list is the rest of the unpatched cells.\<close>

fun change_cells :: "scaling \<Rightarrow> bool \<Rightarrow> u64 \<Rightarrow> u64 \<Rightarrow> patches \<Rightarrow> nat \<Rightarrow> json list \<Rightarrow> patches exc" where
  "change_cells scale used from_unit to_unit patches index [] = Inr patches"
| "change_cells scale used from_unit to_unit patches index (cell # cells) =
     (if \<not> number_in cell ''start'' < to_unit then Inr patches
      else and_then (change_cell scale used from_unit to_unit (case patches index of None \<Rightarrow> cell | Some p \<Rightarrow> p)) (\<lambda>changed.
           change_cells scale used from_unit to_unit (patches(index \<mapsto> changed)) (Suc index) cells))"

text \<open>\<open>std::lower_bound\<close> by the cells' ends, which increase.\<close>

definition first_cell :: "u64 \<Rightarrow> json list \<Rightarrow> nat" where
  "first_cell from_unit cells = length (takeWhile (\<lambda>cell. number_in cell ''end'' < from_unit) cells)"

definition apply_range :: "scaling \<Rightarrow> json list \<Rightarrow> u64 \<Rightarrow> bool \<Rightarrow> u64 \<Rightarrow> u64 \<Rightarrow> patches \<Rightarrow> patches exc" where
  "apply_range scale cells u used first_byte len patches =
     (if len = 0 then Inr patches
      else and_then (addition first_byte len) (\<lambda>past_byte.
        let from_unit = first_byte div u; to_unit = ceiling_units past_byte u; index = first_cell from_unit cells
        in change_cells scale used from_unit to_unit patches index (drop index cells)))"


subsection \<open>The three events\<close>

definition move_range :: "scaling \<Rightarrow> json list \<Rightarrow> u64 \<Rightarrow> bool \<Rightarrow> u64 \<Rightarrow> u64 \<Rightarrow> u64 \<Rightarrow> patches \<Rightarrow> patches exc" where
  "move_range scale cells u allocate_only source destination len patches =
     and_then (if allocate_only then Inr patches else apply_range scale cells u False source len patches) (\<lambda>patches.
     apply_range scale cells u True destination len patches)"

fun move_ranges :: "scaling \<Rightarrow> json list \<Rightarrow> u64 \<Rightarrow> bool \<Rightarrow> json list \<Rightarrow> patches \<Rightarrow> patches exc" where
  "move_ranges scale cells u allocate_only [] patches = Inr patches"
| "move_ranges scale cells u allocate_only (item # items) patches =
     (if (case item of JArray vs \<Rightarrow> length vs = 3 | _ \<Rightarrow> False)
      then and_then (pair_value item 0) (\<lambda>source. and_then (pair_value item 1) (\<lambda>destination. and_then (pair_value item 2) (\<lambda>len.
           and_then (move_range scale cells u allocate_only source destination len patches)
             (move_ranges scale cells u allocate_only items))))
      else move_ranges scale cells u allocate_only items patches)"

definition desktop_live_ranges :: "scaling \<Rightarrow> json \<Rightarrow> json list \<Rightarrow> json \<Rightarrow> bool \<Rightarrow> json list exc" where
  "desktop_live_ranges scale m cells payload plural =
     and_then (validate_cell_count cells) (\<lambda>_.
     and_then (unit_size_of m) (\<lambda>u.
       let allocate_only = (case json_find payload ''mode'' of None \<Rightarrow> False | Some v \<Rightarrow> string_or v [] = ''allocate-only'')
       in and_then
            (if \<not> plural then
               move_range scale cells u allocate_only (number_in payload ''source_start_byte'')
                 (number_in payload ''destination_start_byte'') (number_in payload ''length_bytes'') Map.empty
             else (case json_find payload ''ranges'' of
                     Some (JArray items) \<Rightarrow>
                       if length items > max_cells then Inl ''Too many live ranges''
                       else move_ranges scale cells u allocate_only items Map.empty
                   | _ \<Rightarrow> Inr Map.empty)) (\<lambda>patches.
          Inr (commit_patches cells patches))))"

definition cell_fields :: "string list" where
  "cell_fields = [''start'', ''end'', ''free'', ''used'', ''unknown'', ''outside'', ''fragmented'', ''directory'', ''bad'']"

definition updated_cell :: "json \<Rightarrow> json" where
  "updated_cell update = JObject (insert_members [] (map (\<lambda>key. (key, json_unsigned (number_in update key))) cell_fields))"

fun update_patches :: "nat \<Rightarrow> json list \<Rightarrow> patches \<Rightarrow> patches" where
  "update_patches n [] patches = patches"
| "update_patches n (update # updates) patches =
     (let index = number_in update ''i''
      in if \<not> is_object update then update_patches n updates patches
         else if unat index \<ge> n then update_patches n updates patches
         else update_patches n updates (patches(unat index \<mapsto> updated_cell update)))"

fun copy_fields :: "json \<Rightarrow> string list \<Rightarrow> json \<Rightarrow> json exc" where
  "copy_fields payload [] m = Inr m"
| "copy_fields payload (key # keys) m =
     and_then (case json_find payload key of None \<Rightarrow> Inr m | Some v \<Rightarrow> json_set m key v) (copy_fields payload keys)"

definition desktop_live_cells :: "json \<Rightarrow> json list \<Rightarrow> json \<Rightarrow> (json \<times> json list) exc" where
  "desktop_live_cells m cells payload =
     and_then (validate_cell_count cells) (\<lambda>_.
     and_then (demand (is_object m) ''Invalid live allocation map'') (\<lambda>_.
     and_then (case json_find payload ''cells'' of
                 Some (JArray updates) \<Rightarrow>
                   if length updates > length cells then Inl ''Too many live cells''
                   else Inr (update_patches (length cells) updates Map.empty)
               | _ \<Rightarrow> Inr Map.empty) (\<lambda>patches.
     and_then (validate_patched_cell_order cells patches) (\<lambda>_.
     and_then (copy_fields payload [''fragmented_files'', ''fragmented_directories'', ''free_clusters'', ''free_gaps_below_highest''] m) (\<lambda>m'.
     Inr (m', commit_patches cells patches))))))"

definition reset_cell :: "u64 \<Rightarrow> json \<Rightarrow> json exc" where
  "reset_cell total_units cell =
     and_then (addition (number_in cell ''end'') 1) (\<lambda>past.
       let first = number_in cell ''start'';
           inside = (if first \<ge> total_units then 0 else min past total_units - first)
       in set_members
            [(''free'', json_unsigned inside), (''used'', json_unsigned 0), (''unknown'', json_unsigned 0),
             (''outside'', json_unsigned (past - first - inside)), (''fragmented'', json_unsigned 0),
             (''directory'', json_unsigned 0), (''bad'', json_unsigned 0)] cell)"

fun reset_cells :: "u64 \<Rightarrow> json list \<Rightarrow> json list exc" where
  "reset_cells total_units [] = Inr []"
| "reset_cells total_units (cell # cells) =
     and_then (reset_cell total_units cell) (\<lambda>c. and_then (reset_cells total_units cells) (\<lambda>cs. Inr (c # cs)))"

definition mark_cell :: "u64 \<Rightarrow> u64 \<Rightarrow> json \<Rightarrow> json exc" where
  "mark_cell from_unit to_unit cell =
     and_then (addition (number_in cell ''end'') 1) (\<lambda>past.
       let overlap = min past to_unit - max (number_in cell ''start'') from_unit;
           available = number_in cell ''free''; moved = min overlap available
       in if overlap = 0 then Inr cell
          else and_then (json_set cell ''free'' (json_unsigned (available - moved))) (\<lambda>changed.
               and_then (addition (number_in changed ''used'') moved) (\<lambda>n. json_set changed ''used'' (json_unsigned n))))"

fun mark_cells :: "u64 \<Rightarrow> u64 \<Rightarrow> json list \<Rightarrow> json list exc" where
  "mark_cells from_unit to_unit [] = Inr []"
| "mark_cells from_unit to_unit (cell # cells) =
     (if \<not> number_in cell ''start'' < to_unit then Inr (cell # cells)
      else and_then (mark_cell from_unit to_unit cell) (\<lambda>c.
           and_then (mark_cells from_unit to_unit cells) (\<lambda>cs. Inr (c # cs))))"

definition mark_used :: "u64 \<Rightarrow> u64 \<Rightarrow> u64 \<Rightarrow> u64 \<Rightarrow> json list \<Rightarrow> json list exc" where
  "mark_used total_units u start_byte len cells =
     and_then (product total_units u) (\<lambda>limit.
       if start_byte \<ge> limit then Inr cells
       else and_then (addition start_byte (min len (limit - start_byte))) (\<lambda>past_byte.
         let from_unit = start_byte div u; index = first_cell from_unit cells
         in and_then (mark_cells from_unit (ceiling_units past_byte u) (drop index cells)) (\<lambda>marked.
            Inr (take index cells @ marked))))"

fun mark_ranges :: "u64 \<Rightarrow> u64 \<Rightarrow> json list \<Rightarrow> json list \<Rightarrow> json list exc" where
  "mark_ranges total_units u [] cells = Inr cells"
| "mark_ranges total_units u (item # items) cells =
     (if \<not> (case item of JArray vs \<Rightarrow> length vs = 2 | _ \<Rightarrow> False) then Inl ''Invalid live reset used range''
      else and_then (pair_value item 0) (\<lambda>start_byte. and_then (pair_value item 1) (\<lambda>len.
           and_then (mark_used total_units u start_byte len cells) (mark_ranges total_units u items))))"

definition desktop_live_reset :: "json \<Rightarrow> json list \<Rightarrow> json \<Rightarrow> (json \<times> json list) exc" where
  "desktop_live_reset m cells payload =
     and_then (validate_cells cells) (\<lambda>_.
     if json_find payload ''reason'' \<noteq> None \<and> json_find payload ''filesystem_units'' = None then Inr (m, cells)
     else
       and_then (if number_in payload ''unit_size'' \<noteq> 0 then Inr (number_in payload ''unit_size'') else unit_size_of m) (\<lambda>u.
       let total_units = number_in payload ''filesystem_units''
       in and_then
            (if total_units = 0 then Inl ''Invalid live reset filesystem extent''
             else and_then (addition (number_in (last cells) ''end'') 1) (\<lambda>limit.
               demand (\<not> total_units > limit) ''Invalid live reset filesystem extent'')) (\<lambda>_.
          and_then (reset_cells total_units cells) (\<lambda>changed.
          and_then (case json_find payload ''used_ranges'' of
                      Some (JArray items) \<Rightarrow>
                        if length items > max_cells then Inl ''Too many used ranges'' else mark_ranges total_units u items changed
                    | _ \<Rightarrow> Inl ''Live reset has no used-range list'') (\<lambda>changed.
          and_then (json_set m ''filesystem_units'' (json_unsigned total_units)) (\<lambda>updated.
          and_then (product total_units u) (\<lambda>filesystem_bytes.
          and_then (json_set updated ''filesystem_bytes'' (json_unsigned filesystem_bytes)) (\<lambda>updated.
          and_then (product (if number_in m ''total_units'' > total_units then number_in m ''total_units'' - total_units else 0) u)
            (\<lambda>outside_bytes.
          and_then (json_set updated ''outside_bytes'' (json_unsigned outside_bytes)) (\<lambda>updated. Inr (updated, changed)))))))))))"


subsection \<open>What a change of one cell keeps\<close>

lemma unsigned_or_json [simp]: "unsigned_or (json_unsigned w) f = w"
  by (simp add: unsigned_or_def) (simp add: is_number_def json_unsigned_def)

lemma number_set: "json_set j key (json_unsigned w) = Inr j' \<Longrightarrow> number_in j' k = (if k = key then w else number_in j k)"
  by (simp add: number_in_def json_set_find)

lemma set_object: "json_set j key v = Inr j' \<Longrightarrow> is_object j'"
  by (auto simp: json_set_def and_then_Inr is_object_def)

lemma addition_Inr: "addition a b = Inr c \<longleftrightarrow> unat a + unat b < 2 ^ 64 \<and> c = a + b"
  by (auto simp: addition_def word_gt_max_minus)

lemma product_Inr:
  assumes "product a b = Inr c"
  shows "unat c = unat a * unat b"
proof -
  have c: "c = a * b" "b = 0 \<or> \<not> UINT64_MAX div b < a" using assms by (auto simp: product_def split: if_splits)
  show ?thesis
  proof (cases "b = 0")
    case False
    then have "unat a \<le> unat (UINT64_MAX div b)" using c(2) by (simp add: word_less_nat_alt)
    then have "unat a * unat b \<le> (2 ^ 64 - 1) div unat b * unat b" by (intro mult_le_mono1) (simp add: unat_div)
    also have "\<dots> \<le> 2 ^ 64 - 1" by simp
    finally show ?thesis using c(1) unat_mult_64 [of a b] by simp
  qed (simp add: c)
qed

definition units_kept :: "json \<Rightarrow> json \<Rightarrow> bool" where
  "units_kept cell changed \<longleftrightarrow>
     (is_object cell \<longrightarrow> is_object changed) \<and>
     (\<forall>key \<in> {''start'', ''end'', ''unknown'', ''outside'', ''bad''}. number_in changed key = number_in cell key) \<and>
     unat (number_in changed ''free'') + unat (number_in changed ''used'') = unat (number_in cell ''free'') + unat (number_in cell ''used'') \<and>
     (number_in cell ''fragmented'' \<le> number_in cell ''used'' \<longrightarrow> number_in changed ''fragmented'' \<le> number_in changed ''used'') \<and>
     (number_in cell ''directory'' \<le> number_in cell ''used'' \<longrightarrow> number_in changed ''directory'' \<le> number_in changed ''used'')"

lemma units_kept_refl [simp]: "units_kept c c"
  by (simp add: units_kept_def)

lemma units_kept_trans: "units_kept a b \<Longrightarrow> units_kept b c \<Longrightarrow> units_kept a c"
  by (simp add: units_kept_def)

text \<open>The units one range takes from the source counter of a cell.\<close>

definition moved_units :: "bool \<Rightarrow> u64 \<Rightarrow> u64 \<Rightarrow> json \<Rightarrow> u64" where
  "moved_units used from_unit to_unit cell =
     min (min (number_in cell ''end'' + 1) to_unit - max (number_in cell ''start'') from_unit)
       (number_in cell (if used then ''free'' else ''used''))"

lemma release_marks_numbers:
  assumes "release_marks scale cell available moved = Inr changed"
  shows "number_in changed ''fragmented'' \<le> available - moved" "number_in changed ''directory'' \<le> available - moved"
    "key \<notin> {''fragmented'', ''directory''} \<Longrightarrow> number_in changed key = number_in cell key"
proof -
  obtain mid f d where run: "json_set cell ''fragmented'' (json_unsigned (min f (available - moved))) = Inr mid"
      "json_set mid ''directory'' (json_unsigned (min d (available - moved))) = Inr changed"
    using assms by (auto simp: release_marks_def Let_def and_then_Inr)
  show "number_in changed ''fragmented'' \<le> available - moved" "number_in changed ''directory'' \<le> available - moved"
    using number_set [OF run(1), of "''fragmented''"] number_set [OF run(2)] by simp_all
  show "key \<notin> {''fragmented'', ''directory''} \<Longrightarrow> number_in changed key = number_in cell key"
    using number_set [OF run(1), of key] number_set [OF run(2), of key] by simp
qed

lemma change_cell_moves:
  assumes run: "change_cell scale used from_unit to_unit cell = Inr changed"
    and meets: "min (number_in cell ''end'' + 1) to_unit - max (number_in cell ''start'') from_unit \<noteq> 0"
  shows "units_kept cell changed \<and>
    number_in changed (if used then ''free'' else ''used'') =
      number_in cell (if used then ''free'' else ''used'') - moved_units used from_unit to_unit cell"
proof -
  let ?source = "if used then ''free'' else ''used''" and ?other = "if used then ''used'' else ''free''"
  let ?moved = "moved_units used from_unit to_unit cell" and ?available = "number_in cell ?source"
  obtain mid less n where
    mid: "(if used then Inr cell else release_marks scale cell ?available ?moved) = Inr mid"
    and less: "json_set mid ?source (json_unsigned (?available - ?moved)) = Inr less"
    and n: "addition (number_in less ?other) ?moved = Inr n" "json_set less ?other (json_unsigned n) = Inr changed"
    using run meets by (auto simp: change_cell_def Let_def and_then_Inr addition_Inr moved_units_def split: if_splits)
  have le: "?moved \<le> ?available" by (simp add: moved_units_def)
  have same: "number_in mid key = number_in cell key" if "used \<or> key \<notin> {''fragmented'', ''directory''}" for key
    using mid that release_marks_numbers(3) by (auto split: if_splits)
  have final: "number_in changed key = (if key = ?other then n else if key = ?source then ?available - ?moved else number_in mid key)" for key
    using number_set [OF n(2), of key] number_set [OF less, of key] by simp
  have n': "unat n = unat (number_in cell ?other) + unat ?moved"
    using n(1) number_set [OF less, of ?other] same [of ?other] by (simp add: addition_Inr unat_add_64 split: if_splits)
  have source: "unat (?available - ?moved) = unat ?available - unat ?moved" using le by (rule unat_sub)
  have marks: "number_in mid ''fragmented'' \<le> ?available - ?moved \<and> number_in mid ''directory'' \<le> ?available - ?moved" if "\<not> used"
    using mid that release_marks_numbers(1,2) by simp
  have le': "unat ?moved \<le> unat ?available" using le by (simp add: word_le_nat_alt)
  have "units_kept cell changed"
    using marks same n' source le' set_object [OF n(2)] by (cases used) (simp_all add: units_kept_def final word_le_nat_alt)
  then show ?thesis using final [of ?source] by (cases used) simp_all
qed

lemma change_cell_misses:
  "change_cell scale used from_unit to_unit cell = Inr changed \<Longrightarrow>
   min (number_in cell ''end'' + 1) to_unit - max (number_in cell ''start'') from_unit = 0 \<Longrightarrow> changed = cell"
  by (auto simp: change_cell_def Let_def and_then_Inr addition_Inr)

lemma change_cell_kept: "change_cell scale used from_unit to_unit cell = Inr changed \<Longrightarrow> units_kept cell changed"
  using change_cell_moves change_cell_misses by (metis units_kept_refl)


subsection \<open>The cells a range meets\<close>

definition patched :: "json list \<Rightarrow> patches \<Rightarrow> (json \<Rightarrow> json \<Rightarrow> bool) \<Rightarrow> bool" where
  "patched cells patches R \<longleftrightarrow> (\<forall>i p. patches i = Some p \<longrightarrow> i < length cells \<and> R (cells ! i) p)"

lemma change_cells_exact:
  assumes "change_cells scale used from_unit to_unit patches index cells = Inr patches'"
    "n = length (takeWhile (\<lambda>c. number_in c ''start'' < to_unit) cells)"
  shows "(i < index \<or> index + n \<le> i \<longrightarrow> patches' i = patches i) \<and>
    (index \<le> i \<and> i < index + n \<longrightarrow>
       (\<exists>p. patches' i = Some p \<and>
          change_cell scale used from_unit to_unit (case patches i of None \<Rightarrow> cells ! (i - index) | Some q \<Rightarrow> q) = Inr p))"
  using assms
proof (induction cells arbitrary: patches index n)
  case (Cons c cs)
  show ?case
  proof (cases "number_in c ''start'' < to_unit")
    case True
    let ?m = "length (takeWhile (\<lambda>c. number_in c ''start'' < to_unit) cs)"
    obtain p where p: "change_cell scale used from_unit to_unit (case patches index of None \<Rightarrow> c | Some q \<Rightarrow> q) = Inr p"
        "change_cells scale used from_unit to_unit (patches(index \<mapsto> p)) (Suc index) cs = Inr patches'"
      using Cons.prems(1) True by (auto simp: and_then_Inr)
    have IH: "(i < Suc index \<or> Suc index + ?m \<le> i \<longrightarrow> patches' i = (patches(index \<mapsto> p)) i) \<and>
      (Suc index \<le> i \<and> i < Suc index + ?m \<longrightarrow>
       (\<exists>q. patches' i = Some q \<and>
          change_cell scale used from_unit to_unit (case (patches(index \<mapsto> p)) i of None \<Rightarrow> cs ! (i - Suc index) | Some q \<Rightarrow> q) = Inr q))"
      by (rule Cons.IH [OF p(2)]) simp
    have n: "n = Suc ?m" using Cons.prems(2) True by simp
    consider "i < index" | "i = index" | "Suc index \<le> i" by linarith
    then show ?thesis
    proof cases
      case 2
      then show ?thesis using IH p(1) n by (simp split: option.splits)
    next
      case 3
      then have "(c # cs) ! (i - index) = cs ! (i - Suc index)" by (simp add: nth_Cons')
      then show ?thesis using IH 3 n by (auto split: option.splits)
    qed (use IH n in simp)
  next
    case False
    then show ?thesis using Cons.prems by auto
  qed
qed auto

lemma change_cells_patched:
  assumes "change_cells scale used from_unit to_unit patches index (drop index cells) = Inr patches'" "patched cells patches units_kept"
  shows "patched cells patches' units_kept"
  unfolding patched_def
proof (intro allI impI)
  fix i p
  assume p: "patches' i = Some p"
  let ?n = "length (takeWhile (\<lambda>c. number_in c ''start'' < to_unit) (drop index cells))"
  have bound: "?n \<le> length cells - index" using length_takeWhile_le [of _ "drop index cells"] by simp
  note exact = change_cells_exact [OF assms(1) refl, of i]
  show "i < length cells \<and> units_kept (cells ! i) p"
  proof (cases "index \<le> i \<and> i < index + ?n")
    case True
    then have "i < length cells" using bound by linarith
    moreover from this have "drop index cells ! (i - index) = cells ! i" using True by simp
    ultimately have i: "i < length cells" "drop index cells ! (i - index) = cells ! i" by blast+
    have "change_cell scale used from_unit to_unit (case patches i of None \<Rightarrow> cells ! i | Some q \<Rightarrow> q) = Inr p"
      using exact True p i(2) by (auto split: option.splits)
    then have "units_kept (case patches i of None \<Rightarrow> cells ! i | Some q \<Rightarrow> q) p" by (rule change_cell_kept)
    moreover have "units_kept (cells ! i) (case patches i of None \<Rightarrow> cells ! i | Some q \<Rightarrow> q)"
      using assms(2) by (auto simp: patched_def split: option.splits)
    ultimately show ?thesis using i(1) units_kept_trans by blast
  next
    case False
    then have "patches i = Some p" using exact p by auto
    then show ?thesis using assms(2) by (simp add: patched_def)
  qed
qed

lemma apply_range_patched:
  "apply_range scale cells u used a n patches = Inr patches' \<Longrightarrow> patched cells patches units_kept \<Longrightarrow> patched cells patches' units_kept"
  using change_cells_patched by (auto simp: apply_range_def Let_def and_then_Inr split: if_splits)

lemma move_range_patched:
  "move_range scale cells u alloc s d n patches = Inr patches' \<Longrightarrow> patched cells patches units_kept \<Longrightarrow> patched cells patches' units_kept"
  using apply_range_patched by (auto simp: move_range_def and_then_Inr split: if_splits)

lemma move_ranges_patched:
  "move_ranges scale cells u alloc items patches = Inr patches' \<Longrightarrow> patched cells patches units_kept \<Longrightarrow> patched cells patches' units_kept"
proof (induction items arbitrary: patches)
  case (Cons item items)
  show ?case
  proof (cases "case item of JArray vs \<Rightarrow> length vs = 3 | _ \<Rightarrow> False")
    case True
    then obtain s d n mid where "move_range scale cells u alloc s d n patches = Inr mid"
        "move_ranges scale cells u alloc items mid = Inr patches'"
      using Cons.prems(1) by (auto simp: and_then_Inr)
    then show ?thesis using Cons.IH move_range_patched Cons.prems(2) by blast
  next
    case False
    then show ?thesis using Cons by simp
  qed
qed simp

lemma commit_nth: "i < length cells \<Longrightarrow> commit_patches cells patches ! i = effective_cell cells patches i"
  by (simp add: commit_patches_def)

lemma commit_length [simp]: "length (commit_patches cells patches) = length cells"
  by (simp add: commit_patches_def)

text \<open>
  A live range event moves units between free and used and changes nothing else: the cells keep their number, their bounds and
  their unknown, outside and bad units, and the sum of free and used units of each cell stays what it was.
\<close>

theorem live_ranges_conserve:
  assumes "desktop_live_ranges scale m cells payload plural = Inr cells'"
  shows "length cells' = length cells \<and> (\<forall>i < length cells. units_kept (cells ! i) (cells' ! i))"
proof -
  have none: "patched cells Map.empty units_kept" by (simp add: patched_def)
  obtain patches where "cells' = commit_patches cells patches" "patched cells patches units_kept"
    using assms move_range_patched [OF _ none] move_ranges_patched [OF _ none] none
    by (auto simp: desktop_live_ranges_def Let_def and_then_Inr split: if_splits option.splits json.splits)
  then show ?thesis by (auto simp: commit_nth effective_cell_def patched_def split: option.splits)
qed


subsection \<open>The order of the cells\<close>

definition ordered_cells :: "json list \<Rightarrow> bool" where
  "ordered_cells cells \<longleftrightarrow>
     (\<forall>i < length cells. is_object (cells ! i) \<and> number_in (cells ! i) ''start'' \<le> number_in (cells ! i) ''end'' \<and>
        (Suc i < length cells \<longrightarrow> number_in (cells ! i) ''end'' < number_in (cells ! Suc i) ''start''))"

lemma cells_follow_exact:
  "cells_follow previous cells = Inr () \<longleftrightarrow>
     ordered_cells cells \<and> (cells \<noteq> [] \<longrightarrow> (case previous of None \<Rightarrow> True | Some p \<Rightarrow> p < number_in (cells ! 0) ''start''))"
proof (induction cells arbitrary: previous)
  case (Cons c cs)
  have "ordered_cells (c # cs) \<longleftrightarrow> is_object c \<and> number_in c ''start'' \<le> number_in c ''end'' \<and>
      (cs \<noteq> [] \<longrightarrow> number_in c ''end'' < number_in (cs ! 0) ''start'') \<and> ordered_cells cs"
    by (auto simp add: ordered_cells_def All_less_Suc2)
  then show ?case by (auto simp: Cons.IH not_less split: option.splits)
qed (simp add: ordered_cells_def)

lemma validate_cells_exact: "validate_cells cells = Inr () \<longleftrightarrow> cells \<noteq> [] \<and> length cells \<le> max_cells \<and> ordered_cells cells"
  by (auto simp: validate_cells_def validate_cell_count_def and_then_Inr cells_follow_exact)

lemma ordered_before:
  assumes "ordered_cells cells" "i < j" "j < length cells"
  shows "number_in (cells ! i) ''end'' < number_in (cells ! j) ''start''"
  using assms(2,3)
proof (induction j)
  case (Suc j)
  have next_one: "number_in (cells ! j) ''end'' < number_in (cells ! Suc j) ''start''"
    using assms(1) Suc.prems(2) by (simp add: ordered_cells_def)
  show ?case
  proof (cases "i = j")
    case False
    then have "number_in (cells ! i) ''end'' < number_in (cells ! j) ''start''" using Suc by simp
    also have "\<dots> \<le> number_in (cells ! j) ''end''" using assms(1) Suc.prems(2) by (simp add: ordered_cells_def)
    finally show ?thesis using next_one by (rule less_trans)
  qed (use next_one in simp)
qed simp

lemma ordered_ends:
  assumes "ordered_cells cells" "i \<le> j" "j < length cells"
  shows "number_in (cells ! i) ''end'' \<le> number_in (cells ! j) ''end''" "number_in (cells ! i) ''start'' \<le> number_in (cells ! j) ''start''"
proof -
  have *: "number_in (cells ! k) ''start'' \<le> number_in (cells ! k) ''end''" if "k < length cells" for k
    using assms(1) that by (simp add: ordered_cells_def)
  show "number_in (cells ! i) ''end'' \<le> number_in (cells ! j) ''end''" "number_in (cells ! i) ''start'' \<le> number_in (cells ! j) ''start''"
    using ordered_before [OF assms(1), of i j] assms(2,3) * [of i] * [of j] by (cases "i = j"; force)+
qed

text \<open>The last update of a cell in an event.\<close>

definition update_of :: "json list \<Rightarrow> nat \<Rightarrow> json option" where
  "update_of updates index = find (\<lambda>u. is_object u \<and> unat (number_in u ''i'') = index) (rev updates)"

lemma find_append: "find P (xs @ ys) = (case find P xs of None \<Rightarrow> find P ys | Some x \<Rightarrow> Some x)"
  by (induction xs) simp_all

lemma update_patches_exact:
  "i < n \<Longrightarrow> update_patches n updates patches i =
     (case update_of updates i of None \<Rightarrow> patches i | Some u \<Rightarrow> Some (updated_cell u))"
  by (induction updates arbitrary: patches) (auto simp: update_of_def find_append Let_def split: option.splits)

lemma patched_order:
  assumes "ordered_cells cells" "validate_patched_cell_order cells patches = Inr ()"
  shows "ordered_cells (commit_patches cells patches)"
proof -
  have checked: "patch_ordered cells patches i" if "i < length cells" "patches i \<noteq> None" for i
    using assms(2) that by (simp add: validate_patched_cell_order_def list_all_iff)
  have cell: "is_object (effective_cell cells patches i) \<and>
      number_in (effective_cell cells patches i) ''start'' \<le> number_in (effective_cell cells patches i) ''end''" if "i < length cells" for i
    using checked [OF that] assms(1) that
    by (cases "patches i") (auto simp: patch_ordered_def ordered_cells_def effective_cell_def Let_def not_less)
  have step: "number_in (effective_cell cells patches i) ''end'' < number_in (effective_cell cells patches (Suc i)) ''start''"
    if i: "Suc i < length cells" for i
  proof (cases "patches i = None \<and> patches (Suc i) = None")
    case True
    then show ?thesis using assms(1) i by (simp add: effective_cell_def ordered_cells_def)
  next
    case False
    then show ?thesis using checked [of i] checked [of "Suc i"] i by (auto simp: patch_ordered_def Let_def not_le)
  qed
  show ?thesis using cell step by (simp add: ordered_cells_def commit_nth)
qed

lemma live_cells_patches:
  assumes "desktop_live_cells m cells payload = Inr (m', cells')"
  obtains patches where
    "(case json_find payload ''cells'' of
       Some (JArray updates) \<Rightarrow>
         if length updates > length cells then Inl ''Too many live cells''
         else Inr (update_patches (length cells) updates Map.empty)
     | _ \<Rightarrow> Inr Map.empty) = Inr patches"
    "validate_patched_cell_order cells patches = Inr ()" "cells' = commit_patches cells patches"
  using assms by (auto simp: desktop_live_cells_def and_then_Inr)

lemma live_cells_valid:
  assumes "desktop_live_cells m cells payload = Inr (m', cells')" "validate_cells cells = Inr ()"
  shows "validate_cells cells' = Inr ()"
proof -
  obtain patches where order: "validate_patched_cell_order cells patches = Inr ()" and cells': "cells' = commit_patches cells patches"
    using live_cells_patches [OF assms(1)] by blast
  have "commit_patches cells patches = [] \<longleftrightarrow> cells = []" by (simp add: commit_patches_def)
  then show ?thesis using assms(2) patched_order [OF _ order] by (simp add: validate_cells_exact cells')
qed

text \<open>
  Property C34. A live cell event replaces exactly the cells it names, the last update of a cell winning, and keeps the array in
  order: although only the neighbours of the patched cells are compared, an ordered array is ordered again after the event.
\<close>

theorem live_cells_ordered:
  assumes "desktop_live_cells m cells payload = Inr (m', cells')" "validate_cells cells = Inr ()"
  shows "validate_cells cells' = Inr () \<and> length cells' = length cells \<and>
    (json_find payload ''cells'' = Some (JArray updates) \<longrightarrow>
       (\<forall>i < length cells. cells' ! i = (case update_of updates i of None \<Rightarrow> cells ! i | Some u \<Rightarrow> updated_cell u)))"
proof -
  obtain patches where
    patches: "(case json_find payload ''cells'' of
       Some (JArray updates) \<Rightarrow>
         if length updates > length cells then Inl ''Too many live cells''
         else Inr (update_patches (length cells) updates Map.empty)
     | _ \<Rightarrow> Inr Map.empty) = Inr patches" and cells': "cells' = commit_patches cells patches"
    by (rule live_cells_patches [OF assms(1)])
  have "validate_cells cells' = Inr ()" by (rule live_cells_valid [OF assms])
  moreover have "cells' ! i = (case update_of updates i of None \<Rightarrow> cells ! i | Some u \<Rightarrow> updated_cell u)"
    if "json_find payload ''cells'' = Some (JArray updates)" "i < length cells" for i
    using patches that update_patches_exact [OF that(2)]
    by (auto simp: cells' commit_nth effective_cell_def split: if_splits option.splits)
  ultimately show ?thesis by (simp add: cells')
qed


subsection \<open>A mapper's map under range events\<close>

text \<open>What the desktop relies on in a cell, with the counts read as it reads them.\<close>

definition live_cell_ok :: "json \<Rightarrow> bool" where
  "live_cell_ok cell \<longleftrightarrow>
     unat (number_in cell ''free'') + unat (number_in cell ''used'')
       \<le> unat (number_in cell ''end'') - unat (number_in cell ''start'') + 1 \<and>
     number_in cell ''fragmented'' \<le> number_in cell ''used'' \<and> number_in cell ''directory'' \<le> number_in cell ''used''"

lemma number_read: "required_u64 cell key = Inr w \<Longrightarrow> number_in cell key = w" "optional_u64 cell key 0 = Inr w \<Longrightarrow> number_in cell key = w"
  by (auto simp: required_u64_def optional_u64_def json_at_def number_in_def and_then_Inr unsigned_or_def is_number_def unsigned_value_def
      number_text_def split: option.splits json.splits)

lemma required_object: "required_u64 cell key = Inr w \<Longrightarrow> is_object cell"
  by (cases cell) (auto simp: required_u64_def json_at_def json_find_def is_object_def)

lemma mapped_cell:
  assumes "cell_ok cell"
  shows "is_object cell" "number_in cell ''start'' = cell_first cell" "number_in cell ''end'' = cell_last cell"
    "cell_first cell \<le> cell_last cell" "live_cell_ok cell"
  using assms by (auto simp: cell_ok_def live_cell_ok_def cell_first_def cell_last_def number_read required_object word_le_nat_alt)

lemma tiles_ordered: "tiles first cells past \<Longrightarrow> list_all cell_ok cells \<Longrightarrow> ordered_cells cells"
proof (induction cells arbitrary: first)
  case (Cons cell cells)
  have later: "number_in cell ''end'' < number_in (cells ! 0) ''start''" if "cells \<noteq> []"
    using Cons.prems that mapped_cell by (cases cells) (auto simp: word_less_nat_alt)
  then show ?case
    using Cons.IH [of "unat (cell_last cell) + 1"] Cons.prems mapped_cell [of cell]
    by (simp add: ordered_cells_def All_less_Suc2)
qed (simp add: ordered_cells_def)

lemma units_kept_ok: "units_kept cell changed \<Longrightarrow> live_cell_ok cell \<Longrightarrow> live_cell_ok changed"
  by (simp add: units_kept_def live_cell_ok_def)

lemma units_kept_ordered: "list_all2 units_kept cells cells' \<Longrightarrow> ordered_cells cells \<Longrightarrow> ordered_cells cells'"
  by (simp add: ordered_cells_def list_all2_conv_all_nth units_kept_def)

definition range_event :: "scaling \<Rightarrow> json \<Rightarrow> json list \<Rightarrow> json list \<Rightarrow> bool" where
  "range_event scale m cells cells' \<longleftrightarrow> (\<exists>payload plural. desktop_live_ranges scale m cells payload plural = Inr cells')"

lemma range_events_kept: "(range_event scale m)\<^sup>*\<^sup>* cells cells' \<Longrightarrow> list_all2 units_kept cells cells'"
proof (induction rule: rtranclp_induct)
  case (step mid cells')
  then have "list_all2 units_kept mid cells'"
    using live_ranges_conserve by (auto simp: range_event_def list_all2_conv_all_nth)
  with step.IH show ?case by (rule list_all2_trans [rotated]) (rule units_kept_trans)
qed (simp add: list.rel_refl)

text \<open>
  Property C33. From the mapper to the screen. Starting from the cells of any map the mapper's back ends return, after any number of range
  events of the worker the desktop's cells are still ordered, in the same number and with the same bounds and sums of free and
  used units, no cell counts more units than it holds, and none more fragmented or directory units than used ones.
\<close>

theorem live_map_consistent:
  assumes "map_backend E b p n = Inr j" "checked_product (me_multiply E)" "json_find j ''cells'' = Some (JArray cells)"
    "(range_event scale m)\<^sup>*\<^sup>* cells cells'"
  shows "ordered_cells cells' \<and> list_all live_cell_ok cells' \<and> list_all2 units_kept cells cells'"
proof -
  have "map_ok (first_unit b) j" by (rule map_backend_ok [OF assms(1,2)])
  then obtain past where t: "tiles (first_unit b) cells past" "list_all cell_ok cells"
    using assms(3) by (auto simp: map_ok_def)
  have kept: "list_all2 units_kept cells cells'" by (rule range_events_kept [OF assms(4)])
  have "list_all live_cell_ok cells" using t(2) mapped_cell(5) by (auto simp: list_all_iff)
  then have "list_all live_cell_ok cells'"
    using kept units_kept_ok by (auto simp: list_all_length list_all2_conv_all_nth)
  then show ?thesis using units_kept_ordered [OF kept tiles_ordered [OF t]] kept by blast
qed


subsection \<open>The units a byte range touches\<close>

definition touched_units :: "u64 \<Rightarrow> u64 \<Rightarrow> u64 \<Rightarrow> nat set" where
  "touched_units u first_byte len = (\<lambda>b. b div unat u) ` {unat first_byte..<unat first_byte + unat len}"

definition cell_units :: "json \<Rightarrow> nat set" where
  "cell_units cell = {unat (number_in cell ''start'')..unat (number_in cell ''end'')}"

lemma below_ceiling:
  assumes "u \<noteq> 0"
  shows "k < unat (ceiling_units x u) \<longleftrightarrow> k * unat u < unat x"
proof -
  have u: "0 < unat u" using assms by (simp add: unat_gt_0)
  have split_x: "unat x = unat x div unat u * unat u + unat x mod unat u" by simp
  have below: "unat x mod unat u < unat u" using u by simp
  show ?thesis
  proof (cases "x mod u = 0")
    case True
    then have r: "unat x mod unat u = 0" by (metis unat_mod unsigned_0)
    then have c: "unat (ceiling_units x u) = unat x div unat u" using True by (simp add: ceiling_units_def unat_div)
    have "k < unat x div unat u \<longleftrightarrow> k * unat u < unat x div unat u * unat u" using u by (simp only: mult_less_cancel2 simp_thms)
    also have "unat x div unat u * unat u = unat x" using split_x r by linarith
    finally show ?thesis unfolding c .
  next
    case False
    then have "unat (x mod u) \<noteq> 0" by (simp add: unat_eq_zero)
    then have r: "0 < unat x mod unat u" by (simp add: unat_mod)
    then have "unat u \<noteq> 1" by (metis mod_by_1 less_irrefl)
    then have "unat x div unat u \<le> unat x div 2" using u by (intro div_le_mono2) simp_all
    moreover have "unat x div 2 < 2 ^ 64 - 1"
    proof -
      have "unat x div 2 < (2 ^ 64 :: nat) div 2" using unat_lt64 [of x] by (intro less_mult_imp_div_less) simp
      then show ?thesis by simp
    qed
    ultimately have "unat x div unat u < 2 ^ 64 - 1" by (rule le_less_trans)
    then have c: "unat (ceiling_units x u) = unat x div unat u + 1"
      using False unat_add_64 [of "x div u" 1] by (simp add: ceiling_units_def unat_div)
    have "k < unat x div unat u + 1 \<longleftrightarrow> k * unat u < unat x"
    proof
      assume "k < unat x div unat u + 1"
      then have "k * unat u \<le> unat x div unat u * unat u" by (intro mult_le_mono1) simp
      then show "k * unat u < unat x" using split_x r by linarith
    next
      assume "k * unat u < unat x"
      moreover have "(unat x div unat u + 1) * unat u = unat x div unat u * unat u + unat u" by simp
      ultimately have "k * unat u < (unat x div unat u + 1) * unat u" using split_x below by linarith
      then show "k < unat x div unat u + 1" by (simp only: mult_less_cancel2)
    qed
    then show ?thesis using c by simp
  qed
qed

lemma touched_interval:
  assumes "u \<noteq> 0" "len \<noteq> 0" "unat a + unat len < 2 ^ 64"
  shows "touched_units u a len = {unat (a div u)..<unat (ceiling_units (a + len) u)}"
proof -
  have u: "0 < unat u" and len: "0 < unat len" using assms(1,2) by (simp_all add: unat_gt_0)
  have past: "unat (a + len) = unat a + unat len" using assms(3) by (rule unat_add_64)
  have "k \<in> touched_units u a len \<longleftrightarrow> unat a div unat u \<le> k \<and> k * unat u < unat a + unat len" for k
  proof
    assume "k \<in> touched_units u a len"
    then obtain b where b: "k = b div unat u" "unat a \<le> b" "b < unat a + unat len" by (auto simp: touched_units_def)
    have "b div unat u * unat u \<le> b" by simp
    then have "b div unat u * unat u < unat a + unat len" using b(3) by (rule le_less_trans)
    then show "unat a div unat u \<le> k \<and> k * unat u < unat a + unat len" using b(2) by (simp only: b(1) div_le_mono simp_thms)
  next
    assume k: "unat a div unat u \<le> k \<and> k * unat u < unat a + unat len"
    let ?b = "max (unat a) (k * unat u)"
    have "?b div unat u = k"
    proof (cases "unat a \<le> k * unat u")
      case False
      then have "k \<le> unat a div unat u" using u by (simp add: less_eq_div_iff_mult_less_eq)
      then show ?thesis using False k by (simp add: max_def)
    qed (use u in \<open>simp add: max_def\<close>)
    moreover have "?b \<in> {unat a..<unat a + unat len}" using k len by simp
    ultimately show "k \<in> touched_units u a len" unfolding touched_units_def by (metis image_eqI)
  qed
  then have "k \<in> touched_units u a len \<longleftrightarrow> k \<in> {unat (a div u)..<unat (ceiling_units (a + len) u)}" for k
    using below_ceiling [OF assms(1), of k "a + len"] by (simp add: past unat_div)
  then show ?thesis by blast
qed

lemma first_cell_exact:
  assumes "ordered_cells cells" "i < length cells"
  shows "i < first_cell f cells \<longleftrightarrow> number_in (cells ! i) ''end'' < f"
proof
  assume i: "i < first_cell f cells"
  then have "takeWhile (\<lambda>c. number_in c ''end'' < f) cells ! i \<in> set (takeWhile (\<lambda>c. number_in c ''end'' < f) cells)"
    by (simp add: first_cell_def)
  then show "number_in (cells ! i) ''end'' < f" using i by (auto simp: first_cell_def takeWhile_nth dest: set_takeWhileD)
next
  assume end_before: "number_in (cells ! i) ''end'' < f"
  show "i < first_cell f cells"
  proof (rule ccontr)
    assume late: "\<not> i < first_cell f cells"
    then have "first_cell f cells < length cells" using assms(2) by simp
    then have "\<not> number_in (cells ! first_cell f cells) ''end'' < f" unfolding first_cell_def by (rule nth_length_takeWhile)
    moreover have "number_in (cells ! first_cell f cells) ''end'' \<le> number_in (cells ! i) ''end''"
      using ordered_ends(1) [OF assms(1) _ assms(2)] late by simp
    ultimately show False using end_before by simp
  qed
qed

lemma last_cell_exact:
  assumes "ordered_cells cells" "i < length cells" "k \<le> i"
  shows "i < k + length (takeWhile (\<lambda>c. number_in c ''start'' < t) (drop k cells)) \<longleftrightarrow> number_in (cells ! i) ''start'' < t"
proof -
  let ?n = "length (takeWhile (\<lambda>c. number_in c ''start'' < t) (drop k cells))"
  have drop: "drop k cells ! (i - k) = cells ! i" using assms(2,3) by simp
  show ?thesis
  proof
    assume "i < k + ?n"
    then have i: "i - k < ?n" using assms(3) by simp
    then have "takeWhile (\<lambda>c. number_in c ''start'' < t) (drop k cells) ! (i - k) \<in> set (takeWhile (\<lambda>c. number_in c ''start'' < t) (drop k cells))"
      by simp
    then show "number_in (cells ! i) ''start'' < t" using i drop by (auto simp: takeWhile_nth dest: set_takeWhileD)
  next
    assume before: "number_in (cells ! i) ''start'' < t"
    show "i < k + ?n"
    proof (rule ccontr)
      assume late: "\<not> i < k + ?n"
      then have n: "?n < length (drop k cells)" using assms(2) by simp
      then have "\<not> number_in (drop k cells ! ?n) ''start'' < t" by (rule nth_length_takeWhile)
      then have "\<not> number_in (cells ! (k + ?n)) ''start'' < t" using n by simp
      moreover have "number_in (cells ! (k + ?n)) ''start'' \<le> number_in (cells ! i) ''start''"
        using ordered_ends(2) [OF assms(1) _ assms(2)] late by simp
      ultimately show False using before by simp
    qed
  qed
qed


lemma span_overlap:
  assumes "s \<le> e" "f \<le> e" "s < t" "f < t" "unat e + 1 < 2 ^ 64"
  shows "min (e + 1) t - max s f \<noteq> (0 :: u64) \<and> unat (min (e + 1) t - max s f) = card ({unat s..unat e} \<inter> {unat f..<unat t})"
proof -
  have e: "unat (e + 1) = unat e + 1" using unat_add_64 [of e 1] assms(5) by simp
  have le: "max s f \<le> min (e + 1) t" "max s f \<noteq> min (e + 1) t"
    using assms e by (auto simp: word_le_nat_alt word_less_nat_alt max_def min_def)
  have "{unat s..unat e} \<inter> {unat f..<unat t} = {max (unat s) (unat f)..<min (unat e + 1) (unat t)}" by auto
  then have "card ({unat s..unat e} \<inter> {unat f..<unat t}) = min (unat e + 1) (unat t) - max (unat s) (unat f)" by simp
  also have "\<dots> = unat (min (e + 1) t) - unat (max s f)"
    using e by (simp add: max_def min_def word_le_nat_alt)
  finally show ?thesis using le unat_sub [OF le(1)] by simp
qed

text \<open>
  Property C35. A range event is exact: in every cell of an ordered array it moves one unit for each unit of the cell that holds a
  byte of the range, as far as the cell has units to move, and no other cell changes. The binary search and the loop that stops
  at the first cell behind the range miss nothing.
\<close>

theorem apply_range_exact:
  assumes run: "apply_range scale cells u used a len patches = Inr patches'" and u: "u \<noteq> 0"
    and ordered: "ordered_cells cells" and kept: "patched cells patches units_kept" and i: "i < length cells"
  shows "let before = effective_cell cells patches i; changed = effective_cell cells patches' i;
      source = (if used then ''free'' else ''used''); n = card (cell_units (cells ! i) \<inter> touched_units u a len)
    in unat (number_in changed source) = unat (number_in before source) - n \<and> units_kept before changed \<and> (n = 0 \<longrightarrow> changed = before)"
proof (cases "len = 0")
  case True
  then show ?thesis using run by (simp add: apply_range_def touched_units_def)
next
  case False
  let ?f = "a div u" and ?t = "ceiling_units (a + len) u" and ?cell = "cells ! i" and ?before = "effective_cell cells patches i"
  let ?k = "first_cell ?f cells"
  let ?n = "length (takeWhile (\<lambda>c. number_in c ''start'' < ?t) (drop ?k cells))"
  have fits: "unat a + unat len < 2 ^ 64" and loop: "change_cells scale used ?f ?t patches ?k (drop ?k cells) = Inr patches'"
    using run False by (auto simp: apply_range_def Let_def and_then_Inr addition_Inr)
  have touched: "touched_units u a len = {unat ?f..<unat ?t}" by (rule touched_interval [OF u False fits])
  note exact = change_cells_exact [OF loop refl, of i]
  have cell: "is_object ?cell" "number_in ?cell ''start'' \<le> number_in ?cell ''end''" using ordered i by (simp_all add: ordered_cells_def)
  have same: "number_in ?before ''start'' = number_in ?cell ''start''" "number_in ?before ''end'' = number_in ?cell ''end''"
    using kept by (auto simp: patched_def units_kept_def effective_cell_def split: option.splits)
  show ?thesis
  proof (cases "?k \<le> i \<and> i < ?k + ?n")
    case True
    then have meets: "?f \<le> number_in ?cell ''end''" "number_in ?cell ''start'' < ?t"
      using first_cell_exact [OF ordered i, of ?f] last_cell_exact [OF ordered i, of ?k ?t] by auto
    obtain p where p: "patches' i = Some p" "change_cell scale used ?f ?t ?before = Inr p"
      using exact True i by (auto simp: effective_cell_def split: option.splits)
    have "unat (number_in ?cell ''end'') + 1 < 2 ^ 64"
      using p(2) same by (auto simp: change_cell_def and_then_Inr addition_Inr)
    moreover have "?f < ?t"
    proof -
      have "touched_units u a len \<noteq> {}" using False by (simp add: touched_units_def unat_eq_zero)
      then show ?thesis unfolding touched by (simp add: word_less_nat_alt)
    qed
    ultimately have overlap: "min (number_in ?before ''end'' + 1) ?t - max (number_in ?before ''start'') ?f \<noteq> 0"
        "unat (min (number_in ?before ''end'' + 1) ?t - max (number_in ?before ''start'') ?f) = card (cell_units ?cell \<inter> touched_units u a len)"
      using span_overlap [OF cell(2) meets(1,2)] by (simp_all add: same cell_units_def touched)
    have moved: "unat (moved_units used ?f ?t ?before) =
        min (card (cell_units ?cell \<inter> touched_units u a len)) (unat (number_in ?before (if used then ''free'' else ''used'')))"
      using overlap(2) by (simp add: moved_units_def min_def word_le_nat_alt)
    have le: "moved_units used ?f ?t ?before \<le> number_in ?before (if used then ''free'' else ''used'')" by (simp add: moved_units_def)
    have "card (cell_units ?cell \<inter> touched_units u a len) \<noteq> 0" using overlap by (metis unat_eq_zero)
    then show ?thesis
      using change_cell_moves [OF p(2) overlap(1)] unat_sub [OF le] moved p(1) by (simp add: Let_def effective_cell_def)
  next
    case False
    then have "number_in ?cell ''end'' < ?f \<or> \<not> number_in ?cell ''start'' < ?t"
      using first_cell_exact [OF ordered i, of ?f] last_cell_exact [OF ordered i, of ?k ?t] by auto
    then have "cell_units ?cell \<inter> touched_units u a len = {}"
      unfolding touched cell_units_def by (auto simp: word_less_nat_alt)
    then show ?thesis using exact False by (auto simp: effective_cell_def)
  qed
qed


subsection \<open>Resetting the map\<close>

lemma mark_cell_change: "mark_cell from_unit to_unit cell = change_cell scale True from_unit to_unit cell"
  by (cases cell) (simp_all add: mark_cell_def change_cell_def json_set_def json_object_def Let_def cong del: if_weak_cong)

lemma mark_cell_kept: "mark_cell from_unit to_unit cell = Inr changed \<Longrightarrow> units_kept cell changed"
  using change_cell_kept [of "\<lambda>_ _ _. 0" True] by (simp add: mark_cell_change [symmetric])

lemma mark_cells_kept: "mark_cells from_unit to_unit cells = Inr marked \<Longrightarrow> list_all2 units_kept cells marked"
  by (induction cells arbitrary: marked)
    (auto simp: and_then_Inr list.rel_refl intro: mark_cell_kept split: if_splits)

lemma mark_used_kept: "mark_used total_units u start_byte len cells = Inr marked \<Longrightarrow> list_all2 units_kept cells marked"
proof -
  assume "mark_used total_units u start_byte len cells = Inr marked"
  then consider "marked = cells" | k t f rest where "marked = take k cells @ rest" "mark_cells f t (drop k cells) = Inr rest"
    by (auto simp: mark_used_def and_then_Inr Let_def split: if_splits)
  then show ?thesis
  proof cases
    case 2
    then have "list_all2 units_kept (take k cells @ drop k cells) marked"
      using mark_cells_kept [OF 2(2)] by (simp only: 2(1)) (intro list_all2_appendI, simp_all add: list.rel_refl)
    then show ?thesis by simp
  qed (simp add: list.rel_refl)
qed

lemma mark_ranges_kept: "mark_ranges total_units u items cells = Inr marked \<Longrightarrow> list_all2 units_kept cells marked"
proof (induction items arbitrary: cells)
  case (Cons item items)
  then obtain a n mid where "mark_used total_units u a n cells = Inr mid" "mark_ranges total_units u items mid = Inr marked"
    by (auto simp: and_then_Inr split: if_splits)
  then have "list_all2 units_kept cells mid" "list_all2 units_kept mid marked" using mark_used_kept Cons.IH by blast+
  then show ?case by (rule list_all2_trans [rotated]) (rule units_kept_trans)
qed (simp add: list.rel_refl)

text \<open>A cell of a reset map: its units inside the file system are free or used, the others are outside.\<close>

definition partitioned :: "nat \<Rightarrow> json \<Rightarrow> json \<Rightarrow> bool" where
  "partitioned n cell changed \<longleftrightarrow>
     (is_object cell \<longrightarrow> is_object changed) \<and>
     (\<forall>key \<in> {''start'', ''end''}. number_in changed key = number_in cell key) \<and>
     unat (number_in changed ''free'') + unat (number_in changed ''used'') = card (cell_units cell \<inter> {..<n}) \<and>
     unat (number_in changed ''outside'') = card (cell_units cell - {..<n}) \<and>
     number_in changed ''unknown'' = 0 \<and> number_in changed ''bad'' = 0 \<and>
     number_in changed ''fragmented'' \<le> number_in changed ''used'' \<and> number_in changed ''directory'' \<le> number_in changed ''used''"

lemma partitioned_kept: "partitioned n cell mid \<Longrightarrow> units_kept mid changed \<Longrightarrow> partitioned n cell changed"
  by (simp add: partitioned_def units_kept_def)

lemma reset_cell_partitioned:
  assumes run: "reset_cell n cell = Inr changed" and valid: "number_in cell ''start'' \<le> number_in cell ''end''"
  shows "partitioned (unat n) cell changed"
proof -
  let ?s = "number_in cell ''start''" and ?e = "number_in cell ''end''"
  define inside where "inside = (if ?s \<ge> n then 0 else min (?e + 1) n - ?s)"
  have fits: "unat ?e + 1 < 2 ^ 64" and
    set: "set_members [(''free'', json_unsigned inside), (''used'', json_unsigned 0), (''unknown'', json_unsigned 0),
             (''outside'', json_unsigned (?e + 1 - ?s - inside)), (''fragmented'', json_unsigned 0),
             (''directory'', json_unsigned 0), (''bad'', json_unsigned 0)] cell = Inr changed"
    using run by (auto simp: reset_cell_def and_then_Inr addition_Inr Let_def inside_def)
  have e: "unat (?e + 1) = unat ?e + 1" using unat_add_64 [of ?e 1] fits by simp
  have order: "unat ?s \<le> unat ?e" using valid by (simp add: word_le_nat_alt)
  have inside: "unat inside = card (cell_units cell \<inter> {..<unat n})"
  proof (cases "n \<le> ?s")
    case True
    then have "cell_units cell \<inter> {..<unat n} = {}" by (auto simp: cell_units_def word_le_nat_alt)
    then show ?thesis using True by (simp add: inside_def)
  next
    case False
    then have le: "?s \<le> min (?e + 1) n" using e order by (simp add: word_le_nat_alt)
    have "cell_units cell \<inter> {..<unat n} = {unat ?s..<min (unat ?e + 1) (unat n)}" by (auto simp: cell_units_def)
    then have "card (cell_units cell \<inter> {..<unat n}) = min (unat ?e + 1) (unat n) - unat ?s" by simp
    moreover have "unat (min (?e + 1) n) = min (unat ?e + 1) (unat n)" using e by (simp add: min_def word_le_nat_alt)
    ultimately show ?thesis using False unat_sub [OF le] by (simp add: inside_def)
  qed
  have whole: "unat (?e + 1 - ?s) = card (cell_units cell)"
    using unat_sub [of ?s "?e + 1"] e order by (simp add: cell_units_def word_le_nat_alt)
  have split_card: "card (cell_units cell) = card (cell_units cell \<inter> {..<unat n}) + card (cell_units cell - {..<unat n})"
    by (rule card_Int_Diff) (simp add: cell_units_def)
  then have "unat (?e + 1 - ?s - inside) = card (cell_units cell - {..<unat n})"
    using inside whole unat_sub [of inside "?e + 1 - ?s"] by (simp add: word_le_nat_alt)
  then show ?thesis
    using set inside by (auto simp: and_then_Inr partitioned_def number_set dest: set_object)
qed

lemma reset_cells_partitioned:
  "reset_cells n cells = Inr changed \<Longrightarrow> \<forall>cell \<in> set cells. number_in cell ''start'' \<le> number_in cell ''end'' \<Longrightarrow>
   list_all2 (partitioned (unat n)) cells changed"
  by (induction cells arbitrary: changed) (auto simp: and_then_Inr reset_cell_partitioned)

text \<open>
  A live reset redraws the map exactly: it keeps the number and the bounds of the cells, the units of a cell inside the
  new file system are its free and used units together, those behind its end are outside, and no unknown or bad unit is left.
\<close>

theorem live_reset_partitions:
  assumes run: "desktop_live_reset m cells payload = Inr (m', cells')"
    and extent: "json_find payload ''filesystem_units'' \<noteq> None"
  shows "0 < number_in payload ''filesystem_units'' \<and>
    list_all2 (partitioned (unat (number_in payload ''filesystem_units''))) cells cells' \<and>
    number_in m' ''filesystem_units'' = number_in payload ''filesystem_units''"
proof -
  let ?n = "number_in payload ''filesystem_units''"
  have valid: "ordered_cells cells" using run by (auto simp: desktop_live_reset_def and_then_Inr validate_cells_exact)
  have starts: "\<forall>cell \<in> set cells. number_in cell ''start'' \<le> number_in cell ''end''"
    using valid by (auto simp: ordered_cells_def in_set_conv_nth)
  obtain u blank m1 m2 fs out where
    n: "?n \<noteq> 0" and blank: "reset_cells ?n cells = Inr blank"
    and listed: "(case json_find payload ''used_ranges'' of
        Some (JArray items) \<Rightarrow> if length items > max_cells then Inl ''Too many used ranges'' else mark_ranges ?n u items blank
      | _ \<Rightarrow> Inl ''Live reset has no used-range list'') = Inr cells'"
    and sets: "json_set m ''filesystem_units'' (json_unsigned ?n) = Inr m1" "json_set m1 ''filesystem_bytes'' (json_unsigned fs) = Inr m2"
      "json_set m2 ''outside_bytes'' (json_unsigned out) = Inr m'"
    using run extent by (auto simp: desktop_live_reset_def and_then_Inr Let_def simp flip: not_None_eq split: if_splits)
  obtain items where marked: "mark_ranges ?n u items blank = Inr cells'"
    using listed by (auto split: option.splits json.splits if_splits)
  have "list_all2 (partitioned (unat ?n)) cells cells'"
    by (rule list_all2_trans [OF partitioned_kept reset_cells_partitioned [OF blank starts] mark_ranges_kept [OF marked]])
  then show ?thesis
    using n number_set [OF sets(1), of "''filesystem_units''"] number_set [OF sets(2), of "''filesystem_units''"]
      number_set [OF sets(3), of "''filesystem_units''"] by (simp add: word_gt_0)
qed


lemma live_reset_valid:
  assumes run: "desktop_live_reset m cells payload = Inr (m', cells')"
  shows "validate_cells cells' = Inr ()"
proof -
  have valid: "validate_cells cells = Inr ()" using run by (auto simp: desktop_live_reset_def and_then_Inr)
  show ?thesis
  proof (cases "json_find payload ''filesystem_units''")
    case None
    then have "number_in payload ''filesystem_units'' = 0" by (simp add: number_in_def)
    then have "cells' = cells" using run None by (auto simp: desktop_live_reset_def and_then_Inr Let_def split: if_splits)
    then show ?thesis using valid by simp
  next
    case (Some n)
    then have "list_all2 (partitioned (unat (number_in payload ''filesystem_units''))) cells cells'"
      using live_reset_partitions [OF run] by simp
    then show ?thesis
      using valid by (auto simp: validate_cells_exact ordered_cells_def list_all2_conv_all_nth partitioned_def)
  qed
qed

lemma live_ranges_valid:
  assumes "desktop_live_ranges scale m cells payload plural = Inr cells'" "validate_cells cells = Inr ()"
  shows "validate_cells cells' = Inr ()"
proof -
  have kept: "list_all2 units_kept cells cells'" using live_ranges_conserve [OF assms(1)] by (simp add: list_all2_conv_all_nth)
  have "cells' = [] \<longleftrightarrow> cells = []" using kept by auto
  then show ?thesis using assms(2) units_kept_ordered [OF kept] list_all2_lengthD [OF kept] by (simp add: validate_cells_exact)
qed


subsection \<open>Examples\<close>

text \<open>A map of eight units of 512 bytes in two cells, and events on it.\<close>

definition demo_live_cell :: "u64 \<Rightarrow> u64 \<Rightarrow> u64 \<Rightarrow> json" where
  "demo_live_cell first free used =
     JObject
       [(''end'', json_unsigned (first + 3)), (''free'', json_unsigned free), (''start'', json_unsigned first),
        (''used'', json_unsigned used)]"

definition demo_live_cells :: "json list" where
  "demo_live_cells = [demo_live_cell 0 4 0, demo_live_cell 4 0 4]"

definition demo_live_map :: json where
  "demo_live_map = JObject [(''unit_size'', json_unsigned 512)]"

definition demo_scale :: scaling where
  "demo_scale moved v old_used = (2 * unat moved * unat v + unat old_used) div (2 * unat old_used)"

definition demo_move :: json where
  "demo_move = JObject [(''destination_start_byte'', json_unsigned 1), (''length_bytes'', json_unsigned 600),
     (''source_start_byte'', json_unsigned 2048)]"

definition demo_update :: json where
  "demo_update = JObject [(''cells'', JArray [JObject
     [(''end'', json_unsigned 9), (''i'', json_unsigned 1), (''start'', json_unsigned 4), (''used'', json_unsigned 6)]])]"

definition demo_reset :: json where
  "demo_reset = JObject
     [(''filesystem_units'', json_unsigned 6), (''used_ranges'', JArray [JArray [json_unsigned 0, json_unsigned 700]])]"

lemmas demo_live_defs =
  demo_live_cells_def demo_live_cell_def demo_live_map_def demo_move_def demo_update_def demo_reset_def demo_scale_def

lemmas live_steps =
  number_in_def json_find_def json_set_def json_object_def addition_def product_def unit_size_of_def ceiling_units_def pair_value_def
  first_cell_def change_cell_def release_marks_def proportional_def effective_cell_def commit_patches_def Let_def demand_def
  validate_cell_count_def max_cells_def upt_rec is_object_def

lemma demo_live_valid: "validate_cells demo_live_cells = Inr ()"
  by (simp add: validate_cells_def demo_live_defs live_steps)

lemma demo_live_event: "range_event demo_scale demo_live_map demo_live_cells [JObject
      [(''end'', json_unsigned 3), (''free'', json_unsigned 2), (''start'', json_unsigned 0), (''used'', json_unsigned 2)],
    JObject
      [(''directory'', json_unsigned 0), (''end'', json_unsigned 7), (''fragmented'', json_unsigned 0), (''free'', json_unsigned 2),
       (''start'', json_unsigned 4), (''used'', json_unsigned 2)]]"
  unfolding range_event_def
  by (rule exI [of _ demo_move], rule exI [of _ False])
    (simp add: desktop_live_ranges_def move_range_def apply_range_def demo_live_defs live_steps)

theorem live_map_consistent_witness:
  "\<exists>j cells. map_backend demo_map_env demo_backend ''/dev/sdx'' 4 = Inr j \<and> json_find j ''cells'' = Some (JArray cells) \<and>
     (\<forall>cells'. (range_event demo_scale demo_live_map)\<^sup>*\<^sup>* cells cells' \<longrightarrow> ordered_cells cells' \<and> list_all live_cell_ok cells')"
proof -
  obtain j where run: "map_backend demo_map_env demo_backend ''/dev/sdx'' 4 = Inr j" using demo_map by blast
  obtain cells where "json_find j ''cells'' = Some (JArray cells)"
    using map_backend_ok [OF run demo_env(3)] by (auto simp: map_ok_def)
  then show ?thesis using live_map_consistent [OF run demo_env(3)] run by blast
qed

theorem live_cells_ordered_witness:
  "\<exists>cells'. desktop_live_cells demo_live_map demo_live_cells demo_update = Inr (demo_live_map, cells') \<and> validate_cells cells' = Inr () \<and>
     length cells' = 2"
proof -
  have "\<exists>cells'. desktop_live_cells demo_live_map demo_live_cells demo_update = Inr (demo_live_map, cells')"
    by (simp add: desktop_live_cells_def validate_patched_cell_order_def patch_ordered_def updated_cell_def cell_fields_def
      insert_members_def demo_live_defs live_steps)
  then obtain cells' where run: "desktop_live_cells demo_live_map demo_live_cells demo_update = Inr (demo_live_map, cells')" ..
  have two: "length demo_live_cells = 2" by (simp add: demo_live_cells_def)
  note checked = live_cells_ordered [OF run demo_live_valid, of "[]"]
  have "length cells' = 2" using checked unfolding two by (elim conjE)
  moreover have "validate_cells cells' = Inr ()" by (rule conjunct1 [OF checked])
  ultimately show ?thesis using run by (intro exI conjI)
qed

theorem apply_range_exact_witness:
  "\<exists>patches. apply_range demo_scale demo_live_cells 512 True 1 600 Map.empty = Inr patches \<and>
     unat (number_in (effective_cell demo_live_cells patches 0) ''free'') = 2"
proof -
  have "\<exists>patches. apply_range demo_scale demo_live_cells 512 True 1 600 Map.empty = Inr patches"
    by (simp add: apply_range_def demo_live_defs live_steps)
  then obtain patches where run: "apply_range demo_scale demo_live_cells 512 True 1 600 Map.empty = Inr patches" ..
  have ordered: "ordered_cells demo_live_cells" using demo_live_valid by (simp add: validate_cells_exact)
  have none: "patched demo_live_cells Map.empty units_kept" by (simp add: patched_def)
  have units: "cell_units (demo_live_cells ! 0) \<inter> touched_units 512 1 600 = {0, 1}"
  proof -
    have "touched_units 512 1 600 = {0..<2}" using touched_interval [of 512 600 1] by (simp add: ceiling_units_def)
    moreover have "cell_units (demo_live_cells ! 0) = {0..3}"
      by (simp add: cell_units_def demo_live_cells_def demo_live_cell_def number_in_def json_find_def)
    ultimately show ?thesis by auto
  qed
  have "number_in (effective_cell demo_live_cells Map.empty 0) ''free'' = 4" "0 < length demo_live_cells"
    by (simp_all add: demo_live_cells_def demo_live_cell_def effective_cell_def number_in_def json_find_def)
  then have "unat (number_in (effective_cell demo_live_cells patches 0) ''free'') = 2"
    using apply_range_exact [OF run _ ordered none, of 0] by (simp add: Let_def units)
  then show ?thesis using run by (intro exI conjI)
qed

theorem live_reset_partitions_witness:
  "\<exists>m' cells'. desktop_live_reset demo_live_map demo_live_cells demo_reset = Inr (m', cells') \<and>
     list_all2 (partitioned 6) demo_live_cells cells' \<and> map (\<lambda>c. number_in c ''used'') cells' = [2, 0]"
proof -
  have "\<exists>m' cells'. desktop_live_reset demo_live_map demo_live_cells demo_reset = Inr (m', cells') \<and>
      map (\<lambda>c. number_in c ''used'') cells' = [2, 0]"
    by (simp add: desktop_live_reset_def validate_cells_def reset_cell_def mark_used_def mark_cell_def demo_live_defs live_steps)
  then obtain m' cells' where run: "desktop_live_reset demo_live_map demo_live_cells demo_reset = Inr (m', cells')"
      "map (\<lambda>c. number_in c ''used'') cells' = [2, 0]"
    by (elim exE conjE)
  have "json_find demo_reset ''filesystem_units'' \<noteq> None" "number_in demo_reset ''filesystem_units'' = 6"
    by (simp_all add: demo_reset_def json_find_def number_in_def)
  then have "list_all2 (partitioned 6) demo_live_cells cells'" using live_reset_partitions [OF run(1)] by simp
  then show ?thesis using run by (intro exI conjI)
qed

end
