(* ===== verification/Session.thy ===== *)
theory Session
  imports Live_Map Desktop_Policy
begin

text \<open>
  The session of the desktop window, the part of \<open>native/desktop.cpp\<close> that decides what is run and what is shown: which volume is
  selected, one operation at a time, the administrator helper and the local analyser, Stop, and the allocation map of the
  selected volume. Widgets, labels and the activity log are left out but for the final status of an operation; an
  exception is its message. The callbacks of GTK and GLib are the steps of a relation at the end of the theory.
\<close>

subsection \<open>State\<close>

datatype session_event =
    Sent_run int string "string list"
  | Sent_stop int
  | Local_started "string list"
  | Local_interrupted
  | Shown string string \<comment> \<open>purpose and final status\<close>

record session =
  ss_volumes :: "DesktopVolume list"
  ss_selected :: "nat option"
  ss_cells :: "json list"
  ss_map :: json
  ss_program :: string
  ss_args :: "string list"
  ss_purpose :: string
  ss_output :: string
  ss_status :: string
  ss_busy :: bool
  ss_stopping :: bool
  ss_closing :: bool
  ss_ready :: bool \<comment> \<open>\<open>helper_ready_\<close>\<close>
  ss_helper :: bool \<comment> \<open>the helper's transport is active\<close>
  ss_local :: bool \<comment> \<open>the local analyser's transport is active\<close>
  ss_discovering :: bool
  ss_probing :: bool
  ss_idle :: bool \<comment> \<open>an analysis of the selection is scheduled\<close>
  ss_refresh_path :: path
  ss_image_path :: path
  ss_request_id :: int
  ss_active_id :: int
  ss_dialog :: "(string list \<times> string \<times> string) option" \<comment> \<open>an open question and the run it is about\<close>
  ss_log :: "session_event list"

record session_config =
  sc_json :: json_lib
  sc_sha256 :: "string \<Rightarrow> u8 list"
  sc_uid :: u32
  sc_mapper :: path
  sc_engine :: path
  sc_scale :: scaling

text \<open>What the system answers during one callback.\<close>

record session_world =
  sw_replaced :: bool \<comment> \<open>the executable was replaced\<close>
  sw_readable :: "path \<Rightarrow> bool"
  sw_exists :: "path \<Rightarrow> bool"
  sw_local_error :: "string option"
  sw_helper_error :: "string option"
  sw_send_error :: "string option"
  sw_lsblk_starts :: bool
  sw_cells :: u64 \<comment> \<open>\<open>desired_map_cells\<close>\<close>

definition session_start :: session where
  "session_start =
     \<lparr>ss_volumes = [], ss_selected = None, ss_cells = [], ss_map = JNull, ss_program = [], ss_args = [], ss_purpose = [],
      ss_output = [], ss_status = [], ss_busy = False, ss_stopping = False, ss_closing = False, ss_ready = False, ss_helper = False,
      ss_local = False, ss_discovering = False, ss_probing = False, ss_idle = False, ss_refresh_path = [], ss_image_path = [],
      ss_request_id = 0, ss_active_id = 0, ss_dialog = None, ss_log = []\<rparr>"

abbreviation log_event :: "session_event \<Rightarrow> session \<Rightarrow> session" where
  "log_event e s \<equiv> s\<lparr>ss_log := e # ss_log s\<rparr>"

text \<open>\<open>field\<close> returns the data of a string, which ends at its first zero.\<close>

definition field :: "json \<Rightarrow> string \<Rightarrow> string" where
  "field data key = (case json_find data key of Some (JString t) \<Rightarrow> c_str t | _ \<Rightarrow> [])"

definition current :: "session \<Rightarrow> DesktopVolume option" where
  "current s =
     (case ss_selected s of None \<Rightarrow> None | Some i \<Rightarrow> if i < length (ss_volumes s) then Some (ss_volumes s ! i) else None)"

definition set_current :: "DesktopVolume \<Rightarrow> session \<Rightarrow> session" where
  "set_current v s = (case ss_selected s of None \<Rightarrow> s | Some i \<Rightarrow> s\<lparr>ss_volumes := (ss_volumes s)[i := v]\<rparr>)"


subsection \<open>The allocation map\<close>

text \<open>The first loop is that of \<open>validate_cells\<close>.\<close>

definition present_map :: "json \<Rightarrow> session \<Rightarrow> session exc" where
  "present_map m s =
     (case json_find m ''cells'' of
        Some (JArray raw) \<Rightarrow>
          if raw = [] \<or> length raw > max_cells \<or> unat (number_in m ''cell_count'') \<noteq> length raw \<or> number_in m ''total_units'' = 0
          then Inl ''Missing or inconsistent allocation cells''
          else if cells_follow None raw \<noteq> Inr () then Inl ''Allocation cells overlap or are out of order''
          else (case current s of
            None \<Rightarrow> Inr s
          | Some v \<Rightarrow>
              and_then (desktop_verify_identity v (field m ''filesystem'')) (\<lambda>v.
                let accuracy = field m ''map_accuracy'';
                    exact = (accuracy \<noteq> [] \<and> accuracy \<noteq> ''summary'' \<and> number_in m ''unknown_bytes'' = 0);
                    flag = (\<lambda>key. exact \<and> (case json_find m key of None \<Rightarrow> False | Some b \<Rightarrow> bool_or b False));
                    v = v\<lparr>dv_exact_analysis := exact, dv_defrag_qualified := flag ''defrag_qualified'',
                          dv_growth_qualified := flag ''growth_qualified'', dv_defrag_reason := field m ''defrag_reason'',
                          dv_growth_reason := field m ''growth_reason''\<rparr>
                in Inr ((set_current v s)\<lparr>ss_map := m, ss_cells := raw\<rparr>)))
      | _ \<Rightarrow> Inl ''Missing or inconsistent allocation cells'')"

definition apply_live :: "session_config \<Rightarrow> string \<Rightarrow> session \<Rightarrow> session exc" where
  "apply_live C line s =
     (let kind = takeWhile (\<lambda>c. c \<noteq> CHR '' '') line
      in if kind = line then Inr s
         else and_then (json_parse (sc_json C) (drop (length kind + 1) line)) (\<lambda>payload.
           if \<not> is_object payload then Inr s
           else if kind = ''@@RESULT'' then Inr (s\<lparr>ss_status := field payload ''status''\<rparr>)
           else if ss_cells s = [] then Inr s
           else if kind = ''@@LIVE_MAP'' then
             and_then (desktop_live_cells (ss_map s) (ss_cells s) payload) (\<lambda>(m, cells). Inr (s\<lparr>ss_map := m, ss_cells := cells\<rparr>))
           else if kind = ''@@LIVE_RANGE'' \<or> kind = ''@@LIVE_RANGES'' then
             and_then (desktop_live_ranges (sc_scale C) (ss_map s) (ss_cells s) payload (kind = ''@@LIVE_RANGES''))
               (\<lambda>cells. Inr (s\<lparr>ss_cells := cells\<rparr>))
           else if kind = ''@@LIVE_RESET'' then
             and_then (desktop_live_reset (ss_map s) (ss_cells s) payload) (\<lambda>(m, cells). Inr (s\<lparr>ss_map := m, ss_cells := cells\<rparr>))
           else Inr s))"


subsection \<open>Volumes\<close>

text \<open>The handler of the selection's \<open>changed\<close> signal.\<close>

definition selection_changed :: "session \<Rightarrow> session" where
  "selection_changed s = s\<lparr>ss_cells := [], ss_map := JNull, ss_idle := (ss_selected s \<noteq> None)\<rparr>"

definition refresh :: "session_world \<Rightarrow> session \<Rightarrow> session" where
  "refresh W s =
     (if ss_busy s \<or> ss_discovering s \<or> ss_probing s then s
      else let s = s\<lparr>ss_refresh_path := (case current s of None \<Rightarrow> [] | Some v \<Rightarrow> dv_path v)\<rparr>
           in if \<not> sw_lsblk_starts W then s else s\<lparr>ss_discovering := True\<rparr>)"

text \<open>The index of the last volume with the path that was selected before, or 0.\<close>

definition preferred :: "path \<Rightarrow> DesktopVolume list \<Rightarrow> nat" where
  "preferred p vs = foldl (\<lambda>k i. if dv_path (vs ! i) = p then i else k) 0 [0..<length vs]"

definition discovered :: "session_config \<Rightarrow> string exc \<Rightarrow> session \<Rightarrow> session" where
  "discovered C out s =
     (let found = (case and_then out (json_parse (sc_json C)) of
              Inl e \<Rightarrow> s
            | Inr report \<Rightarrow>
                let vs = desktop_discover report @ filter dv_from_image (ss_volumes s)
                in selection_changed (s\<lparr>ss_volumes := vs, ss_selected := (if vs = [] then None else Some (preferred (ss_refresh_path s) vs))\<rparr>))
      in found\<lparr>ss_discovering := False\<rparr>)"

definition open_image :: "path \<Rightarrow> session \<Rightarrow> session" where
  "open_image p s = (if ss_busy s \<or> ss_discovering s \<or> ss_probing s then s else s\<lparr>ss_image_path := p, ss_probing := True\<rparr>)"

definition probed :: "session_config \<Rightarrow> string exc \<Rightarrow> u64 \<Rightarrow> bool \<Rightarrow> session \<Rightarrow> session" where
  "probed C out bytes readonly s =
     (let found = (case and_then out (json_parse (sc_json C)) of
              Inl e \<Rightarrow> s
            | Inr report \<Rightarrow>
                if backend_by_fstype (field report ''filesystem'') = None then s
                else let v = new_volume\<lparr>dv_path := ss_image_path s, dv_filesystem := field report ''filesystem'', dv_total := bytes,
                           dv_readonly := readonly, dv_from_image := True, dv_verified := True\<rparr>
                     in selection_changed (s\<lparr>ss_volumes := ss_volumes s @ [v], ss_selected := Some (length (ss_volumes s))\<rparr>))
      in found\<lparr>ss_probing := False, ss_image_path := []\<rparr>)"


subsection \<open>One operation\<close>

definition writes_layout :: "string \<Rightarrow> bool" where
  "writes_layout purpose \<longleftrightarrow> purpose = ''defrag'' \<or> purpose = ''growth-defrag'' \<or> purpose = ''recover''"

text \<open>\<open>completed\<close>: a successful analysis presents its map or fails; the status that is shown.\<close>

definition map_outcome :: "session_config \<Rightarrow> int \<Rightarrow> session \<Rightarrow> int \<times> session" where
  "map_outcome C code s =
     (if code = 0 \<and> ss_purpose s = ''analysis''
      then (case and_then (json_parse (sc_json C) (ss_output s)) (\<lambda>m. present_map m s) of Inl e \<Rightarrow> (127, s) | Inr s' \<Rightarrow> (0, s'))
      else (code, s))"

definition succeeded :: "int \<Rightarrow> session \<Rightarrow> bool" where
  "succeeded code s \<longleftrightarrow> code = 0 \<and> ss_status s \<noteq> ''failed'' \<and> ss_status s \<noteq> ''stopped''"

definition shown_status :: "int \<Rightarrow> session \<Rightarrow> string" where
  "shown_status code s =
     (if succeeded code s then if ss_status s = ''not-needed'' then ''No changes needed'' else ''Completed''
      else if ss_status s = ''stopped'' then ''Stopped safely'' else ''Operation failed'')"

text \<open>All of \<open>completed\<close> up to the analysis that follows a mutation: the state and whether that analysis is due.\<close>

definition completed_now :: "session_config \<Rightarrow> session_world \<Rightarrow> int \<Rightarrow> session \<Rightarrow> session \<times> bool" where
  "completed_now C W code s =
     (let purpose = ss_purpose s;
          s = (if purpose = ''analysis'' \<and> ss_stopping s \<and> code \<noteq> 0 then s\<lparr>ss_status := ''stopped''\<rparr> else s);
          started = (ss_active_id s \<noteq> 0 \<or> ss_local s);
          r = map_outcome C code (s\<lparr>ss_active_id := 0, ss_busy := False, ss_stopping := False\<rparr>);
          s = (if fst r = 0 \<and> purpose = ''unmount'' then refresh W (snd r) else snd r)
      in (log_event (Shown purpose (shown_status (fst r) s)) s,
          \<not> ss_closing s \<and> started \<and> (succeeded (fst r) s \<or> ss_status s = ''stopped'') \<and> writes_layout purpose))"

definition prepared :: "string list \<Rightarrow> string \<Rightarrow> string \<Rightarrow> session \<Rightarrow> session" where
  "prepared args prog purpose s =
     (let s = s\<lparr>ss_busy := True, ss_stopping := False, ss_output := [], ss_status := [], ss_purpose := purpose, ss_program := prog,
                ss_args := args\<rparr>
      in if purpose = ''analysis'' then s\<lparr>ss_cells := [], ss_map := JNull\<rparr> else s)"

definition write_helper :: "session_world \<Rightarrow> session \<Rightarrow> unit exc" where
  "write_helper W s =
     (if \<not> ss_helper s then Inl ''Administrator helper is unavailable''
      else case sw_send_error W of Some e \<Rightarrow> Inl e | None \<Rightarrow> Inr ())"

definition analysis_words :: "session_config \<Rightarrow> session_world \<Rightarrow> DesktopVolume \<Rightarrow> string list" where
  "analysis_words C W v = [sc_mapper C, dv_path v, ''--fstype'', dv_filesystem v, ''--cells'', show_u64 (sw_cells W)]"

text \<open>
  Starting a run may complete it, and completing a mutation starts the analysis that follows it. The functions on the way from one
  to the other take \<open>completed\<close> as their argument \<open>fin\<close>; \<open>completed\<close> itself has a bound on the depth of the calls.
\<close>

type_synonym finisher = "int \<Rightarrow> session \<Rightarrow> session option"

definition submit :: "session_world \<Rightarrow> finisher \<Rightarrow> session \<Rightarrow> session option" where
  "submit W fin s =
     (if \<not> ss_busy s \<or> \<not> ss_ready s \<or> ss_active_id s \<noteq> 0 \<or> ss_local s then Some s
      else if ss_stopping s then fin 0 (s\<lparr>ss_status := ''stopped''\<rparr>)
      else let ident = ss_request_id s + 1; s = s\<lparr>ss_request_id := ident, ss_active_id := ident\<rparr>
           in case write_helper W s of
                Inl e \<Rightarrow> fin 127 s
              | Inr _ \<Rightarrow> Some (log_event (Sent_run ident (ss_program s) (drop 1 (ss_args s))) s))"

definition start_helper :: "session_world \<Rightarrow> finisher \<Rightarrow> session \<Rightarrow> session option" where
  "start_helper W fin s =
     (if ss_helper s \<or> ss_ready s then Some s
      else case sw_helper_error W of
        None \<Rightarrow> Some (s\<lparr>ss_helper := True\<rparr>)
      | Some e \<Rightarrow> if ss_busy s then fin 127 s else Some s)"

definition start_run :: "session_world \<Rightarrow> finisher \<Rightarrow> string list \<Rightarrow> string \<Rightarrow> string \<Rightarrow> session \<Rightarrow> session option" where
  "start_run W fin args prog purpose s =
     (if sw_replaced W then Some s
      else let s = prepared args prog purpose s
           in if purpose = ''analysis'' \<and> (case current s of None \<Rightarrow> False | Some v \<Rightarrow> sw_readable W (dv_path v))
              then (if ss_local s then fin 127 s
                    else case sw_local_error W of
                      Some e \<Rightarrow> fin 127 s
                    | None \<Rightarrow> Some (log_event (Local_started args) (s\<lparr>ss_local := True\<rparr>)))
              else if ss_ready s then submit W fin s else start_helper W fin s)"

definition analyse_current :: "session_config \<Rightarrow> session_world \<Rightarrow> finisher \<Rightarrow> session \<Rightarrow> session option" where
  "analyse_current C W fin s =
     (if ss_busy s then Some s
      else case current s of
        None \<Rightarrow> Some s
      | Some v \<Rightarrow>
          start_run W fin (analysis_words C W v) ''mapper'' ''analysis''
            (set_current (v\<lparr>dv_exact_analysis := False, dv_defrag_qualified := False, dv_growth_qualified := False,
               dv_defrag_reason := [], dv_growth_reason := []\<rparr>) s))"

fun completed_within :: "session_config \<Rightarrow> session_world \<Rightarrow> nat \<Rightarrow> finisher" where
  "completed_within C W 0 code s = None"
| "completed_within C W (Suc n) code s =
     (let (s, again) = completed_now C W code s in if again then analyse_current C W (completed_within C W n) s else Some s)"

text \<open>A completed mutation starts an analysis, which may fail at once; no analysis follows an analysis.\<close>

definition completed :: "session_config \<Rightarrow> session_world \<Rightarrow> finisher" where
  "completed C W = completed_within C W 2"

definition stop_current :: "session_config \<Rightarrow> session_world \<Rightarrow> session \<Rightarrow> session option" where
  "stop_current C W s =
     (if \<not> ss_busy s \<or> ss_stopping s then Some s
      else let s = s\<lparr>ss_stopping := True\<rparr>
           in if ss_local s then Some (log_event Local_interrupted s)
              else if ss_active_id s = 0 then if ss_ready s then submit W (completed C W) s else Some s
              else let s = s\<lparr>ss_request_id := ss_request_id s + 1\<rparr>
                   in case write_helper W s of
                        Inl e \<Rightarrow> Some (s\<lparr>ss_stopping := False\<rparr>)
                      | Inr _ \<Rightarrow> Some (log_event (Sent_stop (ss_request_id s)) s))"

definition analysis_progress :: "string \<Rightarrow> bool" where
  "analysis_progress line \<longleftrightarrow> starts_with line ''@@ANALYSIS ''"

definition c_int :: "u64 \<Rightarrow> int" where "c_int v = sint (ucast v :: 32 word)"

definition receive :: "session_config \<Rightarrow> session_world \<Rightarrow> json \<Rightarrow> session \<Rightarrow> session option" where
  "receive C W message s =
     (let type = field message ''type''; line = field message ''line''
      in if \<not> is_object message then Some s
         else if type = ''ready'' then submit W (completed C W) (s\<lparr>ss_ready := True\<rparr>)
         else
           let s = (if type = ''stop-result'' \<and> (case json_find message ''delivered'' of None \<Rightarrow> False | Some d \<Rightarrow> \<not> bool_or d False)
                    then s\<lparr>ss_stopping := False\<rparr> else s)
           in if c_int (number_in message ''id'') \<noteq> ss_active_id s \<or> \<not> ss_busy s then Some s
              else if type = ''output'' then
                Some (if ss_purpose s = ''analysis''
                      then if analysis_progress line then s else s\<lparr>ss_output := ss_output s @ line @ [CHR 0x0A]\<rparr>
                      else if starts_with line ''@@'' then (case apply_live C line s of Inl e \<Rightarrow> s | Inr s \<Rightarrow> s)
                      else s)
              else if type = ''finished'' then completed C W (c_int (number_in message ''returncode'')) s
              else Some s)"

definition local_line :: "string \<Rightarrow> bool \<Rightarrow> session \<Rightarrow> session" where
  "local_line line diagnostics s =
     (if analysis_progress line \<or> diagnostics then s else s\<lparr>ss_output := ss_output s @ line @ [CHR 0x0A]\<rparr>)"

text \<open>The transport is no longer active when its callback runs.\<close>

definition local_finished :: "session_config \<Rightarrow> session_world \<Rightarrow> int \<Rightarrow> session \<Rightarrow> session option" where
  "local_finished C W code s =
     (let s = s\<lparr>ss_local := False\<rparr>
      in completed C W code (if ss_stopping s then s\<lparr>ss_status := ''stopped''\<rparr> else s))"

definition helper_closed :: "session_config \<Rightarrow> session_world \<Rightarrow> session \<Rightarrow> session option" where
  "helper_closed C W s =
     (let s = s\<lparr>ss_helper := False, ss_ready := False\<rparr>
      in if ss_busy s \<and> \<not> ss_local s then completed C W 127 s else Some s)"

text \<open>\<open>action\<close> for an operation on the selected volume, up to the question it asks.\<close>

definition ask_operation :: "session_config \<Rightarrow> session_world \<Rightarrow> string \<Rightarrow> session \<Rightarrow> session" where
  "ask_operation C W name s =
     (case (if ss_busy s then None else current s) of
        None \<Rightarrow> s
      | Some v \<Rightarrow>
          if name = ''unmount'' then s\<lparr>ss_dialog := Some ([''udisksctl'', ''unmount'', ''-b'', dv_path v], ''udisksctl'', ''unmount'')\<rparr>
          else let journal = desktop_journal (sc_sha256 C) v (sc_uid C)
               in case desktop_mutation v name (sc_engine C) journal 4096 (sw_exists W journal) of
                    Inl e \<Rightarrow> s
                  | Inr args \<Rightarrow> s\<lparr>ss_dialog := Some (args, ''operation-engine'', name)\<rparr>)"

definition selection_idle :: "session_config \<Rightarrow> session_world \<Rightarrow> session \<Rightarrow> session option" where
  "selection_idle C W s =
     (let s = s\<lparr>ss_idle := False\<rparr>
      in if \<not> ss_closing s \<and> \<not> ss_busy s \<and> \<not> ss_discovering s \<and> \<not> ss_probing s \<and> current s \<noteq> None
         then analyse_current C W (completed C W) s else Some s)"

definition close_requested :: "session_config \<Rightarrow> session_world \<Rightarrow> session \<Rightarrow> session option" where
  "close_requested C W s =
     (if ss_busy s then stop_current C W (s\<lparr>ss_closing := True\<rparr>)
      else if ss_discovering s \<or> ss_probing s then Some (s\<lparr>ss_closing := True\<rparr>)
      else Some s)"


subsection \<open>The callbacks\<close>

text \<open>
  The main loop runs one callback after the other. A question is a modal dialog with a main loop of its own: while it is open the
  window's buttons do nothing, but every other callback still runs. (An error message is such a dialog too; it is shown after
  the changes of its callback and is left out.)
\<close>

inductive session_step :: "session_config \<Rightarrow> session \<Rightarrow> session \<Rightarrow> bool" for C :: session_config where
  button_refresh: "ss_dialog s = None \<Longrightarrow> \<not> ss_busy s \<Longrightarrow> session_step C s (refresh W s)"
| button_image: "ss_dialog s = None \<Longrightarrow> \<not> ss_busy s \<Longrightarrow> session_step C s (open_image p s)"
| button_stop: "ss_dialog s = None \<Longrightarrow> stop_current C W s = Some s' \<Longrightarrow> session_step C s s'"
| button_analyse: "ss_dialog s = None \<Longrightarrow> analyse_current C W (completed C W) s = Some s' \<Longrightarrow> session_step C s s'"
| button_operation: "ss_dialog s = None \<Longrightarrow> session_step C s (ask_operation C W name s)"
| button_close: "ss_dialog s = None \<Longrightarrow> close_requested C W s = Some s' \<Longrightarrow> session_step C s s'"
| choose_volume: "ss_dialog s = None \<Longrightarrow> \<not> ss_busy s \<Longrightarrow> \<not> ss_discovering s \<Longrightarrow> \<not> ss_probing s \<Longrightarrow> i < length (ss_volumes s) \<Longrightarrow>
    session_step C s (selection_changed (s\<lparr>ss_selected := Some i\<rparr>))"
| question_declined: "ss_dialog s = Some d \<Longrightarrow> session_step C s (s\<lparr>ss_dialog := None\<rparr>)"
| question_accepted: "ss_dialog s = Some (args, prog, purpose) \<Longrightarrow>
    start_run W (completed C W) args prog purpose (s\<lparr>ss_dialog := None\<rparr>) = Some s' \<Longrightarrow> session_step C s s'"
| idle_analysis: "ss_idle s \<Longrightarrow> selection_idle C W s = Some s' \<Longrightarrow> session_step C s s'"
| volumes_listed: "ss_discovering s \<Longrightarrow> session_step C s (discovered C out s)"
| image_probed: "ss_probing s \<Longrightarrow> session_step C s (probed C out bytes readonly s)"
| helper_line: "ss_helper s \<Longrightarrow> json_parse (sc_json C) line = Inr message \<Longrightarrow> receive C W message s = Some s' \<Longrightarrow> session_step C s s'"
| helper_ended: "ss_helper s \<Longrightarrow> helper_closed C W s = Some s' \<Longrightarrow> session_step C s s'"
| analyser_line: "ss_local s \<Longrightarrow> session_step C s (local_line line diagnostics s)"
| analyser_ended: "ss_local s \<Longrightarrow> local_finished C W code s = Some s' \<Longrightarrow> session_step C s s'"

inductive session_reaches :: "session_config \<Rightarrow> session \<Rightarrow> bool" for C :: session_config where
  opened: "session_reaches C session_start"
| continued: "session_reaches C s \<Longrightarrow> session_step C s s' \<Longrightarrow> session_reaches C s'"


subsection \<open>Every callback returns\<close>

definition finishes :: "finisher \<Rightarrow> string \<Rightarrow> bool" where
  "finishes fin purpose \<longleftrightarrow> (\<forall>code s. ss_purpose s = purpose \<longrightarrow> fin code s \<noteq> None)"

lemma prepared_purpose [simp]: "ss_purpose (prepared args prog purpose s) = purpose"
  by (simp add: prepared_def Let_def)

lemma submit_returns: "finishes fin (ss_purpose s) \<Longrightarrow> submit W fin s \<noteq> None"
  by (auto simp: finishes_def submit_def Let_def split: sum.splits)

lemma start_helper_returns: "finishes fin (ss_purpose s) \<Longrightarrow> start_helper W fin s \<noteq> None"
  by (auto simp: finishes_def start_helper_def split: option.splits)

lemma start_run_returns:
  assumes "finishes fin purpose"
  shows "start_run W fin args prog purpose s \<noteq> None"
proof -
  let ?s = "prepared args prog purpose s"
  have "submit W fin ?s \<noteq> None" "start_helper W fin ?s \<noteq> None" using assms submit_returns start_helper_returns by simp_all
  moreover have "fin 127 ?s \<noteq> None" using assms by (simp add: finishes_def)
  ultimately show ?thesis by (auto simp: start_run_def Let_def split: option.splits)
qed

lemma analyse_current_returns: "finishes fin ''analysis'' \<Longrightarrow> analyse_current C W fin s \<noteq> None"
  using start_run_returns by (auto simp: analyse_current_def split: option.splits)

lemma completed_now_again: "completed_now C W code s = (s', again) \<Longrightarrow> again \<Longrightarrow> writes_layout (ss_purpose s)"
  by (auto simp: completed_now_def Let_def)

lemma analysis_completes: "finishes (completed_within C W (Suc n)) ''analysis''"
  unfolding finishes_def
proof (intro allI impI)
  fix code and s :: session
  assume "ss_purpose s = ''analysis''"
  then have "\<not> writes_layout (ss_purpose s)" by (simp add: writes_layout_def)
  then show "completed_within C W (Suc n) code s \<noteq> None"
    using completed_now_again by (auto split: prod.splits)
qed

lemma completed_returns: "completed C W code s \<noteq> None"
proof -
  have two: "completed C W = completed_within C W (Suc (Suc 0))" by (simp add: completed_def numeral_2_eq_2)
  obtain s' again where "completed_now C W code s = (s', again)" by (rule prod.exhaust)
  then show ?thesis
    using analyse_current_returns [OF analysis_completes, of C W C W 0 s'] unfolding two by (subst completed_within.simps(2)) simp
qed

lemma completed_finishes: "finishes (completed C W) purpose"
  by (simp add: finishes_def completed_returns)

lemma receive_returns: "receive C W message s \<noteq> None"
  using submit_returns [OF completed_finishes] completed_returns by (auto simp: receive_def Let_def)

text \<open>
  Property C40. Every callback of the window returns. Completing an operation may start the analysis that follows it, and starting one may
  complete it at once, but the chain ends: the bound on the depth of these calls is never reached, whatever the helper, the
  analyser and the system answer.
\<close>

theorem session_returns:
  "completed C W code s \<noteq> None \<and> start_run W (completed C W) args prog purpose s \<noteq> None \<and> stop_current C W s \<noteq> None \<and>
   receive C W message s \<noteq> None \<and> local_finished C W code s \<noteq> None \<and> helper_closed C W s \<noteq> None \<and>
   selection_idle C W s \<noteq> None \<and> close_requested C W s \<noteq> None"
proof -
  have submit: "submit W (completed C W) t \<noteq> None" for t by (rule submit_returns [OF completed_finishes])
  have stop: "stop_current C W t \<noteq> None" for t
    using submit by (auto simp: stop_current_def Let_def split: sum.splits)
  have "selection_idle C W s \<noteq> None"
    using analyse_current_returns [OF completed_finishes] by (auto simp: selection_idle_def Let_def)
  then show ?thesis
    using stop completed_returns receive_returns start_run_returns [OF completed_finishes]
    by (auto simp: local_finished_def helper_closed_def close_requested_def Let_def)
qed


subsection \<open>What every session keeps\<close>

definition drawn :: "json list \<Rightarrow> bool" where
  "drawn cells \<longleftrightarrow> cells = [] \<or> validate_cells cells = Inr ()"

text \<open>A run was sent and its end not shown yet.\<close>

fun outstanding :: "session_event list \<Rightarrow> bool" where
  "outstanding [] \<longleftrightarrow> False"
| "outstanding (Sent_run ident prog args # log) \<longleftrightarrow> True"
| "outstanding (Shown purpose status # log) \<longleftrightarrow> False"
| "outstanding (_ # log) \<longleftrightarrow> outstanding log"

text \<open>No run is sent while another is outstanding.\<close>

fun one_at_a_time :: "session_event list \<Rightarrow> bool" where
  "one_at_a_time [] \<longleftrightarrow> True"
| "one_at_a_time (Sent_run ident prog args # log) \<longleftrightarrow> \<not> outstanding log \<and> one_at_a_time log"
| "one_at_a_time (_ # log) \<longleftrightarrow> one_at_a_time log"

text \<open>A command of the operation engine that the desktop's policy made for some volume.\<close>

definition authorised :: "session_config \<Rightarrow> string \<Rightarrow> string list \<Rightarrow> bool" where
  "authorised C prog args \<longleftrightarrow>
     (prog = ''operation-engine'' \<longrightarrow>
        (\<exists>v name journal_exists full.
           desktop_mutation v name (sc_engine C) (desktop_journal (sc_sha256 C) v (sc_uid C)) 4096 journal_exists = Inr full \<and> args = drop 1 full))"

definition sound_log :: "session_config \<Rightarrow> session_event list \<Rightarrow> bool" where
  "sound_log C log \<longleftrightarrow> one_at_a_time log \<and> (\<forall>ident prog args. Sent_run ident prog args \<in> set log \<longrightarrow> authorised C prog args)"

definition working :: "session_config \<Rightarrow> session \<Rightarrow> bool" where
  "working C s \<longleftrightarrow> drawn (ss_cells s) \<and> 0 \<le> ss_request_id s \<and> sound_log C (ss_log s) \<and> authorised C (ss_program s) (drop 1 (ss_args s)) \<and>
     (\<forall>args prog purpose. ss_dialog s = Some (args, prog, purpose) \<longrightarrow> authorised C prog (drop 1 args))"

definition session_ok :: "session_config \<Rightarrow> session \<Rightarrow> bool" where
  "session_ok C s \<longleftrightarrow> working C s \<and> (outstanding (ss_log s) \<longleftrightarrow> ss_active_id s \<noteq> 0) \<and> (ss_active_id s \<noteq> 0 \<longrightarrow> ss_busy s)"

lemma session_ok_working: "session_ok C s \<Longrightarrow> working C s"
  by (simp add: session_ok_def)

lemma sound_log_note:
  "sound_log C (Shown a b # log) = sound_log C log" "sound_log C (Sent_stop i # log) = sound_log C log"
  "sound_log C (Local_started args # log) = sound_log C log" "sound_log C (Local_interrupted # log) = sound_log C log"
  "sound_log C (Sent_run i prog ws # log) \<longleftrightarrow> \<not> outstanding log \<and> authorised C prog ws \<and> sound_log C log"
  by (auto simp: sound_log_def)

lemmas session_inv_defs = session_ok_def working_def sound_log_note

lemma set_current_kept:
  "ss_log (set_current v s) = ss_log s" "ss_cells (set_current v s) = ss_cells s" "ss_dialog (set_current v s) = ss_dialog s"
  "ss_program (set_current v s) = ss_program s" "ss_args (set_current v s) = ss_args s"
  "ss_request_id (set_current v s) = ss_request_id s" "ss_active_id (set_current v s) = ss_active_id s"
  "ss_busy (set_current v s) = ss_busy s"
  by (simp_all add: set_current_def split: option.splits)

lemma refresh_kept:
  "ss_log (refresh W s) = ss_log s" "ss_cells (refresh W s) = ss_cells s" "ss_dialog (refresh W s) = ss_dialog s"
  "ss_program (refresh W s) = ss_program s" "ss_args (refresh W s) = ss_args s"
  "ss_request_id (refresh W s) = ss_request_id s" "ss_active_id (refresh W s) = ss_active_id s" "ss_busy (refresh W s) = ss_busy s"
  by (simp_all add: refresh_def Let_def)

lemma present_map_kept:
  assumes "present_map m s = Inr s'"
  shows "(working C s \<longrightarrow> working C s') \<and> ss_active_id s' = ss_active_id s \<and> ss_busy s' = ss_busy s"
  using assms
  by (auto simp: present_map_def Let_def and_then_Inr working_def set_current_kept drawn_def validate_cells_exact cells_follow_exact
    split: option.splits json.splits if_splits)

lemma map_outcome_kept:
  assumes "working C s"
  shows "working C (snd (map_outcome C code s)) \<and> ss_active_id (snd (map_outcome C code s)) = ss_active_id s \<and>
    ss_busy (snd (map_outcome C code s)) = ss_busy s"
proof (cases "and_then (json_parse (sc_json C) (ss_output s)) (\<lambda>m. present_map m s)")
  case (Inl e)
  then show ?thesis using assms by (simp add: map_outcome_def)
next
  case (Inr s')
  then obtain m where "present_map m s = Inr s'" by (auto simp: and_then_Inr)
  then show ?thesis using present_map_kept [of m s s' C] Inr assms by (simp add: map_outcome_def)
qed

lemma completed_now_ok:
  assumes "working C s" "completed_now C W code s = (s', again)"
  shows "session_ok C s' \<and> \<not> ss_busy s'"
proof -
  define t where "t = (if ss_purpose s = ''analysis'' \<and> ss_stopping s \<and> code \<noteq> 0 then s\<lparr>ss_status := ''stopped''\<rparr> else s)
    \<lparr>ss_active_id := 0, ss_busy := False, ss_stopping := False\<rparr>"
  define u where "u = (if fst (map_outcome C code t) = 0 \<and> ss_purpose s = ''unmount'' then refresh W (snd (map_outcome C code t))
    else snd (map_outcome C code t))"
  have "working C t" "ss_active_id t = 0" "\<not> ss_busy t" using assms(1) by (simp_all add: t_def working_def)
  then have "working C u \<and> ss_active_id u = 0 \<and> \<not> ss_busy u"
    using map_outcome_kept [of C t code] by (simp add: u_def working_def refresh_kept)
  moreover have "s' = log_event (Shown (ss_purpose s) (shown_status (fst (map_outcome C code t)) u)) u"
    using assms(2) unfolding completed_now_def Let_def t_def u_def by simp
  ultimately show ?thesis by (simp add: session_inv_defs)
qed

text \<open>A finisher takes any working state to a sound one.\<close>

definition finishes_ok :: "session_config \<Rightarrow> finisher \<Rightarrow> bool" where
  "finishes_ok C fin \<longleftrightarrow> (\<forall>code s s'. working C s \<longrightarrow> fin code s = Some s' \<longrightarrow> session_ok C s')"

lemma finishes_okD: "finishes_ok C fin \<Longrightarrow> fin code s = Some s' \<Longrightarrow> working C s \<Longrightarrow> session_ok C s'"
  by (simp add: finishes_ok_def)

lemma submit_ok:
  assumes fin: "finishes_ok C fin" and run: "submit W fin s = Some s'" and ok: "session_ok C s"
  shows "session_ok C s'"
proof (cases "\<not> ss_busy s \<or> \<not> ss_ready s \<or> ss_active_id s \<noteq> 0 \<or> ss_local s")
  case True
  then have "s' = s" using run by (simp only: submit_def if_True option.inject)
  then show ?thesis using ok by simp
next
  case idle: False
  define t where "t = s\<lparr>ss_request_id := ss_request_id s + 1, ss_active_id := ss_request_id s + 1\<rparr>"
  show ?thesis
  proof (cases "ss_stopping s")
    case True
    then have "fin 0 (s\<lparr>ss_status := ''stopped''\<rparr>) = Some s'" using run idle by (simp add: submit_def)
    moreover have "working C (s\<lparr>ss_status := ''stopped''\<rparr>)" using ok by (simp add: session_inv_defs)
    ultimately show ?thesis by (rule finishes_okD [OF fin])
  next
    case False
    then have sent: "(case write_helper W t of Inl e \<Rightarrow> fin 127 t
        | Inr _ \<Rightarrow> Some (log_event (Sent_run (ss_request_id s + 1) (ss_program t) (drop 1 (ss_args t))) t)) = Some s'"
      using run idle False unfolding t_def submit_def Let_def by simp
    have t: "working C t" using ok by (simp add: session_inv_defs t_def)
    show ?thesis
    proof (cases "write_helper W t")
      case (Inl e)
      then show ?thesis using sent finishes_okD [OF fin _ t] by simp
    next
      case (Inr x)
      then have "s' = log_event (Sent_run (ss_request_id s + 1) (ss_program t) (drop 1 (ss_args t))) t" using sent by simp
      then show ?thesis using ok idle by (simp add: session_inv_defs t_def)
    qed
  qed
qed

lemma start_helper_ok:
  "finishes_ok C fin \<Longrightarrow> start_helper W fin s = Some s' \<Longrightarrow> session_ok C s \<Longrightarrow> session_ok C s'"
  by (auto simp: start_helper_def session_ok_working dest: finishes_okD split: if_splits option.splits) (simp_all add: session_inv_defs)

lemma prepared_ok: "session_ok C s \<Longrightarrow> authorised C prog (drop 1 args) \<Longrightarrow> session_ok C (prepared args prog purpose s)"
  by (simp add: prepared_def session_inv_defs drawn_def Let_def)

lemma start_run_ok:
  assumes fin: "finishes_ok C fin" and run: "start_run W fin args prog purpose s = Some s'"
    and ok: "session_ok C s" and auth: "authorised C prog (drop 1 args)"
  shows "session_ok C s'"
proof (cases "sw_replaced W")
  case True
  then show ?thesis using run ok by (simp add: start_run_def)
next
  case False
  define t where "t = prepared args prog purpose s"
  have t: "session_ok C t" unfolding t_def by (rule prepared_ok [OF ok auth])
  define here where "here = (purpose = ''analysis'' \<and> (case current t of None \<Rightarrow> False | Some v \<Rightarrow> sw_readable W (dv_path v)))"
  have split_run: "(if here
      then (if ss_local t then fin 127 t
            else case sw_local_error W of Some e \<Rightarrow> fin 127 t | None \<Rightarrow> Some (log_event (Local_started args) (t\<lparr>ss_local := True\<rparr>)))
      else if ss_ready t then submit W fin t else start_helper W fin t) = Some s'"
    using run False by (simp only: start_run_def Let_def t_def here_def if_False)
  have failed: "fin 127 t = Some s' \<Longrightarrow> ?thesis" by (rule finishes_okD [OF fin _ session_ok_working [OF t]])
  have local_run: "session_ok C (log_event (Local_started args) (t\<lparr>ss_local := True\<rparr>))" using t by (simp add: session_inv_defs)
  show ?thesis
    using split_run failed local_run submit_ok [OF fin _ t] start_helper_ok [OF fin _ t]
    by (cases here; cases "ss_local t"; cases "sw_local_error W"; cases "ss_ready t"; simp)
qed

lemma analyse_current_ok:
  assumes fin: "finishes_ok C fin" and run: "analyse_current C W fin s = Some s'" and ok: "session_ok C s"
  shows "session_ok C s'"
proof -
  have auth: "authorised C ''mapper'' ws" for ws by (simp add: authorised_def)
  have kept: "session_ok C (set_current v s)" for v using ok by (simp add: session_inv_defs set_current_kept)
  show ?thesis using run start_run_ok [OF fin _ kept auth] ok by (auto simp: analyse_current_def split: if_splits option.splits)
qed

lemma completed_within_ok: "finishes_ok C (completed_within C W n)"
proof (induction n)
  case (Suc n)
  show ?case
    unfolding finishes_ok_def
    using completed_now_ok analyse_current_ok [OF Suc.IH] by (fastforce split: prod.splits if_splits)
qed (simp add: finishes_ok_def)

lemmas completed_ok = completed_within_ok [of C W 2, folded completed_def] for C W


subsection \<open>The callbacks keep it\<close>

lemma apply_live_ok:
  assumes run: "apply_live C line s = Inr s'" and ok: "session_ok C s"
  shows "session_ok C s'"
proof -
  have keep: "session_ok C (s\<lparr>ss_map := m, ss_cells := cells\<rparr>)" "session_ok C (s\<lparr>ss_cells := cells\<rparr>)"
    if "validate_cells cells = Inr ()" for m cells
    using ok that by (simp_all add: session_inv_defs drawn_def)
  have status: "session_ok C (s\<lparr>ss_status := st\<rparr>)" for st using ok by (simp add: session_inv_defs)
  have valid: "validate_cells (ss_cells s) = Inr ()" if "ss_cells s \<noteq> []"
    using ok that by (simp add: session_inv_defs drawn_def)
  show ?thesis
    using run ok keep status live_cells_valid [OF _ valid] live_ranges_valid [OF _ valid] live_reset_valid
    by (auto simp: apply_live_def Let_def and_then_Inr split: if_splits)
qed

lemma stop_current_ok:
  assumes run: "stop_current C W s = Some s'" and ok: "session_ok C s"
  shows "session_ok C s'"
proof -
  let ?t = "s\<lparr>ss_stopping := True\<rparr>" and ?u = "s\<lparr>ss_stopping := True, ss_request_id := ss_request_id s + 1\<rparr>"
  have t: "session_ok C ?t" "session_ok C (log_event Local_interrupted ?t)" "session_ok C (?u\<lparr>ss_stopping := False\<rparr>)"
      "session_ok C (log_event (Sent_stop (ss_request_id ?u)) ?u)"
    using ok by (simp_all add: session_inv_defs)
  have sub: "submit W (completed C W) ?t = Some s' \<Longrightarrow> session_ok C s'" by (rule submit_ok [OF completed_ok _ t(1)])
  show ?thesis
    using run ok t sub by (cases "write_helper W ?u") (simp_all add: stop_current_def Let_def split: if_splits)
qed

lemma receive_ok:
  assumes run: "receive C W message s = Some s'" and ok: "session_ok C s"
  shows "session_ok C s'"
proof (cases "is_object message \<and> field message ''type'' = ''ready''")
  case True
  then have "submit W (completed C W) (s\<lparr>ss_ready := True\<rparr>) = Some s'" using run by (simp add: receive_def Let_def)
  then show ?thesis by (rule submit_ok [OF completed_ok]) (use ok in \<open>simp add: session_inv_defs\<close>)
next
  case not_ready: False
  define t where "t = (if field message ''type'' = ''stop-result'' \<and>
      (case json_find message ''delivered'' of None \<Rightarrow> False | Some d \<Rightarrow> \<not> bool_or d False) then s\<lparr>ss_stopping := False\<rparr> else s)"
  have t: "session_ok C t" using ok by (simp add: t_def session_inv_defs)
  have longer: "session_ok C (t\<lparr>ss_output := out\<rparr>)" for out using t by (simp add: session_inv_defs)
  have live: "session_ok C (case apply_live C line t of Inl e \<Rightarrow> t | Inr u \<Rightarrow> u)" for line
    using t apply_live_ok [OF _ t] by (simp split: sum.splits)
  have finish: "completed C W code t = Some s' \<Longrightarrow> session_ok C s'" for code
    by (rule finishes_okD [OF completed_ok _ session_ok_working [OF t]])
  show ?thesis
    using run not_ready ok t longer live finish unfolding receive_def Let_def t_def [symmetric]
    by (auto split: if_splits)
qed

lemma selection_ok:
  assumes "session_ok C s"
  shows "session_ok C (selection_changed (s\<lparr>ss_volumes := vs, ss_selected := i\<rparr>))" "session_ok C (selection_changed (s\<lparr>ss_selected := i\<rparr>))"
  using assms by (simp_all add: selection_changed_def session_inv_defs drawn_def)

lemma volumes_ok:
  assumes ok: "session_ok C s"
  shows "session_ok C (discovered C out s)" "session_ok C (probed C out bytes readonly s)" "session_ok C (refresh W s)"
    "session_ok C (open_image p s)" "session_ok C (local_line line diagnostics s)"
proof -
  have later: "session_ok C (t\<lparr>ss_discovering := b\<rparr>)" "session_ok C (t\<lparr>ss_probing := b, ss_image_path := q\<rparr>)" if "session_ok C t" for t b q
    using that by (simp_all add: session_inv_defs)
  show "session_ok C (discovered C out s)" "session_ok C (probed C out bytes readonly s)"
    unfolding discovered_def probed_def Let_def by (intro later, simp add: ok selection_ok split: sum.splits)+
  show "session_ok C (refresh W s)" using ok by (simp add: session_inv_defs refresh_kept)
  show "session_ok C (open_image p s)" "session_ok C (local_line line diagnostics s)"
    using ok by (auto simp: open_image_def local_line_def session_inv_defs)
qed

lemma ask_operation_ok:
  assumes ok: "session_ok C s"
  shows "session_ok C (ask_operation C W name s)"
proof -
  have asked: "session_ok C (s\<lparr>ss_dialog := Some (args, prog, name)\<rparr>)" if "authorised C prog (drop 1 args)" for args prog
    using ok that by (simp add: session_inv_defs)
  have unmount: "authorised C ''udisksctl'' ws" for ws by (simp add: authorised_def)
  show ?thesis
  proof (cases "if ss_busy s then None else current s")
    case None
    then show ?thesis using ok by (simp add: ask_operation_def)
  next
    case (Some v)
    define journal where "journal = desktop_journal (sc_sha256 C) v (sc_uid C)"
    define made where "made = desktop_mutation v name (sc_engine C) journal 4096 (sw_exists W journal)"
    have "session_ok C (s\<lparr>ss_dialog := Some (args, ''operation-engine'', name)\<rparr>)" if "made = Inr args" for args
      by (rule asked) (use that in \<open>auto simp: authorised_def made_def journal_def\<close>)
    moreover have "session_ok C (s\<lparr>ss_dialog := Some ([''udisksctl'', ''unmount'', ''-b'', dv_path v], ''udisksctl'', name)\<rparr>)"
      by (rule asked [OF unmount])
    ultimately show ?thesis
      using ok by (cases "name = ''unmount''"; cases made) (simp_all add: ask_operation_def Some Let_def made_def journal_def)
  qed
qed

lemma session_step_ok: "session_step C s s' \<Longrightarrow> session_ok C s \<Longrightarrow> session_ok C s'"
proof (induction rule: session_step.induct)
  case (button_stop s W s')
  then show ?case using stop_current_ok by blast
next
  case (button_analyse s W s')
  then show ?case using analyse_current_ok [OF completed_ok] by blast
next
  case (button_close s W s')
  have closing: "session_ok C (s\<lparr>ss_closing := True\<rparr>)" using button_close.prems by (simp add: session_inv_defs)
  then show ?case
    using button_close stop_current_ok [OF _ closing] by (auto simp: close_requested_def split: if_splits)
next
  case (question_declined s d)
  then show ?case by (simp add: session_inv_defs)
next
  case (question_accepted s args prog purpose W s')
  then have "authorised C prog (drop 1 args)" "session_ok C (s\<lparr>ss_dialog := None\<rparr>)" by (simp_all add: session_inv_defs)
  then show ?case using start_run_ok [OF completed_ok question_accepted.hyps(2)] by blast
next
  case (idle_analysis s W s')
  have waiting: "session_ok C (s\<lparr>ss_idle := False\<rparr>)" using idle_analysis.prems by (simp add: session_inv_defs)
  then show ?case
    using idle_analysis.hyps(2) analyse_current_ok [OF completed_ok _ waiting] by (auto simp: selection_idle_def Let_def split: if_splits)
next
  case (helper_line s line message W s')
  then show ?case using receive_ok by blast
next
  case (helper_ended s W s')
  have gone: "session_ok C (s\<lparr>ss_helper := False, ss_ready := False\<rparr>)" using helper_ended.prems by (simp add: session_inv_defs)
  then show ?case
    using helper_ended.hyps(2) finishes_okD [OF completed_ok _ session_ok_working [OF gone]]
    by (auto simp: helper_closed_def Let_def split: if_splits)
next
  case (analyser_ended s W code s')
  have "working C (s\<lparr>ss_local := False\<rparr>)" "working C (s\<lparr>ss_local := False, ss_status := ''stopped''\<rparr>)"
    using analyser_ended.prems by (simp_all add: session_inv_defs)
  then show ?case
    using analyser_ended.hyps(2) finishes_okD [OF completed_ok] by (auto simp: local_finished_def Let_def split: if_splits)
qed (rule volumes_ok ask_operation_ok selection_ok; assumption)+

lemma session_invariant: "session_reaches C s \<Longrightarrow> session_ok C s"
proof (induction rule: session_reaches.induct)
  case opened
  show ?case by (simp add: session_start_def session_ok_def working_def sound_log_def drawn_def authorised_def)
next
  case (continued s s')
  then show ?case using session_step_ok by blast
qed

lemma session_continues: "session_reaches C s \<Longrightarrow> session_step C s s' \<Longrightarrow> session_reaches C s'"
  by (rule session_reaches.continued)

text \<open>
  Property C37. One operation at a time. In every history of the window a run is sent to the helper only when no earlier one is outstanding,
  and a run is outstanding exactly while the window has an active request; it is busy then.
\<close>

theorem session_one_run:
  assumes "session_reaches C s"
  shows "one_at_a_time (ss_log s) \<and> (outstanding (ss_log s) \<longleftrightarrow> ss_active_id s \<noteq> 0) \<and> (ss_active_id s \<noteq> 0 \<longrightarrow> ss_busy s)"
  using session_invariant [OF assms] by (simp add: session_ok_def working_def sound_log_def)


text \<open>
  Property C38. The map on the screen is always in order: whatever the analyser and the worker send, the cells the window keeps are none or an
  ordered array, which is what the binary search of the live range events relies on.
\<close>

theorem session_map_ordered:
  assumes "session_reaches C s"
  shows "ss_cells s = [] \<or> (ordered_cells (ss_cells s) \<and> length (ss_cells s) \<le> max_cells)"
  using session_invariant [OF assms] by (auto simp: session_ok_def working_def drawn_def validate_cells_exact)


subsection \<open>Stop before the start\<close>

text \<open>
  Property C39. A Stop before the start. When the user stops an operation that was not yet sent to the helper, it is never sent: the moment the
  helper is ready the window ends it as stopped, with no run in the history and no analysis to follow.
\<close>

theorem stopped_before_start:
  assumes "receive C W message s = Some s'" "field message ''type'' = ''ready''" "is_object message"
    "ss_busy s" "ss_stopping s" "ss_active_id s = 0" "\<not> ss_local s" "ss_output s = []"
  shows "ss_log s' = Shown (ss_purpose s) ''Stopped safely'' # ss_log s \<and> \<not> ss_busy s' \<and> ss_active_id s' = 0 \<and> ss_local s' = ss_local s"
proof -
  let ?t = "s\<lparr>ss_ready := True, ss_status := ''stopped''\<rparr>"
  have "submit W (completed C W) (s\<lparr>ss_ready := True\<rparr>) = Some s'"
    using assms(1-3) by (simp add: receive_def Let_def)
  then have done_now: "completed_within C W (Suc (Suc 0)) 0 ?t = Some s'"
    using assms(4-7) by (simp add: submit_def completed_def numeral_2_eq_2)
  define u where "u = ?t\<lparr>ss_active_id := 0, ss_busy := False, ss_stopping := False\<rparr>"
  have "parse_value (sc_json C) 65 [] \<noteq> Inr (j, r)" for j r
    using parse_value_shortens [of "sc_json C" 65] unfolding shortens_def by force
  then obtain e where "json_parse (sc_json C) [] = Inl e"
    by (cases "parse_value (sc_json C) 65 []") (auto simp: json_parse_def skip_space_def)
  then have out: "map_outcome C 0 u = (if ss_purpose s = ''analysis'' then 127 else 0, u)"
    using assms(8) by (simp add: map_outcome_def u_def)
  define v where "v = (if fst (map_outcome C 0 u) = 0 \<and> ss_purpose s = ''unmount'' then refresh W u else u)"
  have v: "ss_status v = ''stopped''" "ss_log v = ss_log s" "\<not> ss_busy v" "ss_active_id v = 0" "ss_local v = ss_local s"
    by (simp_all add: v_def u_def refresh_def Let_def)
  have "completed_now C W 0 ?t = (log_event (Shown (ss_purpose s) (shown_status (fst (map_outcome C 0 u)) v)) v, False)"
    using assms(6,7) v(1) out by (simp add: completed_now_def Let_def u_def [symmetric] v_def)
  then show ?thesis using done_now v by (auto simp: shown_status_def succeeded_def)
qed


subsection \<open>Examples\<close>

definition demo_session :: session_config where
  "demo_session = \<lparr>sc_json = demo_json_lib, sc_sha256 = demo_digest, sc_uid = 1000, sc_mapper = ''mapper'', sc_engine = ''engine'', sc_scale = demo_scale\<rparr>"

definition demo_world :: session_world where
  "demo_world = \<lparr>sw_replaced = False, sw_readable = (\<lambda>p. True), sw_exists = (\<lambda>p. False), sw_local_error = None, sw_helper_error = None,
     sw_send_error = None, sw_lsblk_starts = True, sw_cells = 512\<rparr>"

definition demo_text :: "string \<Rightarrow> string" where
  "demo_text t = map (\<lambda>c. if c = CHR ''^'' then CHR 0x22 else c) t"

definition demo_session_map :: json where
  "demo_session_map =
     JObject [(''cell_count'', JNumber ''1''), (''cells'', JArray [JObject [(''end'', JNumber ''7''), (''start'', JNumber ''0'')]]),
       (''defrag_qualified'', JBool True), (''filesystem'', JString ''fat16''), (''map_accuracy'', JString ''exact''),
       (''total_units'', JNumber ''8'')]"

definition demo_map_line :: string where
  "demo_map_line = demo_text
     ''{^cell_count^:1,^cells^:[{^end^:7,^start^:0}],^defrag_qualified^:true,^filesystem^:^fat16^,^map_accuracy^:^exact^,^total_units^:8}''"

lemma demo_texts:
  "json_parse demo_json_lib (demo_text ''{^filesystem^:^fat16^}'') = Inr (JObject [(''filesystem'', JString ''fat16'')])"
  "json_parse demo_json_lib (demo_text ''{^type^:^ready^}'') = Inr (JObject [(''type'', JString ''ready'')])"
  "json_parse demo_json_lib (demo_text ''{}'') = Inr (JObject [])"
  "json_parse demo_json_lib (demo_map_line @ [CHR 0x0A]) = Inr demo_session_map"
  by code_simp+

definition demo_image_volume :: DesktopVolume where
  "demo_image_volume = new_volume\<lparr>dv_path := ''/img'', dv_filesystem := ''fat16'', dv_total := 4096, dv_from_image := True, dv_verified := True\<rparr>"

definition demo_analysed :: DesktopVolume where
  "demo_analysed = demo_image_volume\<lparr>dv_exact_analysis := True, dv_defrag_qualified := True\<rparr>"

definition demo_full :: "string list" where
  "demo_full = (case desktop_mutation demo_analysed ''defrag'' ''engine'' (desktop_journal demo_digest demo_analysed 1000) 4096 False of
     Inr args \<Rightarrow> args | Inl e \<Rightarrow> [])"

lemma demo_backend_fat:
  obtains b spec where "backend_by_fstype ''fat16'' = Some b" "bi_id b = ''fat16''" "operation_for b ''defrag'' = Some spec"
proof -
  have "case backend_by_fstype ''fat16'' of None \<Rightarrow> False | Some b \<Rightarrow> bi_id b = ''fat16'' \<and> operation_for b ''defrag'' \<noteq> None"
    by code_simp
  then show ?thesis using that by (auto split: option.splits)
qed

lemma demo_same_volume: "desktop_verify_identity demo_image_volume ''fat16'' = Inr demo_image_volume"
proof -
  obtain b spec where "backend_by_fstype ''fat16'' = Some b" "bi_id b = ''fat16''" "operation_for b ''defrag'' = Some spec"
    by (rule demo_backend_fat)
  then show ?thesis by (simp add: desktop_verify_identity_def demo_image_volume_def new_volume_def generic_fat_def)
qed

lemma demo_mutation: "desktop_mutation demo_analysed ''defrag'' ''engine'' (desktop_journal demo_digest demo_analysed 1000) 4096 False = Inr demo_full"
proof -
  obtain b spec where "backend_by_fstype ''fat16'' = Some b" "operation_for b ''defrag'' = Some spec"
    by (rule demo_backend_fat)
  moreover have "desktop_journal demo_digest demo_analysed 1000 \<noteq> []" by (simp add: desktop_journal_def Let_def)
  ultimately have "\<exists>args. desktop_mutation demo_analysed ''defrag'' ''engine'' (desktop_journal demo_digest demo_analysed 1000) 4096 False = Inr args"
    by (simp add: desktop_mutation_def demo_analysed_def demo_image_volume_def new_volume_def)
  then show ?thesis unfolding demo_full_def by (elim exE) simp
qed

lemma demo_presented: "ss_volumes s = [demo_image_volume] \<Longrightarrow> ss_selected s = Some 0 \<Longrightarrow>
   present_map demo_session_map s = Inr (s\<lparr>ss_volumes := [demo_analysed], ss_map := demo_session_map,
     ss_cells := [JObject [(''end'', JNumber ''7''), (''start'', JNumber ''0'')]]\<rparr>)"
proof -
  have numbers: "number_in demo_session_map ''cell_count'' = 1" "number_in demo_session_map ''total_units'' = 8"
      "number_in demo_session_map ''unknown_bytes'' = 0"
    by (simp_all add: number_in_def json_find_def demo_session_map_def unsigned_or_def is_number_def unsigned_value_def number_text_def
      whole_digits_def nat_of_digits_def is_digit_def)
  have fields: "json_find demo_session_map ''cells'' = Some (JArray [JObject [(''end'', JNumber ''7''), (''start'', JNumber ''0'')]])"
      "field demo_session_map ''filesystem'' = ''fat16''" "field demo_session_map ''map_accuracy'' = ''exact''"
      "json_find demo_session_map ''defrag_qualified'' = Some (JBool True)" "json_find demo_session_map ''growth_qualified'' = None"
      "field demo_session_map ''defrag_reason'' = []" "field demo_session_map ''growth_reason'' = []"
    by code_simp+
  have follow: "cells_follow None [JObject [(''end'', JNumber ''7''), (''start'', JNumber ''0'')]] = Inr ()"
    by (simp add: number_in_def json_find_def unsigned_or_def is_number_def unsigned_value_def number_text_def whole_digits_def
      nat_of_digits_def is_digit_def is_object_def)
  have analysed: "demo_image_volume\<lparr>dv_exact_analysis := True, dv_defrag_qualified := True, dv_growth_qualified := False,
      dv_defrag_reason := [], dv_growth_reason := []\<rparr> = demo_analysed"
    by (simp add: demo_analysed_def demo_image_volume_def new_volume_def)
  assume s: "ss_volumes s = [demo_image_volume]" "ss_selected s = Some 0"
  have now: "current s = Some demo_image_volume" "set_current v s = s\<lparr>ss_volumes := [v]\<rparr>" for v
    by (simp_all add: current_def set_current_def s)
  show ?thesis
    unfolding present_map_def
    by (simp add: numbers fields follow now demo_same_volume max_cells_def bool_or_def analysed Let_def del: cells_follow.simps)
qed


abbreviation demo_cells_line :: string where "demo_cells_line \<equiv> demo_map_line @ [CHR 0x0A]"

definition demo_words :: "string list" where "demo_words = analysis_words demo_session demo_world demo_image_volume"

abbreviation demo_idle :: "DesktopVolume \<Rightarrow> session" where
  "demo_idle v \<equiv> session_start\<lparr>ss_volumes := [v], ss_selected := Some 0\<rparr>"

text \<open>The window after an image was opened and analysed.\<close>

definition demo_window :: session where
  "demo_window =
     (demo_idle demo_analysed)\<lparr>ss_map := demo_session_map, ss_cells := [JObject [(''end'', JNumber ''7''), (''start'', JNumber ''0'')]],
       ss_program := ''mapper'', ss_args := demo_words, ss_purpose := ''analysis'', ss_output := demo_cells_line,
       ss_log := [Shown ''analysis'' ''Completed'', Local_started demo_words]\<rparr>"

lemmas session_world_defs = demo_session_def demo_world_def

lemma image_unqualified: "demo_image_volume\<lparr>dv_exact_analysis := False, dv_defrag_qualified := False, dv_growth_qualified := False,
    dv_defrag_reason := [], dv_growth_reason := []\<rparr> = demo_image_volume"
  by (simp add: demo_image_volume_def new_volume_def)

lemma demo_opened: "session_reaches demo_session ((demo_idle demo_image_volume)\<lparr>ss_idle := True\<rparr>)"
proof -
  have "session_step demo_session session_start (open_image ''/img'' session_start)"
    by (rule session_step.button_image) (simp_all add: session_start_def)
  then have s1: "session_reaches demo_session (session_start\<lparr>ss_image_path := ''/img'', ss_probing := True\<rparr>)"
    using session_continues [OF session_reaches.opened] by (simp add: open_image_def session_start_def)
  have field: "field (JObject [(''filesystem'', JString ''fat16'')]) ''filesystem'' = ''fat16''" by code_simp
  obtain b spec where "backend_by_fstype ''fat16'' = Some b" "bi_id b = ''fat16''" "operation_for b ''defrag'' = Some spec"
    by (rule demo_backend_fat)
  then have "probed demo_session (Inr (demo_text ''{^filesystem^:^fat16^}'')) 4096 False
      (session_start\<lparr>ss_image_path := ''/img'', ss_probing := True\<rparr>) = (demo_idle demo_image_volume)\<lparr>ss_idle := True\<rparr>"
    by (simp add: probed_def Let_def demo_session_def demo_texts field selection_changed_def session_start_def demo_image_volume_def
      new_volume_def)
  then show ?thesis
    using session_continues [OF s1 session_step.image_probed, of "Inr (demo_text ''{^filesystem^:^fat16^}'')" 4096 False] by simp
qed

text \<open>An analysis of the selected volume by the local analyser.\<close>

lemma analysis_started:
  assumes s: "session_reaches demo_session s" "ss_idle s" "\<not> ss_closing s" "\<not> ss_busy s" "\<not> ss_discovering s" "\<not> ss_probing s"
      "\<not> ss_local s"
    and v: "current s = Some v"
  shows "session_reaches demo_session (log_event (Local_started (analysis_words demo_session demo_world v))
    ((prepared (analysis_words demo_session demo_world v) ''mapper'' ''analysis''
       (set_current (v\<lparr>dv_exact_analysis := False, dv_defrag_qualified := False, dv_growth_qualified := False,
         dv_defrag_reason := [], dv_growth_reason := []\<rparr>) (s\<lparr>ss_idle := False\<rparr>)))\<lparr>ss_local := True\<rparr>))"
proof -
  have current_cleared: "current (prepared ws ''mapper'' ''analysis'' (set_current u (s\<lparr>ss_idle := False\<rparr>))) = Some u" for ws u
    using v by (auto simp: current_def set_current_def prepared_def Let_def split: option.splits if_splits)
  have local_kept: "ss_local (prepared ws ''mapper'' ''analysis'' (set_current u t)) = ss_local t" for ws u t
    by (simp add: prepared_def set_current_def Let_def split: option.splits)
  have v': "current (s\<lparr>ss_idle := False\<rparr>) = Some v" using v by (auto simp: current_def split: option.splits)
  show ?thesis
    by (rule session_continues [OF s(1) session_step.idle_analysis [OF s(2), where W = demo_world]])
      (simp add: selection_idle_def Let_def s v' analyse_current_def start_run_def demo_world_def current_cleared local_kept)
qed

lemma demo_window_reached: "session_reaches demo_session demo_window"
proof -
  let ?R = "session_reaches demo_session"
  let ?s3 = "(demo_idle demo_image_volume)\<lparr>ss_busy := True, ss_purpose := ''analysis'', ss_program := ''mapper'', ss_args := demo_words,
    ss_local := True, ss_log := [Local_started demo_words]\<rparr>"
  have "current ((demo_idle demo_image_volume)\<lparr>ss_idle := True\<rparr>) = Some demo_image_volume" by (simp add: current_def)
  from analysis_started [OF demo_opened _ _ _ _ _ _ this]
  have s3: "?R ?s3"
    by (simp add: prepared_def Let_def set_current_def image_unqualified session_start_def demo_words_def [symmetric])
  have "\<not> analysis_progress demo_map_line" by code_simp
  then have "local_line demo_map_line False ?s3 = ?s3\<lparr>ss_output := demo_cells_line\<rparr>"
    by (simp add: local_line_def session_start_def)
  then have s4: "?R (?s3\<lparr>ss_output := demo_cells_line\<rparr>)"
    using session_continues [OF s3 session_step.analyser_line, of demo_map_line False] by simp
  let ?t = "?s3\<lparr>ss_output := demo_cells_line, ss_local := False, ss_busy := False\<rparr>"
  have shown: "present_map demo_session_map ?t = Inr (?t\<lparr>ss_volumes := [demo_analysed], ss_map := demo_session_map,
      ss_cells := [JObject [(''end'', JNumber ''7''), (''start'', JNumber ''0'')]]\<rparr>)"
    by (rule demo_presented) simp_all
  have "completed_now demo_session demo_world 0 (?s3\<lparr>ss_output := demo_cells_line, ss_local := False\<rparr>) = (demo_window, False)"
    using shown
    by (simp add: completed_now_def Let_def map_outcome_def demo_session_def demo_texts(4) shown_status_def succeeded_def writes_layout_def
      demo_window_def session_start_def)
  then have "local_finished demo_session demo_world 0 (?s3\<lparr>ss_output := demo_cells_line\<rparr>) = Some demo_window"
    by (simp add: local_finished_def Let_def completed_def numeral_2_eq_2 session_start_def)
  then show ?thesis by (intro session_continues [OF s4 session_step.analyser_ended]) simp_all
qed

lemma demo_asked:
  assumes "ss_volumes s = [demo_analysed]" "ss_selected s = Some 0" "\<not> ss_busy s"
  shows "ask_operation demo_session demo_world ''defrag'' s = s\<lparr>ss_dialog := Some (demo_full, ''operation-engine'', ''defrag'')\<rparr>"
  using assms by (simp add: ask_operation_def current_def demo_session_def demo_world_def demo_mutation Let_def)

lemma demo_accepted:
  assumes "\<not> ss_helper s" "\<not> ss_ready s"
  shows "start_run demo_world fin args ''operation-engine'' ''defrag'' s =
    Some ((prepared args ''operation-engine'' ''defrag'' s)\<lparr>ss_helper := True\<rparr>)"
  using assms by (simp add: start_run_def demo_world_def start_helper_def prepared_def Let_def)

definition demo_sent :: session where
  "demo_sent = demo_window\<lparr>ss_busy := True, ss_output := [], ss_purpose := ''defrag'', ss_program := ''operation-engine'', ss_args := demo_full,
     ss_helper := True, ss_ready := True, ss_request_id := 1, ss_active_id := 1,
     ss_log := Sent_run 1 ''operation-engine'' (drop 1 demo_full) # ss_log demo_window\<rparr>"

lemma demo_sent_reached: "session_reaches demo_session demo_sent"
proof -
  let ?R = "session_reaches demo_session"
  let ?s1 = "demo_window\<lparr>ss_dialog := Some (demo_full, ''operation-engine'', ''defrag'')\<rparr>"
  let ?s2 = "demo_window\<lparr>ss_busy := True, ss_output := [], ss_purpose := ''defrag'', ss_program := ''operation-engine'', ss_args := demo_full,
    ss_helper := True\<rparr>"
  have "?R (ask_operation demo_session demo_world ''defrag'' demo_window)"
    by (rule session_continues [OF demo_window_reached session_step.button_operation]) (simp add: demo_window_def session_start_def)
  moreover have "ask_operation demo_session demo_world ''defrag'' demo_window = ?s1"
    by (rule demo_asked) (simp_all add: demo_window_def session_start_def)
  ultimately have s1: "?R ?s1" by simp
  have "start_run demo_world (completed demo_session demo_world) demo_full ''operation-engine'' ''defrag'' (?s1\<lparr>ss_dialog := None\<rparr>) = Some ?s2"
    by (subst demo_accepted) (simp_all add: prepared_def Let_def demo_window_def session_start_def)
  then have s2: "?R ?s2" by (intro session_continues [OF s1 session_step.question_accepted]) simp_all
  have ready: "is_object (JObject [(''type'', JString ''ready'')])" "field (JObject [(''type'', JString ''ready'')]) ''type'' = ''ready''"
    by code_simp+
  have "receive demo_session demo_world (JObject [(''type'', JString ''ready'')]) ?s2 = Some demo_sent"
    by (simp add: receive_def ready submit_def write_helper_def demo_world_def demo_sent_def demo_window_def session_start_def Let_def)
  then show ?thesis
    by (intro session_continues [OF s2 session_step.helper_line
        [where line = "demo_text ''{^type^:^ready^}''" and message = "JObject [(''type'', JString ''ready'')]"]])
      (simp_all add: demo_session_def demo_texts(2))
qed

theorem session_one_run_witness:
  "session_reaches demo_session demo_sent \<and> ss_active_id demo_sent = 1 \<and> outstanding (ss_log demo_sent) \<and> one_at_a_time (ss_log demo_sent)"
proof -
  have "ss_active_id demo_sent = 1" by (simp add: demo_sent_def)
  then show ?thesis using session_one_run [OF demo_sent_reached] demo_sent_reached by simp
qed


theorem session_map_ordered_witness:
  "session_reaches demo_session demo_window \<and> ss_cells demo_window \<noteq> [] \<and> ordered_cells (ss_cells demo_window)"
proof -
  have "ss_cells demo_window \<noteq> []" by (simp add: demo_window_def)
  then show ?thesis using session_map_ordered [OF demo_window_reached] demo_window_reached by simp
qed

theorem stopped_before_start_witness:
  "\<exists>s'. receive demo_session demo_world (JObject [(''type'', JString ''ready'')])
       (session_start\<lparr>ss_busy := True, ss_stopping := True, ss_purpose := ''defrag'', ss_helper := True\<rparr>) = Some s' \<and>
     ss_log s' = [Shown ''defrag'' ''Stopped safely'']"
proof -
  let ?s = "session_start\<lparr>ss_busy := True, ss_stopping := True, ss_purpose := ''defrag'', ss_helper := True\<rparr>"
  let ?m = "JObject [(''type'', JString ''ready'')]"
  have ready: "field ?m ''type'' = ''ready''" "is_object ?m" by code_simp+
  obtain s' where s': "receive demo_session demo_world ?m ?s = Some s'" using receive_returns by (metis not_None_eq)
  have "ss_log s' = Shown (ss_purpose ?s) ''Stopped safely'' # ss_log ?s"
    using stopped_before_start [OF s' ready] by (simp add: session_start_def)
  then show ?thesis using s' by (intro exI [of _ s']) (simp add: session_start_def)
qed

text \<open>
  The question before an operation runs a main loop of its own, and \<open>start\<close> does not look at \<open>busy_\<close> when it returns. A refresh
  that ends while the question is open selects a volume and so starts its analysis; the accepted operation then takes over the
  purpose of that analysis, and the end of the analyser is shown as its completion although no command was ever sent.
\<close>

lemma false_completion:
  "\<exists>s. session_reaches demo_session s \<and> Shown ''defrag'' ''Completed'' \<in> set (ss_log s) \<and>
     (\<forall>ident prog args. Sent_run ident prog args \<notin> set (ss_log s))"
proof -
  let ?R = "session_reaches demo_session"
  let ?s1 = "demo_window\<lparr>ss_refresh_path := ''/img'', ss_discovering := True\<rparr>"
  let ?s2 = "?s1\<lparr>ss_dialog := Some (demo_full, ''operation-engine'', ''defrag'')\<rparr>"
  let ?s3 = "?s2\<lparr>ss_discovering := False, ss_cells := [], ss_map := JNull, ss_idle := True\<rparr>"
  have path: "dv_path demo_analysed = ''/img''" "dv_from_image demo_analysed" by (simp_all add: demo_analysed_def demo_image_volume_def)
  have "refresh demo_world demo_window = ?s1"
    by (simp add: refresh_def demo_window_def session_start_def demo_world_def current_def path Let_def)
  then have s1: "?R ?s1"
    using session_continues [OF demo_window_reached session_step.button_refresh, of demo_world] by (simp add: demo_window_def session_start_def)
  have "ask_operation demo_session demo_world ''defrag'' ?s1 = ?s2"
    by (rule demo_asked) (simp_all add: demo_window_def session_start_def)
  then have s2: "?R ?s2"
    using session_continues [OF s1 session_step.button_operation, of demo_world "''defrag''"] by (simp add: demo_window_def session_start_def)
  have none: "desktop_discover (JObject []) = []" by (simp add: desktop_discover_def json_items_def json_find_def)
  have "discovered demo_session (Inr (demo_text ''{}'')) ?s2 = ?s3"
    by (simp add: discovered_def demo_session_def demo_texts(3) none preferred_def path selection_changed_def demo_window_def
      session_start_def Let_def)
  then have s3: "?R ?s3"
    using session_continues [OF s2 session_step.volumes_listed, of "Inr (demo_text ''{}'')"] by simp
  have "current ?s3 = Some demo_analysed" by (simp add: current_def demo_window_def)
  from analysis_started [OF s3 _ _ _ _ _ _ this]
  obtain s4 where s4: "?R s4" "ss_dialog s4 = Some (demo_full, ''operation-engine'', ''defrag'')" "ss_local s4" "\<not> ss_helper s4" "\<not> ss_ready s4"
      "ss_active_id s4 = 0" "\<forall>ident prog args. Sent_run ident prog args \<notin> set (ss_log s4)"
    by (simp add: prepared_def set_current_def demo_window_def session_start_def Let_def)
  define s5 where "s5 = (prepared demo_full ''operation-engine'' ''defrag'' (s4\<lparr>ss_dialog := None\<rparr>))\<lparr>ss_helper := True\<rparr>"
  have "?R s5"
    by (rule session_continues [OF s4(1) session_step.question_accepted [OF s4(2), where W = demo_world]])
      (simp add: demo_accepted s4 s5_def)
  moreover have "ss_local s5" using s4(3) by (simp add: s5_def prepared_def Let_def)
  ultimately have last_step: "local_finished demo_session demo_world 0 s5 = Some s6 \<Longrightarrow> ?R s6" for s6
    using session_continues session_step.analyser_ended by blast
  define s6 where "s6 = log_event (Shown ''defrag'' ''Completed'') (s5\<lparr>ss_local := False, ss_active_id := 0, ss_busy := False, ss_stopping := False\<rparr>)"
  have "local_finished demo_session demo_world 0 s5 = Some s6"
    by (simp add: local_finished_def completed_def numeral_2_eq_2 completed_now_def map_outcome_def shown_status_def succeeded_def
      s6_def s5_def prepared_def s4 Let_def)
  then have "?R s6" by (rule last_step)
  moreover have "set (ss_log s6) = insert (Shown ''defrag'' ''Completed'') (set (ss_log s4))" by (simp add: s6_def s5_def prepared_def Let_def)
  ultimately show ?thesis using s4(7) by (intro exI [of _ s6]) simp
qed

end
