(* ===== verification/Spec2Isabelle.thy ===== *)
theory Spec2Isabelle
  imports Layout Runtime Ld_Io Posix Paths Topology Mounts Device Module_Host Loaders Corpus_Roundtrip Fixtures Worker_Json Worker_State
    Cpp_Json Fs_Path Registry Helper_Policy Desktop_Policy Ranges Map_Adapters Map_Check Engine Child Supervisor Live_Map Session
begin

text \<open>
  A verification library for Defragmenter, a raw-device defragmenter for many file systems. File names below are
  relative to \<open>src/defragger/\<close>.

  \<^bold>\<open>The program.\<close> The file-system engines are separately installed modules (\<open>.so\<close> files) behind C function tables.
  This repository holds what surrounds them. The C core (\<open>src/core/\<close>) plans layouts, opens and identifies devices, refuses
  mounted or busy ones, keeps recovery files in trusted directories and speaks the Stop and result protocols. The module host and
  the per-file-system workers (\<open>native/*.c\<close>) bind a module to one target and guard every write it makes. The C++ programs
  (\<open>native/*.cpp\<close>) hold the registry of back ends, read and check the workers' JSON reports, build the
  allocation map, decide what the desktop may ask for and what the privileged helper will run, and supervise what it runs. The test-media programs
  (\<open>test_media/\<close>) write a deterministic corpus to fresh file systems and check it after a run.

  A request passes through these parts in order: \<open>desktop_discover\<close> finds a volume, the mapper probes and maps it,
  \<open>desktop_verify_identity\<close> records its identity, \<open>desktop_mutation\<close> builds a command, the window's session sends it once the
  helper is ready, the helper's \<open>helper_command\<close> checks it as root and its worker thread starts the operation engine, which
  resolves a worker with \<open>resolve_program\<close>; the worker's loader binds the module, and the module host mediates the writes through the
  device and I/O functions of the core. The events of the worker come back through the helper and change the live map.

  \<^bold>\<open>Theories and sources.\<close>

    \<^item> \<open>Prelude\<close>, \<open>Posix\<close>, \<open>Fs_Path\<close>: word arithmetic and shared lemmas; what the sources use of the C library, POSIX and
      \<open>std::filesystem::path\<close>. A C string is the list of its characters before the terminating zero.
    \<^item> \<open>Layout\<close>: \<open>ld_generic_layout.c\<close>, both planners with their two passes over the caller's arrays.
    \<^item> \<open>Runtime\<close>: \<open>ld_runtime.c\<close>, \<open>ld_stop.c\<close> (signals and calls as one state machine), \<open>ld_protocol.c\<close>.
    \<^item> \<open>Ld_Io\<close>: \<open>ld_io.c\<close>, exact transfers, the packed bitmap, resource limits.
    \<^item> \<open>Paths\<close>: \<open>ld_path.c\<close>, the walk that creates a trusted directory tree against an arbitrary kernel, staging capacity.
    \<^item> \<open>Topology\<close>, \<open>Mounts\<close>, \<open>Device\<close>: \<open>ld_device.c\<close>, the closure of related devices, mount, swap and loop
      checks, the verified open with its second check, device identities.
    \<^item> \<open>Module_Host\<close>, \<open>Loaders\<close>: \<open>filesystem_module_host.c\<close> and the \<open>*_module_loader.c\<close> programs.
    \<^item> \<open>Corpus\<close>, \<open>Raw\<close>, \<open>Corpus_Roundtrip\<close>, \<open>Fat_Fixture\<close>, \<open>Ofs_Fixture\<close>, \<open>Fixtures\<close>, \<open>Worker_Json\<close>,
      \<open>Worker_State\<close>: the test media: corpus tables, placement plan, byte oracle and checker, the adapters to the modules,
      the reader of the analyser's report and the saved state of a test disk.
    \<^item> \<open>Cpp_Json\<close>: \<open>json.cpp\<close>, parser, accessors, printer.
    \<^item> \<open>Registry\<close>: \<open>runtime.cpp\<close>, the twenty back ends, their validation, look-ups, programs, options, the manifest.
    \<^item> \<open>Helper_Policy\<close>: \<open>helper_policy.cpp\<close>, the argument contract of the privileged helper.
    \<^item> \<open>Supervisor\<close>: \<open>privileged_helper.cpp\<close>, the request lines, the shared state and the steps of the three threads.
    \<^item> \<open>Engine\<close>, \<open>Child\<close>: \<open>operation_engine.cpp\<close>, \<open>mapper.cpp\<close> and \<open>process.cpp\<close>, the programs between helper and worker.
    \<^item> \<open>Ranges\<close>, \<open>Map_Adapters\<close>, \<open>Map_Check\<close>: \<open>map.cpp\<close>, ranges of units, the adapters of the back ends, what all maps share.
    \<^item> \<open>Desktop_Policy\<close>: \<open>desktop_policy.cpp\<close> and \<open>desktop_map_geometry.cpp\<close>; \<open>Live_Map\<close>: \<open>desktop_live_map.cpp\<close>;
      \<open>Session\<close>: the decisions of \<open>desktop.cpp\<close> as callbacks of one main loop.

  \<^bold>\<open>How code becomes definitions.\<close> Functions keep the names of the code; a part of a long function that has its own
  definition is named after what it does. A C \<open>struct\<close> is a record, \<open>uint64_t\<close> and \<open>size_t\<close> are 64-bit words, \<open>uint32_t\<close> and
  \<open>unsigned\<close> are 32-bit words, with the wrap-around of the code. An \<open>errno\<close> result is \<open>errno + 'a\<close>; a C++ exception is its
  message, \<open>string + 'a\<close> (type \<open>exc\<close>); a function that ends the process returns the text and the status it leaves with.
  State is passed explicitly (records for the host, the target, the parser), pointers into caller's buffers are list updates, a
  \<open>std::map\<close> is a list sorted by key. Everything outside this repository is a parameter: the kernel's answers (which may
  change between two calls), the module tables, the Infiltratr Common library (token parsing, checked arithmetic, escaping), SHA-256 and the
  conversion of floating-point text; what a proof needs of them is a named hypothesis with an instance in its witness.

  \<^bold>\<open>Interfaces.\<close> \<open>allocation_map\<close> (\<open>Ld_Io\<close>; the packed bitmap is one), \<open>spaced_checks\<close> (\<open>Module_Host\<close>; writes between two
  identity checks stay below the limit), \<open>evidence\<close> (\<open>Raw\<close>; a streaming checker whose state only grows by confirmed
  bytes) and \<open>codec_adapter\<close> (\<open>Fixtures\<close>; an adapter is silent without its module) are locales, each interpreted on the
  model's own definitions.

  \<^bold>\<open>What the properties show.\<close> The planners refine an abstract allocation and are sound and complete, and leave the caller's
  arrays alone on failure. Directory walks end only in directories owned and protected as demanded. Device checks are exact
  verdicts over the topology closure and fail closed, and an opened descriptor is the object that was checked. Module writes stay inside the
  target, and the identity is rechecked in time. A worker binds the module of its own format. The corpus written is accepted by
  its checker and by no other content. JSON values survive printing and parsing. Every name belongs to one back end; privileged program
  resolution ignores the environment; the helper accepts exactly the requests of its contract. Range merging and
  aggregation are exact, and every map is complete whichever adapter built it. The engine runs nothing on a target that is in use
  and reads a request as the helper checked it; the capture of a child is its whole output or an error. In every interleaving of the
  helper's threads a queued Stop is not lost, a writer is interrupted only after it announced its readiness, and there is one
  child, started by a command of the policy. The live map conserves the units of each cell and keeps its order; the window has
  one run outstanding at most, sends only commands the helper accepts, and every one of its callbacks returns.

  \<^bold>\<open>Bounds and fuel.\<close> Recursion is structural or has a termination proof wherever the code's loop has one. The scanner of
  \<open>Worker_Json\<close> carries \<open>2 * length + 1\<close> steps and the array and object loops of \<open>Cpp_Json\<close> one step per remaining character:
  every round consumes input, and lemmas (\<open>skip_value_ends\<close>, \<open>array_items_fuel\<close>, \<open>object_items_fuel\<close>) show that the fuel is never used
  up. The depth of JSON is the code's own limit of 64 levels. The device topology walk ends because the array of
  related devices has the fixed size of the code. Two levels of \<open>completed\<close> are enough in \<open>Session\<close> (\<open>session_returns\<close>).

  \<^bold>\<open>Not modelled.\<close> The rest of the GTK desktop: widgets, drawing, themes and the activity log in \<open>desktop.cpp\<close>,
  \<open>desktop_map_render.cpp\<close>, and \<open>desktop_process_session.cpp\<close>, which wraps the asynchronous streams of GLib. Of
  \<open>privileged_helper.cpp\<close> the texts of the replies, the output and progress lines passed on and the spawn attributes; the
  rest of \<open>test_media_worker.c\<close>, which runs external programs and mounts; texts printed for the user. The modules and the common
  library are not in the repository.
\<close>

end
